(* ===== verification/Bk_Prelude.thy ===== *)
theory Bk_Prelude
  imports Main "HOL-Library.Word"
begin

text \<open>
  Shared ground of the development: the machine integers of the SDK (\<open>UINT8\<close>, \<open>UINT16\<close>,
  \<open>UINT32\<close>), a byte-addressed memory with the block operations \<open>os_memcpy\<close> and \<open>os_memset\<close>
  of \<^verbatim>\<open>beken378/os/mem_arch.c\<close>, the memory mapped registers behind \<open>REG_READ\<close> and
  \<open>REG_WRITE\<close>, the faults a function can end in (a failed \<open>ASSERT\<close> spins for ever, a null
  pointer or an index outside an array is undefined behaviour), and the lemmas on lists,
  words and memory that the component theories share.
\<close>

unbundle bit_operations_syntax

named_theorems mem_simps
named_theorems reg_simps

section \<open>Machine integers\<close>

type_synonym u8 = "8 word"
type_synonym u16 = "16 word"
type_synonym u32 = "32 word"

text \<open>
  Differences of unsigned words that do not wrap, and sums that stay below the width, are the
  differences and sums of their values.
\<close>

lemma unat_diff [simp]: "y \<le> x \<Longrightarrow> unat (x - y) = unat x - unat y" for x y :: u32
  by (simp add: unat_sub_if' word_le_nat_alt)

lemma unat_u32_lt [simp]: "unat (x :: u32) < 4294967296"
proof -
  have "unat x < 2 ^ LENGTH(32)" by (rule unsigned_less)
  then show ?thesis by simp
qed

lemma unat_add_fit: "unat x + unat y < 4294967296 \<Longrightarrow> unat (x + y) = unat x + unat y"
  for x y :: u32
  by (simp add: unat_word_ariths)

lemma unat_add_le:
  fixes x y c :: u32
  assumes "unat x + unat y \<le> unat c"
  shows "unat (x + y) = unat x + unat y"
  using assms unat_u32_lt [of c] by (intro unat_add_fit) linarith

lemma unat_mult_fit: "unat x * unat y < 4294967296 \<Longrightarrow> unat (x * y) = unat x * unat y"
  for x y :: u32
  by (simp add: unat_word_ariths)

lemma unat_sub_add:
  fixes r w c :: u32
  assumes "unat r \<le> unat w" and "unat w \<le> unat c"
  shows "unat (c - w + r) = unat c - unat w + unat r"
proof -
  have "unat (c - w) = unat c - unat w" using assms by (simp add: word_le_nat_alt)
  moreover have "unat c - unat w + unat r < 4294967296"
    using assms unat_u32_lt [of c] by linarith
  ultimately show ?thesis by (simp add: unat_add_fit)
qed

lemma u32_mult_eq_0:
  fixes x y :: u32
  assumes "unat x * unat y < 4294967296"
  shows "x * y = 0 \<longleftrightarrow> unat x * unat y = 0"
proof -
  have "x * y = 0 \<longleftrightarrow> unat (x * y) = 0" by (simp add: unat_eq_zero)
  with assms show ?thesis by (simp add: unat_mult_fit)
qed

lemma unat_of_nat_u32: "n < 4294967296 \<Longrightarrow> unat (of_nat n :: u32) = n"
  by (simp only: unsigned_of_nat) (simp add: take_bit_nat_eq_self)

lemma of_nat_unat_u32: "of_nat (unat x) = x" for x :: u32
  by simp

lemma unat_eq_iff_u32: "unat x = unat y \<longleftrightarrow> x = y" for x y :: u32
  by (simp add: word_unat_eq_iff)

text \<open>The low bits of a word are a remainder, the others a multiple.\<close>

lemma unat_and_mask: "unat (x AND mask k) = unat x mod 2 ^ k" for x :: u32
proof -
  have "unat (x AND mask k) = unat (take_bit k x)" by (simp only: take_bit_eq_mask)
  also have "\<dots> = take_bit k (unat x)" by (simp only: unsigned_take_bit_eq)
  finally show ?thesis by (simp only: take_bit_eq_mod)
qed

lemma and_mask_split: "(x AND NOT (mask k)) + (x AND mask k) = x" for x :: u32
proof -
  have "(x AND NOT (mask k)) AND (x AND mask k) = 0"
    by (rule bit_word_eqI) (auto simp: bit_simps)
  then have "(x AND NOT (mask k)) + (x AND mask k) = (x AND NOT (mask k)) OR (x AND mask k)"
    by (rule disjunctive_add_eq_or)
  also have "\<dots> = x" by (rule bit_word_eqI) (auto simp: bit_simps)
  finally show ?thesis .
qed

lemma unat_and_not_mask: "unat (x AND NOT (mask k)) = unat x - unat x mod 2 ^ k" for x :: u32
proof -
  have "x AND NOT (mask k) = x - (x AND mask k)" using and_mask_split [of x k] by (simp add: eq_diff_eq)
  moreover have "x AND mask k \<le> x" by (simp add: word_and_le2)
  ultimately show ?thesis by (simp only: unat_diff unat_and_mask)
qed

section \<open>Faults\<close>

datatype c_fault =
    Assert_failed   \<comment> \<open>\<open>ASSERT\<close> of \<^verbatim>\<open>common/generic.h\<close>: prints and spins for ever\<close>
  | Null_deref      \<comment> \<open>a null pointer is dereferenced\<close>
  | Out_of_bounds   \<comment> \<open>an array is indexed outside its bounds\<close>
  | Spins           \<comment> \<open>a polling loop never ends\<close>
  | Bad_cast        \<comment> \<open>a \<open>void *\<close> is read as a struct it does not point to\<close>
  | Stale_pointer   \<comment> \<open>a block that is not allocated is read or freed\<close>

type_synonym 'a result = "c_fault + 'a"

text \<open>The status codes of \<^verbatim>\<open>common/error.h\<close> that the services share.\<close>

abbreviation (input) kNoErr :: int where "kNoErr \<equiv> 0"
abbreviation (input) kGeneralErr :: int where "kGeneralErr \<equiv> -1"
abbreviation (input) kNoMemoryErr :: int where "kNoMemoryErr \<equiv> -6728"

text \<open>Sequencing of fallible steps.\<close>

definition bind_res :: "'a result \<Rightarrow> ('a \<Rightarrow> 'b result) \<Rightarrow> 'b result" where
  "bind_res x f = (case x of Inl e \<Rightarrow> Inl e | Inr y \<Rightarrow> f y)"

lemma bind_res_simps [simp]: "bind_res (Inl e) f = Inl e" "bind_res (Inr y) f = f y"
  by (simp_all add: bind_res_def)

lemma bind_res_Inr: "bind_res x f = Inr z \<longleftrightarrow> (\<exists>y. x = Inr y \<and> f y = Inr z)"
  by (cases x) simp_all

lemma map_sum_Inr: "map_sum id f x = Inr y \<longleftrightarrow> (\<exists>z. x = Inr z \<and> y = f z)"
  by (cases x) auto

section \<open>Byte memory\<close>

type_synonym mem = "nat \<Rightarrow> u8"

definition mread :: "mem \<Rightarrow> nat \<Rightarrow> nat \<Rightarrow> u8 list" where
  "mread m a n = map (\<lambda>i. m (a + i)) [0..<n]"

definition mwrite :: "mem \<Rightarrow> nat \<Rightarrow> u8 list \<Rightarrow> mem" where
  "mwrite m a bs = (\<lambda>x. if a \<le> x \<and> x < a + length bs then bs ! (x - a) else m x)"

text \<open>\<open>os_memcpy\<close> reads all of the source before it writes: the C function is only defined on
  blocks that do not overlap.\<close>

definition os_memcpy :: "nat \<Rightarrow> nat \<Rightarrow> nat \<Rightarrow> mem \<Rightarrow> mem" where
  "os_memcpy dst src n m = mwrite m dst (mread m src n)"

definition os_memset :: "nat \<Rightarrow> u8 \<Rightarrow> nat \<Rightarrow> mem \<Rightarrow> mem" where
  "os_memset b c len m = mwrite m b (replicate len c)"

definition disjoint_blocks :: "nat \<Rightarrow> nat \<Rightarrow> nat \<Rightarrow> nat \<Rightarrow> bool" where
  "disjoint_blocks a n b k \<longleftrightarrow> a + n \<le> b \<or> b + k \<le> a"

lemma length_mread [simp]: "length (mread m a n) = n"
  by (simp add: mread_def)

lemma mread_0 [simp]: "mread m a 0 = []"
  by (simp add: mread_def)

lemma mwrite_Nil [simp]: "mwrite m a [] = m"
  by (rule ext) (auto simp: mwrite_def)

lemma nth_mread [simp]: "i < n \<Longrightarrow> mread m a n ! i = m (a + i)"
  by (simp add: mread_def)

lemma mread_add: "mread m a (n + k) = mread m a n @ mread m (a + n) k"
  by (rule nth_equalityI) (auto simp: nth_append)

lemma mread_Suc: "mread m a (Suc n) = m a # mread m (Suc a) n"
  using mread_add [of m a 1 n] by (simp add: mread_def)

lemma take_mread: "take k (mread m a n) = mread m a (min k n)"
  by (rule nth_equalityI) auto

lemma drop_mread: "drop k (mread m a n) = mread m (a + k) (n - k)"
  by (rule nth_equalityI) (auto simp: add.assoc)

lemma mread_mwrite_same [mem_simps]: "length bs = n \<Longrightarrow> mread (mwrite m a bs) a n = bs"
  by (rule nth_equalityI) (auto simp: mwrite_def)

lemma mread_mwrite_disjoint [mem_simps]:
  "b + n \<le> a \<or> a + length bs \<le> b \<Longrightarrow> mread (mwrite m a bs) b n = mread m b n"
  by (rule nth_equalityI) (auto simp: mwrite_def)

lemma mwrite_outside [mem_simps]:
  "x < a \<or> a + length bs \<le> x \<Longrightarrow> mwrite m a bs x = m x"
  by (auto simp: mwrite_def)

lemma mwrite_append: "mwrite (mwrite m a xs) (a + length xs) ys = mwrite m a (xs @ ys)"
  by (rule ext) (auto simp: mwrite_def nth_append)

lemma mread_mwrite_append:
  assumes "a = b + k" and "n = k + length bs"
  shows "mread (mwrite m a bs) b n = mread m b k @ bs"
  using assms by (simp add: mread_add mem_simps)

text \<open>Two block copies to adjacent targets are one write, when the first does not change the
  source of the second.\<close>

lemma os_memcpy_twice:
  assumes "b = a + i" and "disjoint_blocks a i src j"
  shows "os_memcpy b src j (os_memcpy a src1 i m) = mwrite m a (mread m src1 i @ mread m src j)"
proof -
  have "mread (mwrite m a (mread m src1 i)) src j = mread m src j"
    using assms(2) by (intro mread_mwrite_disjoint) (auto simp: disjoint_blocks_def)
  then show ?thesis
    using mwrite_append [of m a "mread m src1 i"] assms(1) by (simp add: os_memcpy_def)
qed

section \<open>Registers\<close>

text \<open>The register file: \<open>REG_READ\<close> and \<open>REG_WRITE\<close> are volatile accesses to an address. What
  the hardware does to a register between two accesses is not part of a function's effect: a
  theorem about several calls says what it assumes of the registers at each call.\<close>

type_synonym regs = "u32 \<Rightarrow> u32"

definition REG_READ :: "u32 \<Rightarrow> regs \<Rightarrow> u32" where
  "REG_READ a r = r a"

definition REG_WRITE :: "u32 \<Rightarrow> u32 \<Rightarrow> regs \<Rightarrow> regs" where
  "REG_WRITE a v r = r(a := v)"

lemma reg_read_write [reg_simps]: "REG_READ a (REG_WRITE b v r) = (if a = b then v else REG_READ a r)"
  by (simp add: REG_READ_def REG_WRITE_def)

section \<open>Runs\<close>

text \<open>A run is a list of operations executed in order. \<open>run_out f\<close> collects what \<open>f\<close> observes of
  each operation in the state it is executed in; \<open>run_ok\<close> says that every operation of the run
  meets its precondition when its turn comes.\<close>

primrec run_ops :: "('o \<Rightarrow> 's \<Rightarrow> 's) \<Rightarrow> 'o list \<Rightarrow> 's \<Rightarrow> 's" where
  "run_ops exec [] s = s"
| "run_ops exec (x # xs) s = run_ops exec xs (exec x s)"

primrec run_out :: "('o \<Rightarrow> 's \<Rightarrow> 'b list) \<Rightarrow> ('o \<Rightarrow> 's \<Rightarrow> 's) \<Rightarrow> 'o list \<Rightarrow> 's \<Rightarrow> 'b list" where
  "run_out f exec [] s = []"
| "run_out f exec (x # xs) s = f x s @ run_out f exec xs (exec x s)"

primrec run_ok :: "('o \<Rightarrow> 's \<Rightarrow> bool) \<Rightarrow> ('o \<Rightarrow> 's \<Rightarrow> 's) \<Rightarrow> 'o list \<Rightarrow> 's \<Rightarrow> bool" where
  "run_ok ok exec [] s \<longleftrightarrow> True"
| "run_ok ok exec (x # xs) s \<longleftrightarrow> ok x s \<and> run_ok ok exec xs (exec x s)"

text \<open>A system of operations with an invariant: what every operation keeps, every run keeps.\<close>

locale guarded_system =
  fixes inv :: "'s \<Rightarrow> bool"
    and ok :: "'o \<Rightarrow> 's \<Rightarrow> bool"
    and exec :: "'o \<Rightarrow> 's \<Rightarrow> 's"
  assumes exec_inv: "\<lbrakk>inv s; ok x s\<rbrakk> \<Longrightarrow> inv (exec x s)"
begin

lemma run_inv: "\<lbrakk>inv s; run_ok ok exec xs s\<rbrakk> \<Longrightarrow> inv (run_ops exec xs s)"
  by (induction xs arbitrary: s) (auto intro: exec_inv)

end

text \<open>A guarded system that queues bytes: an operation may take bytes in at one end and deliver
  bytes at the other. Over a run nothing is lost, duplicated or reordered.\<close>

locale byte_fifo = guarded_system inv ok exec
  for inv :: "'s \<Rightarrow> bool" and ok :: "'o \<Rightarrow> 's \<Rightarrow> bool" and exec :: "'o \<Rightarrow> 's \<Rightarrow> 's" +
  fixes contents :: "'s \<Rightarrow> 'b list"
    and sent :: "'o \<Rightarrow> 's \<Rightarrow> 'b list"
    and got :: "'o \<Rightarrow> 's \<Rightarrow> 'b list"
  assumes balance: "\<lbrakk>inv s; ok x s\<rbrakk> \<Longrightarrow> contents s @ sent x s = got x s @ contents (exec x s)"
begin

lemma run_balance:
  "\<lbrakk>inv s; run_ok ok exec xs s\<rbrakk> \<Longrightarrow>
    contents s @ run_out sent exec xs s = run_out got exec xs s @ contents (run_ops exec xs s)"
proof (induction xs arbitrary: s)
  case Nil
  then show ?case by simp
next
  case (Cons x xs)
  have "contents s @ sent x s = got x s @ contents (exec x s)"
    using Cons.prems by (auto intro: balance)
  moreover have "contents (exec x s) @ run_out sent exec xs (exec x s)
      = run_out got exec xs (exec x s) @ contents (run_ops exec xs (exec x s))"
    using Cons.prems by (intro Cons.IH) (auto intro: exec_inv)
  ultimately show ?case by (metis append.assoc run_ops.simps(2) run_out.simps(2))
qed

lemma run_empty_prefix:
  assumes "inv s" "run_ok ok exec xs s" "contents s = []"
  shows "run_out got exec xs s = take (length (run_out got exec xs s)) (run_out sent exec xs s)"
  using run_balance [OF assms(1,2)] assms(3) by (metis append_Nil append_eq_conv_conj)

end

text \<open>Runs of operations that can end in a fault, and simulation of one such system by another:
  a run of the concrete system faults exactly when the run of the specification does, with the
  same fault, and ends in a related state otherwise.\<close>

primrec run_res :: "('o \<Rightarrow> 's \<Rightarrow> 's result) \<Rightarrow> 'o list \<Rightarrow> 's \<Rightarrow> 's result" where
  "run_res exec [] s = Inr s"
| "run_res exec (x # xs) s = (case exec x s of Inl e \<Rightarrow> Inl e | Inr s' \<Rightarrow> run_res exec xs s')"

primrec run_res_ok :: "('o \<Rightarrow> 's \<Rightarrow> bool) \<Rightarrow> ('o \<Rightarrow> 's \<Rightarrow> 's result) \<Rightarrow> 'o list \<Rightarrow> 's \<Rightarrow> bool" where
  "run_res_ok ok exec [] s \<longleftrightarrow> True"
| "run_res_ok ok exec (x # xs) s \<longleftrightarrow>
    ok x s \<and> (case exec x s of Inl e \<Rightarrow> True | Inr s' \<Rightarrow> run_res_ok ok exec xs s')"

locale simulation =
  fixes R :: "'c \<Rightarrow> 'a \<Rightarrow> bool"
    and ok :: "'o \<Rightarrow> 'a \<Rightarrow> bool"
    and cexec :: "'o \<Rightarrow> 'c \<Rightarrow> 'c result"
    and aexec :: "'o \<Rightarrow> 'a \<Rightarrow> 'a result"
  assumes step: "\<lbrakk>R c a; ok x a\<rbrakk> \<Longrightarrow> rel_sum (=) R (cexec x c) (aexec x a)"
begin

lemma run_simulates:
  "\<lbrakk>R c a; run_res_ok ok aexec xs a\<rbrakk> \<Longrightarrow>
    rel_sum (=) R (run_res cexec xs c) (run_res aexec xs a)"
proof (induction xs arbitrary: c a)
  case Nil
  then show ?case by simp
next
  case (Cons x xs)
  then have "rel_sum (=) R (cexec x c) (aexec x a)" by (intro step) simp_all
  then show ?case using Cons by (auto split: sum.splits)
qed

end

text \<open>A system whose operations keep an invariant, take related states to related states, and fault only
  where they may: so does every run.\<close>

locale guarded_run =
  fixes inv :: "'s \<Rightarrow> bool"
    and exec :: "'o \<Rightarrow> 's \<Rightarrow> 's result"
    and allowed :: "c_fault \<Rightarrow> bool"
    and R :: "'s \<Rightarrow> 's \<Rightarrow> bool"
  assumes exec_ok: "inv s \<Longrightarrow> case exec x s of Inl e \<Rightarrow> allowed e | Inr s' \<Rightarrow> inv s' \<and> R s s'"
    and R_refl: "R s s"
    and R_trans: "R s t \<Longrightarrow> R t u \<Longrightarrow> R s u"
begin

lemma run_ok: "inv s \<Longrightarrow> case run_res exec xs s of Inl e \<Rightarrow> allowed e | Inr s' \<Rightarrow> inv s' \<and> R s s'"
proof (induction xs arbitrary: s)
  case Nil
  then show ?case by (simp add: R_refl)
next
  case (Cons x xs)
  show ?case
  proof (cases "exec x s")
    case (Inr s')
    with exec_ok [OF Cons.prems, of x] have "inv s'" "R s s'" by simp_all
    with Cons.IH [of s'] Inr show ?thesis by (auto split: sum.splits intro: R_trans)
  qed (use exec_ok [OF Cons.prems, of x] in simp)
qed

end

section \<open>Loops over linked structures\<close>

text \<open>The loop \<open>for (pos = first; pos != stop; pos = next(pos))\<close> over a linked structure, with a body
  that carries an accumulator on (\<open>Inr\<close>) or leaves the loop with a result (\<open>Inl\<close>). On a structure
  that never reaches \<open>stop\<close> the loop does not end, which is the value \<open>None\<close>. Its meaning on a
  well-formed structure is \<open>fold_until\<close> over the nodes in order.\<close>

partial_function (option) for_each_node ::
  "('n \<Rightarrow> 'n) \<Rightarrow> 'n \<Rightarrow> ('n \<Rightarrow> 'a \<Rightarrow> 'b + 'a) \<Rightarrow> 'n \<Rightarrow> 'a \<Rightarrow> ('b + 'a) option" where
  "for_each_node succ stop body pos acc =
    (if pos = stop then Some (Inr acc)
     else (case body pos acc of
             Inl r \<Rightarrow> Some (Inl r)
           | Inr acc' \<Rightarrow> for_each_node succ stop body (succ pos) acc'))"

primrec fold_until :: "('n \<Rightarrow> 'a \<Rightarrow> 'b + 'a) \<Rightarrow> 'n list \<Rightarrow> 'a \<Rightarrow> 'b + 'a" where
  "fold_until body [] acc = Inr acc"
| "fold_until body (x # xs) acc = (case body x acc of Inl r \<Rightarrow> Inl r | Inr acc' \<Rightarrow> fold_until body xs acc')"

text \<open>A loop that is caught in a set of nodes without \<open>stop\<close>, where the body never leaves it, does
  not return.\<close>

lemma for_each_node_diverges:
  fixes pos stop :: 'n and acc :: 'a and body :: "'n \<Rightarrow> 'a \<Rightarrow> 'b + 'a"
  assumes "pos \<in> C" and "Q acc"
    and "\<And>p a. \<lbrakk>p \<in> C; Q a\<rbrakk> \<Longrightarrow> p \<noteq> stop \<and> succ p \<in> C \<and> (\<exists>a'. body p a = Inr a' \<and> Q a')"
  shows "for_each_node succ stop body pos acc = None"
proof (rule ccontr)
  assume "for_each_node succ stop body pos acc \<noteq> None"
  then obtain r where "for_each_node succ stop body pos acc = Some r" by blast
  then have "(\<forall>p a. p \<in> C \<longrightarrow> Q a \<longrightarrow> p \<noteq> stop \<and> succ p \<in> C \<and> (\<exists>a'. body p a = Inr a' \<and> Q a'))
      \<longrightarrow> pos \<in> C \<longrightarrow> Q acc \<longrightarrow> False"
  proof (rule for_each_node.raw_induct [where P = "\<lambda>succ stop body pos acc r.
      (\<forall>p a. p \<in> C \<longrightarrow> Q a \<longrightarrow> p \<noteq> stop \<and> succ p \<in> C \<and> (\<exists>a'. body p a = Inr a' \<and> Q a'))
      \<longrightarrow> pos \<in> C \<longrightarrow> Q acc \<longrightarrow> False", rotated], intro impI)
    fix rec :: "('n \<Rightarrow> 'n) \<Rightarrow> 'n \<Rightarrow> ('n \<Rightarrow> 'a \<Rightarrow> 'b + 'a) \<Rightarrow> 'n \<Rightarrow> 'a \<Rightarrow> ('b + 'a) option"
      and succ stop body pos acc r
    assume IH: "\<And>succ stop body pos acc r. rec succ stop body pos acc = Some r \<Longrightarrow>
        (\<forall>p a. p \<in> C \<longrightarrow> Q a \<longrightarrow> p \<noteq> stop \<and> succ p \<in> C \<and> (\<exists>a'. body p a = Inr a' \<and> Q a'))
        \<longrightarrow> pos \<in> C \<longrightarrow> Q acc \<longrightarrow> False"
      and r: "(if pos = stop then Some (Inr acc) else case body pos acc of Inl r \<Rightarrow> Some (Inl r)
          | Inr acc' \<Rightarrow> rec succ stop body (succ pos) acc') = Some r"
      and caught: "\<forall>p a. p \<in> C \<longrightarrow> Q a \<longrightarrow> p \<noteq> stop \<and> succ p \<in> C \<and> (\<exists>a'. body p a = Inr a' \<and> Q a')"
      and "pos \<in> C" "Q acc"
    then obtain a' where a': "body pos acc = Inr a'" "Q a'" "pos \<noteq> stop" "succ pos \<in> C" by blast
    then have "rec succ stop body (succ pos) a' = Some r" using r by simp
    with IH caught a' show False by blast
  qed
  then show False using assms by blast
qed

text \<open>The interface of a linked structure to a client that loops over it: in state \<open>s\<close> it holds the
  nodes \<open>xs\<close>, reached from \<open>first\<close> by \<open>succ\<close> and ended by \<open>stop\<close>.\<close>

locale linked_nodes =
  fixes rep :: "'s \<Rightarrow> 'n list \<Rightarrow> bool"
    and first :: "'s \<Rightarrow> 'n"
    and succ :: "'s \<Rightarrow> 'n \<Rightarrow> 'n"
    and stop :: 'n
  assumes rep_first: "rep s xs \<Longrightarrow> first s = hd (xs @ [stop])"
    and rep_succ: "rep s (xs @ y # ys) \<Longrightarrow> succ s y = hd (ys @ [stop])"
    and rep_stop: "rep s xs \<Longrightarrow> stop \<notin> set xs"
begin

lemma loop_suffix:
  "rep s (xs @ ys) \<Longrightarrow>
    for_each_node (succ s) stop body (hd (ys @ [stop])) acc = Some (fold_until body ys acc)"
proof (induction ys arbitrary: xs acc)
  case Nil
  then show ?case by (simp add: for_each_node.simps)
next
  case (Cons y ys)
  have "for_each_node (succ s) stop body (hd (ys @ [stop])) a = Some (fold_until body ys a)" for a
    using Cons.prems Cons.IH [of "xs @ [y]" a] by simp
  then show ?case using rep_stop [OF Cons.prems] rep_succ [OF Cons.prems]
    by (subst for_each_node.simps) (auto split: sum.split)
qed

lemma loop_is_fold:
  "rep s xs \<Longrightarrow> for_each_node (succ s) stop body (first s) acc = Some (fold_until body xs acc)"
  using loop_suffix [of s "[]" xs] rep_first by simp

end

end
