(* ===== verification/Ring_Buffer.thy ===== *)
theory Ring_Buffer
  imports Bk_Prelude
begin

text \<open>
  The byte ring buffer of the audio driver, \<^verbatim>\<open>beken378/driver/audio/ring_buffer.c\<close>.
  A buffer is the record \<open>rb_st\<close> (the C struct, \<open>address\<close> being a pointer into the byte
  memory); each operation is one definition over the struct and the memory, at the width of
  the source's \<open>UINT32\<close>, so that products and sums wrap as they do in C. The critical sections
  around the pointer updates (\<open>RB_INT_DISABLE\<close>/\<open>RB_INT_RESTORE\<close>) do not change the state and
  are not part of the model.

  The lemmas show that the buffer is a bounded FIFO of bytes: \<open>rb_contents\<close> lifts a buffer to
  the byte list it holds, a write appends exactly the caller's bytes or is refused, a read
  removes a prefix and copies it to the caller, and neither touches memory outside its target.
  The interface is the locale \<open>byte_fifo\<close>, interpreted on the C operations; its client lemma
  (what has been read so far is a prefix of what has been written) holds for every sequence
  of reads and writes.
\<close>

section \<open>The buffer and its operations\<close>

definition RWP_SAFE_INTERVAL :: u32 where
  "RWP_SAFE_INTERVAL = 4"

record rb_st =
  rb_address :: u32
  rb_capacity :: u32
  rb_wp :: u32
  rb_rp :: u32

text \<open>\<open>&rb->address[i]\<close>\<close>

definition rb_at :: "'a rb_st_scheme \<Rightarrow> u32 \<Rightarrow> nat" where
  "rb_at rb i = unat (rb_address rb) + unat i"

definition rb_init :: "'a rb_st_scheme \<Rightarrow> u32 \<Rightarrow> u32 \<Rightarrow> 'a rb_st_scheme" where
  "rb_init rb addr cap = rb\<lparr>rb_address := addr, rb_capacity := cap, rb_wp := 0, rb_rp := 0\<rparr>"

definition rb_clear :: "'a rb_st_scheme \<Rightarrow> 'a rb_st_scheme" where
  "rb_clear rb = rb\<lparr>rb_wp := 0, rb_rp := 0\<rparr>"

definition rb_read :: "'a rb_st_scheme \<Rightarrow> u32 \<Rightarrow> u32 \<Rightarrow> u32 \<Rightarrow> mem
    \<Rightarrow> u32 \<times> 'a rb_st_scheme \<times> mem" where
  "rb_read rb buffer sz count m =
    (let required_bytes = sz * count; wp = rb_wp rb in
     if required_bytes = 0 then (0, rb, m)
     else if wp \<ge> rb_rp rb then
       (let remain_bytes = wp - rb_rp rb in
        if required_bytes > remain_bytes then
          (let read_bytes = remain_bytes;
               m1 = os_memcpy (unat buffer) (rb_at rb (rb_rp rb)) (unat read_bytes) m
           in (read_bytes, rb\<lparr>rb_rp := rb_rp rb + read_bytes\<rparr>, m1))
        else
          (let read_bytes = required_bytes;
               m1 = os_memcpy (unat buffer) (rb_at rb (rb_rp rb)) (unat read_bytes) m
           in (read_bytes, rb\<lparr>rb_rp := rb_rp rb + read_bytes\<rparr>, m1)))
     else
       (let remain_bytes = rb_capacity rb - rb_rp rb in
        if required_bytes > remain_bytes then
          (let read_bytes = remain_bytes;
               m1 = os_memcpy (unat buffer) (rb_at rb (rb_rp rb)) (unat read_bytes) m
           in if required_bytes - read_bytes > wp then
                (let m2 = os_memcpy (unat buffer + unat read_bytes) (rb_at rb 0) (unat wp) m1
                 in (read_bytes + wp, rb\<lparr>rb_rp := wp\<rparr>, m2))
              else
                (let m2 = os_memcpy (unat buffer + unat read_bytes) (rb_at rb 0)
                            (unat (required_bytes - read_bytes)) m1
                 in (required_bytes, rb\<lparr>rb_rp := required_bytes - read_bytes\<rparr>, m2)))
        else
          (let read_bytes = required_bytes;
               m1 = os_memcpy (unat buffer) (rb_at rb (rb_rp rb)) (unat read_bytes) m
           in (read_bytes, rb\<lparr>rb_rp := rb_rp rb + read_bytes\<rparr>, m1))))"

text \<open>The last step of \<open>rb_write\<close>: a write pointer at the end goes back to the start, unless
  the read pointer is there.\<close>

definition rb_wp_rewind :: "'a rb_st_scheme \<Rightarrow> 'a rb_st_scheme" where
  "rb_wp_rewind rb =
    (if rb_wp rb \<ge> rb_capacity rb \<and> rb_rp rb \<noteq> 0 then rb\<lparr>rb_wp := 0\<rparr> else rb)"

definition rb_write :: "'a rb_st_scheme \<Rightarrow> u32 \<Rightarrow> u32 \<Rightarrow> u32 \<Rightarrow> mem
    \<Rightarrow> u32 \<times> 'a rb_st_scheme \<times> mem" where
  "rb_write rb buffer sz count m =
    (let write_bytes = sz * count in
     if write_bytes = 0 then (0, rb, m)
     else
       (let rp = rb_rp rb in
        if rb_wp rb \<ge> rp then
          (let remain_bytes = rb_capacity rb - rb_wp rb + rp in
           if remain_bytes \<ge> write_bytes + RWP_SAFE_INTERVAL then
             (let remain_bytes = rb_capacity rb - rb_wp rb in
              if remain_bytes \<ge> write_bytes then
                (let m1 = os_memcpy (rb_at rb (rb_wp rb)) (unat buffer) (unat write_bytes) m;
                     rb1 = rb\<lparr>rb_wp := rb_wp rb + write_bytes\<rparr>
                 in (write_bytes, rb_wp_rewind rb1, m1))
              else
                (let m1 = os_memcpy (rb_at rb (rb_wp rb)) (unat buffer) (unat remain_bytes) m;
                     rb1 = rb\<lparr>rb_wp := write_bytes - remain_bytes\<rparr>;
                     m2 = os_memcpy (rb_at rb 0) (unat buffer + unat remain_bytes)
                            (unat (rb_wp rb1)) m1
                 in (write_bytes, rb_wp_rewind rb1, m2)))
           else (0, rb, m))
        else
          (let remain_bytes = rp - rb_wp rb in
           if remain_bytes \<ge> write_bytes + RWP_SAFE_INTERVAL then
             (let m1 = os_memcpy (rb_at rb (rb_wp rb)) (unat buffer) (unat write_bytes) m;
                  rb1 = rb\<lparr>rb_wp := rb_wp rb + write_bytes\<rparr>
              in (write_bytes, rb_wp_rewind rb1, m1))
           else (0, rb, m))))"

definition rb_get_fill_size :: "'a rb_st_scheme \<Rightarrow> u32" where
  "rb_get_fill_size rb =
    (if rb_wp rb \<ge> rb_rp rb then rb_wp rb - rb_rp rb
     else rb_capacity rb - rb_rp rb + rb_wp rb)"

definition rb_get_free_size :: "'a rb_st_scheme \<Rightarrow> u32" where
  "rb_get_free_size rb =
    (let free_size = (if rb_wp rb \<ge> rb_rp rb then rb_capacity rb - rb_wp rb + rb_rp rb
                      else rb_rp rb - rb_wp rb)
     in if free_size > RWP_SAFE_INTERVAL then free_size - RWP_SAFE_INTERVAL else 0)"

section \<open>Abstraction and invariant\<close>

definition rb_contents :: "'a rb_st_scheme \<Rightarrow> mem \<Rightarrow> u8 list" where
  "rb_contents rb m =
    (if rb_rp rb \<le> rb_wp rb
     then mread m (rb_at rb (rb_rp rb)) (unat (rb_wp rb) - unat (rb_rp rb))
     else mread m (rb_at rb (rb_rp rb)) (unat (rb_capacity rb) - unat (rb_rp rb))
          @ mread m (rb_at rb 0) (unat (rb_wp rb)))"

definition rb_inv :: "'a rb_st_scheme \<Rightarrow> bool" where
  "rb_inv rb \<longleftrightarrow> rb_rp rb \<le> rb_capacity rb \<and> rb_wp rb \<le> rb_capacity rb"

definition rb_apart :: "'a rb_st_scheme \<Rightarrow> nat \<Rightarrow> nat \<Rightarrow> bool" where
  "rb_apart rb buffer n \<longleftrightarrow>
    disjoint_blocks buffer n (unat (rb_address rb)) (unat (rb_capacity rb))"

section \<open>Behaviour of the operations\<close>

lemma rb_pointer_add:
  "unat (rb_rp rb) + unat w \<le> unat (rb_capacity rb) \<Longrightarrow> unat (rb_rp rb + w) = unat (rb_rp rb) + unat w"
  "unat (rb_wp rb) + unat w \<le> unat (rb_capacity rb) \<Longrightarrow> unat (rb_wp rb + w) = unat (rb_wp rb) + unat w"
  by (rule unat_add_le, assumption)+

lemmas rb_word_simps = word_le_nat_alt word_less_nat_alt unat_sub_add RWP_SAFE_INTERVAL_def
  rb_pointer_add

lemma rb_contents_length:
  "rb_inv rb \<Longrightarrow> length (rb_contents rb m) = unat (rb_get_fill_size rb)"
  by (auto simp: rb_inv_def rb_contents_def rb_get_fill_size_def rb_word_simps)

lemma rb_free_size:
  "rb_inv rb \<Longrightarrow>
    unat (rb_get_free_size rb) = unat (rb_capacity rb) - length (rb_contents rb m) - 4"
  by (auto simp: rb_inv_def rb_contents_def rb_get_free_size_def Let_def rb_word_simps)

text \<open>In closed form: a read of \<open>n\<close> bytes copies the first \<open>k = min n fill\<close> bytes held to the
  caller's buffer in one block, although the code may copy two pieces.\<close>

lemma rb_read_mem:
  assumes inv: "rb_inv rb" and fit: "unat sz * unat count < 4294967296"
    and k: "k = min (unat sz * unat count) (length (rb_contents rb m))"
    and sep: "rb_apart rb (unat buffer) k"
    and res: "rb_read rb buffer sz count m = (ret, rb', m')"
  shows "m' = mwrite m (unat buffer) (take k (rb_contents rb m))"
proof -
  have two: "\<lbrakk>b = unat buffer + i; i + j = k; j \<le> unat (rb_wp rb)\<rbrakk> \<Longrightarrow>
      os_memcpy b (rb_at rb 0) j (os_memcpy (unat buffer) (rb_at rb (rb_rp rb)) i m)
      = mwrite m (unat buffer) (mread m (rb_at rb (rb_rp rb)) i @ mread m (rb_at rb 0) j)" for b i j
    using sep inv
    by (intro os_memcpy_twice)
      (auto simp: rb_apart_def disjoint_blocks_def rb_at_def rb_inv_def word_le_nat_alt)
  let ?b = "unat buffer + unat (rb_capacity rb) - unat (rb_rp rb)"
  let ?i = "unat (rb_capacity rb) - unat (rb_rp rb)"
  let ?j = "unat sz * unat count + unat (rb_rp rb) - unat (rb_capacity rb)"
  show ?thesis
    using assms two [of ?b ?i "unat (rb_wp rb)", unfolded os_memcpy_def]
      two [of ?b ?i ?j, unfolded os_memcpy_def]
    by (auto simp: rb_read_def Let_def rb_inv_def rb_contents_def rb_word_simps unat_mult_fit
        u32_mult_eq_0 os_memcpy_def take_mread split: if_splits)
qed

lemma rb_read_state:
  assumes inv: "rb_inv rb" and fit: "unat sz * unat count < 4294967296"
    and k: "k = min (unat sz * unat count) (length (rb_contents rb m))"
    and res: "rb_read rb buffer sz count m = (ret, rb', m')"
  shows "unat ret = k" and "rb_inv rb'" and "rb_address rb' = rb_address rb"
    and "rb_capacity rb' = rb_capacity rb" and "rb_wp rb' = rb_wp rb"
    and "rb_contents rb' M = drop k (rb_contents rb M)"
proof -
  note defs = rb_read_def Let_def rb_inv_def rb_contents_def rb_word_simps unat_mult_fit
    u32_mult_eq_0 rb_at_def
  show "unat ret = k" using assms by (auto simp: defs split: if_splits)
  show "rb_inv rb'" using assms by (auto simp: defs split: if_splits)
  show "rb_address rb' = rb_address rb"  "rb_capacity rb' = rb_capacity rb"  "rb_wp rb' = rb_wp rb"
    using res by (auto simp: rb_read_def Let_def split: if_splits)
  show "rb_contents rb' M = drop k (rb_contents rb M)"
    using assms by (auto simp: defs drop_mread add.assoc split: if_splits)
qed

text \<open>A write of \<open>n\<close> bytes is refused, with nothing changed, exactly when \<open>n\<close> is zero or more
  than \<open>rb_get_free_size\<close> reports; otherwise all of the caller's bytes are appended.\<close>

lemma rb_free_size_nat:
  "rb_inv rb \<Longrightarrow> unat (rb_get_free_size rb) =
    (if rb_rp rb \<le> rb_wp rb then unat (rb_capacity rb) - unat (rb_wp rb) + unat (rb_rp rb)
     else unat (rb_rp rb) - unat (rb_wp rb)) - 4"
  by (auto simp: rb_inv_def rb_get_free_size_def Let_def rb_word_simps)

lemma rb_write_size:
  fixes sz count :: u32
  assumes "unat sz * unat count + 4 < 4294967296"
  obtains N where "N = sz * count" and "unat N = unat sz * unat count"
    and "unat (N + 4) = unat sz * unat count + 4" and "N = 0 \<longleftrightarrow> unat sz * unat count = 0"
  using assms that [of "sz * count"] u32_mult_eq_0 [of sz count]
  by (simp add: unat_mult_fit unat_add_fit)

lemma rb_write_refused:
  assumes inv: "rb_inv rb" and fit: "unat sz * unat count + 4 < 4294967296"
    and no: "unat sz * unat count = 0 \<or> unat (rb_get_free_size rb) < unat sz * unat count"
  shows "rb_write rb buffer sz count m = (0, rb, m)"
  using rb_write_size [OF fit]
proof cases
  case (1 N)
  have "N = 0 \<or> unat (rb_get_free_size rb) < unat N" using no 1 by auto
  moreover have "unat (N + 4) = unat N + 4" using 1 by simp
  ultimately show ?thesis using inv unfolding rb_write_def 1(1) [symmetric] rb_free_size_nat [OF inv]
    by (auto simp: Let_def rb_inv_def rb_word_simps split: if_splits)
qed

lemma rb_wp_rewind_simps [simp]:
  "rb_address (rb_wp_rewind rb) = rb_address rb" "rb_capacity (rb_wp_rewind rb) = rb_capacity rb"
  "rb_rp (rb_wp_rewind rb) = rb_rp rb" "rb_at (rb_wp_rewind rb) i = rb_at rb i"
  by (simp_all add: rb_wp_rewind_def rb_at_def)

lemma rb_wp_rewind_inv: "rb_inv rb \<Longrightarrow> rb_inv (rb_wp_rewind rb)"
  by (auto simp: rb_wp_rewind_def rb_inv_def)

lemma rb_wp_rewind_contents:
  "rb_inv rb \<Longrightarrow> rb_contents (rb_wp_rewind rb) m = rb_contents rb m"
  by (auto simp: rb_wp_rewind_def rb_inv_def rb_contents_def rb_at_def word_le_nat_alt unat_eq_zero)

lemma rb_write_accepted:
  assumes inv: "rb_inv rb" and n: "n = unat sz * unat count" and fit: "n + 4 < 4294967296"
    and yes: "0 < n" "n \<le> unat (rb_get_free_size rb)"
    and sep: "rb_apart rb (unat buffer) n"
  obtains rb1 m1 where "rb_write rb buffer sz count m = (sz * count, rb_wp_rewind rb1, m1)"
    and "rb_address rb1 = rb_address rb" "rb_capacity rb1 = rb_capacity rb" "rb_rp rb1 = rb_rp rb"
    and "rb_inv rb1" and "rb_contents rb1 m1 = rb_contents rb m @ mread m (unat buffer) n"
    and "\<forall>x. x < unat (rb_address rb) \<or> unat (rb_address rb) + unat (rb_capacity rb) \<le> x \<longrightarrow> m1 x = m x"
  using rb_write_size [OF fit [unfolded n]]
proof cases
  case (1 N)
  have N: "unat N = n" "unat (N + 4) = n + 4" "N \<noteq> 0" using 1 n yes by auto
  note defs = rb_write_def 1(1) [symmetric] Let_def rb_inv_def rb_word_simps N
    rb_contents_def rb_at_def os_memcpy_def rb_apart_def disjoint_blocks_def
  note free = yes(2) [unfolded rb_free_size_nat [OF inv]]
  consider (up) "rb_rp rb \<le> rb_wp rb" "unat (rb_wp rb) + n \<le> unat (rb_capacity rb)"
    | (wrap) "rb_rp rb \<le> rb_wp rb" "unat (rb_capacity rb) < unat (rb_wp rb) + n"
    | (low) "rb_wp rb < rb_rp rb" by force
  then show ?thesis
  proof cases
    case up
    show ?thesis
      using up inv yes free sep
      by (intro that [of "rb\<lparr>rb_wp := rb_wp rb + N\<rparr>" "os_memcpy (rb_at rb (rb_wp rb)) (unat buffer) n m"])
        (auto simp: defs mem_simps intro!: mread_mwrite_append)
  next
    case wrap
    define i where "i = unat (rb_capacity rb) - unat (rb_wp rb)"
    have "unat (N - (rb_capacity rb - rb_wp rb)) = n - i"
       using wrap inv by (simp add: i_def N rb_inv_def word_le_nat_alt)
    moreover have "mread m (unat buffer) n = mread m (unat buffer) i @ mread m (unat buffer + i) (n - i)"
      using wrap mread_add [of m "unat buffer" i "n - i"] by (simp add: i_def)
    moreover have "mread (mwrite m (rb_at rb (rb_wp rb)) (mread m (unat buffer) i)) (rb_at rb (rb_rp rb))
        (unat (rb_capacity rb) - unat (rb_rp rb))
      = mread m (rb_at rb (rb_rp rb)) (unat (rb_wp rb) - unat (rb_rp rb)) @ mread m (unat buffer) i"
      using wrap inv
      by (intro mread_mwrite_append) (auto simp: i_def rb_inv_def rb_at_def word_le_nat_alt)
    ultimately show ?thesis using wrap inv yes free sep
      by (intro that [of "rb\<lparr>rb_wp := N - (rb_capacity rb - rb_wp rb)\<rparr>"
         "os_memcpy (rb_at rb 0) (unat buffer + i) (n - i) (os_memcpy (rb_at rb (rb_wp rb)) (unat buffer) i m)"])
        (auto simp: defs mem_simps i_def)
  next
    case low
    show ?thesis
      using low inv yes free sep
      by (intro that [of "rb\<lparr>rb_wp := rb_wp rb + N\<rparr>" "os_memcpy (rb_at rb (rb_wp rb)) (unat buffer) n m"])
        (auto simp: defs mem_simps intro!: mread_mwrite_append)
  qed
qed

section \<open>The buffer as a FIFO\<close>

text \<open>What a client does with a buffer: it fills memory of its own, writes from it and reads
  into it. The state is the struct and the memory.\<close>

datatype rb_op =
    Rb_fill nat "u8 list"       \<comment> \<open>the client stores bytes at an address of its own\<close>
  | Rb_write u32 u32 u32        \<comment> \<open>\<open>rb_write(rb, buffer, size, count)\<close>\<close>
  | Rb_read u32 u32 u32         \<comment> \<open>\<open>rb_read(rb, buffer, size, count)\<close>\<close>
  | Rb_clear                    \<comment> \<open>\<open>rb_clear(rb)\<close>\<close>

fun rb_exec :: "rb_op \<Rightarrow> rb_st \<times> mem \<Rightarrow> rb_st \<times> mem" where
  "rb_exec (Rb_fill a bs) (rb, m) = (rb, mwrite m a bs)"
| "rb_exec (Rb_write buffer sz count) (rb, m) = snd (rb_write rb buffer sz count m)"
| "rb_exec (Rb_read buffer sz count) (rb, m) = snd (rb_read rb buffer sz count m)"
| "rb_exec Rb_clear (rb, m) = (rb_clear rb, m)"

text \<open>The bytes an operation hands in, and those it hands out (a clear discards what is held).\<close>

fun rb_sent :: "rb_op \<Rightarrow> rb_st \<times> mem \<Rightarrow> u8 list" where
  "rb_sent (Rb_write buffer sz count) (rb, m) =
    mread m (unat buffer) (unat (fst (rb_write rb buffer sz count m)))"
| "rb_sent _ _ = []"

fun rb_got :: "rb_op \<Rightarrow> rb_st \<times> mem \<Rightarrow> u8 list" where
  "rb_got (Rb_read buffer sz count) (rb, m) =
    (case rb_read rb buffer sz count m of (ret, _, m') \<Rightarrow> mread m' (unat buffer) (unat ret))"
| "rb_got Rb_clear (rb, m) = rb_contents rb m"
| "rb_got _ _ = []"

text \<open>The product \<open>size * count\<close> (plus \<open>k\<close>) does not wrap at 32 bits.\<close>

definition rb_fits :: "u32 \<Rightarrow> u32 \<Rightarrow> int \<Rightarrow> bool" where
  "rb_fits sz count k \<longleftrightarrow> uint sz * uint count + k < 4294967296"

lemma rb_fits_nat: "rb_fits sz count (int k) \<longleftrightarrow> unat sz * unat count + k < 4294967296"
proof -
  have "uint sz * uint count + int k = int (unat sz * unat count + k)" by simp
  then show ?thesis unfolding rb_fits_def by linarith
qed

fun rb_ok :: "rb_op \<Rightarrow> rb_st \<times> mem \<Rightarrow> bool" where
  "rb_ok (Rb_fill a bs) (rb, m) \<longleftrightarrow> rb_apart rb a (length bs)"
| "rb_ok (Rb_write buffer sz count) (rb, m) \<longleftrightarrow>
    rb_fits sz count 4 \<and> rb_apart rb (unat buffer) (unat sz * unat count)"
| "rb_ok (Rb_read buffer sz count) (rb, m) \<longleftrightarrow>
    rb_fits sz count 0 \<and> rb_apart rb (unat buffer) (unat sz * unat count)"
| "rb_ok Rb_clear (rb, m) \<longleftrightarrow> True"

lemma rb_contents_fill:
  "\<lbrakk>rb_inv rb; rb_apart rb a (length bs)\<rbrakk> \<Longrightarrow> rb_contents rb (mwrite m a bs) = rb_contents rb m"
  by (auto simp: rb_inv_def rb_contents_def rb_apart_def disjoint_blocks_def rb_at_def
      word_le_nat_alt intro!: mread_mwrite_disjoint arg_cong2 [where f = append])

lemma rb_apart_le: "\<lbrakk>rb_apart rb a n; k \<le> n\<rbrakk> \<Longrightarrow> rb_apart rb a k"
  by (auto simp: rb_apart_def disjoint_blocks_def)

lemma rb_write_spec:
  assumes inv: "rb_inv rb" and n: "n = unat sz * unat count" and fit: "n + 4 < 4294967296"
    and sep: "rb_apart rb (unat buffer) n" and res: "rb_write rb buffer sz count m = (ret, rb', m')"
  shows "unat ret = (if n \<le> unat (rb_get_free_size rb) then n else 0)" and "rb_inv rb'"
    and "rb_contents rb' m' = rb_contents rb m @ mread m (unat buffer) (unat ret)"
    and "rb_address rb' = rb_address rb" and "rb_capacity rb' = rb_capacity rb" and "rb_rp rb' = rb_rp rb"
    and "x < unat (rb_address rb) \<or> unat (rb_address rb) + unat (rb_capacity rb) \<le> x \<Longrightarrow> m' x = m x"
    and "ret = 0 \<Longrightarrow> rb' = rb \<and> m' = m"
proof -
  consider (no) "n = 0 \<or> unat (rb_get_free_size rb) < n" | (yes) "0 < n" "n \<le> unat (rb_get_free_size rb)"
    by linarith
  then have "unat ret = (if n \<le> unat (rb_get_free_size rb) then n else 0) \<and> rb_inv rb'
    \<and> rb_contents rb' m' = rb_contents rb m @ mread m (unat buffer) (unat ret)
    \<and> rb_address rb' = rb_address rb \<and> rb_capacity rb' = rb_capacity rb \<and> rb_rp rb' = rb_rp rb
    \<and> (x < unat (rb_address rb) \<or> unat (rb_address rb) + unat (rb_capacity rb) \<le> x \<longrightarrow> m' x = m x)
    \<and> (ret = 0 \<longrightarrow> rb' = rb \<and> m' = m)"
  proof cases
    case no
    then show ?thesis
      using rb_write_refused [OF inv, of sz count buffer m] fit res inv unfolding n by auto
  next
    case yes
    have ret: "unat (sz * count) = n" using n fit by (simp add: unat_mult_fit)
    obtain rb1 m1 where "rb_write rb buffer sz count m = (sz * count, rb_wp_rewind rb1, m1)"
      and "rb_address rb1 = rb_address rb" "rb_capacity rb1 = rb_capacity rb" "rb_rp rb1 = rb_rp rb"
      and "rb_inv rb1" and "rb_contents rb1 m1 = rb_contents rb m @ mread m (unat buffer) n"
      and "\<forall>x. x < unat (rb_address rb) \<or> unat (rb_address rb) + unat (rb_capacity rb) \<le> x
            \<longrightarrow> m1 x = m x"
      by (rule rb_write_accepted [OF inv n fit yes sep])
    then show ?thesis using res yes ret
      by (auto simp: rb_wp_rewind_inv rb_wp_rewind_contents)
  qed
  then show "unat ret = (if n \<le> unat (rb_get_free_size rb) then n else 0)" "rb_inv rb'"
    "rb_contents rb' m' = rb_contents rb m @ mread m (unat buffer) (unat ret)"
    "rb_address rb' = rb_address rb" "rb_capacity rb' = rb_capacity rb" "rb_rp rb' = rb_rp rb"
    "x < unat (rb_address rb) \<or> unat (rb_address rb) + unat (rb_capacity rb) \<le> x \<Longrightarrow> m' x = m x"
    "ret = 0 \<Longrightarrow> rb' = rb \<and> m' = m"
    by simp_all
qed

lemma rb_read_spec:
  assumes inv: "rb_inv rb" and n: "n = unat sz * unat count" and fit: "n < 4294967296"
    and sep: "rb_apart rb (unat buffer) n" and res: "rb_read rb buffer sz count m = (ret, rb', m')"
  shows "unat ret = min n (length (rb_contents rb m))" and "rb_inv rb'"
    and "rb_contents rb m = mread m' (unat buffer) (unat ret) @ rb_contents rb' m'"
    and "m' = mwrite m (unat buffer) (take (unat ret) (rb_contents rb m))"
    and "rb_address rb' = rb_address rb" and "rb_capacity rb' = rb_capacity rb"
proof -
  note st = rb_read_state [OF inv fit [unfolded n] refl res]
  define k where "k = min n (length (rb_contents rb m))"
  have ap: "rb_apart rb (unat buffer) k" using sep by (rule rb_apart_le) (simp add: k_def)
  have m': "m' = mwrite m (unat buffer) (take k (rb_contents rb m))"
    by (rule rb_read_mem [OF inv fit [unfolded n] _ ap res]) (simp add: k_def n)
  have k: "k \<le> length (rb_contents rb m)" by (simp add: k_def)
  show ret: "unat ret = min n (length (rb_contents rb m))" using st(1) n by simp
  show "m' = mwrite m (unat buffer) (take (unat ret) (rb_contents rb m))"
    using m' ret by (simp add: k_def)
  have "rb_apart rb' (unat buffer) k" using ap st by (simp add: rb_apart_def)
  then have "rb_contents rb' m' = rb_contents rb' m"
    using st(2) k unfolding m' by (intro rb_contents_fill) simp_all
  then show "rb_contents rb m = mread m' (unat buffer) (unat ret) @ rb_contents rb' m'"
    using st(6) [of m] ret k unfolding m' by (simp add: k_def [symmetric] n [symmetric] mem_simps)
  show "rb_inv rb'" "rb_address rb' = rb_address rb" "rb_capacity rb' = rb_capacity rb"
    using st by simp_all
qed

lemma rb_clear_spec [simp]: "rb_inv (rb_clear rb)" "rb_contents (rb_clear rb) m = []"
  by (simp_all add: rb_clear_def rb_inv_def rb_contents_def)

interpretation rbf: byte_fifo "\<lambda>s. rb_inv (fst s)" rb_ok rb_exec
    "\<lambda>s. rb_contents (fst s) (snd s)" rb_sent rb_got
proof unfold_locales
  fix x and s :: "rb_st \<times> mem"
  assume inv: "rb_inv (fst s)" and ok: "rb_ok x s"
  obtain rb m where s: "s = (rb, m)" by (cases s)
  show "rb_inv (fst (rb_exec x s))"
    and "rb_contents (fst s) (snd s) @ rb_sent x s
      = rb_got x s @ rb_contents (fst (rb_exec x s)) (snd (rb_exec x s))"
  proof (atomize (full), cases x)
    case (Rb_write buffer sz count)
    obtain ret rb' m' where res: "rb_write rb buffer sz count m = (ret, rb', m')" by (metis prod_cases3)
    then show "rb_inv (fst (rb_exec x s)) \<and> rb_contents (fst s) (snd s) @ rb_sent x s
      = rb_got x s @ rb_contents (fst (rb_exec x s)) (snd (rb_exec x s))"
      using rb_write_spec(2,3) [OF _ refl _ _ res] rb_fits_nat [of sz count 4] inv ok s Rb_write by simp
  next
    case (Rb_read buffer sz count)
    obtain ret rb' m' where res: "rb_read rb buffer sz count m = (ret, rb', m')" by (metis prod_cases3)
    then show "rb_inv (fst (rb_exec x s)) \<and> rb_contents (fst s) (snd s) @ rb_sent x s
      = rb_got x s @ rb_contents (fst (rb_exec x s)) (snd (rb_exec x s))"
      using rb_read_spec(2,3) [OF _ refl _ _ res] rb_fits_nat [of sz count 0] inv ok s Rb_read by simp
  qed (use inv ok s in \<open>auto simp: rb_contents_fill\<close>)
qed

section \<open>Properties\<close>

text \<open>\<open>rb_write\<close> of \<open>n = size * count\<close> bytes (with \<open>n + 4\<close> below \<open>2 ^ 32\<close> and a caller's
  buffer apart from the ring) either appends exactly the caller's \<open>n\<close> bytes to what the buffer
  holds and returns \<open>n\<close>, when \<open>n\<close> is at most \<open>rb_get_free_size\<close>, or returns 0 and changes
  nothing; it keeps the invariant and writes no byte outside the ring.\<close>

theorem rb_write_appends:
  assumes "rb_inv rb" and "n = unat sz * unat count" and "n + 4 < 4294967296"
    and "rb_apart rb (unat buffer) n" and "rb_write rb buffer sz count m = (ret, rb', m')"
  shows "unat ret = (if n \<le> unat (rb_get_free_size rb) then n else 0)
    \<and> rb_contents rb' m' = rb_contents rb m @ mread m (unat buffer) (unat ret)
    \<and> rb_inv rb' \<and> (ret = 0 \<longrightarrow> rb' = rb \<and> m' = m)
    \<and> (\<forall>x. x < unat (rb_address rb) \<or> unat (rb_address rb) + unat (rb_capacity rb) \<le> x \<longrightarrow> m' x = m x)"
  using rb_write_spec [OF assms] by blast

definition rb_ex :: rb_st where
  "rb_ex = \<lparr>rb_address = 100, rb_capacity = 8, rb_wp = 6, rb_rp = 5\<rparr>"

definition rb_ex_mem :: mem where
  "rb_ex_mem = (\<lambda>x. of_nat x)"

theorem rb_write_appends_witness:
  "case rb_write rb_ex 50 1 3 rb_ex_mem of (ret, rb', m') \<Rightarrow>
     ret = 3 \<and> rb_contents rb' m' = [105, 50, 51, 52]"
proof -
  obtain ret rb' m' where res: "rb_write rb_ex 50 1 3 rb_ex_mem = (ret, rb', m')"
    by (metis prod_cases3)
  have c: "rb_contents rb_ex rb_ex_mem = [105]" "mread rb_ex_mem 50 3 = [50, 51, 52]"
    by code_simp+
  have pre: "rb_inv rb_ex" "(3::nat) = unat (1 :: u32) * unat (3 :: u32)" "(3::nat) + 4 < 4294967296"
    "rb_apart rb_ex (unat (50 :: u32)) 3" and free: "unat (rb_get_free_size rb_ex) = 3"
    by (simp_all add: rb_inv_def rb_ex_def rb_apart_def disjoint_blocks_def rb_get_free_size_def
        RWP_SAFE_INTERVAL_def)
  note w = rb_write_appends [OF pre res]
  have ret: "unat ret = 3" using conjunct1 [OF w] free by simp
  have "rb_contents rb' m' = [105, 50, 51, 52]"
    using conjunct1 [OF conjunct2 [OF w]] ret c by simp
  then show ?thesis using ret by (simp add: res word_unat_eq_iff)
qed

text \<open>\<open>rb_read\<close> of \<open>n\<close> bytes removes the first \<open>k = min n fill\<close> bytes held, in order, returns
  \<open>k\<close>, and copies exactly those bytes to the caller's buffer and nothing anywhere else.\<close>

theorem rb_read_delivers:
  assumes "rb_inv rb" and "n = unat sz * unat count" and "n < 4294967296"
    and "rb_apart rb (unat buffer) n" and "rb_read rb buffer sz count m = (ret, rb', m')"
  shows "unat ret = min n (unat (rb_get_fill_size rb))
    \<and> m' = mwrite m (unat buffer) (take (unat ret) (rb_contents rb m))
    \<and> rb_contents rb' m' = drop (unat ret) (rb_contents rb m) \<and> rb_inv rb'"
proof -
  note sp = rb_read_spec [OF assms]
  have "drop (unat ret) (rb_contents rb m) = rb_contents rb' m'"
    by (subst sp(3)) simp
  then show ?thesis using sp(1,2,4) rb_contents_length [OF assms(1)] by simp
qed

theorem rb_read_delivers_witness:
  "case rb_read (rb_ex\<lparr>rb_wp := 2\<rparr>) 50 2 2 rb_ex_mem of (ret, rb', m') \<Rightarrow>
     ret = 4 \<and> m' = mwrite rb_ex_mem 50 [105, 106, 107, 100] \<and> rb_contents rb' m' = [101]"
proof -
  let ?rb = "rb_ex\<lparr>rb_wp := 2\<rparr>"
  obtain ret rb' m' where res: "rb_read ?rb 50 2 2 rb_ex_mem = (ret, rb', m')"
    by (metis prod_cases3)
  have c: "rb_contents ?rb rb_ex_mem = [105, 106, 107, 100, 101]"
    by code_simp
  have pre: "rb_inv ?rb" "(4::nat) = unat (2 :: u32) * unat (2 :: u32)" "(4::nat) < 4294967296"
    "rb_apart ?rb (unat (50 :: u32)) 4" and fill: "unat (rb_get_fill_size ?rb) = 5"
    by (simp_all add: rb_inv_def rb_ex_def rb_apart_def disjoint_blocks_def rb_get_fill_size_def)
  note r = rb_read_delivers [OF pre res]
  have ret: "unat ret = 4" using conjunct1 [OF r] fill by simp
  have "m' = mwrite rb_ex_mem 50 [105, 106, 107, 100]" "rb_contents rb' m' = [101]"
    using conjunct2 [OF r] ret c by auto
  then show ?thesis using ret by (simp add: res word_unat_eq_iff)
qed

text \<open>C2: Over every run of client stores, writes, reads and clears, the bytes that were in the
  buffer followed by the bytes handed in are the bytes handed out followed by the bytes still
  held: nothing is lost, duplicated or reordered, whatever wraps around, and the invariant
  holds at the end.\<close>

theorem rb_run_is_fifo:
  assumes "rb_inv rb" and "run_ok rb_ok rb_exec xs (rb, m)"
    and "run_ops rb_exec xs (rb, m) = (rb', m')"
  shows "rb_contents rb m @ run_out rb_sent rb_exec xs (rb, m)
      = run_out rb_got rb_exec xs (rb, m) @ rb_contents rb' m' \<and> rb_inv rb'"
  using rbf.run_balance [of "(rb, m)" xs] rbf.run_inv [of "(rb, m)" xs] assms by simp

theorem rb_run_is_fifo_witness:
  "case run_ops rb_exec [Rb_fill 40 [7, 8, 9], Rb_write 40 1 3, Rb_read 60 1 2] (rb_ex, rb_ex_mem) of
    (rb', m') \<Rightarrow> [105] @ [7, 8, 9] = [105, 7] @ rb_contents rb' m' \<and> rb_inv rb'"
proof -
  let ?xs = "[Rb_fill 40 [7, 8, 9], Rb_write 40 1 3, Rb_read 60 1 2]"
  obtain rb' m' where res: "run_ops rb_exec ?xs (rb_ex, rb_ex_mem) = (rb', m')" by force
  have "run_ok rb_ok rb_exec ?xs (rb_ex, rb_ex_mem)" "rb_inv rb_ex"
    "rb_contents rb_ex rb_ex_mem = [105]"
    "run_out rb_sent rb_exec ?xs (rb_ex, rb_ex_mem) = [7, 8, 9]"
    "run_out rb_got rb_exec ?xs (rb_ex, rb_ex_mem) = [105, 7]"
    by code_simp+
  with rb_run_is_fifo [OF this(2,1) res] show ?thesis unfolding res by simp
qed

text \<open>The guard of \<open>rb_write\<close> adds the safe interval at 32 bits: for \<open>size * count = 2 ^ 32 - 4\<close>
  the sum wraps to 0 and the write is accepted whatever the buffer holds, although it is larger
  than every buffer.\<close>

theorem rb_write_guard_wraps:
  "fst (rb_write rb buffer 1 4294967292 m) = 4294967292"
proof -
  obtain n :: u32 where n: "n = 4294967292" "n + 4 = 0" "n \<noteq> 0"
    by (rule that [of 4294967292]) code_simp+
  then show ?thesis unfolding n(1) [symmetric] by (simp add: rb_write_def Let_def RWP_SAFE_INTERVAL_def)
qed

end
