(* ===== verification/Drv_Model.thy ===== *)
theory Drv_Model
  imports Bk_Prelude "HOL-Library.Sublist" "HOL-Library.Monad_Syntax"
begin

text \<open>
  The driver model, \<^verbatim>\<open>beken378/driver/common/drv_model.c\<close> with \<^verbatim>\<open>drv_model.h\<close> and
  \<^verbatim>\<open>drv_model_pub.h\<close>, and the start-up table walk of \<^verbatim>\<open>driver/common/dd.c\<close>: two static
  tables of devices, looked up by name, through which every driver of the SDK is opened, closed
  and controlled.

  A device's operations are function pointers into its driver. They are modelled as functions
  over a world \<open>'w\<close> (registers, memory, the driver's own state) and over \<open>'p\<close>, what the
  \<open>void *\<close> argument of a control call points to; a null function pointer is \<open>None\<close>. A function
  of the driver model returns a \<open>result\<close>: a failed \<open>ASSERT\<close>, the null name of an empty slot
  passed to \<open>strncmp\<close>, and an index outside a table are faults. A driver's operation does not
  itself change the device tables.

  The lemmas show which device a name reaches, that handles encode slots, that a device's
  driver is opened by the first open and closed by the last close (reference counting), and
  that registration and control fit together.
\<close>

section \<open>Data\<close>

definition DRV_FAILURE :: u32 where "DRV_FAILURE = - 5"
definition DRV_SUCCESS :: u32 where "DRV_SUCCESS = 0"
definition DD_HANDLE_MAGIC_WORD :: u32 where "DD_HANDLE_MAGIC_WORD = 0xA5A50000"
definition DD_HANDLE_MAGIC_MASK :: u32 where "DD_HANDLE_MAGIC_MASK = 0xFFFF0000"
definition DD_HANDLE_ID_MASK :: u32 where "DD_HANDLE_ID_MASK = 0x0000FFFF"
definition DD_HANDLE_UNVALID :: u32 where "DD_HANDLE_UNVALID = - 1"
definition DD_ID_UNVALID :: u32 where "DD_ID_UNVALID = - 1"
definition DD_MAX_DEV :: nat where "DD_MAX_DEV = 10"
definition DD_MAX_SDEV :: nat where "DD_MAX_SDEV = 16"
definition DD_MAX_NAME_LEN :: nat where "DD_MAX_NAME_LEN = 16"

lemmas dd_consts = DRV_FAILURE_def DRV_SUCCESS_def DD_HANDLE_MAGIC_WORD_def
  DD_HANDLE_MAGIC_MASK_def DD_HANDLE_ID_MASK_def DD_HANDLE_UNVALID_def DD_ID_UNVALID_def
  DD_MAX_DEV_def DD_MAX_SDEV_def DD_MAX_NAME_LEN_def

datatype dd_state = DD_STATE_NODEVICE | DD_STATE_CLOSED | DD_STATE_OPENED | DD_STATE_BREAK
  | DD_STATE_SUCCESS

record ('w, 'p) dd_operations =
  dd_open :: "(u32 \<Rightarrow> 'w \<Rightarrow> (u32 \<times> 'w) result) option"
  dd_close :: "('w \<Rightarrow> (u32 \<times> 'w) result) option"
  dd_read :: "('p \<Rightarrow> u32 \<Rightarrow> u32 \<Rightarrow> 'w \<Rightarrow> (u32 \<times> 'w) result) option"
  dd_write :: "('p \<Rightarrow> u32 \<Rightarrow> u32 \<Rightarrow> 'w \<Rightarrow> (u32 \<times> 'w) result) option"
  dd_control :: "(u32 \<Rightarrow> 'p \<Rightarrow> 'w \<Rightarrow> (u32 \<times> 'w) result) option"

record ('w, 'p) sdd_operations =
  sdd_control :: "(u32 \<Rightarrow> 'p \<Rightarrow> 'w \<Rightarrow> (u32 \<times> 'w) result) option"

text \<open>One struct for both tables (\<open>DRV_DEV_S\<close> and \<open>DRV_SDEV_S\<close> differ in the type of \<open>op\<close>
  only; \<open>method\<close> and \<open>private\<close> are never accessed).\<close>

record 'op drv_dev =
  dev_name :: "string option"
  use_cnt :: u32
  dev_state :: dd_state
  dev_op :: "'op option"

type_synonym ('w, 'p) dev_tbl = "('w, 'p) dd_operations drv_dev list"
type_synonym ('w, 'p) sdev_tbl = "('w, 'p) sdd_operations drv_dev list"

record ('w, 'p) drv_model =
  drv_dev_tbl :: "('w, 'p) dev_tbl"
  drv_sdev_tbl :: "('w, 'p) sdev_tbl"

definition no_dev :: "'op drv_dev" where
  "no_dev = \<lparr>dev_name = None, use_cnt = 0, dev_state = DD_STATE_NODEVICE, dev_op = None\<rparr>"

definition drv_model_init :: "('w, 'p) drv_model \<Rightarrow> u32 \<times> ('w, 'p) drv_model" where
  "drv_model_init st =
    (DRV_SUCCESS, st\<lparr>drv_dev_tbl := replicate DD_MAX_DEV no_dev,
                     drv_sdev_tbl := replicate DD_MAX_SDEV no_dev\<rparr>)"

definition drv_model_uninit :: "('w, 'p) drv_model \<Rightarrow> u32 \<times> ('w, 'p) drv_model" where
  "drv_model_uninit st =
    (DRV_SUCCESS, st\<lparr>drv_dev_tbl := replicate DD_MAX_DEV no_dev,
                     drv_sdev_tbl := replicate DD_MAX_SDEV no_dev\<rparr>)"

section \<open>Handles\<close>

definition ddev_check_handle :: "u32 \<Rightarrow> u32" where
  "ddev_check_handle handle =
    (let magic = handle AND DD_HANDLE_MAGIC_MASK; ident = handle AND DD_HANDLE_ID_MASK
     in if DD_HANDLE_MAGIC_WORD = magic \<and> unat ident < DD_MAX_DEV then DRV_SUCCESS else DRV_FAILURE)"

definition ddev_make_handle :: "u32 \<Rightarrow> u32" where
  "ddev_make_handle ident =
    (if unat ident \<ge> DD_MAX_DEV then DD_HANDLE_UNVALID else ident + DD_HANDLE_MAGIC_WORD)"

definition ddev_get_id_from_handle :: "u32 \<Rightarrow> u32" where
  "ddev_get_id_from_handle handle =
    (let magic = handle AND DD_HANDLE_MAGIC_MASK; ident = handle AND DD_HANDLE_ID_MASK
     in if magic \<noteq> DD_HANDLE_MAGIC_WORD then DD_ID_UNVALID else ident)"

section \<open>Lookup by name\<close>

text \<open>\<open>0 == os_strncmp(s1, s2, n)\<close>, a C string being the list of its characters before the
  terminator.\<close>

definition strncmp_eq :: "string \<Rightarrow> string \<Rightarrow> nat \<Rightarrow> bool" where
  "strncmp_eq s1 s2 n \<longleftrightarrow> take n s1 = take n s2"

text \<open>The search loop shared by open, control and unregister: \<open>k\<close> iterations from index \<open>i\<close>,
  stopping at the first slot whose name matches in the first \<open>strlen dev_name\<close> characters.\<close>

primrec dd_search :: "nat \<Rightarrow> nat \<Rightarrow> string \<Rightarrow> 'op drv_dev list \<Rightarrow> nat option result" where
  "dd_search 0 i nm tbl = Inr None"
| "dd_search (Suc k) i nm tbl =
    (if i \<ge> length tbl then Inl Out_of_bounds
     else (case dev_name (tbl ! i) of
        None \<Rightarrow> Inl Null_deref
      | Some s \<Rightarrow> if strncmp_eq s nm (length nm) then Inr (Some i) else dd_search k (Suc i) nm tbl))"

text \<open>The search for a free slot of the two register functions.\<close>

primrec dd_free_slot :: "nat \<Rightarrow> nat \<Rightarrow> 'op drv_dev list \<Rightarrow> nat option" where
  "dd_free_slot 0 i tbl = None"
| "dd_free_slot (Suc k) i tbl =
    (if dev_name (tbl ! i) = None \<and> dev_state (tbl ! i) = DD_STATE_NODEVICE then Some i
     else dd_free_slot k (Suc i) tbl)"

section \<open>Operations\<close>

text \<open>\<open>dev_name\<close> is a possibly null pointer, \<open>status\<close> says whether the status pointer is
  non-null. The result is the handle, what was stored through the status pointer (\<open>None\<close> when
  nothing was), the tables and the world.\<close>

definition ddev_open ::
  "string option \<Rightarrow> bool \<Rightarrow> u32 \<Rightarrow> ('w, 'p) drv_model \<Rightarrow> 'w
    \<Rightarrow> (u32 \<times> u32 option \<times> ('w, 'p) drv_model \<times> 'w) result" where
  "ddev_open nm status op_flag st w =
    (case nm of
       None \<Rightarrow> Inl Null_deref
     | Some nm \<Rightarrow>
        if \<not> status \<or> length nm > DD_MAX_NAME_LEN then Inr (DD_HANDLE_UNVALID, None, st, w)
        else (case dd_search DD_MAX_DEV 0 nm (drv_dev_tbl st) of
            Inl e \<Rightarrow> Inl e
          | Inr None \<Rightarrow> Inl Assert_failed
          | Inr (Some i) \<Rightarrow>
             (let dev = drv_dev_tbl st ! i; handle = ddev_make_handle (of_nat i) in
              case dev_state dev of
                DD_STATE_OPENED \<Rightarrow>
                  if handle = DD_HANDLE_UNVALID then Inl Assert_failed
                  else Inr (handle, Some DRV_FAILURE,
                       st\<lparr>drv_dev_tbl := (drv_dev_tbl st)[i := dev\<lparr>use_cnt := use_cnt dev + 1\<rparr>]\<rparr>, w)
              | DD_STATE_CLOSED \<Rightarrow>
                 (case (case Option.bind (dev_op dev) dd_open of
                          Some f \<Rightarrow> f op_flag w | None \<Rightarrow> Inr (DRV_FAILURE, w)) of
                    Inl e \<Rightarrow> Inl e
                  | Inr (s, w') \<Rightarrow>
                     if handle = DD_HANDLE_UNVALID then Inl Assert_failed
                     else Inr (handle, Some s,
                       st\<lparr>drv_dev_tbl := (drv_dev_tbl st)
                            [i := dev\<lparr>dev_state := DD_STATE_OPENED, use_cnt := 0 + 1\<rparr>]\<rparr>, w'))
              | _ \<Rightarrow> Inl Assert_failed)))"

definition ddev_close :: "u32 \<Rightarrow> ('w, 'p) drv_model \<Rightarrow> 'w \<Rightarrow> (u32 \<times> ('w, 'p) drv_model \<times> 'w) result" where
  "ddev_close handle st w =
    (let ident = ddev_get_id_from_handle handle; i = unat ident in
     if ident = DD_ID_UNVALID then Inr (DRV_FAILURE, st, w)
     else if i \<ge> length (drv_dev_tbl st) then Inl Out_of_bounds
     else
       (let dev = (drv_dev_tbl st ! i)\<lparr>use_cnt := use_cnt (drv_dev_tbl st ! i) - 1\<rparr> in
        if use_cnt dev = 0 then
          (case (case Option.bind (dev_op dev) dd_close of
                   Some f \<Rightarrow> f w | None \<Rightarrow> Inr (0, w)) of
             Inl e \<Rightarrow> Inl e
           | Inr (_, w') \<Rightarrow> Inr (DRV_SUCCESS,
               st\<lparr>drv_dev_tbl := (drv_dev_tbl st)[i := dev\<lparr>dev_state := DD_STATE_CLOSED\<rparr>]\<rparr>, w'))
        else Inr (DRV_SUCCESS, st\<lparr>drv_dev_tbl := (drv_dev_tbl st)[i := dev]\<rparr>, w)))"

text \<open>\<open>ddev_read\<close>, \<open>ddev_write\<close> and \<open>ddev_control\<close> differ in the operation they dispatch to.\<close>

definition ddev_dispatch ::
  "(('w, 'p) dd_operations \<Rightarrow> 'f option) \<Rightarrow> ('f \<Rightarrow> 'w \<Rightarrow> (u32 \<times> 'w) result) \<Rightarrow> u32
    \<Rightarrow> ('w, 'p) drv_model \<Rightarrow> 'w \<Rightarrow> (u32 \<times> 'w) result" where
  "ddev_dispatch sel call handle st w =
    (let ident = ddev_get_id_from_handle handle; i = unat ident in
     if ident = DD_ID_UNVALID then Inr (DRV_FAILURE, w)
     else if i \<ge> length (drv_dev_tbl st) then Inl Out_of_bounds
     else (case Option.bind (dev_op (drv_dev_tbl st ! i)) sel of
             Some f \<Rightarrow> call f w | None \<Rightarrow> Inr (DRV_FAILURE, w)))"

definition ddev_read ::
  "u32 \<Rightarrow> 'p \<Rightarrow> u32 \<Rightarrow> u32 \<Rightarrow> ('w, 'p) drv_model \<Rightarrow> 'w \<Rightarrow> (u32 \<times> 'w) result" where
  "ddev_read handle user_buf count op_flag =
    ddev_dispatch dd_read (\<lambda>f. f user_buf count op_flag) handle"

definition ddev_write ::
  "u32 \<Rightarrow> 'p \<Rightarrow> u32 \<Rightarrow> u32 \<Rightarrow> ('w, 'p) drv_model \<Rightarrow> 'w \<Rightarrow> (u32 \<times> 'w) result" where
  "ddev_write handle user_buf count op_flag =
    ddev_dispatch dd_write (\<lambda>f. f user_buf count op_flag) handle"

definition ddev_control ::
  "u32 \<Rightarrow> u32 \<Rightarrow> 'p \<Rightarrow> ('w, 'p) drv_model \<Rightarrow> 'w \<Rightarrow> (u32 \<times> 'w) result" where
  "ddev_control handle cmd param = ddev_dispatch dd_control (\<lambda>f. f cmd param) handle"

definition sddev_control ::
  "string option \<Rightarrow> u32 \<Rightarrow> 'p \<Rightarrow> ('w, 'p) drv_model \<Rightarrow> 'w \<Rightarrow> (u32 \<times> 'w) result" where
  "sddev_control nm cmd param st w =
    (case nm of
       None \<Rightarrow> Inl Assert_failed
     | Some nm \<Rightarrow>
        (case dd_search DD_MAX_SDEV 0 nm (drv_sdev_tbl st) of
           Inl e \<Rightarrow> Inl e
         | Inr None \<Rightarrow> Inl Assert_failed
         | Inr (Some i) \<Rightarrow>
            (case dev_op (drv_sdev_tbl st ! i) of
               None \<Rightarrow> Inl Assert_failed
             | Some ops \<Rightarrow>
                (case sdd_control ops of
                   Some f \<Rightarrow> f cmd param w
                 | None \<Rightarrow> Inr (DRV_FAILURE, w)))))"

definition register_in :: "nat \<Rightarrow> string option \<Rightarrow> 'op option \<Rightarrow> 'op drv_dev list
    \<Rightarrow> (u32 \<times> 'op drv_dev list) result" where
  "register_in bound nm optr tbl =
    (if nm = None \<or> optr = None then Inr (DRV_FAILURE, tbl)
     else (case dd_free_slot bound 0 tbl of
             None \<Rightarrow> Inl Assert_failed
           | Some i \<Rightarrow> Inr (DRV_SUCCESS, tbl[i := (tbl ! i)
               \<lparr>dev_name := nm, dev_op := optr, dev_state := DD_STATE_CLOSED\<rparr>])))"

definition ddev_register_dev :: "string option \<Rightarrow> ('w, 'p) dd_operations option \<Rightarrow> ('w, 'p) drv_model
    \<Rightarrow> (u32 \<times> ('w, 'p) drv_model) result" where
  "ddev_register_dev nm optr st =
    map_sum id (map_prod id (\<lambda>t. st\<lparr>drv_dev_tbl := t\<rparr>)) (register_in DD_MAX_DEV nm optr (drv_dev_tbl st))"

definition sddev_register_dev :: "string option \<Rightarrow> ('w, 'p) sdd_operations option \<Rightarrow> ('w, 'p) drv_model
    \<Rightarrow> (u32 \<times> ('w, 'p) drv_model) result" where
  "sddev_register_dev nm optr st =
    map_sum id (map_prod id (\<lambda>t. st\<lparr>drv_sdev_tbl := t\<rparr>)) (register_in DD_MAX_SDEV nm optr (drv_sdev_tbl st))"

definition unregister_in :: "nat \<Rightarrow> string option \<Rightarrow> 'op drv_dev list \<Rightarrow> (u32 \<times> 'op drv_dev list) result" where
  "unregister_in bound nm tbl =
    (case nm of
       None \<Rightarrow> Inr (DRV_FAILURE, tbl)
     | Some nm \<Rightarrow>
        if length nm > DD_MAX_NAME_LEN then Inr (DRV_FAILURE, tbl)
        else (case dd_search bound 0 nm tbl of
                Inl e \<Rightarrow> Inl e
              | Inr None \<Rightarrow> Inl Assert_failed
              | Inr (Some i) \<Rightarrow> Inr (DRV_SUCCESS, tbl[i := (tbl ! i)
                  \<lparr>dev_name := None, dev_op := None, dev_state := DD_STATE_NODEVICE\<rparr>])))"

text \<open>The two bounds are the source's: \<open>ddev_unregister_dev\<close> runs to \<open>DD_MAX_SDEV\<close> over the
  smaller table and \<open>sddev_unregister_dev\<close> to \<open>DD_MAX_DEV\<close> over the larger.\<close>

definition ddev_unregister_dev :: "string option \<Rightarrow> ('w, 'p) drv_model \<Rightarrow> (u32 \<times> ('w, 'p) drv_model) result" where
  "ddev_unregister_dev nm st =
    map_sum id (map_prod id (\<lambda>t. st\<lparr>drv_dev_tbl := t\<rparr>)) (unregister_in DD_MAX_SDEV nm (drv_dev_tbl st))"

definition sddev_unregister_dev :: "string option \<Rightarrow> ('w, 'p) drv_model \<Rightarrow> (u32 \<times> ('w, 'p) drv_model) result" where
  "sddev_unregister_dev nm st =
    map_sum id (map_prod id (\<lambda>t. st\<lparr>drv_sdev_tbl := t\<rparr>)) (unregister_in DD_MAX_DEV nm (drv_sdev_tbl st))"

section \<open>The start-up table\<close>

record 'w dd_init =
  ddi_name :: "string option"
  ddi_init :: "('w \<Rightarrow> 'w result) option"
  ddi_exit :: "('w \<Rightarrow> 'w result) option"

primrec dd_walk :: "('w dd_init \<Rightarrow> ('w \<Rightarrow> 'w result) option) \<Rightarrow> 'w dd_init list \<Rightarrow> 'w \<Rightarrow> 'w result" where
  "dd_walk sel [] w = Inr w"
| "dd_walk sel (e # es) w =
    (case ddi_name e of
       None \<Rightarrow> Inr w
     | Some _ \<Rightarrow> (case sel e of
                    None \<Rightarrow> Inr w
                  | Some f \<Rightarrow> (case f w of Inl err \<Rightarrow> Inl err | Inr w' \<Rightarrow> dd_walk sel es w')))"

definition g_dd_init :: "'w dd_init list \<Rightarrow> 'w \<Rightarrow> 'w result" where
  "g_dd_init dd_init_tbl = dd_walk ddi_init dd_init_tbl"

definition g_dd_exit :: "'w dd_init list \<Rightarrow> 'w \<Rightarrow> 'w result" where
  "g_dd_exit dd_init_tbl = dd_walk ddi_exit dd_init_tbl"

section \<open>Lookup\<close>

lemma strncmp_eq_prefix: "strncmp_eq s nm (length nm) \<longleftrightarrow> prefix nm s"
  by (auto simp: strncmp_eq_def prefix_def) (metis append_take_drop_id)

text \<open>The first match: the slot a search for \<open>nm\<close> stops at. Every slot before it is in use by a
  device whose name \<open>nm\<close> is not a prefix of.\<close>

definition dd_first :: "string \<Rightarrow> nat \<Rightarrow> 'op drv_dev list \<Rightarrow> bool" where
  "dd_first nm j tbl \<longleftrightarrow> j < length tbl
    \<and> (\<exists>s. dev_name (tbl ! j) = Some s \<and> prefix nm s)
    \<and> (\<forall>l<j. \<exists>s. dev_name (tbl ! l) = Some s \<and> \<not> prefix nm s)"

lemma dd_search_first:
  "\<lbrakk>dd_first nm j tbl; i \<le> j; j < i + k\<rbrakk> \<Longrightarrow> dd_search k i nm tbl = Inr (Some j)"
proof (induction k arbitrary: i)
  case (Suc k)
  show ?case
  proof (cases "i = j")
    case True
    then show ?thesis using Suc.prems by (auto simp: dd_first_def strncmp_eq_prefix)
  next
    case False
    then have "i < j" using Suc.prems by simp
    then obtain s where "dev_name (tbl ! i) = Some s" "\<not> prefix nm s"
      using Suc.prems unfolding dd_first_def by blast
    then show ?thesis using Suc False by (auto simp: dd_first_def strncmp_eq_prefix)
  qed
qed simp

lemma dd_search_SomeD:
  assumes "dd_search k i nm tbl = Inr (Some j)"
  shows "i \<le> j \<and> j < i + k \<and> j < length tbl \<and> (\<exists>s. dev_name (tbl ! j) = Some s \<and> prefix nm s)
    \<and> (\<forall>l. i \<le> l \<and> l < j \<longrightarrow> (\<exists>s. dev_name (tbl ! l) = Some s \<and> \<not> prefix nm s))"
  using assms
proof (induction k arbitrary: i)
  case (Suc k)
  then obtain s where s: "i < length tbl" "dev_name (tbl ! i) = Some s"
    by (auto split: if_splits option.splits)
  show ?case
  proof (cases "prefix nm s")
    case True
    then show ?thesis using Suc.prems s by (auto simp: strncmp_eq_prefix)
  next
    case False
    then have "dd_search k (Suc i) nm tbl = Inr (Some j)"
      using Suc.prems s by (simp add: strncmp_eq_prefix)
    note IH = Suc.IH [OF this]
    have "\<exists>s. dev_name (tbl ! l) = Some s \<and> \<not> prefix nm s" if "i \<le> l" "l < j" for l
      using that IH s False by (cases "l = i") auto
    then show ?thesis using IH by auto
  qed
qed simp

lemma dd_search_iff_first:
  "dd_search k 0 nm tbl = Inr (Some j) \<longleftrightarrow> dd_first nm j tbl \<and> j < k"
proof
  assume "dd_search k 0 nm tbl = Inr (Some j)"
  from dd_search_SomeD [OF this] show "dd_first nm j tbl \<and> j < k" by (simp add: dd_first_def)
qed (simp add: dd_search_first)

lemma dd_search_before:
  "\<lbrakk>dd_first nm i tbl; l + k \<le> i\<rbrakk> \<Longrightarrow> dd_search k l nm tbl = Inr None"
proof (induction k arbitrary: l)
  case (Suc k)
  have "l < i" "i < length tbl" using Suc.prems by (auto simp: dd_first_def)
  moreover from this Suc.prems(1) obtain s where "dev_name (tbl ! l) = Some s" "\<not> prefix nm s"
    unfolding dd_first_def by blast
  ultimately show ?case using Suc by (simp add: strncmp_eq_prefix)
qed simp

lemma dd_search_past:
  "\<lbrakk>\<forall>d\<in>set tbl. \<exists>s. dev_name d = Some s \<and> \<not> prefix nm s; l \<le> length tbl; length tbl < l + k\<rbrakk>
    \<Longrightarrow> dd_search k l nm tbl = Inl Out_of_bounds"
proof (induction k arbitrary: l)
  case (Suc k)
  show ?case
  proof (cases "l < length tbl")
    case True
    then obtain s where "dev_name (tbl ! l) = Some s" "\<not> prefix nm s"
      using Suc.prems(1) nth_mem by blast
    then show ?thesis using Suc True by (simp add: strncmp_eq_prefix)
  qed simp
qed simp

section \<open>Handles\<close>

lemma unat_less_10_cases:
  assumes "unat (x :: u32) < 10"
  shows "x \<in> {0, 1, 2, 3, 4, 5, 6, 7, 8, 9}"
proof -
  have "unat x \<in> {0, 1, 2, 3, 4, 5, 6, 7, 8, 9}" using assms by auto
  then show ?thesis by (auto simp: word_unat_eq_iff)
qed

lemma handle_id [simp]:
  "unat x < DD_MAX_DEV \<Longrightarrow> ddev_get_id_from_handle (ddev_make_handle x) = x"
  using unat_less_10_cases [of x]
  by (auto simp: ddev_get_id_from_handle_def ddev_make_handle_def dd_consts)

lemma handle_valid [simp]:
  "unat x < DD_MAX_DEV \<Longrightarrow> ddev_make_handle x \<noteq> DD_HANDLE_UNVALID"
  using unat_less_10_cases [of x]
  by (auto simp: ddev_make_handle_def dd_consts)

lemma drv_failure_not_success [simp]: "DRV_FAILURE \<noteq> DRV_SUCCESS"
  unfolding DRV_FAILURE_def DRV_SUCCESS_def by code_simp

lemma no_such_id: "\<not> unat DD_ID_UNVALID < DD_MAX_DEV"
  by (simp add: dd_consts unsigned_minus_1_eq_mask mask_eq_exp_minus_1)

lemma split_halves: "(h AND 0xFFFF0000) + (h AND 0xFFFF) = h" for h :: u32
proof -
  have "(h AND 0xFFFF0000) AND (h AND 0xFFFF) = 0"
  proof -
    have "(h AND a) AND (h AND b) = h AND (a AND b)" for a b by (simp add: ac_simps)
    then show ?thesis by simp
  qed
  then have "(h AND 0xFFFF0000) + (h AND 0xFFFF) = (h AND 0xFFFF0000) OR (h AND 0xFFFF)"
    by (rule disjunctive_add_eq_or)
  also have "\<dots> = h AND (0xFFFF0000 OR 0xFFFF)" by (simp only: bit.conj_disj_distrib)
  also have "(0xFFFF0000 OR 0xFFFF :: u32) = - 1" by code_simp
  finally show ?thesis by simp
qed

section \<open>Static devices in use\<close>

text \<open>What a client of a static device relies on: its name reaches the driver's operations.\<close>

definition sdd_bound :: "string \<Rightarrow> ('w, 'p) sdd_operations \<Rightarrow> ('w, 'p) drv_model \<Rightarrow> bool" where
  "sdd_bound nm ops st \<longleftrightarrow>
    (\<exists>i<DD_MAX_SDEV. dd_first nm i (drv_sdev_tbl st) \<and> dev_op (drv_sdev_tbl st ! i) = Some ops)"

lemma sddev_control_bound:
  assumes "sdd_bound nm ops st" and "sdd_control ops = Some f"
  shows "sddev_control (Some nm) cmd p st w = f cmd p w"
proof -
  obtain i where "i < DD_MAX_SDEV" "dd_first nm i (drv_sdev_tbl st)" "dev_op (drv_sdev_tbl st ! i) = Some ops"
    using assms(1) by (auto simp: sdd_bound_def)
  then have "dd_search DD_MAX_SDEV 0 nm (drv_sdev_tbl st) = Inr (Some i)"
    by (simp add: dd_search_iff_first)
  then show ?thesis using assms(2) \<open>dev_op _ = _\<close> by (simp add: sddev_control_def)
qed

section \<open>Reference counting\<close>

text \<open>The specification of a device as its clients see it: a count of the opens not yet closed.
  The driver's open runs on the first open, its close on the last close.\<close>

datatype dd_use = Use_open u32 | Use_close

type_synonym 'w refcnt = "nat \<times> 'w"

fun spec_use :: "('w, 'p) dd_operations \<Rightarrow> dd_use \<Rightarrow> 'w refcnt \<Rightarrow> 'w refcnt result" where
  "spec_use ops (Use_open flag) (c, w) =
    (if c = 0 then (case dd_open ops of
                      None \<Rightarrow> Inr (1, w)
                    | Some f \<Rightarrow> map_sum id (\<lambda>r. (1, snd r)) (f flag w))
     else Inr (c + 1, w))"
| "spec_use ops Use_close (c, w) =
    (if c = 1 then (case dd_close ops of
                      None \<Rightarrow> Inr (0, w)
                    | Some f \<Rightarrow> map_sum id (\<lambda>r. (0, snd r)) (f w))
     else Inr (c - 1, w))"

text \<open>The same uses through the driver model, with the device's name and handle.\<close>

fun model_use :: "string \<Rightarrow> u32 \<Rightarrow> dd_use \<Rightarrow> ('w, 'p) drv_model \<times> 'w \<Rightarrow> (('w, 'p) drv_model \<times> 'w) result" where
  "model_use nm h (Use_open flag) (st, w) = map_sum id (\<lambda>r. snd (snd r)) (ddev_open (Some nm) True flag st w)"
| "model_use nm h Use_close (st, w) = map_sum id snd (ddev_close h st w)"

fun use_ok :: "dd_use \<Rightarrow> 'w refcnt \<Rightarrow> bool" where
  "use_ok (Use_open flag) (c, w) \<longleftrightarrow> int c + 1 < 4294967296"
| "use_ok Use_close (c, w) \<longleftrightarrow> 0 < c"

definition set_use :: "nat \<Rightarrow> u32 \<Rightarrow> dd_state \<Rightarrow> ('w, 'p) drv_model \<Rightarrow> ('w, 'p) drv_model" where
  "set_use i u s st = st\<lparr>drv_dev_tbl := (drv_dev_tbl st)
     [i := (drv_dev_tbl st ! i)\<lparr>use_cnt := u, dev_state := s\<rparr>]\<rparr>"

definition use_rel :: "nat \<Rightarrow> ('w, 'p) drv_model \<Rightarrow> ('w, 'p) drv_model \<times> 'w \<Rightarrow> 'w refcnt \<Rightarrow> bool" where
  "use_rel i st0 cs as \<longleftrightarrow> snd cs = snd as \<and> int (fst as) < 4294967296
    \<and> (\<exists>u. fst cs = set_use i u (if fst as = 0 then DD_STATE_CLOSED else DD_STATE_OPENED) st0
           \<and> (fst as > 0 \<longrightarrow> u = of_nat (fst as)))"

definition dev_at :: "string \<Rightarrow> nat \<Rightarrow> ('w, 'p) dd_operations \<Rightarrow> ('w, 'p) drv_model \<Rightarrow> bool" where
  "dev_at nm i ops st \<longleftrightarrow> length (drv_dev_tbl st) = DD_MAX_DEV \<and> dd_first nm i (drv_dev_tbl st)
    \<and> dev_op (drv_dev_tbl st ! i) = Some ops \<and> length nm \<le> DD_MAX_NAME_LEN"

lemma use_upd_swap: "dev\<lparr>use_cnt := u, dev_state := s\<rparr> = dev\<lparr>dev_state := s, use_cnt := u\<rparr>"
  by (cases dev) simp

lemma set_use_self: "set_use i (use_cnt (drv_dev_tbl st ! i)) (dev_state (drv_dev_tbl st ! i)) st = st"
proof -
  have "(d :: ('w, 'p) dd_operations drv_dev)\<lparr>use_cnt := use_cnt d, dev_state := dev_state d\<rparr> = d" for d
    by (cases d) simp
  then show ?thesis by (simp add: set_use_def)
qed

lemma set_use_first: "dd_first nm j (drv_dev_tbl (set_use i u s st)) = dd_first nm j (drv_dev_tbl st)"
proof -
  have "dev_name (drv_dev_tbl (set_use i u s st) ! l) = dev_name (drv_dev_tbl st ! l)" for l
    by (cases "i < length (drv_dev_tbl st)") (auto simp: set_use_def nth_list_update list_update_beyond)
  then show ?thesis by (simp add: dd_first_def) (simp add: set_use_def)
qed

lemma set_use_twice [simp]: "i < length (drv_dev_tbl st) \<Longrightarrow> set_use i u s (set_use i u' s' st) = set_use i u s st"
  by (simp add: set_use_def)

lemma dev_at_search:
  assumes "dev_at nm i ops st"
  shows "dd_search DD_MAX_DEV 0 nm (drv_dev_tbl (set_use i u s st)) = Inr (Some i)"
  using assms by (simp add: dd_search_iff_first set_use_first) (auto simp: dev_at_def dd_first_def)

lemma set_use_slot:
  "i < length (drv_dev_tbl st) \<Longrightarrow> drv_dev_tbl (set_use i u s st) ! i
    = (drv_dev_tbl st ! i)\<lparr>use_cnt := u, dev_state := s\<rparr>"
  by (simp add: set_use_def)

lemma dev_at_index:
  assumes "dev_at nm i ops st"
  shows "i < length (drv_dev_tbl st)" "unat (of_nat i :: u32) = i" "i < DD_MAX_DEV"
  using assms by (auto simp: dev_at_def dd_first_def DD_MAX_DEV_def unat_of_nat)

text \<open>The two operations on a device in use by \<open>c\<close> clients.\<close>

lemma ddev_open_closed:
  assumes at: "dev_at nm i ops st"
  shows "ddev_open (Some nm) True flag (set_use i u DD_STATE_CLOSED st) w =
      (case (case dd_open ops of Some f \<Rightarrow> f flag w | None \<Rightarrow> Inr (DRV_FAILURE, w)) of
         Inl e \<Rightarrow> Inl e
       | Inr (r, w') \<Rightarrow> Inr (ddev_make_handle (of_nat i), Some r, set_use i 1 DD_STATE_OPENED st, w'))"
proof -
  note i = dev_at_index [OF at] and found = dev_at_search [OF at]
  have "\<not> DD_MAX_NAME_LEN < length nm" and "dev_op (drv_dev_tbl st ! i) = Some ops"
    using at by (simp_all add: dev_at_def)
  then show ?thesis
    using i
    by (simp add: ddev_open_def found Let_def set_use_slot [OF i(1)] cong: sum.case_cong)
      (simp add: set_use_def use_upd_swap split: sum.splits)
qed

lemma ddev_open_opened:
  assumes at: "dev_at nm i ops st"
  shows "ddev_open (Some nm) True flag (set_use i u DD_STATE_OPENED st) w =
      Inr (ddev_make_handle (of_nat i), Some DRV_FAILURE, set_use i (u + 1) DD_STATE_OPENED st, w)"
proof -
  note i = dev_at_index [OF at] and found = dev_at_search [OF at]
  have "\<not> DD_MAX_NAME_LEN < length nm" and "dev_op (drv_dev_tbl st ! i) = Some ops"
    using at by (simp_all add: dev_at_def)
  then show ?thesis
    using i by (simp add: ddev_open_def found Let_def set_use_slot [OF i(1)]) (simp add: set_use_def use_upd_swap)
qed

lemma ddev_close_at:
  assumes at: "dev_at nm i ops st"
  shows "ddev_close (ddev_make_handle (of_nat i)) (set_use i u s st) w =
      (if u = 1 then
         (case (case dd_close ops of Some f \<Rightarrow> f w | None \<Rightarrow> Inr (0, w)) of
            Inl e \<Rightarrow> Inl e
          | Inr (r, w') \<Rightarrow> Inr (DRV_SUCCESS, set_use i 0 DD_STATE_CLOSED st, w'))
       else Inr (DRV_SUCCESS, set_use i (u - 1) s st, w))"
proof -
  note i = dev_at_index [OF at]
  have op: "dev_op (drv_dev_tbl st ! i) = Some ops" using at by (simp add: dev_at_def)
  have len: "length (drv_dev_tbl (set_use i u s st)) = length (drv_dev_tbl st)" by (simp add: set_use_def)
  have id_ok: "(of_nat i :: u32) \<noteq> DD_ID_UNVALID"
    using i(2,3) no_such_id by auto
  show ?thesis
    using i id_ok by (simp add: ddev_close_def op len Let_def set_use_slot [OF i(1)])
       (simp add: set_use_def use_upd_swap split: sum.splits)
qed

lemma use_rel_step:
  fixes as :: "'w refcnt"
  assumes at: "dev_at nm i ops st0" and rel: "use_rel i st0 cs as" and ok: "use_ok x as"
  shows "rel_sum (=) (use_rel i st0) (model_use nm (ddev_make_handle (of_nat i)) x cs) (spec_use ops x as)"
proof -
  obtain c w where as: "as = (c, w)" by (cases as)
  let ?s = "\<lambda>c::nat. if c = 0 then DD_STATE_CLOSED else DD_STATE_OPENED"
  obtain u where cs: "cs = (set_use i u (?s c) st0, w)" and u: "c > 0 \<Longrightarrow> u = of_nat c"
      and c: "int c < 4294967296"
    using rel as by (cases cs) (auto simp: use_rel_def)
  have uc: "unat u = c" if "c > 0" using u [OF that] c by (simp add: unat_of_nat)
  show ?thesis
  proof (cases x)
    case (Use_open flag)
    then have c1: "int c + 1 < 4294967296" using ok as by simp
    show ?thesis
    proof (cases "c = 0")
      case True
      then show ?thesis unfolding Use_open as cs
        by (auto simp: ddev_open_closed [OF at] use_rel_def split: option.splits sum.splits)
    next
      case False
      then show ?thesis unfolding Use_open as cs using u c1
        by (auto simp: ddev_open_opened [OF at] use_rel_def add.commute)
    qed
  next
    case Use_close
    then have "0 < c" using ok as by simp
    then have "u = 1 \<longleftrightarrow> c = 1" using uc by (simp add: word_unat_eq_iff)
    moreover have "u - 1 = of_nat (c - 1)" using u \<open>0 < c\<close> by (simp add: of_nat_diff)
    ultimately show ?thesis unfolding Use_close as cs using \<open>0 < c\<close> c
      by (auto simp: ddev_close_at [OF at] use_rel_def split: option.splits sum.splits)
  qed
qed

text \<open>The uses of one device, for a fixed table: only uses that are legal for the count, on a
  table where the name reaches the slot.\<close>

definition refcnt_rel :: "string \<Rightarrow> nat \<Rightarrow> ('w, 'p) dd_operations \<Rightarrow> ('w, 'p) drv_model
    \<Rightarrow> ('w, 'p) drv_model \<times> 'w \<Rightarrow> 'w refcnt \<Rightarrow> bool" where
  "refcnt_rel nm i ops st0 cs as \<longleftrightarrow> dev_at nm i ops st0 \<and> use_rel i st0 cs as"

interpretation refcnt: simulation "refcnt_rel nm i ops st0" use_ok
    "model_use nm (ddev_make_handle (of_nat i))" "spec_use ops"
  for nm i ops st0
proof
  fix c a x
  assume "refcnt_rel nm i ops st0 c a" "use_ok x a"
  then show "rel_sum (=) (refcnt_rel nm i ops st0) (model_use nm (ddev_make_handle (of_nat i)) x c) (spec_use ops x a)"
    using use_rel_step [of nm i ops st0 c a x] by (auto simp: refcnt_rel_def rel_sum_simps elim!: rel_sum.cases)
qed

section \<open>Registration\<close>

lemma dd_free_slot_SomeD:
  "dd_free_slot k i tbl = Some j \<Longrightarrow> i \<le> j \<and> j < i + k \<and> dev_name (tbl ! j) = None
    \<and> dev_state (tbl ! j) = DD_STATE_NODEVICE"
  by (induction k arbitrary: i) (fastforce split: if_splits)+

lemma dd_free_slot_used:
  "\<lbrakk>dd_free_slot k i tbl = Some j; i \<le> l; l < j\<rbrakk> \<Longrightarrow>
    dev_name (tbl ! l) \<noteq> None \<or> dev_state (tbl ! l) \<noteq> DD_STATE_NODEVICE"
proof (induction k arbitrary: i)
  case (Suc k)
  then show ?case using dd_free_slot_SomeD [of k "Suc i" tbl j]
    by (cases "l = i") (auto split: if_splits)
qed simp

text \<open>A slot of a table is either empty or in use; a device in use has operations.\<close>

definition slot_inv :: "'op drv_dev \<Rightarrow> bool" where
  "slot_inv d \<longleftrightarrow> (case dev_name d of
      None \<Rightarrow> dev_state d = DD_STATE_NODEVICE \<and> dev_op d = None
    | Some _ \<Rightarrow> dev_state d \<in> {DD_STATE_CLOSED, DD_STATE_OPENED} \<and> dev_op d \<noteq> None)"

definition drv_inv :: "('w, 'p) drv_model \<Rightarrow> bool" where
  "drv_inv st \<longleftrightarrow> length (drv_dev_tbl st) = DD_MAX_DEV \<and> length (drv_sdev_tbl st) = DD_MAX_SDEV
    \<and> list_all slot_inv (drv_dev_tbl st) \<and> list_all slot_inv (drv_sdev_tbl st)"

lemma list_all_update: "\<lbrakk>list_all P xs; P x\<rbrakk> \<Longrightarrow> list_all P (xs[i := x])"
  by (auto simp: list_all_iff dest!: set_update_subset_insert [THEN subsetD])

lemma register_in_inv:
  assumes "list_all slot_inv tbl" and "register_in k nm optr tbl = Inr (r, tbl')"
  shows "list_all slot_inv tbl'" and "length tbl' = length tbl"
  using assms
  by (auto simp: register_in_def slot_inv_def split: if_splits option.splits intro!: list_all_update)

lemma unregister_in_inv:
  assumes "list_all slot_inv tbl" and "unregister_in k nm tbl = Inr (r, tbl')"
  shows "list_all slot_inv tbl'" and "length tbl' = length tbl"
  using assms
  by (auto simp: unregister_in_def slot_inv_def split: if_splits option.splits sum.splits
      intro!: list_all_update)

lemma ddev_register_inv:
  "\<lbrakk>drv_inv st; ddev_register_dev nm optr st = Inr (r, st')\<rbrakk> \<Longrightarrow> drv_inv st'"
  using register_in_inv [of "drv_dev_tbl st" DD_MAX_DEV nm optr r]
  by (cases "register_in DD_MAX_DEV nm optr (drv_dev_tbl st)")
    (auto simp: ddev_register_dev_def drv_inv_def)

lemma sddev_register_inv:
  "\<lbrakk>drv_inv st; sddev_register_dev nm optr' st = Inr (r, st')\<rbrakk> \<Longrightarrow> drv_inv st'"
  using register_in_inv [of "drv_sdev_tbl st" DD_MAX_SDEV nm optr' r]
  by (cases "register_in DD_MAX_SDEV nm optr' (drv_sdev_tbl st)")
    (auto simp: sddev_register_dev_def drv_inv_def)

lemma ddev_unregister_inv:
  "\<lbrakk>drv_inv st; ddev_unregister_dev nm st = Inr (r, st')\<rbrakk> \<Longrightarrow> drv_inv st'"
  using unregister_in_inv [of "drv_dev_tbl st" DD_MAX_SDEV nm r]
  by (cases "unregister_in DD_MAX_SDEV nm (drv_dev_tbl st)")
    (auto simp: ddev_unregister_dev_def drv_inv_def)

lemma sddev_unregister_inv:
  "\<lbrakk>drv_inv st; sddev_unregister_dev nm st = Inr (r, st')\<rbrakk> \<Longrightarrow> drv_inv st'"
  using unregister_in_inv [of "drv_sdev_tbl st" DD_MAX_DEV nm r]
  by (cases "unregister_in DD_MAX_DEV nm (drv_sdev_tbl st)")
    (auto simp: sddev_unregister_dev_def drv_inv_def)

lemma slot_inv_upd:
  "\<lbrakk>slot_inv d; dev_name d \<noteq> None; s = DD_STATE_CLOSED \<or> s = DD_STATE_OPENED\<rbrakk>
    \<Longrightarrow> slot_inv (d\<lparr>use_cnt := u, dev_state := s\<rparr>)"
  "slot_inv d \<Longrightarrow> slot_inv (d\<lparr>use_cnt := u\<rparr>)"
  by (auto simp: slot_inv_def split: option.splits)

lemma ddev_open_inv:
  assumes inv: "drv_inv st" and res: "ddev_open nm status flag st w = Inr (h, s, st', w')"
  shows "drv_inv st'"
proof -
  have slot: "slot_inv (drv_dev_tbl st ! i)" "dev_name (drv_dev_tbl st ! i) \<noteq> None"
    if "dd_search DD_MAX_DEV 0 nm' (drv_dev_tbl st) = Inr (Some i)" for nm' i
    using that inv by (auto simp: dd_search_iff_first dd_first_def drv_inv_def list_all_length)
  show ?thesis using res inv slot
    by (auto simp: ddev_open_def Let_def drv_inv_def use_upd_swap [symmetric]
        split: option.splits if_splits sum.splits dd_state.splits
        intro!: list_all_update slot_inv_upd)
qed

lemma ddev_close_inv:
  assumes inv: "drv_inv st" and res: "ddev_close h st w = Inr (r, st', w')"
    and live: "unat (ddev_get_id_from_handle h) < DD_MAX_DEV \<Longrightarrow>
      dev_name (drv_dev_tbl st ! unat (ddev_get_id_from_handle h)) \<noteq> None"
  shows "drv_inv st'"
proof -
  let ?i = "unat (ddev_get_id_from_handle h)"
  have slot: "?i < DD_MAX_DEV \<Longrightarrow> slot_inv (drv_dev_tbl st ! ?i)"
    using inv by (auto simp: drv_inv_def list_all_length)
  show ?thesis using res inv slot live
    by (auto simp: ddev_close_def Let_def drv_inv_def split: if_splits sum.splits
        intro!: list_all_update slot_inv_upd)
qed

section \<open>Properties\<close>

text \<open>A handle passes \<open>ddev_check_handle\<close> exactly when it is \<open>ddev_make_handle\<close> of one of the
  ten slots, and the slot is recovered from it.\<close>

theorem ddev_handle_codes_slot:
  "(ddev_check_handle h = DRV_SUCCESS \<longleftrightarrow> (\<exists>x. unat x < DD_MAX_DEV \<and> h = ddev_make_handle x))
    \<and> (ddev_check_handle h = DRV_SUCCESS \<longrightarrow> ddev_make_handle (ddev_get_id_from_handle h) = h)"
proof -
  have fwd: "unat (h AND 0xFFFF) < DD_MAX_DEV \<and> h = ddev_make_handle (h AND 0xFFFF)
      \<and> ddev_get_id_from_handle h = h AND 0xFFFF" if "ddev_check_handle h = DRV_SUCCESS"
    using that split_halves [of h]
    by (auto simp: ddev_check_handle_def ddev_make_handle_def ddev_get_id_from_handle_def Let_def
        DD_HANDLE_MAGIC_MASK_def DD_HANDLE_ID_MASK_def add.commute split: if_splits)
  have "ddev_check_handle (ddev_make_handle x) = DRV_SUCCESS" if "unat x < DD_MAX_DEV" for x
    using unat_less_10_cases [of x] that
    by (auto simp: ddev_check_handle_def ddev_make_handle_def dd_consts)
  then show ?thesis using fwd by metis
qed

theorem ddev_handle_codes_slot_witness:
  "ddev_check_handle 0xA5A50003 = DRV_SUCCESS
    \<and> ddev_make_handle (ddev_get_id_from_handle 0xA5A50003) = 0xA5A50003"
proof -
  have "ddev_check_handle 0xA5A50003 = DRV_SUCCESS"
    by (simp add: ddev_check_handle_def dd_consts)
  then show ?thesis using ddev_handle_codes_slot [of "0xA5A50003"] by simp
qed

text \<open>C7: For every sequence of opens and closes of one device (closes never exceeding opens,
  fewer than \<open>2 ^ 32\<close> opens outstanding), the driver model refines the reference count: the
  driver's own open runs on the first open and its close on the last close only, the run faults
  exactly when one of those does, and at the end the device is closed when the count is zero and
  open with \<open>use_cnt\<close> the count otherwise; no other slot changes.\<close>

theorem ddev_use_refines_refcount:
  assumes "dev_at nm i ops st" and "dev_state (drv_dev_tbl st ! i) = DD_STATE_CLOSED"
    and "run_res_ok use_ok (spec_use ops) xs (0, w)"
  shows "case run_res (spec_use ops) xs (0, w) of
      Inl e \<Rightarrow> run_res (model_use nm (ddev_make_handle (of_nat i))) xs (st, w) = Inl e
    | Inr (c, w') \<Rightarrow> \<exists>u. run_res (model_use nm (ddev_make_handle (of_nat i))) xs (st, w)
        = Inr (set_use i u (if c = 0 then DD_STATE_CLOSED else DD_STATE_OPENED) st, w')
        \<and> (c > 0 \<longrightarrow> u = of_nat c)"
proof -
  have "st = set_use i (use_cnt (drv_dev_tbl st ! i)) DD_STATE_CLOSED st"
    using set_use_self [of i st] assms(2) by simp
  then have "refcnt_rel nm i ops st (st, w) (0, w)"
    using assms(1) by (auto simp: refcnt_rel_def use_rel_def)
  from refcnt.run_simulates [OF this assms(3)] show ?thesis
    by (auto simp: refcnt_rel_def use_rel_def split: sum.splits elim!: rel_sum.cases)
qed

definition dd_ex_ops :: "(string list, unit) dd_operations" where
  "dd_ex_ops = \<lparr>dd_open = Some (\<lambda>flag w. Inr (0, w @ [''open''])),
     dd_close = Some (\<lambda>w. Inr (0, w @ [''close''])), dd_read = None, dd_write = None, dd_control = None\<rparr>"

definition dd_ex_st :: "(string list, unit) drv_model" where
  "dd_ex_st = \<lparr>drv_dev_tbl = \<lparr>dev_name = Some ''flash'', use_cnt = 0, dev_state = DD_STATE_CLOSED,
       dev_op = Some dd_ex_ops\<rparr> # replicate 9 no_dev, drv_sdev_tbl = replicate 16 no_dev\<rparr>"

theorem ddev_use_refines_refcount_witness:
  "\<exists>u. run_res (model_use ''flash'' (ddev_make_handle 0))
      [Use_open 0, Use_open 0, Use_close, Use_close, Use_open 0] (dd_ex_st, [])
    = Inr (set_use 0 u DD_STATE_OPENED dd_ex_st, [''open'', ''close'', ''open'']) \<and> u = 1"
proof -
  let ?xs = "[Use_open 0, Use_open 0, Use_close, Use_close, Use_open 0]"
  have at: "dev_at ''flash'' 0 dd_ex_ops dd_ex_st"
    by (simp add: dev_at_def dd_ex_st_def dd_first_def dd_consts)
  have closed: "dev_state (drv_dev_tbl dd_ex_st ! 0) = DD_STATE_CLOSED" by (simp add: dd_ex_st_def)
  have ok: "run_res_ok use_ok (spec_use dd_ex_ops) ?xs (0, [])"
    and run: "run_res (spec_use dd_ex_ops) ?xs (0, []) = Inr (1, [''open'', ''close'', ''open''])"
    by (simp_all add: dd_ex_ops_def)
  show ?thesis using ddev_use_refines_refcount [OF at closed ok] unfolding run by simp
qed

text \<open>C27: A registered static device is reached by its name: after a registration that reported
  success, \<open>sddev_control\<close> of that name runs the registered control function, provided no device
  already in the table has a name that starts with it; and every name that reached a device
  before still reaches the same slot.\<close>

theorem sddev_register_then_control:
  assumes "drv_inv st" and "sddev_register_dev (Some nm) (Some ops) st = Inr (r, st')"
    and "\<forall>d\<in>set (drv_sdev_tbl st). \<forall>s. dev_name d = Some s \<longrightarrow> \<not> prefix nm s"
  shows "r = DRV_SUCCESS
    \<and> sddev_control (Some nm) cmd p st' w =
        (case sdd_control ops of Some f \<Rightarrow> f cmd p w | None \<Rightarrow> Inr (DRV_FAILURE, w))
    \<and> (\<forall>nm' j. dd_first nm' j (drv_sdev_tbl st) \<longrightarrow> dd_first nm' j (drv_sdev_tbl st')
          \<and> drv_sdev_tbl st' ! j = drv_sdev_tbl st ! j)"
proof -
  let ?t = "drv_sdev_tbl st"
  obtain i where i: "dd_free_slot DD_MAX_SDEV 0 ?t = Some i" and r: "r = DRV_SUCCESS"
    and st': "st' = st\<lparr>drv_sdev_tbl := ?t[i := (?t ! i)
        \<lparr>dev_name := Some nm, dev_op := Some ops, dev_state := DD_STATE_CLOSED\<rparr>]\<rparr>"
    using assms(2) by (auto simp: sddev_register_dev_def register_in_def split: option.splits)
  have len: "length ?t = DD_MAX_SDEV" and inv: "l < DD_MAX_SDEV \<Longrightarrow> slot_inv (?t ! l)" for l
    using assms(1) by (auto simp: drv_inv_def list_all_length)
  have ib: "i < DD_MAX_SDEV" and free: "dev_name (?t ! i) = None"
    using dd_free_slot_SomeD [OF i] by simp_all
  have used: "\<exists>s. dev_name (?t ! l) = Some s" if "l < i" for l
    using dd_free_slot_used [OF i, of l] inv [of l] ib that
    by (auto simp: slot_inv_def split: option.splits)
  have "\<exists>s. dev_name (?t ! l) = Some s \<and> \<not> prefix nm s" if "l < i" for l
    using used [OF that] assms(3) len ib that by (metis nth_mem order_less_trans)
  then have "dd_first nm i (drv_sdev_tbl st')" using ib len by (simp add: dd_first_def st')
  then have "dd_search DD_MAX_SDEV 0 nm (drv_sdev_tbl st') = Inr (Some i)"
    using ib by (simp add: dd_search_iff_first)
  then have ctl: "sddev_control (Some nm) cmd p st' w =
        (case sdd_control ops of Some f \<Rightarrow> f cmd p w | None \<Rightarrow> Inr (DRV_FAILURE, w))"
    using ib len by (simp add: sddev_control_def st')
  have "dd_first nm' j (drv_sdev_tbl st') \<and> drv_sdev_tbl st' ! j = ?t ! j"
    if "dd_first nm' j ?t" for nm' j
  proof -
    have "j < i"
    proof (rule ccontr)
      assume "\<not> j < i"
      then show False using that free unfolding dd_first_def
        by (metis linorder_neqE_nat option.distinct(1))
    qed
    then show ?thesis using that by (simp add: dd_first_def st')
  qed
  then show ?thesis using r ctl by blast
qed

definition sdd_ex_ops :: "(string list, unit) sdd_operations" where
  "sdd_ex_ops = \<lparr>sdd_control = Some (\<lambda>cmd p w. Inr (cmd + 1, w @ [''control'']))\<rparr>"

theorem sddev_register_then_control_witness:
  "\<exists>st'. sddev_register_dev (Some ''icu'') (Some sdd_ex_ops) dd_ex_st = Inr (DRV_SUCCESS, st')
    \<and> sddev_control (Some ''icu'') 7 () st' [] = Inr (8, [''control''])"
proof -
  have inv: "drv_inv dd_ex_st"
    by (simp add: drv_inv_def dd_ex_st_def dd_consts slot_inv_def no_dev_def eval_nat_numeral)
  have "sddev_register_dev (Some ''icu'') (Some sdd_ex_ops) dd_ex_st = Inr (DRV_SUCCESS, dd_ex_st
      \<lparr>drv_sdev_tbl := (no_dev\<lparr>dev_name := Some ''icu'', dev_op := Some sdd_ex_ops, dev_state := DD_STATE_CLOSED\<rparr>)
         # replicate 15 no_dev\<rparr>)" (is "_ = Inr (_, ?st')")
    by (simp add: sddev_register_dev_def register_in_def dd_ex_st_def dd_consts no_dev_def eval_nat_numeral)
  moreover have "\<forall>d\<in>set (drv_sdev_tbl dd_ex_st). \<forall>s. dev_name d = Some s \<longrightarrow> \<not> prefix ''icu'' s"
    by (simp add: dd_ex_st_def no_dev_def)
  ultimately have "sddev_control (Some ''icu'') 7 () ?st' [] = Inr (8, [''control''])"
    using sddev_register_then_control [OF inv, of "''icu''" sdd_ex_ops DRV_SUCCESS ?st' 7 "()" "[]"]
    by (simp add: sdd_ex_ops_def)
  then show ?thesis using \<open>sddev_register_dev _ _ _ = _\<close> by blast
qed

text \<open>The table invariant (sizes; an empty slot has no operations, a used one has) holds after
  initialisation and is kept by every operation that returns; for a close, when the handle's
  slot still holds a device.\<close>

theorem drv_inv_kept:
  fixes st :: "('w, 'p) drv_model"
  shows "drv_inv (snd (drv_model_init st)) \<and> drv_inv (snd (drv_model_uninit st))
    \<and> (drv_inv st \<longrightarrow>
        (\<forall>nm optr r st'. ddev_register_dev nm optr st = Inr (r, st') \<longrightarrow> drv_inv st')
      \<and> (\<forall>nm optr r st'. sddev_register_dev nm optr st = Inr (r, st') \<longrightarrow> drv_inv st')
      \<and> (\<forall>nm r st'. ddev_unregister_dev nm st = Inr (r, st') \<longrightarrow> drv_inv st')
      \<and> (\<forall>nm r st'. sddev_unregister_dev nm st = Inr (r, st') \<longrightarrow> drv_inv st')
      \<and> (\<forall>nm s flag w h v st' w'. ddev_open nm s flag st w = Inr (h, v, st', w') \<longrightarrow> drv_inv st')
      \<and> (\<forall>h w r st' w'. ddev_close h st w = Inr (r, st', w') \<longrightarrow>
            (unat (ddev_get_id_from_handle h) < DD_MAX_DEV \<longrightarrow>
               dev_name (drv_dev_tbl st ! unat (ddev_get_id_from_handle h)) \<noteq> None) \<longrightarrow> drv_inv st'))"
proof -
  have "drv_inv (snd (drv_model_init st))" "drv_inv (snd (drv_model_uninit st))"
    by (simp_all add: drv_model_init_def drv_model_uninit_def drv_inv_def no_dev_def slot_inv_def
        list_all_iff)
  then show ?thesis
    by (intro conjI allI impI)
      (assumption | erule (1) ddev_register_inv sddev_register_inv ddev_unregister_inv
         sddev_unregister_inv ddev_open_inv ddev_close_inv | blast)+
qed

theorem drv_inv_kept_witness:
  "\<exists>st'. ddev_unregister_dev (Some ''flash'') dd_ex_st = Inr (DRV_SUCCESS, st') \<and> drv_inv st'"
proof -
  have inv: "drv_inv dd_ex_st"
    by (simp add: drv_inv_def dd_ex_st_def dd_consts slot_inv_def no_dev_def eval_nat_numeral)
  obtain st' where st': "ddev_unregister_dev (Some ''flash'') dd_ex_st = Inr (DRV_SUCCESS, st')"
    by (simp add: ddev_unregister_dev_def unregister_in_def dd_ex_st_def dd_consts strncmp_eq_def
        eval_nat_numeral)
  have "\<forall>nm r st'. ddev_unregister_dev nm dd_ex_st = Inr (r, st') \<longrightarrow> drv_inv st'"
    using drv_inv_kept [of dd_ex_st] inv by blast
  with st' show ?thesis by blast
qed

text \<open>The unregister functions run to each other's table size. A static device in one of the
  slots 10 to 15 cannot be unregistered (the search gives up and the assertion fails), and
  unregistering a name that a full table of the ten devices does not hold reads past the end of
  that table.\<close>

theorem unregister_bounds_swapped:
  "(drv_inv st \<and> dd_first nm i (drv_sdev_tbl st) \<and> DD_MAX_DEV \<le> i \<and> length nm \<le> DD_MAX_NAME_LEN
      \<longrightarrow> sddev_unregister_dev (Some nm) st = Inl Assert_failed)
   \<and> (drv_inv st \<and> length nm \<le> DD_MAX_NAME_LEN
        \<and> (\<forall>d\<in>set (drv_dev_tbl st). \<exists>s. dev_name d = Some s \<and> \<not> prefix nm s)
      \<longrightarrow> ddev_unregister_dev (Some nm) st = Inl Out_of_bounds)"
proof (intro conjI impI; elim conjE)
  assume "drv_inv st" "dd_first nm i (drv_sdev_tbl st)" "DD_MAX_DEV \<le> i" "length nm \<le> DD_MAX_NAME_LEN"
  then show "sddev_unregister_dev (Some nm) st = Inl Assert_failed"
    by (simp add: sddev_unregister_dev_def unregister_in_def dd_search_before)
next
  assume "drv_inv st" "length nm \<le> DD_MAX_NAME_LEN"
    and "\<forall>d\<in>set (drv_dev_tbl st). \<exists>s. dev_name d = Some s \<and> \<not> prefix nm s"
  moreover from this(1) have "length (drv_dev_tbl st) < 0 + DD_MAX_SDEV"
    by (simp add: drv_inv_def DD_MAX_DEV_def DD_MAX_SDEV_def)
  ultimately show "ddev_unregister_dev (Some nm) st = Inl Out_of_bounds"
    by (simp add: ddev_unregister_dev_def unregister_in_def dd_search_past)
qed

theorem unregister_bounds_swapped_witness:
  "sddev_unregister_dev (Some ''k'') \<lparr>drv_dev_tbl = replicate 10 no_dev,
      drv_sdev_tbl = map (\<lambda>c. \<lparr>dev_name = Some [c], use_cnt = 0, dev_state = DD_STATE_CLOSED,
        dev_op = Some sdd_ex_ops\<rparr>) ''abcdefghijklmnop''\<rparr> = Inl Assert_failed"
  (is "sddev_unregister_dev _ ?st = _")
proof -
  have "drv_inv ?st" by (simp add: drv_inv_def dd_consts slot_inv_def no_dev_def eval_nat_numeral)
  moreover have "dd_first ''k'' 10 (drv_sdev_tbl ?st)"
    by (simp add: dd_first_def All_less_Suc eval_nat_numeral)
  ultimately show ?thesis using unregister_bounds_swapped [of ?st "''k''" 10]
    by (simp only: DD_MAX_DEV_def DD_MAX_NAME_LEN_def) simp
qed

end
