(* ===== verification/Soc_World.thy ===== *)
theory Soc_World
  imports Drv_Model
begin

text \<open>
  The world the drivers of this development act on, and the arguments of their control calls.
  \<open>bk_world\<close> is the register file, the byte memory and the static handler tables of the DMA
  and GPIO drivers. A \<open>void *\<close> argument is its address together with the object it points to, so that a
  driver that checks it for null, casts it to an integer or reads a struct through it can be
  followed; reading it as a struct it does not point to is a fault. The structs are those of
  \<^verbatim>\<open>beken378/driver/include/general_dma_pub.h\<close>.
\<close>

record bk_world =
  w_reg :: regs
  w_mem :: mem
  p_dma_fin_handler :: "u32 list"
  p_dma_hfin_handler :: "u32 list"
  p_gpio_intr_handler :: "u32 list"
  usb_plug :: "u32 \<times> u32"

record gdma_cfg =
  cfg_param :: u32
  cfg_channel :: u32

text \<open>The union \<open>u\<close> of \<open>GDMACFG_TPYES_ST\<close> has up to four words. The variants overlap: \<open>type1\<close>,
  \<open>type2\<close>, \<open>type4\<close> and \<open>type5\<close> use words 0 and 1, \<open>type3\<close> and \<open>type6\<close> all four.\<close>

record gdmacfg_types =
  t_channel :: u32
  t_prio :: u32
  t_dstptr_incr :: u8
  t_srcptr_incr :: u8
  t_dstdat_width :: u8
  t_srcdat_width :: u8
  t_src_start_addr :: u32
  t_dst_start_addr :: u32
  t_src_module :: u8
  t_dst_module :: u8
  t_fin_handler :: u32
  t_half_fin_handler :: u32
  t_u0 :: u32
  t_u1 :: u32
  t_u2 :: u32
  t_u3 :: u32

record gdma_do =
  do_channel :: u32
  do_src_addr :: u32
  do_dst_addr :: u32
  do_length :: u32

record gpio_int_st =
  gi_id :: u32
  gi_mode :: u32
  gi_phandler :: u32

datatype dev_obj =
    No_obj
  | Obj_u32 u32
  | Obj_cfg gdma_cfg
  | Obj_types gdmacfg_types
  | Obj_do gdma_do
  | Obj_gpio_int gpio_int_st

record dev_param =
  pa_addr :: u32
  pa_obj :: dev_obj

definition null_param :: dev_param where
  "null_param = \<lparr>pa_addr = 0, pa_obj = No_obj\<rparr>"

text \<open>The address of a local variable: a stack address, not null.\<close>

definition local_addr :: u32 where
  "local_addr = 0x00430000"

definition param_of :: "dev_obj \<Rightarrow> dev_param" where
  "param_of x = \<lparr>pa_addr = local_addr, pa_obj = x\<rparr>"

text \<open>\<open>*(UINT32 * )param\<close> and the casts of the DMA driver.\<close>

definition param_u32 :: "dev_param \<Rightarrow> u32 result" where
  "param_u32 p = (if pa_addr p = 0 then Inl Null_deref
    else (case pa_obj p of Obj_u32 v \<Rightarrow> Inr v | _ \<Rightarrow> Inl Bad_cast))"

definition param_cfg :: "dev_param \<Rightarrow> gdma_cfg result" where
  "param_cfg p = (if pa_addr p = 0 then Inl Null_deref
    else (case pa_obj p of Obj_cfg v \<Rightarrow> Inr v | _ \<Rightarrow> Inl Bad_cast))"

definition param_types :: "dev_param \<Rightarrow> gdmacfg_types result" where
  "param_types p = (if pa_addr p = 0 then Inl Null_deref
    else (case pa_obj p of Obj_types v \<Rightarrow> Inr v | _ \<Rightarrow> Inl Bad_cast))"

definition param_do :: "dev_param \<Rightarrow> gdma_do result" where
  "param_do p = (if pa_addr p = 0 then Inl Null_deref
    else (case pa_obj p of Obj_do v \<Rightarrow> Inr v | _ \<Rightarrow> Inl Bad_cast))"

definition param_gpio_int :: "dev_param \<Rightarrow> gpio_int_st result" where
  "param_gpio_int p = (if pa_addr p = 0 then Inl Null_deref
    else (case pa_obj p of Obj_gpio_int v \<Rightarrow> Inr v | _ \<Rightarrow> Inl Bad_cast))"

lemma param_of_simps [simp]:
  "param_u32 (param_of (Obj_u32 v)) = Inr v" "param_cfg (param_of (Obj_cfg c)) = Inr c"
  "param_types (param_of (Obj_types t)) = Inr t" "param_do (param_of (Obj_do d)) = Inr d"
  "pa_addr (param_of x) \<noteq> 0"
  by (simp_all add: param_u32_def param_cfg_def param_types_def param_do_def param_of_def local_addr_def)

text \<open>Register access on the world.\<close>

definition w_read :: "u32 \<Rightarrow> bk_world \<Rightarrow> u32" where
  "w_read a w = REG_READ a (w_reg w)"

definition w_write :: "u32 \<Rightarrow> u32 \<Rightarrow> bk_world \<Rightarrow> bk_world" where
  "w_write a v w = w\<lparr>w_reg := REG_WRITE a v (w_reg w)\<rparr>"

lemma w_read_write [reg_simps]: "w_read a (w_write b v w) = (if a = b then v else w_read a w)"
  by (simp add: w_read_def w_write_def reg_simps)

lemma w_write_frame [simp]:
  "w_mem (w_write a v w) = w_mem w" "p_dma_fin_handler (w_write a v w) = p_dma_fin_handler w"
  "p_dma_hfin_handler (w_write a v w) = p_dma_hfin_handler w"
  "p_gpio_intr_handler (w_write a v w) = p_gpio_intr_handler w" "usb_plug (w_write a v w) = usb_plug w"
  by (simp_all add: w_write_def)

type_synonym bk_drv = "(bk_world, dev_param) drv_model"

end
