(* ===== verification/Icu.thy ===== *)
theory Icu
  imports Soc_World
begin

text \<open>
  The interrupt and clock unit driver, \<^verbatim>\<open>beken378/driver/icu/icu.c\<close>: a static device whose control
  function reads and changes the unit's registers. Command codes and register addresses are those
  of \<^verbatim>\<open>icu_pub.h\<close> and \<^verbatim>\<open>icu.h\<close>, in the configuration of the BK7221U. Interrupts are disabled
  around the whole function, so each command is one atomic step.
\<close>

section \<open>Registers and commands\<close>

definition ICU_BASE :: u32 where "ICU_BASE = 0x00802000"
definition ICU_PERI_CLK_MUX :: u32 where "ICU_PERI_CLK_MUX = ICU_BASE + 0 * 4"
definition ICU_PWM_CLK_MUX :: u32 where "ICU_PWM_CLK_MUX = ICU_BASE + 1 * 4"
definition ICU_PERI_CLK_PWD :: u32 where "ICU_PERI_CLK_PWD = ICU_BASE + 2 * 4"
definition ICU_PERI_CLK_GATING :: u32 where "ICU_PERI_CLK_GATING = ICU_BASE + 3 * 4"
definition ICU_TL410_CLK_PWD :: u32 where "ICU_TL410_CLK_PWD = ICU_BASE + 4 * 4"
definition ICU_JTAG_SELECT :: u32 where "ICU_JTAG_SELECT = ICU_BASE + 6 * 4"
definition ICU_INTERRUPT_ENABLE :: u32 where "ICU_INTERRUPT_ENABLE = ICU_BASE + 16 * 4"
definition ICU_GLOBAL_INT_EN :: u32 where "ICU_GLOBAL_INT_EN = ICU_BASE + 17 * 4"
definition ICU_INT_RAW_STATUS :: u32 where "ICU_INT_RAW_STATUS = ICU_BASE + 18 * 4"
definition ICU_INT_STATUS :: u32 where "ICU_INT_STATUS = ICU_BASE + 19 * 4"
definition ICU_ARM_WAKEUP_EN :: u32 where "ICU_ARM_WAKEUP_EN = ICU_BASE + 20 * 4"

lemmas icu_regs = ICU_BASE_def ICU_PERI_CLK_MUX_def ICU_PWM_CLK_MUX_def ICU_PERI_CLK_PWD_def
  ICU_PERI_CLK_GATING_def ICU_TL410_CLK_PWD_def ICU_JTAG_SELECT_def ICU_INTERRUPT_ENABLE_def
  ICU_GLOBAL_INT_EN_def ICU_INT_RAW_STATUS_def ICU_INT_STATUS_def ICU_ARM_WAKEUP_EN_def

abbreviation (input) ICU_SUCCESS :: u32 where "ICU_SUCCESS \<equiv> 0"
abbreviation (input) JTAG_ARM_MODE :: u32 where "JTAG_ARM_MODE \<equiv> 0"
abbreviation (input) JTAG_TL410_MODE :: u32 where "JTAG_TL410_MODE \<equiv> 1"
abbreviation (input) JTAG_SEL_WR_ARM :: u32 where "JTAG_SEL_WR_ARM \<equiv> 0x7111E968"
abbreviation (input) JTAG_SEL_WR_TL4 :: u32 where "JTAG_SEL_WR_TL4 \<equiv> 0x7111E410"

text \<open>The command enumeration, from \<open>ICU_CMD_MAGIC + 1\<close>.\<close>

abbreviation (input) CMD_ICU_CLKGATING_DISABLE :: u32 where "CMD_ICU_CLKGATING_DISABLE \<equiv> 0xe220001"
abbreviation (input) CMD_ICU_CLKGATING_ENABLE :: u32 where "CMD_ICU_CLKGATING_ENABLE \<equiv> 0xe220002"
abbreviation (input) CMD_ICU_INT_DISABLE :: u32 where "CMD_ICU_INT_DISABLE \<equiv> 0xe220003"
abbreviation (input) CMD_ICU_INT_ENABLE :: u32 where "CMD_ICU_INT_ENABLE \<equiv> 0xe220004"
abbreviation (input) CMD_ICU_GLOBAL_INT_DISABLE :: u32 where "CMD_ICU_GLOBAL_INT_DISABLE \<equiv> 0xe220005"
abbreviation (input) CMD_ICU_GLOBAL_INT_ENABLE :: u32 where "CMD_ICU_GLOBAL_INT_ENABLE \<equiv> 0xe220006"
abbreviation (input) CMD_GET_INTR_STATUS :: u32 where "CMD_GET_INTR_STATUS \<equiv> 0xe220007"
abbreviation (input) CMD_CLR_INTR_STATUS :: u32 where "CMD_CLR_INTR_STATUS \<equiv> 0xe220008"
abbreviation (input) CMD_GET_INTR_RAW_STATUS :: u32 where "CMD_GET_INTR_RAW_STATUS \<equiv> 0xe220009"
abbreviation (input) CMD_CLR_INTR_RAW_STATUS :: u32 where "CMD_CLR_INTR_RAW_STATUS \<equiv> 0xe22000a"
abbreviation (input) CMD_CLK_PWR_DOWN :: u32 where "CMD_CLK_PWR_DOWN \<equiv> 0xe22000b"
abbreviation (input) CMD_CLK_PWR_UP :: u32 where "CMD_CLK_PWR_UP \<equiv> 0xe22000c"
abbreviation (input) CMD_CONF_PWM_PCLK :: u32 where "CMD_CONF_PWM_PCLK \<equiv> 0xe22000d"
abbreviation (input) CMD_CONF_PWM_LPOCLK :: u32 where "CMD_CONF_PWM_LPOCLK \<equiv> 0xe22000e"
abbreviation (input) CMD_TL410_CLK_PWR_DOWN :: u32 where "CMD_TL410_CLK_PWR_DOWN \<equiv> 0xe22000f"
abbreviation (input) CMD_TL410_CLK_PWR_UP :: u32 where "CMD_TL410_CLK_PWR_UP \<equiv> 0xe220010"
abbreviation (input) CMD_CONF_PCLK_26M :: u32 where "CMD_CONF_PCLK_26M \<equiv> 0xe220011"
abbreviation (input) CMD_CONF_PCLK_DCO :: u32 where "CMD_CONF_PCLK_DCO \<equiv> 0xe220012"
abbreviation (input) CMD_SET_JTAG_MODE :: u32 where "CMD_SET_JTAG_MODE \<equiv> 0xe220013"
abbreviation (input) CMD_GET_JTAG_MODE :: u32 where "CMD_GET_JTAG_MODE \<equiv> 0xe220014"
abbreviation (input) CMD_ARM_WAKEUP :: u32 where "CMD_ARM_WAKEUP \<equiv> 0xe220015"

section \<open>The control function\<close>

definition icu_set_bits :: "u32 \<Rightarrow> u32 \<Rightarrow> bk_world \<Rightarrow> bk_world" where
  "icu_set_bits a v w = w_write a (w_read a w OR v) w"

definition icu_clear_bits :: "u32 \<Rightarrow> u32 \<Rightarrow> bk_world \<Rightarrow> bk_world" where
  "icu_clear_bits a v w = w_write a (w_read a w AND NOT v) w"

definition icu_ctrl :: "u32 \<Rightarrow> dev_param \<Rightarrow> bk_world \<Rightarrow> (u32 \<times> bk_world) result" where
  "icu_ctrl cmd param w =
    (let with_param = (\<lambda>f. bind_res (param_u32 param) (\<lambda>v. Inr (ICU_SUCCESS, f v w)));
         asserted = (\<lambda>r. if pa_addr param = 0 then Inl Assert_failed else r) in
     if cmd = CMD_CONF_PCLK_26M then with_param (icu_set_bits ICU_PERI_CLK_MUX)
     else if cmd = CMD_CONF_PWM_LPOCLK then
       with_param (\<lambda>v. icu_set_bits ICU_PWM_CLK_MUX (push_bit (unat v) 1))
     else if cmd = CMD_CONF_PCLK_DCO then with_param (icu_clear_bits ICU_PERI_CLK_MUX)
     else if cmd = CMD_CONF_PWM_PCLK then
       with_param (\<lambda>v. icu_clear_bits ICU_PWM_CLK_MUX (push_bit (unat v) 1))
     else if cmd = CMD_CLK_PWR_UP then with_param (icu_clear_bits ICU_PERI_CLK_PWD)
     else if cmd = CMD_CLK_PWR_DOWN then with_param (icu_set_bits ICU_PERI_CLK_PWD)
     else if cmd = CMD_TL410_CLK_PWR_UP then with_param (icu_clear_bits ICU_TL410_CLK_PWD)
     else if cmd = CMD_TL410_CLK_PWR_DOWN then with_param (icu_set_bits ICU_TL410_CLK_PWD)
     else if cmd = CMD_ICU_CLKGATING_DISABLE then with_param (icu_set_bits ICU_PERI_CLK_GATING)
     else if cmd = CMD_ICU_CLKGATING_ENABLE then with_param (icu_clear_bits ICU_PERI_CLK_GATING)
     else if cmd = CMD_ICU_INT_DISABLE then with_param (icu_clear_bits ICU_INTERRUPT_ENABLE)
     else if cmd = CMD_ICU_INT_ENABLE then with_param (icu_set_bits ICU_INTERRUPT_ENABLE)
     else if cmd = CMD_ICU_GLOBAL_INT_DISABLE then with_param (icu_clear_bits ICU_GLOBAL_INT_EN)
     else if cmd = CMD_ICU_GLOBAL_INT_ENABLE then with_param (icu_set_bits ICU_GLOBAL_INT_EN)
     else if cmd = CMD_GET_INTR_STATUS then Inr (w_read ICU_INT_STATUS w, w)
     else if cmd = CMD_CLR_INTR_STATUS then asserted (with_param (icu_set_bits ICU_INT_STATUS))
     else if cmd = CMD_GET_INTR_RAW_STATUS then Inr (w_read ICU_INT_RAW_STATUS w, w)
     else if cmd = CMD_CLR_INTR_RAW_STATUS then asserted (with_param (icu_set_bits ICU_INT_RAW_STATUS))
     else if cmd = CMD_SET_JTAG_MODE then
       asserted (with_param (\<lambda>v w.
         if JTAG_ARM_MODE = v then w_write ICU_JTAG_SELECT JTAG_SEL_WR_ARM w
         else if JTAG_TL410_MODE = v then w_write ICU_JTAG_SELECT JTAG_SEL_WR_TL4 w
         else w))
     else if cmd = CMD_GET_JTAG_MODE then Inr (w_read ICU_JTAG_SELECT w, w)
     else if cmd = CMD_ARM_WAKEUP then with_param (w_write ICU_ARM_WAKEUP_EN)
     else Inr (ICU_SUCCESS, w))"

definition ICU_DEV_NAME :: string where "ICU_DEV_NAME = ''icu''"

definition icu_op :: "(bk_world, dev_param) sdd_operations" where
  "icu_op = \<lparr>sdd_control = Some icu_ctrl\<rparr>"

text \<open>\<open>PCLK_POSI_UART1 | UART2 | PWMS | SDIO | I2C1 | I2C2\<close>\<close>

definition icu_init :: "bk_drv \<Rightarrow> bk_world \<Rightarrow> (bk_drv \<times> bk_world) result" where
  "icu_init st w =
    bind_res (sddev_register_dev (Some ICU_DEV_NAME) (Some icu_op) st) (\<lambda>(_, st').
    bind_res (icu_ctrl CMD_CONF_PCLK_26M (param_of (Obj_u32 (1 OR 2 OR 0x80 OR 0x100 OR 4 OR 0x10))) w) (\<lambda>(_, w').
      Inr (st', w')))"

definition icu_exit :: "bk_drv \<Rightarrow> bk_drv result" where
  "icu_exit st = bind_res (sddev_unregister_dev (Some ICU_DEV_NAME) st) (\<lambda>(_, st'). Inr st')"

section \<open>Behaviour\<close>

lemmas icu_bits = icu_set_bits_def icu_clear_bits_def

text \<open>Each command that changes a register changes exactly its own.\<close>

lemma icu_ctrl_int:
  "icu_ctrl CMD_ICU_INT_ENABLE (param_of (Obj_u32 v)) w = Inr (0, icu_set_bits ICU_INTERRUPT_ENABLE v w)"
  "icu_ctrl CMD_ICU_INT_DISABLE (param_of (Obj_u32 v)) w = Inr (0, icu_clear_bits ICU_INTERRUPT_ENABLE v w)"
  "icu_ctrl CMD_ICU_GLOBAL_INT_ENABLE (param_of (Obj_u32 v)) w = Inr (0, icu_set_bits ICU_GLOBAL_INT_EN v w)"
  "icu_ctrl CMD_ICU_GLOBAL_INT_DISABLE (param_of (Obj_u32 v)) w = Inr (0, icu_clear_bits ICU_GLOBAL_INT_EN v w)"
  "icu_ctrl CMD_GET_INTR_STATUS p w = Inr (w_read ICU_INT_STATUS w, w)"
  "icu_ctrl CMD_CLR_INTR_STATUS (param_of (Obj_u32 v)) w = Inr (0, icu_set_bits ICU_INT_STATUS v w)"
  by (simp_all add: icu_ctrl_def Let_def)

lemma icu_op_control: "sdd_control icu_op = Some icu_ctrl"
  by (simp add: icu_op_def)

lemma sddev_icu:
  "sdd_bound ICU_DEV_NAME icu_op st \<Longrightarrow> sddev_control (Some ICU_DEV_NAME) cmd p st w = icu_ctrl cmd p w"
  using icu_op_control by (rule sddev_control_bound [rotated])

definition icu_registers :: "u32 set" where
  "icu_registers = {ICU_PERI_CLK_MUX, ICU_PWM_CLK_MUX, ICU_PERI_CLK_PWD, ICU_PERI_CLK_GATING,
     ICU_TL410_CLK_PWD, ICU_JTAG_SELECT, ICU_INTERRUPT_ENABLE, ICU_GLOBAL_INT_EN, ICU_INT_RAW_STATUS,
     ICU_INT_STATUS, ICU_ARM_WAKEUP_EN}"

text \<open>A world that differs in one register of the unit at most.\<close>

definition icu_step :: "bk_world \<Rightarrow> bk_world \<Rightarrow> bool" where
  "icu_step w w' \<longleftrightarrow> w' = w \<or> (\<exists>a\<in>icu_registers. \<exists>v. w' = w_write a v w)"

lemma icu_step_intros:
  "icu_step w w" "a \<in> icu_registers \<Longrightarrow> icu_step w (icu_set_bits a v w)"
  "a \<in> icu_registers \<Longrightarrow> icu_step w (icu_clear_bits a v w)"
  "a \<in> icu_registers \<Longrightarrow> icu_step w (w_write a v w)"
  by (auto simp: icu_step_def icu_bits)

lemma icu_ctrl_step:
  assumes "icu_ctrl cmd p w = Inr (r, w')"
  shows "icu_step w w'"
proof -
  have reg: "ICU_PERI_CLK_MUX \<in> icu_registers" "ICU_PWM_CLK_MUX \<in> icu_registers"
    "ICU_PERI_CLK_PWD \<in> icu_registers" "ICU_PERI_CLK_GATING \<in> icu_registers"
    "ICU_TL410_CLK_PWD \<in> icu_registers" "ICU_JTAG_SELECT \<in> icu_registers"
    "ICU_INTERRUPT_ENABLE \<in> icu_registers" "ICU_GLOBAL_INT_EN \<in> icu_registers"
    "ICU_INT_RAW_STATUS \<in> icu_registers" "ICU_INT_STATUS \<in> icu_registers"
    "ICU_ARM_WAKEUP_EN \<in> icu_registers"
    by (simp_all add: icu_registers_def)
  show ?thesis using assms unfolding icu_ctrl_def Let_def
    by (auto simp: bind_res_Inr split: if_splits intro: icu_step_intros reg)
qed

section \<open>Properties\<close>

text \<open>Whatever the command and its argument, \<open>icu_ctrl\<close> changes at most one register, one of
  the unit's own; memory and the other drivers' tables are untouched, and a command that is not
  in the enumeration changes nothing and reports success.\<close>

theorem icu_ctrl_confined:
  "(\<forall>r w'. icu_ctrl cmd p w = Inr (r, w') \<longrightarrow>
      (\<forall>a. a \<notin> icu_registers \<longrightarrow> w_read a w' = w_read a w) \<and> w_mem w' = w_mem w
      \<and> (\<forall>a b. w_read a w' \<noteq> w_read a w \<longrightarrow> w_read b w' \<noteq> w_read b w \<longrightarrow> a = b))
    \<and> (cmd \<notin> {0xe220001..0xe220015} \<longrightarrow> icu_ctrl cmd p w = Inr (0, w))"
proof (intro conjI impI allI)
  fix r w'
  assume "icu_ctrl cmd p w = Inr (r, w')"
  from icu_ctrl_step [OF this]
  show "w_mem w' = w_mem w"
    and "a \<notin> icu_registers \<Longrightarrow> w_read a w' = w_read a w"
    and "w_read a w' \<noteq> w_read a w \<Longrightarrow> w_read b w' \<noteq> w_read b w \<Longrightarrow> a = b" for a b
    by (auto simp: icu_step_def reg_simps split: if_splits)
next
  assume "cmd \<notin> {0xe220001..0xe220015}"
  then show "icu_ctrl cmd p w = Inr (0, w)"
    unfolding icu_ctrl_def Let_def by (auto simp: word_le_nat_alt)
qed

definition icu_ex_w :: bk_world where
  "icu_ex_w = \<lparr>w_reg = (\<lambda>a. if a = ICU_INT_STATUS then 0x00400021 else 0), w_mem = (\<lambda>_. 0),
     p_dma_fin_handler = replicate 6 0, p_dma_hfin_handler = replicate 6 0,
     p_gpio_intr_handler = replicate 40 0, usb_plug = (0, 0)\<rparr>"

theorem icu_ctrl_confined_witness:
  "\<exists>w'. icu_ctrl CMD_ICU_INT_ENABLE (param_of (Obj_u32 0x80)) icu_ex_w = Inr (0, w')
    \<and> w_read ICU_INT_STATUS w' = 0x00400021 \<and> w_read ICU_INTERRUPT_ENABLE w' = 0x80"
proof -
  let ?w' = "icu_set_bits ICU_INTERRUPT_ENABLE 0x80 icu_ex_w"
  have r: "icu_ctrl CMD_ICU_INT_ENABLE (param_of (Obj_u32 0x80)) icu_ex_w = Inr (0, ?w')"
    by (rule icu_ctrl_int)
  have en: "w_read ICU_INTERRUPT_ENABLE ?w' = 0x80"
    by (simp add: icu_bits reg_simps) (simp add: w_read_def REG_READ_def icu_ex_w_def icu_regs)
  have "ICU_INT_STATUS \<noteq> ICU_INTERRUPT_ENABLE" by (simp add: icu_regs)
  moreover have "w_read ICU_INTERRUPT_ENABLE icu_ex_w = 0" "w_read ICU_INT_STATUS icu_ex_w = 0x00400021"
    by (simp_all add: w_read_def REG_READ_def icu_ex_w_def icu_regs)
  moreover have "\<forall>a b. w_read a ?w' \<noteq> w_read a icu_ex_w \<longrightarrow> w_read b ?w' \<noteq> w_read b icu_ex_w \<longrightarrow> a = b"
    using icu_ctrl_confined [of "CMD_ICU_INT_ENABLE" "param_of (Obj_u32 0x80)" icu_ex_w] r by blast
  moreover have "(0x80 :: u32) \<noteq> 0" by simp
  ultimately have "w_read ICU_INT_STATUS ?w' = 0x00400021" using en by metis
  then show ?thesis using r en by blast
qed

text \<open>Clearing interrupt status bits writes the requested bits together with every bit that
  is pending: on a write-one-to-clear register, acknowledging one interrupt acknowledges all.\<close>

theorem icu_clear_status_writes_all_pending:
  "icu_ctrl CMD_CLR_INTR_STATUS (param_of (Obj_u32 v)) w
    = Inr (0, w_write ICU_INT_STATUS (w_read ICU_INT_STATUS w OR v) w)"
  by (simp add: icu_ctrl_int icu_bits)

end
