(* ===== verification/Doubly_List.thy ===== *)
theory Doubly_List
  imports Bk_Prelude
begin

text \<open>
  The circular doubly linked lists of \<^verbatim>\<open>beken378/common/doubly_list.h\<close>, which the interrupt
  controller and other drivers thread through their own structs. The heap is the record \<open>links\<close>
  of the \<open>next\<close> and \<open>prev\<close> fields of all list headers (a node is an address of any type); each
  inline function is one definition that updates the fields in the order of the source.

  \<open>dlist s h xs\<close> says that the header \<open>h\<close> heads the circular list of the distinct nodes \<open>xs\<close>.
  The lemmas show that insertion, deletion, moving and splicing are the list operations on \<open>xs\<close>; the
  interface \<open>linked_nodes\<close> (interpreted as \<open>dl\<close>) gives every loop over a list its meaning.
\<close>

section \<open>The heap of list headers and the operations\<close>

record 'n links =
  nx :: "'n \<Rightarrow> 'n"
  pv :: "'n \<Rightarrow> 'n"

definition set_nx :: "'n \<Rightarrow> 'n \<Rightarrow> 'n links \<Rightarrow> 'n links" where
  "set_nx a b s = s\<lparr>nx := (nx s)(a := b)\<rparr>"

definition set_pv :: "'n \<Rightarrow> 'n \<Rightarrow> 'n links \<Rightarrow> 'n links" where
  "set_pv a b s = s\<lparr>pv := (pv s)(a := b)\<rparr>"

definition INIT_LIST_HEAD :: "'n \<Rightarrow> 'n links \<Rightarrow> 'n links" where
  "INIT_LIST_HEAD p s = set_pv p p (set_nx p p s)"

definition list_add_between :: "'n \<Rightarrow> 'n \<Rightarrow> 'n \<Rightarrow> 'n links \<Rightarrow> 'n links" where
  "list_add_between new_node p n s =
    set_nx p new_node (set_pv new_node p (set_nx new_node n (set_pv n new_node s)))"

definition list_add_head :: "'n \<Rightarrow> 'n \<Rightarrow> 'n links \<Rightarrow> 'n links" where
  "list_add_head new_node h s = list_add_between new_node h (nx s h) s"

definition list_add_tail :: "'n \<Rightarrow> 'n \<Rightarrow> 'n links \<Rightarrow> 'n links" where
  "list_add_tail new_node h s = list_add_between new_node (pv s h) h s"

definition list_del_between :: "'n \<Rightarrow> 'n \<Rightarrow> 'n links \<Rightarrow> 'n links" where
  "list_del_between p n s = set_nx p n (set_pv n p s)"

definition list_del :: "'n \<Rightarrow> 'n links \<Rightarrow> 'n links" where
  "list_del e s = list_del_between (pv s e) (nx s e) s"

definition list_del_init :: "'n \<Rightarrow> 'n links \<Rightarrow> 'n links" where
  "list_del_init e s = INIT_LIST_HEAD e (list_del_between (pv s e) (nx s e) s)"

definition list_move :: "'n \<Rightarrow> 'n \<Rightarrow> 'n links \<Rightarrow> 'n links" where
  "list_move l h s = list_add_head l h (list_del_between (pv s l) (nx s l) s)"

definition list_move_tail :: "'n \<Rightarrow> 'n \<Rightarrow> 'n links \<Rightarrow> 'n links" where
  "list_move_tail l h s = list_add_tail l h (list_del_between (pv s l) (nx s l) s)"

definition list_empty :: "'n \<Rightarrow> 'n links \<Rightarrow> bool" where
  "list_empty h s \<longleftrightarrow> nx s h = h"

definition list_splice_at :: "'n \<Rightarrow> 'n \<Rightarrow> 'n links \<Rightarrow> 'n links" where
  "list_splice_at l h s =
    (let first = nx s l; last = pv s l; at = nx s h
     in set_pv at last (set_nx last at (set_nx h first (set_pv first h s))))"

definition list_splice :: "'n \<Rightarrow> 'n \<Rightarrow> 'n links \<Rightarrow> 'n links" where
  "list_splice l h s = (if \<not> list_empty l s then list_splice_at l h s else s)"

definition list_splice_init :: "'n \<Rightarrow> 'n \<Rightarrow> 'n links \<Rightarrow> 'n links" where
  "list_splice_init l h s =
    (if \<not> list_empty l s then INIT_LIST_HEAD l (list_splice_at l h s) else s)"

text \<open>The loops \<open>list_for_each\<close> and \<open>list_for_each_safe\<close>, for a body that changes no links before
  it leaves the loop.\<close>

definition list_for_each :: "'n \<Rightarrow> 'n links \<Rightarrow> ('n \<Rightarrow> 'a \<Rightarrow> 'b + 'a) \<Rightarrow> 'a \<Rightarrow> ('b + 'a) option" where
  "list_for_each h s body acc = for_each_node (nx s) h body (nx s h) acc"

definition list_size :: "'n \<Rightarrow> 'n links \<Rightarrow> u32 option" where
  "list_size h s =
    map_option projr (list_for_each h s (\<lambda>pos num. Inr (num + 1) :: unit + u32) 0)"

lemmas link_defs = set_nx_def set_pv_def INIT_LIST_HEAD_def list_add_between_def list_del_between_def

section \<open>Chains and lists\<close>

text \<open>\<open>linked s a xs b\<close>: from \<open>a\<close> forward over exactly \<open>xs\<close> to \<open>b\<close>, and back.\<close>

primrec linked :: "'n links \<Rightarrow> 'n \<Rightarrow> 'n list \<Rightarrow> 'n \<Rightarrow> bool" where
  "linked s a [] b \<longleftrightarrow> nx s a = b \<and> pv s b = a"
| "linked s a (x # xs) b \<longleftrightarrow> nx s a = x \<and> pv s x = a \<and> linked s x xs b"

definition dlist :: "'n links \<Rightarrow> 'n \<Rightarrow> 'n list \<Rightarrow> bool" where
  "dlist s h xs \<longleftrightarrow> distinct (h # xs) \<and> linked s h xs h"

lemma linked_append:
  "linked s a (xs @ y # ys) b \<longleftrightarrow> linked s a xs y \<and> linked s y ys b"
  by (induction xs arbitrary: a) auto

lemma linked_frame:
  "\<lbrakk>\<forall>x\<in>set (a # xs). nx s' x = nx s x; \<forall>x\<in>set (xs @ [b]). pv s' x = pv s x\<rbrakk>
    \<Longrightarrow> linked s' a xs b = linked s a xs b"
  by (induction xs arbitrary: a) auto

lemma linked_ends: "linked s a xs b \<Longrightarrow> nx s a = hd (xs @ [b]) \<and> pv s b = last (a # xs)"
  by (induction xs arbitrary: a) auto

text \<open>Linking a new node between two neighbours of a chain, and unlinking one.\<close>

lemma linked_insert:
  assumes "linked s a (xs @ ys) b" and "distinct (a # xs @ ys)" and "b \<notin> set (xs @ ys)"
    and "c \<notin> set (a # b # xs @ ys)"
    and "p = last (a # xs)" and "n = hd (ys @ [b])"
  shows "linked (list_add_between c p n s) a (xs @ c # ys) b"
  using assms
proof (induction xs arbitrary: a)
  case Nil
  show ?case
  proof (cases ys)
    case (Cons y zs)
    have "linked (list_add_between c p n s) y zs b = linked s y zs b"
      using Nil Cons by (intro linked_frame) (auto simp: link_defs)
    then show ?thesis using Nil Cons by (auto simp: link_defs)
  qed (use Nil in \<open>auto simp: link_defs\<close>)
next
  case (Cons x xs)
  have "linked (list_add_between c p n s) x (xs @ c # ys) b"
    using Cons.prems by (intro Cons.IH) auto
  moreover have "a \<noteq> p" "x \<noteq> n"
    using Cons.prems by (auto split: if_splits) (cases ys; auto)+
  ultimately show ?case using Cons.prems by (auto simp: link_defs)
qed

lemma linked_middle:
  "linked s a (xs @ c # ys) b \<Longrightarrow> pv s c = last (a # xs) \<and> nx s c = hd (ys @ [b])"
  using linked_ends [of s a xs c] linked_ends [of s c ys b] by (simp add: linked_append)

lemma linked_delete:
  assumes "linked s a (xs @ c # ys) b" and "distinct (a # xs @ c # ys)" and "b \<notin> set (xs @ c # ys)"
    and "p = last (a # xs)" and "n = hd (ys @ [b])"
  shows "linked (list_del_between p n s) a (xs @ ys) b"
  using assms
proof (induction xs arbitrary: a)
  case Nil
  show ?case
  proof (cases ys)
    case (Cons y zs)
    have "linked (list_del_between p n s) y zs b = linked s y zs b"
      using Nil Cons by (intro linked_frame) (auto simp: link_defs)
    then show ?thesis using Nil Cons by (auto simp: link_defs)
  qed (use Nil in \<open>auto simp: link_defs\<close>)
next
  case (Cons x xs)
  have "linked (list_del_between p n s) x (xs @ ys) b"
    using Cons.prems by (intro Cons.IH) auto
  moreover have "a \<noteq> p" "x \<noteq> n"
    using Cons.prems by (auto split: if_splits) (cases ys; auto)+
  ultimately show ?case using Cons.prems by (auto simp: link_defs)
qed

section \<open>The operations on lists\<close>

lemma dlist_init: "dlist (INIT_LIST_HEAD h s) h []"
  by (simp add: dlist_def link_defs)

lemma dlist_empty: "dlist s h xs \<Longrightarrow> list_empty h s \<longleftrightarrow> xs = []"
  by (cases xs) (auto simp: dlist_def list_empty_def)

lemma dlist_add_head:
  assumes "dlist s h xs" and "c \<notin> set (h # xs)"
  shows "dlist (list_add_head c h s) h (c # xs)"
  using assms linked_insert [of s h "[]" xs h c h "nx s h"] linked_ends [of s h xs h]
  by (auto simp: dlist_def list_add_head_def)

lemma dlist_add_tail:
  assumes "dlist s h xs" and "c \<notin> set (h # xs)"
  shows "dlist (list_add_tail c h s) h (xs @ [c])"
  using assms linked_insert [of s h xs "[]" h c "pv s h" h] linked_ends [of s h xs h]
  by (auto simp: dlist_def list_add_tail_def)

text \<open>\<open>list_add_tail\<close> is also used with a node of the list in place of the header: it inserts
  before that node.\<close>

lemma dlist_add_before:
  assumes "dlist s h (xs @ y # ys)" and "c \<notin> set (h # xs @ y # ys)"
  shows "dlist (list_add_tail c y s) h (xs @ c # y # ys)"
  using assms linked_insert [of s h xs "y # ys" h c "pv s y" y] linked_middle [of s h xs y ys h]
  by (auto simp: dlist_def list_add_tail_def)

lemma dlist_del:
  assumes "dlist s h (xs @ c # ys)"
  shows "dlist (list_del c s) h (xs @ ys)"
  using assms linked_delete [of s h xs c ys h "pv s c" "nx s c"] linked_middle [of s h xs c ys h]
  by (auto simp: dlist_def list_del_def)

lemma dlist_frame:
  "\<lbrakk>dlist s h xs; \<forall>x\<in>set (h # xs). nx s' x = nx s x \<and> pv s' x = pv s x\<rbrakk> \<Longrightarrow> dlist s' h xs"
  using linked_frame [of h xs s' s h] by (auto simp: dlist_def)

lemma list_del_frame:
  assumes "dlist s h (xs @ c # ys)" and "x \<notin> set (h # xs @ ys)"
  shows "nx (list_del c s) x = nx s x" "pv (list_del c s) x = pv s x"
proof -
  have "pv s c = last (h # xs)" "nx s c = hd (ys @ [h])"
    using linked_middle [of s h xs c ys h] assms(1) by (simp_all add: dlist_def)
  then have "pv s c \<in> set (h # xs @ ys)" "nx s c \<in> set (h # xs @ ys)"
    by (auto simp: hd_append)
  with assms(2) show "nx (list_del c s) x = nx s x" "pv (list_del c s) x = pv s x"
    by (auto simp: list_del_def link_defs)
qed

lemma dlist_del_init:
  assumes "dlist s h (xs @ c # ys)"
  shows "dlist (list_del_init c s) h (xs @ ys)" and "dlist (list_del_init c s) c []"
proof -
  have c: "c \<notin> set (h # xs @ ys)" using assms by (auto simp: dlist_def)
  have "dlist (list_del c s) h (xs @ ys)" using assms by (rule dlist_del)
  then show "dlist (list_del_init c s) h (xs @ ys)"
    by (rule dlist_frame) (use c in \<open>auto simp: list_del_init_def list_del_def link_defs\<close>)
  show "dlist (list_del_init c s) c []"
    by (simp add: list_del_init_def dlist_init)
qed

lemma dlist_move:
  assumes "dlist s h (xs @ c # ys)"
  shows "dlist (list_move c h s) h (c # xs @ ys)" and "dlist (list_move_tail c h s) h ((xs @ ys) @ [c])"
proof -
  have "dlist (list_del c s) h (xs @ ys)" and "c \<notin> set (h # xs @ ys)"
    using assms dlist_del [OF assms] by (auto simp: dlist_def)
  then show "dlist (list_move c h s) h (c # xs @ ys)" "dlist (list_move_tail c h s) h ((xs @ ys) @ [c])"
    using dlist_add_head [of "list_del c s" h "xs @ ys" c] dlist_add_tail [of "list_del c s" h "xs @ ys" c]
    by (auto simp: list_move_def list_move_tail_def list_del_def)
qed

interpretation dl: linked_nodes "\<lambda>s xs. dlist s h xs" "\<lambda>s. nx s h" nx h
  for h :: 'n
  by unfold_locales (auto simp: dlist_def dest: linked_ends linked_middle)

lemma list_for_each_fold:
  "dlist s h xs \<Longrightarrow> list_for_each h s body acc = Some (fold_until body xs acc)"
  unfolding list_for_each_def by (rule dl.loop_is_fold)

lemma dlist_size:
  assumes "dlist s h xs"
  shows "list_size h s = Some (of_nat (length xs))"
proof -
  have "fold_until (\<lambda>pos num. Inr (num + 1) :: unit + u32) xs n = Inr (n + of_nat (length xs))" for n
    by (induction xs arbitrary: n) (auto simp: ac_simps)
  then show ?thesis by (simp add: list_size_def list_for_each_fold [OF assms])
qed

text \<open>Splicing the list at \<open>l\<close> in front of the list at \<open>h\<close>.\<close>

lemma linked_rehead:
  assumes "linked s a xs b" and "nx s' a' = hd (xs @ [b])" and "pv s' (hd (xs @ [b])) = a'"
    and "\<forall>x\<in>set xs. nx s' x = nx s x" and "\<forall>x\<in>set (tl (xs @ [b])). pv s' x = pv s x"
  shows "linked s' a' xs b"
proof (cases xs)
  case (Cons y ys)
  then show ?thesis using assms linked_frame [of y ys s' s b] by simp
qed (use assms in simp)

lemma dlist_splice_at:
  assumes l: "dlist s l ys" and h: "dlist s h xs" and ne: "ys \<noteq> []"
    and apart: "set (l # ys) \<inter> set (h # xs) = {}"
  shows "dlist (list_splice_at l h s) h (ys @ xs)"
proof -
  obtain zs z where ys: "ys = zs @ [z]" using ne by (cases ys rule: rev_cases) auto
  have lz: "linked s l zs z" and "nx s z = l" "pv s l = z"
    using l by (simp_all add: dlist_def ys linked_append)
  let ?s = "list_splice_at l h s"
  have first: "nx s l = hd (zs @ [z])" using linked_ends [OF lz] by simp
  have at: "nx s h = hd (xs @ [h])" using linked_ends [of s h xs h] h by (simp add: dlist_def)
  have s: "nx ?s = (nx s)(h := nx s l, z := nx s h)" "pv ?s = (pv s)(nx s l := h, nx s h := z)"
    using \<open>pv s l = z\<close> by (simp_all add: list_splice_at_def Let_def link_defs)
  have in1: "hd (zs @ [z]) \<in> set ys" and in2: "hd (xs @ [h]) \<in> set (h # xs)"
    by (auto simp: ys hd_append)
  have dist: "distinct (zs @ [z])" "distinct xs" "h \<notin> set xs" using l h by (auto simp: dlist_def ys)
  have tl1: "hd (zs @ [z]) \<notin> set (tl (zs @ [z]))" using dist by (cases zs) auto
  have tl2: "hd (xs @ [h]) \<notin> set (tl (xs @ [h]))" using dist by (cases xs) auto
  have sub1: "set (tl (zs @ [z])) \<subseteq> set ys" and sub2: "set (tl (xs @ [h])) \<subseteq> set (h # xs)"
    unfolding ys by (cases zs; auto) (cases xs; auto)
  have "linked ?s h zs z"
    by (rule linked_rehead [OF lz]) (use apart in1 in2 dist tl1 sub1 in \<open>auto simp: s first at ys\<close>)
  moreover have "linked ?s z xs h"
    by (rule linked_rehead [of s h])
      (use h apart in1 in2 dist tl2 sub2 in \<open>auto simp: s first at ys dlist_def\<close>)
  ultimately show ?thesis using l h apart by (auto simp: dlist_def ys linked_append)
qed

lemma dlist_splice:
  assumes "dlist s l ys" and "dlist s h xs" and "set (l # ys) \<inter> set (h # xs) = {}"
  shows "dlist (list_splice l h s) h (ys @ xs)"
    and "dlist (list_splice_init l h s) h (ys @ xs)" and "dlist (list_splice_init l h s) l []"
proof -
  have e: "list_empty l s \<longleftrightarrow> ys = []" using assms(1) by (rule dlist_empty)
  show s: "dlist (list_splice l h s) h (ys @ xs)"
    using assms dlist_splice_at [of s l ys h xs] by (auto simp: list_splice_def e)
  show "dlist (list_splice_init l h s) h (ys @ xs)"
  proof (cases "ys = []")
    case False
    have "dlist (list_splice_at l h s) h (ys @ xs)"
      using assms dlist_splice_at [of s l ys h xs] False by blast
    then have "dlist (INIT_LIST_HEAD l (list_splice_at l h s)) h (ys @ xs)"
      by (rule dlist_frame) (use assms(1,3) in \<open>auto simp: link_defs dlist_def\<close>)
    then show ?thesis using False by (simp add: list_splice_init_def e)
  qed (use assms in \<open>simp add: list_splice_init_def e\<close>)
  show "dlist (list_splice_init l h s) l []"
    using assms(1) e by (auto simp: list_splice_init_def dlist_init)
qed

section \<open>Properties\<close>

text \<open>On a well-formed circular list of the nodes \<open>xs\<close>, adding a node that is not in it at the
  head, at the tail or before a node gives the well-formed list with that node there; emptiness
  and \<open>list_size\<close> (a loop, which ends) report \<open>xs\<close>.\<close>

theorem list_insertions_refine:
  assumes "dlist s h (xs @ ys)" and "c \<notin> set (h # xs @ ys)"
  shows "dlist (list_add_head c h s) h (c # xs @ ys)
    \<and> dlist (list_add_tail c h s) h (xs @ ys @ [c])
    \<and> dlist (list_add_tail c (hd (ys @ [h])) s) h (xs @ c # ys)
    \<and> (list_empty h s \<longleftrightarrow> xs @ ys = [])
    \<and> list_size h s = Some (of_nat (length (xs @ ys)))"
proof -
  have "dlist (list_add_tail c (hd (ys @ [h])) s) h (xs @ c # ys)"
  proof (cases ys)
    case Nil
    then show ?thesis using assms dlist_add_tail [of s h xs c] by simp
  next
    case (Cons y zs)
    then show ?thesis using assms dlist_add_before [of s h xs y zs c] by simp
  qed
  then show ?thesis
    using assms dlist_add_head [OF assms] dlist_add_tail [OF assms] dlist_empty [OF assms(1)]
      dlist_size [OF assms(1)] by simp
qed

definition links_ex :: "nat links" where
  "links_ex = list_add_tail 2 0 (list_add_tail 1 0 (INIT_LIST_HEAD 0 \<lparr>nx = id, pv = id\<rparr>))"

lemma links_ex: "dlist links_ex 0 [1, 2]"
  by (simp add: links_ex_def dlist_def link_defs list_add_tail_def)

theorem list_insertions_refine_witness:
  "dlist (list_add_tail 7 2 links_ex) 0 [1, 7, 2] \<and> list_size 0 links_ex = Some 2"
proof -
  have "dlist links_ex 0 ([1] @ [2])" "(7 :: nat) \<notin> set (0 # [1] @ [2])"
    using links_ex by simp_all
  from list_insertions_refine [OF this] show ?thesis by simp
qed

text \<open>On a well-formed list, deleting a node removes that node only, \<open>list_del_init\<close> leaves it a
  list of its own, moving puts it at the head or the tail, and splicing a separate list puts all
  its nodes in front (leaving it empty in the \<open>init\<close> variant).\<close>

theorem list_removals_refine:
  assumes "dlist s h (xs @ c # ys)" and "dlist s l zs"
    and "set (l # zs) \<inter> set (h # xs @ c # ys) = {}"
  shows "dlist (list_del c s) h (xs @ ys)
    \<and> dlist (list_del_init c s) h (xs @ ys) \<and> dlist (list_del_init c s) c []
    \<and> dlist (list_move c h s) h (c # xs @ ys) \<and> dlist (list_move_tail c h s) h (xs @ ys @ [c])
    \<and> dlist (list_splice l h s) h (zs @ xs @ c # ys)
    \<and> dlist (list_splice_init l h s) h (zs @ xs @ c # ys) \<and> dlist (list_splice_init l h s) l []
    \<and> dlist (list_del c s) l zs"
proof -
  have "dlist (list_del c s) l zs"
  proof (rule dlist_frame [OF assms(2)], rule ballI)
    fix x
    assume "x \<in> set (l # zs)"
    then have "x \<notin> set (h # xs @ ys)" using assms(3) by auto
    then show "nx (list_del c s) x = nx s x \<and> pv (list_del c s) x = pv s x"
      using list_del_frame [OF assms(1)] by blast
  qed
  then show ?thesis
    using dlist_del [OF assms(1)] dlist_del_init [OF assms(1)] dlist_move [OF assms(1)]
      dlist_splice [OF assms(2,1,3)] by simp
qed

theorem list_removals_refine_witness:
  "dlist (list_del 1 links_ex) 0 [2] \<and> dlist (list_move_tail 1 0 links_ex) 0 [2, 1]
    \<and> dlist (list_splice 9 0 (INIT_LIST_HEAD 9 links_ex)) 0 [1, 2]"
proof -
  have "dlist links_ex 0 ([] @ 1 # [2])" using links_ex by simp
  moreover have "links_ex = INIT_LIST_HEAD 9 links_ex"
    by (simp add: links_ex_def link_defs list_add_tail_def fun_eq_iff)
  then have "dlist links_ex 9 []" by (metis dlist_init)
  moreover have "set (9 # []) \<inter> set (0 # [] @ 1 # [2]) = ({} :: nat set)" by simp
  ultimately show ?thesis using list_removals_refine [of links_ex 0 "[]" 1 "[2]" 9 "[]"]
      \<open>links_ex = INIT_LIST_HEAD 9 links_ex\<close> by simp
qed

end
