(* ===== verification/Intc.thy ===== *)
theory Intc
  imports Icu Doubly_List
begin

text \<open>
  The interrupt controller, \<^verbatim>\<open>beken378/driver/intc/intc.c\<close>: a static table of 32 service
  routines, threaded by priority into a circular list, and the dispatcher that the two exception
  entries call. The \<open>list\<close> field of an \<open>ISR_T\<close> is the table index as a node of \<open>Doubly_List\<close>
  (\<open>Some i\<close>; the header \<open>isr_hdr\<close> is \<open>None\<close>); the rest of the struct is the record \<open>isr_t\<close>. A
  service routine is a function on the world, a null one \<open>None\<close>.

  The dispatcher's loop may not end on a damaged list: its result is an option (\<open>None\<close> when it
  does not return) of a \<open>result\<close>. The lemmas show that registration keeps the list sorted by
  priority and that the dispatcher runs the routine of every pending registered interrupt
  exactly once, most urgent first.
\<close>

section \<open>State\<close>

record isr_t =
  isr_func :: "(bk_world \<Rightarrow> bk_world) option"
  isr_pri :: u8
  isr_num :: u8

record intc =
  isrs :: "isr_t list"
  isrs_mask :: u32
  isr_links :: "nat option links"

definition INTC_MAX_COUNT :: nat where "INTC_MAX_COUNT = 32"

definition BIT :: "u8 \<Rightarrow> u32" where
  "BIT i = push_bit (unat i) 1"

text \<open>The static initialisers.\<close>

definition intc_start :: intc where
  "intc_start = \<lparr>isrs = replicate INTC_MAX_COUNT \<lparr>isr_func = None, isr_pri = 0, isr_num = 0\<rparr>,
     isrs_mask = 0, isr_links = \<lparr>nx = (\<lambda>_. None), pv = (\<lambda>_. None)\<rparr>\<rparr>"

section \<open>Registration\<close>

text \<open>The scan of the list for the place of priority \<open>int_pri\<close>: insert before a node, or an error
  when the priority is taken.\<close>

datatype isr_place = Place_before "nat option" | Place_error

definition isr_scan :: "u8 \<Rightarrow> isr_t list \<Rightarrow> nat option \<Rightarrow> unit \<Rightarrow> isr_place + unit" where
  "isr_scan int_pri tbl pos _ =
    (case pos of
       None \<Rightarrow> Inr ()
     | Some i \<Rightarrow>
        if int_pri < isr_pri (tbl ! i) then Inl (Place_before (Some i))
        else if int_pri = isr_pri (tbl ! i) then Inl Place_error
        else Inr ())"

definition intc_service_register ::
  "u8 \<Rightarrow> u8 \<Rightarrow> (bk_world \<Rightarrow> bk_world) option \<Rightarrow> intc \<Rightarrow> intc result option" where
  "intc_service_register int_num int_pri isr ic =
    (let n = unat int_num in
     if n \<ge> length (isrs ic) then Some (Inl Out_of_bounds)
     else
       (let tbl = (isrs ic)[n := \<lparr>isr_func = isr, isr_pri = int_pri, isr_num = int_num\<rparr>];
            linked = (\<lambda>l. Some (Inr (ic\<lparr>isrs := tbl, isr_links := l,
                         isrs_mask := isrs_mask ic OR BIT int_num\<rparr>)))
        in
        if list_empty None (isr_links ic) then linked (list_add_head (Some n) None (isr_links ic))
        else (case list_for_each None (isr_links ic) (isr_scan int_pri tbl) () of
                None \<Rightarrow> None
              | Some (Inl (Place_before node)) \<Rightarrow> linked (list_add_tail (Some n) node (isr_links ic))
              | Some (Inl Place_error) \<Rightarrow> Some (Inr (ic\<lparr>isrs := tbl[n := isrs ic ! n]\<rparr>))
              | Some (Inr _) \<Rightarrow> linked (list_add_tail (Some n) None (isr_links ic)))))"

definition intc_service_change_handler ::
  "u8 \<Rightarrow> (bk_world \<Rightarrow> bk_world) option \<Rightarrow> intc \<Rightarrow> intc result option" where
  "intc_service_change_handler int_num isr ic =
    (let n = unat int_num in
     if n \<ge> length (isrs ic) then Some (Inl Out_of_bounds)
     else
       (let buf_ele = isrs ic ! n; int_pri = isr_pri buf_ele in
        if isr_func buf_ele = None then Some (Inr ic)
        else if list_empty None (isr_links ic) then Some (Inr (ic\<lparr>isrs := (isrs ic)[n := buf_ele]\<rparr>))
        else (case list_for_each None (isr_links ic)
                     (\<lambda>pos _. case pos of
                        None \<Rightarrow> Inr ()
                      | Some i \<Rightarrow> if int_pri = isr_pri (isrs ic ! i) then Inl () else Inr ()) () of
                None \<Rightarrow> None
              | Some (Inl _) \<Rightarrow> Some (Inr (ic\<lparr>isrs := (isrs ic)[n := buf_ele\<lparr>isr_func := isr\<rparr>]\<rparr>))
              | Some (Inr _) \<Rightarrow> Some (Inr (ic\<lparr>isrs := (isrs ic)[n := buf_ele]\<rparr>)))))"

section \<open>Dispatch\<close>

text \<open>The loop body: run the routine of a pending interrupt and clear its bit; leave the loop
  when no bit is left.\<close>

definition isr_dispatch ::
  "isr_t list \<Rightarrow> nat option \<Rightarrow> u32 \<times> bk_world \<Rightarrow> bk_world result + (u32 \<times> bk_world)" where
  "isr_dispatch tbl pos acc =
    (case (pos, acc) of
       (None, _) \<Rightarrow> Inr acc
     | (Some j, (status, w)) \<Rightarrow>
        (let i = isr_num (tbl ! j) in
         if BIT i AND status \<noteq> 0 then
           (case isr_func (tbl ! j) of
              None \<Rightarrow> Inl (Inl Null_deref)
            | Some f \<Rightarrow>
               (let w' = f w; status' = status AND NOT (BIT i)
                in if 0 = status' then Inl (Inr w') else Inr (status', w')))
         else if 0 = status then Inl (Inr w) else Inr (status, w)))"

text \<open>\<open>power_save_dtim_wake\<close> (of the power save component, when \<open>CFG_USE_STA_PS\<close> is set) is the
  parameter \<open>ps_wake\<close>.\<close>

definition intc_hdl_entry ::
  "(u32 \<Rightarrow> bk_world \<Rightarrow> bk_world) \<Rightarrow> u32 \<Rightarrow> intc \<Rightarrow> bk_world \<Rightarrow> bk_world result option" where
  "intc_hdl_entry ps_wake int_status ic w =
    (let status = int_status AND isrs_mask ic; w = ps_wake status w in
     case list_for_each None (isr_links ic) (isr_dispatch (isrs ic)) (status, w) of
       None \<Rightarrow> None
     | Some (Inl r) \<Rightarrow> Some r
     | Some (Inr (_, w')) \<Rightarrow> Some (Inr w'))"

definition intc_irq ::
  "(u32 \<Rightarrow> bk_world \<Rightarrow> bk_world) \<Rightarrow> bk_drv \<Rightarrow> intc \<Rightarrow> bk_world \<Rightarrow> bk_world result option" where
  "intc_irq ps_wake st ic w =
    (case sddev_control (Some ICU_DEV_NAME) CMD_GET_INTR_STATUS null_param st w of
       Inl e \<Rightarrow> Some (Inl e)
     | Inr (s, w1) \<Rightarrow>
        (let irq_status = s AND 0xFFFF in
         case sddev_control (Some ICU_DEV_NAME) CMD_CLR_INTR_STATUS (param_of (Obj_u32 irq_status)) st w1 of
           Inl e \<Rightarrow> Some (Inl e)
         | Inr (_, w2) \<Rightarrow> intc_hdl_entry ps_wake irq_status ic w2))"

definition intc_fiq ::
  "(u32 \<Rightarrow> bk_world \<Rightarrow> bk_world) \<Rightarrow> bk_drv \<Rightarrow> intc \<Rightarrow> bk_world \<Rightarrow> bk_world result option" where
  "intc_fiq ps_wake st ic w =
    (case sddev_control (Some ICU_DEV_NAME) CMD_GET_INTR_STATUS null_param st w of
       Inl e \<Rightarrow> Some (Inl e)
     | Inr (s, w1) \<Rightarrow>
        (let fiq_status = s AND 0xFFFF0000 in
         case sddev_control (Some ICU_DEV_NAME) CMD_CLR_INTR_STATUS (param_of (Obj_u32 fiq_status)) st w1 of
           Inl e \<Rightarrow> Some (Inl e)
         | Inr (_, w2) \<Rightarrow> intc_hdl_entry ps_wake fiq_status ic w2))"

section \<open>Enabling\<close>

definition intc_spurious :: "bk_world \<Rightarrow> bk_world result" where
  "intc_spurious w = Inl Assert_failed"

definition intc_enable :: "nat \<Rightarrow> bk_drv \<Rightarrow> bk_world \<Rightarrow> bk_world result" where
  "intc_enable index st w =
    map_sum id snd (sddev_control (Some ICU_DEV_NAME) CMD_ICU_INT_ENABLE
      (param_of (Obj_u32 (push_bit index 1))) st w)"

definition intc_disable :: "nat \<Rightarrow> bk_drv \<Rightarrow> bk_world \<Rightarrow> bk_world result" where
  "intc_disable index st w =
    map_sum id snd (sddev_control (Some ICU_DEV_NAME) CMD_ICU_INT_DISABLE
      (param_of (Obj_u32 (push_bit index 1))) st w)"

text \<open>The exception entries \<open>do_irq\<close> to \<open>do_reserved\<close> are assembly; their addresses are the
  arguments \<open>vec\<close>.\<close>

primrec intc_vectors :: "u32 \<Rightarrow> u32 list \<Rightarrow> bk_world \<Rightarrow> bk_world" where
  "intc_vectors a [] w = w"
| "intc_vectors a (v # vs) w = intc_vectors (a + 4) vs (w_write a v w)"

primrec res_seq :: "('w \<Rightarrow> 'w result) list \<Rightarrow> 'w \<Rightarrow> 'w result" where
  "res_seq [] w = Inr w"
| "res_seq (f # fs) w = bind_res (f w) (res_seq fs)"

definition GINTR_FIQ_BIT :: u32 where "GINTR_FIQ_BIT = 2"
definition GINTR_IRQ_BIT :: u32 where "GINTR_IRQ_BIT = 1"

definition intc_init :: "u32 list \<Rightarrow> bk_drv \<Rightarrow> bk_world \<Rightarrow> bk_world result" where
  "intc_init vec st w =
    bind_res (res_seq (map (\<lambda>i. intc_enable i st) [22, 21, 20, 19, 18, 17, 16])
        (intc_vectors 0x400000 vec w))
      (\<lambda>w. map_sum id snd (sddev_control (Some ICU_DEV_NAME) CMD_ICU_GLOBAL_INT_ENABLE
             (param_of (Obj_u32 (GINTR_FIQ_BIT OR GINTR_IRQ_BIT))) st w))"

definition FIQ_DPLL_UNLOCK :: nat where "FIQ_DPLL_UNLOCK = 28"

definition intc_deinit :: "bk_drv \<Rightarrow> bk_world \<Rightarrow> bk_world result" where
  "intc_deinit st w =
    bind_res (res_seq (map (\<lambda>i. intc_disable i st) [0..<Suc FIQ_DPLL_UNLOCK]) w)
      (\<lambda>w. map_sum id snd (sddev_control (Some ICU_DEV_NAME) CMD_ICU_GLOBAL_INT_DISABLE
             (param_of (Obj_u32 (GINTR_FIQ_BIT OR GINTR_IRQ_BIT))) st w))"

section \<open>Invariant\<close>

text \<open>\<open>isr_order ic xs\<close>: the interrupts \<open>xs\<close> are registered, in order of strictly increasing priority
  number, and the mask has exactly their bits.\<close>

definition isr_order :: "intc \<Rightarrow> nat list \<Rightarrow> bool" where
  "isr_order ic xs \<longleftrightarrow> length (isrs ic) = INTC_MAX_COUNT \<and> dlist (isr_links ic) None (map Some xs)
    \<and> (\<forall>i\<in>set xs. i < INTC_MAX_COUNT \<and> unat (isr_num (isrs ic ! i)) = i \<and> isr_func (isrs ic ! i) \<noteq> None)
    \<and> sorted_wrt (\<lambda>i j. isr_pri (isrs ic ! i) < isr_pri (isrs ic ! j)) xs
    \<and> (\<forall>n. bit (isrs_mask ic) n \<longleftrightarrow> n \<in> set xs)"

lemma isr_order_start: "isr_order intc_start []"
  by (simp add: isr_order_def intc_start_def dlist_def)

lemma isr_order_distinct: "isr_order ic xs \<Longrightarrow> distinct xs"
  by (simp add: isr_order_def dlist_def distinct_map)

lemma BIT_and: "BIT i AND s \<noteq> 0 \<longleftrightarrow> bit s (unat i)"
  by (simp add: BIT_def push_bit_of_1 and_exp_eq_0_iff_not_bit and.commute [of _ s])

lemma BIT_clear: "s AND NOT (BIT i) = unset_bit (unat i) s"
  by (simp add: BIT_def unset_bit_eq_and_not)

lemma bit_BIT: "unat i < 32 \<Longrightarrow> bit (BIT i) n \<longleftrightarrow> n = unat i"
  by (auto simp: BIT_def bit_simps)

section \<open>Dispatch in priority order\<close>

definition run_isrs :: "isr_t list \<Rightarrow> nat list \<Rightarrow> bk_world \<Rightarrow> bk_world" where
  "run_isrs tbl js w = fold (\<lambda>j. the (isr_func (tbl ! j))) js w"

definition loop_world :: "bk_world result + (u32 \<times> bk_world) \<Rightarrow> bk_world result" where
  "loop_world r = (case r of Inl x \<Rightarrow> x | Inr (_, w) \<Rightarrow> Inr w)"

lemma dispatch_step:
  assumes "unat (isr_num (tbl ! j)) = j" and "isr_func (tbl ! j) = Some f"
  shows "isr_dispatch tbl (Some j) (status, w) =
    (if bit status j then
       (if unset_bit j status = 0 then Inl (Inr (f w)) else Inr (unset_bit j status, f w))
     else if status = 0 then Inl (Inr w) else Inr (status, w))"
  using assms by (auto simp: isr_dispatch_def Let_def BIT_and BIT_clear)

lemma dispatch_fold:
  assumes "\<forall>i\<in>set xs. unat (isr_num (tbl ! i)) = i \<and> isr_func (tbl ! i) \<noteq> None" and "distinct xs"
  shows "loop_world (fold_until (isr_dispatch tbl) (map Some xs) (status, w))
    = Inr (run_isrs tbl (filter (bit status) xs) w)"
  using assms
proof (induction xs arbitrary: status w)
  case Nil
  then show ?case by (simp add: loop_world_def run_isrs_def)
next
  case (Cons j xs)
  then obtain f where f: "isr_func (tbl ! j) = Some f" and j: "unat (isr_num (tbl ! j)) = j" by auto
  have IH: "loop_world (fold_until (isr_dispatch tbl) (map Some xs) (s, w'))
      = Inr (run_isrs tbl (filter (bit s) xs) w')" for s w'
    using Cons by simp
  show ?case
  proof (cases "bit status j")
    case True
    have "filter (bit (unset_bit j status)) xs = filter (bit status) xs"
      using Cons.prems(2) by (intro filter_cong) (auto simp: bit_unset_bit_iff)
    moreover have "unset_bit j status = 0 \<Longrightarrow> filter (bit status) xs = []"
      using calculation by (metis bit_0_eq filter_False bot_apply bot_bool_def)
    ultimately show ?thesis
      using True f IH [of "unset_bit j status" "f w"]
      by (auto simp: dispatch_step [OF j f] run_isrs_def loop_world_def)
  next
    case False
    then show ?thesis using f IH [of status w]
      by (auto simp: dispatch_step [OF j f] run_isrs_def loop_world_def)
  qed
qed

lemma hdl_entry_order:
  assumes "isr_order ic xs"
  shows "intc_hdl_entry ps_wake int_status ic w
    = Some (Inr (run_isrs (isrs ic) (filter (bit int_status) xs)
        (ps_wake (int_status AND isrs_mask ic) w)))"
proof -
  have "dlist (isr_links ic) None (map Some xs)"
    and wf: "\<forall>i\<in>set xs. unat (isr_num (isrs ic ! i)) = i \<and> isr_func (isrs ic ! i) \<noteq> None"
    and mask: "\<forall>n. bit (isrs_mask ic) n \<longleftrightarrow> n \<in> set xs"
    using assms by (auto simp: isr_order_def)
  then have "intc_hdl_entry ps_wake int_status ic w = Some (loop_world (fold_until (isr_dispatch (isrs ic))
      (map Some xs) (int_status AND isrs_mask ic, ps_wake (int_status AND isrs_mask ic) w)))"
    by (auto simp: intc_hdl_entry_def Let_def list_for_each_fold loop_world_def split: sum.split)
  moreover have "filter (bit (int_status AND isrs_mask ic)) xs = filter (bit int_status) xs"
    using mask by (intro filter_cong) (auto simp: bit_and_iff)
  ultimately show ?thesis using dispatch_fold [OF wf isr_order_distinct [OF assms]] by simp
qed

section \<open>Registration in priority order\<close>

lemma scan_fold:
  assumes "sorted_wrt (\<lambda>i j. isr_pri (tbl ! i) < isr_pri (tbl ! j)) xs"
  shows "fold_until (isr_scan p tbl) (map Some xs) () =
    (if p \<in> (\<lambda>i. isr_pri (tbl ! i)) ` set xs then Inl Place_error
     else (case dropWhile (\<lambda>i. isr_pri (tbl ! i) < p) xs of
             [] \<Rightarrow> Inr () | y # _ \<Rightarrow> Inl (Place_before (Some y))))"
  using assms
proof (induction xs)
  case (Cons x xs)
  consider "p < isr_pri (tbl ! x)" | "p = isr_pri (tbl ! x)" | "isr_pri (tbl ! x) < p" by force
  then show ?case
    using Cons by cases (auto simp: isr_scan_def not_less dest: order.strict_trans split: list.split)
qed simp

definition isr_insert :: "isr_t list \<Rightarrow> nat \<Rightarrow> nat list \<Rightarrow> nat list" where
  "isr_insert tbl n xs =
    takeWhile (\<lambda>i. isr_pri (tbl ! i) < isr_pri (tbl ! n)) xs
    @ n # dropWhile (\<lambda>i. isr_pri (tbl ! i) < isr_pri (tbl ! n)) xs"

lemma isr_insert_sorted:
  assumes "sorted_wrt (\<lambda>i j. isr_pri (tbl ! i) < isr_pri (tbl ! j)) xs"
    and "isr_pri (tbl ! n) \<notin> (\<lambda>i. isr_pri (tbl ! i)) ` set xs"
  shows "sorted_wrt (\<lambda>i j. isr_pri (tbl ! i) < isr_pri (tbl ! j)) (isr_insert tbl n xs)"
  using assms
proof (induction xs)
  case (Cons x xs)
  then show ?case
    by (cases "isr_pri (tbl ! x) < isr_pri (tbl ! n)")
      (auto simp: isr_insert_def not_less dest: order.strict_trans
        dest!: set_takeWhileD set_dropWhileD intro: order.strict_trans)
qed (simp add: isr_insert_def)

lemma isr_insert_set: "set (isr_insert tbl n xs) = insert n (set xs)"
  by (metis Un_insert_right isr_insert_def list.set(2) set_append takeWhile_dropWhile_id)

text \<open>Registering an interrupt that is not registered yet, by its outcome.\<close>

lemma register_links:
  assumes ord: "isr_order ic xs" and n: "n = unat int_num" "n < INTC_MAX_COUNT" "n \<notin> set xs"
    and tbl: "tbl = (isrs ic)[n := \<lparr>isr_func = isr, isr_pri = int_pri, isr_num = int_num\<rparr>]"
    and new: "int_pri \<notin> (\<lambda>i. isr_pri (isrs ic ! i)) ` set xs"
  obtains l where "intc_service_register int_num int_pri isr ic =
      Some (Inr (ic\<lparr>isrs := tbl, isr_links := l, isrs_mask := isrs_mask ic OR BIT int_num\<rparr>))"
    and "dlist l None (map Some (isr_insert tbl n xs))"
proof -
  let ?P = "\<lambda>i. isr_pri (tbl ! i) < int_pri"
  have len: "length (isrs ic) = INTC_MAX_COUNT" and d: "dlist (isr_links ic) None (map Some xs)"
    and srt: "sorted_wrt (\<lambda>i j. isr_pri (isrs ic ! i) < isr_pri (isrs ic ! j)) xs"
    using ord by (auto simp: isr_order_def)
  have same: "isr_pri (tbl ! i) = isr_pri (isrs ic ! i)" if "i \<in> set xs" for i
    using that n(3) unfolding tbl by (metis nth_list_update_neq)
  have pn: "isr_pri (tbl ! n) = int_pri" using n len by (simp add: tbl)
  have srt': "sorted_wrt (\<lambda>i j. isr_pri (tbl ! i) < isr_pri (tbl ! j)) xs"
    by (rule sorted_wrt_mono_rel [OF _ srt]) (simp add: same)
  have "int_pri \<notin> (\<lambda>i. isr_pri (tbl ! i)) ` set xs" using new same by auto
  note scan = scan_fold [OF srt', of int_pri, simplified this if_False]
  have out: "Some n \<notin> set (None # map Some xs)" using n by auto
  note ev = intc_service_register_def Let_def n(1) [symmetric] tbl [symmetric] len list_for_each_fold [OF d]
    scan dlist_empty [OF d]
  have ins: "isr_insert tbl n xs = takeWhile ?P xs @ n # dropWhile ?P xs"
    by (simp add: isr_insert_def pn)
  show ?thesis
  proof (cases "dropWhile ?P xs")
    case Nil
    then have tw: "takeWhile ?P xs = xs" by (metis append_Nil2 takeWhile_dropWhile_id)
    have "dlist (list_add_tail (Some n) None (isr_links ic)) None (map Some xs @ [Some n])"
      using d out by (rule dlist_add_tail)
    moreover have "dlist (list_add_head (Some n) None (isr_links ic)) None [Some n]" if "xs = []"
      using dlist_add_head [OF d out] that by simp
    moreover have lt: "\<not> INTC_MAX_COUNT \<le> n" using n by simp
    ultimately show ?thesis
    proof (cases "xs = []")
      case True
      then show ?thesis
        using lt \<open>xs = [] \<Longrightarrow> _\<close>
        by (intro that [of "list_add_head (Some n) None (isr_links ic)"]) (simp_all add: ev isr_insert_def)
    next
      case False
      then show ?thesis
        using lt \<open>dlist (list_add_tail _ _ _) _ _\<close>
        by (intro that [of "list_add_tail (Some n) None (isr_links ic)"]) (simp_all add: ev ins Nil tw)
    qed
  next
    case (Cons y ys)
    then have xs: "xs = takeWhile ?P xs @ y # ys" by (metis takeWhile_dropWhile_id)
    have "dlist (list_add_tail (Some n) (Some y) (isr_links ic)) None
        (map Some (takeWhile ?P xs) @ Some n # Some y # map Some ys)"
      using d out xs by (intro dlist_add_before) (metis list.simps(9) map_append)+
    then have "dlist (list_add_tail (Some n) (Some y) (isr_links ic)) None (map Some (isr_insert tbl n xs))"
      by (simp add: ins Cons)
    moreover have "xs \<noteq> []" "\<not> INTC_MAX_COUNT \<le> n" using xs n by auto
    ultimately show ?thesis by (intro that [rotated]) (simp_all add: ev Cons)
  qed
qed

lemma register_taken:
  assumes ord: "isr_order ic xs" and n: "n = unat int_num" "n < INTC_MAX_COUNT" "n \<notin> set xs"
    and taken: "int_pri \<in> (\<lambda>i. isr_pri (isrs ic ! i)) ` set xs"
  shows "intc_service_register int_num int_pri isr ic = Some (Inr ic)"
proof -
  let ?tbl = "(isrs ic)[n := \<lparr>isr_func = isr, isr_pri = int_pri, isr_num = int_num\<rparr>]"
  have len: "length (isrs ic) = INTC_MAX_COUNT" and d: "dlist (isr_links ic) None (map Some xs)"
    and srt: "sorted_wrt (\<lambda>i j. isr_pri (isrs ic ! i) < isr_pri (isrs ic ! j)) xs"
    using ord by (auto simp: isr_order_def)
  have same: "isr_pri (?tbl ! i) = isr_pri (isrs ic ! i)" if "i \<in> set xs" for i
    using that n(3) by (metis nth_list_update_neq)
  have "sorted_wrt (\<lambda>i j. isr_pri (?tbl ! i) < isr_pri (?tbl ! j)) xs"
    by (rule sorted_wrt_mono_rel [OF _ srt]) (simp add: same)
  moreover have "int_pri \<in> (\<lambda>i. isr_pri (?tbl ! i)) ` set xs"
    using taken same by (metis (no_types, lifting) image_cong)
  ultimately have "fold_until (isr_scan int_pri ?tbl) (map Some xs) () = Inl Place_error"
    by (simp only: scan_fold if_True)
  moreover have "xs \<noteq> []" using taken by auto
  ultimately show ?thesis using n(2) len
    by (simp add: intc_service_register_def Let_def n(1) [symmetric] list_for_each_fold [OF d] dlist_empty [OF d])
qed

section \<open>Properties\<close>

text \<open>C28: Registering a routine for an interrupt that has none links it into the list at its place
  by priority and sets its mask bit (the registration loop ends); when the priority is already
  taken the registration is refused and the controller is exactly as before.\<close>

theorem intc_register_keeps_priority_order:
  assumes "isr_order ic xs" and "unat int_num < INTC_MAX_COUNT" and "unat int_num \<notin> set xs"
  shows "\<exists>ic'. intc_service_register int_num int_pri (Some f) ic = Some (Inr ic') \<and>
    (if int_pri \<in> (\<lambda>i. isr_pri (isrs ic ! i)) ` set xs then ic' = ic
     else isr_order ic' (isr_insert (isrs ic') (unat int_num) xs)
       \<and> isrs ic' = (isrs ic)[unat int_num := \<lparr>isr_func = Some f, isr_pri = int_pri, isr_num = int_num\<rparr>])"
proof (cases "int_pri \<in> (\<lambda>i. isr_pri (isrs ic ! i)) ` set xs")
  case True
  then show ?thesis using register_taken [OF assms(1) refl assms(2,3)] by simp
next
  case False
  let ?n = "unat int_num"
  let ?tbl = "(isrs ic)[?n := \<lparr>isr_func = Some f, isr_pri = int_pri, isr_num = int_num\<rparr>]"
  obtain l where r: "intc_service_register int_num int_pri (Some f) ic =
      Some (Inr (ic\<lparr>isrs := ?tbl, isr_links := l, isrs_mask := isrs_mask ic OR BIT int_num\<rparr>))"
    and d: "dlist l None (map Some (isr_insert ?tbl ?n xs))"
    by (rule register_links [OF assms(1) refl assms(2,3) refl False])
  have len: "length (isrs ic) = INTC_MAX_COUNT" and srt: "sorted_wrt (\<lambda>i j. isr_pri (isrs ic ! i) < isr_pri (isrs ic ! j)) xs"
    and old: "\<forall>i\<in>set xs. i < INTC_MAX_COUNT \<and> unat (isr_num (isrs ic ! i)) = i \<and> isr_func (isrs ic ! i) \<noteq> None"
    and mask: "\<forall>n. bit (isrs_mask ic) n \<longleftrightarrow> n \<in> set xs"
    using assms(1) by (auto simp: isr_order_def)
  have same: "?tbl ! i = isrs ic ! i" if "i \<in> set xs" for i
    using that assms(3) by (metis nth_list_update_neq)
  have "sorted_wrt (\<lambda>i j. isr_pri (?tbl ! i) < isr_pri (?tbl ! j)) xs"
    by (rule sorted_wrt_mono_rel [OF _ srt]) (simp add: same)
  then have "sorted_wrt (\<lambda>i j. isr_pri (?tbl ! i) < isr_pri (?tbl ! j)) (isr_insert ?tbl ?n xs)"
    using False assms(2) len by (intro isr_insert_sorted) (auto simp: same)
  moreover have "bit (isrs_mask ic OR BIT int_num) n \<longleftrightarrow> n \<in> insert ?n (set xs)" for n
    using mask assms(2) by (auto simp: bit_or_iff bit_BIT INTC_MAX_COUNT_def)
  ultimately have "isr_order (ic\<lparr>isrs := ?tbl, isr_links := l, isrs_mask := isrs_mask ic OR BIT int_num\<rparr>)
      (isr_insert ?tbl ?n xs)"
    using d len old assms(2) same by (auto simp: isr_order_def isr_insert_set)
  then show ?thesis using r False by auto
qed

definition intc_ex :: intc where
  "intc_ex = intc_start
     \<lparr>isrs := (isrs intc_start)
        [3 := \<lparr>isr_func = Some (w_write 0 3), isr_pri = 10, isr_num = 3\<rparr>,
         1 := \<lparr>isr_func = Some (w_write 0 1), isr_pri = 20, isr_num = 1\<rparr>,
         2 := \<lparr>isr_func = Some (w_write 4 2), isr_pri = 30, isr_num = 2\<rparr>],
      isrs_mask := 14,
      isr_links := list_add_tail (Some 2) None (list_add_tail (Some 1) None (list_add_head (Some 3) None (isr_links intc_start)))\<rparr>"

lemma intc_ex_order: "isr_order intc_ex [3, 1, 2]"
proof -
  have "dlist (isr_links intc_ex) None (map Some [3, 1, 2])"
    by (simp add: intc_ex_def intc_start_def dlist_def list_add_tail_def list_add_head_def link_defs)
  moreover have "bit (isrs_mask intc_ex) n \<longleftrightarrow> n \<in> {3, 1, 2}" for n
  proof -
    have "(14 :: u32) = 2 ^ 1 OR 2 ^ 2 OR 2 ^ 3" by simp
    then have "bit (14 :: u32) n \<longleftrightarrow> bit (2 ^ 1 OR 2 ^ 2 OR 2 ^ 3 :: u32) n" by (rule arg_cong)
    also have "\<dots> \<longleftrightarrow> n \<in> {3, 1, 2}" unfolding bit_or_iff bit_exp_iff by auto
    finally show ?thesis by (simp add: intc_ex_def)
  qed
  ultimately show ?thesis
    by (auto simp: isr_order_def) (auto simp: intc_ex_def intc_start_def INTC_MAX_COUNT_def)
qed

theorem intc_register_keeps_priority_order_witness:
  "\<exists>ic'. intc_service_register 7 15 (Some id) intc_ex = Some (Inr ic') \<and> isr_order ic' [3, 7, 1, 2]"
proof -
  have n: "unat (7 :: u8) < INTC_MAX_COUNT" "unat (7 :: u8) \<notin> set [3, 1, 2]"
    by (simp_all add: INTC_MAX_COUNT_def)
  have free: "(15 :: u8) \<notin> (\<lambda>i. isr_pri (isrs intc_ex ! i)) ` set [3, 1, 2]"
    by (simp add: intc_ex_def intc_start_def INTC_MAX_COUNT_def)
  have "isr_insert ((isrs intc_ex)[unat (7 :: u8) := \<lparr>isr_func = Some id, isr_pri = 15, isr_num = 7\<rparr>])
      (unat (7 :: u8)) [3, 1, 2] = [3, 7, 1, 2]"
    by (simp add: isr_insert_def intc_ex_def intc_start_def INTC_MAX_COUNT_def)
  then show ?thesis
    using intc_register_keeps_priority_order [OF intc_ex_order n, of 15 id] free by auto
qed

text \<open>C1: The interrupt entry reads the status, acknowledges it and dispatches: with the ICU device
  bound and the routines \<open>xs\<close> registered in priority order, it returns and runs exactly the
  routines of the registered interrupts among the sixteen IRQ lines whose status bit is set, each
  once, in order of priority; the FIQ entry does the same for the upper sixteen lines.\<close>

theorem intc_entries_dispatch_by_priority:
  assumes "isr_order ic xs" and "sdd_bound ICU_DEV_NAME icu_op st"
    and "s = w_read ICU_INT_STATUS w"
  shows "intc_irq ps_wake st ic w =
      Some (Inr (run_isrs (isrs ic) (filter (\<lambda>i. bit s i \<and> i < 16) xs)
        (ps_wake (s AND 0xFFFF AND isrs_mask ic) (icu_set_bits ICU_INT_STATUS (s AND 0xFFFF) w))))
    \<and> intc_fiq ps_wake st ic w =
      Some (Inr (run_isrs (isrs ic) (filter (\<lambda>i. bit s i \<and> 16 \<le> i) xs)
        (ps_wake (s AND 0xFFFF0000 AND isrs_mask ic) (icu_set_bits ICU_INT_STATUS (s AND 0xFFFF0000) w))))"
proof -
  have hi: "(0xFFFF0000 :: u32) = NOT (mask 16)" by code_simp
  have lo: "(0xFFFF :: u32) = mask 16" by (simp add: mask_eq_exp_minus_1)
  have "filter (bit (s AND 0xFFFF)) xs = filter (\<lambda>i. bit s i \<and> i < 16) xs"
    unfolding lo by (rule filter_cong) (auto simp: bit_simps)
  moreover have "filter (bit (s AND 0xFFFF0000)) xs = filter (\<lambda>i. bit s i \<and> 16 \<le> i) xs"
    unfolding hi by (rule filter_cong) (auto simp: bit_simps dest: bit_imp_le_length)
  ultimately show ?thesis
    by (simp add: intc_irq_def intc_fiq_def sddev_icu [OF assms(2)] icu_ctrl_int Let_def
        hdl_entry_order [OF assms(1)] assms(3) [symmetric] and.assoc)
qed

definition icu_ex_drv :: bk_drv where
  "icu_ex_drv = \<lparr>drv_dev_tbl = replicate 10 no_dev, drv_sdev_tbl = \<lparr>dev_name = Some ''icu'',
     use_cnt = 0, dev_state = DD_STATE_CLOSED, dev_op = Some icu_op\<rparr> # replicate 15 no_dev\<rparr>"

lemma icu_ex_bound: "sdd_bound ICU_DEV_NAME icu_op icu_ex_drv"
  unfolding sdd_bound_def
  by (rule exI [of _ 0]) (simp add: dd_first_def icu_ex_drv_def ICU_DEV_NAME_def DD_MAX_SDEV_def)

theorem intc_entries_dispatch_by_priority_witness:
  "intc_irq (\<lambda>_ w. w) icu_ex_drv intc_ex (icu_ex_w\<lparr>w_reg := (\<lambda>_. 6)\<rparr>) =
    Some (Inr (w_write 4 2 (w_write 0 1 (icu_set_bits ICU_INT_STATUS 6 (icu_ex_w\<lparr>w_reg := (\<lambda>_. 6)\<rparr>)))))"
proof -
  let ?w = "icu_ex_w\<lparr>w_reg := (\<lambda>_. 6)\<rparr>"
  have s: "6 = w_read ICU_INT_STATUS ?w" by (simp add: w_read_def REG_READ_def)
  have "filter (\<lambda>i. bit (6 :: u32) i \<and> i < 16) [3, 1, 2] = [1, 2]" by (simp add: bit_numeral_simps)
  then show ?thesis
    using intc_entries_dispatch_by_priority [OF intc_ex_order icu_ex_bound s, of "\<lambda>_ w. w"]
    by (simp add: run_isrs_def intc_ex_def intc_start_def INTC_MAX_COUNT_def)
qed

lemma disable_all:
  assumes "sdd_bound ICU_DEV_NAME icu_op st"
  shows "res_seq (map (\<lambda>i. intc_disable i st) is) w =
    Inr (fold (\<lambda>i. icu_clear_bits ICU_INTERRUPT_ENABLE (push_bit i 1)) is w)"
  by (induction "is" arbitrary: w) (simp_all add: intc_disable_def sddev_icu [OF assms] icu_ctrl_int)

lemma clear_fold:
  "bit (w_read a (fold (\<lambda>i. icu_clear_bits a (push_bit i 1)) is w)) n \<longleftrightarrow> bit (w_read a w) n \<and> n \<notin> set is"
  by (induction "is" arbitrary: w)
    (auto simp: icu_clear_bits_def reg_simps bit_simps dest: bit_imp_le_length)

text \<open>\<open>intc_deinit\<close> disables the lines 0 to 28 and the global enables only: the enable bits of
  lines 29 (JPEG), 30 (BLE) and 31 (PSRAM) stay as they were.\<close>

theorem intc_deinit_leaves_high_lines:
  assumes "sdd_bound ICU_DEV_NAME icu_op st"
  shows "\<exists>w'. intc_deinit st w = Inr w'
    \<and> (\<forall>n. bit (w_read ICU_INTERRUPT_ENABLE w') n \<longleftrightarrow> bit (w_read ICU_INTERRUPT_ENABLE w) n \<and> 28 < n)"
proof -
  let ?w1 = "fold (\<lambda>i. icu_clear_bits ICU_INTERRUPT_ENABLE (push_bit i 1)) [0..<Suc FIQ_DPLL_UNLOCK] w"
  let ?w' = "icu_clear_bits ICU_GLOBAL_INT_EN (GINTR_FIQ_BIT OR GINTR_IRQ_BIT) ?w1"
  have "intc_deinit st w = Inr ?w'"
    by (simp add: intc_deinit_def disable_all [OF assms] sddev_icu [OF assms] icu_ctrl_int del: upt_Suc)
  moreover have "ICU_INTERRUPT_ENABLE \<noteq> ICU_GLOBAL_INT_EN" by (simp add: icu_regs)
  then have "w_read ICU_INTERRUPT_ENABLE ?w' = w_read ICU_INTERRUPT_ENABLE ?w1"
    by (simp add: icu_clear_bits_def [of ICU_GLOBAL_INT_EN] reg_simps del: upt_Suc)
  ultimately show ?thesis
    by (auto simp: clear_fold FIQ_DPLL_UNLOCK_def simp del: upt_Suc push_bit_of_1)
qed

theorem intc_deinit_leaves_high_lines_witness:
  "\<exists>w'. intc_deinit icu_ex_drv (icu_ex_w\<lparr>w_reg := (\<lambda>_. - 1)\<rparr>) = Inr w'
    \<and> bit (w_read ICU_INTERRUPT_ENABLE w') 30 \<and> \<not> bit (w_read ICU_INTERRUPT_ENABLE w') 15"
proof -
  have "bit (w_read ICU_INTERRUPT_ENABLE (icu_ex_w\<lparr>w_reg := (\<lambda>_. - 1)\<rparr>)) 30"
    by (simp add: w_read_def REG_READ_def)
  then show ?thesis
    using intc_deinit_leaves_high_lines [OF icu_ex_bound, of "icu_ex_w\<lparr>w_reg := (\<lambda>_. - 1)\<rparr>"] by auto
qed

section \<open>Registering twice\<close>

lemma linked_nx:
  "linked s a xs b \<Longrightarrow> x \<in> set (a # xs) \<Longrightarrow> nx s x \<in> set (xs @ [b]) \<and> pv s (nx s x) = x"
  by (induction xs arbitrary: a) auto

text \<open>A node that is inserted again in front of an earlier one closes a ring that never meets the header.\<close>

lemma reinserted_ring:
  assumes d: "dlist l h (xs @ y # ys @ n # zs)"
  defines "l' \<equiv> list_add_tail n y l" and "ring \<equiv> set (xs @ n # y # ys)"
  shows "nx l' h \<in> ring" "x \<in> ring \<Longrightarrow> x \<noteq> h \<and> nx l' x \<in> ring"
proof -
  have lk: "linked l h xs y" "linked l y ys n" and dst: "distinct (h # xs @ y # ys @ n # zs)"
    using d by (auto simp: dlist_def linked_append)
  have pv: "pv l y = last (h # xs)" using linked_ends [OF lk(1)] by simp
  then have pvs: "pv l y \<in> set (h # xs)" by (metis last_in_set list.distinct(1))
  have nx: "nx l' x = (if x = pv l y then n else if x = n then y else nx l x)" for x
    using pvs dst by (auto simp: l'_def list_add_tail_def link_defs)
  have front: "nx l' x \<in> ring" if "x \<in> set (h # xs)" for x
    using linked_nx [OF lk(1) that] that dst by (auto simp: nx ring_def)
  then show "nx l' h \<in> ring" by simp
  have "nx l' x \<in> ring" if "x \<in> set (y # ys)" for x
    using linked_nx [OF lk(2) that] that dst pvs by (auto simp: nx ring_def)
  moreover have "nx l' n \<in> ring" using pvs dst by (auto simp: nx ring_def)
  ultimately show "x \<noteq> h \<and> nx l' x \<in> ring" if "x \<in> ring" for x
    using that front [of x] dst by (auto simp: ring_def)
qed

lemma dispatch_keeps_pending:
  assumes "unat (isr_num (tbl ! i)) = i" "isr_func (tbl ! i) = Some f" "i \<noteq> m" "bit s m"
  shows "\<exists>s' w'. isr_dispatch tbl (Some i) (s, w) = Inr (s', w') \<and> bit s' m"
proof -
  have "bit (unset_bit i s) m" "s \<noteq> 0" using assms(3,4) by (auto simp: bit_unset_bit_iff)
  then have "unset_bit i s \<noteq> 0" by auto
  with \<open>bit (unset_bit i s) m\<close> \<open>s \<noteq> 0\<close> assms(4) show ?thesis by (auto simp: dispatch_step [OF assms(1,2)])
qed

text \<open>C37: Registering an interrupt that is registered already with a priority that moves it forward, before another
  one, links its node a second time: the interrupts behind its old place are cut off from the list, and the list
  runs in a ring. From then on the dispatcher never returns when one of those behind is pending.\<close>

theorem intc_register_twice_hangs:
  assumes ord: "isr_order ic (as @ j # bs @ n # cs)" and n: "unat int_num = n"
    and before: "\<forall>i\<in>set as. isr_pri (isrs ic ! i) < int_pri" "int_pri < isr_pri (isrs ic ! j)"
    and pending: "m \<in> set cs" "bit int_status m"
  shows "\<exists>ic'. intc_service_register int_num int_pri (Some f) ic = Some (Inr ic')
    \<and> intc_hdl_entry ps_wake int_status ic' w = None"
proof -
  let ?xs = "as @ j # bs @ n # cs" and ?tbl = "(isrs ic)[n := \<lparr>isr_func = Some f, isr_pri = int_pri, isr_num = int_num\<rparr>]"
  let ?l = "list_add_tail (Some n) (Some j) (isr_links ic)"
  let ?ic = "ic\<lparr>isrs := ?tbl, isr_links := ?l, isrs_mask := isrs_mask ic OR BIT int_num\<rparr>"
  have len: "length (isrs ic) = INTC_MAX_COUNT" "n < INTC_MAX_COUNT" and d: "dlist (isr_links ic) None (map Some ?xs)"
    and old: "\<forall>i\<in>set ?xs. unat (isr_num (isrs ic ! i)) = i \<and> isr_func (isrs ic ! i) \<noteq> None"
    and mask: "bit (isrs_mask ic) m"
    using ord pending(1) by (auto simp: isr_order_def)
  have dst: "distinct ?xs" using isr_order_distinct [OF ord] .
  have "fold_until (isr_scan int_pri ?tbl) (map Some as @ Some j # ps) () = Inl (Place_before (Some j))" for ps
    using before dst by (induction as) (auto simp: isr_scan_def)
  then have scan: "fold_until (isr_scan int_pri ?tbl) (map Some ?xs) () = Inl (Place_before (Some j))" by simp
  have reg: "intc_service_register int_num int_pri (Some f) ic = Some (Inr ?ic)"
    using scan len by (simp add: intc_service_register_def Let_def n list_for_each_fold [OF d] dlist_empty [OF d])
  let ?ring = "set (map Some as @ Some n # Some j # map Some bs)"
  have d': "dlist (isr_links ic) None (map Some as @ Some j # map Some bs @ Some n # map Some cs)" using d by simp
  note ring = reinserted_ring [OF d']
  have body: "\<exists>a'. isr_dispatch ?tbl p a = Inr a' \<and> bit (fst a') m" if p: "p \<in> ?ring" and a: "bit (fst a) m" for p a
  proof -
    from p obtain i where i: "p = Some i" "i \<in> set ?xs" "i \<noteq> m" using pending(1) dst by auto
    have "\<exists>g. unat (isr_num (?tbl ! i)) = i \<and> isr_func (?tbl ! i) = Some g"
      using i(2) old len n by (cases "i = n") auto
    with dispatch_keeps_pending [OF _ _ i(3) a] i(1) show ?thesis by (metis fst_conv prod.collapse)
  qed
  let ?s = "int_status AND isrs_mask ?ic"
  have s: "bit ?s m" using mask pending(2) by (simp add: bit_and_iff bit_or_iff)
  have "list_for_each None ?l (isr_dispatch ?tbl) (?s, ps_wake ?s w) = None"
    unfolding list_for_each_def
    by (rule for_each_node_diverges [where C = ?ring and Q = "\<lambda>a. bit (fst a) m"]) (use ring body s in auto)
  then have "intc_hdl_entry ps_wake int_status ?ic w = None" by (simp add: intc_hdl_entry_def Let_def)
  with reg show ?thesis by blast
qed

text \<open>The lines 3, 1 and 2 have the priorities 10, 20 and 30; line 1 is registered again with priority 5, and line 2 is
  pending.\<close>

theorem intc_register_twice_hangs_witness:
  "\<exists>ic'. intc_service_register 1 5 (Some id) intc_ex = Some (Inr ic') \<and> intc_hdl_entry (\<lambda>_ w. w) 4 ic' icu_ex_w = None"
proof -
  have "isr_order intc_ex ([] @ 3 # [] @ 1 # [2])" using intc_ex_order by simp
  from intc_register_twice_hangs [OF this, of 1 5 2 4 id "\<lambda>_ w. w" icu_ex_w] show ?thesis
    by (simp add: intc_ex_def intc_start_def INTC_MAX_COUNT_def bit_numeral_simps)
qed

end
