(* ===== verification/Bit_Fields.thy ===== *)
theory Bit_Fields
  imports Bk_Prelude
begin

text \<open>
  Fields of a 32-bit register. The drivers change a field with
  \<open>reg &= ~(MASK << POSI); reg |= ((v & MASK) << POSI)\<close>, read it with \<open>(reg >> POSI) & MASK\<close>, and
  set or clear single bits. The locale \<open>bit_field\<close> is the contract of a field of \<open>w\<close> bits at
  position \<open>pos\<close>: what is put is read back, and the bits outside are kept; \<open>bit_field_pair\<close> says
  that two fields that do not overlap do not disturb each other. Drivers interpret the locales on
  the positions and masks of their registers.
\<close>

definition field_put :: "nat \<Rightarrow> u32 \<Rightarrow> u32 \<Rightarrow> u32 \<Rightarrow> u32" where
  "field_put pos msk v r = (r AND NOT (push_bit pos msk)) OR push_bit pos (v AND msk)"

definition field_get :: "nat \<Rightarrow> u32 \<Rightarrow> u32 \<Rightarrow> u32" where
  "field_get pos msk r = drop_bit pos r AND msk"

definition flag_put :: "nat \<Rightarrow> u32 \<Rightarrow> u32 \<Rightarrow> u32" where
  "flag_put pos en r = (if en \<noteq> 0 then r OR push_bit pos 1 else r AND NOT (push_bit pos 1))"

lemma flag_put_field: "flag_put pos en r = field_put pos 1 (of_bool (en \<noteq> 0)) r"
  by (rule bit_word_eqI) (auto simp: flag_put_def field_put_def bit_simps)

locale bit_field =
  fixes pos w :: nat and msk :: u32
  assumes msk: "msk = mask w"
    and fits: "pos + w \<le> 32"
begin

lemma bit_put:
  "bit (field_put pos msk v r) n \<longleftrightarrow>
    (if pos \<le> n \<and> n < pos + w then bit v (n - pos) else bit r n)"
  using fits by (auto simp: field_put_def msk bit_simps dest: bit_imp_le_length)

lemma bit_get: "bit (field_get pos msk r) n \<longleftrightarrow> n < w \<and> bit r (pos + n)"
  using fits by (auto simp: field_get_def msk bit_simps dest: bit_imp_le_length)

lemma bit_msk: "bit msk n \<longleftrightarrow> n < w"
  using fits by (auto simp: msk bit_simps)

lemma get_put: "field_get pos msk (field_put pos msk v r) = v AND msk"
  by (intro bit_word_eqI) (auto simp: bit_get bit_put bit_and_iff bit_msk)

lemma put_put: "field_put pos msk v (field_put pos msk u r) = field_put pos msk v r"
  by (rule bit_word_eqI) (simp add: bit_put)

lemma put_get: "field_put pos msk (field_get pos msk r) r = r"
  by (rule bit_word_eqI) (auto simp: bit_put bit_get)

lemma get_le: "field_get pos msk r \<le> msk"
  by (simp add: field_get_def word_and_le1)

end

locale bit_field_pair = f: bit_field pf wf mf + g: bit_field pg wg mg
  for pf wf mf pg wg mg +
  assumes apart: "pf + wf \<le> pg \<or> pg + wg \<le> pf"
begin

lemma get_put_other: "field_get pf mf (field_put pg mg v r) = field_get pf mf r"
  using apart by (intro bit_word_eqI) (auto simp: f.bit_get g.bit_put)

lemma put_commute:
  "field_put pf mf v (field_put pg mg u r) = field_put pg mg u (field_put pf mf v r)"
  using apart by (intro bit_word_eqI) (auto simp: f.bit_put g.bit_put)

end

text \<open>The laws for fields given by their width, as rewrite rules whose conditions are decided on
  numerals.\<close>

named_theorems field_simps_at

lemma bit_field_mask: "p + w \<le> 32 \<Longrightarrow> bit_field p w (mask w)"
  by unfold_locales simp_all

lemma field_get_same:
  "p + w \<le> 32 \<Longrightarrow> field_get p (mask w) (field_put p (mask w) v r) = v AND mask w"
  by (rule bit_field.get_put [OF bit_field_mask])

lemma field_get_apart:
  assumes "p + w \<le> 32" "q + u \<le> 32" "p + w \<le> q \<or> q + u \<le> p"
  shows "field_get p (mask w) (field_put q (mask u) v r) = field_get p (mask w) r"
proof -
  have "bit_field_pair p w (mask w) q u (mask u)"
    using assms by unfold_locales simp_all
  then show ?thesis by (rule bit_field_pair.get_put_other)
qed

lemma field_get_0 [simp]: "field_get p m 0 = 0"
  by (simp add: field_get_def)

lemma mask_numerals:
  "mask 1 = (1 :: u32)" "mask 2 = (3 :: u32)" "mask 4 = (0xf :: u32)" "mask 16 = (0xffff :: u32)"
  by (simp_all add: mask_eq_exp_minus_1)

lemma field_get_same_numerals [field_simps_at]:
  "p + 1 \<le> 32 \<Longrightarrow> field_get p 1 (field_put p 1 v r) = v AND 1"
  "p + 2 \<le> 32 \<Longrightarrow> field_get p 3 (field_put p 3 v r) = v AND 3"
  "p + 4 \<le> 32 \<Longrightarrow> field_get p 0xf (field_put p 0xf v r) = v AND 0xf"
  "p + 16 \<le> 32 \<Longrightarrow> field_get p 0xffff (field_put p 0xffff v r) = v AND 0xffff"
  using field_get_same [of p 1 v r] field_get_same [of p 2 v r] field_get_same [of p 4 v r]
    field_get_same [of p 16 v r] unfolding mask_numerals by simp_all

lemma field_get_apart_1 [field_simps_at]:
  "\<lbrakk>p + 1 \<le> 32; q + 1 \<le> 32; p + 1 \<le> q \<or> q + 1 \<le> p\<rbrakk> \<Longrightarrow>
    field_get p 1 (field_put q 1 v r) = field_get p 1 r"
  "\<lbrakk>p + 1 \<le> 32; q + 2 \<le> 32; p + 1 \<le> q \<or> q + 2 \<le> p\<rbrakk> \<Longrightarrow>
    field_get p 1 (field_put q 3 v r) = field_get p 1 r"
  "\<lbrakk>p + 1 \<le> 32; q + 4 \<le> 32; p + 1 \<le> q \<or> q + 4 \<le> p\<rbrakk> \<Longrightarrow>
    field_get p 1 (field_put q 0xf v r) = field_get p 1 r"
  "\<lbrakk>p + 1 \<le> 32; q + 16 \<le> 32; p + 1 \<le> q \<or> q + 16 \<le> p\<rbrakk> \<Longrightarrow>
    field_get p 1 (field_put q 0xffff v r) = field_get p 1 r"
  using field_get_apart [of p 1 q 1 v r] field_get_apart [of p 1 q 2 v r]
    field_get_apart [of p 1 q 4 v r] field_get_apart [of p 1 q 16 v r]
  unfolding mask_numerals by simp_all

lemma field_get_apart_2 [field_simps_at]:
  "\<lbrakk>p + 2 \<le> 32; q + 1 \<le> 32; p + 2 \<le> q \<or> q + 1 \<le> p\<rbrakk> \<Longrightarrow>
    field_get p 3 (field_put q 1 v r) = field_get p 3 r"
  "\<lbrakk>p + 2 \<le> 32; q + 2 \<le> 32; p + 2 \<le> q \<or> q + 2 \<le> p\<rbrakk> \<Longrightarrow>
    field_get p 3 (field_put q 3 v r) = field_get p 3 r"
  "\<lbrakk>p + 2 \<le> 32; q + 4 \<le> 32; p + 2 \<le> q \<or> q + 4 \<le> p\<rbrakk> \<Longrightarrow>
    field_get p 3 (field_put q 0xf v r) = field_get p 3 r"
  "\<lbrakk>p + 2 \<le> 32; q + 16 \<le> 32; p + 2 \<le> q \<or> q + 16 \<le> p\<rbrakk> \<Longrightarrow>
    field_get p 3 (field_put q 0xffff v r) = field_get p 3 r"
  using field_get_apart [of p 2 q 1 v r] field_get_apart [of p 2 q 2 v r]
    field_get_apart [of p 2 q 4 v r] field_get_apart [of p 2 q 16 v r]
  unfolding mask_numerals by simp_all

lemma field_get_apart_4 [field_simps_at]:
  "\<lbrakk>p + 4 \<le> 32; q + 1 \<le> 32; p + 4 \<le> q \<or> q + 1 \<le> p\<rbrakk> \<Longrightarrow>
    field_get p 0xf (field_put q 1 v r) = field_get p 0xf r"
  "\<lbrakk>p + 4 \<le> 32; q + 2 \<le> 32; p + 4 \<le> q \<or> q + 2 \<le> p\<rbrakk> \<Longrightarrow>
    field_get p 0xf (field_put q 3 v r) = field_get p 0xf r"
  "\<lbrakk>p + 4 \<le> 32; q + 4 \<le> 32; p + 4 \<le> q \<or> q + 4 \<le> p\<rbrakk> \<Longrightarrow>
    field_get p 0xf (field_put q 0xf v r) = field_get p 0xf r"
  "\<lbrakk>p + 4 \<le> 32; q + 16 \<le> 32; p + 4 \<le> q \<or> q + 16 \<le> p\<rbrakk> \<Longrightarrow>
    field_get p 0xf (field_put q 0xffff v r) = field_get p 0xf r"
  using field_get_apart [of p 4 q 1 v r] field_get_apart [of p 4 q 2 v r]
    field_get_apart [of p 4 q 4 v r] field_get_apart [of p 4 q 16 v r]
  unfolding mask_numerals by simp_all

lemma field_get_apart_16 [field_simps_at]:
  "\<lbrakk>p + 16 \<le> 32; q + 1 \<le> 32; p + 16 \<le> q \<or> q + 1 \<le> p\<rbrakk> \<Longrightarrow>
    field_get p 0xffff (field_put q 1 v r) = field_get p 0xffff r"
  "\<lbrakk>p + 16 \<le> 32; q + 2 \<le> 32; p + 16 \<le> q \<or> q + 2 \<le> p\<rbrakk> \<Longrightarrow>
    field_get p 0xffff (field_put q 3 v r) = field_get p 0xffff r"
  "\<lbrakk>p + 16 \<le> 32; q + 4 \<le> 32; p + 16 \<le> q \<or> q + 4 \<le> p\<rbrakk> \<Longrightarrow>
    field_get p 0xffff (field_put q 0xf v r) = field_get p 0xffff r"
  "\<lbrakk>p + 16 \<le> 32; q + 16 \<le> 32; p + 16 \<le> q \<or> q + 16 \<le> p\<rbrakk> \<Longrightarrow>
    field_get p 0xffff (field_put q 0xffff v r) = field_get p 0xffff r"
  using field_get_apart [of p 16 q 1 v r] field_get_apart [of p 16 q 2 v r]
    field_get_apart [of p 16 q 4 v r] field_get_apart [of p 16 q 16 v r]
  unfolding mask_numerals by simp_all

end
