(* ===== verification/General_Dma.thy ===== *)
theory General_Dma
  imports Intc Bit_Fields
begin

text \<open>
  The general DMA driver, \<^verbatim>\<open>beken378/driver/general_dma/general_dma.c\<close>, in the configuration of the
  BK7221U: six channels, each with a bank of eight registers, an interrupt counter and four
  address registers; the six configuration types; the control function of the \<open>generaldma\<close> static
  device; the memory copy on channel 0; the interrupt service routine; init and exit. Every
  function is one definition over the world (\<open>REG_READ\<close> and \<open>REG_WRITE\<close> being \<open>w_read\<close> and
  \<open>w_write\<close>); fields of registers are put and read through \<open>Bit_Fields\<close>.

  What runs between two accesses is a parameter: the DMA engine that a polling loop waits for is
  \<open>hw\<close>, one step of the hardware on the world, and the functions behind the finish handler
  pointers are \<open>call\<close>.
\<close>

section \<open>Register map\<close>

definition GENER_DMA_BASE :: u32 where "GENER_DMA_BASE = 0x00809000"

text \<open>Register \<open>k\<close> of a channel's bank (\<open>GENER_DMA0_REG<k> + channel * 8 * 4\<close>), and the registers that
  are spaced by one word per channel.\<close>

definition gdma_bank :: "u32 \<Rightarrow> u32 \<Rightarrow> u32" where
  "gdma_bank k channel = GENER_DMA_BASE + k * 4 + channel * 8 * 4"

definition gdma_word :: "u32 \<Rightarrow> u32 \<Rightarrow> u32" where
  "gdma_word k channel = GENER_DMA_BASE + k * 4 + channel * 4"

definition GENER_DMA_REG37_PRIO_MODE :: u32 where "GENER_DMA_REG37_PRIO_MODE = GENER_DMA_BASE + 0x37 * 4"
definition GENER_DMA_REG38_DMA_INT_STATUS :: u32 where
  "GENER_DMA_REG38_DMA_INT_STATUS = GENER_DMA_BASE + 0x38 * 4"
definition GDMA_CHANNEL_MAX :: u32 where "GDMA_CHANNEL_MAX = 6"

abbreviation (input) conf_reg :: "u32 \<Rightarrow> u32" where "conf_reg \<equiv> gdma_bank 0"
abbreviation (input) mux_reg :: "u32 \<Rightarrow> u32" where "mux_reg \<equiv> gdma_bank 7"
abbreviation (input) cnts_reg :: "u32 \<Rightarrow> u32" where "cnts_reg \<equiv> gdma_word 0x30"

text \<open>Read, change and write back.\<close>

definition reg_upd :: "u32 \<Rightarrow> (u32 \<Rightarrow> u32) \<Rightarrow> bk_world \<Rightarrow> bk_world" where
  "reg_upd a f w = w_write a (f (w_read a w)) w"

section \<open>Channel configuration\<close>

definition gdma_set_dma_en :: "u32 \<Rightarrow> u32 \<Rightarrow> bk_world \<Rightarrow> bk_world" where
  "gdma_set_dma_en channel enable = reg_upd (conf_reg channel) (flag_put 0 enable)"

definition gdma_cfg_finish_inten :: "u32 \<Rightarrow> u32 \<Rightarrow> bk_world \<Rightarrow> bk_world" where
  "gdma_cfg_finish_inten channel enable = reg_upd (conf_reg channel) (flag_put 1 enable)"

definition gdma_cfg_half_fin_inten :: "u32 \<Rightarrow> u32 \<Rightarrow> bk_world \<Rightarrow> bk_world" where
  "gdma_cfg_half_fin_inten channel enable = reg_upd (conf_reg channel) (flag_put 2 enable)"

definition gdma_cfg_work_mode :: "u32 \<Rightarrow> u32 \<Rightarrow> bk_world \<Rightarrow> bk_world" where
  "gdma_cfg_work_mode channel repeat = reg_upd (conf_reg channel) (flag_put 3 repeat)"

definition gdma_cfg_srcaddr_increase :: "u32 \<Rightarrow> u32 \<Rightarrow> bk_world \<Rightarrow> bk_world" where
  "gdma_cfg_srcaddr_increase channel incr = reg_upd (conf_reg channel) (flag_put 8 incr)"

definition gdma_cfg_dstaddr_increase :: "u32 \<Rightarrow> u32 \<Rightarrow> bk_world \<Rightarrow> bk_world" where
  "gdma_cfg_dstaddr_increase channel incr = reg_upd (conf_reg channel) (flag_put 9 incr)"

definition gdma_cfg_srcaddr_loop :: "u32 \<Rightarrow> u32 \<Rightarrow> bk_world \<Rightarrow> bk_world" where
  "gdma_cfg_srcaddr_loop channel lp = reg_upd (conf_reg channel) (flag_put 10 lp)"

definition gdma_cfg_dstaddr_loop :: "u32 \<Rightarrow> u32 \<Rightarrow> bk_world \<Rightarrow> bk_world" where
  "gdma_cfg_dstaddr_loop channel lp = reg_upd (conf_reg channel) (flag_put 11 lp)"

definition gdma_get_dma_en :: "u32 \<Rightarrow> bk_world \<Rightarrow> u32" where
  "gdma_get_dma_en channel w = w_read (conf_reg channel) w AND 1"

text \<open>\<open>GDMA_DATA_WIDTH_8BIT\<close>, \<open>16BIT\<close> and \<open>32BIT\<close>; any other width is taken as 32.\<close>

definition gdma_width_code :: "u32 \<Rightarrow> u32" where
  "gdma_width_code bitwidth =
    (if bitwidth = 8 then 0 else if bitwidth = 16 then 1 else if bitwidth = 32 then 2 else 2)"

definition gdma_cfg_srcdata_width :: "u32 \<Rightarrow> u32 \<Rightarrow> bk_world \<Rightarrow> bk_world" where
  "gdma_cfg_srcdata_width channel bitwidth =
    reg_upd (conf_reg channel) (\<lambda>reg_val.
      (reg_val AND NOT (push_bit 4 3)) OR push_bit 4 (gdma_width_code bitwidth))"

definition gdma_cfg_dstdata_width :: "u32 \<Rightarrow> u32 \<Rightarrow> bk_world \<Rightarrow> bk_world" where
  "gdma_cfg_dstdata_width channel bitwidth =
    reg_upd (conf_reg channel) (\<lambda>reg_val.
      (reg_val AND NOT (push_bit 6 3)) OR push_bit 6 (gdma_width_code bitwidth))"

definition gdma_set_channel_prioprity :: "u32 \<Rightarrow> u32 \<Rightarrow> bk_world \<Rightarrow> bk_world" where
  "gdma_set_channel_prioprity channel prio = reg_upd (conf_reg channel) (field_put 12 3 prio)"

definition gdma_set_transfer_length :: "u32 \<Rightarrow> u32 \<Rightarrow> bk_world \<Rightarrow> bk_world" where
  "gdma_set_transfer_length channel len = reg_upd (conf_reg channel) (field_put 16 0xffff (len - 1))"

definition gdma_get_transfer_length :: "u32 \<Rightarrow> bk_world \<Rightarrow> u32" where
  "gdma_get_transfer_length channel w = field_get 16 0xffff (w_read (conf_reg channel) w) + 1"

definition gdma_set_dst_start_addr :: "u32 \<Rightarrow> u32 \<Rightarrow> bk_world \<Rightarrow> bk_world" where
  "gdma_set_dst_start_addr channel p = w_write (gdma_bank 1 channel) p"

definition gdma_set_src_start_addr :: "u32 \<Rightarrow> u32 \<Rightarrow> bk_world \<Rightarrow> bk_world" where
  "gdma_set_src_start_addr channel p = w_write (gdma_bank 2 channel) p"

definition gdma_set_dstloop_endaddr :: "u32 \<Rightarrow> u32 \<Rightarrow> bk_world \<Rightarrow> bk_world" where
  "gdma_set_dstloop_endaddr channel p = w_write (gdma_bank 3 channel) p"

definition gdma_set_dstloop_startaddr :: "u32 \<Rightarrow> u32 \<Rightarrow> bk_world \<Rightarrow> bk_world" where
  "gdma_set_dstloop_startaddr channel p = w_write (gdma_bank 4 channel) p"

definition gdma_set_srcloop_endaddr :: "u32 \<Rightarrow> u32 \<Rightarrow> bk_world \<Rightarrow> bk_world" where
  "gdma_set_srcloop_endaddr channel p = w_write (gdma_bank 5 channel) p"

definition gdma_set_srcloop_startaddr :: "u32 \<Rightarrow> u32 \<Rightarrow> bk_world \<Rightarrow> bk_world" where
  "gdma_set_srcloop_startaddr channel p = w_write (gdma_bank 6 channel) p"

definition gdma_get_remain_len :: "u32 \<Rightarrow> bk_world \<Rightarrow> u32" where
  "gdma_get_remain_len channel w = field_get 0 0x1ffff (w_read (cnts_reg channel) w)"

definition gdma_set_src_reqmux :: "u32 \<Rightarrow> u32 \<Rightarrow> bk_world \<Rightarrow> bk_world" where
  "gdma_set_src_reqmux channel reqmux = reg_upd (mux_reg channel) (field_put 0 0xf reqmux)"

definition gdma_set_dst_reqmux :: "u32 \<Rightarrow> u32 \<Rightarrow> bk_world \<Rightarrow> bk_world" where
  "gdma_set_dst_reqmux channel reqmux = reg_upd (mux_reg channel) (field_put 4 0xf reqmux)"

definition gdma_set_dctm_write_wd :: "u32 \<Rightarrow> u32 \<Rightarrow> bk_world \<Rightarrow> bk_world" where
  "gdma_set_dctm_write_wd channel read4byte = reg_upd (mux_reg channel) (flag_put 8 read4byte)"

definition gdma_get_finish_cnt :: "u32 \<Rightarrow> bk_world \<Rightarrow> u32" where
  "gdma_get_finish_cnt channel w = field_get 24 0xf (w_read (cnts_reg channel) w)"

definition gdma_get_half_finish_cnt :: "u32 \<Rightarrow> bk_world \<Rightarrow> u32" where
  "gdma_get_half_finish_cnt channel w = field_get 28 0xf (w_read (cnts_reg channel) w)"

definition gdma_set_priority :: "u32 \<Rightarrow> bk_world \<Rightarrow> bk_world" where
  "gdma_set_priority fixed = reg_upd GENER_DMA_REG37_PRIO_MODE (flag_put 0 fixed)"

section \<open>Interrupt status\<close>

definition gdma_get_finish_interrupt_bit :: "u32 \<Rightarrow> bk_world \<Rightarrow> u32" where
  "gdma_get_finish_interrupt_bit channel w =
    drop_bit (unat channel)
      ((w_read GENER_DMA_REG38_DMA_INT_STATUS w AND 0x3f) AND push_bit (unat channel) 1)"

definition gdma_clr_finish_interrupt_bit :: "u32 \<Rightarrow> bk_world \<Rightarrow> bk_world" where
  "gdma_clr_finish_interrupt_bit channel =
    w_write GENER_DMA_REG38_DMA_INT_STATUS (push_bit (unat channel) 1)"

definition gdma_get_half_finish_interrupt_bit :: "u32 \<Rightarrow> bk_world \<Rightarrow> u32" where
  "gdma_get_half_finish_interrupt_bit channel w =
    drop_bit (unat (channel + 8))
      ((w_read GENER_DMA_REG38_DMA_INT_STATUS w AND push_bit 8 0x3f) AND push_bit (unat (channel + 8)) 1)"

definition gdma_clr_half_finish_interrupt_bit :: "u32 \<Rightarrow> bk_world \<Rightarrow> bk_world" where
  "gdma_clr_half_finish_interrupt_bit channel =
    w_write GENER_DMA_REG38_DMA_INT_STATUS (push_bit (unat (channel + 8)) 1)"

definition gdma_enable_interrupt :: "bk_drv \<Rightarrow> bk_world \<Rightarrow> bk_world result" where
  "gdma_enable_interrupt st w = map_sum id snd
    (sddev_control (Some ICU_DEV_NAME) CMD_ICU_INT_ENABLE (param_of (Obj_u32 (push_bit 15 1))) st w)"

definition gdma_disable_interrupt :: "bk_drv \<Rightarrow> bk_world \<Rightarrow> bk_world result" where
  "gdma_disable_interrupt st w = map_sum id snd
    (sddev_control (Some ICU_DEV_NAME) CMD_ICU_INT_DISABLE (param_of (Obj_u32 (push_bit 15 1))) st w)"

section \<open>Pause and progress addresses\<close>

definition gdma_set_src_pause_addr :: "u32 \<Rightarrow> u32 \<Rightarrow> bk_world \<Rightarrow> bk_world" where
  "gdma_set_src_pause_addr channel addr = w_write (gdma_word 0x40 channel) addr"

definition gdma_get_src_pause_addr :: "u32 \<Rightarrow> bk_world \<Rightarrow> u32" where
  "gdma_get_src_pause_addr channel w = w_read (gdma_word 0x40 channel) w"

definition gdma_set_dest_pause_addr :: "u32 \<Rightarrow> u32 \<Rightarrow> bk_world \<Rightarrow> bk_world" where
  "gdma_set_dest_pause_addr channel addr = w_write (gdma_word 0x48 channel) addr"

definition gdma_get_dest_pause_addr :: "u32 \<Rightarrow> bk_world \<Rightarrow> u32" where
  "gdma_get_dest_pause_addr channel w = w_read (gdma_word 0x48 channel) w"

definition gdma_get_src_read_addr :: "u32 \<Rightarrow> bk_world \<Rightarrow> u32" where
  "gdma_get_src_read_addr channel w = w_read (gdma_word 0x50 channel) w"

definition gdma_get_dest_write_addr :: "u32 \<Rightarrow> bk_world \<Rightarrow> u32" where
  "gdma_get_dest_write_addr channel w = w_read (gdma_word 0x58 channel) w"

definition gdma_get_received_len :: "u32 \<Rightarrow> bk_world \<Rightarrow> u32" where
  "gdma_get_received_len channel w =
    (if channel \<ge> GDMA_CHANNEL_MAX then 0 else gdma_get_remain_len channel w)"

section \<open>Configuration types\<close>

text \<open>Steps in sequence: \<open>then_do [f, g, h] w = h (g (f w))\<close>.\<close>

definition then_do :: "('w \<Rightarrow> 'w) list \<Rightarrow> 'w \<Rightarrow> 'w" where
  "then_do fs w = fold (\<lambda>f. f) fs w"

definition gdma_congfig_type0 :: "gdmacfg_types \<Rightarrow> bk_world \<Rightarrow> bk_world" where
  "gdma_congfig_type0 cfg w =
    (if t_channel cfg \<ge> GDMA_CHANNEL_MAX then w
     else then_do [
       w_write (conf_reg (t_channel cfg)) 0,
       gdma_cfg_srcaddr_increase (t_channel cfg) (ucast (t_srcptr_incr cfg)),
       gdma_cfg_dstaddr_increase (t_channel cfg) (ucast (t_dstptr_incr cfg)),
       gdma_cfg_srcdata_width (t_channel cfg) (ucast (t_srcdat_width cfg)),
       gdma_cfg_dstdata_width (t_channel cfg) (ucast (t_dstdat_width cfg)),
       gdma_set_channel_prioprity (t_channel cfg) (t_prio cfg),
       gdma_set_dst_start_addr (t_channel cfg) (t_dst_start_addr cfg),
       gdma_set_src_start_addr (t_channel cfg) (t_src_start_addr cfg)] w)"

definition gdma_congfig_type1 :: "gdmacfg_types \<Rightarrow> bk_world \<Rightarrow> bk_world" where
  "gdma_congfig_type1 cfg w =
    (if t_channel cfg \<ge> GDMA_CHANNEL_MAX then w
     else then_do [
       w_write (conf_reg (t_channel cfg)) 0,
       gdma_cfg_srcaddr_loop (t_channel cfg) 1,
       gdma_cfg_srcaddr_increase (t_channel cfg) (ucast (t_srcptr_incr cfg)),
       gdma_cfg_dstaddr_increase (t_channel cfg) (ucast (t_dstptr_incr cfg)),
       gdma_cfg_srcdata_width (t_channel cfg) (ucast (t_srcdat_width cfg)),
       gdma_cfg_dstdata_width (t_channel cfg) (ucast (t_dstdat_width cfg)),
       gdma_set_channel_prioprity (t_channel cfg) (t_prio cfg),
       gdma_set_dst_start_addr (t_channel cfg) (t_dst_start_addr cfg),
       gdma_set_src_start_addr (t_channel cfg) (t_src_start_addr cfg),
       gdma_set_srcloop_startaddr (t_channel cfg) (t_u0 cfg),
       gdma_set_srcloop_endaddr (t_channel cfg) (t_u1 cfg)] w)"

definition gdma_congfig_type2 :: "gdmacfg_types \<Rightarrow> bk_world \<Rightarrow> bk_world" where
  "gdma_congfig_type2 cfg w =
    (if t_channel cfg \<ge> GDMA_CHANNEL_MAX then w
     else then_do [
       w_write (conf_reg (t_channel cfg)) 0,
       gdma_cfg_dstaddr_loop (t_channel cfg) 1,
       gdma_cfg_srcaddr_increase (t_channel cfg) (ucast (t_srcptr_incr cfg)),
       gdma_cfg_dstaddr_increase (t_channel cfg) (ucast (t_dstptr_incr cfg)),
       gdma_cfg_srcdata_width (t_channel cfg) (ucast (t_srcdat_width cfg)),
       gdma_cfg_dstdata_width (t_channel cfg) (ucast (t_dstdat_width cfg)),
       gdma_set_channel_prioprity (t_channel cfg) (t_prio cfg),
       gdma_set_dst_start_addr (t_channel cfg) (t_dst_start_addr cfg),
       gdma_set_src_start_addr (t_channel cfg) (t_src_start_addr cfg),
       gdma_set_dstloop_startaddr (t_channel cfg) (t_u0 cfg),
       gdma_set_dstloop_endaddr (t_channel cfg) (t_u1 cfg)] w)"

definition gdma_congfig_type3 :: "gdmacfg_types \<Rightarrow> bk_world \<Rightarrow> bk_world" where
  "gdma_congfig_type3 cfg w =
    (if t_channel cfg \<ge> GDMA_CHANNEL_MAX then w
     else then_do [
       w_write (conf_reg (t_channel cfg)) 0,
       gdma_cfg_srcaddr_loop (t_channel cfg) 1,
       gdma_cfg_dstaddr_loop (t_channel cfg) 1,
       gdma_cfg_srcaddr_increase (t_channel cfg) (ucast (t_srcptr_incr cfg)),
       gdma_cfg_dstaddr_increase (t_channel cfg) (ucast (t_dstptr_incr cfg)),
       gdma_cfg_srcdata_width (t_channel cfg) (ucast (t_srcdat_width cfg)),
       gdma_cfg_dstdata_width (t_channel cfg) (ucast (t_dstdat_width cfg)),
       gdma_set_channel_prioprity (t_channel cfg) (t_prio cfg),
       gdma_set_dst_start_addr (t_channel cfg) (t_dst_start_addr cfg),
       gdma_set_src_start_addr (t_channel cfg) (t_src_start_addr cfg),
       gdma_set_srcloop_startaddr (t_channel cfg) (t_u0 cfg),
       gdma_set_srcloop_endaddr (t_channel cfg) (t_u1 cfg),
       gdma_set_dstloop_startaddr (t_channel cfg) (t_u2 cfg),
       gdma_set_dstloop_endaddr (t_channel cfg) (t_u3 cfg)] w)"

text \<open>The tail of types 4 and 5: a handler that is given is installed and its interrupt enabled.\<close>

definition gdma_set_handlers :: "gdmacfg_types \<Rightarrow> bk_world \<Rightarrow> bk_world" where
  "gdma_set_handlers cfg w =
    (let c = t_channel cfg;
         w1 = (if t_fin_handler cfg \<noteq> 0
               then (gdma_cfg_finish_inten c 1 w)
                 \<lparr>p_dma_fin_handler := (p_dma_fin_handler w)[unat c := t_fin_handler cfg]\<rparr>
               else w)
     in if t_half_fin_handler cfg \<noteq> 0
        then (gdma_cfg_half_fin_inten c 1 w1)
          \<lparr>p_dma_hfin_handler := (p_dma_hfin_handler w1)[unat c := t_half_fin_handler cfg]\<rparr>
        else w1)"

definition gdma_congfig_type4 :: "gdmacfg_types \<Rightarrow> bk_world \<Rightarrow> bk_world" where
  "gdma_congfig_type4 cfg w =
    (if t_channel cfg \<ge> GDMA_CHANNEL_MAX then w
     else then_do [
       w_write (conf_reg (t_channel cfg)) 0,
       gdma_set_src_reqmux (t_channel cfg) (ucast (t_src_module cfg)),
       gdma_set_dst_reqmux (t_channel cfg) (ucast (t_dst_module cfg)),
       gdma_cfg_work_mode (t_channel cfg) 1,
       gdma_cfg_srcaddr_loop (t_channel cfg) 1,
       gdma_cfg_dstaddr_increase (t_channel cfg) 0,
       gdma_cfg_srcaddr_increase (t_channel cfg) (ucast (t_srcptr_incr cfg)),
       gdma_cfg_srcdata_width (t_channel cfg) (ucast (t_srcdat_width cfg)),
       gdma_cfg_dstdata_width (t_channel cfg) (ucast (t_dstdat_width cfg)),
       gdma_set_channel_prioprity (t_channel cfg) (t_prio cfg),
       gdma_set_dst_start_addr (t_channel cfg) (t_dst_start_addr cfg),
       gdma_set_src_start_addr (t_channel cfg) (t_src_start_addr cfg),
       gdma_set_srcloop_startaddr (t_channel cfg) (t_u0 cfg),
       gdma_set_srcloop_endaddr (t_channel cfg) (t_u1 cfg),
       gdma_set_handlers cfg] w)"

definition gdma_congfig_type5 :: "gdmacfg_types \<Rightarrow> bk_world \<Rightarrow> bk_world" where
  "gdma_congfig_type5 cfg w =
    (if t_channel cfg \<ge> GDMA_CHANNEL_MAX then w
     else then_do [
       w_write (conf_reg (t_channel cfg)) 0,
       gdma_set_src_reqmux (t_channel cfg) (ucast (t_src_module cfg)),
       gdma_set_dst_reqmux (t_channel cfg) (ucast (t_dst_module cfg)),
       gdma_cfg_work_mode (t_channel cfg) 1,
       gdma_cfg_dstaddr_loop (t_channel cfg) 1,
       gdma_cfg_srcaddr_increase (t_channel cfg) 0,
       gdma_cfg_dstaddr_increase (t_channel cfg) (ucast (t_dstptr_incr cfg)),
       gdma_cfg_srcdata_width (t_channel cfg) (ucast (t_srcdat_width cfg)),
       gdma_cfg_dstdata_width (t_channel cfg) (ucast (t_dstdat_width cfg)),
       gdma_set_channel_prioprity (t_channel cfg) (t_prio cfg),
       gdma_set_dst_start_addr (t_channel cfg) (t_dst_start_addr cfg),
       gdma_set_src_start_addr (t_channel cfg) (t_src_start_addr cfg),
       gdma_set_dstloop_startaddr (t_channel cfg) (t_u0 cfg),
       gdma_set_dstloop_endaddr (t_channel cfg) (t_u1 cfg),
       gdma_set_handlers cfg] w)"

definition gdma_congfig_type6 :: "gdmacfg_types \<Rightarrow> bk_world \<Rightarrow> bk_world" where
  "gdma_congfig_type6 cfg w = w"

section \<open>Transfers\<close>

text \<open>\<open>while(gdma_get_dma_en(channel));\<close> the hardware moves between two polls.\<close>

partial_function (option) gdma_wait :: "(bk_world \<Rightarrow> bk_world) \<Rightarrow> u32 \<Rightarrow> bk_world \<Rightarrow> bk_world option" where
  "gdma_wait hw channel w =
    (if gdma_get_dma_en channel w \<noteq> 0 then gdma_wait hw channel (hw w) else Some w)"

definition gdma_enable :: "(bk_world \<Rightarrow> bk_world) \<Rightarrow> gdma_do \<Rightarrow> bk_world \<Rightarrow> (u32 \<times> bk_world) option" where
  "gdma_enable hw do_st w =
    (if do_length do_st = 0 then Some (0, w)
     else
       (let w1 = then_do [
              gdma_set_dst_start_addr (do_channel do_st) (do_dst_addr do_st),
              gdma_set_src_start_addr (do_channel do_st) (do_src_addr do_st),
              gdma_set_transfer_length (do_channel do_st) (do_length do_st),
              gdma_set_dma_en (do_channel do_st) 1] w
        in map_option (\<lambda>w2. (do_length do_st, w2)) (gdma_wait hw (do_channel do_st) w1)))"

definition gdma_memcpy ::
  "(bk_world \<Rightarrow> bk_world) \<Rightarrow> u32 \<Rightarrow> u32 \<Rightarrow> u32 \<Rightarrow> bk_world \<Rightarrow> (u32 \<times> bk_world) option" where
  "gdma_memcpy hw out inp n w =
    map_option (\<lambda>(_, w'). (out, w'))
      (gdma_enable hw \<lparr>do_channel = 0, do_src_addr = inp, do_dst_addr = out, do_length = n\<rparr> w)"

section \<open>Control\<close>

text \<open>The command enumeration, from \<open>GDMA_CMD_MAGIC + 1\<close>.\<close>

abbreviation (input) CMD_GDMA_SET_DMA_ENABLE :: u32 where "CMD_GDMA_SET_DMA_ENABLE \<equiv> 0x0e809001"
abbreviation (input) CMD_GDMA_CFG_FIN_INT_ENABLE :: u32 where "CMD_GDMA_CFG_FIN_INT_ENABLE \<equiv> 0x0e809002"
abbreviation (input) CMD_GDMA_CFG_HFIN_INT_ENABLE :: u32 where "CMD_GDMA_CFG_HFIN_INT_ENABLE \<equiv> 0x0e809003"
abbreviation (input) CMD_GDMA_CFG_WORK_MODE :: u32 where "CMD_GDMA_CFG_WORK_MODE \<equiv> 0x0e809004"
abbreviation (input) CMD_GDMA_CFG_SRCDATA_WIDTH :: u32 where "CMD_GDMA_CFG_SRCDATA_WIDTH \<equiv> 0x0e809005"
abbreviation (input) CMD_GDMA_CFG_DSTDATA_WIDTH :: u32 where "CMD_GDMA_CFG_DSTDATA_WIDTH \<equiv> 0x0e809006"
abbreviation (input) CMD_GDMA_CFG_SRCADDR_INCREASE :: u32 where "CMD_GDMA_CFG_SRCADDR_INCREASE \<equiv> 0x0e809007"
abbreviation (input) CMD_GDMA_CFG_DSTADDR_INCREASE :: u32 where "CMD_GDMA_CFG_DSTADDR_INCREASE \<equiv> 0x0e809008"
abbreviation (input) CMD_GDMA_CFG_SRCADDR_LOOP :: u32 where "CMD_GDMA_CFG_SRCADDR_LOOP \<equiv> 0x0e809009"
abbreviation (input) CMD_GDMA_CFG_DSTADDR_LOOP :: u32 where "CMD_GDMA_CFG_DSTADDR_LOOP \<equiv> 0x0e80900a"
abbreviation (input) CMD_GDMA_SET_CHNL_PRIO :: u32 where "CMD_GDMA_SET_CHNL_PRIO \<equiv> 0x0e80900b"
abbreviation (input) CMD_GDMA_SET_TRANS_LENGTH :: u32 where "CMD_GDMA_SET_TRANS_LENGTH \<equiv> 0x0e80900c"
abbreviation (input) CMD_GDMA_SET_DST_START_ADDR :: u32 where "CMD_GDMA_SET_DST_START_ADDR \<equiv> 0x0e80900d"
abbreviation (input) CMD_GDMA_SET_SRC_START_ADDR :: u32 where "CMD_GDMA_SET_SRC_START_ADDR \<equiv> 0x0e80900e"
abbreviation (input) CMD_GDMA_SET_DST_LOOP_ENDADDR :: u32 where "CMD_GDMA_SET_DST_LOOP_ENDADDR \<equiv> 0x0e80900f"
abbreviation (input) CMD_GDMA_SET_DST_LOOP_STARTADDR :: u32 where "CMD_GDMA_SET_DST_LOOP_STARTADDR \<equiv> 0x0e809010"
abbreviation (input) CMD_GDMA_SET_SRC_LOOP_ENDADDR :: u32 where "CMD_GDMA_SET_SRC_LOOP_ENDADDR \<equiv> 0x0e809011"
abbreviation (input) CMD_GDMA_SET_SRC_LOOP_STARTADDR :: u32 where "CMD_GDMA_SET_SRC_LOOP_STARTADDR \<equiv> 0x0e809012"
abbreviation (input) CMD_GDMA_SET_DST_REQ_MUX :: u32 where "CMD_GDMA_SET_DST_REQ_MUX \<equiv> 0x0e809013"
abbreviation (input) CMD_GDMA_SET_SRC_REQ_MUX :: u32 where "CMD_GDMA_SET_SRC_REQ_MUX \<equiv> 0x0e809014"
abbreviation (input) CMD_GDMA_SET_DTCM_WRITE_WORD :: u32 where "CMD_GDMA_SET_DTCM_WRITE_WORD \<equiv> 0x0e809015"
abbreviation (input) CMD_GDMA_GET_REMAIN_LENGTH :: u32 where "CMD_GDMA_GET_REMAIN_LENGTH \<equiv> 0x0e809016"
abbreviation (input) CMD_GDMA_SET_FIN_CNT :: u32 where "CMD_GDMA_SET_FIN_CNT \<equiv> 0x0e809017"
abbreviation (input) CMD_GDMA_SET_HFIN_CNT :: u32 where "CMD_GDMA_SET_HFIN_CNT \<equiv> 0x0e809018"
abbreviation (input) CMD_GDMA_SET_PRIO_MODE :: u32 where "CMD_GDMA_SET_PRIO_MODE \<equiv> 0x0e809019"
abbreviation (input) CMD_GDMA_GET_FIN_INT_STATUS :: u32 where "CMD_GDMA_GET_FIN_INT_STATUS \<equiv> 0x0e80901a"
abbreviation (input) CMD_GDMA_CLR_FIN_INT_STATUS :: u32 where "CMD_GDMA_CLR_FIN_INT_STATUS \<equiv> 0x0e80901b"
abbreviation (input) CMD_GDMA_GET_HFIN_INT_STATUS :: u32 where "CMD_GDMA_GET_HFIN_INT_STATUS \<equiv> 0x0e80901c"
abbreviation (input) CMD_GDMA_CLR_HFIN_INT_STATUS :: u32 where "CMD_GDMA_CLR_HFIN_INT_STATUS \<equiv> 0x0e80901d"
abbreviation (input) CMD_GDMA_CFG_TYPE0 :: u32 where "CMD_GDMA_CFG_TYPE0 \<equiv> 0x0e80901e"
abbreviation (input) CMD_GDMA_CFG_TYPE1 :: u32 where "CMD_GDMA_CFG_TYPE1 \<equiv> 0x0e80901f"
abbreviation (input) CMD_GDMA_CFG_TYPE2 :: u32 where "CMD_GDMA_CFG_TYPE2 \<equiv> 0x0e809020"
abbreviation (input) CMD_GDMA_CFG_TYPE3 :: u32 where "CMD_GDMA_CFG_TYPE3 \<equiv> 0x0e809021"
abbreviation (input) CMD_GDMA_CFG_TYPE4 :: u32 where "CMD_GDMA_CFG_TYPE4 \<equiv> 0x0e809022"
abbreviation (input) CMD_GDMA_CFG_TYPE5 :: u32 where "CMD_GDMA_CFG_TYPE5 \<equiv> 0x0e809023"
abbreviation (input) CMD_GDMA_CFG_TYPE6 :: u32 where "CMD_GDMA_CFG_TYPE6 \<equiv> 0x0e809024"
abbreviation (input) CMD_GDMA_ENABLE :: u32 where "CMD_GDMA_ENABLE \<equiv> 0x0e809025"
abbreviation (input) CMD_GDMA_GET_LEFT_LEN :: u32 where "CMD_GDMA_GET_LEFT_LEN \<equiv> 0x0e809026"
abbreviation (input) CMD_GDMA_SET_SRC_PAUSE_ADDR :: u32 where "CMD_GDMA_SET_SRC_PAUSE_ADDR \<equiv> 0x0e809027"
abbreviation (input) CMD_GDMA_GET_SRC_PAUSE_ADDR :: u32 where "CMD_GDMA_GET_SRC_PAUSE_ADDR \<equiv> 0x0e809028"
abbreviation (input) CMD_GDMA_SET_DST_PAUSE_ADDR :: u32 where "CMD_GDMA_SET_DST_PAUSE_ADDR \<equiv> 0x0e809029"
abbreviation (input) CMD_GDMA_GET_DST_PAUSE_ADDR :: u32 where "CMD_GDMA_GET_DST_PAUSE_ADDR \<equiv> 0x0e80902a"
abbreviation (input) CMD_GDMA_GET_SRC_READ_ADDR :: u32 where "CMD_GDMA_GET_SRC_READ_ADDR \<equiv> 0x0e80902b"
abbreviation (input) CMD_GDMA_GET_DST_WRITE_ADDR :: u32 where "CMD_GDMA_GET_DST_WRITE_ADDR \<equiv> 0x0e80902c"

definition gdma_ctrl ::
  "(bk_world \<Rightarrow> bk_world) \<Rightarrow> u32 \<Rightarrow> dev_param \<Rightarrow> bk_world \<Rightarrow> (u32 \<times> bk_world) result" where
  "gdma_ctrl hw cmd param w =
    (let set = (\<lambda>f. bind_res (param_cfg param) (\<lambda>c. Inr (ICU_SUCCESS, f (cfg_channel c) (cfg_param c) w)));
         get = (\<lambda>f. bind_res (param_cfg param) (\<lambda>c. Inr (f (cfg_channel c) w, w)));
         types = (\<lambda>f. bind_res (param_types param) (\<lambda>t. Inr (ICU_SUCCESS, f t w)))
     in
     if pa_addr param = 0 then Inl Assert_failed
     else if cmd = CMD_GDMA_SET_DMA_ENABLE then set gdma_set_dma_en
     else if cmd = CMD_GDMA_CFG_FIN_INT_ENABLE then set gdma_cfg_finish_inten
     else if cmd = CMD_GDMA_CFG_HFIN_INT_ENABLE then set gdma_cfg_half_fin_inten
     else if cmd = CMD_GDMA_CFG_WORK_MODE then set gdma_cfg_work_mode
     else if cmd = CMD_GDMA_CFG_SRCDATA_WIDTH then set gdma_cfg_srcdata_width
     else if cmd = CMD_GDMA_CFG_DSTDATA_WIDTH then set gdma_cfg_dstdata_width
     else if cmd = CMD_GDMA_CFG_SRCADDR_INCREASE then set gdma_cfg_srcaddr_increase
     else if cmd = CMD_GDMA_CFG_DSTADDR_INCREASE then set gdma_cfg_dstaddr_increase
     else if cmd = CMD_GDMA_CFG_SRCADDR_LOOP then set gdma_cfg_srcaddr_loop
     else if cmd = CMD_GDMA_CFG_DSTADDR_LOOP then set gdma_cfg_dstaddr_loop
     else if cmd = CMD_GDMA_SET_CHNL_PRIO then set gdma_set_channel_prioprity
     else if cmd = CMD_GDMA_SET_TRANS_LENGTH then set gdma_set_transfer_length
     else if cmd = CMD_GDMA_SET_DST_START_ADDR then set gdma_set_dst_start_addr
     else if cmd = CMD_GDMA_SET_SRC_START_ADDR then set gdma_set_src_start_addr
     else if cmd = CMD_GDMA_SET_DST_LOOP_ENDADDR then set gdma_set_dstloop_endaddr
     else if cmd = CMD_GDMA_SET_DST_LOOP_STARTADDR then set gdma_set_dstloop_startaddr
     else if cmd = CMD_GDMA_SET_SRC_LOOP_ENDADDR then set gdma_set_srcloop_endaddr
     else if cmd = CMD_GDMA_SET_SRC_LOOP_STARTADDR then set gdma_set_srcloop_startaddr
     else if cmd = CMD_GDMA_GET_REMAIN_LENGTH then get gdma_get_remain_len
     else if cmd = CMD_GDMA_SET_DST_REQ_MUX then set gdma_set_dst_reqmux
     else if cmd = CMD_GDMA_SET_SRC_REQ_MUX then set gdma_set_src_reqmux
     else if cmd = CMD_GDMA_SET_DTCM_WRITE_WORD then set gdma_set_dctm_write_wd
     else if cmd = CMD_GDMA_SET_FIN_CNT then Inr (gdma_get_finish_cnt (pa_addr param) w, w)
     else if cmd = CMD_GDMA_SET_HFIN_CNT then get gdma_get_half_finish_cnt
     else if cmd = CMD_GDMA_SET_PRIO_MODE then set (\<lambda>_. gdma_set_priority)
     else if cmd = CMD_GDMA_GET_FIN_INT_STATUS then get gdma_get_finish_interrupt_bit
     else if cmd = CMD_GDMA_CLR_FIN_INT_STATUS then set (\<lambda>c _. gdma_clr_finish_interrupt_bit c)
     else if cmd = CMD_GDMA_GET_HFIN_INT_STATUS then get gdma_get_half_finish_interrupt_bit
     else if cmd = CMD_GDMA_CLR_HFIN_INT_STATUS then set (\<lambda>c _. gdma_clr_half_finish_interrupt_bit c)
     else if cmd = CMD_GDMA_CFG_TYPE0 then types gdma_congfig_type0
     else if cmd = CMD_GDMA_CFG_TYPE1 then types gdma_congfig_type1
     else if cmd = CMD_GDMA_CFG_TYPE2 then types gdma_congfig_type2
     else if cmd = CMD_GDMA_CFG_TYPE3 then types gdma_congfig_type3
     else if cmd = CMD_GDMA_CFG_TYPE4 then types gdma_congfig_type4
     else if cmd = CMD_GDMA_CFG_TYPE5 then types gdma_congfig_type5
     else if cmd = CMD_GDMA_CFG_TYPE6 then types gdma_congfig_type6
     else if cmd = CMD_GDMA_ENABLE then 
       bind_res (param_do param) (\<lambda>d. case gdma_enable hw d w of
         None \<Rightarrow> Inl Spins | Some (_, w') \<Rightarrow> Inr (ICU_SUCCESS, w'))
     else if cmd = CMD_GDMA_GET_LEFT_LEN then Inr (gdma_get_received_len (pa_addr param) w, w)
     else if cmd = CMD_GDMA_SET_SRC_PAUSE_ADDR then set gdma_set_src_pause_addr
     else if cmd = CMD_GDMA_GET_SRC_PAUSE_ADDR then get gdma_get_src_pause_addr
     else if cmd = CMD_GDMA_SET_DST_PAUSE_ADDR then set gdma_set_dest_pause_addr
     else if cmd = CMD_GDMA_GET_DST_PAUSE_ADDR then get gdma_get_src_pause_addr
     else if cmd = CMD_GDMA_GET_SRC_READ_ADDR then get gdma_get_src_read_addr
     else if cmd = CMD_GDMA_GET_DST_WRITE_ADDR then get gdma_get_dest_write_addr
     else Inr (ICU_SUCCESS, w))"

definition GDMA_DEV_NAME :: string where "GDMA_DEV_NAME = ''generaldma''"

definition gdma_op :: "(bk_world \<Rightarrow> bk_world) \<Rightarrow> (bk_world, dev_param) sdd_operations" where
  "gdma_op hw = \<lparr>sdd_control = Some (gdma_ctrl hw)\<rparr>"

section \<open>Interrupt service routine\<close>

text \<open>One iteration of the loop over the channels; \<open>status\<close> is read once, before the loop.\<close>

definition gdma_isr_channel :: "(u32 \<Rightarrow> u32 \<Rightarrow> bk_world \<Rightarrow> bk_world) \<Rightarrow> u32 \<Rightarrow> nat \<Rightarrow> bk_world \<Rightarrow> bk_world" where
  "gdma_isr_channel call status i w =
    (let w1 = (let cmp_bit = push_bit (i + 8) 1; h = p_dma_hfin_handler w ! i in
               if status AND cmp_bit \<noteq> 0 \<and> h \<noteq> 0
               then w_write GENER_DMA_REG38_DMA_INT_STATUS cmp_bit (call h 0 w) else w)
     in (let cmp_bit = push_bit i 1; h = p_dma_fin_handler w1 ! i in
         if status AND cmp_bit \<noteq> 0 \<and> h \<noteq> 0
         then w_write GENER_DMA_REG38_DMA_INT_STATUS cmp_bit (call h 1 w1) else w1))"

definition gdma_isr :: "(u32 \<Rightarrow> u32 \<Rightarrow> bk_world \<Rightarrow> bk_world) \<Rightarrow> bk_world \<Rightarrow> bk_world" where
  "gdma_isr call w =
    fold (gdma_isr_channel call (w_read GENER_DMA_REG38_DMA_INT_STATUS w)) [0..<6] w"

section \<open>Start and stop\<close>

definition gdma_flush :: "bk_world \<Rightarrow> bk_world" where
  "gdma_flush w =
    (let w1 = then_do (map (\<lambda>c. gdma_set_dma_en c 0) [0, 1, 2, 3, 4, 5]) w;
         status = w_read GENER_DMA_REG38_DMA_INT_STATUS w1
     in w_write GENER_DMA_REG38_DMA_INT_STATUS status w1)"

definition gdma_zero_types :: gdmacfg_types where
  "gdma_zero_types = \<lparr>t_channel = 0, t_prio = 0, t_dstptr_incr = 0, t_srcptr_incr = 0,
     t_dstdat_width = 0, t_srcdat_width = 0, t_src_start_addr = 0, t_dst_start_addr = 0,
     t_src_module = 0, t_dst_module = 0, t_fin_handler = 0, t_half_fin_handler = 0,
     t_u0 = 0, t_u1 = 0, t_u2 = 0, t_u3 = 0\<rparr>"

definition GDMA_X_SRC_DST_RESERVE :: u8 where "GDMA_X_SRC_DST_RESERVE = 0xB"

definition gdma_init_world :: "bk_world \<Rightarrow> bk_world" where
  "gdma_init_world w =
    (let w = w\<lparr>p_dma_fin_handler := replicate 6 0, p_dma_hfin_handler := replicate 6 0\<rparr>;
         cfg = gdma_zero_types\<lparr>t_dstdat_width := 32, t_srcdat_width := 32, t_dstptr_incr := 1, t_srcptr_incr := 1\<rparr>;
         w = gdma_flush w;
         w = gdma_congfig_type0 (cfg\<lparr>t_channel := 0, t_prio := 1\<rparr>) w;
         w = gdma_congfig_type1 (cfg\<lparr>t_channel := 1, t_prio := 0\<rparr>) w;
         w = gdma_congfig_type2 (cfg\<lparr>t_channel := 2, t_prio := 2\<rparr>) w;
         w = gdma_congfig_type3 (cfg\<lparr>t_channel := 3, t_prio := 2\<rparr>) w;
         cfg = cfg\<lparr>t_src_module := GDMA_X_SRC_DST_RESERVE, t_dst_module := GDMA_X_SRC_DST_RESERVE\<rparr>;
         w = gdma_congfig_type1 (cfg\<lparr>t_channel := 4, t_prio := 0\<rparr>) w;
         w = gdma_congfig_type2 (cfg\<lparr>t_channel := 5, t_prio := 0\<rparr>) w
     in gdma_set_priority 0 w)"

definition gdma_init ::
  "(bk_world \<Rightarrow> bk_world) \<Rightarrow> (u32 \<Rightarrow> u32 \<Rightarrow> bk_world \<Rightarrow> bk_world) \<Rightarrow> bk_drv \<Rightarrow> intc \<Rightarrow> bk_world
    \<Rightarrow> (bk_drv \<times> intc \<times> bk_world) result option" where
  "gdma_init hw call st ic w =
    (case intc_service_register 15 28 (Some (gdma_isr call)) ic of
       None \<Rightarrow> None
     | Some (Inl e) \<Rightarrow> Some (Inl e)
     | Some (Inr ic') \<Rightarrow>
        Some (bind_res (sddev_register_dev (Some GDMA_DEV_NAME) (Some (gdma_op hw)) st) (\<lambda>(_, st').
              bind_res (gdma_enable_interrupt st' (gdma_init_world w)) (\<lambda>w'.
                Inr (st', ic', w')))))"

definition gdma_exit :: "bk_drv \<Rightarrow> bk_world \<Rightarrow> (bk_drv \<times> bk_world) result" where
  "gdma_exit st w =
    bind_res (gdma_disable_interrupt st w) (\<lambda>w1.
      let w2 = then_do (map (\<lambda>c. w_write (conf_reg c) 0) [0, 1, 2, 3, 4, 5]) w1;
          w3 = w_write GENER_DMA_REG38_DMA_INT_STATUS (w_read GENER_DMA_REG38_DMA_INT_STATUS w2) w2
      in bind_res (sddev_unregister_dev (Some GDMA_DEV_NAME) st) (\<lambda>(_, st').
           Inr (st', w3)))"

section \<open>Channels do not interfere\<close>

text \<open>The registers of a channel: its bank and its words of the per-channel register groups.\<close>

definition gdma_regs :: "u32 \<Rightarrow> u32 set" where
  "gdma_regs c = {a. (\<exists>k. unat k < 8 \<and> a = gdma_bank k c)
    \<or> (\<exists>k\<in>{0x30, 0x40, 0x48, 0x50, 0x58}. a = gdma_word k c)}"

lemma gdma_bank_unat:
  "\<lbrakk>unat k < 8; unat c < 6\<rbrakk> \<Longrightarrow> unat (gdma_bank k c) = 0x809000 + 4 * unat k + 32 * unat c"
  by (simp add: gdma_bank_def GENER_DMA_BASE_def unat_word_ariths)

lemma gdma_word_unat:
  "\<lbrakk>unat k < 0x60; unat c < 6\<rbrakk> \<Longrightarrow> unat (gdma_word k c) = 0x809000 + 4 * unat k + 4 * unat c"
  by (simp add: gdma_word_def GENER_DMA_BASE_def unat_word_ariths)

lemma gdma_regs_unat:
  assumes "a \<in> gdma_regs c" and "unat c < 6"
  shows "(\<exists>k<8. unat a = 0x809000 + 4 * k + 32 * unat c)
    \<or> (\<exists>k\<in>{0x30, 0x40, 0x48, 0x50, 0x58}. unat a = 0x809000 + 4 * k + 4 * unat c)"
  using assms by (auto simp: gdma_regs_def gdma_bank_unat gdma_word_unat)

lemma gdma_regs_disjoint:
  assumes "unat c < 6" and "unat d < 6" and "c \<noteq> d"
  shows "gdma_regs c \<inter> gdma_regs d = {}"
proof (rule ccontr)
  assume "gdma_regs c \<inter> gdma_regs d \<noteq> {}"
  then obtain a where a: "a \<in> gdma_regs c" "a \<in> gdma_regs d" by auto
  have "unat c \<noteq> unat d" using assms(3) by (simp add: word_unat_eq_iff)
  then show False
    using gdma_regs_unat [OF a(1) assms(1)] gdma_regs_unat [OF a(2) assms(2)] assms(1,2)
    by (elim disjE exE bexE conjE) auto
qed

lemma gdma_global_regs:
  assumes "unat c < 6"
  shows "GENER_DMA_REG37_PRIO_MODE \<notin> gdma_regs c" "GENER_DMA_REG38_DMA_INT_STATUS \<notin> gdma_regs c"
proof -
  have "unat GENER_DMA_REG37_PRIO_MODE = 0x8090dc" "unat GENER_DMA_REG38_DMA_INT_STATUS = 0x8090e0"
    by (simp_all add: GENER_DMA_REG37_PRIO_MODE_def GENER_DMA_REG38_DMA_INT_STATUS_def GENER_DMA_BASE_def)
  with assms show "GENER_DMA_REG37_PRIO_MODE \<notin> gdma_regs c" "GENER_DMA_REG38_DMA_INT_STATUS \<notin> gdma_regs c"
    using gdma_regs_unat [of _ c] by fastforce+
qed

lemma gdma_bank_in: "unat k < 8 \<Longrightarrow> gdma_bank k c \<in> gdma_regs c"
  by (auto simp: gdma_regs_def)

lemma gdma_regs_intros [intro, simp]:
  "gdma_bank 0 c \<in> gdma_regs c" "gdma_bank 1 c \<in> gdma_regs c" "gdma_bank 2 c \<in> gdma_regs c"
  "gdma_bank 3 c \<in> gdma_regs c" "gdma_bank 4 c \<in> gdma_regs c" "gdma_bank 5 c \<in> gdma_regs c"
  "gdma_bank 6 c \<in> gdma_regs c" "gdma_bank 7 c \<in> gdma_regs c"
  "gdma_word 0x30 c \<in> gdma_regs c" "gdma_word 0x40 c \<in> gdma_regs c" "gdma_word 0x48 c \<in> gdma_regs c"
  by (rule gdma_bank_in, simp)+ (simp_all add: gdma_regs_def)

text \<open>A step that writes registers of channel \<open>c\<close> and the two registers shared by all channels only.\<close>

definition only_chan :: "u32 \<Rightarrow> (bk_world \<Rightarrow> bk_world) \<Rightarrow> bool" where
  "only_chan c f \<longleftrightarrow> (\<forall>w a. a \<notin> gdma_regs c \<union> {GENER_DMA_REG37_PRIO_MODE, GENER_DMA_REG38_DMA_INT_STATUS}
      \<longrightarrow> w_read a (f w) = w_read a w)"

lemma only_chan_write: "a \<in> gdma_regs c \<union> {GENER_DMA_REG37_PRIO_MODE, GENER_DMA_REG38_DMA_INT_STATUS}
    \<Longrightarrow> only_chan c (w_write a v)"
  by (auto simp: only_chan_def reg_simps)

lemma only_chan_upd: "a \<in> gdma_regs c \<union> {GENER_DMA_REG37_PRIO_MODE, GENER_DMA_REG38_DMA_INT_STATUS}
    \<Longrightarrow> only_chan c (reg_upd a f)"
  by (auto simp: only_chan_def reg_upd_def reg_simps)

lemma only_chan_seq: "\<forall>f\<in>set fs. only_chan c f \<Longrightarrow> only_chan c (then_do fs)"
proof (induction fs)
  case Nil
  then show ?case by (simp add: only_chan_def then_do_def)
next
  case (Cons f fs)
  then have "only_chan c (then_do fs)" "only_chan c f" by simp_all
  then show ?case by (simp add: only_chan_def then_do_def)
qed

lemmas gdma_prims = gdma_set_dma_en_def gdma_cfg_finish_inten_def gdma_cfg_half_fin_inten_def
  gdma_cfg_work_mode_def gdma_cfg_srcaddr_increase_def gdma_cfg_dstaddr_increase_def
  gdma_cfg_srcaddr_loop_def gdma_cfg_dstaddr_loop_def gdma_cfg_srcdata_width_def
  gdma_cfg_dstdata_width_def gdma_set_channel_prioprity_def gdma_set_transfer_length_def
  gdma_set_dst_start_addr_def gdma_set_src_start_addr_def gdma_set_dstloop_endaddr_def
  gdma_set_dstloop_startaddr_def gdma_set_srcloop_endaddr_def gdma_set_srcloop_startaddr_def
  gdma_set_src_reqmux_def gdma_set_dst_reqmux_def gdma_set_dctm_write_wd_def gdma_set_priority_def
  gdma_clr_finish_interrupt_bit_def gdma_clr_half_finish_interrupt_bit_def
  gdma_set_src_pause_addr_def gdma_set_dest_pause_addr_def

lemma gdma_prims_only_chan:
  "only_chan c (gdma_set_dma_en c v)" "only_chan c (gdma_cfg_finish_inten c v)"
  "only_chan c (gdma_cfg_half_fin_inten c v)" "only_chan c (gdma_cfg_work_mode c v)"
  "only_chan c (gdma_cfg_srcaddr_increase c v)" "only_chan c (gdma_cfg_dstaddr_increase c v)"
  "only_chan c (gdma_cfg_srcaddr_loop c v)" "only_chan c (gdma_cfg_dstaddr_loop c v)"
  "only_chan c (gdma_cfg_srcdata_width c v)" "only_chan c (gdma_cfg_dstdata_width c v)"
  "only_chan c (gdma_set_channel_prioprity c v)" "only_chan c (gdma_set_transfer_length c v)"
  "only_chan c (gdma_set_dst_start_addr c v)" "only_chan c (gdma_set_src_start_addr c v)"
  "only_chan c (gdma_set_dstloop_endaddr c v)" "only_chan c (gdma_set_dstloop_startaddr c v)"
  "only_chan c (gdma_set_srcloop_endaddr c v)" "only_chan c (gdma_set_srcloop_startaddr c v)"
  "only_chan c (gdma_set_src_reqmux c v)" "only_chan c (gdma_set_dst_reqmux c v)"
  "only_chan c (gdma_set_dctm_write_wd c v)" "only_chan c (gdma_set_priority v)"
  "only_chan c (gdma_clr_finish_interrupt_bit v)" "only_chan c (gdma_clr_half_finish_interrupt_bit v)"
  "only_chan c (gdma_set_src_pause_addr c v)" "only_chan c (gdma_set_dest_pause_addr c v)"
  unfolding gdma_prims by (rule only_chan_write only_chan_upd, simp)+

section \<open>What a configuration programs\<close>

lemma reg_upd_read [reg_simps]:
  "w_read a (reg_upd b f w) = (if a = b then f (w_read a w) else w_read a w)"
  by (simp add: reg_upd_def reg_simps)

lemma gdma_bank_inj [simp]: "gdma_bank j c = gdma_bank k c \<longleftrightarrow> j * 4 = k * 4"
  by (simp add: gdma_bank_def)

lemma width_code_fits: "gdma_width_code b AND 3 = gdma_width_code b"
  by (simp add: gdma_width_code_def)

lemma width_fields:
  "gdma_cfg_srcdata_width c b = reg_upd (conf_reg c) (field_put 4 3 (gdma_width_code b))"
  "gdma_cfg_dstdata_width c b = reg_upd (conf_reg c) (field_put 6 3 (gdma_width_code b))"
  unfolding gdma_cfg_srcdata_width_def gdma_cfg_dstdata_width_def field_put_def width_code_fits
  by (rule refl)+

lemma ucast_u8_0 [simp]: "(ucast (x :: u8) :: u32) = 0 \<longleftrightarrow> x = 0"
proof -
  have "n < 8 \<and> n < 32" if "bit x n" for n using bit_imp_le_length [OF that] by simp
  then show ?thesis by (auto simp: bit_eq_iff bit_simps)
qed

lemmas gdma_conf_prims = gdma_set_dma_en_def gdma_cfg_finish_inten_def gdma_cfg_half_fin_inten_def
  gdma_cfg_work_mode_def gdma_cfg_srcaddr_increase_def gdma_cfg_dstaddr_increase_def
  gdma_cfg_srcaddr_loop_def gdma_cfg_dstaddr_loop_def width_fields gdma_set_channel_prioprity_def
  gdma_set_transfer_length_def gdma_set_dst_start_addr_def gdma_set_src_start_addr_def
  gdma_set_dstloop_endaddr_def gdma_set_dstloop_startaddr_def gdma_set_srcloop_endaddr_def
  gdma_set_srcloop_startaddr_def gdma_set_src_reqmux_def gdma_set_dst_reqmux_def flag_put_field

text \<open>The configuration word read back field by field.\<close>

definition conf_fields :: "u32 \<Rightarrow> u32 list" where
  "conf_fields r = [field_get 0 1 r, field_get 3 1 r, field_get 4 3 r, field_get 6 3 r, field_get 8 1 r,
     field_get 9 1 r, field_get 10 1 r, field_get 11 1 r, field_get 12 3 r]"

lemmas conf_eval = then_do_def gdma_conf_prims reg_simps conf_fields_def field_simps_at width_code_fits

lemma set_handlers_read:
  "w_read a (gdma_set_handlers cfg w) = (if a = conf_reg (t_channel cfg)
     then (let r = w_read a w; r1 = (if t_fin_handler cfg \<noteq> 0 then field_put 1 1 1 r else r)
           in if t_half_fin_handler cfg \<noteq> 0 then field_put 2 1 1 r1 else r1)
     else w_read a w)"
proof -
  have upd: "w_read a (w\<lparr>p_dma_fin_handler := x\<rparr>) = w_read a w" "w_read a (w\<lparr>p_dma_hfin_handler := x\<rparr>) = w_read a w" for a w x
    by (simp_all add: w_read_def)
  show ?thesis
    by (simp add: gdma_set_handlers_def Let_def upd gdma_conf_prims reg_simps)
qed

lemma only_chan_handlers: "only_chan (t_channel cfg) (gdma_set_handlers cfg)"
  by (auto simp: only_chan_def set_handlers_read)

lemma gdma_types_only_chan:
  "only_chan (t_channel cfg) (gdma_congfig_type0 cfg)" "only_chan (t_channel cfg) (gdma_congfig_type1 cfg)"
  "only_chan (t_channel cfg) (gdma_congfig_type2 cfg)" "only_chan (t_channel cfg) (gdma_congfig_type3 cfg)"
  "only_chan (t_channel cfg) (gdma_congfig_type4 cfg)" "only_chan (t_channel cfg) (gdma_congfig_type5 cfg)"
  "only_chan (t_channel cfg) (gdma_congfig_type6 cfg)"
proof -
  have guard: "only_chan c f \<Longrightarrow> only_chan c (\<lambda>w. if b then w else f w)" for c f b
    by (auto simp: only_chan_def)
  note ty = gdma_congfig_type0_def [abs_def] gdma_congfig_type1_def [abs_def] gdma_congfig_type2_def [abs_def]
    gdma_congfig_type3_def [abs_def] gdma_congfig_type4_def [abs_def] gdma_congfig_type5_def [abs_def]
  show "only_chan (t_channel cfg) (gdma_congfig_type0 cfg)" "only_chan (t_channel cfg) (gdma_congfig_type1 cfg)"
    "only_chan (t_channel cfg) (gdma_congfig_type2 cfg)" "only_chan (t_channel cfg) (gdma_congfig_type3 cfg)"
    "only_chan (t_channel cfg) (gdma_congfig_type4 cfg)" "only_chan (t_channel cfg) (gdma_congfig_type5 cfg)"
    unfolding ty
    by (rule guard, rule only_chan_seq, simp add: gdma_prims_only_chan only_chan_handlers only_chan_write)+
  show "only_chan (t_channel cfg) (gdma_congfig_type6 cfg)"
    by (simp add: only_chan_def gdma_congfig_type6_def)
qed

section \<open>Waiting for the engine\<close>

lemma gdma_wait_returns:
  assumes "\<forall>k<n. gdma_get_dma_en c ((hw ^^ k) w) \<noteq> 0" and "gdma_get_dma_en c ((hw ^^ n) w) = 0"
  shows "gdma_wait hw c w = Some ((hw ^^ n) w)"
  using assms
proof (induction n arbitrary: w)
  case 0
  then show ?case by (simp add: gdma_wait.simps)
next
  case (Suc n)
  have "gdma_get_dma_en c w \<noteq> 0" using Suc.prems(1) by auto
  moreover have "gdma_wait hw c (hw w) = Some ((hw ^^ n) (hw w))"
    using Suc.prems by (intro Suc.IH) (auto simp: funpow_swap1 dest: spec [of _ "Suc _"])
  ultimately show ?case by (subst gdma_wait.simps) (simp add: funpow_swap1)
qed

text \<open>What a run of the loop keeps when every step of the hardware does.\<close>

lemma gdma_wait_keeps:
  assumes "gdma_wait hw c w = Some w'" and "\<And>u. f (hw u) = f u"
  shows "f w' = f w"
proof (rule gdma_wait.raw_induct [of "\<lambda>h c w w'. h = hw \<longrightarrow> f w' = f w", THEN mp, OF _ assms(1) refl])
  fix wait h c w w'
  assume IH: "\<And>h c w w'. wait h c w = Some w' \<Longrightarrow> h = hw \<longrightarrow> f w' = f w"
    and r: "(if gdma_get_dma_en c w \<noteq> 0 then wait h c (h w) else Some w) = Some w'"
  show "h = hw \<longrightarrow> f w' = f w"
    using IH [of h c "h w" w'] r assms(2) [of w] by (auto split: if_splits)
qed

text \<open>A channel is set up for copying memory when it does not repeat, both data widths have the same code \<open>k\<close>
  (\<open>2 ^ k\<close> bytes), both addresses increase and neither loops, as \<open>CMD_GDMA_CFG_TYPE0\<close> programs it, and both requests of
  its multiplexer are those of the memory (code 0). It is ready for a copy when it is also disabled.\<close>

definition gdma_plain :: "u32 \<Rightarrow> u32 \<Rightarrow> bool" where
  "gdma_plain k r \<longleftrightarrow> k \<le> 2 \<and> [field_get 3 1 r, field_get 4 3 r, field_get 6 3 r, field_get 8 1 r, field_get 9 1 r,
     field_get 10 1 r, field_get 11 1 r] = [0, k, k, 1, 1, 0, 0]"

definition gdma_ready :: "u32 \<Rightarrow> u32 \<Rightarrow> bk_world \<Rightarrow> bool" where
  "gdma_ready c k w \<longleftrightarrow> field_get 0 1 (w_read (conf_reg c) w) = 0 \<and> gdma_plain k (w_read (conf_reg c) w)
     \<and> field_get 0 0xf (w_read (mux_reg c) w) = 0 \<and> field_get 4 0xf (w_read (mux_reg c) w) = 0"

text \<open>Blocks of \<open>n\<close> bytes that a channel of width code \<open>k\<close> can copy: whole units, at aligned addresses of the 32-bit
  address space, that do not overlap.\<close>

definition copyable :: "u32 \<Rightarrow> u32 \<Rightarrow> u32 \<Rightarrow> nat \<Rightarrow> bool" where
  "copyable k dst src n \<longleftrightarrow> 2 ^ unat k dvd unat dst \<and> 2 ^ unat k dvd unat src \<and> 2 ^ unat k dvd n
     \<and> unat dst + n \<le> 2 ^ 32 \<and> unat src + n \<le> 2 ^ 32 \<and> disjoint_blocks (unat dst) n (unat src) n"

text \<open>What the driver relies on of the DMA engine (the header of the module: the memory copy is to be used on a
  configured channel): when a write of the configuration word enables a channel that was ready for copying, the
  channel stays enabled until the engine has copied as many bytes as the length field says (plus one) from the source
  to the destination address, where these can be copied; then the engine clears the enable bit, and nothing else of
  the channel's configuration and multiplexer.\<close>

definition dma_engine :: "(bk_world \<Rightarrow> bk_world) \<Rightarrow> u32 \<Rightarrow> bool" where
  "dma_engine hw c \<longleftrightarrow> (\<forall>u v k. let w = w_write (conf_reg c) v u; dst = w_read (gdma_bank 1 c) u; src = w_read (gdma_bank 2 c) u;
      len = unat (field_get 16 0xffff v) + 1 in
    gdma_ready c k u \<and> field_get 0 1 v = 1 \<and> gdma_plain k v \<and> copyable k dst src len \<longrightarrow>
    (\<exists>n. (\<forall>j<n. gdma_get_dma_en c ((hw ^^ j) w) \<noteq> 0) \<and> gdma_get_dma_en c ((hw ^^ n) w) = 0
       \<and> w_mem ((hw ^^ n) w) = os_memcpy (unat dst) (unat src) len (w_mem u)
       \<and> w_read (conf_reg c) ((hw ^^ n) w) = field_put 0 1 0 v
       \<and> w_read (mux_reg c) ((hw ^^ n) w) = w_read (mux_reg c) u))"

interpretation trans_len: bit_field 16 16 "0xffff"
  by unfold_locales (simp_all add: mask_eq_exp_minus_1)

interpretation len_and_enable: bit_field_pair 16 16 "0xffff" 0 1 "1"
  by unfold_locales (simp_all add: mask_eq_exp_minus_1)

lemma unat_len_field: "n \<noteq> 0 \<Longrightarrow> unat ((n - 1) AND (0xffff :: u32)) = (unat n - 1) mod 65536"
proof -
  assume "n \<noteq> 0"
  then have "unat (n - 1) = unat n - 1" by (metis unat_diff unat_1 word_le_nat_alt unat_gt_0 Suc_leI One_nat_def)
  moreover have "(n - 1) AND 0xffff = take_bit 16 (n - 1)"
    by (simp add: take_bit_eq_mask mask_eq_exp_minus_1)
  ultimately show ?thesis by (simp add: unsigned_take_bit_eq take_bit_nat_def)
qed

text \<open>Setting up a transfer on a ready channel keeps it ready; the last step is the write that enables it.\<close>

lemma gdma_start_regs:
  assumes "u = then_do [gdma_set_dst_start_addr c d, gdma_set_src_start_addr c sa, gdma_set_transfer_length c n] w"
    and "gdma_ready c k w"
  shows "gdma_ready c k u" "w_read (gdma_bank 1 c) u = d" "w_read (gdma_bank 2 c) u = sa"
    "field_get 16 0xffff (w_read (conf_reg c) u) = (n - 1) AND 0xffff" "w_mem u = w_mem w"
  unfolding assms(1)
  using assms(2) by (simp_all add: conf_eval trans_len.get_put gdma_ready_def gdma_plain_def)
    (simp add: reg_upd_def)

lemma gdma_enable_copies:
  assumes "dma_engine hw c" "n \<noteq> 0" "gdma_ready c k w" "copyable k d sa ((unat n - 1) mod 65536 + 1)"
  obtains w' where "gdma_enable hw \<lparr>do_channel = c, do_src_addr = sa, do_dst_addr = d, do_length = n\<rparr> w = Some (n, w')"
    and "w_mem w' = os_memcpy (unat d) (unat sa) ((unat n - 1) mod 65536 + 1) (w_mem w)" and "gdma_ready c k w'"
proof -
  define u where u: "u = then_do [gdma_set_dst_start_addr c d, gdma_set_src_start_addr c sa, gdma_set_transfer_length c n] w"
  note r = gdma_start_regs [OF u assms(3)]
  let ?v = "field_put 0 1 1 (w_read (conf_reg c) u)" and ?len = "(unat n - 1) mod 65536 + 1"
  let ?w1 = "w_write (conf_reg c) ?v u"
  have w1: "then_do [gdma_set_dst_start_addr c d, gdma_set_src_start_addr c sa, gdma_set_transfer_length c n, gdma_set_dma_en c 1] w
      = ?w1"
    by (simp add: u then_do_def gdma_set_dma_en_def flag_put_field reg_upd_def)
  have v: "field_get 0 1 ?v = 1" "gdma_plain k ?v" "unat (field_get 16 0xffff ?v) + 1 = ?len"
    using r(1) by (simp_all add: r(4) unat_len_field [OF assms(2)] field_simps_at gdma_ready_def gdma_plain_def
        len_and_enable.get_put_other)
  obtain j where j: "\<forall>i<j. gdma_get_dma_en c ((hw ^^ i) ?w1) \<noteq> 0" "gdma_get_dma_en c ((hw ^^ j) ?w1) = 0"
    "w_mem ((hw ^^ j) ?w1) = os_memcpy (unat d) (unat sa) ?len (w_mem u)"
    "w_read (conf_reg c) ((hw ^^ j) ?w1) = field_put 0 1 0 ?v" "w_read (mux_reg c) ((hw ^^ j) ?w1) = w_read (mux_reg c) u"
    using assms(1) [unfolded dma_engine_def Let_def, rule_format, of k u ?v] r(1) v assms(4) unfolding r(2,3) by auto
  have "gdma_wait hw c ?w1 = Some ((hw ^^ j) ?w1)" using j(1,2) by (intro gdma_wait_returns)
  moreover have "gdma_ready c k ((hw ^^ j) ?w1)"
    using v(2) r(1) by (simp add: gdma_ready_def j(4,5) gdma_plain_def field_simps_at)
  ultimately show ?thesis using j(3) assms(2) r(5)
    by (intro that [of "(hw ^^ j) ?w1"]) (simp_all add: gdma_enable_def Let_def w1)
qed

text \<open>The handler calls the service routine owes for a status word: for each channel in order, the
  half-finish handler (argument 0) and then the finish handler (argument 1), each followed by the
  acknowledgement of its bit.\<close>

definition gdma_isr_owed :: "u32 \<Rightarrow> u32 list \<Rightarrow> u32 list \<Rightarrow> nat \<Rightarrow> (u32 \<times> u32 \<times> nat) list" where
  "gdma_isr_owed status hf ff i =
    (if bit status (i + 8) \<and> hf ! i \<noteq> 0 then [(hf ! i, 0, i + 8)] else [])
    @ (if bit status i \<and> ff ! i \<noteq> 0 then [(ff ! i, 1, i)] else [])"

definition gdma_serve :: "(u32 \<Rightarrow> u32 \<Rightarrow> bk_world \<Rightarrow> bk_world) \<Rightarrow> u32 \<times> u32 \<times> nat \<Rightarrow> bk_world \<Rightarrow> bk_world" where
  "gdma_serve call e w = (case e of (h, arg, b) \<Rightarrow>
     w_write GENER_DMA_REG38_DMA_INT_STATUS (push_bit b 1) (call h arg w))"

definition keeps_handlers :: "(u32 \<Rightarrow> u32 \<Rightarrow> bk_world \<Rightarrow> bk_world) \<Rightarrow> bool" where
  "keeps_handlers call \<longleftrightarrow> (\<forall>h a w. p_dma_fin_handler (call h a w) = p_dma_fin_handler w
     \<and> p_dma_hfin_handler (call h a w) = p_dma_hfin_handler w)"

lemma status_bit: "s AND push_bit i 1 \<noteq> 0 \<longleftrightarrow> bit s i" for s :: u32
  by (simp add: push_bit_of_1 and_exp_eq_0_iff_not_bit)

lemma isr_channel_serves:
  assumes "keeps_handlers call"
  shows "gdma_isr_channel call s i w =
    fold (gdma_serve call) (gdma_isr_owed s (p_dma_hfin_handler w) (p_dma_fin_handler w) i) w"
  using assms
  by (simp add: gdma_isr_channel_def Let_def status_bit gdma_isr_owed_def gdma_serve_def keeps_handlers_def
      del: push_bit_of_1)

lemma serve_keeps:
  assumes "keeps_handlers call"
  shows "p_dma_fin_handler (fold (gdma_serve call) es w) = p_dma_fin_handler w"
    "p_dma_hfin_handler (fold (gdma_serve call) es w) = p_dma_hfin_handler w"
  using assms
  by (induction es arbitrary: w) (auto simp: gdma_serve_def keeps_handlers_def split: prod.splits)

lemma isr_serves:
  assumes "keeps_handlers call"
  shows "fold (gdma_isr_channel call s) is w = fold (gdma_serve call)
    (concat (map (gdma_isr_owed s (p_dma_hfin_handler w) (p_dma_fin_handler w)) is)) w"
  by (induction "is" arbitrary: w) (simp_all add: isr_channel_serves [OF assms] serve_keeps [OF assms])

section \<open>Properties\<close>

text \<open>The configuration types program the channel they are given: the channel is left
  disabled, the two data widths are encoded (8, 16, else 32 bits), the address increments and the
  loop bits are as the type and the arguments say, the priority is the low two bits of the
  argument, and the start and loop address registers hold the given addresses.\<close>

theorem gdma_config_programs_channel:
  assumes "c = t_channel cfg" and "c < GDMA_CHANNEL_MAX"
  shows "conf_fields (w_read (conf_reg c) (gdma_congfig_type0 cfg w)) =
      [0, 0, gdma_width_code (ucast (t_srcdat_width cfg)), gdma_width_code (ucast (t_dstdat_width cfg)),
       of_bool (t_srcptr_incr cfg \<noteq> 0), of_bool (t_dstptr_incr cfg \<noteq> 0), 0, 0, t_prio cfg AND 3]
    \<and> conf_fields (w_read (conf_reg c) (gdma_congfig_type1 cfg w)) =
      [0, 0, gdma_width_code (ucast (t_srcdat_width cfg)), gdma_width_code (ucast (t_dstdat_width cfg)),
       of_bool (t_srcptr_incr cfg \<noteq> 0), of_bool (t_dstptr_incr cfg \<noteq> 0), 1, 0, t_prio cfg AND 3]
    \<and> conf_fields (w_read (conf_reg c) (gdma_congfig_type2 cfg w)) =
      [0, 0, gdma_width_code (ucast (t_srcdat_width cfg)), gdma_width_code (ucast (t_dstdat_width cfg)),
       of_bool (t_srcptr_incr cfg \<noteq> 0), of_bool (t_dstptr_incr cfg \<noteq> 0), 0, 1, t_prio cfg AND 3]
    \<and> conf_fields (w_read (conf_reg c) (gdma_congfig_type3 cfg w)) =
      [0, 0, gdma_width_code (ucast (t_srcdat_width cfg)), gdma_width_code (ucast (t_dstdat_width cfg)),
       of_bool (t_srcptr_incr cfg \<noteq> 0), of_bool (t_dstptr_incr cfg \<noteq> 0), 1, 1, t_prio cfg AND 3]
    \<and> map (\<lambda>k. w_read (gdma_bank k c) (gdma_congfig_type3 cfg w)) [1, 2, 3, 4, 5, 6] =
      [t_dst_start_addr cfg, t_src_start_addr cfg, t_u3 cfg, t_u2 cfg, t_u1 cfg, t_u0 cfg]"
proof -
  have c: "\<not> GDMA_CHANNEL_MAX \<le> t_channel cfg" using assms by simp
  show ?thesis unfolding assms(1)
    by (intro conjI)
      (simp_all add: gdma_congfig_type0_def gdma_congfig_type1_def gdma_congfig_type2_def
        gdma_congfig_type3_def c conf_eval)
qed

definition gdma_ex_cfg :: gdmacfg_types where
  "gdma_ex_cfg = gdma_zero_types\<lparr>t_channel := 3, t_prio := 6, t_srcdat_width := 8, t_dstdat_width := 32,
     t_srcptr_incr := 1, t_u0 := 0x1000\<rparr>"

theorem gdma_config_programs_channel_witness:
  "conf_fields (w_read (conf_reg 3) (gdma_congfig_type3 gdma_ex_cfg icu_ex_w)) = [0, 0, 0, 2, 1, 0, 1, 1, 2]"
proof -
  have "(3 :: u32) = t_channel gdma_ex_cfg" "(3 :: u32) < GDMA_CHANNEL_MAX"
    by (simp_all add: gdma_ex_cfg_def GDMA_CHANNEL_MAX_def)
  from gdma_config_programs_channel [OF this, of icu_ex_w] show ?thesis
    by (simp add: gdma_ex_cfg_def gdma_zero_types_def gdma_width_code_def)
qed

text \<open>The peripheral types 4 (memory to module) and 5 (module to memory) set the repeat bit, fix
  the address on the module's side, loop on the memory's side, program both request lines, and
  enable the finish and half-finish interrupts exactly for the handlers that are given, which are
  installed at the channel's index.\<close>

theorem gdma_config_programs_peripheral:
  assumes "c = t_channel cfg" and "c < GDMA_CHANNEL_MAX" and "length (p_dma_fin_handler w) = 6"
  shows "conf_fields (w_read (conf_reg c) (gdma_congfig_type4 cfg w)) =
      [0, 1, gdma_width_code (ucast (t_srcdat_width cfg)), gdma_width_code (ucast (t_dstdat_width cfg)),
       of_bool (t_srcptr_incr cfg \<noteq> 0), 0, 1, 0, t_prio cfg AND 3]
    \<and> conf_fields (w_read (conf_reg c) (gdma_congfig_type5 cfg w)) =
      [0, 1, gdma_width_code (ucast (t_srcdat_width cfg)), gdma_width_code (ucast (t_dstdat_width cfg)),
       0, of_bool (t_dstptr_incr cfg \<noteq> 0), 0, 1, t_prio cfg AND 3]
    \<and> field_get 1 1 (w_read (conf_reg c) (gdma_congfig_type4 cfg w)) = of_bool (t_fin_handler cfg \<noteq> 0)
    \<and> field_get 2 1 (w_read (conf_reg c) (gdma_congfig_type4 cfg w)) = of_bool (t_half_fin_handler cfg \<noteq> 0)
    \<and> field_get 0 0xf (w_read (mux_reg c) (gdma_congfig_type4 cfg w)) = ucast (t_src_module cfg) AND 0xf
    \<and> field_get 4 0xf (w_read (mux_reg c) (gdma_congfig_type4 cfg w)) = ucast (t_dst_module cfg) AND 0xf
    \<and> (t_fin_handler cfg \<noteq> 0 \<longrightarrow> p_dma_fin_handler (gdma_congfig_type4 cfg w) ! unat c = t_fin_handler cfg)"
proof -
  have c: "\<not> GDMA_CHANNEL_MAX \<le> t_channel cfg" and n: "unat (t_channel cfg) < 6"
    using assms by (simp_all add: GDMA_CHANNEL_MAX_def word_less_nat_alt word_le_nat_alt)
  have upd: "p_dma_fin_handler (reg_upd a f w) = p_dma_fin_handler w" for a f w
    by (simp add: reg_upd_def)
  have h: "p_dma_fin_handler (gdma_set_handlers cfg v) ! unat (t_channel cfg) = t_fin_handler cfg"
    if "t_fin_handler cfg \<noteq> 0" "length (p_dma_fin_handler v) = 6" for v
    using that n by (simp add: gdma_set_handlers_def Let_def gdma_conf_prims upd)
  show ?thesis unfolding assms(1)
    by (intro conjI impI)
      (simp_all add: gdma_congfig_type4_def gdma_congfig_type5_def c conf_eval set_handlers_read Let_def
        h assms(3) upd)
qed

theorem gdma_config_programs_peripheral_witness:
  "conf_fields (w_read (conf_reg 3) (gdma_congfig_type4 gdma_ex_cfg icu_ex_w)) = [0, 1, 0, 2, 1, 0, 1, 0, 2]"
proof -
  have "(3 :: u32) = t_channel gdma_ex_cfg" "(3 :: u32) < GDMA_CHANNEL_MAX"
    "length (p_dma_fin_handler icu_ex_w) = 6"
    by (simp_all add: gdma_ex_cfg_def GDMA_CHANNEL_MAX_def icu_ex_w_def)
  from gdma_config_programs_peripheral [OF this] show ?thesis
    by (simp add: gdma_ex_cfg_def gdma_zero_types_def gdma_width_code_def)
qed

text \<open>C22: Control calls on one channel do not disturb another: whatever the command, a \<open>gdma_ctrl\<close> call whose argument
  (a configuration pair, a configuration type or a transfer) names channel \<open>c\<close>, or names none, leaves every register
  of every other channel as it was. For the command that starts a transfer and waits for its end this holds for the
  registers that the hardware does not change by itself meanwhile.\<close>

definition param_channel :: "dev_param \<Rightarrow> u32 option" where
  "param_channel p = (case pa_obj p of Obj_cfg g \<Rightarrow> Some (cfg_channel g) | Obj_types t \<Rightarrow> Some (t_channel t)
     | Obj_do d \<Rightarrow> Some (do_channel d) | _ \<Rightarrow> None)"

theorem gdma_ctrl_channel_isolation:
  assumes "gdma_ctrl hw cmd p w = Inr (r, w')" and "param_channel p \<in> {None, Some c}"
    and "c < GDMA_CHANNEL_MAX" and "d < GDMA_CHANNEL_MAX" and "c \<noteq> d" and "a \<in> gdma_regs d"
    and "cmd = CMD_GDMA_ENABLE \<Longrightarrow> \<forall>u. w_read a (hw u) = w_read a u"
  shows "w_read a w' = w_read a w"
proof -
  have cd: "unat c < 6" "unat d < 6"
    using assms(3,4) by (simp_all add: GDMA_CHANNEL_MAX_def word_less_nat_alt)
  have "a \<notin> gdma_regs c \<union> {GENER_DMA_REG37_PRIO_MODE, GENER_DMA_REG38_DMA_INT_STATUS}"
    using gdma_regs_disjoint [OF cd assms(5)] gdma_global_regs [OF cd(2)] assms(6) by auto
  then have o: "only_chan c f \<Longrightarrow> w_read a (f w) = w_read a w" for f
    by (simp add: only_chan_def)
  note prims = gdma_prims_only_chan [where c = c, THEN o]
  show ?thesis
  proof (cases "pa_obj p")
    case (Obj_cfg g)
    then have "pa_obj p = Obj_cfg \<lparr>cfg_param = cfg_param g, cfg_channel = c\<rparr>" using assms(2) by (simp add: param_channel_def)
    then show ?thesis using assms(1) unfolding gdma_ctrl_def Let_def
      by (auto simp: bind_res_Inr param_cfg_def param_types_def param_do_def split: if_splits intro: prims)
  next
    case (Obj_types t)
    then have c: "t_channel t = c" using assms(2) by (simp add: param_channel_def)
    have "w_read a (f t w) = w_read a w" if "only_chan (t_channel t) (f t)" for f :: "gdmacfg_types \<Rightarrow> bk_world \<Rightarrow> bk_world"
      using that c o [of "f t"] by simp
    with Obj_types show ?thesis using assms(1) unfolding gdma_ctrl_def Let_def
      by (auto simp: bind_res_Inr param_cfg_def param_types_def param_do_def split: if_splits intro!: gdma_types_only_chan)
  next
    case (Obj_do t)
    then have c: "do_channel t = c" using assms(2) by (simp add: param_channel_def)
    have "w_read a v = w_read a w" if "gdma_enable hw t w = Some (n, v)" "\<forall>u. w_read a (hw u) = w_read a u" for n v
    proof (cases "do_length t = 0")
      case False
      let ?w1 = "then_do [gdma_set_dst_start_addr c (do_dst_addr t), gdma_set_src_start_addr c (do_src_addr t),
        gdma_set_transfer_length c (do_length t), gdma_set_dma_en c 1] w"
      from that(1) False have "gdma_wait hw c ?w1 = Some v" by (auto simp: gdma_enable_def Let_def c)
      then have "w_read a v = w_read a ?w1" by (rule gdma_wait_keeps) (use that(2) in simp)
      also have "\<dots> = w_read a w" by (rule o, rule only_chan_seq) (simp add: gdma_prims_only_chan)
      finally show ?thesis .
    qed (use that(1) in \<open>simp add: gdma_enable_def\<close>)
    with Obj_do show ?thesis using assms(1,7) unfolding gdma_ctrl_def Let_def
      by (auto simp: bind_res_Inr param_cfg_def param_types_def param_do_def split: if_splits option.splits)
  qed (use assms(1) in \<open>auto simp: gdma_ctrl_def Let_def bind_res_Inr param_cfg_def param_types_def param_do_def split: if_splits\<close>)
qed

text \<open>A copy on channel 2 on an engine that finishes at once leaves channel 4 alone.\<close>

definition done_hw :: "u32 \<Rightarrow> bk_world \<Rightarrow> bk_world" where
  "done_hw c = reg_upd (conf_reg c) (field_put 0 1 0)"

theorem gdma_ctrl_channel_isolation_witness:
  "\<exists>w'. gdma_ctrl (done_hw 2) CMD_GDMA_ENABLE
      (param_of (Obj_do \<lparr>do_channel = 2, do_src_addr = 0x1000, do_dst_addr = 0x2000, do_length = 64\<rparr>)) icu_ex_w = Inr (0, w')
    \<and> w_read (gdma_bank 1 2) w' = 0x2000 \<and> w_read (conf_reg 4) w' = 0"
proof -
  let ?do = "\<lparr>do_channel = 2, do_src_addr = 0x1000, do_dst_addr = 0x2000, do_length = 64\<rparr>"
  let ?p = "param_of (Obj_do ?do)"
  have n: "conf_reg 4 \<noteq> conf_reg 2" by (simp add: gdma_bank_def)
  let ?w1 = "then_do [gdma_set_dst_start_addr 2 0x2000, gdma_set_src_start_addr 2 0x1000,
        gdma_set_transfer_length 2 64, gdma_set_dma_en 2 1] icu_ex_w"
  have f: "gdma_get_dma_en 2 v = field_get 0 1 (w_read (conf_reg 2) v)" for v
    by (simp add: gdma_get_dma_en_def field_get_def)
  have "gdma_get_dma_en 2 ?w1 \<noteq> 0" "gdma_get_dma_en 2 (done_hw 2 ?w1) = 0"
    by (simp_all add: f conf_eval done_hw_def)
  then have wt: "gdma_wait (done_hw 2) 2 ?w1 = Some (done_hw 2 ?w1)"
    using gdma_wait_returns [of 1 2 "done_hw 2" ?w1] by simp
  then have e: "gdma_ctrl (done_hw 2) CMD_GDMA_ENABLE ?p icu_ex_w = Inr (0, done_hw 2 ?w1)"
    by (simp add: gdma_ctrl_def gdma_enable_def Let_def param_do_def param_of_def local_addr_def)
  have "w_read (conf_reg 4) (done_hw 2 ?w1) = w_read (conf_reg 4) icu_ex_w"
    by (rule gdma_ctrl_channel_isolation [OF e, where c = 2 and d = 4])
      (use n in \<open>simp_all add: param_channel_def param_of_def GDMA_CHANNEL_MAX_def done_hw_def reg_simps\<close>)
  also have "\<dots> = 0" by (simp add: w_read_def REG_READ_def icu_ex_w_def gdma_bank_def GENER_DMA_BASE_def icu_regs)
  moreover have "w_read (gdma_bank 1 2) (done_hw 2 ?w1) = 0x2000" by (simp add: conf_eval done_hw_def)
  ultimately show ?thesis using e by auto
qed

text \<open>C21: On a channel 0 that is set up for copying memory, as \<open>gdma_init\<close> leaves it, and on a DMA engine that carries
  out such transfers, \<open>gdma_memcpy\<close> returns and has copied \<open>n\<close> bytes for \<open>0 < n \<le> 65536\<close>; the 16-bit length field
  truncates larger requests to \<open>(n - 1) mod 65536 + 1\<close> bytes, and a request for no bytes touches nothing. The blocks are
  aligned to the data width and do not overlap; afterwards the channel is ready for the next copy.\<close>

theorem gdma_memcpy_copies:
  assumes "dma_engine hw 0" "gdma_ready 0 k w" "len = (if n = 0 then 0 else (unat n - 1) mod 65536 + 1)" "copyable k out inp len"
  shows "\<exists>w'. gdma_memcpy hw out inp n w = Some (out, w') \<and> gdma_ready 0 k w'
    \<and> w_mem w' = os_memcpy (unat out) (unat inp) len (w_mem w) \<and> (unat n \<le> 65536 \<longrightarrow> len = unat n)"
proof (cases "n = 0")
  case True
  then show ?thesis using assms(2,3) by (simp add: gdma_memcpy_def gdma_enable_def os_memcpy_def)
next
  case False
  with assms(3) have len: "len = (unat n - 1) mod 65536 + 1" by simp
  have "(unat n - 1) mod 65536 + 1 = unat n" if "unat n \<le> 65536"
    using that False by (simp add: unat_gt_0 Suc_leI)
  with gdma_enable_copies [OF assms(1) False assms(2) assms(4) [unfolded len]] show ?thesis
    unfolding len gdma_memcpy_def by (metis (no_types, lifting) case_prod_conv option.simps(9))
qed

text \<open>\<open>gdma_init\<close> sets channel 0 up so, when the memory requests are selected (the reset value of the multiplexer).\<close>

lemma gdma_init_ready:
  assumes "w_read (mux_reg 0) w = 0"
  shows "gdma_ready 0 2 (gdma_init_world w)"
proof -
  define w0 where "w0 = gdma_flush (w\<lparr>p_dma_fin_handler := replicate 6 0, p_dma_hfin_handler := replicate 6 0\<rparr>)"
  define cfg where "cfg = gdma_zero_types\<lparr>t_dstdat_width := 32, t_srcdat_width := 32, t_dstptr_incr := 1, t_srcptr_incr := 1, t_prio := 1\<rparr>"
  define w1 where "w1 = gdma_congfig_type0 cfg w0"
  have z: "w_read (mux_reg 0) w0 = 0"
    using assms by (simp add: w0_def gdma_flush_def Let_def then_do_def gdma_set_dma_en_def reg_simps gdma_bank_def
        GENER_DMA_REG38_DMA_INT_STATUS_def GENER_DMA_BASE_def) (simp add: w_read_def)
  have r: "gdma_ready 0 2 w1"
    by (simp add: w1_def gdma_ready_def gdma_plain_def gdma_congfig_type0_def cfg_def gdma_zero_types_def
        GDMA_CHANNEL_MAX_def conf_eval gdma_width_code_def z)
  have keep: "w_read a (f v) = w_read a v"
    if "a \<in> {conf_reg 0, mux_reg 0}" "only_chan c f" "c = 1 \<or> c = 2 \<or> c = 3 \<or> c = 4 \<or> c = 5" for a f c v
  proof -
    have c: "unat c < 6" "c \<noteq> 0" "a \<in> gdma_regs 0" using that by auto
    then show ?thesis using that(2) gdma_regs_disjoint [of 0 c] gdma_global_regs [of 0] unfolding only_chan_def by fastforce
  qed
  have prio: "only_chan 1 (gdma_set_priority v)" for v by (rule gdma_prims_only_chan)
  have "w_read a (gdma_init_world w) = w_read a w1" if "a \<in> {conf_reg 0, mux_reg 0}" for a
    unfolding gdma_init_world_def Let_def
    by (simp add: keep [OF that prio] keep [OF that gdma_types_only_chan(2)] keep [OF that gdma_types_only_chan(3)]
        keep [OF that gdma_types_only_chan(4)]) (simp add: w1_def w0_def cfg_def gdma_zero_types_def)
  with r show ?thesis by (simp add: gdma_ready_def)
qed

definition dma_ex_hw :: "bk_world \<Rightarrow> bk_world" where
  "dma_ex_hw w = (w_write (conf_reg 0) (field_put 0 1 0 (w_read (conf_reg 0) w)) w)
     \<lparr>w_mem := os_memcpy (unat (w_read (gdma_bank 1 0) w)) (unat (w_read (gdma_bank 2 0) w))
        (unat (field_get 16 0xffff (w_read (conf_reg 0) w)) + 1) (w_mem w)\<rparr>"

lemma dma_ex_engine: "dma_engine dma_ex_hw 0"
proof -
  have en: "gdma_get_dma_en 0 v = field_get 0 1 (w_read (conf_reg 0) v)" for v
    by (simp add: gdma_get_dma_en_def field_get_def)
  have rd: "w_read a (dma_ex_hw v) = (if a = conf_reg 0 then field_put 0 1 0 (w_read (conf_reg 0) v) else w_read a v)" for a v
    by (simp add: dma_ex_hw_def w_read_def w_write_def reg_simps)
  have m: "w_mem (dma_ex_hw (w_write (conf_reg 0) v u)) = os_memcpy (unat (w_read (gdma_bank 1 0) u))
      (unat (w_read (gdma_bank 2 0) u)) (unat (field_get 16 0xffff v) + 1) (w_mem u)" for u v
    by (simp add: dma_ex_hw_def reg_simps)
  show ?thesis unfolding dma_engine_def Let_def
    by (intro allI impI exI [of _ 1]) (simp add: en rd m reg_simps field_simps_at)
qed

theorem gdma_memcpy_copies_witness:
  "\<exists>w'. gdma_memcpy dma_ex_hw 0x2000 0x1000 8 (gdma_init_world (icu_ex_w\<lparr>w_reg := (\<lambda>_. 0)\<rparr>)) = Some (0x2000, w')
    \<and> w_mem w' = os_memcpy 0x2000 0x1000 8 (w_mem (gdma_init_world (icu_ex_w\<lparr>w_reg := (\<lambda>_. 0)\<rparr>)))"
proof -
  let ?w = "gdma_init_world (icu_ex_w\<lparr>w_reg := (\<lambda>_. 0)\<rparr>)"
  have r: "gdma_ready 0 2 ?w" by (rule gdma_init_ready) (simp add: w_read_def REG_READ_def)
  have c: "copyable 2 0x2000 0x1000 8" by (simp add: copyable_def disjoint_blocks_def)
  show ?thesis using gdma_memcpy_copies [OF dma_ex_engine r _ c, of 8] by auto
qed

text \<open>C29: The interrupt service routine serves every channel: for handlers that leave the handler
  tables alone it calls exactly the handlers owed for the status word it read, channel by channel,
  half-finish before finish, and acknowledges each bit after its handler; status bits without a
  handler are neither served nor acknowledged.\<close>

theorem gdma_isr_serves_all:
  assumes "keeps_handlers call"
  shows "gdma_isr call w = fold (gdma_serve call)
    (concat (map (gdma_isr_owed (w_read GENER_DMA_REG38_DMA_INT_STATUS w)
       (p_dma_hfin_handler w) (p_dma_fin_handler w)) [0..<6])) w"
  unfolding gdma_isr_def by (rule isr_serves [OF assms])

theorem gdma_isr_serves_all_witness:
  "gdma_isr (\<lambda>h a w. w_write h a w) (icu_ex_w\<lparr>w_reg := (\<lambda>_. 0x0204), p_dma_fin_handler := [0, 0, 0x50, 0, 0, 0],
      p_dma_hfin_handler := [0, 0x60, 0, 0, 0, 0]\<rparr>)
    = fold (gdma_serve (\<lambda>h a w. w_write h a w)) [(0x60, 0, 9), (0x50, 1, 2)]
        (icu_ex_w\<lparr>w_reg := (\<lambda>_. 0x0204), p_dma_fin_handler := [0, 0, 0x50, 0, 0, 0],
           p_dma_hfin_handler := [0, 0x60, 0, 0, 0, 0]\<rparr>)" (is "gdma_isr ?c ?w = _")
proof -
  have k: "keeps_handlers ?c" by (simp add: keeps_handlers_def)
  have "concat (map (gdma_isr_owed (w_read GENER_DMA_REG38_DMA_INT_STATUS ?w) (p_dma_hfin_handler ?w)
      (p_dma_fin_handler ?w)) [0..<6]) = [(0x60, 0, 9), (0x50, 1, 2)]"
    by (simp add: gdma_isr_owed_def w_read_def REG_READ_def upt_rec bit_numeral_simps)
  then show ?thesis using gdma_isr_serves_all [OF k, of ?w] by simp
qed

text \<open>The command that should read a channel's destination pause address reads its source pause
  address: what was set with \<open>CMD_GDMA_SET_DST_PAUSE_ADDR\<close> is not what
  \<open>CMD_GDMA_GET_DST_PAUSE_ADDR\<close> returns. And the remaining length of channel 0 cannot be asked
  for, since the channel number passed in place of the pointer is then null.\<close>

theorem gdma_ctrl_wrong_answers:
  "bind_res (gdma_ctrl hw CMD_GDMA_SET_DST_PAUSE_ADDR (param_of (Obj_cfg \<lparr>cfg_param = v, cfg_channel = c\<rparr>)) w)
     (\<lambda>(_, w1). gdma_ctrl hw CMD_GDMA_GET_DST_PAUSE_ADDR (param_of (Obj_cfg \<lparr>cfg_param = 0, cfg_channel = c\<rparr>)) w1)
   = Inr (gdma_get_src_pause_addr c w, gdma_set_dest_pause_addr c v w)
   \<and> gdma_ctrl hw CMD_GDMA_GET_LEFT_LEN \<lparr>pa_addr = 0, pa_obj = No_obj\<rparr> w = Inl Assert_failed"
  by (simp add: gdma_ctrl_def Let_def gdma_get_src_pause_addr_def gdma_set_dest_pause_addr_def reg_simps
      gdma_word_def)

end
