(* ===== verification/Ring_Dma.thy ===== *)
theory Ring_Dma
  imports Ring_Buffer General_Dma
begin

text \<open>
  The ring buffers that share one end with a DMA channel: \<^verbatim>\<open>ring_buffer_dma_read.c\<close> (the driver
  writes, the channel reads) and \<^verbatim>\<open>ring_buffer_dma_write.c\<close> (the channel writes, the driver reads)
  of \<^verbatim>\<open>beken378/driver/audio\<close>. The struct extends \<open>rb_st\<close> by the channel; the pointer of the channel's
  end is read from the DMA registers through the \<open>generaldma\<close> device, and after every transfer the
  driver tells the channel where to pause. The copying between caller and ring is statement for
  statement that of \<open>rb_write\<close> and \<open>rb_read\<close> and is shared with them.

  The properties show that the pause addresses keep the channel inside the data: what the channel
  may read are exactly the bytes written and not yet read, and the channel that writes is stopped
  four bytes before the first unread byte.
\<close>

section \<open>The operations\<close>

record rb_dma_st = rb_st +
  dma_ch :: u32

text \<open>A control call on the buffer's channel.\<close>

definition gdma_cmd :: "u32 \<Rightarrow> u32 \<Rightarrow> rb_dma_st \<Rightarrow> bk_drv \<Rightarrow> bk_world \<Rightarrow> (u32 \<times> bk_world) result" where
  "gdma_cmd cmd v rb st w = sddev_control (Some GDMA_DEV_NAME) cmd
     (param_of (Obj_cfg \<lparr>cfg_param = v, cfg_channel = dma_ch rb\<rparr>)) st w"

definition rb_init_dma_read ::
  "rb_dma_st \<Rightarrow> u32 \<Rightarrow> u32 \<Rightarrow> u32 \<Rightarrow> bk_drv \<Rightarrow> bk_world \<Rightarrow> (rb_dma_st \<times> bk_world) result" where
  "rb_init_dma_read rb addr cap ch st w =
    (let rb = (rb_init rb addr cap)\<lparr>dma_ch := ch\<rparr> in
     bind_res (gdma_cmd CMD_GDMA_SET_SRC_PAUSE_ADDR (rb_address rb) rb st w) (\<lambda>(_, w).
     bind_res (gdma_cmd CMD_GDMA_SET_DMA_ENABLE 1 rb st w) (\<lambda>(_, w).
     bind_res (gdma_cmd CMD_GDMA_SET_DMA_ENABLE 0 rb st w) (\<lambda>(_, w).
       Inr (rb, w)))))"

definition rb_clear_dma_read :: "rb_dma_st \<Rightarrow> rb_dma_st" where
  "rb_clear_dma_read rb = rb_clear rb"

text \<open>\<open>rp\<close> from the channel: \<open>rp = sddev_control(...); rp -= address; rb->rp = rp\<close>.\<close>

definition rb_sync_rp :: "rb_dma_st \<Rightarrow> bk_drv \<Rightarrow> bk_world \<Rightarrow> (rb_dma_st \<times> bk_world) result" where
  "rb_sync_rp rb st w = bind_res (gdma_cmd CMD_GDMA_GET_SRC_READ_ADDR 0 rb st w) (\<lambda>(rp, w).
     Inr (rb\<lparr>rb_rp := rp - rb_address rb\<rparr>, w))"

definition rb_write_dma_read ::
  "rb_dma_st \<Rightarrow> u32 \<Rightarrow> u32 \<Rightarrow> u32 \<Rightarrow> bk_drv \<Rightarrow> bk_world \<Rightarrow> (u32 \<times> rb_dma_st \<times> bk_world) result" where
  "rb_write_dma_read rb buffer sz count st w =
    (if sz * count = 0 then Inr (0, rb, w)
     else bind_res (rb_sync_rp rb st w) (\<lambda>(rb, w).
       let (ret, rb, m) = rb_write rb buffer sz count (w_mem w) in
       if ret = 0 then Inr (0, rb, w)
       else bind_res (gdma_cmd CMD_GDMA_SET_SRC_PAUSE_ADDR (rb_address rb + rb_wp rb) rb st (w\<lparr>w_mem := m\<rparr>))
         (\<lambda>(_, w). Inr (ret, rb, w))))"

definition rb_get_fill_size_dma_read ::
  "rb_dma_st \<Rightarrow> bk_drv \<Rightarrow> bk_world \<Rightarrow> (u32 \<times> rb_dma_st \<times> bk_world) result" where
  "rb_get_fill_size_dma_read rb st w =
    bind_res (rb_sync_rp rb st w) (\<lambda>(rb, w). Inr (rb_get_fill_size rb, rb, w))"

definition rb_get_free_size_dma_read ::
  "rb_dma_st \<Rightarrow> bk_drv \<Rightarrow> bk_world \<Rightarrow> (u32 \<times> rb_dma_st \<times> bk_world) result" where
  "rb_get_free_size_dma_read rb st w =
    bind_res (rb_sync_rp rb st w) (\<lambda>(rb, w). Inr (rb_get_free_size rb, rb, w))"

definition rb_init_dma_write ::
  "rb_dma_st \<Rightarrow> u32 \<Rightarrow> u32 \<Rightarrow> u32 \<Rightarrow> bk_drv \<Rightarrow> bk_world \<Rightarrow> (rb_dma_st \<times> bk_world) result" where
  "rb_init_dma_write rb addr cap ch st w =
    (let rb = (rb_init rb addr cap)\<lparr>dma_ch := ch\<rparr> in
     bind_res (gdma_cmd CMD_GDMA_SET_DST_PAUSE_ADDR
         (rb_address rb + rb_capacity rb - RWP_SAFE_INTERVAL) rb st w) (\<lambda>(_, w). Inr (rb, w)))"

definition rb_clear_dma_write :: "rb_dma_st \<Rightarrow> bk_drv \<Rightarrow> bk_world \<Rightarrow> (rb_dma_st \<times> bk_world) result" where
  "rb_clear_dma_write rb st w =
    (let rb = rb_clear rb in
     bind_res (gdma_cmd CMD_GDMA_SET_DST_PAUSE_ADDR
         (rb_address rb + rb_capacity rb - RWP_SAFE_INTERVAL) rb st w) (\<lambda>(_, w). Inr (rb, w)))"

definition rb_sync_wp :: "rb_dma_st \<Rightarrow> bk_drv \<Rightarrow> bk_world \<Rightarrow> (rb_dma_st \<times> bk_world) result" where
  "rb_sync_wp rb st w = bind_res (gdma_cmd CMD_GDMA_GET_DST_WRITE_ADDR 0 rb st w) (\<lambda>(wp, w).
     Inr (rb\<lparr>rb_wp := wp - rb_address rb\<rparr>, w))"

text \<open>Where the writing channel has to pause: the safe interval before the read pointer.\<close>

definition rb_dst_pause :: "rb_dma_st \<Rightarrow> u32" where
  "rb_dst_pause rb =
    (if rb_rp rb \<ge> RWP_SAFE_INTERVAL then rb_address rb + rb_rp rb - RWP_SAFE_INTERVAL
     else rb_address rb + rb_capacity rb + rb_rp rb - RWP_SAFE_INTERVAL)"

definition rb_read_dma_write ::
  "rb_dma_st \<Rightarrow> u32 \<Rightarrow> u32 \<Rightarrow> u32 \<Rightarrow> bk_drv \<Rightarrow> bk_world \<Rightarrow> (u32 \<times> rb_dma_st \<times> bk_world) result" where
  "rb_read_dma_write rb buffer sz count st w =
    (if sz * count = 0 then Inr (0, rb, w)
     else bind_res (rb_sync_wp rb st w) (\<lambda>(rb, w).
       let (ret, rb, m) = rb_read rb buffer sz count (w_mem w) in
       bind_res (gdma_cmd CMD_GDMA_SET_DST_PAUSE_ADDR (rb_dst_pause rb) rb st (w\<lparr>w_mem := m\<rparr>))
         (\<lambda>(_, w). Inr (ret, rb, w))))"

definition rb_get_fill_size_dma_write ::
  "rb_dma_st \<Rightarrow> bk_drv \<Rightarrow> bk_world \<Rightarrow> (u32 \<times> rb_dma_st \<times> bk_world) result" where
  "rb_get_fill_size_dma_write rb st w =
    bind_res (rb_sync_wp rb st w) (\<lambda>(rb, w). Inr (rb_get_fill_size rb, rb, w))"

definition rb_get_free_size_dma_write ::
  "rb_dma_st \<Rightarrow> bk_drv \<Rightarrow> bk_world \<Rightarrow> (u32 \<times> rb_dma_st \<times> bk_world) result" where
  "rb_get_free_size_dma_write rb st w =
    bind_res (rb_sync_wp rb st w) (\<lambda>(rb, w). Inr (rb_get_free_size rb, rb, w))"

section \<open>The device behind the buffer\<close>

lemma gdma_op_control: "sdd_control (gdma_op hw) = Some (gdma_ctrl hw)"
  by (simp add: gdma_op_def)

lemma sddev_gdma:
  "sdd_bound GDMA_DEV_NAME (gdma_op hw) st \<Longrightarrow>
    sddev_control (Some GDMA_DEV_NAME) cmd p st w = gdma_ctrl hw cmd p w"
  using gdma_op_control by (rule sddev_control_bound [rotated])

text \<open>The channel's own registers, as the commands used here read and write them.\<close>

lemma gdma_cmd_evals:
  assumes "sdd_bound GDMA_DEV_NAME (gdma_op hw) st"
  shows "gdma_cmd CMD_GDMA_SET_SRC_PAUSE_ADDR v rb st w = Inr (0, w_write (gdma_word 0x40 (dma_ch rb)) v w)"
    and "gdma_cmd CMD_GDMA_SET_DST_PAUSE_ADDR v rb st w = Inr (0, w_write (gdma_word 0x48 (dma_ch rb)) v w)"
    and "gdma_cmd CMD_GDMA_GET_SRC_READ_ADDR v rb st w = Inr (w_read (gdma_word 0x50 (dma_ch rb)) w, w)"
    and "gdma_cmd CMD_GDMA_GET_DST_WRITE_ADDR v rb st w = Inr (w_read (gdma_word 0x58 (dma_ch rb)) w, w)"
  by (simp_all add: gdma_cmd_def sddev_gdma [OF assms] gdma_ctrl_def Let_def gdma_set_src_pause_addr_def
      gdma_set_dest_pause_addr_def gdma_get_src_read_addr_def gdma_get_dest_write_addr_def)

lemma w_read_mem [simp]: "w_read a (w\<lparr>w_mem := m\<rparr>) = w_read a w"
  by (simp add: w_read_def)

section \<open>Properties\<close>

text \<open>C30: A write to a buffer whose reader is a DMA channel (device bound, channel address inside
  the ring, caller's buffer apart from it) either refuses with memory unchanged, or appends the
  caller's bytes to those the channel has still to read and moves the channel's pause address to
  the new end of the data.\<close>

theorem rb_write_dma_read_appends:
  assumes "sdd_bound GDMA_DEV_NAME (gdma_op hw) st"
    and "rp = w_read (gdma_word 0x50 (dma_ch rb)) w - rb_address rb"
    and "rp \<le> rb_capacity rb" and "rb_wp rb \<le> rb_capacity rb"
    and "n = unat sz * unat count" and "n + 4 < 4294967296" and "rb_apart rb (unat buffer) n"
  shows "\<exists>ret rb' w'. rb_write_dma_read rb buffer sz count st w = Inr (ret, rb', w')
    \<and> unat ret = (if n \<le> unat (rb_get_free_size (rb\<lparr>rb_rp := rp\<rparr>)) then n else 0)
    \<and> (ret \<noteq> 0 \<longrightarrow> rb_rp rb' = rp \<and> rb_inv rb'
        \<and> rb_contents rb' (w_mem w') = rb_contents (rb\<lparr>rb_rp := rp\<rparr>) (w_mem w) @ mread (w_mem w) (unat buffer) n
        \<and> w_read (gdma_word 0x40 (dma_ch rb)) w' = rb_address rb + rb_wp rb')
    \<and> (ret = 0 \<longrightarrow> w' = w)"
proof -
  let ?rb = "rb\<lparr>rb_rp := rp\<rparr>"
  obtain ret rb' m' where res: "rb_write ?rb buffer sz count (w_mem w) = (ret, rb', m')"
    by (metis prod_cases3)
  have inv: "rb_inv ?rb" and sep: "rb_apart ?rb (unat buffer) n"
    using assms(3,4,7) by (simp_all add: rb_inv_def rb_apart_def)
  note sp = rb_write_spec [OF inv assms(5,6) sep res]
  show ?thesis
  proof (cases "sz * count = 0")
    case True
    then have "n = 0" using assms(5,6) u32_mult_eq_0 [of sz count] by simp
    then show ?thesis using True by (simp add: rb_write_dma_read_def)
  next
    case False
    have ch: "dma_ch rb' = dma_ch rb"
      using res by (auto simp: rb_write_def Let_def rb_wp_rewind_def split: if_splits)
    have "rb_write_dma_read rb buffer sz count st w = Inr (if ret = 0 then (0, rb', w) else
        (ret, rb', w_write (gdma_word 0x40 (dma_ch rb')) (rb_address rb' + rb_wp rb') (w\<lparr>w_mem := m'\<rparr>)))"
      using False
      by (simp add: rb_write_dma_read_def rb_sync_rp_def gdma_cmd_evals [OF assms(1)] assms(2) [symmetric] res)
    then show ?thesis using sp ch
      by (cases "ret = 0") (auto simp: reg_simps unat_eq_zero split: if_splits)
  qed
qed

definition gdma_ex_drv :: bk_drv where
  "gdma_ex_drv = \<lparr>drv_dev_tbl = replicate 10 no_dev, drv_sdev_tbl = \<lparr>dev_name = Some ''generaldma'',
     use_cnt = 0, dev_state = DD_STATE_CLOSED, dev_op = Some (gdma_op id)\<rparr> # replicate 15 no_dev\<rparr>"

lemma gdma_ex_bound: "sdd_bound GDMA_DEV_NAME (gdma_op id) gdma_ex_drv"
  unfolding sdd_bound_def
  by (rule exI [of _ 0]) (simp add: dd_first_def gdma_ex_drv_def GDMA_DEV_NAME_def DD_MAX_SDEV_def)

definition rbd_ex :: rb_dma_st where
  "rbd_ex = \<lparr>rb_address = 0x1000, rb_capacity = 16, rb_wp = 6, rb_rp = 0, dma_ch = 4\<rparr>"

definition rbd_ex_w :: bk_world where
  "rbd_ex_w = icu_ex_w\<lparr>w_reg := (\<lambda>_. 0x1004)\<rparr>"

lemma rbd_ex_regs: "w_read a rbd_ex_w = 0x1004"
  by (simp add: rbd_ex_w_def w_read_def REG_READ_def)

theorem rb_write_dma_read_appends_witness:
  "\<exists>ret rb' w'. rb_write_dma_read rbd_ex 0x2000 1 3 gdma_ex_drv rbd_ex_w = Inr (ret, rb', w')
    \<and> unat ret = 3 \<and> w_read (gdma_word 0x40 4) w' = 0x1000 + rb_wp rb'"
proof -
  have pre: "4 = w_read (gdma_word 0x50 (dma_ch rbd_ex)) rbd_ex_w - rb_address rbd_ex"
    "4 \<le> rb_capacity rbd_ex" "rb_wp rbd_ex \<le> rb_capacity rbd_ex"
    "(3 :: nat) = unat (1 :: u32) * unat (3 :: u32)" "(3 :: nat) + 4 < 4294967296"
    "rb_apart rbd_ex (unat (0x2000 :: u32)) 3"
    by (simp_all add: rbd_ex_regs) (simp_all add: rbd_ex_def rb_apart_def disjoint_blocks_def)
  have free: "unat (rb_get_free_size (rbd_ex\<lparr>rb_rp := 4\<rparr>)) = 10"
    by (simp add: rbd_ex_def rb_get_free_size_def RWP_SAFE_INTERVAL_def)
  obtain ret rb' w' where "rb_write_dma_read rbd_ex 0x2000 1 3 gdma_ex_drv rbd_ex_w = Inr (ret, rb', w')"
    and "unat ret = 3" and "ret \<noteq> 0 \<longrightarrow> w_read (gdma_word 0x40 (dma_ch rbd_ex)) w' = rb_address rbd_ex + rb_wp rb'"
    using rb_write_dma_read_appends [OF gdma_ex_bound pre] free by auto
  moreover from this(2) have "ret \<noteq> 0" by auto
  ultimately show ?thesis by (auto simp: rbd_ex_def)
qed

text \<open>A read from a buffer whose writer is a DMA channel takes the bytes from the read pointer
  to where the channel has got to: it delivers the first \<open>min n fill\<close> of them in order to the
  caller only, and sets the channel's destination pause address to four bytes before the first byte
  still unread, so that adding the safe interval to the pause offset gives the new read pointer
  modulo the capacity.\<close>

theorem rb_read_dma_write_delivers:
  assumes "sdd_bound GDMA_DEV_NAME (gdma_op hw) st"
    and "wp = w_read (gdma_word 0x58 (dma_ch rb)) w - rb_address rb"
    and "wp \<le> rb_capacity rb" and "rb_rp rb \<le> rb_capacity rb" and "4 \<le> rb_capacity rb"
    and "n = unat sz * unat count" and "0 < n" and "n < 4294967296" and "rb_apart rb (unat buffer) n"
  shows "\<exists>ret rb' w'. rb_read_dma_write rb buffer sz count st w = Inr (ret, rb', w')
    \<and> unat ret = min n (unat (rb_get_fill_size (rb\<lparr>rb_wp := wp\<rparr>)))
    \<and> w_mem w' = mwrite (w_mem w) (unat buffer) (take (unat ret) (rb_contents (rb\<lparr>rb_wp := wp\<rparr>) (w_mem w)))
    \<and> rb_contents rb' (w_mem w') = drop (unat ret) (rb_contents (rb\<lparr>rb_wp := wp\<rparr>) (w_mem w))
    \<and> rb_inv rb'
    \<and> (\<exists>off. w_read (gdma_word 0x48 (dma_ch rb)) w' = rb_address rb + off \<and> unat off < unat (rb_capacity rb)
          \<and> (unat off + 4) mod unat (rb_capacity rb) = unat (rb_rp rb') mod unat (rb_capacity rb))"
proof -
  let ?rb = "rb\<lparr>rb_wp := wp\<rparr>"
  obtain ret rb' m' where res: "rb_read ?rb buffer sz count (w_mem w) = (ret, rb', m')"
    by (metis prod_cases3)
  have inv: "rb_inv ?rb" and sep: "rb_apart ?rb (unat buffer) n"
    using assms(3,4,9) by (simp_all add: rb_inv_def rb_apart_def)
  note sp = rb_read_spec [OF inv assms(6,8) sep res]
  have ne: "sz * count \<noteq> 0" using assms(6-8) u32_mult_eq_0 [of sz count] by simp
  have ch: "dma_ch rb' = dma_ch rb"
    using res by (auto simp: rb_read_def Let_def split: if_splits)
  let ?w' = "w_write (gdma_word 0x48 (dma_ch rb')) (rb_dst_pause rb') (w\<lparr>w_mem := m'\<rparr>)"
  have ev: "rb_read_dma_write rb buffer sz count st w = Inr (ret, rb', ?w')"
    using ne
    by (simp add: rb_read_dma_write_def rb_sync_wp_def gdma_cmd_evals [OF assms(1)] assms(2) [symmetric] res)
  define off where "off = (if rb_rp rb' \<ge> 4 then rb_rp rb' - 4 else rb_capacity rb + rb_rp rb' - 4)"
  have pause: "rb_dst_pause rb' = rb_address rb + off"
    using sp(5,6) by (simp add: rb_dst_pause_def off_def RWP_SAFE_INTERVAL_def)
  have rp: "unat (rb_rp rb') \<le> unat (rb_capacity rb)"
    using sp(2,6) by (simp add: rb_inv_def word_le_nat_alt)
  have off: "unat off = (if 4 \<le> unat (rb_rp rb') then unat (rb_rp rb') - 4
      else unat (rb_capacity rb) + unat (rb_rp rb') - 4)"
  proof -
    have eq: "rb_capacity rb + rb_rp rb' - 4 = (rb_capacity rb - 4) + rb_rp rb'" by simp
    have "unat (rb_capacity rb + rb_rp rb' - 4) = unat (rb_capacity rb) - 4 + unat (rb_rp rb')"
      if "unat (rb_rp rb') < 4"
      unfolding eq
      using that assms(5) unat_add_le [of "rb_capacity rb - 4" "rb_rp rb'" "rb_capacity rb"]
      by (simp add: word_le_nat_alt)
    then show ?thesis using assms(5) by (auto simp: off_def word_le_nat_alt)
  qed
  have c: "rb_contents rb' m' = drop (unat ret) (rb_contents ?rb (w_mem w))"
    by (subst sp(3)) simp
  have "(unat off + 4) mod unat (rb_capacity rb) = unat (rb_rp rb') mod unat (rb_capacity rb)"
    and "unat off < unat (rb_capacity rb)"
    using assms(5) rp by (auto simp: off word_le_nat_alt)
  then have "\<exists>off. w_read (gdma_word 0x48 (dma_ch rb)) ?w' = rb_address rb + off \<and> unat off < unat (rb_capacity rb)
          \<and> (unat off + 4) mod unat (rb_capacity rb) = unat (rb_rp rb') mod unat (rb_capacity rb)"
    using pause ch by (auto simp: reg_simps)
  then show ?thesis
    using ev sp(1,2,4) c rb_contents_length [OF inv]
    by (intro exI [of _ ret] exI [of _ rb'] exI [of _ ?w']) simp
qed

theorem rb_read_dma_write_delivers_witness:
  "\<exists>ret rb' w'. rb_read_dma_write rbd_ex 0x2000 1 3 gdma_ex_drv rbd_ex_w = Inr (ret, rb', w')
    \<and> unat ret = 3 \<and> (\<exists>off. w_read (gdma_word 0x48 4) w' = 0x1000 + off
        \<and> (unat off + 4) mod 16 = unat (rb_rp rb') mod 16)"
proof -
  have pre: "4 = w_read (gdma_word 0x58 (dma_ch rbd_ex)) rbd_ex_w - rb_address rbd_ex"
    "4 \<le> rb_capacity rbd_ex" "rb_rp rbd_ex \<le> rb_capacity rbd_ex" "4 \<le> rb_capacity rbd_ex"
    "(3 :: nat) = unat (1 :: u32) * unat (3 :: u32)" "0 < (3 :: nat)" "(3 :: nat) < 4294967296"
    "rb_apart rbd_ex (unat (0x2000 :: u32)) 3"
    by (simp_all add: rbd_ex_regs) (simp_all add: rbd_ex_def rb_apart_def disjoint_blocks_def)
  have fill: "unat (rb_get_fill_size (rbd_ex\<lparr>rb_wp := 4\<rparr>)) = 4"
    and ex: "dma_ch rbd_ex = 4" "rb_address rbd_ex = 0x1000" "unat (rb_capacity rbd_ex) = 16"
    by (simp_all add: rbd_ex_def rb_get_fill_size_def)
  obtain ret rb' w' where "rb_read_dma_write rbd_ex 0x2000 1 3 gdma_ex_drv rbd_ex_w = Inr (ret, rb', w')"
    "unat ret = min 3 (unat (rb_get_fill_size (rbd_ex\<lparr>rb_wp := 4\<rparr>)))"
    "\<exists>off. w_read (gdma_word 0x48 (dma_ch rbd_ex)) w' = rb_address rbd_ex + off
          \<and> (unat off + 4) mod unat (rb_capacity rbd_ex) = unat (rb_rp rb') mod unat (rb_capacity rbd_ex)"
    using rb_read_dma_write_delivers [OF gdma_ex_bound pre] by blast
  then show ?thesis unfolding fill ex by auto
qed

end
