(* ===== verification/Singly_Chain.thy ===== *)
theory Singly_Chain
  imports Bk_Prelude
begin

text \<open>
  Null terminated chains of \<open>next\<close> pointers, the shape of the button list of
  \<^verbatim>\<open>beken378/func/key/multi_button.c\<close> and of the lists of
  \<^verbatim>\<open>beken378/driver/ble/ble_pub/modules/common/src/common_list.c\<close>. An address is a natural number, \<open>NULL\<close> is 0.
  \<open>chain nx p xs\<close> says that from \<open>p\<close> the field \<open>nx\<close> runs over exactly the nodes \<open>xs\<close> to \<open>NULL\<close>; such
  a chain has no cycle. The lemmas give the effect of storing into one \<open>next\<close> field; the interface
  \<open>linked_nodes\<close> (interpreted as \<open>ch\<close>) gives a loop over a chain its meaning.
\<close>

abbreviation NULL :: nat where "NULL \<equiv> 0"

primrec chain :: "(nat \<Rightarrow> nat) \<Rightarrow> nat \<Rightarrow> nat list \<Rightarrow> bool" where
  "chain nx p [] \<longleftrightarrow> p = NULL"
| "chain nx p (x # xs) \<longleftrightarrow> p = x \<and> x \<noteq> NULL \<and> chain nx (nx x) xs"

lemma chain_head: "chain nx p xs \<Longrightarrow> p = hd (xs @ [NULL])"
  by (cases xs) auto

lemma chain_NULL_notin: "chain nx p xs \<Longrightarrow> NULL \<notin> set xs"
  by (induction xs arbitrary: p) auto

lemma chain_empty_iff: "chain nx p xs \<Longrightarrow> p = NULL \<longleftrightarrow> xs = []"
  by (cases xs) auto

lemma chain_append:
  "chain nx p (xs @ ys) \<longleftrightarrow>
    (\<exists>q. chain nx q ys \<and> (if xs = [] then p = q else
       p = hd xs \<and> NULL \<notin> set xs \<and> (\<forall>i. Suc i < length xs \<longrightarrow> nx (xs ! i) = xs ! Suc i) \<and> nx (last xs) = q))"
proof (induction xs arbitrary: p)
  case (Cons x xs)
  have split: "(\<forall>i. Suc i < length (x # xs) \<longrightarrow> nx ((x # xs) ! i) = (x # xs) ! Suc i) \<longleftrightarrow>
      (xs \<noteq> [] \<longrightarrow> nx x = hd xs) \<and> (\<forall>i. Suc i < length xs \<longrightarrow> nx (xs ! i) = xs ! Suc i)"
    by (cases xs) (auto simp: less_Suc_eq_0_disj nth_Cons split: nat.split)
  show ?case using Cons.IH [of "nx x"] unfolding split by auto
qed simp

lemma chain_suffix: "chain nx p (xs @ ys) \<Longrightarrow> \<exists>q. chain nx q ys"
  using chain_append by blast

lemma chain_next: "chain nx p (xs @ y # ys) \<Longrightarrow> nx y = hd (ys @ [NULL])"
  using chain_suffix [of nx p xs "y # ys"] chain_head by auto

text \<open>The nodes of a chain are determined by its first, so a chain never meets a node twice.\<close>

lemma chain_unique: "\<lbrakk>chain nx p xs; chain nx p ys\<rbrakk> \<Longrightarrow> xs = ys"
proof (induction xs arbitrary: p ys)
  case Nil
  then show ?case by (cases ys) auto
next
  case (Cons x xs)
  then show ?case by (cases ys) auto
qed

lemma chain_distinct: "chain nx p xs \<Longrightarrow> distinct xs"
proof (induction xs arbitrary: p)
  case (Cons x xs)
  have "x \<notin> set xs"
  proof
    assume "x \<in> set xs"
    then obtain us vs where xs: "xs = us @ x # vs" by (meson split_list)
    then have "chain nx x (x # vs)"
      using Cons.prems chain_suffix [of nx "nx x" us "x # vs"] by auto
    with Cons.prems have "x # xs = x # vs" by (auto intro: chain_unique)
    with xs show False by simp
  qed
  with Cons show ?case by auto
qed simp

lemma chain_frame: "\<forall>x\<in>set xs. nx' x = nx x \<Longrightarrow> chain nx' p xs = chain nx p xs"
  by (induction xs arbitrary: p) auto

lemma chain_upd_outside [simp]: "a \<notin> set xs \<Longrightarrow> chain (nx(a := v)) p xs = chain nx p xs"
  by (rule chain_frame) auto

text \<open>Storing a pointer to another chain into the \<open>next\<close> field of a node cuts the chain there and
  continues it with the other.\<close>

lemma chain_store:
  assumes "chain nx p (xs @ y # ys)" and "chain nx q zs" and "y \<notin> set zs"
  shows "chain (nx(y := q)) p (xs @ y # zs)"
  using assms
proof (induction xs arbitrary: p)
  case (Cons x xs)
  have "x \<noteq> y" using chain_distinct [OF Cons.prems(1)] by auto
  with Cons show ?case by auto
qed auto

lemma chain_cut:
  assumes c: "chain nx p (xs @ y # ys @ zs)" and q: "q = hd (zs @ [NULL])"
  shows "chain (nx(y := q)) p (xs @ y # zs)"
proof -
  have "\<exists>r. chain nx r zs" using c chain_suffix [of nx p "xs @ y # ys" zs] by simp
  then have "chain nx q zs" using q chain_head by metis
  moreover have "y \<notin> set zs" using chain_distinct [OF c] by auto
  ultimately show ?thesis by (rule chain_store [OF c])
qed

interpretation ch: linked_nodes "\<lambda>l xs. chain (snd l) (fst l) xs" fst snd NULL
  by unfold_locales (auto dest: chain_head chain_next chain_NULL_notin)

lemma chain_loop:
  "chain nx p xs \<Longrightarrow> for_each_node nx NULL body p acc = Some (fold_until body xs acc)"
  using ch.loop_is_fold [of "(p, nx)" xs body acc] by simp

text \<open>A loop that stops at the first node with a property, remembering its predecessor.\<close>

lemma fold_until_hit:
  "\<lbrakk>\<forall>c\<in>set us. \<not> P c; P c\<rbrakk> \<Longrightarrow>
    fold_until (\<lambda>c prev. if P c then Inl (prev, c) else Inr c) (us @ c # vs) prev = Inl (last (prev # us), c)"
  by (induction us arbitrary: prev) auto

lemma fold_until_miss:
  "\<forall>c\<in>set xs. \<not> P c \<Longrightarrow>
    fold_until (\<lambda>c prev. if P c then Inl (prev, c) else Inr c) xs prev = Inr (last (prev # xs))"
  by (induction xs arbitrary: prev) auto

end
