(* ===== verification/Common_List.thy ===== *)
theory Common_List
  imports Singly_Chain
begin

text \<open>
  The singly linked lists of the BLE host,
  \<^verbatim>\<open>beken378/driver/ble/ble_pub/modules/common/src/common_list.c\<close>: a list is the record
  \<open>common_list\<close> of its first and last element, the elements are linked through one heap of
  \<open>next\<close> fields which all lists share. The configuration is the one of \<open>rwip_config.h\<close>: \<open>CFG_DBG\<close> is not
  defined, so the assertions are empty and the profiling counters do not exist. A function that
  dereferences a null pointer ends in \<open>Null_deref\<close>; one that searches a list returns an option,
  \<open>None\<close> when the search never ends.

  \<open>clist l nx xs\<close> says that \<open>l\<close> is the list of the elements \<open>xs\<close>. Every operation refines its list
  operation; over any sequence of operations on any number of lists the heap of lists refines a
  map from lists to sequences of elements (interpretation \<open>cls\<close> of the interface \<open>simulation\<close>).
\<close>

section \<open>The operations\<close>

type_synonym nexts = "nat \<Rightarrow> nat"

record common_list =
  cl_first :: nat
  cl_last :: nat

definition load_next :: "nat \<Rightarrow> nexts \<Rightarrow> nat result" where
  "load_next p nx = (if p = NULL then Inl Null_deref else Inr (nx p))"

definition store_next :: "nat \<Rightarrow> nat \<Rightarrow> nexts \<Rightarrow> nexts result" where
  "store_next p v nx = (if p = NULL then Inl Null_deref else Inr (nx(p := v)))"

definition common_list_init :: common_list where
  "common_list_init = \<lparr>cl_first = NULL, cl_last = NULL\<rparr>"

definition common_list_is_empty :: "common_list \<Rightarrow> bool" where
  "common_list_is_empty l \<longleftrightarrow> cl_first l = NULL"

definition common_list_pick :: "common_list \<Rightarrow> nat" where
  "common_list_pick l = cl_first l"

definition common_list_next :: "nat \<Rightarrow> nexts \<Rightarrow> nat result" where
  "common_list_next hdr nx = load_next hdr nx"

definition common_list_push_back :: "common_list \<Rightarrow> nat \<Rightarrow> nexts \<Rightarrow> (common_list \<times> nexts) result" where
  "common_list_push_back l hdr nx =
    bind_res
      (if common_list_is_empty l then Inr (l\<lparr>cl_first := hdr\<rparr>, nx)
       else bind_res (store_next (cl_last l) hdr nx) (\<lambda>nx. Inr (l, nx)))
      (\<lambda>(l, nx). bind_res (store_next hdr NULL nx) (\<lambda>nx. Inr (l\<lparr>cl_last := hdr\<rparr>, nx)))"

definition common_list_push_front :: "common_list \<Rightarrow> nat \<Rightarrow> nexts \<Rightarrow> (common_list \<times> nexts) result" where
  "common_list_push_front l hdr nx =
    (let l = (if common_list_is_empty l then l\<lparr>cl_last := hdr\<rparr> else l)
     in bind_res (store_next hdr (cl_first l) nx) (\<lambda>nx. Inr (l\<lparr>cl_first := hdr\<rparr>, nx)))"

definition common_list_pop_front :: "common_list \<Rightarrow> nexts \<Rightarrow> nat \<times> common_list" where
  "common_list_pop_front l nx =
    (let element = cl_first l
     in if element \<noteq> NULL then
          (let l = l\<lparr>cl_first := nx element\<rparr>
           in (element, if cl_first l = NULL then l\<lparr>cl_last := cl_first l\<rparr> else l))
        else (element, l))"

text \<open>The search loop with the predecessor of the current element, and the jump over following
  elements.\<close>

definition find_with_prev :: "common_list \<Rightarrow> nat \<Rightarrow> nexts \<Rightarrow> ((nat \<times> nat) + nat) option" where
  "find_with_prev l hdr nx =
    for_each_node nx NULL (\<lambda>cur prev. if cur = hdr then Inl (prev, cur) else Inr cur) (cl_first l) NULL"

primrec jump_next :: "nat \<Rightarrow> nexts \<Rightarrow> nat \<Rightarrow> nat result" where
  "jump_next 0 nx p = Inr p"
| "jump_next (Suc i) nx p = bind_res (load_next p nx) (jump_next i nx)"

definition common_list_extract ::
  "common_list \<Rightarrow> nat \<Rightarrow> u8 \<Rightarrow> nexts \<Rightarrow> (bool \<times> common_list \<times> nexts) result option" where
  "common_list_extract l hdr nb_following nx =
    (case find_with_prev l hdr nx of
       None \<Rightarrow> None
     | Some (Inr _) \<Rightarrow> Some (Inr (False, l, nx))
     | Some (Inl (prev, cur)) \<Rightarrow> Some (
         bind_res (jump_next (unat nb_following) nx cur) (\<lambda>lst.
         bind_res (load_next lst nx) (\<lambda>after.
         bind_res (if prev = NULL then Inr (l\<lparr>cl_first := after\<rparr>, nx)
                   else bind_res (store_next prev after nx) (\<lambda>nx. Inr (l, nx))) (\<lambda>(l, nx).
         Inr (True, if lst = cl_last l then l\<lparr>cl_last := prev\<rparr> else l, nx))))))"

definition common_list_extract_after ::
  "common_list \<Rightarrow> nat \<Rightarrow> nat \<Rightarrow> nexts \<Rightarrow> (common_list \<times> nexts) result" where
  "common_list_extract_after l elt_ref elt_rem nx =
    bind_res
      (if elt_ref = NULL
       then bind_res (load_next (cl_first l) nx) (\<lambda>n. Inr (l\<lparr>cl_first := n\<rparr>, nx))
       else bind_res (load_next elt_rem nx) (\<lambda>n.
            bind_res (store_next elt_ref n nx) (\<lambda>nx. Inr (l, nx))))
      (\<lambda>(l, nx). Inr (if elt_rem = cl_last l then l\<lparr>cl_last := elt_ref\<rparr> else l, nx))"

definition common_list_find :: "common_list \<Rightarrow> nat \<Rightarrow> nexts \<Rightarrow> bool option" where
  "common_list_find l hdr nx =
    map_option (\<lambda>r. case r of Inl tmp \<Rightarrow> tmp = hdr | Inr _ \<Rightarrow> NULL = hdr)
      (for_each_node nx NULL (\<lambda>tmp _. if tmp = hdr then Inl tmp else Inr ()) (cl_first l) ())"

definition common_list_merge ::
  "common_list \<Rightarrow> common_list \<Rightarrow> nexts \<Rightarrow> (common_list \<times> common_list \<times> nexts) result" where
  "common_list_merge l1 l2 nx =
    bind_res
      (if common_list_is_empty l1 then Inr (l1\<lparr>cl_first := cl_first l2, cl_last := cl_last l2\<rparr>, nx)
       else bind_res (store_next (cl_last l1) (cl_first l2) nx) (\<lambda>nx.
            Inr (l1\<lparr>cl_last := cl_last l2\<rparr>, nx)))
      (\<lambda>(l1, nx). Inr (l1, l2\<lparr>cl_first := NULL\<rparr>, nx))"

definition common_list_insert_before ::
  "common_list \<Rightarrow> nat \<Rightarrow> nat \<Rightarrow> nexts \<Rightarrow> (common_list \<times> nexts) result option" where
  "common_list_insert_before l elt_ref elt_add nx =
    (if elt_ref = NULL then Some (common_list_push_front l elt_add nx)
     else (case find_with_prev l elt_ref nx of
             None \<Rightarrow> None
           | Some r \<Rightarrow>
               (let (prev, cur) = (case r of Inl (prev, cur) \<Rightarrow> (prev, cur) | Inr prev \<Rightarrow> (prev, NULL))
                in Some (if prev = NULL then common_list_push_front l elt_add nx
                         else bind_res (store_next prev elt_add nx) (\<lambda>nx.
                              bind_res (store_next elt_add cur nx) (\<lambda>nx. Inr (l, nx)))))))"

definition common_list_insert_after ::
  "common_list \<Rightarrow> nat \<Rightarrow> nat \<Rightarrow> nexts \<Rightarrow> (common_list \<times> nexts) result option" where
  "common_list_insert_after l elt_ref elt_add nx =
    (if elt_ref = NULL then Some (common_list_push_back l elt_add nx)
     else (case for_each_node nx NULL (\<lambda>tmp _. if tmp = elt_ref then Inl tmp else Inr ()) (cl_first l) () of
             None \<Rightarrow> None
           | Some (Inr _) \<Rightarrow> Some (common_list_push_back l elt_add nx)
           | Some (Inl cur) \<Rightarrow> Some (
               bind_res (load_next cur nx) (\<lambda>n.
               let l = (if n = NULL then l\<lparr>cl_last := elt_add\<rparr> else l)
               in bind_res (store_next elt_add n nx) (\<lambda>nx.
                  bind_res (store_next cur elt_add nx) (\<lambda>nx. Inr (l, nx)))))))"

definition common_list_size :: "common_list \<Rightarrow> nexts \<Rightarrow> u16 option" where
  "common_list_size l nx =
    map_option projr (for_each_node nx NULL (\<lambda>tmp count. Inr (count + 1) :: unit + u16) (cl_first l) 0)"

definition common_list_check_size_available :: "common_list \<Rightarrow> u8 \<Rightarrow> nexts \<Rightarrow> bool option" where
  "common_list_check_size_available l free_size_needed nx =
    map_option (\<lambda>r. case r of Inl b \<Rightarrow> b | Inr _ \<Rightarrow> False)
      (for_each_node nx NULL
        (\<lambda>tmp count. if count + 1 = ucast free_size_needed then Inl True else Inr (count + 1 :: u16))
        (cl_first l) 0)"

text \<open>The pool loop. Copying the default value over an element overwrites its \<open>next\<close> field too; the
  argument \<open>default_next\<close> is that field of the default value, \<open>None\<close> when there is no default value. The rest of an
  element is not seen by the list. The last element of a list of another type than
  \<open>POOL_LINKED_LIST\<close> is linked by a second copy of the code of \<open>common_list_push_back\<close>.\<close>

abbreviation POOL_LINKED_LIST :: u8 where "POOL_LINKED_LIST \<equiv> 0"

function pool_loop ::
  "nat \<Rightarrow> nat \<Rightarrow> common_list \<Rightarrow> nat \<Rightarrow> nat \<Rightarrow> nat option \<Rightarrow> u8 \<Rightarrow> nexts \<Rightarrow> (common_list \<times> nexts) result" where
  "pool_loop i elmt_cnt l pool elmt_size default_next list_type nx =
    (if i < elmt_cnt then
       (let nx = (case default_next of None \<Rightarrow> nx | Some d \<Rightarrow> nx(pool := d))
        in bind_res
             (if i = elmt_cnt - 1 \<and> list_type \<noteq> POOL_LINKED_LIST then
                bind_res
                  (if common_list_is_empty l then Inr (l\<lparr>cl_first := pool\<rparr>, nx)
                   else bind_res (store_next (cl_last l) pool nx) (\<lambda>nx. Inr (l, nx)))
                  (\<lambda>(l, nx). bind_res (store_next pool NULL nx) (\<lambda>nx. Inr (l\<lparr>cl_last := pool\<rparr>, nx)))
              else common_list_push_back l pool nx)
             (\<lambda>(l, nx). pool_loop (i + 1) elmt_cnt l (pool + elmt_size) elmt_size default_next list_type nx))
     else Inr (l, nx))"
  by pat_completeness auto
termination by (relation "measure (\<lambda>(i, n, _). n - i)") auto

declare pool_loop.simps [simp del]

definition common_list_pool_init ::
  "nat \<Rightarrow> nat \<Rightarrow> nat \<Rightarrow> nat option \<Rightarrow> u8 \<Rightarrow> nexts \<Rightarrow> (common_list \<times> nexts) result" where
  "common_list_pool_init pool elmt_size elmt_cnt default_next list_type nx =
    pool_loop 0 elmt_cnt common_list_init pool elmt_size default_next list_type nx"

section \<open>Lists of elements\<close>

definition clist :: "common_list \<Rightarrow> nexts \<Rightarrow> nat list \<Rightarrow> bool" where
  "clist l nx xs \<longleftrightarrow> chain nx (cl_first l) xs \<and> (xs \<noteq> [] \<longrightarrow> cl_last l = last xs)"

text \<open>What an operation may change: the \<open>next\<close> fields of the elements \<open>A\<close>.\<close>

definition only_next :: "nat set \<Rightarrow> nexts \<Rightarrow> nexts \<Rightarrow> bool" where
  "only_next A nx nx' \<longleftrightarrow> (\<forall>p. p \<notin> A \<longrightarrow> nx' p = nx p)"

lemma clist_frame: "\<lbrakk>clist l nx ys; only_next A nx nx'; set ys \<inter> A = {}\<rbrakk> \<Longrightarrow> clist l nx' ys"
  unfolding clist_def only_next_def by (subst chain_frame [of _ nx' nx]) auto

lemma only_next_refl [simp]: "only_next A nx nx"
  by (simp add: only_next_def)

lemma only_next_upd [simp]: "only_next A nx (nx(p := v)) \<longleftrightarrow> p \<in> A \<or> nx p = v"
  by (auto simp: only_next_def)

lemma clist_distinct: "clist l nx xs \<Longrightarrow> distinct xs \<and> NULL \<notin> set xs"
  using chain_distinct chain_NULL_notin by (auto simp: clist_def)

lemma clist_empty: "clist l nx xs \<Longrightarrow> common_list_is_empty l \<longleftrightarrow> xs = []"
  using chain_empty_iff by (auto simp: clist_def common_list_is_empty_def)

lemma clist_init: "clist common_list_init nx []"
  by (simp add: clist_def common_list_init_def)

section \<open>Each operation on one list\<close>

text \<open>Appending at the end: store into the last element, then close the chain.\<close>

lemma chain_snoc:
  assumes "chain nx p xs" and "xs \<noteq> []" and "e \<noteq> NULL" and "e \<notin> set xs"
  shows "chain (nx(last xs := e, e := NULL)) p (xs @ [e])"
proof -
  have xs: "xs = butlast xs @ last xs # []" using assms(2) by simp
  have "chain (nx(e := NULL)) p (butlast xs @ last xs # [])" using assms xs by (metis chain_upd_outside)
  moreover have "chain (nx(e := NULL)) e [e]" using assms by simp
  ultimately have "chain (nx(e := NULL, last xs := e)) p (butlast xs @ last xs # [e])"
    using assms last_in_set [of xs] by (intro chain_store [where ys = "[]"]) auto
  moreover have "nx(e := NULL, last xs := e) = nx(last xs := e, e := NULL)"
    using assms last_in_set [of xs] by (intro fun_upd_twist) auto
  moreover have "butlast xs @ last xs # [e] = xs @ [e]" using assms(2) by (simp flip: append_assoc)
  ultimately show ?thesis by metis
qed

lemma push_back_ok:
  assumes "clist l nx xs" and "e \<noteq> NULL" and "e \<notin> set xs"
  shows "\<exists>l' nx'. common_list_push_back l e nx = Inr (l', nx') \<and> clist l' nx' (xs @ [e])
    \<and> only_next (insert e (set xs)) nx nx'"
proof (cases "xs = []")
  case True
  then show ?thesis using assms
    by (auto simp: common_list_push_back_def common_list_is_empty_def clist_def store_next_def)
next
  case False
  then have "last xs \<in> set xs" by simp
  moreover have "NULL \<notin> set xs" using clist_distinct assms(1) by blast
  ultimately have "last xs \<noteq> NULL" by metis
  then show ?thesis using False assms chain_snoc [of nx "cl_first l" xs e] clist_empty [OF assms(1)]
    by (auto simp: common_list_push_back_def clist_def store_next_def only_next_def)
qed

lemma push_front_ok:
  assumes "clist l nx xs" and "e \<noteq> NULL" and "e \<notin> set xs"
  shows "\<exists>l' nx'. common_list_push_front l e nx = Inr (l', nx') \<and> clist l' nx' (e # xs)
    \<and> only_next (insert e (set xs)) nx nx'"
  using assms clist_empty [OF assms(1)]
  by (auto simp: common_list_push_front_def clist_def store_next_def Let_def common_list_is_empty_def)

lemma pop_front_ok:
  assumes "clist l nx xs"
  shows "fst (common_list_pop_front l nx) = hd (xs @ [NULL])
    \<and> clist (snd (common_list_pop_front l nx)) nx (tl xs)"
proof (cases xs)
  case (Cons x ys)
  then show ?thesis using assms chain_empty_iff [of nx "nx x" ys]
    by (auto simp: common_list_pop_front_def clist_def Let_def)
qed (use assms in \<open>simp add: common_list_pop_front_def clist_def\<close>)

text \<open>The two searches on a list.\<close>

lemma clist_loop:
  "clist l nx xs \<Longrightarrow> for_each_node nx NULL body (cl_first l) acc = Some (fold_until body xs acc)"
  by (simp add: clist_def chain_loop)

lemma find_with_prev_hit:
  assumes "clist l nx (us @ h # vs)"
  shows "find_with_prev l h nx = Some (Inl (last (NULL # us), h))"
  unfolding find_with_prev_def clist_loop [OF assms]
  using clist_distinct [OF assms] by (subst fold_until_hit [where P = "\<lambda>c. c = h"]) auto

lemma find_with_prev_miss:
  assumes "clist l nx xs" and "h \<notin> set xs"
  shows "find_with_prev l h nx = Some (Inr (last (NULL # xs)))"
  unfolding find_with_prev_def clist_loop [OF assms(1)]
  using assms(2) by (subst fold_until_miss [where P = "\<lambda>c. c = h"]) auto

lemma fold_search:
  "fold_until (\<lambda>tmp _. if tmp = h then Inl tmp else Inr ()) xs () = (if h \<in> set xs then Inl h else Inr ())"
  by (induction xs) auto

lemma find_ok:
  assumes "clist l nx xs"
  shows "common_list_find l h nx = Some (h \<in> set xs \<or> h = NULL)"
  unfolding common_list_find_def clist_loop [OF assms] fold_search by simp

lemma fold_count: "fold_until (\<lambda>tmp count. Inr (count + 1) :: unit + u16) xs n = Inr (n + of_nat (length xs))"
  by (induction xs arbitrary: n) (auto simp: add.assoc)

lemma size_ok: "clist l nx xs \<Longrightarrow> common_list_size l nx = Some (of_nat (length xs))"
  by (simp add: common_list_size_def clist_loop fold_count)

text \<open>Extraction: the jump over the following elements ends at the last one to remove, or faults when
  there are not that many.\<close>

lemma jump_next_within:
  "\<lbrakk>chain nx p (x # vs); n \<le> length vs\<rbrakk> \<Longrightarrow> jump_next n nx p = Inr ((x # vs) ! n)"
proof (induction n arbitrary: p x vs)
  case (Suc n)
  then obtain y ys where "vs = y # ys" by (cases vs) auto
  then show ?case using Suc by (auto simp: load_next_def)
qed simp

lemma jump_next_beyond:
  "\<lbrakk>chain nx p vs; length vs \<le> n\<rbrakk> \<Longrightarrow> bind_res (jump_next n nx p) (\<lambda>q. load_next q nx) = Inl Null_deref"
proof (induction n arbitrary: p vs)
  case (Suc n)
  show ?case
  proof (cases vs)
    case (Cons x xs)
    then show ?thesis using Suc by (auto simp: load_next_def)
  qed (use Suc in \<open>simp add: load_next_def\<close>)
qed (simp add: load_next_def)

lemma clist_remove:
  assumes c: "clist l nx (us @ ws @ zs)" and ws: "ws \<noteq> []" and p: "p = last (NULL # us)"
    and nx': "nx' = (if p = NULL then nx else nx(p := nx (last ws)))"
    and l': "l' = (if p = NULL then l\<lparr>cl_first := nx (last ws)\<rparr> else l)"
    and l'': "l'' = (if last ws = cl_last l then l'\<lparr>cl_last := p\<rparr> else l')"
  shows "clist l'' nx' (us @ zs) \<and> only_next (set (us @ ws @ zs)) nx nx'"
proof -
  obtain ws' w where w: "ws = ws' @ [w]" using ws by (metis append_butlast_last_id)
  have d: "distinct (us @ ws @ zs)" "NULL \<notin> set (us @ ws @ zs)" using clist_distinct [OF c] by auto
  have nw: "nx (last ws) = hd (zs @ [NULL])"
    using c chain_next [of nx "cl_first l" "us @ ws'" w zs] w by (simp add: clist_def)
  have "last ws \<noteq> last zs" if "zs \<noteq> []"
    using that d last_in_set [OF ws] last_in_set [of zs] by auto
  then have lst: "last ws = cl_last l \<longleftrightarrow> zs = []" using c ws by (cases "zs = []") (auto simp: clist_def)
  show ?thesis
  proof (cases "us = []")
    case True
    have "\<exists>q. chain nx q zs" using c chain_suffix [of nx "cl_first l" "us @ ws" zs] by (simp add: clist_def)
    then have "chain nx (nx (last ws)) zs" using nw chain_head by metis
    then show ?thesis using True p nx' l' l'' lst c ws nw by (cases zs) (simp_all add: clist_def)
  next
    case False
    then obtain us' u where u: "us = us' @ [u]" by (metis append_butlast_last_id)
    then have pu: "p = u" "u \<noteq> NULL" "u \<notin> set zs" using p d by auto
    have "chain (nx(u := nx (last ws))) (cl_first l) (us' @ u # zs)"
      using c u nw by (intro chain_cut [where ys = ws]) (auto simp: clist_def)
    then show ?thesis using False u pu nx' l' l'' lst c d by (auto simp: clist_def)
  qed
qed

text \<open>The specification of extraction on the sequence of elements.\<close>

definition extract_spec :: "nat \<Rightarrow> nat \<Rightarrow> nat list \<Rightarrow> (bool \<times> nat list) result" where
  "extract_spec h n xs =
    (if h \<in> set xs then
       (let us = takeWhile (\<lambda>x. x \<noteq> h) xs; vs = tl (dropWhile (\<lambda>x. x \<noteq> h) xs)
        in if n \<le> length vs then Inr (True, us @ drop n vs) else Inl Null_deref)
     else Inr (False, xs))"

lemma split_at:
  assumes "h \<in> set xs"
  shows "xs = takeWhile (\<lambda>x. x \<noteq> h) xs @ h # tl (dropWhile (\<lambda>x. x \<noteq> h) xs)"
proof -
  have "dropWhile (\<lambda>x. x \<noteq> h) xs \<noteq> []" using assms by (simp add: dropWhile_eq_Nil_conv)
  moreover from this have "hd (dropWhile (\<lambda>x. x \<noteq> h) xs) = h" by (metis (mono_tags) hd_dropWhile)
  ultimately show ?thesis by (metis list.collapse takeWhile_dropWhile_id)
qed

lemma extract_ok:
  assumes c: "clist l nx xs"
  shows "rel_option (rel_sum (=) (\<lambda>(b, l', nx') (b', xs').
      b = b' \<and> clist l' nx' xs' \<and> only_next (set xs) nx nx' \<and> set xs' \<subseteq> set xs))
    (common_list_extract l h nb nx) (Some (extract_spec h (unat nb) xs))"
proof (cases "h \<in> set xs")
  case False
  then show ?thesis using c by (simp add: common_list_extract_def extract_spec_def find_with_prev_miss [OF c])
next
  case True
  define us vs where uv: "us = takeWhile (\<lambda>x. x \<noteq> h) xs" "vs = tl (dropWhile (\<lambda>x. x \<noteq> h) xs)"
  have xs: "xs = us @ h # vs" using split_at [OF True] uv by simp
  have found: "find_with_prev l h nx = Some (Inl (last (NULL # us), h))"
    using c xs by (simp add: find_with_prev_hit)
  have hv: "chain nx h (h # vs)" using c xs chain_suffix [of nx "cl_first l" us "h # vs"] by (auto simp: clist_def)
  show ?thesis
  proof (cases "unat nb \<le> length vs")
    case False
    then have "bind_res (jump_next (unat nb) nx h) (\<lambda>q. load_next q nx) = Inl Null_deref"
      using hv by (intro jump_next_beyond [of nx h "h # vs"]) auto
    then show ?thesis using True False uv found
      by (auto simp: common_list_extract_def extract_spec_def bind_res_def Let_def split: sum.splits)
  next
    case n: True
    define ws zs where ws: "ws = h # take (unat nb) vs" and zs: "zs = drop (unat nb) vs"
    have c': "clist l nx (us @ ws @ zs)" using c xs ws zs by simp
    have jump: "jump_next (unat nb) nx h = Inr (last ws)"
      using jump_next_within [OF hv n] n ws
      by (cases "unat nb"; cases vs) (auto simp: last_conv_nth nth_Cons' min_def)
    have "last ws \<noteq> NULL" using clist_distinct [OF c'] last_in_set [of ws] ws by auto
    then have load: "load_next (last ws) nx = Inr (nx (last ws))" by (simp add: load_next_def)
    define p where p: "p = last (NULL # us)"
    have found': "find_with_prev l h nx = Some (Inl (p, h))" using found p by simp
    define nx' where nx': "nx' = (if p = NULL then nx else nx(p := nx (last ws)))"
    define l' where l': "l' = (if p = NULL then l\<lparr>cl_first := nx (last ws)\<rparr> else l)"
    define l'' where l'': "l'' = (if last ws = cl_last l then l'\<lparr>cl_last := p\<rparr> else l')"
    have "common_list_extract l h nb nx = Some (Inr (True, l'', nx'))"
      by (simp add: common_list_extract_def found' jump load store_next_def nx' l' l'')
    moreover have "extract_spec h (unat nb) xs = Inr (True, us @ zs)"
      using True n by (simp add: extract_spec_def Let_def zs uv)
    moreover have "clist l'' nx' (us @ zs) \<and> only_next (set (us @ ws @ zs)) nx nx'"
      using clist_remove [OF c' _ p nx' l' l''] ws by simp
    moreover have "set xs = set (us @ ws @ zs)" using xs ws zs by (metis append_Cons append_take_drop_id)
    ultimately show ?thesis by auto
  qed
qed

lemma extract_after_ok:
  assumes "clist l nx xs" and "xs = us @ rem # zs" and "ref = last (NULL # us)"
  shows "\<exists>l' nx'. common_list_extract_after l ref rem nx = Inr (l', nx') \<and> clist l' nx' (us @ zs)
    \<and> only_next (set xs) nx nx'"
proof -
  have c: "clist l nx (us @ [rem] @ zs)" and "rem \<noteq> NULL" using assms clist_distinct [OF assms(1)] by auto
  have first: "cl_first l = rem" if "ref = NULL"
    using that assms clist_distinct [OF assms(1)] last_in_set [of us]
    by (cases "us = []") (auto simp: clist_def)
  show ?thesis
    using clist_remove [OF c _ assms(3) refl refl refl] \<open>rem \<noteq> NULL\<close> first assms(2)
    by (auto simp: common_list_extract_after_def load_next_def store_next_def)
qed

text \<open>Insertion behind and before an element.\<close>

lemma chain_insert:
  assumes c: "chain nx p (us @ y # vs)" and e: "e \<noteq> NULL" "e \<notin> set (us @ y # vs)"
  shows "chain (nx(e := nx y, y := e)) p (us @ y # e # vs)"
proof -
  have vs: "chain nx (nx y) vs" using c chain_suffix [of nx p us "y # vs"] by auto
  have "chain (nx(e := nx y)) p (us @ y # vs)" using c e by simp
  moreover have "chain (nx(e := nx y)) e (e # vs)" using vs e by simp
  moreover have "y \<notin> set (e # vs)" using chain_distinct [OF c] e by auto
  ultimately show ?thesis by (rule chain_store)
qed

definition insert_after_spec :: "nat \<Rightarrow> nat \<Rightarrow> nat list \<Rightarrow> nat list" where
  "insert_after_spec ref e xs =
    (if ref \<in> set xs
     then takeWhile (\<lambda>x. x \<noteq> ref) xs @ ref # e # tl (dropWhile (\<lambda>x. x \<noteq> ref) xs) else xs @ [e])"

definition insert_before_spec :: "nat \<Rightarrow> nat \<Rightarrow> nat list \<Rightarrow> nat list" where
  "insert_before_spec ref e xs =
    (if ref \<in> set xs
     then takeWhile (\<lambda>x. x \<noteq> ref) xs @ e # dropWhile (\<lambda>x. x \<noteq> ref) xs else e # xs)"

lemma insert_after_ok:
  assumes c: "clist l nx xs" and e: "e \<noteq> NULL" "e \<notin> set xs"
  shows "\<exists>l' nx'. common_list_insert_after l ref e nx = Some (Inr (l', nx'))
    \<and> clist l' nx' (insert_after_spec ref e xs) \<and> only_next (insert e (set xs)) nx nx'"
proof (cases "ref \<in> set xs")
  case False
  have "common_list_insert_after l ref e nx = Some (common_list_push_back l e nx)"
    unfolding common_list_insert_after_def clist_loop [OF c] fold_search using False by simp
  then show ?thesis using push_back_ok [OF assms] False by (auto simp: insert_after_spec_def)
next
  case True
  define us vs where uv: "us = takeWhile (\<lambda>x. x \<noteq> ref) xs" "vs = tl (dropWhile (\<lambda>x. x \<noteq> ref) xs)"
  have xs: "xs = us @ ref # vs" using split_at [OF True] uv by simp
  have n0: "ref \<noteq> NULL" using True clist_distinct [OF c] by metis
  have nxt: "nx ref = hd (vs @ [NULL])" using c xs chain_next [of nx _ us ref vs] by (auto simp: clist_def)
  have end_iff: "nx ref = NULL \<longleftrightarrow> vs = []" using nxt xs clist_distinct [OF c] by (cases vs) auto
  define l' where l': "l' = (if nx ref = NULL then l\<lparr>cl_last := e\<rparr> else l)"
  have run: "common_list_insert_after l ref e nx = Some (Inr (l', nx(e := nx ref, ref := e)))"
    unfolding common_list_insert_after_def clist_loop [OF c] fold_search
    using True n0 e by (simp add: load_next_def store_next_def l' Let_def)
  have "clist l' (nx(e := nx ref, ref := e)) (us @ ref # e # vs)"
    using c xs e end_iff chain_insert [of nx "cl_first l" us ref vs e] by (auto simp: clist_def l')
  moreover have "insert_after_spec ref e xs = us @ ref # e # vs"
    using True by (simp add: insert_after_spec_def flip: uv)
  moreover have "only_next (insert e (set xs)) nx (nx(e := nx ref, ref := e))" using True by (simp add: only_next_def)
  ultimately show ?thesis using run by simp
qed

lemma insert_before_ok:
  assumes c: "clist l nx xs" and e: "e \<noteq> NULL" "e \<notin> set xs" and ref: "ref \<in> set xs \<or> ref = NULL \<or> xs = []"
  shows "\<exists>l' nx'. common_list_insert_before l ref e nx = Some (Inr (l', nx'))
    \<and> clist l' nx' (insert_before_spec ref e xs) \<and> only_next (insert e (set xs)) nx nx'"
proof (cases "ref \<in> set xs")
  case False
  then have "common_list_insert_before l ref e nx = Some (common_list_push_front l e nx)"
    using ref find_with_prev_miss [OF c] by (auto simp: common_list_insert_before_def)
  then show ?thesis using push_front_ok [OF c e] False by (auto simp: insert_before_spec_def)
next
  case True
  define us vs where uv: "us = takeWhile (\<lambda>x. x \<noteq> ref) xs" "vs = tl (dropWhile (\<lambda>x. x \<noteq> ref) xs)"
  have xs: "xs = us @ ref # vs" using split_at [OF True] uv by simp
  have "us @ dropWhile (\<lambda>x. x \<noteq> ref) xs = xs" unfolding uv(1) by (rule takeWhile_dropWhile_id)
  then have dw: "dropWhile (\<lambda>x. x \<noteq> ref) xs = ref # vs" using xs by (metis same_append_eq)
  have spec: "insert_before_spec ref e xs = us @ e # ref # vs"
    using True by (simp add: insert_before_spec_def dw flip: uv(1))
  have n0: "ref \<noteq> NULL" "NULL \<notin> set us" using xs clist_distinct [OF c] by auto
  have found: "find_with_prev l ref nx = Some (Inl (last (NULL # us), ref))"
    using c xs by (simp add: find_with_prev_hit)
  show ?thesis
  proof (cases "us = []")
    case True
    then have "common_list_insert_before l ref e nx = Some (common_list_push_front l e nx)"
      using found n0 by (simp add: common_list_insert_before_def)
    then show ?thesis using push_front_ok [OF c e] True xs spec by auto
  next
    case False
    then obtain us' u where u: "us = us' @ [u]" by (metis append_butlast_last_id)
    then have nu: "nx u = ref" "u \<noteq> NULL" "u \<in> set xs" using c xs n0 chain_next [of nx _ us' u "ref # vs"] by (auto simp: clist_def)
    have swap: "nx(u := e, e := ref) = nx(e := nx u, u := e)" using nu e by (auto simp: fun_upd_twist)
    have "common_list_insert_before l ref e nx = Some (Inr (l, nx(u := e, e := ref)))"
      using found n0 u nu e by (simp add: common_list_insert_before_def store_next_def)
    moreover have "clist l (nx(u := e, e := ref)) (us @ e # ref # vs)"
      unfolding swap using c xs u e chain_insert [of nx "cl_first l" us' u "ref # vs" e] by (auto simp: clist_def)
    moreover have "only_next (insert e (set xs)) nx (nx(u := e, e := ref))" using nu by (simp add: only_next_def)
    ultimately show ?thesis using spec by simp
  qed
qed

lemma merge_ok:
  assumes c1: "clist l1 nx xs" and c2: "clist l2 nx ys" and d: "set xs \<inter> set ys = {}"
    and ne: "xs = [] \<or> ys \<noteq> []"
  shows "\<exists>l1' l2' nx'. common_list_merge l1 l2 nx = Inr (l1', l2', nx')
    \<and> clist l1' nx' (xs @ ys) \<and> clist l2' nx' [] \<and> only_next (set xs) nx nx'"
proof (cases "xs = []")
  case True
  then show ?thesis using c1 c2 clist_empty [OF c1] by (auto simp: common_list_merge_def clist_def)
next
  case False
  then obtain us u where u: "xs = us @ [u]" by (metis append_butlast_last_id)
  then have lu: "cl_last l1 = u" "u \<noteq> NULL" "u \<notin> set ys" using c1 d clist_distinct [OF c1] by (auto simp: clist_def)
  have "chain (nx(u := cl_first l2)) (cl_first l1) (us @ u # ys)"
    using c1 c2 u lu by (intro chain_store [where ys = "[]"]) (auto simp: clist_def)
  then show ?thesis using c1 c2 u lu ne clist_empty [OF c1]
    by (auto simp: common_list_merge_def clist_def store_next_def)
qed

section \<open>Any number of lists on one heap\<close>

datatype cl_out = Out_hdr nat | Out_bool bool | Out_size u16

record lists_st =
  ls :: "nat \<Rightarrow> common_list"
  nexts_of :: nexts
  outs :: "cl_out list"

datatype cl_op =
    Init nat | Push_back nat nat | Push_front nat nat | Pop_front nat | Extract nat nat u8
  | Extract_after nat nat nat | Find nat nat | Merge nat nat | Insert_before nat nat nat
  | Insert_after nat nat nat | Size nat

definition spins :: "'a result option \<Rightarrow> 'a result" where
  "spins r = (case r of None \<Rightarrow> Inl Spins | Some x \<Rightarrow> x)"

definition put_list :: "nat \<Rightarrow> cl_out list \<Rightarrow> lists_st \<Rightarrow> common_list \<times> nexts \<Rightarrow> lists_st result" where
  "put_list i out st = (\<lambda>(l, nx). Inr (st\<lparr>ls := (ls st)(i := l), nexts_of := nx, outs := outs st @ out\<rparr>))"

primrec cl_exec :: "cl_op \<Rightarrow> lists_st \<Rightarrow> lists_st result" where
  "cl_exec (Init i) st = put_list i [] st (common_list_init, nexts_of st)"
| "cl_exec (Push_back i e) st =
    bind_res (common_list_push_back (ls st i) e (nexts_of st)) (put_list i [] st)"
| "cl_exec (Push_front i e) st =
    bind_res (common_list_push_front (ls st i) e (nexts_of st)) (put_list i [] st)"
| "cl_exec (Pop_front i) st =
    (case common_list_pop_front (ls st i) (nexts_of st) of (e, l) \<Rightarrow> put_list i [Out_hdr e] st (l, nexts_of st))"
| "cl_exec (Extract i h nb) st =
    bind_res (spins (common_list_extract (ls st i) h nb (nexts_of st)))
      (\<lambda>(b, lnx). put_list i [Out_bool b] st lnx)"
| "cl_exec (Extract_after i ref rem) st =
    bind_res (common_list_extract_after (ls st i) ref rem (nexts_of st)) (put_list i [] st)"
| "cl_exec (Find i h) st =
    bind_res (spins (map_option Inr (common_list_find (ls st i) h (nexts_of st))))
      (\<lambda>b. put_list i [Out_bool b] st (ls st i, nexts_of st))"
| "cl_exec (Merge i j) st =
    bind_res (common_list_merge (ls st i) (ls st j) (nexts_of st)) (\<lambda>(l1, l2, nx).
      put_list i [] (st\<lparr>ls := (ls st)(j := l2)\<rparr>) (l1, nx))"
| "cl_exec (Insert_before i ref e) st =
    bind_res (spins (common_list_insert_before (ls st i) ref e (nexts_of st))) (put_list i [] st)"
| "cl_exec (Insert_after i ref e) st =
    bind_res (spins (common_list_insert_after (ls st i) ref e (nexts_of st))) (put_list i [] st)"
| "cl_exec (Size i) st =
    bind_res (spins (map_option Inr (common_list_size (ls st i) (nexts_of st))))
      (\<lambda>n. put_list i [Out_size n] st (ls st i, nexts_of st))"

text \<open>The specification: a map from lists to sequences of elements, and the answers so far.\<close>

type_synonym lists_spec = "(nat \<Rightarrow> nat list) \<times> cl_out list"

primrec cl_spec :: "cl_op \<Rightarrow> lists_spec \<Rightarrow> lists_spec result" where
  "cl_spec (Init i) s = Inr ((fst s)(i := []), snd s)"
| "cl_spec (Push_back i e) s = Inr ((fst s)(i := fst s i @ [e]), snd s)"
| "cl_spec (Push_front i e) s = Inr ((fst s)(i := e # fst s i), snd s)"
| "cl_spec (Pop_front i) s = Inr ((fst s)(i := tl (fst s i)), snd s @ [Out_hdr (hd (fst s i @ [NULL]))])"
| "cl_spec (Extract i h nb) s =
    bind_res (extract_spec h (unat nb) (fst s i)) (\<lambda>(b, xs). Inr ((fst s)(i := xs), snd s @ [Out_bool b]))"
| "cl_spec (Extract_after i ref rem) s = Inr ((fst s)(i := remove1 rem (fst s i)), snd s)"
| "cl_spec (Find i h) s = Inr (fst s, snd s @ [Out_bool (h \<in> set (fst s i) \<or> h = NULL)])"
| "cl_spec (Merge i j) s = Inr ((fst s)(j := [], i := fst s i @ fst s j), snd s)"
| "cl_spec (Insert_before i ref e) s = Inr ((fst s)(i := insert_before_spec ref e (fst s i)), snd s)"
| "cl_spec (Insert_after i ref e) s = Inr ((fst s)(i := insert_after_spec ref e (fst s i)), snd s)"
| "cl_spec (Size i) s = Inr (fst s, snd s @ [Out_size (of_nat (length (fst s i)))])"

text \<open>What the callers have to respect: an element to insert is in no list, the element to extract
  follows its reference, the reference of an insertion before it is in the list or null, and a list
  is not merged with itself nor with an empty one.\<close>

definition unlinked :: "nat \<Rightarrow> lists_spec \<Rightarrow> bool" where
  "unlinked e s \<longleftrightarrow> e \<noteq> NULL \<and> (\<forall>j. e \<notin> set (fst s j))"

primrec cl_ok :: "cl_op \<Rightarrow> lists_spec \<Rightarrow> bool" where
  "cl_ok (Init i) s \<longleftrightarrow> True"
| "cl_ok (Push_back i e) s \<longleftrightarrow> unlinked e s"
| "cl_ok (Push_front i e) s \<longleftrightarrow> unlinked e s"
| "cl_ok (Pop_front i) s \<longleftrightarrow> True"
| "cl_ok (Extract i h nb) s \<longleftrightarrow> True"
| "cl_ok (Extract_after i ref rem) s \<longleftrightarrow> (ref, rem) \<in> set (zip (NULL # fst s i) (fst s i))"
| "cl_ok (Find i h) s \<longleftrightarrow> True"
| "cl_ok (Merge i j) s \<longleftrightarrow> i \<noteq> j \<and> (fst s i = [] \<or> fst s j \<noteq> [])"
| "cl_ok (Insert_before i ref e) s \<longleftrightarrow> unlinked e s \<and> (ref \<in> set (fst s i) \<or> ref = NULL \<or> fst s i = [])"
| "cl_ok (Insert_after i ref e) s \<longleftrightarrow> unlinked e s"
| "cl_ok (Size i) s \<longleftrightarrow> True"

definition lists_rel :: "lists_st \<Rightarrow> lists_spec \<Rightarrow> bool" where
  "lists_rel st s \<longleftrightarrow> (\<forall>i. clist (ls st i) (nexts_of st) (fst s i))
    \<and> (\<forall>i j. i \<noteq> j \<longrightarrow> set (fst s i) \<inter> set (fst s j) = {}) \<and> outs st = snd s"

text \<open>An operation on one list that links only its own elements and unlinked ones keeps the others.\<close>

lemma lists_rel_update:
  assumes "lists_rel st s" and "clist l' nx' xs'" and "only_next A (nexts_of st) nx'"
    and "A \<subseteq> set (fst s i) \<union> E" and "set xs' \<subseteq> set (fst s i) \<union> E" and "\<forall>j. E \<inter> set (fst s j) = {}"
  shows "lists_rel (st\<lparr>ls := (ls st)(i := l'), nexts_of := nx', outs := outs st @ os\<rparr>)
    ((fst s)(i := xs'), snd s @ os)"
proof -
  have dis: "set (fst s j) \<inter> (set (fst s i) \<union> E) = {}" if "j \<noteq> i" for j
    using assms(1,6) that unfolding lists_rel_def by (metis Int_Un_distrib Int_commute Un_empty)
  have "clist (ls st j) nx' (fst s j)" if "j \<noteq> i" for j
  proof (rule clist_frame)
    show "clist (ls st j) (nexts_of st) (fst s j)" using assms(1) by (simp add: lists_rel_def)
    show "set (fst s j) \<inter> A = {}" using dis [OF that] assms(4) by blast
  qed (rule assms(3))
  moreover have "set (fst s j) \<inter> set xs' = {}" if "j \<noteq> i" for j
    using dis [OF that] assms(5) by blast
  ultimately show ?thesis using assms(1,2) unfolding lists_rel_def by (simp add: Int_commute)
qed

lemma lists_rel_put:
  assumes "lists_rel st s" and "\<exists>l' nx'. r = Inr (l', nx') \<and> clist l' nx' xs' \<and> only_next (insert e (set (fst s i))) (nexts_of st) nx'"
    and "unlinked e s" and "set xs' \<subseteq> insert e (set (fst s i))"
  shows "rel_sum (=) lists_rel (bind_res r (put_list i [] st)) (Inr ((fst s)(i := xs'), snd s))"
  using assms lists_rel_update [OF assms(1), where A = "insert e (set (fst s i))" and E = "{e}" and os = "[]" and i = i]
  by (auto simp: put_list_def unlinked_def)

lemma lists_rel_only:
  assumes "lists_rel st s" and "clist l' nx' xs'" and "only_next (set (fst s i)) (nexts_of st) nx'"
    and "set xs' \<subseteq> set (fst s i)"
  shows "rel_sum (=) lists_rel (put_list i os st (l', nx')) (Inr ((fst s)(i := xs'), snd s @ os))"
  using lists_rel_update [OF assms(1-3), where E = "{}" and os = os and i = i] assms(4)
  by (simp add: put_list_def)

lemma spins_Some [simp]: "spins (Some r) = r"
  by (simp add: spins_def)

lemma zip_prev:
  assumes "(ref, rem) \<in> set (zip (y # xs) xs)"
  shows "\<exists>us zs. xs = us @ rem # zs \<and> ref = last (y # us)"
  using assms
proof (induction xs arbitrary: y)
  case (Cons x xs)
  show ?case
  proof (cases "(ref, rem) = (y, x)")
    case True
    then show ?thesis by (intro exI [of _ "[]"] exI [of _ xs]) auto
  next
    case False
    then have "(ref, rem) \<in> set (zip (x # xs) xs)" using Cons.prems by auto
    then obtain us zs where "xs = us @ rem # zs" "ref = last (x # us)" using Cons.IH by blast
    then have "x # xs = (x # us) @ rem # zs \<and> ref = last (y # x # us)" by simp
    then show ?thesis by blast
  qed
qed simp

lemma set_insert_spec:
  "set (insert_after_spec ref e xs) \<subseteq> insert e (set xs)" "set (insert_before_spec ref e xs) \<subseteq> insert e (set xs)"
proof -
  have "set (tl ys) \<subseteq> set ys" for ys :: "nat list" by (cases ys) auto
  then have "set (tl (dropWhile P xs)) \<subseteq> set xs" for P using set_dropWhileD by fast
  then show "set (insert_after_spec ref e xs) \<subseteq> insert e (set xs)"
    by (auto simp: insert_after_spec_def dest: set_takeWhileD)
  show "set (insert_before_spec ref e xs) \<subseteq> insert e (set xs)"
    by (auto simp: insert_before_spec_def dest: set_takeWhileD set_dropWhileD)
qed

lemma merge_step:
  assumes r: "lists_rel st s" and ok: "i \<noteq> j" "fst s i = [] \<or> fst s j \<noteq> []"
  shows "rel_sum (=) lists_rel (cl_exec (Merge i j) st) (cl_spec (Merge i j) s)"
proof -
  have c: "clist (ls st k) (nexts_of st) (fst s k)" for k using r by (simp add: lists_rel_def)
  have d: "set (fst s k) \<inter> set (fst s m) = {}" if "k \<noteq> m" for k m using r that by (simp add: lists_rel_def)
  obtain l1 l2 nx' where m: "common_list_merge (ls st i) (ls st j) (nexts_of st) = Inr (l1, l2, nx')"
    and l1: "clist l1 nx' (fst s i @ fst s j)" and l2: "clist l2 nx' []"
    and o: "only_next (set (fst s i)) (nexts_of st) nx'"
    using merge_ok [OF c c d [OF ok(1)] ok(2)] by blast
  have "clist (ls st k) nx' (fst s k)" if "k \<noteq> i" for k
    using clist_frame [OF c o] d that by blast
  moreover have "set (fst s k) \<inter> (set (fst s i) \<union> set (fst s j)) = {}" if "k \<noteq> i" "k \<noteq> j" for k
    using d that by (simp add: Int_Un_distrib)
  ultimately show ?thesis using r m l1 l2 ok
    by (simp add: put_list_def lists_rel_def) (simp add: Int_Un_distrib2 Int_Un_distrib)
qed

lemma cl_step:
  assumes r: "lists_rel st s" and ok: "cl_ok x s"
  shows "rel_sum (=) lists_rel (cl_exec x st) (cl_spec x s)"
proof -
  have c: "clist (ls st k) (nexts_of st) (fst s k)" for k using r by (simp add: lists_rel_def)
  have put0: "((fst s)(i := fst s i), snd s @ os) = (fst s, snd s @ os)" for i os by simp
  show ?thesis
  proof (cases x)
    case (Init i)
    then show ?thesis using lists_rel_only [OF r clist_init only_next_refl, where i = i and os = "[]"] by simp
  next
    case (Push_back i e)
    then have u: "unlinked e s" using ok by simp
    then show ?thesis using Push_back lists_rel_put [OF r push_back_ok [OF c] u] by (simp add: unlinked_def)
  next
    case (Push_front i e)
    then have u: "unlinked e s" using ok by simp
    then show ?thesis using Push_front lists_rel_put [OF r push_front_ok [OF c] u] by (simp add: unlinked_def)
  next
    case (Pop_front i)
    have "set (tl (fst s i)) \<subseteq> set (fst s i)" by (cases "fst s i") auto
    then show ?thesis using Pop_front lists_rel_only [OF r _ only_next_refl] pop_front_ok [OF c, of i]
      by (auto simp: split_beta)
  next
    case (Extract i h nb)
    then show ?thesis using extract_ok [OF c, of i h nb] lists_rel_only [OF r]
      by (cases "extract_spec h (unat nb) (fst s i)") (auto simp: option_rel_Some2 rel_sum_simps elim!: rel_sum.cases)
  next
    case (Extract_after i ref rem)
    then obtain us zs where xs: "fst s i = us @ rem # zs" and ref: "ref = last (NULL # us)"
      using ok zip_prev [of ref rem NULL "fst s i"] by auto
    have "rem \<notin> set us" using xs clist_distinct [OF c, of i] by simp
    then have "remove1 rem (fst s i) = us @ zs" using xs by (simp add: remove1_append)
    moreover obtain l' nx' where "common_list_extract_after (ls st i) ref rem (nexts_of st) = Inr (l', nx')"
      and "clist l' nx' (us @ zs)" and "only_next (set (fst s i)) (nexts_of st) nx'"
      using extract_after_ok [OF c xs ref] by blast
    moreover have "set (us @ zs) \<subseteq> set (fst s i)" using xs by auto
    ultimately show ?thesis
      using Extract_after lists_rel_only [OF r, of l' nx' "us @ zs" i "[]"] by simp
  next
    case (Find i h)
    then show ?thesis using lists_rel_only [OF r c only_next_refl subset_refl, of i] by (simp add: find_ok [OF c])
  next
    case (Merge i j)
    then show ?thesis using merge_step [OF r, of i j] ok by simp
  next
    case (Insert_before i ref e)
    then have u: "unlinked e s" using ok by simp
    then obtain l' nx' where "common_list_insert_before (ls st i) ref e (nexts_of st) = Some (Inr (l', nx'))"
      and "clist l' nx' (insert_before_spec ref e (fst s i))"
      and "only_next (insert e (set (fst s i))) (nexts_of st) nx'"
      using Insert_before ok insert_before_ok [OF c, of e i ref] by (auto simp: unlinked_def)
    then show ?thesis
      using Insert_before lists_rel_put [OF r _ u set_insert_spec(2), where r = "Inr (l', nx')" and i = i] by simp
  next
    case (Insert_after i ref e)
    then have u: "unlinked e s" using ok by simp
    then obtain l' nx' where "common_list_insert_after (ls st i) ref e (nexts_of st) = Some (Inr (l', nx'))"
      and "clist l' nx' (insert_after_spec ref e (fst s i))"
      and "only_next (insert e (set (fst s i))) (nexts_of st) nx'"
      using insert_after_ok [OF c, of e i ref] by (auto simp: unlinked_def)
    then show ?thesis
      using Insert_after lists_rel_put [OF r _ u set_insert_spec(1), where r = "Inr (l', nx')" and i = i] by simp
  next
    case (Size i)
    then show ?thesis using lists_rel_only [OF r c only_next_refl subset_refl, of i] by (simp add: size_ok [OF c])
  qed
qed

interpretation cls: simulation lists_rel cl_ok cl_exec cl_spec
  by unfold_locales (rule cl_step)

section \<open>Properties\<close>

text \<open>C6: over every sequence of list operations whose callers respect the interface, on any number
  of lists that share the heap, the lists hold exactly the sequences of elements of the specification and
  give its answers; a sequence faults exactly when the specification does (an extraction of more
  elements than follow), and none of the search loops runs for ever.\<close>

theorem common_lists_refine_sequences:
  assumes "lists_rel st s" and "run_res_ok cl_ok cl_spec ops s"
  shows "rel_sum (=) lists_rel (run_res cl_exec ops st) (run_res cl_spec ops s)"
  using assms by (rule cls.run_simulates)

definition clists0 :: lists_st where
  "clists0 = \<lparr>ls = \<lambda>_. common_list_init, nexts_of = \<lambda>_. NULL, outs = []\<rparr>"

lemma clists0_rel: "lists_rel clists0 (\<lambda>_. [], [])"
  by (simp add: lists_rel_def clists0_def clist_init)

definition cl_demo :: "cl_op list" where
  "cl_demo = [Push_back 0 10, Push_back 0 20, Push_front 1 30, Insert_before 0 20 15, Insert_after 0 20 25,
     Merge 1 0, Extract 1 15 1, Extract_after 1 30 10, Find 1 25, Size 1, Pop_front 1]"

lemma cl_demo_ok: "run_res_ok cl_ok cl_spec cl_demo (\<lambda>_. [], [])"
  by (simp add: cl_demo_def unlinked_def insert_before_spec_def insert_after_spec_def extract_spec_def)

theorem common_lists_refine_sequences_witness:
  "rel_sum (=) lists_rel (run_res cl_exec cl_demo clists0) (run_res cl_spec cl_demo (\<lambda>_. [], []))
    \<and> (\<exists>a. run_res cl_spec cl_demo (\<lambda>_. [], []) = Inr (a, [Out_bool True, Out_bool True, Out_size 2, Out_hdr 30])
         \<and> a 1 = [25] \<and> a 0 = [])"
  using common_lists_refine_sequences [OF clists0_rel cl_demo_ok]
  by (simp add: cl_demo_def insert_before_spec_def insert_after_spec_def extract_spec_def)

lemma pool_step_is_push_back:
  "i < n \<Longrightarrow> pool_loop i n l pool sz d t nx =
    bind_res (common_list_push_back l pool (case d of None \<Rightarrow> nx | Some v \<Rightarrow> nx(pool := v)))
      (\<lambda>(l, nx). pool_loop (i + 1) n l (pool + sz) sz d t nx)"
  by (subst pool_loop.simps) (simp add: common_list_push_back_def Let_def)

lemma pool_loop_ok:
  assumes "clist l nx xs" and "\<forall>x\<in>set xs. x < pool" and "0 < pool" and "0 < sz"
  shows "\<exists>l' nx'. pool_loop i n l pool sz d t nx = Inr (l', nx')
    \<and> clist l' nx' (xs @ map (\<lambda>k. pool + k * sz) [0..<n - i])"
  using assms
proof (induction "n - i" arbitrary: i l nx xs pool)
  case 0
  then show ?case by (simp add: pool_loop.simps)
next
  case (Suc m)
  define nx0 where "nx0 = (case d of None \<Rightarrow> nx | Some v \<Rightarrow> nx(pool := v))"
  have fresh: "pool \<notin> set xs" using Suc.prems(2) by auto
  then have "clist l nx0 xs" using Suc.prems(1) by (auto simp: clist_def nx0_def split: option.split)
  then obtain l1 nx1 where p: "common_list_push_back l pool nx0 = Inr (l1, nx1)" and c: "clist l1 nx1 (xs @ [pool])"
    using push_back_ok [of l nx0 xs pool] Suc.prems(3) fresh by auto
  have m: "m = n - (i + 1)" "i < n" using Suc.hyps(2) by auto
  obtain l' nx' where l: "pool_loop (i + 1) n l1 (pool + sz) sz d t nx1 = Inr (l', nx')"
    and c': "clist l' nx' ((xs @ [pool]) @ map (\<lambda>k. pool + sz + k * sz) [0..<n - (i + 1)])"
    using Suc.hyps(1) [OF m(1) c, of "pool + sz"] Suc.prems by (fastforce simp: trans_less_add1)
  have "map (\<lambda>k. pool + k * sz) [0..<n - i] = pool # map (\<lambda>k. pool + sz + k * sz) [0..<n - (i + 1)]"
    using m by (simp add: upt_conv_Cons map_Suc_upt [symmetric] Suc_diff_Suc [symmetric] del: upt_Suc) 
  then show ?case using p l c' pool_step_is_push_back [OF m(2), of l pool sz d t nx]
    by (simp flip: nx0_def)
qed

text \<open>initialising a list over a pool of elements, with or without a default value and for either
  list type, links every element of the pool exactly once, in the order of their addresses.\<close>

theorem common_list_pool_init_links_pool:
  assumes "0 < pool" and "0 < elmt_size"
  shows "\<exists>l nx'. common_list_pool_init pool elmt_size elmt_cnt default_next list_type nx = Inr (l, nx')
    \<and> clist l nx' (map (\<lambda>k. pool + k * elmt_size) [0..<elmt_cnt])"
  using pool_loop_ok [OF clist_init, of pool elmt_size 0 elmt_cnt] assms
  by (simp add: common_list_pool_init_def)

theorem common_list_pool_init_links_pool_witness:
  "\<exists>l nx'. common_list_pool_init 100 8 3 (Some 7) 1 (\<lambda>_. NULL) = Inr (l, nx') \<and> clist l nx' [100, 108, 116]"
  using common_list_pool_init_links_pool [of 100 8 3 "Some 7" 1 "\<lambda>_. NULL"]
  by (simp add: upt_rec)

text \<open>inserting before an element that is not in a non-empty list links the new element behind the
  last one but leaves the pointer to the last element where it was, so that the next
  \<open>common_list_push_back\<close> drops the inserted element from the list.\<close>

theorem insert_before_missing_loses_element:
  assumes c: "clist l nx xs" and xs: "xs \<noteq> []" and ref: "ref \<noteq> NULL" "ref \<notin> set xs"
    and e: "e \<noteq> NULL" "e \<notin> set xs" and f: "f \<noteq> NULL" "f \<notin> set (e # xs)"
  shows "\<exists>nx'. common_list_insert_before l ref e nx = Some (Inr (l, nx'))
    \<and> chain nx' (cl_first l) (xs @ [e]) \<and> \<not> clist l nx' (xs @ [e])
    \<and> (\<exists>l'' nx''. common_list_push_back l f nx' = Inr (l'', nx'') \<and> clist l'' nx'' (xs @ [f]))"
proof -
  define nx' where "nx' = nx(last xs := e, e := NULL)"
  have lx: "last xs \<in> set xs" "last xs \<noteq> NULL" using clist_distinct [OF c] last_in_set [OF xs] by metis+
  have run: "common_list_insert_before l ref e nx = Some (Inr (l, nx'))"
    using ref e lx xs find_with_prev_miss [OF c ref(2)] by (simp add: common_list_insert_before_def store_next_def nx'_def)
  have ch: "chain nx' (cl_first l) (xs @ [e])"
    using c chain_snoc [of nx "cl_first l" xs e] xs e by (simp add: clist_def nx'_def)
  have stale: "cl_last l = last xs" "last xs \<noteq> e" using c xs e lx by (auto simp: clist_def)
  have "chain (nx(last xs := f, f := NULL)) (cl_first l) (xs @ [f])"
    using c chain_snoc [of nx "cl_first l" xs f] xs f by (simp add: clist_def)
  then have "chain (nx'(last xs := f, f := NULL)) (cl_first l) (xs @ [f])"
    using e f by (subst chain_frame [where nx = "nx(last xs := f, f := NULL)"]) (auto simp: nx'_def)
  then have "\<exists>l'' nx''. common_list_push_back l f nx' = Inr (l'', nx'') \<and> clist l'' nx'' (xs @ [f])"
    using stale lx f xs clist_empty [OF c] by (simp add: common_list_push_back_def store_next_def clist_def)
  then show ?thesis using run ch stale by (auto simp: clist_def)
qed

theorem insert_before_missing_loses_element_witness:
  "\<exists>nx'. common_list_insert_before \<lparr>cl_first = 10, cl_last = 10\<rparr> 99 20 (\<lambda>_. NULL) = Some (Inr (\<lparr>cl_first = 10, cl_last = 10\<rparr>, nx'))
    \<and> chain nx' 10 [10, 20]
    \<and> (\<exists>l'' nx''. common_list_push_back \<lparr>cl_first = 10, cl_last = 10\<rparr> 30 nx' = Inr (l'', nx'') \<and> clist l'' nx'' [10, 30])"
  using insert_before_missing_loses_element [of "\<lparr>cl_first = 10, cl_last = 10\<rparr>" "\<lambda>_. NULL" "[10]" 99 20 30]
  by (auto simp: clist_def)

end
