(* ===== verification/Multi_Button.thy ===== *)
theory Multi_Button
  imports Bk_Prelude
begin

text \<open>
  The button driver \<^verbatim>\<open>beken378/func/key/multi_button.c\<close>: a debouncer and a click state machine per
  button, stepped by a 5 ms timer. The struct \<open>BUTTON_S\<close> is the record
  \<open>button\<close>, with its bit fields at their widths. The level function of a button is a function value
  that reads (and may change) an environment of type \<open>'e\<close>; callbacks are function addresses, and an
  operation returns the callbacks it invoked, in order, with the event each was attached to.

  Specification: \<open>debounced\<close> turns a stream of samples into the stream of debounced levels,
  \<open>click_step\<close> is the click machine over unbounded counters. The driver refines their composition as
  long as the 16-bit tick counter and the 4-bit repeat counter do not overflow.
\<close>

section \<open>Data\<close>

datatype press_evt =
    PRESS_DOWN | PRESS_UP | PRESS_REPEAT | SINGLE_CLICK | DOUBLE_CLICK | LONG_PRESS_START
  | LONG_PRESS_HOLD | number_of_event | NONE_PRESS

primrec evt_code :: "press_evt \<Rightarrow> nat" where
  "evt_code PRESS_DOWN = 0"
| "evt_code PRESS_UP = 1"
| "evt_code PRESS_REPEAT = 2"
| "evt_code SINGLE_CLICK = 3"
| "evt_code DOUBLE_CLICK = 4"
| "evt_code LONG_PRESS_START = 5"
| "evt_code LONG_PRESS_HOLD = 6"
| "evt_code number_of_event = 7"
| "evt_code NONE_PRESS = 8"

definition DEBOUNCE_TICKS :: nat where "DEBOUNCE_TICKS = 6"
definition TICKS_INTERVAL :: nat where "TICKS_INTERVAL = 5"
definition SHORT_TICKS :: u16 where "SHORT_TICKS = of_nat (400 div TICKS_INTERVAL)"
definition LONG_TICKS :: u16 where "LONG_TICKS = of_nat (1000 div TICKS_INTERVAL)"

type_synonym 'e hal = "u32 \<Rightarrow> 1 word \<Rightarrow> 'e \<Rightarrow> u8 \<times> 'e"

record 'e button =
  b_ticks :: u16
  b_repeat :: "4 word"
  b_event :: "4 word"
  b_state :: "3 word"
  b_debounce_cnt :: "3 word"
  b_active_level :: "1 word"
  b_button_level :: "1 word"
  b_user_data :: u32
  b_hal :: "'e hal option"
  b_cb :: "nat option list"
  b_next :: nat

type_synonym cb_log = "(press_evt \<times> nat) list"

section \<open>One button\<close>

definition hal_button_Level :: "'e button \<Rightarrow> 'e \<Rightarrow> (u8 \<times> 'e) result" where
  "hal_button_Level h e =
    (case b_hal h of None \<Rightarrow> Inl Null_deref | Some f \<Rightarrow> Inr (f (b_user_data h) (b_active_level h) e))"

definition button_init :: "'e hal option \<Rightarrow> u8 \<Rightarrow> u32 \<Rightarrow> 'e \<Rightarrow> ('e button \<times> 'e) result" where
  "button_init pin_level active_level user_data e =
    (let h = \<lparr>b_ticks = 0, b_repeat = 0, b_event = of_nat (evt_code NONE_PRESS), b_state = 0,
              b_debounce_cnt = 0, b_active_level = ucast active_level, b_button_level = 0,
              b_user_data = user_data, b_hal = pin_level, b_cb = replicate (evt_code number_of_event) None,
              b_next = 0\<rparr>
     in bind_res (hal_button_Level h e) (\<lambda>(lv, e'). Inr (h\<lparr>b_button_level := ucast lv\<rparr>, e')))"

definition button_attach :: "'e button \<Rightarrow> press_evt \<Rightarrow> nat option \<Rightarrow> 'e button result" where
  "button_attach h ev f =
    (if evt_code ev < length (b_cb h) then Inr (h\<lparr>b_cb := (b_cb h)[evt_code ev := f]\<rparr>) else Inl Out_of_bounds)"

definition button_get_event :: "'e button \<Rightarrow> 4 word" where
  "button_get_event h = b_event h"

definition EVENT_CB :: "press_evt \<Rightarrow> 'e button \<Rightarrow> cb_log" where
  "EVENT_CB ev h = (case b_cb h ! evt_code ev of None \<Rightarrow> [] | Some f \<Rightarrow> [(ev, f)])"

definition set_event :: "press_evt \<Rightarrow> 'e button \<Rightarrow> 'e button" where
  "set_event ev h = h\<lparr>b_event := of_nat (evt_code ev)\<rparr>"

definition button_count :: "'e button \<Rightarrow> 'e button" where
  "button_count h = (if b_state h > 0 then h\<lparr>b_ticks := b_ticks h + 1\<rparr> else h)"

definition button_debounce :: "u8 \<Rightarrow> 'e button \<Rightarrow> 'e button" where
  "button_debounce read_gpio_level h =
    (if read_gpio_level \<noteq> ucast (b_button_level h) then
       (let h = h\<lparr>b_debounce_cnt := b_debounce_cnt h + 1\<rparr>
        in if unat (b_debounce_cnt h) \<ge> DEBOUNCE_TICKS
           then h\<lparr>b_button_level := ucast read_gpio_level, b_debounce_cnt := 0\<rparr> else h)
     else h\<lparr>b_debounce_cnt := 0\<rparr>)"

definition button_switch :: "'e button \<Rightarrow> 'e button \<times> cb_log" where
  "button_switch h =
    (let pressed = (b_button_level h = b_active_level h)
     in if b_state h = 0 then
          if pressed then
            (let h = set_event PRESS_DOWN h
             in (h\<lparr>b_ticks := 0, b_repeat := 1, b_state := 1\<rparr>, EVENT_CB PRESS_DOWN h))
          else (set_event NONE_PRESS h, [])
        else if b_state h = 1 then
          if \<not> pressed then
            (let h = set_event PRESS_UP h in (h\<lparr>b_ticks := 0, b_state := 2\<rparr>, EVENT_CB PRESS_UP h))
          else if b_ticks h > LONG_TICKS then
            (let h = set_event LONG_PRESS_START h in (h\<lparr>b_state := 5\<rparr>, EVENT_CB LONG_PRESS_START h))
          else (h, [])
        else if b_state h = 2 then
          if pressed then
            (let h = set_event PRESS_DOWN h; down = EVENT_CB PRESS_DOWN h;
                 h = h\<lparr>b_repeat := b_repeat h + 1\<rparr>;
                 dbl = (if b_repeat h = 2 then EVENT_CB DOUBLE_CLICK h else [])
             in (h\<lparr>b_ticks := 0, b_state := 3\<rparr>, down @ dbl @ EVENT_CB PRESS_REPEAT h))
          else if b_ticks h > SHORT_TICKS then
            if b_repeat h = 1 then
              (let h = set_event SINGLE_CLICK h in (h\<lparr>b_state := 0\<rparr>, EVENT_CB SINGLE_CLICK h))
            else if b_repeat h = 2 then ((set_event DOUBLE_CLICK h)\<lparr>b_state := 0\<rparr>, [])
            else (h\<lparr>b_state := 0\<rparr>, [])
          else (h, [])
        else if b_state h = 3 then
          if \<not> pressed then
            (let h = set_event PRESS_UP h
             in (if b_ticks h < SHORT_TICKS then h\<lparr>b_ticks := 0, b_state := 2\<rparr> else h\<lparr>b_state := 0\<rparr>,
                 EVENT_CB PRESS_UP h))
          else (h, [])
        else if b_state h = 5 then
          if pressed then (let h = set_event LONG_PRESS_HOLD h in (h, EVENT_CB LONG_PRESS_HOLD h))
          else (let h = set_event PRESS_UP h in (h\<lparr>b_state := 0\<rparr>, EVENT_CB PRESS_UP h))
        else (h, []))"

text \<open>One call of the handler for a sample, and for the sample its level function reads.\<close>

definition button_step :: "u8 \<Rightarrow> 'e button \<Rightarrow> 'e button \<times> cb_log" where
  "button_step read_gpio_level h = button_switch (button_debounce read_gpio_level (button_count h))"

definition button_handler :: "'e button \<Rightarrow> 'e \<Rightarrow> ('e button \<times> cb_log \<times> 'e) result" where
  "button_handler h e = bind_res (hal_button_Level h e) (\<lambda>(lv, e').
    case button_step lv h of (h', log) \<Rightarrow> Inr (h', log, e'))"

text \<open>The handler over a sequence of samples.\<close>

fun button_run :: "u8 list \<Rightarrow> 'e button \<Rightarrow> 'e button \<times> cb_log" where
  "button_run [] h = (h, [])"
| "button_run (lv # lvs) h =
    (case button_step lv h of (h', log) \<Rightarrow> (case button_run lvs h' of (h'', log') \<Rightarrow> (h'', log @ log')))"

section \<open>Well-formed buttons\<close>

definition button_states :: "3 word set" where "button_states = {0, 1, 2, 3, 5}"

definition button_wf :: "'e button \<Rightarrow> bool" where
  "button_wf h \<longleftrightarrow> b_state h \<in> button_states \<and> unat (b_debounce_cnt h) < DEBOUNCE_TICKS
    \<and> length (b_cb h) = evt_code number_of_event"

definition is_pressed :: "'e button \<Rightarrow> bool" where
  "is_pressed h \<longleftrightarrow> b_button_level h = b_active_level h"

lemmas button_defs = set_event_def button_count_def Let_def

lemma unat_debounce_inc:
  "unat (d :: 3 word) < 6 \<Longrightarrow> unat (d + 1) = unat d + 1"
  by (simp add: unat_word_ariths)

lemma button_debounce_wf:
  "button_wf h \<Longrightarrow> button_wf (button_debounce lv h) \<and> b_state (button_debounce lv h) = b_state h"
  by (auto simp: button_debounce_def button_wf_def Let_def DEBOUNCE_TICKS_def)

lemma button_switch_wf:
  assumes "button_wf h"
  shows "button_wf (fst (button_switch h))"
    and "is_pressed (fst (button_switch h)) \<longleftrightarrow> b_state (fst (button_switch h)) \<in> {1, 3, 5}"
  using assms by (auto simp: button_switch_def button_wf_def is_pressed_def button_states_def button_defs)

lemma button_step_wf:
  assumes "button_wf h"
  shows "button_wf (fst (button_step lv h))"
    and "is_pressed (fst (button_step lv h)) \<longleftrightarrow> b_state (fst (button_step lv h)) \<in> {1, 3, 5}"
proof -
  have "button_wf (button_count h)" using assms by (simp add: button_wf_def button_count_def)
  then have "button_wf (button_debounce lv (button_count h))" using button_debounce_wf by blast
  then show "button_wf (fst (button_step lv h))"
    and "is_pressed (fst (button_step lv h)) \<longleftrightarrow> b_state (fst (button_step lv h)) \<in> {1, 3, 5}"
    unfolding button_step_def by (rule button_switch_wf)+
qed

section \<open>Specification: debouncing and clicks\<close>

definition deb_step :: "bool \<Rightarrow> nat \<Rightarrow> bool \<Rightarrow> bool \<times> nat" where
  "deb_step l c s = (if s \<noteq> l then if DEBOUNCE_TICKS \<le> c + 1 then (s, 0) else (l, c + 1) else (l, 0))"

fun debounced :: "bool \<Rightarrow> nat \<Rightarrow> bool list \<Rightarrow> bool list" where
  "debounced l c [] = []"
| "debounced l c (s # ss) = (case deb_step l c s of (l', c') \<Rightarrow> l' # debounced l' c' ss)"

text \<open>The phases of a click: the counters are the timer ticks spent in the phase and the presses so
  far. A step returns the next phase, the events whose callbacks are due, and the new value of the
  event field if it changes.\<close>

datatype click_phase = Idle | Pressed nat | Released nat nat | Repressed nat nat | Held

fun click_step :: "click_phase \<Rightarrow> bool \<Rightarrow> click_phase \<times> press_evt list \<times> press_evt option" where
  "click_step Idle True = (Pressed 0, [PRESS_DOWN], Some PRESS_DOWN)"
| "click_step Idle False = (Idle, [], Some NONE_PRESS)"
| "click_step (Pressed t) True =
    (if t + 1 > 200 then (Held, [LONG_PRESS_START], Some LONG_PRESS_START) else (Pressed (t + 1), [], None))"
| "click_step (Pressed t) False = (Released 0 1, [PRESS_UP], Some PRESS_UP)"
| "click_step (Released t k) True =
    (Repressed 0 (k + 1), [PRESS_DOWN] @ (if k + 1 = 2 then [DOUBLE_CLICK] else []) @ [PRESS_REPEAT], Some PRESS_DOWN)"
| "click_step (Released t k) False =
    (if t + 1 > 80 then (Idle, if k = 1 then [SINGLE_CLICK] else [],
       if k = 1 then Some SINGLE_CLICK else if k = 2 then Some DOUBLE_CLICK else None)
     else (Released (t + 1) k, [], None))"
| "click_step (Repressed t k) True = (Repressed (t + 1) k, [], None)"
| "click_step (Repressed t k) False = (if t + 1 < 80 then Released 0 k else Idle, [PRESS_UP], Some PRESS_UP)"
| "click_step Held True = (Held, [LONG_PRESS_HOLD], Some LONG_PRESS_HOLD)"
| "click_step Held False = (Idle, [PRESS_UP], Some PRESS_UP)"

fun click_run :: "bool list \<Rightarrow> click_phase \<Rightarrow> click_phase \<times> press_evt list" where
  "click_run [] p = (p, [])"
| "click_run (l # ls) p = (case click_step p l of (p', evs, _) \<Rightarrow> (case click_run ls p' of (p'', evs') \<Rightarrow> (p'', evs @ evs')))"

text \<open>The counters of the driver have not overflowed.\<close>

fun counts_fit :: "click_phase \<Rightarrow> bool" where
  "counts_fit (Pressed t) \<longleftrightarrow> t \<le> 200"
| "counts_fit (Released t k) \<longleftrightarrow> t \<le> 80 \<and> k < 16"
| "counts_fit (Repressed t k) \<longleftrightarrow> t < 65535 \<and> k < 16"
| "counts_fit _ \<longleftrightarrow> True"

fun run_fits :: "bool list \<Rightarrow> click_phase \<Rightarrow> bool" where
  "run_fits [] p \<longleftrightarrow> counts_fit p"
| "run_fits (l # ls) p \<longleftrightarrow> counts_fit p \<and> run_fits ls (fst (click_step p l))"

fun phase_rel :: "'e button \<Rightarrow> click_phase \<Rightarrow> bool" where
  "phase_rel h Idle \<longleftrightarrow> b_state h = 0"
| "phase_rel h (Pressed t) \<longleftrightarrow> b_state h = 1 \<and> b_ticks h = of_nat t \<and> b_repeat h = 1"
| "phase_rel h (Released t k) \<longleftrightarrow> b_state h = 2 \<and> b_ticks h = of_nat t \<and> b_repeat h = of_nat k"
| "phase_rel h (Repressed t k) \<longleftrightarrow> b_state h = 3 \<and> b_ticks h = of_nat t \<and> b_repeat h = of_nat k"
| "phase_rel h Held \<longleftrightarrow> b_state h = 5"

definition callbacks :: "nat option list \<Rightarrow> press_evt list \<Rightarrow> cb_log" where
  "callbacks cb evs = concat (map (\<lambda>ev. case cb ! evt_code ev of None \<Rightarrow> [] | Some f \<Rightarrow> [(ev, f)]) evs)"

lemma callbacks_simps [simp]:
  "callbacks cb [] = []"
  "callbacks cb (ev # evs) = (case cb ! evt_code ev of None \<Rightarrow> [] | Some f \<Rightarrow> [(ev, f)]) @ callbacks cb evs"
  "callbacks cb (xs @ ys) = callbacks cb xs @ callbacks cb ys"
  by (simp_all add: callbacks_def)

lemma of_nat_u16_le:
  "n < 65536 \<Longrightarrow> k < 65536 \<Longrightarrow> (of_nat n :: u16) < of_nat k \<longleftrightarrow> n < k"
  by (simp add: word_less_nat_alt unat_of_nat)

lemma of_nat_4_eq: "n < 16 \<Longrightarrow> k < 16 \<Longrightarrow> (of_nat n :: 4 word) = of_nat k \<longleftrightarrow> n = k"
  by (simp add: word_of_nat_eq_iff take_bit_nat_eq_self)

lemma tick_limits:
  assumes "t < 65535"
  shows "LONG_TICKS < of_nat t + 1 \<longleftrightarrow> 200 < t + 1" "SHORT_TICKS < of_nat t + 1 \<longleftrightarrow> 80 < t + 1"
    "of_nat t + 1 < SHORT_TICKS \<longleftrightarrow> t + 1 < 80"
  using assms of_nat_u16_le [of 200 "t + 1"] of_nat_u16_le [of 80 "t + 1"] of_nat_u16_le [of "t + 1" 80]
  by (simp_all add: LONG_TICKS_def SHORT_TICKS_def TICKS_INTERVAL_def add.commute)

lemma repeat_limits:
  assumes "k < 16"
  shows "(of_nat k :: 4 word) = 1 \<longleftrightarrow> k = 1" "(of_nat k :: 4 word) = 2 \<longleftrightarrow> k = 2"
  using assms of_nat_4_eq [of k 1] of_nat_4_eq [of k 2] by simp_all

lemma word1_cases: "(a :: 1 word) = 0 \<or> a = 1"
proof -
  have "unat a < 2 ^ LENGTH(1)" by (rule unsigned_less)
  then have "unat a = 0 \<or> unat a = 1" by auto
  then show ?thesis by (metis unat_eq_zero unsigned_1 word_unat_eq_iff)
qed

text \<open>A sample of the driver is pressed when its bit is the active level.\<close>

definition sample_pressed :: "'e button \<Rightarrow> u8 \<Rightarrow> bool" where
  "sample_pressed h lv \<longleftrightarrow> ucast lv = b_active_level h"

lemma debounce_refines:
  assumes "unat (b_debounce_cnt h) < 6" and "lv = 0 \<or> lv = 1"
  shows "deb_step (is_pressed h) (unat (b_debounce_cnt h)) (sample_pressed h lv)
    = (is_pressed (button_debounce lv h), unat (b_debounce_cnt (button_debounce lv h)))"
proof -
  have diff: "lv \<noteq> ucast (b_button_level h) \<longleftrightarrow> sample_pressed h lv \<noteq> is_pressed h"
    using assms(2) word1_cases [of "b_button_level h"] word1_cases [of "b_active_level h"]
    by (auto simp: sample_pressed_def is_pressed_def)
  show ?thesis
    using assms diff unat_debounce_inc [OF assms(1)]
    by (auto simp: deb_step_def button_debounce_def is_pressed_def sample_pressed_def DEBOUNCE_TICKS_def Let_def)
qed

lemma switch_refines:
  assumes "phase_rel h0 p" and "counts_fit p" and "counts_fit p'"
    and "click_step p l = (p', evs, ev)"
    and "b_state h = b_state h0" "b_repeat h = b_repeat h0" "b_ticks h = b_ticks (button_count h0)"
    and "is_pressed h = l"
  shows "phase_rel (fst (button_switch h)) p' \<and> snd (button_switch h) = callbacks (b_cb h) evs
    \<and> b_event (fst (button_switch h)) = (case ev of None \<Rightarrow> b_event h | Some v \<Rightarrow> of_nat (evt_code v))"
proof (cases p)
  case Idle
  then show ?thesis using assms
    by (cases l) (auto simp: button_switch_def is_pressed_def button_defs EVENT_CB_def)
next
  case (Pressed t)
  then show ?thesis using assms tick_limits [of t]
    by (cases l) (auto simp: button_switch_def is_pressed_def button_defs EVENT_CB_def split: if_splits)
next
  case (Released t k)
  then show ?thesis using assms tick_limits [of t] repeat_limits [of k] repeat_limits [of "k + 1"]
    by (cases l) (auto simp: button_switch_def is_pressed_def button_defs EVENT_CB_def add.commute split: if_splits)
next
  case (Repressed t k)
  then show ?thesis using assms tick_limits [of t]
    by (cases l) (auto simp: button_switch_def is_pressed_def button_defs EVENT_CB_def split: if_splits)
next
  case Held
  then show ?thesis using assms
    by (cases l) (auto simp: button_switch_def is_pressed_def button_defs EVENT_CB_def)
qed

text \<open>One step of the handler is one step of the debouncer and one of the click machine.\<close>

lemma button_debounce_frame [simp]:
  "b_state (button_debounce lv h) = b_state h" "b_repeat (button_debounce lv h) = b_repeat h"
  "b_ticks (button_debounce lv h) = b_ticks h" "b_cb (button_debounce lv h) = b_cb h"
  "b_event (button_debounce lv h) = b_event h" "b_active_level (button_debounce lv h) = b_active_level h"
  by (simp_all add: button_debounce_def Let_def)

lemma button_count_frame [simp]:
  "b_state (button_count h) = b_state h" "b_repeat (button_count h) = b_repeat h"
  "b_cb (button_count h) = b_cb h" "b_event (button_count h) = b_event h"
  "b_active_level (button_count h) = b_active_level h" "b_button_level (button_count h) = b_button_level h"
  "b_debounce_cnt (button_count h) = b_debounce_cnt h" "is_pressed (button_count h) = is_pressed h"
  "sample_pressed (button_count h) lv = sample_pressed h lv"
  by (simp_all add: button_count_def is_pressed_def sample_pressed_def)

lemma button_switch_frame [simp]:
  "b_cb (fst (button_switch h)) = b_cb h" "b_active_level (fst (button_switch h)) = b_active_level h"
  "b_debounce_cnt (fst (button_switch h)) = b_debounce_cnt h"
  "b_button_level (fst (button_switch h)) = b_button_level h"
  "b_next (fst (button_switch h)) = b_next h" "b_user_data (fst (button_switch h)) = b_user_data h"
  "b_hal (fst (button_switch h)) = b_hal h"
  by (simp_all add: button_switch_def button_defs)

definition button_rel :: "'e button \<Rightarrow> bool \<Rightarrow> nat \<Rightarrow> click_phase \<Rightarrow> bool" where
  "button_rel h l c p \<longleftrightarrow> is_pressed h = l \<and> unat (b_debounce_cnt h) = c \<and> c < DEBOUNCE_TICKS \<and> phase_rel h p"

lemma deb_step_bound: "c < DEBOUNCE_TICKS \<Longrightarrow> deb_step l c s = (l', c') \<Longrightarrow> c' < DEBOUNCE_TICKS"
  by (auto simp: deb_step_def DEBOUNCE_TICKS_def split: if_splits)

lemma button_step_refines:
  assumes r: "button_rel h l c p" and fit: "counts_fit p" "counts_fit p'" and lv: "lv = 0 \<or> lv = 1"
    and d: "deb_step l c (sample_pressed h lv) = (l', c')" and k: "click_step p l' = (p', evs, ev)"
  shows "button_rel (fst (button_step lv h)) l' c' p' \<and> snd (button_step lv h) = callbacks (b_cb h) evs
    \<and> b_event (fst (button_step lv h)) = (case ev of None \<Rightarrow> b_event h | Some v \<Rightarrow> of_nat (evt_code v))"
proof -
  define g where "g = button_debounce lv (button_count h)"
  have "unat (b_debounce_cnt (button_count h)) < 6" using r by (simp add: button_rel_def DEBOUNCE_TICKS_def)
  from debounce_refines [OF this lv] have g: "is_pressed g = l'" "unat (b_debounce_cnt g) = c'"
    using r d by (simp_all add: g_def button_rel_def)
  have "phase_rel (fst (button_switch g)) p' \<and> snd (button_switch g) = callbacks (b_cb g) evs
    \<and> b_event (fst (button_switch g)) = (case ev of None \<Rightarrow> b_event g | Some v \<Rightarrow> of_nat (evt_code v))"
    using r g fit by (intro switch_refines [OF _ _ _ k, of h]) (auto simp: button_rel_def g_def)
  moreover have "c' < DEBOUNCE_TICKS" using r d deb_step_bound by (auto simp: button_rel_def)
  moreover have "b_cb g = b_cb h" "b_event g = b_event h" "button_step lv h = button_switch g"
    by (simp_all add: g_def button_step_def)
  ultimately show ?thesis using g by (cases ev) (auto simp: button_rel_def is_pressed_def)
qed

lemma button_step_frame [simp]:
  "b_cb (fst (button_step lv h)) = b_cb h" "b_active_level (fst (button_step lv h)) = b_active_level h"
  "b_next (fst (button_step lv h)) = b_next h" "b_user_data (fst (button_step lv h)) = b_user_data h"
  "b_hal (fst (button_step lv h)) = b_hal h"
  by (simp_all add: button_step_def button_count_def button_debounce_def Let_def)

lemma button_run_Cons:
  "fst (button_run (lv # lvs) h) = fst (button_run lvs (fst (button_step lv h)))"
  "snd (button_run (lv # lvs) h) = snd (button_step lv h) @ snd (button_run lvs (fst (button_step lv h)))"
  by (simp_all add: split_beta)

lemma button_run_refines:
  assumes "button_rel h l c p" and "\<forall>lv\<in>set lvs. lv = 0 \<or> lv = 1"
    and "run_fits (debounced l c (map (sample_pressed h) lvs)) p"
    and "click_run (debounced l c (map (sample_pressed h) lvs)) p = (p', evs)"
  shows "(\<exists>l' c'. button_rel (fst (button_run lvs h)) l' c' p') \<and> snd (button_run lvs h) = callbacks (b_cb h) evs"
  using assms
proof (induction lvs arbitrary: h l c p evs)
  case Nil
  then show ?case by auto
next
  case (Cons lv lvs)
  define h1 where "h1 = fst (button_step lv h)"
  obtain l1 c1 where d: "deb_step l c (sample_pressed h lv) = (l1, c1)" by force
  obtain p1 evs1 ev1 where k: "click_step p l1 = (p1, evs1, ev1)" by (metis prod_cases3)
  have same: "sample_pressed h1 = sample_pressed h" by (rule ext) (simp add: sample_pressed_def h1_def)
  obtain evs2 where k2: "click_run (debounced l1 c1 (map (sample_pressed h) lvs)) p1 = (p', evs2)" and evs: "evs = evs1 @ evs2"
    using Cons.prems(4) d k by (auto split: prod.splits)
  have fit: "counts_fit p" "run_fits (debounced l1 c1 (map (sample_pressed h) lvs)) p1"
    using Cons.prems(3) d k by auto
  then have "counts_fit p1" by (cases "debounced l1 c1 (map (sample_pressed h) lvs)") auto
  then have step: "button_rel h1 l1 c1 p1" "snd (button_step lv h) = callbacks (b_cb h) evs1"
    using button_step_refines [OF Cons.prems(1) fit(1) _ _ d k] Cons.prems(2) by (auto simp: h1_def)
  have "(\<exists>l' c'. button_rel (fst (button_run lvs h1)) l' c' p') \<and> snd (button_run lvs h1) = callbacks (b_cb h1) evs2"
    using Cons.prems(2) fit(2) k2 by (intro Cons.IH [OF step(1)]) (auto simp: same)
  then show ?case unfolding button_run_Cons using step(2) evs by (simp add: h1_def)
qed

section \<open>Debouncing\<close>

lemma debounced_wait:
  "c + n < DEBOUNCE_TICKS \<Longrightarrow> debounced l c (replicate n (\<not> l) @ ss) = replicate n l @ debounced l (c + n) ss"
  by (induction n arbitrary: c) (auto simp: deb_step_def)

lemma debounced_same: "debounced l 0 (replicate n l @ ss) = replicate n l @ debounced l 0 ss"
  by (induction n) (auto simp: deb_step_def)

text \<open>A run of at least six equal samples comes through five samples late.\<close>

lemma debounced_run:
  assumes "6 \<le> n"
  shows "debounced l 0 (replicate n (\<not> l) @ ss) = replicate 5 l @ replicate (n - 5) (\<not> l) @ debounced (\<not> l) 0 ss"
proof -
  have n: "replicate n (\<not> l) @ ss = replicate 5 (\<not> l) @ (\<not> l) # replicate (n - 6) (\<not> l) @ ss"
    using assms by (simp flip: replicate_Suc append_assoc append_Cons add: replicate_add [symmetric])
  have "replicate (n - 5) (\<not> l) = (\<not> l) # replicate (n - 6) (\<not> l)"
    using assms by (simp flip: replicate_Suc)
  then show ?thesis
    unfolding n using debounced_wait [of 0 5 l] debounced_same [of "\<not> l"]
    by (simp add: DEBOUNCE_TICKS_def deb_step_def)
qed

text \<open>The state of the debouncer after a sequence of samples.\<close>

definition deb_run :: "bool \<Rightarrow> nat \<Rightarrow> bool list \<Rightarrow> bool \<times> nat" where
  "deb_run l c ss = fold (\<lambda>s (l, c). deb_step l c s) ss (l, c)"

lemma deb_run_snoc: "deb_run l c (ss @ [s]) = (case deb_run l c ss of (l', c') \<Rightarrow> deb_step l' c' s)"
  by (simp add: deb_run_def)

text \<open>The count is the number of samples at the end that contradict the level.\<close>

lemma deb_run_count:
  assumes "deb_run l 0 ss = (l', c)"
  shows "c < DEBOUNCE_TICKS \<and> (\<exists>us. ss = us @ replicate c (\<not> l'))"
  using assms
proof (induction ss arbitrary: l' c rule: rev_induct)
  case Nil
  then show ?case by (simp add: deb_run_def DEBOUNCE_TICKS_def)
next
  case (snoc s ss)
  obtain l1 c1 where r: "deb_run l 0 ss = (l1, c1)" by force
  then obtain us where us: "c1 < DEBOUNCE_TICKS" "ss = us @ replicate c1 (\<not> l1)" using snoc.IH by blast
  have step: "deb_step l1 c1 s = (l', c)" using snoc.prems r by (simp add: deb_run_snoc)
  show ?case
  proof (cases "s = l1 \<or> c1 = 5")
    case True
    then have "c = 0" using step us(1) by (auto simp: deb_step_def DEBOUNCE_TICKS_def split: if_splits)
    then show ?thesis by (simp add: DEBOUNCE_TICKS_def)
  next
    case False
    then have "l' = l1" "c = c1 + 1" "c < DEBOUNCE_TICKS" "s = (\<not> l1)"
      using step us(1) by (auto simp: deb_step_def DEBOUNCE_TICKS_def split: if_splits)
    then show ?thesis using us(2) by (intro conjI exI [of _ us]) (simp_all add: replicate_append_same)
  qed
qed

lemma deb_run_change:
  assumes "fst (deb_run l 0 (ss @ [s])) \<noteq> fst (deb_run l 0 ss)"
  shows "fst (deb_run l 0 (ss @ [s])) = s \<and> (\<exists>us. ss @ [s] = us @ replicate 6 s)"
proof -
  obtain l1 c1 where r: "deb_run l 0 ss = (l1, c1)" by force
  then obtain us where us: "c1 < DEBOUNCE_TICKS" "ss = us @ replicate c1 (\<not> l1)" using deb_run_count by blast
  have s: "s = (\<not> l1)" "c1 = 5"
    using assms r us(1) by (auto simp: deb_run_snoc deb_step_def DEBOUNCE_TICKS_def split: if_splits)
  have "fst (deb_run l 0 (ss @ [s])) = s" using r s by (simp add: deb_run_snoc deb_step_def DEBOUNCE_TICKS_def)
  moreover have "ss @ [s] = us @ replicate 6 s"
    using us(2) s by (simp add: replicate_append_same flip: replicate_Suc)
  ultimately show ?thesis by blast
qed

lemma deb_run_settles: "c < DEBOUNCE_TICKS \<Longrightarrow> fst (deb_run l c (replicate 6 s)) = s"
  by (auto simp: deb_run_def deb_step_def DEBOUNCE_TICKS_def numeral_eq_Suc)

lemma deb_run_append: "deb_run l c (xs @ ys) = (case deb_run l c xs of (l', c') \<Rightarrow> deb_run l' c' ys)"
  by (simp add: deb_run_def split_beta)

lemma deb_run_bound: "c < DEBOUNCE_TICKS \<Longrightarrow> snd (deb_run l c ss) < DEBOUNCE_TICKS"
  by (induction ss rule: rev_induct) (auto simp: deb_run_def deb_step_def split_beta)

lemma button_run_debounces:
  assumes "button_wf h" and "\<forall>lv\<in>set lvs. lv = 0 \<or> lv = 1"
  shows "deb_run (is_pressed h) (unat (b_debounce_cnt h)) (map (sample_pressed h) lvs)
    = (is_pressed (fst (button_run lvs h)), unat (b_debounce_cnt (fst (button_run lvs h))))"
  using assms
proof (induction lvs arbitrary: h)
  case Nil
  then show ?case by (simp add: deb_run_def)
next
  case (Cons lv lvs)
  define h1 where "h1 = fst (button_step lv h)"
  have "unat (b_debounce_cnt (button_count h)) < 6" using Cons.prems by (simp add: button_wf_def DEBOUNCE_TICKS_def)
  from debounce_refines [OF this, of lv]
  have "deb_step (is_pressed h) (unat (b_debounce_cnt h)) (sample_pressed h lv) = (is_pressed h1, unat (b_debounce_cnt h1))"
    using Cons.prems(2) by (simp add: h1_def button_step_def is_pressed_def)
  moreover have "sample_pressed h1 = sample_pressed h" by (rule ext) (simp add: sample_pressed_def h1_def)
  moreover have "button_wf h1" using Cons.prems button_step_wf(1) by (simp add: h1_def)
  ultimately show ?case using Cons.IH [of h1] Cons.prems(2)
    unfolding button_run_Cons by (simp add: deb_run_def h1_def)
qed

section \<open>Gestures\<close>

text \<open>\<open>clicks ls p p' evs\<close>: over the levels \<open>ls\<close> the click machine goes from \<open>p\<close> to \<open>p'\<close>, with the events
  \<open>evs\<close> and without an overflow.\<close>

definition clicks :: "bool list \<Rightarrow> click_phase \<Rightarrow> click_phase \<Rightarrow> press_evt list \<Rightarrow> bool" where
  "clicks ls p p' evs \<longleftrightarrow> click_run ls p = (p', evs) \<and> run_fits ls p"

lemma clicks_Nil [simp]: "clicks [] p p' evs \<longleftrightarrow> p' = p \<and> evs = [] \<and> counts_fit p"
  by (auto simp: clicks_def)

lemma clicks_Cons:
  "\<lbrakk>counts_fit p; click_step p l = (p1, e1, ev); clicks ls p1 p' e2\<rbrakk> \<Longrightarrow> clicks (l # ls) p p' (e1 @ e2)"
  by (auto simp: clicks_def)

lemma clicks_append:
  "\<lbrakk>clicks xs p p1 e1; clicks ys p1 p' e2\<rbrakk> \<Longrightarrow> clicks (xs @ ys) p p' (e1 @ e2)"
proof (induction xs arbitrary: p e1)
  case (Cons x xs)
  obtain q f ev where k: "click_step p x = (q, f, ev)" by (metis prod_cases3)
  with Cons.prems(1) obtain g where "e1 = f @ g" "clicks xs q p1 g" "counts_fit p"
    by (auto simp: clicks_def split: prod.splits)
  then show ?case using clicks_Cons [OF _ k] Cons.IH Cons.prems(2) by simp
qed auto

lemma clicks_idle: "clicks (replicate n False) Idle Idle []"
  by (induction n) (auto simp: clicks_def)

lemma clicks_pressed: "t + n \<le> 200 \<Longrightarrow> clicks (replicate n True) (Pressed t) (Pressed (t + n)) []"
proof (induction n arbitrary: t)
  case (Suc n)
  then have "clicks (True # replicate n True) (Pressed t) (Pressed (t + 1 + n)) ([] @ [])"
    using Suc.IH [of "t + 1"] by (intro clicks_Cons [of _ _ "Pressed (t + 1)"]) auto
  then show ?case by simp
qed simp

lemma clicks_released: "\<lbrakk>t + n \<le> 80; k < 16\<rbrakk> \<Longrightarrow> clicks (replicate n False) (Released t k) (Released (t + n) k) []"
proof (induction n arbitrary: t)
  case (Suc n)
  then have "clicks (False # replicate n False) (Released t k) (Released (t + 1 + n) k) ([] @ [])"
    using Suc.IH [of "t + 1"] by (intro clicks_Cons [of _ _ "Released (t + 1) k"]) auto
  then show ?case by simp
qed simp

lemma clicks_repressed:
  "\<lbrakk>t + n < 65535; k < 16\<rbrakk> \<Longrightarrow> clicks (replicate n True) (Repressed t k) (Repressed (t + n) k) []"
proof (induction n arbitrary: t)
  case (Suc n)
  then have "clicks (True # replicate n True) (Repressed t k) (Repressed (t + 1 + n) k) ([] @ [])"
    using Suc.IH [of "t + 1"] by (intro clicks_Cons [of _ _ "Repressed (t + 1) k"]) auto
  then show ?case by simp
qed simp

lemma clicks_held: "clicks (replicate n True) Held Held (replicate n LONG_PRESS_HOLD)"
proof (induction n)
  case (Suc n)
  then have "clicks (True # replicate n True) Held Held ([LONG_PRESS_HOLD] @ replicate n LONG_PRESS_HOLD)"
    by (intro clicks_Cons [of _ _ Held]) auto
  then show ?case by simp
qed simp

lemma replicate_pos: "0 < n \<Longrightarrow> replicate n x = x # replicate (n - 1) x"
  by (cases n) auto

text \<open>A release that lasts: the click is over after 81 more ticks.\<close>

definition timeout_events :: "nat \<Rightarrow> press_evt list" where
  "timeout_events k = (if k = 1 then [SINGLE_CLICK] else [])"

lemma clicks_timeout:
  assumes "t \<le> 80" and "80 < t + n" and "k < 16"
  shows "clicks (replicate n False) (Released t k) Idle (timeout_events k)"
proof -
  have n: "replicate n False = replicate (80 - t) False @ False # replicate (t + n - 81) False"
    using assms(1,2) by (simp flip: replicate_Suc replicate_add)
  have "clicks (False # replicate (t + n - 81) False) (Released 80 k) Idle (timeout_events k @ [])"
    using assms clicks_idle
    by (intro clicks_Cons [of _ _ Idle _ "if k = 1 then Some SINGLE_CLICK else if k = 2 then Some DOUBLE_CLICK else None"])
      (auto simp: timeout_events_def)
  then show ?thesis
    unfolding n using clicks_append [OF clicks_released [of t "80 - t" k]] assms by fastforce
qed

text \<open>The debounced stream of one press and release that starts from a released level.\<close>

definition press_levels :: "nat \<times> nat \<Rightarrow> bool list" where
  "press_levels = (\<lambda>(p, r). replicate 5 False @ replicate p True @ replicate (r - 5) False)"

definition repeat_events :: "nat \<Rightarrow> press_evt list" where
  "repeat_events k = [PRESS_DOWN] @ (if k = 2 then [DOUBLE_CLICK] else []) @ [PRESS_REPEAT, PRESS_UP]"

lemma clicks_first_press:
  assumes "1 \<le> p" "p \<le> 201" "6 \<le> r" "r \<le> 86"
  shows "clicks (press_levels (p, r)) Idle (Released (r - 6) 1) [PRESS_DOWN, PRESS_UP]"
proof -
  have r: "replicate (r - 5) False = False # replicate (r - 6) False"
    and p: "replicate p True = True # replicate (p - 1) True" using assms by (simp_all add: replicate_pos)
  have "clicks (replicate (r - 5) False) (Pressed (p - 1)) (Released (r - 6) 1) ([PRESS_UP] @ [])"
    unfolding r using assms clicks_released [of 0 "r - 6" 1]
    by (intro clicks_Cons [of _ _ "Released 0 1"]) auto
  moreover have "clicks (replicate p True) Idle (Pressed (p - 1)) ([PRESS_DOWN] @ [])"
    unfolding p using assms clicks_pressed [of 0 "p - 1"] by (intro clicks_Cons [of _ _ "Pressed 0"]) auto
  ultimately show ?thesis
    using clicks_append [OF clicks_idle [of 5] clicks_append] by (fastforce simp: press_levels_def)
qed

lemma clicks_next_press:
  assumes "1 \<le> p" "p < 80" "6 \<le> r" "r \<le> 86" "t \<le> 75" "k < 15"
  shows "clicks (press_levels (p, r)) (Released t k) (Released (r - 6) (k + 1)) (repeat_events (k + 1))"
proof -
  have r: "replicate (r - 5) False = False # replicate (r - 6) False"
    and p: "replicate p True = True # replicate (p - 1) True" using assms by (simp_all add: replicate_pos)
  have "clicks (replicate (r - 5) False) (Repressed (p - 1) (k + 1)) (Released (r - 6) (k + 1)) ([PRESS_UP] @ [])"
    unfolding r using assms clicks_released [of 0 "r - 6" "k + 1"]
    by (intro clicks_Cons [of _ _ "Released 0 (k + 1)"]) auto
  moreover have "clicks (replicate p True) (Released (t + 5) k) (Repressed (p - 1) (k + 1))
      (([PRESS_DOWN] @ (if k + 1 = 2 then [DOUBLE_CLICK] else []) @ [PRESS_REPEAT]) @ [])"
    unfolding p using assms clicks_repressed [of 0 "p - 1" "k + 1"]
    by (intro clicks_Cons [of _ _ "Repressed 0 (k + 1)"]) auto
  moreover have "clicks (replicate 5 False) (Released t k) (Released (t + 5) k) []"
    using assms by (intro clicks_released) auto
  ultimately show ?thesis
    using clicks_append [OF _ clicks_append] by (fastforce simp: press_levels_def repeat_events_def)
qed

text \<open>Several presses, the last one followed by a pause.\<close>

definition quick :: "nat \<times> nat \<Rightarrow> bool" where
  "quick pr \<longleftrightarrow> 6 \<le> fst pr \<and> fst pr < 80 \<and> 6 \<le> snd pr \<and> snd pr \<le> 81"

definition gesture_events :: "nat \<Rightarrow> press_evt list" where
  "gesture_events n = [PRESS_DOWN, PRESS_UP] @ concat (map repeat_events [2..<n + 1])"

lemma clicks_quick:
  assumes "gs \<noteq> []" and "\<forall>g\<in>set gs. quick g" and "length gs < 16"
  shows "clicks (concat (map press_levels gs)) Idle (Released (snd (last gs) - 6) (length gs)) (gesture_events (length gs))"
  using assms
proof (induction gs rule: rev_induct)
  case (snoc g gs)
  obtain p r where g: "g = (p, r)" by force
  then have q: "6 \<le> p" "p < 80" "6 \<le> r" "r \<le> 81" using snoc.prems(2) by (auto simp: quick_def)
  show ?case
  proof (cases "gs = []")
    case True
    then show ?thesis using q g clicks_first_press [of p r] by (simp add: gesture_events_def)
  next
    case False
    have "quick (last gs)" using snoc.prems(2) last_in_set [OF False] by simp
    then have "snd (last gs) - 6 \<le> 75" by (auto simp: quick_def)
    then have "clicks (press_levels g) (Released (snd (last gs) - 6) (length gs)) (Released (r - 6) (length gs + 1)) (repeat_events (length gs + 1))"
      unfolding g using q snoc.prems(3) by (intro clicks_next_press) auto
    moreover have "gesture_events (length gs + 1) = gesture_events (length gs) @ repeat_events (length gs + 1)"
      using False by (cases gs) (simp_all add: gesture_events_def)
    ultimately show ?thesis
      using clicks_append [OF snoc.IH [OF False]] snoc.prems g by simp
  qed
qed simp

lemma debounced_presses:
  "\<forall>g\<in>set gs. quick g \<Longrightarrow>
    debounced False 0 (concat (map (\<lambda>(p, r). replicate p True @ replicate r False) gs) @ ss)
      = concat (map press_levels gs) @ debounced False 0 ss"
proof (induction gs)
  case (Cons g gs)
  obtain p r where g: "g = (p, r)" by force
  then have q: "6 \<le> p" "6 \<le> r" using Cons.prems by (auto simp: quick_def)
  have "replicate (p - 5) True @ replicate 5 True = replicate p True" using q by (simp flip: replicate_add)
  then have "replicate (p - 5) True @ replicate 5 True @ xs = replicate p True @ xs" for xs
    by (metis append_assoc)
  then show ?case
    using Cons debounced_run [of p False "replicate r False @ _"] debounced_run [of r True] q
    by (simp add: g press_levels_def)
qed simp

lemma clicks_long:
  assumes "202 \<le> p" and "6 \<le> r"
  shows "clicks (press_levels (p, r)) Idle Idle
    ([PRESS_DOWN, LONG_PRESS_START] @ replicate (p - 202) LONG_PRESS_HOLD @ [PRESS_UP])"
proof -
  have p: "replicate p True = True # replicate 200 True @ True # replicate (p - 202) True"
    and r: "replicate (r - 5) False = False # replicate (r - 6) False"
    using assms by (simp_all flip: replicate_Suc replicate_add)
  have "clicks (True # replicate (p - 202) True) (Pressed 200) Held ([LONG_PRESS_START] @ replicate (p - 202) LONG_PRESS_HOLD)"
    using clicks_held by (intro clicks_Cons [of _ _ Held]) auto
  then have "clicks (replicate 200 True @ True # replicate (p - 202) True) (Pressed 0) Held
      ([] @ [LONG_PRESS_START] @ replicate (p - 202) LONG_PRESS_HOLD)"
    using clicks_pressed [of 0 200] by (intro clicks_append [of _ _ "Pressed 200"]) simp_all
  then have "clicks (replicate p True) Idle Held ([PRESS_DOWN] @ [LONG_PRESS_START] @ replicate (p - 202) LONG_PRESS_HOLD)"
    unfolding p by (intro clicks_Cons [of _ _ "Pressed 0"]) simp_all
  moreover have "clicks (replicate (r - 5) False) Held Idle ([PRESS_UP] @ [])"
    unfolding r using clicks_idle by (intro clicks_Cons [of _ _ Idle]) auto
  ultimately show ?thesis
    using clicks_append [OF clicks_idle [of 5] clicks_append] by (fastforce simp: press_levels_def)
qed

text \<open>From the click machine to the driver.\<close>

lemma button_run_clicks:
  assumes "button_rel h l c p" and "\<forall>lv\<in>set lvs. lv = 0 \<or> lv = 1"
    and "clicks (debounced l c (map (sample_pressed h) lvs)) p p' evs"
  shows "(\<exists>l' c'. button_rel (fst (button_run lvs h)) l' c' p') \<and> snd (button_run lvs h) = callbacks (b_cb h) evs"
  using button_run_refines [OF assms(1,2)] assms(3) by (auto simp: clicks_def)

lemma button_handler_Inr:
  "button_handler h e = Inr (h', log, e') \<longleftrightarrow>
    (\<exists>lv. hal_button_Level h e = Inr (lv, e') \<and> button_step lv h = (h', log))"
  by (cases "hal_button_Level h e") (auto simp: button_handler_def split_beta prod_eq_iff)

section \<open>Properties of one button\<close>

text \<open>A button on a pin that is read low (released) with one callback per event, for the witnesses.\<close>

definition demo_button :: "unit button" where
  "demo_button = \<lparr>b_ticks = 0, b_repeat = 0, b_event = 8, b_state = 0, b_debounce_cnt = 0, b_active_level = 1,
     b_button_level = 0, b_user_data = 23, b_hal = Some (\<lambda>_ _ e. (0, e)), b_cb = map Some [0..<7], b_next = 0\<rparr>"

definition bits :: "bool list \<Rightarrow> u8 list" where
  "bits ls = map (\<lambda>b. if b then 1 else 0) ls"

lemma bits_ok: "\<forall>lv\<in>set (bits ls). lv = 0 \<or> lv = 1" "map (sample_pressed demo_button) (bits ls) = ls"
proof -
  show "\<forall>lv\<in>set (bits ls). lv = 0 \<or> lv = 1" by (auto simp: bits_def)
  have "sample_pressed demo_button (if b then 1 else 0) = b" for b by (simp add: sample_pressed_def demo_button_def)
  then show "map (sample_pressed demo_button) (bits ls) = ls" by (simp add: bits_def o_def)
qed

lemma demo_button_rel: "button_rel demo_button False 0 Idle" "button_wf demo_button"
  by (simp_all add: button_rel_def demo_button_def is_pressed_def DEBOUNCE_TICKS_def button_wf_def button_states_def)

lemma button_wf_kept:
  "button_init pin lv ud e = Inr (h, e') \<Longrightarrow> button_wf h"
  "\<lbrakk>button_wf h; button_attach h ev f = Inr h'\<rbrakk> \<Longrightarrow> button_wf h'"
  "\<lbrakk>button_wf h; button_handler h e = Inr (h', log, e')\<rbrakk> \<Longrightarrow>
    button_wf h' \<and> (b_button_level h' = b_active_level h' \<longleftrightarrow> b_state h' \<in> {1, 3, 5})"
proof -
  show "button_init pin lv ud e = Inr (h, e') \<Longrightarrow> button_wf h"
    by (auto simp: button_init_def bind_res_Inr button_wf_def button_states_def DEBOUNCE_TICKS_def Let_def)
  show "\<lbrakk>button_wf h; button_attach h ev f = Inr h'\<rbrakk> \<Longrightarrow> button_wf h'"
    by (auto simp: button_attach_def button_wf_def split: if_splits)
  assume "button_wf h" "button_handler h e = Inr (h', log, e')"
  moreover from this obtain lv where "h' = fst (button_step lv h)"
    unfolding button_handler_Inr by (metis fst_conv)
  ultimately show "button_wf h' \<and> (b_button_level h' = b_active_level h' \<longleftrightarrow> b_state h' \<in> {1, 3, 5})"
    using button_step_wf [of h lv] by (simp add: is_pressed_def)
qed

text \<open>every button is in one of the five states of its state machine with a debounce count below the limit,
  from initialisation on and through every attachment and every call of the handler; after a call it
  is in a pressed state exactly when its debounced level is the active level.\<close>

theorem button_invariant_kept:
  "(button_init pin lv ud e = Inr (h0, e0) \<longrightarrow> button_wf h0)
    \<and> (button_wf h \<and> button_attach h ev f = Inr h1 \<longrightarrow> button_wf h1)
    \<and> (button_wf h \<and> button_handler h e = Inr (h2, log, e2) \<longrightarrow>
        button_wf h2 \<and> (b_button_level h2 = b_active_level h2 \<longleftrightarrow> b_state h2 \<in> {1, 3, 5}))"
  by (intro conjI impI) (auto dest: button_wf_kept)

theorem button_invariant_kept_witness:
  "\<exists>h' log. button_handler demo_button () = Inr (h', log, ()) \<and> button_wf h'"
proof -
  have "\<exists>h' log. button_handler demo_button () = Inr (h', log, ())"
    by (simp add: button_handler_def hal_button_Level_def demo_button_def split: prod.splits)
  then obtain h' log where r: "button_handler demo_button () = Inr (h', log, ())" by blast
  then have "button_wf h'"
    using button_invariant_kept [where h = demo_button and e = "()" and ?h2.0 = h' and log = log and ?e2.0 = "()"] demo_button_rel(2)
    by simp
  with r show ?thesis by blast
qed

lemma button_level_debounced:
  assumes wf: "button_wf h" and c0: "b_debounce_cnt h = 0" and lvs: "\<forall>lv\<in>set (lvs @ [lv]). lv = 0 \<or> lv = 1"
  shows "b_button_level (fst (button_run (lvs @ replicate 6 lv) h)) = ucast lv"
    and "b_button_level (fst (button_run (lvs @ [lv]) h)) \<noteq> b_button_level (fst (button_run lvs h)) \<Longrightarrow>
      b_button_level (fst (button_run (lvs @ [lv]) h)) = ucast lv
      \<and> (\<exists>us. map (sample_pressed h) (lvs @ [lv]) = us @ replicate 6 (sample_pressed h lv))"
proof -
  have act: "b_active_level (fst (button_run xs h)) = b_active_level h" for xs
    by (induction xs arbitrary: h) (simp_all add: split_beta)
  have eq: "a = b \<longleftrightarrow> (a = c \<longleftrightarrow> b = c)" for a b c :: "1 word"
    using word1_cases [of a] word1_cases [of b] word1_cases [of c] by auto
  have run: "deb_run (is_pressed h) 0 (map (sample_pressed h) xs)
      = (is_pressed (fst (button_run xs h)), unat (b_debounce_cnt (fst (button_run xs h))))"
    if "\<forall>x\<in>set xs. x = 0 \<or> x = 1" for xs
    using button_run_debounces [OF wf that] c0 by simp
  have lev: "b_button_level (fst (button_run xs h)) = ucast x \<longleftrightarrow> is_pressed (fst (button_run xs h)) = sample_pressed h x"
    for xs x by (subst eq [where c = "b_active_level h"]) (simp add: is_pressed_def sample_pressed_def act)
  have "snd (deb_run (is_pressed h) 0 (map (sample_pressed h) lvs)) < DEBOUNCE_TICKS"
    by (rule deb_run_bound) (simp add: DEBOUNCE_TICKS_def)
  then have "fst (deb_run (is_pressed h) 0 (map (sample_pressed h) lvs @ replicate 6 (sample_pressed h lv))) = sample_pressed h lv"
    by (auto simp: deb_run_append deb_run_settles split: prod.splits)
  then show "b_button_level (fst (button_run (lvs @ replicate 6 lv) h)) = ucast lv"
    using run [of "lvs @ replicate 6 lv"] lvs unfolding lev by (simp add: ball_Un)
  assume "b_button_level (fst (button_run (lvs @ [lv]) h)) \<noteq> b_button_level (fst (button_run lvs h))"
  then have "is_pressed (fst (button_run (lvs @ [lv]) h)) \<noteq> is_pressed (fst (button_run lvs h))"
    using eq [of "b_button_level (fst (button_run (lvs @ [lv]) h))" "b_button_level (fst (button_run lvs h))" "b_active_level h"]
    by (simp add: is_pressed_def act)
  then have "fst (deb_run (is_pressed h) 0 (map (sample_pressed h) lvs @ [sample_pressed h lv]))
      \<noteq> fst (deb_run (is_pressed h) 0 (map (sample_pressed h) lvs))"
    using run [of lvs] run [of "lvs @ [lv]"] lvs by (simp add: ball_Un)
  from deb_run_change [OF this] show "b_button_level (fst (button_run (lvs @ [lv]) h)) = ucast lv
      \<and> (\<exists>us. map (sample_pressed h) (lvs @ [lv]) = us @ replicate 6 (sample_pressed h lv))"
    using run [of "lvs @ [lv]"] lvs unfolding lev by (simp add: ball_Un)
qed

text \<open>the level of a button is debounced: after six equal samples it has that level whatever came
  before, and it changes only with a sample that is the sixth of equal samples of the new level.\<close>

theorem button_level_is_debounced:
  assumes "button_wf h" and "b_debounce_cnt h = 0" and "\<forall>lv\<in>set (lvs @ [lv]). lv = 0 \<or> lv = 1"
  shows "b_button_level (fst (button_run (lvs @ replicate 6 lv) h)) = ucast lv
    \<and> (b_button_level (fst (button_run (lvs @ [lv]) h)) \<noteq> b_button_level (fst (button_run lvs h)) \<longrightarrow>
        b_button_level (fst (button_run (lvs @ [lv]) h)) = ucast lv
        \<and> (\<exists>us. map (sample_pressed h) (lvs @ [lv]) = us @ replicate 6 (sample_pressed h lv)))"
  using button_level_debounced [OF assms] by blast

theorem button_level_is_debounced_witness:
  "b_button_level (fst (button_run ([0, 1, 0] @ replicate 6 1) demo_button)) = 1"
  using button_level_is_debounced [OF demo_button_rel(2), of "[0, 1, 0]" 1] by (simp add: demo_button_def)

text \<open>C4: over every sequence of samples the driver refines the composition of the debouncer and
  the click machine: it invokes exactly the callbacks attached to the events of the machine over the debounced
  levels, in order, as long as no counter of the driver overflows.\<close>

theorem button_refines_click_machine:
  assumes "button_rel h l c p" and "\<forall>lv\<in>set lvs. lv = 0 \<or> lv = 1"
    and "run_fits (debounced l c (map (sample_pressed h) lvs)) p"
    and "click_run (debounced l c (map (sample_pressed h) lvs)) p = (p', evs)"
  shows "(\<exists>l' c'. button_rel (fst (button_run lvs h)) l' c' p') \<and> snd (button_run lvs h) = callbacks (b_cb h) evs"
  using assms by (rule button_run_refines)

theorem button_refines_click_machine_witness:
  "snd (button_run (bits (replicate 8 True @ replicate 6 False)) demo_button) = [(PRESS_DOWN, 0), (PRESS_UP, 1)]"
proof -
  let ?ls = "debounced False 0 (replicate 8 True @ replicate 6 False)"
  have "run_fits ?ls Idle" by code_simp
  moreover have "click_run ?ls Idle = (Released 0 1, [PRESS_DOWN, PRESS_UP])" by code_simp
  moreover have "callbacks (b_cb demo_button) [PRESS_DOWN, PRESS_UP] = [(PRESS_DOWN, 0), (PRESS_UP, 1)]" by code_simp
  ultimately show ?thesis
    using button_refines_click_machine [OF demo_button_rel(1) bits_ok(1), unfolded bits_ok(2)] by metis
qed

text \<open>C20: a released button that is pressed up to fifteen times, each press 6 to 79 ticks long and each
  pause between them 6 to 81 ticks, and then left alone for 81 more ticks, reports exactly one
  press and release per press, a double click with the second press and a repeat with every press after
  the first, a single click only when it was pressed once, and is idle again.\<close>

theorem button_counts_quick_presses:
  assumes "button_rel h False 0 Idle" and "\<forall>lv\<in>set lvs. lv = 0 \<or> lv = 1"
    and "gs \<noteq> []" and "\<forall>g\<in>set gs. quick g" and "length gs < 16" and "81 \<le> n"
    and "map (sample_pressed h) lvs = concat (map (\<lambda>(p, r). replicate p True @ replicate r False) gs) @ replicate n False"
  shows "snd (button_run lvs h) = callbacks (b_cb h) (gesture_events (length gs) @ timeout_events (length gs))
    \<and> b_state (fst (button_run lvs h)) = 0"
proof -
  have "quick (last gs)" using assms(3,4) by simp
  then have "snd (last gs) - 6 \<le> 80" by (auto simp: quick_def)
  then have "clicks (replicate n False) (Released (snd (last gs) - 6) (length gs)) Idle (timeout_events (length gs))"
    using assms(5,6) by (intro clicks_timeout) auto
  from clicks_append [OF clicks_quick [OF assms(3-5)] this]
  have "clicks (debounced False 0 (map (sample_pressed h) lvs)) Idle Idle (gesture_events (length gs) @ timeout_events (length gs))"
    unfolding assms(7) debounced_presses [OF assms(4)] using debounced_same [of False n "[]"] by simp
  from button_run_clicks [OF assms(1,2) this] show ?thesis by (auto simp: button_rel_def)
qed

theorem button_counts_quick_presses_witness:
  "snd (button_run (bits (replicate 20 True @ replicate 10 False @ replicate 20 True @ replicate 10 False @ replicate 81 False)) demo_button)
    = [(PRESS_DOWN, 0), (PRESS_UP, 1), (PRESS_DOWN, 0), (DOUBLE_CLICK, 4), (PRESS_REPEAT, 2), (PRESS_UP, 1)]"
proof -
  have "callbacks (b_cb demo_button) (gesture_events 2 @ timeout_events 2)
      = [(PRESS_DOWN, 0), (PRESS_UP, 1), (PRESS_DOWN, 0), (DOUBLE_CLICK, 4), (PRESS_REPEAT, 2), (PRESS_UP, 1)]"
    by code_simp
  then show ?thesis
    using button_counts_quick_presses [OF demo_button_rel(1) bits_ok(1), of "[(20, 10), (20, 10)]" 81]
    by (simp add: bits_ok(2) quick_def numeral_2_eq_2)
qed

text \<open>a press of at least 202 ticks reports a long press start once, then a hold at every further tick,
  and the release, but no click.\<close>

theorem button_reports_long_press:
  assumes "button_rel h False 0 Idle" and "\<forall>lv\<in>set lvs. lv = 0 \<or> lv = 1"
    and "202 \<le> p" and "6 \<le> r" and "map (sample_pressed h) lvs = replicate p True @ replicate r False"
  shows "snd (button_run lvs h)
      = callbacks (b_cb h) ([PRESS_DOWN, LONG_PRESS_START] @ replicate (p - 202) LONG_PRESS_HOLD @ [PRESS_UP])
    \<and> b_state (fst (button_run lvs h)) = 0"
proof -
  have "replicate (p - 5) True @ replicate 5 True = replicate p True" using assms(3) by (simp flip: replicate_add)
  then have "debounced False 0 (replicate p True @ replicate r False) = press_levels (p, r)"
    using debounced_run [of p False "replicate r False"] debounced_run [of r True "[]"] assms(3,4)
    by (simp add: press_levels_def)
  then have "clicks (debounced False 0 (map (sample_pressed h) lvs)) Idle Idle
      ([PRESS_DOWN, LONG_PRESS_START] @ replicate (p - 202) LONG_PRESS_HOLD @ [PRESS_UP])"
    using clicks_long [OF assms(3,4)] assms(5) by simp
  from button_run_clicks [OF assms(1,2) this] show ?thesis by (auto simp: button_rel_def)
qed

theorem button_reports_long_press_witness:
  "snd (button_run (bits (replicate 203 True @ replicate 6 False)) demo_button)
    = [(PRESS_DOWN, 0), (LONG_PRESS_START, 5), (LONG_PRESS_HOLD, 6), (PRESS_UP, 1)]"
proof -
  have "callbacks (b_cb demo_button) ([PRESS_DOWN, LONG_PRESS_START] @ replicate (203 - 202) LONG_PRESS_HOLD @ [PRESS_UP])
      = [(PRESS_DOWN, 0), (LONG_PRESS_START, 5), (LONG_PRESS_HOLD, 6), (PRESS_UP, 1)]"
    by code_simp
  then show ?thesis
    using button_reports_long_press [OF demo_button_rel(1) bits_ok(1), of 203 6 "replicate 203 True @ replicate 6 False"]
    by (simp add: bits_ok(2))
qed

text \<open>The repeat counter has four bits: a button that was just released after fifteen quick
  presses and is pressed twice more counts one press, so that it reports a single click.\<close>

theorem button_repeat_counter_wraps:
  "map fst (snd (button_run (bits (replicate 6 True @ replicate 6 False @ replicate 6 True @ replicate 87 False))
      (demo_button\<lparr>b_state := 2, b_repeat := 15\<rparr>)))
    = [PRESS_DOWN, PRESS_REPEAT, PRESS_UP, PRESS_DOWN, PRESS_REPEAT, PRESS_UP, SINGLE_CLICK]"
  by code_simp

end
