(* ===== verification/Button_List.thy ===== *)
theory Button_List
  imports Multi_Button Singly_Chain
begin

text \<open>
  The linked list of buttons of \<^verbatim>\<open>beken378/func/key/multi_button.c\<close>: starting and stopping a button,
  the search by user data, and the timer routine that steps every started button. The lemmas show
  that the list is the sequence of started buttons; the loops end on every such list.
\<close>

section \<open>The list of buttons\<close>

text \<open>The state of the driver: the head of the list, the button structs by address, the environment
  of the level functions, and the callbacks invoked so far with the button each belongs to. The mutex
  \<open>g_key_mutex\<close> makes every operation atomic.\<close>

record 'e keys =
  head_handle :: nat
  btn :: "nat \<Rightarrow> 'e button"
  key_env :: 'e
  key_log :: "(nat \<times> cb_log) list"

definition next_of :: "'e keys \<Rightarrow> nat \<Rightarrow> nat" where
  "next_of k a = b_next (btn k a)"

definition set_next :: "nat \<Rightarrow> nat \<Rightarrow> 'e keys \<Rightarrow> 'e keys" where
  "set_next a v k = k\<lparr>btn := (btn k)(a := (btn k a)\<lparr>b_next := v\<rparr>)\<rparr>"

definition button_start :: "nat \<Rightarrow> 'e keys \<Rightarrow> (int \<times> 'e keys) result option" where
  "button_start handle k =
    (case for_each_node (next_of k) NULL (\<lambda>target _. if target = handle then Inl () else Inr ()) (head_handle k) () of
       None \<Rightarrow> None
     | Some (Inl _) \<Rightarrow> Some (Inr (-1, k))
     | Some (Inr _) \<Rightarrow> Some (if handle = NULL then Inl Null_deref
         else Inr (0, (set_next handle (head_handle k) k)\<lparr>head_handle := handle\<rparr>)))"

text \<open>The loop variable \<open>curr\<close> of \<open>button_stop\<close> points to \<open>head_handle\<close> (here \<open>NULL\<close>) or to the
  \<open>next\<close> field of a button (here the address of the button).\<close>

partial_function (option) stop_loop :: "nat \<Rightarrow> nat \<Rightarrow> 'e keys \<Rightarrow> 'e keys option" where
  "stop_loop handle cur k =
    (let entry = (if cur = NULL then head_handle k else next_of k cur)
     in if entry = NULL then Some k
        else if entry = handle then
          stop_loop handle cur
            (if cur = NULL then k\<lparr>head_handle := next_of k entry\<rparr> else set_next cur (next_of k entry) k)
        else stop_loop handle entry k)"

definition button_stop :: "nat \<Rightarrow> 'e keys \<Rightarrow> 'e keys option" where
  "button_stop handle k = stop_loop handle NULL k"

definition button_find_with_user_data :: "u32 \<Rightarrow> 'e keys \<Rightarrow> nat option" where
  "button_find_with_user_data ud k =
    map_option (\<lambda>r. case r of Inl entry \<Rightarrow> entry | Inr _ \<Rightarrow> NULL)
      (for_each_node (next_of k) NULL (\<lambda>entry _. if b_user_data (btn k entry) = ud then Inl entry else Inr ())
        (head_handle k) ())"

definition tick_one :: "nat \<Rightarrow> 'e keys \<Rightarrow> 'e keys result" where
  "tick_one target k = bind_res (button_handler (btn k target) (key_env k)) (\<lambda>(h', log, e').
    Inr (k\<lparr>btn := (btn k)(target := h'), key_env := e', key_log := key_log k @ [(target, log)]\<rparr>))"

partial_function (option) ticks_loop :: "nat \<Rightarrow> 'e keys \<Rightarrow> 'e keys result option" where
  "ticks_loop target k =
    (if target = NULL then Some (Inr k)
     else (case tick_one target k of
             Inl f \<Rightarrow> Some (Inl f)
           | Inr k' \<Rightarrow> ticks_loop (next_of k' target) k'))"

definition button_ticks :: "'e keys \<Rightarrow> 'e keys result option" where
  "button_ticks k = ticks_loop (head_handle k) k"

definition keys_list :: "'e keys \<Rightarrow> nat list \<Rightarrow> bool" where
  "keys_list k xs \<longleftrightarrow> chain (next_of k) (head_handle k) xs"

text \<open>Two states whose buttons differ in their links at most.\<close>

definition same_buttons :: "'e keys \<Rightarrow> 'e keys \<Rightarrow> bool" where
  "same_buttons k k' \<longleftrightarrow> (\<forall>a. (btn k' a)\<lparr>b_next := 0\<rparr> = (btn k a)\<lparr>b_next := 0\<rparr>)
    \<and> key_env k' = key_env k \<and> key_log k' = key_log k"

lemma same_buttons_refl [simp]: "same_buttons k k"
  by (simp add: same_buttons_def)

lemma same_buttons_trans: "\<lbrakk>same_buttons k k1; same_buttons k1 k2\<rbrakk> \<Longrightarrow> same_buttons k k2"
  by (simp add: same_buttons_def)

lemma same_buttons_upd [simp]:
  "same_buttons k (set_next a v k)" "same_buttons k (k\<lparr>head_handle := v\<rparr>)"
  "same_buttons k ((set_next a v k)\<lparr>head_handle := u\<rparr>)"
  by (simp_all add: same_buttons_def set_next_def)

lemma next_of_upd [simp]:
  "next_of (set_next a v k) = (next_of k)(a := v)" "next_of (k\<lparr>head_handle := u\<rparr>) = next_of k"
  "head_handle (set_next a v k) = head_handle k"
  by (auto simp: next_of_def set_next_def)

lemma button_start_ok:
  assumes "keys_list k xs" and "h \<noteq> NULL"
  shows "h \<in> set xs \<Longrightarrow> button_start h k = Some (Inr (-1, k))"
    and "h \<notin> set xs \<Longrightarrow> \<exists>k'. button_start h k = Some (Inr (0, k')) \<and> keys_list k' (h # xs) \<and> same_buttons k k'"
proof -
  have f: "fold_until (\<lambda>t _. if t = h then Inl () else Inr ()) xs () = (if h \<in> set xs then Inl () else Inr ())" for xs
    by (induction xs) auto
  have loop: "for_each_node (next_of k) NULL (\<lambda>t _. if t = h then Inl () else Inr ()) (head_handle k) ()
      = Some (if h \<in> set xs then Inl () else Inr ())"
    unfolding chain_loop [OF assms(1) [unfolded keys_list_def]] f ..
  show "h \<in> set xs \<Longrightarrow> button_start h k = Some (Inr (-1, k))" by (simp add: button_start_def loop)
  assume "h \<notin> set xs"
  then show "\<exists>k'. button_start h k = Some (Inr (0, k')) \<and> keys_list k' (h # xs) \<and> same_buttons k k'"
    using assms by (simp add: button_start_def loop keys_list_def)
qed

lemma stop_loop_ok:
  assumes "keys_list k (us @ vs)" and "cur = last (NULL # us)" and "h \<notin> set us"
  shows "\<exists>k'. stop_loop h cur k = Some k' \<and> keys_list k' (us @ remove1 h vs) \<and> same_buttons k k'"
  using assms
proof (induction vs arbitrary: us cur k)
  case Nil
  have "(if cur = NULL then head_handle k else next_of k cur) = NULL"
  proof (cases us rule: rev_cases)
    case (snoc us' u)
    then show ?thesis using Nil chain_next [of "next_of k" _ us' u "[]"] chain_NULL_notin [of "next_of k" "head_handle k" us]
      by (auto simp: keys_list_def)
  qed (use Nil in \<open>simp add: keys_list_def\<close>)
  then show ?case using Nil by (subst stop_loop.simps) (simp add: keys_list_def)
next
  case (Cons v vs)
  have c: "chain (next_of k) (head_handle k) (us @ v # vs)" using Cons.prems(1) by (simp add: keys_list_def)
  have v0: "v \<noteq> NULL" "NULL \<notin> set us" using chain_NULL_notin [OF c] by auto
  have d: "v \<notin> set vs" "v \<notin> set us" using chain_distinct [OF c] by auto
  have nv: "next_of k v = hd (vs @ [NULL])" using chain_next [OF c] .
  have entry: "(if cur = NULL then head_handle k else next_of k cur) = v"
  proof (cases us rule: rev_cases)
    case (snoc us' u)
    then show ?thesis using Cons.prems(2) c v0 chain_next [of "next_of k" "head_handle k" us' u "v # vs"] by auto
  qed (use Cons.prems(2) c in simp)
  show ?case
  proof (cases "v = h")
    case False
    have "\<exists>k'. stop_loop h v k = Some k' \<and> keys_list k' ((us @ [v]) @ remove1 h vs) \<and> same_buttons k k'"
      using Cons.prems False by (intro Cons.IH) auto
    then show ?thesis using False v0 entry by (subst stop_loop.simps) (simp add: Let_def)
  next
    case True
    define k1 where "k1 = (if cur = NULL then k\<lparr>head_handle := next_of k v\<rparr> else set_next cur (next_of k v) k)"
    have "keys_list k1 (us @ vs)"
    proof (cases us rule: rev_cases)
      case Nil
      have "\<exists>q. chain (next_of k) q vs" using c chain_suffix [of "next_of k" _ "us @ [v]" vs] by auto
      then have "chain (next_of k) (next_of k v) vs" using nv chain_head by metis
      then show ?thesis using Nil Cons.prems(2) by (simp add: k1_def keys_list_def)
    next
      case (snoc us' u)
      then show ?thesis using Cons.prems(2) v0 c nv chain_cut [of "next_of k" _ us' u "[v]" vs]
        by (auto simp: k1_def keys_list_def)
    qed
    then obtain k' where k': "stop_loop h cur k1 = Some k'" "keys_list k' (us @ remove1 h vs)" "same_buttons k1 k'"
      using Cons.IH [of k1 us cur] Cons.prems by auto
    have "same_buttons k k1" by (simp add: k1_def)
    then have "same_buttons k k'" using k'(3) same_buttons_trans by blast
    moreover have "stop_loop h cur k = Some k'"
      using True v0 entry k'(1) by (subst stop_loop.simps) (auto simp: Let_def k1_def)
    ultimately show ?thesis using k' True d by (simp add: remove1_idem)
  qed
qed

lemma button_find_ok:
  assumes "keys_list k xs"
  shows "button_find_with_user_data ud k = Some (hd (filter (\<lambda>a. b_user_data (btn k a) = ud) xs @ [NULL]))"
proof -
  have f: "fold_until (\<lambda>t _. if b_user_data (btn k t) = ud then Inl t else Inr ()) xs ()
      = (case filter (\<lambda>a. b_user_data (btn k a) = ud) xs of [] \<Rightarrow> Inr () | y # _ \<Rightarrow> Inl y)" for xs
    by (induction xs) auto
  show ?thesis
    unfolding button_find_with_user_data_def chain_loop [OF assms [unfolded keys_list_def]] f
    by (simp split: list.split)
qed

text \<open>One tick: every button of the list once, in the order of the list.\<close>

primrec ticks_list :: "nat list \<Rightarrow> 'e keys \<Rightarrow> 'e keys result" where
  "ticks_list [] k = Inr k"
| "ticks_list (x # xs) k = bind_res (tick_one x k) (ticks_list xs)"

lemma tick_one_frame:
  assumes "tick_one x k = Inr k'"
  shows "next_of k' = next_of k" "head_handle k' = head_handle k"
proof -
  obtain lv h' log e' where "button_step lv (btn k x) = (h', log)"
    and k': "k' = k\<lparr>btn := (btn k)(x := h'), key_env := e', key_log := key_log k @ [(x, log)]\<rparr>"
    using assms by (auto simp: tick_one_def bind_res_Inr button_handler_Inr)
  then have "b_next h' = b_next (btn k x)" using button_step_frame(3) by (metis fst_conv)
  then show "next_of k' = next_of k" "head_handle k' = head_handle k"
    by (auto simp: next_of_def k')
qed

lemma ticks_loop_ok:
  assumes "chain (next_of k) p xs"
  shows "ticks_loop p k = Some (ticks_list xs k)"
    and "ticks_list xs k = Inr k' \<Longrightarrow> next_of k' = next_of k \<and> head_handle k' = head_handle k"
  using assms
proof (induction xs arbitrary: p k)
  case Nil
  {
    case 1
    then show ?case by (subst ticks_loop.simps) simp
  next
    case 2
    then show ?case by simp
  }
next
  case (Cons x xs)
  {
    case 1
    then have p: "p = x" "x \<noteq> NULL" and c: "chain (next_of k) (next_of k x) xs" by auto
    show ?case
    proof (cases "tick_one x k")
      case (Inl f)
      then show ?thesis using p by (subst ticks_loop.simps) simp
    next
      case (Inr k1)
      then have "ticks_loop (next_of k1 x) k1 = Some (ticks_list xs k1)"
        using Cons.IH(1) [of k1] c tick_one_frame [OF Inr] by simp
      then show ?thesis using Inr p by (subst ticks_loop.simps) simp
    qed
  next
    case 2
    then obtain k1 where "tick_one x k = Inr k1" "ticks_list xs k1 = Inr k'" by (auto simp: bind_res_Inr)
    then show ?case using Cons.IH(2) [of k1] 2(2) tick_one_frame [of x k k1] by auto
  }
qed

lemma button_list_ok:
  assumes "keys_list k xs" and "h \<noteq> NULL"
  shows "h \<in> set xs \<Longrightarrow> button_start h k = Some (Inr (-1, k))"
    and "h \<notin> set xs \<Longrightarrow> \<exists>k'. button_start h k = Some (Inr (0, k')) \<and> keys_list k' (h # xs) \<and> same_buttons k k'"
    and "\<exists>k'. button_stop h k = Some k' \<and> keys_list k' (remove1 h xs) \<and> same_buttons k k'"
    and "button_find_with_user_data ud k = Some (hd (filter (\<lambda>a. b_user_data (btn k a) = ud) xs @ [NULL]))"
proof -
  show "h \<in> set xs \<Longrightarrow> button_start h k = Some (Inr (-1, k))" by (rule button_start_ok(1) [OF assms])
  show "h \<notin> set xs \<Longrightarrow> \<exists>k'. button_start h k = Some (Inr (0, k')) \<and> keys_list k' (h # xs) \<and> same_buttons k k'"
    by (rule button_start_ok(2) [OF assms])
  show "\<exists>k'. button_stop h k = Some k' \<and> keys_list k' (remove1 h xs) \<and> same_buttons k k'"
    using stop_loop_ok [of k "[]" xs NULL h] assms(1) by (simp add: button_stop_def)
  show "button_find_with_user_data ud k = Some (hd (filter (\<lambda>a. b_user_data (btn k a) = ud) xs @ [NULL]))"
    by (rule button_find_ok [OF assms(1)])
qed

text \<open>C31: the list of buttons is the sequence of started buttons. Starting a button puts it
  first, or answers -1 with nothing changed when it is already started; stopping removes it; the search
  by user data finds the first button with it; none of the operations touches a button but its link.\<close>

theorem button_list_operations:
  assumes "keys_list k xs" and "h \<noteq> NULL"
  shows "(h \<in> set xs \<longrightarrow> button_start h k = Some (Inr (-1, k)))
    \<and> (h \<notin> set xs \<longrightarrow> (\<exists>k'. button_start h k = Some (Inr (0, k')) \<and> keys_list k' (h # xs) \<and> same_buttons k k'))
    \<and> (\<exists>k'. button_stop h k = Some k' \<and> keys_list k' (remove1 h xs) \<and> same_buttons k k')
    \<and> button_find_with_user_data ud k = Some (hd (filter (\<lambda>a. b_user_data (btn k a) = ud) xs @ [NULL]))"
  using button_list_ok [OF assms] by blast

definition demo_keys :: "unit keys" where
  "demo_keys = \<lparr>head_handle = 10, btn = (\<lambda>_. demo_button)(10 := demo_button\<lparr>b_next := 20\<rparr>), key_env = (), key_log = []\<rparr>"

lemma demo_keys_list: "keys_list demo_keys [10, 20]"
  by (simp add: keys_list_def demo_keys_def next_of_def demo_button_def)

theorem button_list_operations_witness:
  "(\<exists>k'. button_start 30 demo_keys = Some (Inr (0, k')) \<and> keys_list k' [30, 10, 20])
    \<and> (\<exists>k'. button_stop 20 demo_keys = Some k' \<and> keys_list k' [10])"
proof -
  have "\<exists>k'. button_start 30 demo_keys = Some (Inr (0, k')) \<and> keys_list k' (30 # [10, 20]) \<and> same_buttons demo_keys k'"
    using button_list_operations [OF demo_keys_list, of 30] by simp
  moreover have "\<exists>k'. button_stop 20 demo_keys = Some k' \<and> keys_list k' (remove1 20 [10, 20]) \<and> same_buttons demo_keys k'"
    using button_list_operations [OF demo_keys_list, of 20] by simp
  ultimately show ?thesis by auto
qed

lemma button_ticks_ok:
  assumes "keys_list k xs"
  shows "button_ticks k = Some (ticks_list xs k)"
    and "ticks_list xs k = Inr k' \<Longrightarrow> keys_list k' xs"
proof -
  have c: "chain (next_of k) (head_handle k) xs" using assms by (simp add: keys_list_def)
  show "button_ticks k = Some (ticks_list xs k)"
    unfolding button_ticks_def by (rule ticks_loop_ok(1) [OF c])
  show "ticks_list xs k = Inr k' \<Longrightarrow> keys_list k' xs"
    using ticks_loop_ok(2) [OF c, of k'] c by (simp add: keys_list_def)
qed

text \<open>one timer tick returns, runs the handler of every started button exactly once in the order of the
  list, stops with the fault of the first button without a level function, and leaves the list as it was.\<close>

theorem button_ticks_serves_list:
  assumes "keys_list k xs"
  shows "button_ticks k = Some (ticks_list xs k) \<and> (\<forall>k'. ticks_list xs k = Inr k' \<longrightarrow> keys_list k' xs)"
  using button_ticks_ok [OF assms] by blast

theorem button_ticks_serves_list_witness:
  "\<exists>k'. button_ticks demo_keys = Some (Inr k') \<and> map fst (key_log k') = [10, 20]"
proof -
  have "\<exists>k'. ticks_list [10, 20] demo_keys = Inr k' \<and> map fst (key_log k') = [10, 20]"
    by (simp add: demo_keys_def tick_one_def button_handler_def hal_button_Level_def demo_button_def split_beta)
  then show ?thesis using button_ticks_serves_list [OF demo_keys_list] by simp
qed

end
