(* ===== verification/Gpio.thy ===== *)
theory Gpio
  imports Intc Bit_Fields
begin

text \<open>
  The GPIO driver, \<^verbatim>\<open>beken378/driver/gpio/gpio.c\<close>, for the BK7221U with the JTAG filter of
  \<^verbatim>\<open>gpio.h\<close> (\<open>CFG_JTAG_ENABLE\<close> is 1) and without \<open>CFG_SYS_START_TIME\<close>: pin configuration, input and
  output, the routing of pins to peripherals, pin interrupts, and the USB plug interrupt. Each pin
  has a configuration register and a two-bit function field. Handlers are addresses; calling one is the
  parameter \<open>call\<close>. A function that registers the service routine works on the interrupt controller
  too and may not return when its list is damaged, which is \<open>None\<close>.
\<close>

section \<open>Registers\<close>

definition GPIO_BASE_ADDR :: u32 where "GPIO_BASE_ADDR = 0x0802800"

definition gpio_reg :: "u32 \<Rightarrow> u32" where
  "gpio_reg k = GPIO_BASE_ADDR + k * 4"

abbreviation (input) REG_GPIO_CFG_BASE_ADDR :: u32 where "REG_GPIO_CFG_BASE_ADDR \<equiv> gpio_reg 0"
abbreviation (input) REG_GPIO_FUNC_CFG :: u32 where "REG_GPIO_FUNC_CFG \<equiv> gpio_reg 32"
abbreviation (input) REG_GPIO_INTEN :: u32 where "REG_GPIO_INTEN \<equiv> gpio_reg 33"
abbreviation (input) REG_GPIO_INTLV0 :: u32 where "REG_GPIO_INTLV0 \<equiv> gpio_reg 34"
abbreviation (input) REG_GPIO_INTLV1 :: u32 where "REG_GPIO_INTLV1 \<equiv> gpio_reg 35"
abbreviation (input) REG_GPIO_INTSTA :: u32 where "REG_GPIO_INTSTA \<equiv> gpio_reg 36"
abbreviation (input) REG_GPIO_EXTRAL_INT_CFG :: u32 where "REG_GPIO_EXTRAL_INT_CFG \<equiv> gpio_reg 38"
abbreviation (input) REG_GPIO_DETECT :: u32 where "REG_GPIO_DETECT \<equiv> gpio_reg 39"
abbreviation (input) REG_GPIO_MODULE_SELECT :: u32 where "REG_GPIO_MODULE_SELECT \<equiv> gpio_reg 45"
abbreviation (input) REG_GPIO_FUNC_CFG_2 :: u32 where "REG_GPIO_FUNC_CFG_2 \<equiv> gpio_reg 46"
abbreviation (input) REG_GPIO_FUNC_CFG_3 :: u32 where "REG_GPIO_FUNC_CFG_3 \<equiv> gpio_reg 47"
abbreviation (input) REG_GPIO_32_CONFIG :: u32 where "REG_GPIO_32_CONFIG \<equiv> gpio_reg 48"
abbreviation (input) REG_GPIO_INTEN2 :: u32 where "REG_GPIO_INTEN2 \<equiv> gpio_reg 56"
abbreviation (input) REG_GPIO_INTLV3 :: u32 where "REG_GPIO_INTLV3 \<equiv> gpio_reg 57"
abbreviation (input) REG_GPIO_INTSTA2 :: u32 where "REG_GPIO_INTSTA2 \<equiv> gpio_reg 58"

abbreviation (input) GPIONUM :: u32 where "GPIONUM \<equiv> 40"
abbreviation (input) GPIO_SUCCESS :: u32 where "GPIO_SUCCESS \<equiv> 0"
abbreviation (input) GPIO_FAILURE :: u32 where "GPIO_FAILURE \<equiv> 1"

abbreviation (input) GMODE_INPUT_PULLDOWN :: u32 where "GMODE_INPUT_PULLDOWN \<equiv> 0"
abbreviation (input) GMODE_OUTPUT :: u32 where "GMODE_OUTPUT \<equiv> 1"
abbreviation (input) GMODE_SECOND_FUNC :: u32 where "GMODE_SECOND_FUNC \<equiv> 2"
abbreviation (input) GMODE_INPUT_PULLUP :: u32 where "GMODE_INPUT_PULLUP \<equiv> 3"
abbreviation (input) GMODE_INPUT :: u32 where "GMODE_INPUT \<equiv> 4"
abbreviation (input) GMODE_SECOND_FUNC_PULL_UP :: u32 where "GMODE_SECOND_FUNC_PULL_UP \<equiv> 5"
abbreviation (input) GMODE_SET_HIGH_IMPENDANCE :: u32 where "GMODE_SET_HIGH_IMPENDANCE \<equiv> 7"

section \<open>Pins\<close>

definition gpio_ops_filter :: "u32 \<Rightarrow> u32" where
  "gpio_ops_filter index = (if index = 20 \<or> index = 21 \<or> index = 22 \<or> index = 23 then GPIO_SUCCESS else GPIO_FAILURE)"

definition gpio_cfg_addr :: "u32 \<Rightarrow> u32" where
  "gpio_cfg_addr index =
    (if index < 32 then REG_GPIO_CFG_BASE_ADDR + index * 4 else REG_GPIO_32_CONFIG + (index - 32) * 4)"

definition gpio_mode_val :: "u32 \<Rightarrow> u32 option" where
  "gpio_mode_val mode =
    (if mode = GMODE_INPUT_PULLDOWN then Some 0x2C
     else if mode = GMODE_OUTPUT then Some 0x00
     else if mode = GMODE_SECOND_FUNC then Some 0x48
     else if mode = GMODE_INPUT_PULLUP then Some 0x3C
     else if mode = GMODE_INPUT then Some 0x0C
     else if mode = GMODE_SECOND_FUNC_PULL_UP then Some 0x78
     else if mode = GMODE_SET_HIGH_IMPENDANCE then Some 0x08
     else None)"

definition gpio_config :: "u32 \<Rightarrow> u32 \<Rightarrow> bk_world \<Rightarrow> bk_world" where
  "gpio_config index mode w =
    (if gpio_ops_filter index = GPIO_SUCCESS then w
     else if index \<ge> GPIONUM then w
     else (case gpio_mode_val mode of None \<Rightarrow> w | Some val \<Rightarrow> w_write (gpio_cfg_addr index) val w))"

definition gpio_input :: "u32 \<Rightarrow> bk_world \<Rightarrow> u32" where
  "gpio_input pin w =
    (let val = (if gpio_ops_filter pin = GPIO_SUCCESS then 0 else w_read (gpio_cfg_addr pin) w) in val AND 1)"

definition gpio_output :: "u32 \<Rightarrow> u32 \<Rightarrow> bk_world \<Rightarrow> bk_world" where
  "gpio_output pin val w =
    (if gpio_ops_filter pin = GPIO_SUCCESS then w
     else (let reg_val = w_read (gpio_cfg_addr pin) w;
               reg_val = reg_val AND NOT (push_bit 1 1);
               reg_val = reg_val OR push_bit 1 (val AND 1)
           in w_write (gpio_cfg_addr pin) reg_val w))"

definition gpio_output_reverse :: "u32 \<Rightarrow> bk_world \<Rightarrow> bk_world" where
  "gpio_output_reverse pin w =
    (if gpio_ops_filter pin = GPIO_SUCCESS then w
     else w_write (gpio_cfg_addr pin) (w_read (gpio_cfg_addr pin) w XOR push_bit 1 1) w)"

section \<open>Second functions\<close>

definition gpio_usb_second_function :: "bk_world \<Rightarrow> bk_world" where
  "gpio_usb_second_function w =
    (let val = w_read REG_GPIO_FUNC_CFG_2 w;
         val = val AND NOT (push_bit 18 3 OR push_bit 24 3);
         val = val OR (push_bit 18 1 OR push_bit 24 1)
     in w_write REG_GPIO_FUNC_CFG_2 val w)"

record gfunc =
  gf_start :: nat
  gf_end :: nat
  gf_pmode :: u32
  gf_pull_up :: bool
  gf_module :: "u32 option"
  gf_pmask :: u32

text \<open>The initial values of the local variables: pin 0, mode 1, no module (\<open>GPIO_MODUL_NONE\<close>).\<close>

definition gfunc0 :: gfunc where
  "gfunc0 = \<lparr>gf_start = 0, gf_end = 0, gf_pmode = 0, gf_pull_up = False, gf_module = None, gf_pmask = 0\<rparr>"

definition gf_pins :: "nat \<Rightarrow> nat \<Rightarrow> u32 \<Rightarrow> gfunc" where
  "gf_pins a b m = gfunc0\<lparr>gf_start := a, gf_end := b, gf_pmode := m\<rparr>"

text \<open>The entries that the BK7221U and BK7231U add.\<close>

definition gfunc_ext :: "u32 \<Rightarrow> gfunc" where
  "gfunc_ext func_mode =
    (let sd = (\<lambda>g m. g\<lparr>gf_module := Some m, gf_pmask := 0xC\<rparr>);
         spi = (\<lambda>g m. g\<lparr>gf_module := Some m, gf_pmask := 0x3\<rparr>)
     in
     if func_mode = 24 then gf_pins 27 39 0
     else if func_mode = 25 then gf_pins 3 3 1
     else if func_mode = 26 then gf_pins 2 2 1
     else if func_mode = 27 then gf_pins 12 12 1
     else if func_mode = 28 then gf_pins 13 13 1
     else if func_mode = 29 then (sd (gf_pins 34 39 1) 12)\<lparr>gf_pull_up := True\<rparr>
     else if func_mode = 30 then spi (gf_pins 30 33 1) 3
     else if func_mode = 31 then spi (gf_pins 30 33 1) 2
     else if func_mode = 32 then gf_pins 16 17 2
     else if func_mode = 33 then gf_pins 16 19 2
     else if func_mode = 34 then gf_pins 24 24 2
     else if func_mode = 35 then gf_pins 26 26 2
     else gfunc0)"

definition gfunc_of :: "u32 \<Rightarrow> gfunc" where
  "gfunc_of func_mode =
    (let sd = (\<lambda>g m. g\<lparr>gf_module := Some m, gf_pmask := 0xC\<rparr>);
         spi = (\<lambda>g m. g\<lparr>gf_module := Some m, gf_pmask := 0x3\<rparr>)
     in
     if func_mode = 0 then (gf_pins 0 1 0)\<lparr>gf_pull_up := True\<rparr>
     else if func_mode = 1 then (gf_pins 0 1 1)\<lparr>gf_pull_up := True\<rparr>
     else if func_mode = 2 then gf_pins 2 5 0
     else if func_mode = 3 then gf_pins 4 4 1
     else if func_mode = 4 then gf_pins 5 5 1
     else if func_mode = 5 then gf_pins 6 6 0
     else if func_mode = 6 then gf_pins 6 6 1
     else if func_mode = 7 then gf_pins 7 7 1
     else if func_mode = 8 then gf_pins 8 8 1
     else if func_mode = 9 then gf_pins 9 9 1
     else if func_mode = 12 then gf_pins 9 9 0
     else if func_mode = 10 then gf_pins 7 7 0
     else if func_mode = 11 then gf_pins 8 8 0
     else if func_mode = 13 then (gf_pins 10 13 0)\<lparr>gf_pull_up := True\<rparr>
     else if func_mode = 14 then sd (gf_pins 14 19 0) 0
     else if func_mode = 15 then (sd (gf_pins 14 19 0) 4)\<lparr>gf_pull_up := True\<rparr>
     else if func_mode = 16 then spi (gf_pins 14 17 1) 0
     else if func_mode = 17 then spi (gf_pins 14 17 1) 1
     else if func_mode = 18 then gf_pins 24 24 1
     else if func_mode = 19 then gf_pins 26 26 1
     else if func_mode = 20 then gf_pins 20 21 0
     else if func_mode = 21 then gf_pins 20 23 1
     else if func_mode = 22 then gf_pins 22 22 0
     else if func_mode = 23 then gf_pins 23 23 0
     else gfunc_ext func_mode)"

abbreviation (input) GFUNC_MODE_DCMI :: u32 where "GFUNC_MODE_DCMI \<equiv> 24"

definition gpio_func_reg :: "nat \<Rightarrow> u32" where
  "gpio_func_reg i = (if i < 16 then REG_GPIO_FUNC_CFG else if i < 32 then REG_GPIO_FUNC_CFG_2 else REG_GPIO_FUNC_CFG_3)"

definition gpio_func_shift :: "nat \<Rightarrow> nat" where
  "gpio_func_shift i = (if i < 16 then i * 2 else if i < 32 then (i - 16) * 2 else (i - 32) * 2)"

text \<open>The body of the loop for pin \<open>i\<close>. All pins of the table are below \<open>GPIONUM\<close>.\<close>

definition gpio_second_pin :: "u32 \<Rightarrow> gfunc \<Rightarrow> nat \<Rightarrow> bk_world \<Rightarrow> bk_world" where
  "gpio_second_pin func_mode g i w =
    (if func_mode = GFUNC_MODE_DCMI \<and> i = 28 then w
     else
       (let w = gpio_config (of_nat i) (if gf_pull_up g then GMODE_SECOND_FUNC_PULL_UP else GMODE_SECOND_FUNC) w
        in w_write (gpio_func_reg i) (field_put (gpio_func_shift i) 3 (gf_pmode g) (w_read (gpio_func_reg i) w)) w))"

definition gpio_enable_second_function :: "u32 \<Rightarrow> bk_world \<Rightarrow> bk_world" where
  "gpio_enable_second_function func_mode w =
    (let g = gfunc_of func_mode;
         w = fold (gpio_second_pin func_mode g) [gf_start g..<Suc (gf_end g)] w
     in (case gf_module g of
           None \<Rightarrow> w
         | Some m \<Rightarrow> w_write REG_GPIO_MODULE_SELECT ((w_read REG_GPIO_MODULE_SELECT w AND NOT (gf_pmask g)) OR m) w))"

section \<open>Interrupts\<close>

type_synonym gpio_call = "u32 \<Rightarrow> u32 \<Rightarrow> bk_world \<Rightarrow> bk_world"

definition gpio_isr_line :: "gpio_call \<Rightarrow> nat \<Rightarrow> u32 \<Rightarrow> nat \<Rightarrow> bk_world \<Rightarrow> bk_world" where
  "gpio_isr_line call base status i w =
    (if bit status i \<and> p_gpio_intr_handler w ! (i + base) \<noteq> 0
     then call (p_gpio_intr_handler w ! (i + base)) (of_nat (i + base)) w else w)"

definition gpio_isr :: "gpio_call \<Rightarrow> bk_world \<Rightarrow> bk_world" where
  "gpio_isr call w =
    (let ulIntStatus = w_read REG_GPIO_INTSTA w;
         w = fold (gpio_isr_line call 0 ulIntStatus) [0..<32] w;
         w = w_write REG_GPIO_INTSTA ulIntStatus w;
         ulIntStatus2 = w_read REG_GPIO_INTSTA2 w;
         w = fold (gpio_isr_line call 32 ulIntStatus2) [0..<8] w
     in w_write REG_GPIO_INTSTA2 ulIntStatus2 w)"

definition gpio_int_disable :: "u32 \<Rightarrow> bk_world \<Rightarrow> bk_world" where
  "gpio_int_disable index w =
    (if index < 32 then w_write REG_GPIO_INTEN (w_read REG_GPIO_INTEN w AND NOT (push_bit (unat index) 1)) w
     else w_write REG_GPIO_INTEN2 (w_read REG_GPIO_INTEN2 w AND NOT (push_bit (unat (index - 32)) 1)) w)"

abbreviation (input) IRQ_GPIO :: u8 where "IRQ_GPIO \<equiv> 7"
abbreviation (input) PRI_IRQ_GPIO :: u8 where "PRI_IRQ_GPIO \<equiv> 19"
abbreviation (input) IRQ_GPIO_BIT :: u32 where "IRQ_GPIO_BIT \<equiv> 0x80"

text \<open>The part of \<open>gpio_int_enable\<close> behind the bounds check.\<close>

definition gpio_int_setup :: "u32 \<Rightarrow> u32 \<Rightarrow> u32 \<Rightarrow> bk_world \<Rightarrow> bk_world" where
  "gpio_int_setup index mode p_Int_Handler w =
    (let mode = mode AND 3;
         w = gpio_config index (if mode = 0 \<or> mode = 3 then GMODE_INPUT_PULLUP else GMODE_INPUT_PULLDOWN) w;
         w = (if index < 16 then
                w_write REG_GPIO_INTLV0 (field_put (unat (index * 2)) 3 mode (w_read REG_GPIO_INTLV0 w)) w
              else if index < 32 then
                w_write REG_GPIO_INTLV1 (field_put (unat ((index - 16) * 2)) 3 mode (w_read REG_GPIO_INTLV1 w)) w
              else w_write REG_GPIO_INTLV3 (field_put (unat ((index - 32) * 2)) 3 mode (w_read REG_GPIO_INTLV3 w)) w);
         w = w\<lparr>p_gpio_intr_handler := (p_gpio_intr_handler w)[unat index := p_Int_Handler]\<rparr>
     in if index < 32 then w_write REG_GPIO_INTEN (w_read REG_GPIO_INTEN w OR push_bit (unat index) 1) w
        else w_write REG_GPIO_INTEN2 (w_read REG_GPIO_INTEN2 w OR push_bit (unat (index - 32)) 1) w)"

definition gpio_int_enable ::
  "gpio_call \<Rightarrow> bk_drv \<Rightarrow> u32 \<Rightarrow> u32 \<Rightarrow> u32 \<Rightarrow> intc \<Rightarrow> bk_world \<Rightarrow> (intc \<times> bk_world) result option" where
  "gpio_int_enable call st index mode p_Int_Handler ic w =
    (case intc_service_register IRQ_GPIO PRI_IRQ_GPIO (Some (gpio_isr call)) ic of
       None \<Rightarrow> None
     | Some (Inl e) \<Rightarrow> Some (Inl e)
     | Some (Inr ic') \<Rightarrow> Some (
         bind_res (sddev_control (Some ICU_DEV_NAME) CMD_ICU_INT_ENABLE (param_of (Obj_u32 IRQ_GPIO_BIT)) st w) (\<lambda>(_, w).
         Inr (ic', if index \<ge> GPIONUM then w else gpio_int_setup index mode p_Int_Handler w))))"

section \<open>Control, registration and the USB plug\<close>

abbreviation (input) GPIO_CMD_MAGIC :: u32 where "GPIO_CMD_MAGIC \<equiv> 0xcaa0000"
abbreviation (input) DPLL_UNLOCK_INT_EN :: u32 where "DPLL_UNLOCK_INT_EN \<equiv> 1"
abbreviation (input) DPLL_UNLOCK_INT :: u32 where "DPLL_UNLOCK_INT \<equiv> 4"
abbreviation (input) USB_PLUG_IN_INT_EN :: u32 where "USB_PLUG_IN_INT_EN \<equiv> 0x10"
abbreviation (input) USB_PLUG_OUT_INT_EN :: u32 where "USB_PLUG_OUT_INT_EN \<equiv> 0x20"
abbreviation (input) USB_PLUG_IN_INT :: u32 where "USB_PLUG_IN_INT \<equiv> 0x40"
abbreviation (input) USB_PLUG_OUT_INT :: u32 where "USB_PLUG_OUT_INT \<equiv> 0x80"

definition GPIO_EXTRAL_INT_MASK :: u32 where
  "GPIO_EXTRAL_INT_MASK = DPLL_UNLOCK_INT OR 8 OR USB_PLUG_IN_INT OR USB_PLUG_OUT_INT"

definition GPIO_CFG_PARAM :: "u32 \<Rightarrow> u32 \<Rightarrow> u32" where
  "GPIO_CFG_PARAM pin mode = pin + push_bit 8 (mode AND 0xff)"

definition GPIO_CFG_PARAM_DEMUX_ID :: "u32 \<Rightarrow> u32" where
  "GPIO_CFG_PARAM_DEMUX_ID p = p AND 0xff"

definition GPIO_CFG_PARAM_DEMUX_MODE :: "u32 \<Rightarrow> u32" where
  "GPIO_CFG_PARAM_DEMUX_MODE p = drop_bit 8 p AND 0xff"

text \<open>Acknowledge a bit of the extra interrupt register, and enable or disable one: the
  other acknowledge bits are written as zero.\<close>

definition extral_ack :: "u32 \<Rightarrow> bk_world \<Rightarrow> bk_world" where
  "extral_ack b w = w_write REG_GPIO_EXTRAL_INT_CFG
    ((w_read REG_GPIO_EXTRAL_INT_CFG w AND NOT GPIO_EXTRAL_INT_MASK) OR b) w"

definition extral_enable :: "u32 \<Rightarrow> u32 \<Rightarrow> bk_world \<Rightarrow> bk_world" where
  "extral_enable b enable w = w_write REG_GPIO_EXTRAL_INT_CFG
    (let reg = w_read REG_GPIO_EXTRAL_INT_CFG w AND NOT GPIO_EXTRAL_INT_MASK
     in if enable \<noteq> 0 then reg OR b else reg AND NOT b) w"

definition assert_param :: "dev_param \<Rightarrow> u32 result" where
  "assert_param p = (if pa_addr p = 0 then Inl Assert_failed else param_u32 p)"

definition gpio_ctrl ::
  "gpio_call \<Rightarrow> bk_drv \<Rightarrow> u32 \<Rightarrow> dev_param \<Rightarrow> intc \<Rightarrow> bk_world \<Rightarrow> (u32 \<times> intc \<times> bk_world) result option" where
  "gpio_ctrl call st cmd param ic w =
    (let on = (\<lambda>p f. Some (bind_res p (\<lambda>v. Inr (GPIO_SUCCESS, ic, f v))))
     in
     if cmd = GPIO_CMD_MAGIC + 0 then
       on (param_u32 param) (\<lambda>v. gpio_config (GPIO_CFG_PARAM_DEMUX_ID v) (GPIO_CFG_PARAM_DEMUX_MODE v) w)
     else if cmd = GPIO_CMD_MAGIC + 1 then on (assert_param param) (\<lambda>v. gpio_output_reverse v w)
     else if cmd = GPIO_CMD_MAGIC + 4 then
       on (param_u32 param) (\<lambda>v. gpio_output (v AND 0xff) (drop_bit 8 v AND 0xff) w)
     else if cmd = GPIO_CMD_MAGIC + 3 then
       Some (bind_res (assert_param param) (\<lambda>v. Inr (gpio_input v w, ic, w)))
     else if cmd = GPIO_CMD_MAGIC + 2 then on (assert_param param) (\<lambda>v. gpio_enable_second_function v w)
     else if cmd = GPIO_CMD_MAGIC + 5 then Some (Inr (GPIO_SUCCESS, ic, extral_ack DPLL_UNLOCK_INT w))
     else if cmd = GPIO_CMD_MAGIC + 6 then on (assert_param param) (\<lambda>v. extral_enable DPLL_UNLOCK_INT_EN v w)
     else if cmd = GPIO_CMD_MAGIC + 10 then on (assert_param param) (\<lambda>v. extral_enable USB_PLUG_IN_INT_EN v w)
     else if cmd = GPIO_CMD_MAGIC + 11 then on (assert_param param) (\<lambda>v. extral_enable USB_PLUG_OUT_INT_EN v w)
     else if cmd = GPIO_CMD_MAGIC + 7 then
       (case param_gpio_int param of
          Inl e \<Rightarrow> Some (Inl e)
        | Inr g \<Rightarrow>
            map_option (map_sum id (\<lambda>(ic', w'). (GPIO_SUCCESS, ic', w')))
              (gpio_int_enable call st (gi_id g) (gi_mode g) (gi_phandler g) ic w))
     else if cmd = GPIO_CMD_MAGIC + 8 then on (param_u32 param) (\<lambda>v. gpio_int_disable v w)
     else Some (Inr (GPIO_SUCCESS, ic, w)))"

definition GPIO_DEV_NAME :: string where "GPIO_DEV_NAME = ''gpio''"

text \<open>Registration enters the address of \<open>gpio_op\<close>, here the argument \<open>op\<close>.\<close>

definition gpio_init :: "(bk_world, dev_param) sdd_operations \<Rightarrow> bk_drv \<Rightarrow> bk_drv result" where
  "gpio_init op st = bind_res (sddev_register_dev (Some GPIO_DEV_NAME) (Some op) st) (\<lambda>(_, st'). Inr st')"

definition gpio_exit :: "bk_drv \<Rightarrow> bk_drv result" where
  "gpio_exit st = bind_res (sddev_unregister_dev (Some GPIO_DEV_NAME) st) (\<lambda>(_, st'). Inr st')"

definition usb_is_plug_in :: "bk_world \<Rightarrow> u32" where
  "usb_is_plug_in w = (if w_read REG_GPIO_DETECT w AND 2 \<noteq> 0 then 1 else 0)"

definition usb_plug_event :: "(u32 \<times> u32 \<Rightarrow> u32 \<Rightarrow> bk_world \<Rightarrow> bk_world) \<Rightarrow> u32 \<Rightarrow> u32 \<Rightarrow> bk_world \<Rightarrow> bk_world" where
  "usb_plug_event call b event w =
    (if w_read REG_GPIO_EXTRAL_INT_CFG w AND b \<noteq> 0 then
       (let w = extral_ack b w in if fst (usb_plug w) \<noteq> 0 then call (usb_plug w) event w else w)
     else w)"

definition usb_plug_inout_isr :: "(u32 \<times> u32 \<Rightarrow> u32 \<Rightarrow> bk_world \<Rightarrow> bk_world) \<Rightarrow> bk_world \<Rightarrow> bk_world" where
  "usb_plug_inout_isr call w = usb_plug_event call USB_PLUG_OUT_INT 2 (usb_plug_event call USB_PLUG_IN_INT 1 w)"

section \<open>Registers of different pins\<close>

lemma gpio_reg_inject:
  assumes "unat k < 1024" "unat k' < 1024"
  shows "gpio_reg k = gpio_reg k' \<longleftrightarrow> k = k'"
proof
  assume "gpio_reg k = gpio_reg k'"
  then have "k * 4 = k' * 4" by (simp add: gpio_reg_def)
  then have "unat k * 4 = unat k' * 4"
    using assms unat_mult_fit [of k 4] unat_mult_fit [of k' 4] by simp
  then show "k = k'" by (simp add: word_unat_eq_iff)
qed simp

lemma gpio_cfg_addr_reg: "gpio_cfg_addr p = gpio_reg (if p < 32 then p else p + 16)"
  by (simp add: gpio_cfg_addr_def gpio_reg_def algebra_simps)

lemma gpio_pin_index:
  assumes "p < 40"
  shows "unat (if p < 32 then p else p + 16) < 1024"
    and "(if p < 32 then p else p + 16) \<notin> {32..<48 :: u32}" "(if p < 32 then p else p + 16) < 56"
proof -
  have p: "unat p < 40" using assms by (simp add: word_less_nat_alt)
  then have "unat (p + 16) = unat p + 16" by (simp add: unat_add_fit)
  with p show "unat (if p < 32 then p else p + 16) < 1024"
    and "(if p < 32 then p else p + 16) \<notin> {32..<48 :: u32}" "(if p < 32 then p else p + 16) < 56"
    by (auto simp: word_less_nat_alt word_le_nat_alt)
qed

lemma gpio_cfg_addr_inject:
  assumes "p < 40" "q < 40"
  shows "gpio_cfg_addr p = gpio_cfg_addr q \<longleftrightarrow> p = q"
proof -
  have "gpio_cfg_addr p = gpio_cfg_addr q \<longleftrightarrow> (if p < 32 then p else p + 16) = (if q < 32 then q else q + 16)"
    unfolding gpio_cfg_addr_reg by (rule gpio_reg_inject) (use assms gpio_pin_index in auto)
  moreover have "unat p < 40" "unat q < 40" "unat (p + 16) = unat p + 16" "unat (q + 16) = unat q + 16"
    using assms by (auto simp: word_less_nat_alt unat_add_fit)
  ultimately show ?thesis by (auto simp: word_less_nat_alt word_unat_eq_iff split: if_splits)
qed

lemma gpio_cfg_addr_other:
  assumes "p < 40" and "k \<in> {32..<48} \<or> 56 \<le> k" and "unat k < 1024"
  shows "gpio_cfg_addr p \<noteq> gpio_reg k"
proof -
  have "gpio_cfg_addr p = gpio_reg k \<longleftrightarrow> (if p < 32 then p else p + 16) = k"
    unfolding gpio_cfg_addr_reg by (rule gpio_reg_inject) (use assms gpio_pin_index in auto)
  then show ?thesis using gpio_pin_index [OF assms(1)] assms(2) by auto
qed

definition jtag_pin :: "u32 \<Rightarrow> bool" where
  "jtag_pin p \<longleftrightarrow> p \<in> {20, 21, 22, 23}"

lemma gpio_ops_filter_jtag: "gpio_ops_filter p = GPIO_SUCCESS \<longleftrightarrow> jtag_pin p"
  by (simp add: gpio_ops_filter_def jtag_pin_def)

lemma w_read_config:
  assumes "p < 40" "q < 40"
  shows "w_read (gpio_cfg_addr q) (gpio_config p m w) =
    (if p = q \<and> \<not> jtag_pin p then (case gpio_mode_val m of None \<Rightarrow> w_read (gpio_cfg_addr q) w | Some v \<Rightarrow> v)
     else w_read (gpio_cfg_addr q) w)"
  using assms
  by (auto simp: gpio_config_def gpio_ops_filter_jtag reg_simps gpio_cfg_addr_inject split: option.split)

section \<open>Routing of pins\<close>

definition pin_func :: "nat \<Rightarrow> bk_world \<Rightarrow> u32" where
  "pin_func i w = field_get (gpio_func_shift i) 3 (w_read (gpio_func_reg i) w)"

lemma gpio_func_reg_fits:
  "gpio_func_reg i \<in> gpio_reg ` {32, 46, 47}" "i < 40 \<Longrightarrow> gpio_func_shift i + 2 \<le> 32"
  by (auto simp: gpio_func_reg_def gpio_func_shift_def)

lemma gpio_func_reg_cfg: "p < 40 \<Longrightarrow> gpio_cfg_addr p \<noteq> gpio_func_reg i"
  by (auto simp: gpio_func_reg_def gpio_cfg_addr_other)

lemma pin_func_config: "p < 40 \<Longrightarrow> pin_func i (gpio_config p m w) = pin_func i w"
  using gpio_func_reg_cfg [of p i] by (auto simp: pin_func_def gpio_config_def reg_simps split: option.split)

lemma gpio_func_reg_inject: "gpio_func_reg i = gpio_func_reg j \<longleftrightarrow> (i < 16 \<longleftrightarrow> j < 16) \<and> (i < 32 \<longleftrightarrow> j < 32)"
  by (auto simp: gpio_func_reg_def gpio_reg_inject)

lemma pin_func_put:
  assumes "i < 40" "j < 40"
  shows "pin_func j (w_write (gpio_func_reg i) (field_put (gpio_func_shift i) 3 m (w_read (gpio_func_reg i) w)) w)
    = (if i = j then m AND 3 else pin_func j w)"
proof (cases "gpio_func_reg i = gpio_func_reg j")
  case True
  have fit: "gpio_func_shift i + 2 \<le> 32" "gpio_func_shift j + 2 \<le> 32" using assms gpio_func_reg_fits by auto
  have "gpio_func_shift j + 2 \<le> gpio_func_shift i \<or> gpio_func_shift i + 2 \<le> gpio_func_shift j" if "i \<noteq> j"
    using that True assms by (auto simp: gpio_func_reg_inject gpio_func_shift_def)
  with fit True show ?thesis by (auto simp: pin_func_def reg_simps field_simps_at)
next
  case False
  then show ?thesis by (auto simp: pin_func_def reg_simps)
qed

lemma of_nat_pin: "i < 40 \<Longrightarrow> (of_nat i :: u32) < 40" "i < 40 \<Longrightarrow> j < 40 \<Longrightarrow> (of_nat i :: u32) = of_nat j \<longleftrightarrow> i = j"
  by (simp_all add: word_less_nat_alt unat_of_nat word_of_nat_eq_iff take_bit_nat_eq_self)

definition second_val :: "gfunc \<Rightarrow> u32" where
  "second_val g = (if gf_pull_up g then 0x78 else 0x48)"

definition skipped :: "u32 \<Rightarrow> nat \<Rightarrow> bool" where
  "skipped f i \<longleftrightarrow> f = GFUNC_MODE_DCMI \<and> i = 28"

lemma second_pin_step:
  assumes "i < 40" "j < 40"
  shows "pin_func j (gpio_second_pin f g i w) = (if i = j \<and> \<not> skipped f i then gf_pmode g AND 3 else pin_func j w)"
    and "w_read (gpio_cfg_addr (of_nat j)) (gpio_second_pin f g i w) =
      (if i = j \<and> \<not> skipped f i \<and> \<not> jtag_pin (of_nat i) then second_val g else w_read (gpio_cfg_addr (of_nat j)) w)"
proof -
  show "pin_func j (gpio_second_pin f g i w) = (if i = j \<and> \<not> skipped f i then gf_pmode g AND 3 else pin_func j w)"
    using assms by (auto simp: gpio_second_pin_def skipped_def Let_def pin_func_put pin_func_config of_nat_pin)
  have ne: "gpio_cfg_addr (of_nat j) \<noteq> gpio_func_reg i" using assms by (simp add: gpio_func_reg_cfg of_nat_pin)
  define m where "m = (if gf_pull_up g then GMODE_SECOND_FUNC_PULL_UP else GMODE_SECOND_FUNC)"
  have m: "gpio_mode_val m = Some (second_val g)" by (simp add: m_def gpio_mode_val_def second_val_def)
  have "w_read (gpio_cfg_addr (of_nat j)) (gpio_second_pin f g i w) =
      w_read (gpio_cfg_addr (of_nat j)) (if skipped f i then w else gpio_config (of_nat i) m w)"
    using ne by (simp add: gpio_second_pin_def skipped_def Let_def reg_simps m_def)
  then show "w_read (gpio_cfg_addr (of_nat j)) (gpio_second_pin f g i w) =
      (if i = j \<and> \<not> skipped f i \<and> \<not> jtag_pin (of_nat i) then second_val g else w_read (gpio_cfg_addr (of_nat j)) w)"
    using assms by (cases "i = j") (auto simp: w_read_config of_nat_pin m)
qed

lemma second_pins_fold:
  assumes "\<forall>i\<in>set is. i < 40" "j < 40"
  shows "pin_func j (fold (gpio_second_pin f g) is w)
      = (if j \<in> set is \<and> \<not> skipped f j then gf_pmode g AND 3 else pin_func j w)"
    and "w_read (gpio_cfg_addr (of_nat j)) (fold (gpio_second_pin f g) is w)
      = (if j \<in> set is \<and> \<not> skipped f j \<and> \<not> jtag_pin (of_nat j) then second_val g else w_read (gpio_cfg_addr (of_nat j)) w)"
  using assms by (induction "is" arbitrary: w) (auto simp: second_pin_step)

lemma gfunc_of_range: "gf_end (gfunc_of f) < 40"
  by (simp add: gfunc_of_def gfunc_ext_def Let_def gf_pins_def gfunc0_def)

section \<open>Properties\<close>

lemma w_read_output:
  "w_read a (gpio_output p v w) = (if a = gpio_cfg_addr p \<and> \<not> jtag_pin p then field_put 1 1 v (w_read a w) else w_read a w)"
  by (auto simp: gpio_output_def gpio_ops_filter_jtag reg_simps Let_def field_put_def)

lemma w_read_reverse:
  "w_read a (gpio_output_reverse p w) = (if a = gpio_cfg_addr p \<and> \<not> jtag_pin p then w_read a w XOR 2 else w_read a w)"
  by (auto simp: gpio_output_reverse_def gpio_ops_filter_jtag reg_simps)

lemma gpio_pins_ok:
  assumes "p < GPIONUM"
  shows "jtag_pin p \<Longrightarrow> gpio_config p m w = w \<and> gpio_output p v w = w \<and> gpio_output_reverse p w = w \<and> gpio_input p w = 0"
    and "\<not> jtag_pin p \<Longrightarrow> w_read (gpio_cfg_addr p) (gpio_config p m w)
      = (case gpio_mode_val m of None \<Rightarrow> w_read (gpio_cfg_addr p) w | Some x \<Rightarrow> x)"
    and "\<not> jtag_pin p \<Longrightarrow> bit (w_read (gpio_cfg_addr p) (gpio_output p v w)) n
      = (if n = 1 then bit v 0 else bit (w_read (gpio_cfg_addr p) w) n)"
    and "w_read a (gpio_output_reverse p (gpio_output_reverse p w)) = w_read a w"
    and "a \<noteq> gpio_cfg_addr p \<Longrightarrow> w_read a (gpio_config p m w) = w_read a w
      \<and> w_read a (gpio_output p v w) = w_read a w \<and> w_read a (gpio_output_reverse p w) = w_read a w"
    and "\<lbrakk>q < GPIONUM; q \<noteq> p\<rbrakk> \<Longrightarrow> gpio_cfg_addr q \<noteq> gpio_cfg_addr p"
proof -
  show "jtag_pin p \<Longrightarrow> gpio_config p m w = w \<and> gpio_output p v w = w \<and> gpio_output_reverse p w = w \<and> gpio_input p w = 0"
    by (simp add: gpio_config_def gpio_output_def gpio_output_reverse_def gpio_input_def gpio_ops_filter_jtag)
  show "\<not> jtag_pin p \<Longrightarrow> w_read (gpio_cfg_addr p) (gpio_config p m w)
      = (case gpio_mode_val m of None \<Rightarrow> w_read (gpio_cfg_addr p) w | Some x \<Rightarrow> x)"
    using assms by (simp add: w_read_config)
  show "\<not> jtag_pin p \<Longrightarrow> bit (w_read (gpio_cfg_addr p) (gpio_output p v w)) n
      = (if n = 1 then bit v 0 else bit (w_read (gpio_cfg_addr p) w) n)"
    using bit_field.bit_put [OF bit_field_mask [of 1 1]] by (simp add: w_read_output)
  show "w_read a (gpio_output_reverse p (gpio_output_reverse p w)) = w_read a w"
    by (simp add: w_read_reverse xor.assoc)
  show "a \<noteq> gpio_cfg_addr p \<Longrightarrow> w_read a (gpio_config p m w) = w_read a w
      \<and> w_read a (gpio_output p v w) = w_read a w \<and> w_read a (gpio_output_reverse p w) = w_read a w"
    by (auto simp: w_read_output w_read_reverse gpio_config_def reg_simps split: option.split)
  show "\<lbrakk>q < GPIONUM; q \<noteq> p\<rbrakk> \<Longrightarrow> gpio_cfg_addr q \<noteq> gpio_cfg_addr p"
    using assms by (simp add: gpio_cfg_addr_inject)
qed

text \<open>pins do not disturb each other. A JTAG pin is never touched and reads 0; configuring a pin sets its register to the value of
  the mode or does nothing for an unknown one; output changes one bit of the pin's register only; a
  double reversal changes nothing; and no register but that of the pin itself is changed.\<close>

theorem gpio_pins_independent:
  assumes "p < GPIONUM"
  shows "(jtag_pin p \<longrightarrow> gpio_config p m w = w \<and> gpio_output p v w = w \<and> gpio_output_reverse p w = w \<and> gpio_input p w = 0)
    \<and> (\<not> jtag_pin p \<longrightarrow> w_read (gpio_cfg_addr p) (gpio_config p m w)
        = (case gpio_mode_val m of None \<Rightarrow> w_read (gpio_cfg_addr p) w | Some x \<Rightarrow> x)
      \<and> (\<forall>n. bit (w_read (gpio_cfg_addr p) (gpio_output p v w)) n
        = (if n = 1 then bit v 0 else bit (w_read (gpio_cfg_addr p) w) n)))
    \<and> (\<forall>a. w_read a (gpio_output_reverse p (gpio_output_reverse p w)) = w_read a w)
    \<and> (\<forall>a. a \<noteq> gpio_cfg_addr p \<longrightarrow> w_read a (gpio_config p m w) = w_read a w
        \<and> w_read a (gpio_output p v w) = w_read a w \<and> w_read a (gpio_output_reverse p w) = w_read a w)
    \<and> (\<forall>q. q < GPIONUM \<and> q \<noteq> p \<longrightarrow> gpio_cfg_addr q \<noteq> gpio_cfg_addr p)"
  using gpio_pins_ok [OF assms] by blast

theorem gpio_pins_independent_witness:
  "w_read (gpio_cfg_addr 5) (gpio_config 5 GMODE_OUTPUT icu_ex_w) = 0
    \<and> bit (w_read (gpio_cfg_addr 5) (gpio_output 5 1 icu_ex_w)) 1 \<and> gpio_input 20 icu_ex_w = 0"
  using gpio_pins_independent [of 5 GMODE_OUTPUT icu_ex_w 1] gpio_pins_independent [of 20]
  by (simp add: jtag_pin_def gpio_mode_val_def)

lemma gpio_second_function_ok:
  assumes "j < 40"
  shows "pin_func j (gpio_enable_second_function f w) =
      (if gf_start (gfunc_of f) \<le> j \<and> j \<le> gf_end (gfunc_of f) \<and> \<not> skipped f j
       then gf_pmode (gfunc_of f) AND 3 else pin_func j w)"
    and "w_read (gpio_cfg_addr (of_nat j)) (gpio_enable_second_function f w) =
      (if gf_start (gfunc_of f) \<le> j \<and> j \<le> gf_end (gfunc_of f) \<and> \<not> skipped f j \<and> \<not> jtag_pin (of_nat j)
       then second_val (gfunc_of f) else w_read (gpio_cfg_addr (of_nat j)) w)"
    and "36 \<le> f \<Longrightarrow> w_read (gpio_cfg_addr 0) (gpio_enable_second_function f w) = 0x48
      \<and> pin_func 0 (gpio_enable_second_function f w) = 0"
proof -
  define g where "g = gfunc_of f"
  have r: "\<forall>i\<in>set [gf_start g..<Suc (gf_end g)]. i < 40" using gfunc_of_range [of f] by (auto simp: g_def)
  have m: "pin_func i (w_write (gpio_reg 45) v w') = pin_func i w'"
    "i < 40 \<Longrightarrow> w_read (gpio_cfg_addr (of_nat i)) (w_write (gpio_reg 45) v w') = w_read (gpio_cfg_addr (of_nat i)) w'"
    for i w' v
    using gpio_cfg_addr_other [of "of_nat i" 45]
    by (auto simp: pin_func_def reg_simps gpio_func_reg_def gpio_reg_inject of_nat_pin)
  have fn: "pin_func i (gpio_enable_second_function f w) =
      (if gf_start g \<le> i \<and> i \<le> gf_end g \<and> \<not> skipped f i then gf_pmode g AND 3 else pin_func i w)" if "i < 40" for i
    using second_pins_fold(1) [OF r that, of f g w]
    by (auto simp: gpio_enable_second_function_def Let_def g_def [symmetric] m(1) simp del: upt_Suc split: option.split)
  have cf: "w_read (gpio_cfg_addr (of_nat i)) (gpio_enable_second_function f w) =
      (if gf_start g \<le> i \<and> i \<le> gf_end g \<and> \<not> skipped f i \<and> \<not> jtag_pin (of_nat i)
       then second_val g else w_read (gpio_cfg_addr (of_nat i)) w)" if "i < 40" for i
    using second_pins_fold(2) [OF r that, of f g w]
    by (auto simp: gpio_enable_second_function_def Let_def g_def [symmetric] m(2) [OF that] simp del: upt_Suc split: option.split)
  show "pin_func j (gpio_enable_second_function f w) =
      (if gf_start (gfunc_of f) \<le> j \<and> j \<le> gf_end (gfunc_of f) \<and> \<not> skipped f j
       then gf_pmode (gfunc_of f) AND 3 else pin_func j w)"
    using fn [OF assms] by (simp add: g_def)
  show "w_read (gpio_cfg_addr (of_nat j)) (gpio_enable_second_function f w) =
      (if gf_start (gfunc_of f) \<le> j \<and> j \<le> gf_end (gfunc_of f) \<and> \<not> skipped f j \<and> \<not> jtag_pin (of_nat j)
       then second_val (gfunc_of f) else w_read (gpio_cfg_addr (of_nat j)) w)"
    using cf [OF assms] by (simp add: g_def)
  assume "36 \<le> f"
  then have "36 \<le> unat f" by (simp add: word_le_nat_alt)
  then have "gfunc_of f = gfunc0" by (auto simp: gfunc_of_def gfunc_ext_def)
  then show "w_read (gpio_cfg_addr 0) (gpio_enable_second_function f w) = 0x48
      \<and> pin_func 0 (gpio_enable_second_function f w) = 0"
    using fn [of 0] cf [of 0] by (simp add: g_def gfunc0_def skipped_def jtag_pin_def second_val_def)
qed

text \<open>C23: selecting a peripheral routes exactly the pins of its entry: each of them (pin 28
  excepted for the camera) gets the mode of the entry in its function field and, unless it is
  a JTAG pin, the second function configuration, and every other pin keeps both. A number
  without an entry takes pin 0 away from its user.\<close>

theorem gpio_second_function_routes:
  assumes "j < 40"
  shows "pin_func j (gpio_enable_second_function f w) =
      (if gf_start (gfunc_of f) \<le> j \<and> j \<le> gf_end (gfunc_of f) \<and> \<not> skipped f j
       then gf_pmode (gfunc_of f) AND 3 else pin_func j w)
    \<and> w_read (gpio_cfg_addr (of_nat j)) (gpio_enable_second_function f w) =
      (if gf_start (gfunc_of f) \<le> j \<and> j \<le> gf_end (gfunc_of f) \<and> \<not> skipped f j \<and> \<not> jtag_pin (of_nat j)
       then second_val (gfunc_of f) else w_read (gpio_cfg_addr (of_nat j)) w)
    \<and> (36 \<le> f \<longrightarrow> w_read (gpio_cfg_addr 0) (gpio_enable_second_function f w) = 0x48
      \<and> pin_func 0 (gpio_enable_second_function f w) = 0)"
  using gpio_second_function_ok [OF assms, of f w] by blast

theorem gpio_second_function_routes_witness:
  "pin_func 11 (gpio_enable_second_function 13 icu_ex_w) = 0
    \<and> w_read (gpio_cfg_addr (of_nat 11)) (gpio_enable_second_function 13 icu_ex_w) = 0x78
    \<and> w_read (gpio_cfg_addr 0) (gpio_enable_second_function 99 icu_ex_w) = 0x48"
proof -
  have g: "gfunc_of 13 = (gf_pins 10 13 0)\<lparr>gf_pull_up := True\<rparr>" by (simp add: gfunc_of_def)
  show ?thesis
    using gpio_second_function_routes [of 11 13 icu_ex_w] gpio_second_function_routes [of 11 99 icu_ex_w]
    by (simp add: g gf_pins_def gfunc0_def skipped_def jtag_pin_def second_val_def)
qed

text \<open>The pin operations check no upper bound: writing 1 to pin 40 sets the
  interrupt enable bit of pin 33.\<close>

theorem gpio_output_beyond_pins:
  "w_read REG_GPIO_INTEN2 (gpio_output 40 1 w) = w_read REG_GPIO_INTEN2 w OR 2"
proof -
  have "gpio_cfg_addr 40 = REG_GPIO_INTEN2" by (simp add: gpio_cfg_addr_reg)
  moreover have "field_put 1 1 1 r = r OR 2" for r
    using bit_field.bit_put [OF bit_field_mask [of 1 1]] by (intro bit_word_eqI) (auto simp: bit_simps)
  ultimately show ?thesis by (simp add: w_read_output jtag_pin_def)
qed

text \<open>The handlers owed for a status word: the pending lines with a handler.\<close>

definition gpio_owed :: "nat \<Rightarrow> nat \<Rightarrow> u32 \<Rightarrow> u32 list \<Rightarrow> (u32 \<times> u32) list" where
  "gpio_owed base n status tbl =
    map (\<lambda>i. (tbl ! (i + base), of_nat (i + base))) (filter (\<lambda>i. bit status i \<and> tbl ! (i + base) \<noteq> 0) [0..<n])"

lemma gpio_isr_fold:
  assumes "\<And>h p w. p_gpio_intr_handler (call h p w) = p_gpio_intr_handler w" and "p_gpio_intr_handler w = tbl"
  shows "fold (gpio_isr_line call base s) is w
      = fold (\<lambda>(h, p). call h p) (map (\<lambda>i. (tbl ! (i + base), of_nat (i + base))) (filter (\<lambda>i. bit s i \<and> tbl ! (i + base) \<noteq> 0) is)) w"
    and "p_gpio_intr_handler (fold (gpio_isr_line call base s) is w) = tbl"
  using assms(2)
proof (induction "is" arbitrary: w)
  case (Cons i "is")
  {
    case 1
    then show ?case using Cons.IH(1) assms(1) by (simp add: gpio_isr_line_def)
  next
    case 2
    then show ?case using Cons.IH(2) assms(1) by (simp add: gpio_isr_line_def)
  }
qed simp_all

text \<open>the GPIO service routine calls the handler of every pin that is pending and has one, exactly once, with its pin
  number, in the order of the pins, and acknowledges exactly the pending bits it read, for handlers that do not
  change the handler table.\<close>

theorem gpio_isr_serves_pins:
  assumes "\<And>h p w. p_gpio_intr_handler (call h p w) = p_gpio_intr_handler w"
  shows "gpio_isr call w =
    (let s = w_read REG_GPIO_INTSTA w; tbl = p_gpio_intr_handler w;
         w1 = w_write REG_GPIO_INTSTA s (fold (\<lambda>(h, p). call h p) (gpio_owed 0 32 s tbl) w);
         s2 = w_read REG_GPIO_INTSTA2 w1
     in w_write REG_GPIO_INTSTA2 s2 (fold (\<lambda>(h, p). call h p) (gpio_owed 32 8 s2 tbl) w1))"
proof -
  define s where "s = w_read REG_GPIO_INTSTA w"
  define tbl where "tbl = p_gpio_intr_handler w"
  note f = gpio_isr_fold [OF assms, where tbl = tbl]
  have "fold (gpio_isr_line call 0 s) [0..<32] w = fold (\<lambda>(h, p). call h p) (gpio_owed 0 32 s tbl) w"
    "p_gpio_intr_handler (fold (gpio_isr_line call 0 s) [0..<32] w) = tbl"
    unfolding gpio_owed_def by (intro f; simp add: tbl_def)+
  moreover have "fold (gpio_isr_line call 32 s2) [0..<8] w1 = fold (\<lambda>(h, p). call h p) (gpio_owed 32 8 s2 tbl) w1"
    if "p_gpio_intr_handler w1 = tbl" for s2 w1
    unfolding gpio_owed_def using that by (intro f)
  ultimately show ?thesis
    unfolding gpio_isr_def Let_def s_def [symmetric] tbl_def [symmetric] by simp
qed

definition gpio_ex_w :: bk_world where
  "gpio_ex_w = icu_ex_w\<lparr>w_reg := (\<lambda>a. if a = REG_GPIO_INTSTA then 8 else 0),
     p_gpio_intr_handler := (replicate 40 0)[3 := 0x4711]\<rparr>"

theorem gpio_isr_serves_pins_witness:
  "\<exists>call :: gpio_call. (\<forall>h p w. p_gpio_intr_handler (call h p w) = p_gpio_intr_handler w)
    \<and> w_read 0 (gpio_isr call gpio_ex_w) = 0x4711 \<and> w_read REG_GPIO_INTSTA (gpio_isr call gpio_ex_w) = 8"
proof -
  let ?call = "\<lambda>h p w. w_write 0 h w :: bk_world"
  have c: "\<And>h p w. p_gpio_intr_handler (?call h p w) = p_gpio_intr_handler w" by simp
  have "gpio_owed 0 32 8 ((replicate 40 0)[3 := 0x4711]) = [(0x4711, 3)]" by code_simp
  moreover have "gpio_owed 32 8 0 tbl = []" for tbl by (simp add: gpio_owed_def)
  moreover have "w_read REG_GPIO_INTSTA gpio_ex_w = 8" "w_read REG_GPIO_INTSTA2 gpio_ex_w = 0"
    by (simp_all add: w_read_def REG_READ_def gpio_ex_w_def gpio_reg_inject)
  moreover have "p_gpio_intr_handler gpio_ex_w = (replicate 40 0)[3 := 0x4711]" by (simp add: gpio_ex_w_def)
  moreover have "gpio_reg k \<noteq> 0" if "k = 36 \<or> k = 58" for k using that by (auto simp: gpio_reg_def GPIO_BASE_ADDR_def)
  ultimately have "w_read 0 (gpio_isr ?call gpio_ex_w) = 0x4711 \<and> w_read REG_GPIO_INTSTA (gpio_isr ?call gpio_ex_w) = 8"
    unfolding gpio_isr_serves_pins [of ?call, OF c] by (simp add: Let_def reg_simps gpio_reg_inject del: replicate_0)
  with c show ?thesis by (intro exI [of _ ?call]) simp
qed

end
