(* ===== verification/Key_Main.thy ===== *)
theory Key_Main
  imports Button_List Gpio
begin

text \<open>
  The key service, \<^verbatim>\<open>beken378/func/key/key_main.c\<close>: configuring a key allocates a button, binds it to a
  level function and to the callbacks, and starts it; removing a key stops and frees every button
  of its pin. Both board variants are modelled: keys on single GPIO pins (\<open>key_get_gpio_value\<close>, over
  the GPIO driver) and the key matrix of the other boards (\<open>matrix_key_get_value\<close>), whose pin functions
  \<open>rt_pin_mode\<close>, \<open>rt_pin_write\<close> and \<open>rt_pin_read\<close> belong to RT-Thread and are parameters. The address that
  \<open>os_malloc\<close> returns is an argument (\<open>NULL\<close> when memory is short); the addresses given to \<open>os_free\<close>
  are collected. The timer and mutex set-up of \<open>key_configure\<close> is not modelled.
\<close>

section \<open>Keys on GPIO pins\<close>

definition key_get_gpio_value :: "bk_world hal" where
  "key_get_gpio_value user_data active w = (ucast (gpio_input user_data w), w)"

text \<open>The four attachments, in the order of both configuration functions.\<close>

definition key_attach_all ::
  "nat option \<Rightarrow> nat option \<Rightarrow> nat option \<Rightarrow> nat option \<Rightarrow> 'e button \<Rightarrow> 'e button result" where
  "key_attach_all short_press double_press long_press hold_press h =
    bind_res (button_attach h SINGLE_CLICK short_press) (\<lambda>h.
    bind_res (button_attach h DOUBLE_CLICK double_press) (\<lambda>h.
    bind_res (button_attach h LONG_PRESS_START long_press) (\<lambda>h.
    button_attach h LONG_PRESS_HOLD hold_press)))"

text \<open>The end of both configuration functions: the initialised button is started; if that fails it
  is freed.\<close>

definition key_start_item :: "nat \<Rightarrow> 'e button \<Rightarrow> 'e \<Rightarrow> 'e keys \<Rightarrow> (int \<times> 'e keys \<times> nat list) result option" where
  "key_start_item handle h e k =
    (let k = k\<lparr>btn := (btn k)(handle := h), key_env := e\<rparr>
     in map_option (map_sum id (\<lambda>(result, k'). if result < 0 then (kGeneralErr, k', [handle]) else (kNoErr, k', [])))
          (button_start handle k))"

definition key_item_configure ::
  "nat \<Rightarrow> u32 \<Rightarrow> nat option \<Rightarrow> nat option \<Rightarrow> nat option \<Rightarrow> nat option \<Rightarrow> bk_world keys
    \<Rightarrow> (int \<times> bk_world keys \<times> nat list) result option" where
  "key_item_configure handle gpio short_press double_press long_press hold_press k =
    (if handle = NULL then Some (Inr (kNoMemoryErr, k, []))
     else
       (let w = gpio_config gpio GMODE_INPUT_PULLUP (key_env k)
        in case bind_res (button_init (Some key_get_gpio_value) 0 gpio w) (\<lambda>(h, w).
                bind_res (key_attach_all short_press double_press long_press hold_press h) (\<lambda>h. Inr (h, w))) of
             Inl e \<Rightarrow> Some (Inl e)
           | Inr (h, w) \<Rightarrow> key_start_item handle h w k))"

partial_function (option) unconfigure_loop :: "u32 \<Rightarrow> 'e keys \<Rightarrow> nat list \<Rightarrow> ('e keys \<times> nat list) option" where
  "unconfigure_loop gpio k freed =
    (case button_find_with_user_data gpio k of
       None \<Rightarrow> None
     | Some handle \<Rightarrow>
         if handle = NULL then Some (k, freed)
         else (case button_stop handle k of
                 None \<Rightarrow> None
               | Some k' \<Rightarrow> unconfigure_loop gpio k' (freed @ [handle])))"

definition key_item_unconfigure :: "u32 \<Rightarrow> 'e keys \<Rightarrow> (int \<times> 'e keys \<times> nat list) option" where
  "key_item_unconfigure gpio k = map_option (\<lambda>(k', freed). (kNoErr, k', freed)) (unconfigure_loop gpio k [])"

section \<open>The key matrix\<close>

datatype pin_mode = PIN_MODE_INPUT_PULLUP | PIN_MODE_INPUT_PULLDOWN | PIN_MODE_OUTPUT

record 'p pin_ops =
  rt_pin_mode :: "nat \<Rightarrow> pin_mode \<Rightarrow> 'p \<Rightarrow> 'p"
  rt_pin_write :: "nat \<Rightarrow> nat \<Rightarrow> 'p \<Rightarrow> 'p"
  rt_pin_read :: "nat \<Rightarrow> 'p \<Rightarrow> u8"

text \<open>The static variables of \<open>matrix_key_get_value\<close> and the pins.\<close>

record 'p matrix =
  combo_state :: u8
  m_level :: u8
  m_pins :: 'p

datatype keyitem =
    KEY_COMBO_S1S2_CONFIG_NET | KEY_S1_PREV_PLAY | KEY_S2_NEXT | KEY_S3_COLLECT | KEY_S4_WECHAT | KEY_S5_VOICE

primrec key_code :: "keyitem \<Rightarrow> u32" where
  "key_code KEY_COMBO_S1S2_CONFIG_NET = 0"
| "key_code KEY_S1_PREV_PLAY = 1"
| "key_code KEY_S2_NEXT = 2"
| "key_code KEY_S3_COLLECT = 3"
| "key_code KEY_S4_WECHAT = 4"
| "key_code KEY_S5_VOICE = 5"

abbreviation (input) KEY_S1_GPIO6 :: nat where "KEY_S1_GPIO6 \<equiv> 6"
abbreviation (input) KEY_S2_GPIO7 :: nat where "KEY_S2_GPIO7 \<equiv> 7"
abbreviation (input) KEY_S3_GPIO8 :: nat where "KEY_S3_GPIO8 \<equiv> 8"

definition read_pullup :: "'p pin_ops \<Rightarrow> nat \<Rightarrow> 'p matrix \<Rightarrow> 'p matrix" where
  "read_pullup ops pin m =
    (let ps = rt_pin_mode ops pin PIN_MODE_INPUT_PULLUP (m_pins m)
     in m\<lparr>m_pins := ps, m_level := rt_pin_read ops pin ps\<rparr>)"

definition combo_read :: "'p pin_ops \<Rightarrow> u8 \<Rightarrow> u8 \<Rightarrow> 'p matrix \<Rightarrow> 'p matrix" where
  "combo_read ops active_level unactive_level m =
    (let ps = rt_pin_mode ops KEY_S1_GPIO6 PIN_MODE_INPUT_PULLUP (m_pins m);
         ps = rt_pin_mode ops KEY_S2_GPIO7 PIN_MODE_INPUT_PULLUP ps;
         ps = rt_pin_mode ops KEY_S3_GPIO8 PIN_MODE_INPUT_PULLUP ps;
         combo_level_1 = rt_pin_read ops KEY_S1_GPIO6 ps;
         combo_level_2 = rt_pin_read ops KEY_S2_GPIO7 ps;
         m = m\<lparr>m_pins := ps\<rparr>
     in if combo_state m = 1 then
          if combo_level_1 = unactive_level \<and> combo_level_2 = unactive_level
          then m\<lparr>m_level := unactive_level, combo_state := 0\<rparr> else m\<lparr>m_level := active_level\<rparr>
        else
          if combo_level_1 = active_level \<and> combo_level_2 = active_level
          then m\<lparr>m_level := active_level, combo_state := 1\<rparr> else m\<lparr>m_level := unactive_level\<rparr>)"

definition drive_read :: "'p pin_ops \<Rightarrow> nat \<Rightarrow> nat \<Rightarrow> nat \<Rightarrow> 'p matrix \<Rightarrow> 'p matrix" where
  "drive_read ops down1 down2 out m =
    (let ps = rt_pin_mode ops down1 PIN_MODE_INPUT_PULLDOWN (m_pins m);
         ps = rt_pin_mode ops down2 PIN_MODE_INPUT_PULLDOWN ps;
         ps = rt_pin_mode ops out PIN_MODE_OUTPUT ps;
         ps = rt_pin_write ops out 1 ps
     in m\<lparr>m_pins := ps, m_level := rt_pin_read ops KEY_S2_GPIO7 ps\<rparr>)"

definition matrix_key_get_value :: "'p pin_ops \<Rightarrow> 'p matrix hal" where
  "matrix_key_get_value ops user_data active m =
    (let active_level = ucast active;
         unactive_level = (if active_level \<noteq> 0 then 0 else 1);
         m = (if combo_state m = 1 \<and> user_data \<noteq> key_code KEY_COMBO_S1S2_CONFIG_NET then m\<lparr>m_level := unactive_level\<rparr>
              else if user_data = key_code KEY_COMBO_S1S2_CONFIG_NET then combo_read ops active_level unactive_level m
              else if user_data = key_code KEY_S1_PREV_PLAY then read_pullup ops KEY_S1_GPIO6 m
              else if user_data = key_code KEY_S2_NEXT then read_pullup ops KEY_S2_GPIO7 m
              else if user_data = key_code KEY_S3_COLLECT then read_pullup ops KEY_S3_GPIO8 m
              else if user_data = key_code KEY_S4_WECHAT then drive_read ops KEY_S2_GPIO7 KEY_S3_GPIO8 KEY_S1_GPIO6 m
              else if user_data = key_code KEY_S5_VOICE then drive_read ops KEY_S2_GPIO7 KEY_S1_GPIO6 KEY_S3_GPIO8 m
              else m)
     in (m_level m, m))"

definition matrix_active_level :: "keyitem \<Rightarrow> u8" where
  "matrix_active_level key = (case key of KEY_S4_WECHAT \<Rightarrow> 1 | KEY_S5_VOICE \<Rightarrow> 1 | _ \<Rightarrow> 0)"

definition matrix_key_item_configure ::
  "'p pin_ops \<Rightarrow> nat \<Rightarrow> keyitem \<Rightarrow> nat option \<Rightarrow> nat option \<Rightarrow> nat option \<Rightarrow> nat option \<Rightarrow> 'p matrix keys
    \<Rightarrow> (int \<times> 'p matrix keys \<times> nat list) result option" where
  "matrix_key_item_configure ops handle key short_press double_press long_press hold_press k =
    (if handle = NULL then Some (Inr (kNoMemoryErr, k, []))
     else
       (case bind_res (button_init (Some (matrix_key_get_value ops)) (matrix_active_level key) (key_code key) (key_env k)) (\<lambda>(h, m).
             bind_res (key_attach_all short_press double_press long_press hold_press h) (\<lambda>h. Inr (h, m))) of
          Inl e \<Rightarrow> Some (Inl e)
        | Inr (h, m) \<Rightarrow> key_start_item handle h m k))"

section \<open>Configuring and removing keys\<close>

lemma key_attach_all_ok:
  assumes "length (b_cb h) = 7"
  shows "key_attach_all s d l p h = Inr (h\<lparr>b_cb := (b_cb h)[3 := s, 4 := d, 5 := l, 6 := p]\<rparr>)"
  using assms by (simp add: key_attach_all_def button_attach_def)

lemma key_start_item_ok:
  assumes "keys_list k xs" and "handle \<noteq> NULL" and "handle \<notin> set xs"
  shows "\<exists>k'. key_start_item handle h e k = Some (Inr (kNoErr, k', [])) \<and> keys_list k' (handle # xs)
    \<and> (btn k' handle)\<lparr>b_next := 0\<rparr> = h\<lparr>b_next := 0\<rparr> \<and> key_env k' = e
    \<and> (\<forall>a. a \<noteq> handle \<longrightarrow> (btn k' a)\<lparr>b_next := 0\<rparr> = (btn k a)\<lparr>b_next := 0\<rparr>)"
proof -
  define k1 where "k1 = k\<lparr>btn := (btn k)(handle := h), key_env := e\<rparr>"
  have "chain (next_of k1) (head_handle k1) xs = chain (next_of k) (head_handle k) xs"
    using assms(3) by (simp add: k1_def next_of_def) (rule chain_frame, auto simp: next_of_def)
  then have "keys_list k1 xs" using assms(1) by (simp add: keys_list_def)
  then obtain k' where "button_start handle k1 = Some (Inr (0, k'))" "keys_list k' (handle # xs)" "same_buttons k1 k'"
    using button_start_ok(2) [OF _ assms(2), of k1 xs] assms(3) by blast
  then show ?thesis
    by (auto simp: key_start_item_def k1_def same_buttons_def)
qed

lemma unconfigure_loop_ok:
  assumes "keys_list k xs"
  shows "\<exists>k'. unconfigure_loop gpio k freed = Some (k', freed @ filter (\<lambda>a. b_user_data (btn k a) = gpio) xs)
    \<and> keys_list k' (filter (\<lambda>a. b_user_data (btn k a) \<noteq> gpio) xs) \<and> same_buttons k k'"
  using assms
proof (induction "length xs" arbitrary: xs k freed rule: less_induct)
  case less
  let ?P = "\<lambda>a. b_user_data (btn k a) = gpio"
  note find = button_find_ok [OF less.prems, of gpio]
  have d: "distinct xs" "NULL \<notin> set xs" using less.prems chain_distinct chain_NULL_notin by (auto simp: keys_list_def)
  show ?case
  proof (cases "filter ?P xs")
    case Nil
    then have "filter (\<lambda>a. \<not> ?P a) xs = xs" by (simp add: filter_empty_conv filter_id_conv)
    then show ?thesis using Nil find less.prems by (subst unconfigure_loop.simps) simp
  next
    case (Cons y ys)
    have "y \<in> set (filter ?P xs)" by (simp add: Cons)
    then have "y \<in> set xs" "?P y" by auto
    moreover from this have "y \<noteq> NULL" using d(2) by metis
    ultimately have y: "y \<in> set xs" "?P y" "y \<noteq> NULL" by auto
    obtain k1 where k1: "button_stop y k = Some k1" "keys_list k1 (remove1 y xs)" "same_buttons k k1"
      using stop_loop_ok [of k "[]" xs NULL y] less.prems by (auto simp: button_stop_def)
    have ud: "b_user_data (btn k1 a) = b_user_data (btn k a)" for a
    proof -
      have "(btn k1 a)\<lparr>b_next := 0\<rparr> = (btn k a)\<lparr>b_next := 0\<rparr>" using k1(3) by (simp add: same_buttons_def)
      then have "b_user_data ((btn k1 a)\<lparr>b_next := 0\<rparr>) = b_user_data ((btn k a)\<lparr>b_next := 0\<rparr>)" by simp
      then show ?thesis by simp
    qed
    have "length (remove1 y xs) < length xs" using y(1) length_pos_if_in_set [of y xs] by (simp add: length_remove1)
    from less.hyps [OF this k1(2), of "freed @ [y]"] obtain k' where
      k': "unconfigure_loop gpio k1 (freed @ [y]) = Some (k', freed @ y # filter ?P (remove1 y xs))"
      "keys_list k' (filter (\<lambda>a. \<not> ?P a) (remove1 y xs))" "same_buttons k1 k'"
      by (auto simp: ud)
    have "filter ?P (remove1 y xs) = ys" using Cons by (simp add: filter_remove1)
    moreover have "filter (\<lambda>a. \<not> ?P a) (remove1 y xs) = filter (\<lambda>a. \<not> ?P a) xs"
      using y(2) by (simp add: filter_remove1 remove1_idem)
    moreover have "unconfigure_loop gpio k freed = unconfigure_loop gpio k1 (freed @ [y])"
      using find Cons y(3) k1(1) by (subst unconfigure_loop.simps) simp
    moreover have "same_buttons k k'" using k1(3) k'(3) same_buttons_trans by blast
    ultimately show ?thesis using k' Cons by simp
  qed
qed

section \<open>Properties\<close>

lemma key_item_configure_ok:
  assumes "keys_list k xs" and "handle \<noteq> NULL" and "handle \<notin> set xs"
  shows "\<exists>k'. key_item_configure handle gpio s d l p k = Some (Inr (kNoErr, k', [])) \<and> keys_list k' (handle # xs)
      \<and> key_env k' = gpio_config gpio GMODE_INPUT_PULLUP (key_env k)
      \<and> b_user_data (btn k' handle) = gpio \<and> b_cb (btn k' handle) = [None, None, None, s, d, l, p]
      \<and> button_wf (btn k' handle)
      \<and> (gpio_input gpio (key_env k') = 1 \<longrightarrow> button_rel (btn k' handle) False 0 Idle)
      \<and> (\<forall>a. a \<noteq> handle \<longrightarrow> (btn k' a)\<lparr>b_next := 0\<rparr> = (btn k a)\<lparr>b_next := 0\<rparr>)"
    and "key_item_configure NULL gpio s d l p k = Some (Inr (kNoMemoryErr, k, []))"
proof -
  define w where "w = gpio_config gpio GMODE_INPUT_PULLUP (key_env k)"
  define h where "h = \<lparr>b_ticks = 0, b_repeat = 0, b_event = 8, b_state = 0, b_debounce_cnt = 0, b_active_level = 0,
    b_button_level = ucast (ucast (gpio_input gpio w) :: u8), b_user_data = gpio, b_hal = Some key_get_gpio_value,
    b_cb = [None, None, None, s, d, l, p], b_next = 0\<rparr>"
  have init: "bind_res (button_init (Some key_get_gpio_value) 0 gpio w) (\<lambda>(h, w).
      bind_res (key_attach_all s d l p h) (\<lambda>h. Inr (h, w))) = Inr (h, w)"
    by (simp add: button_init_def hal_button_Level_def key_get_gpio_value_def key_attach_all_ok h_def numeral_eq_Suc)
  obtain k' where k': "key_start_item handle h w k = Some (Inr (kNoErr, k', []))" "keys_list k' (handle # xs)"
    "(btn k' handle)\<lparr>b_next := 0\<rparr> = h\<lparr>b_next := 0\<rparr>" "key_env k' = w"
    "\<forall>a. a \<noteq> handle \<longrightarrow> (btn k' a)\<lparr>b_next := 0\<rparr> = (btn k a)\<lparr>b_next := 0\<rparr>"
    using key_start_item_ok [OF assms, of h w] by blast
  have h': "btn k' handle = h\<lparr>b_next := b_next (btn k' handle)\<rparr>"
    using k'(3) by (cases "btn k' handle") (simp add: h_def)
  have "key_item_configure handle gpio s d l p k = Some (Inr (kNoErr, k', []))"
    using assms(2) init k'(1) by (simp add: key_item_configure_def flip: w_def)
  moreover have "b_user_data (btn k' handle) = gpio" "b_cb (btn k' handle) = [None, None, None, s, d, l, p]"
    "button_wf (btn k' handle)"
    by (subst h', simp add: h_def button_wf_def button_states_def DEBOUNCE_TICKS_def)+
  moreover have "button_rel (btn k' handle) False 0 Idle" if "gpio_input gpio w = 1"
    using that by (subst h') (simp add: h_def button_rel_def is_pressed_def DEBOUNCE_TICKS_def)
  ultimately show "\<exists>k'. key_item_configure handle gpio s d l p k = Some (Inr (kNoErr, k', [])) \<and> keys_list k' (handle # xs)
      \<and> key_env k' = gpio_config gpio GMODE_INPUT_PULLUP (key_env k)
      \<and> b_user_data (btn k' handle) = gpio \<and> b_cb (btn k' handle) = [None, None, None, s, d, l, p]
      \<and> button_wf (btn k' handle)
      \<and> (gpio_input gpio (key_env k') = 1 \<longrightarrow> button_rel (btn k' handle) False 0 Idle)
      \<and> (\<forall>a. a \<noteq> handle \<longrightarrow> (btn k' a)\<lparr>b_next := 0\<rparr> = (btn k a)\<lparr>b_next := 0\<rparr>)"
    using k' by (auto simp: w_def)
  show "key_item_configure NULL gpio s d l p k = Some (Inr (kNoMemoryErr, k, []))"
    by (simp add: key_item_configure_def)
qed

text \<open>configuring a key on a pin with a fresh button adds exactly one button to the list, bound to the
  pin and to the four callbacks, and leaves the other buttons as they were; when the pin then reads high the
  button is released and idle. Without memory nothing changes and the answer is an error.\<close>

theorem key_item_configure_adds_button:
  assumes "keys_list k xs" and "handle \<noteq> NULL" and "handle \<notin> set xs"
  shows "(\<exists>k'. key_item_configure handle gpio s d l p k = Some (Inr (kNoErr, k', [])) \<and> keys_list k' (handle # xs)
      \<and> key_env k' = gpio_config gpio GMODE_INPUT_PULLUP (key_env k)
      \<and> b_user_data (btn k' handle) = gpio \<and> b_cb (btn k' handle) = [None, None, None, s, d, l, p]
      \<and> button_wf (btn k' handle)
      \<and> (gpio_input gpio (key_env k') = 1 \<longrightarrow> button_rel (btn k' handle) False 0 Idle)
      \<and> (\<forall>a. a \<noteq> handle \<longrightarrow> (btn k' a)\<lparr>b_next := 0\<rparr> = (btn k a)\<lparr>b_next := 0\<rparr>))
    \<and> key_item_configure NULL gpio s d l p k = Some (Inr (kNoMemoryErr, k, []))"
  using key_item_configure_ok [OF assms] by (intro conjI)

definition no_keys :: "bk_world keys" where
  "no_keys = \<lparr>head_handle = NULL, btn = (\<lambda>_. undefined), key_env = icu_ex_w, key_log = []\<rparr>"

theorem key_item_configure_adds_button_witness:
  "\<exists>k'. key_item_configure 100 5 (Some 1) None None None no_keys = Some (Inr (0, k', [])) \<and> keys_list k' [100]"
  using key_item_configure_adds_button [of no_keys "[]" 100 5 "Some 1" None None None]
  by (auto simp: keys_list_def no_keys_def)

text \<open>C32: removing a key returns and has removed, and freed exactly once each, all the buttons of
  the pin and no other; the rest of the list keeps its order.\<close>

theorem key_item_unconfigure_removes_all:
  assumes "keys_list k xs"
  shows "\<exists>k'. key_item_unconfigure gpio k = Some (kNoErr, k', filter (\<lambda>a. b_user_data (btn k a) = gpio) xs)
    \<and> keys_list k' (filter (\<lambda>a. b_user_data (btn k a) \<noteq> gpio) xs) \<and> same_buttons k k'"
  using unconfigure_loop_ok [OF assms, of gpio "[]"] by (auto simp: key_item_unconfigure_def)

theorem key_item_unconfigure_removes_all_witness:
  "\<exists>k'. key_item_unconfigure 23 demo_keys = Some (0, k', [10, 20]) \<and> keys_list k' []"
  using key_item_unconfigure_removes_all [OF demo_keys_list, of 23] by (simp add: demo_keys_def demo_button_def) blast

lemma matrix_combo_ok:
  "\<lbrakk>combo_state m = 1; key \<noteq> KEY_COMBO_S1S2_CONFIG_NET; matrix_key_get_value ops (key_code key) act m = (lv, m')\<rbrakk>
    \<Longrightarrow> lv \<noteq> ucast act \<and> m_pins m' = m_pins m \<and> combo_state m' = 1"
  "\<lbrakk>matrix_key_get_value ops (key_code key) act m = (lv, m'); combo_state m' \<noteq> combo_state m; combo_state m \<le> 1\<rbrakk>
    \<Longrightarrow> key = KEY_COMBO_S1S2_CONFIG_NET \<and> combo_state m' = 1 - combo_state m
      \<and> (combo_state m' = 1 \<longrightarrow> rt_pin_read ops 6 (m_pins m') = ucast act \<and> rt_pin_read ops 7 (m_pins m') = ucast act \<and> lv = ucast act)
      \<and> (combo_state m' = 0 \<longrightarrow> rt_pin_read ops 6 (m_pins m') \<noteq> ucast act \<and> rt_pin_read ops 7 (m_pins m') \<noteq> ucast act \<and> lv \<noteq> ucast act)"
proof -
  have act: "act = 0 \<or> act = 1" by (rule word1_cases)
  have code: "key_code key = 0 \<longleftrightarrow> key = KEY_COMBO_S1S2_CONFIG_NET" by (cases key) simp_all
  show "\<lbrakk>combo_state m = 1; key \<noteq> KEY_COMBO_S1S2_CONFIG_NET; matrix_key_get_value ops (key_code key) act m = (lv, m')\<rbrakk>
    \<Longrightarrow> lv \<noteq> ucast act \<and> m_pins m' = m_pins m \<and> combo_state m' = 1"
    using act by (auto simp: matrix_key_get_value_def Let_def code)
  assume r: "matrix_key_get_value ops (key_code key) act m = (lv, m')" "combo_state m' \<noteq> combo_state m" "combo_state m \<le> 1"
  have key: "key = KEY_COMBO_S1S2_CONFIG_NET"
    using r(1,2) by (auto simp: matrix_key_get_value_def Let_def code read_pullup_def drive_read_def split: if_splits)
  have m: "m' = combo_read ops (ucast act) (if ucast act \<noteq> (0 :: u8) then 0 else 1) m" "lv = m_level m'"
    using r(1) by (auto simp: matrix_key_get_value_def Let_def key)
  have c: "combo_state m = 0 \<or> combo_state m = 1" using r(3) by (auto simp: word_le_nat_alt word_unat_eq_iff)
  show "key = KEY_COMBO_S1S2_CONFIG_NET \<and> combo_state m' = 1 - combo_state m
      \<and> (combo_state m' = 1 \<longrightarrow> rt_pin_read ops 6 (m_pins m') = ucast act \<and> rt_pin_read ops 7 (m_pins m') = ucast act \<and> lv = ucast act)
      \<and> (combo_state m' = 0 \<longrightarrow> rt_pin_read ops 6 (m_pins m') \<noteq> ucast act \<and> rt_pin_read ops 7 (m_pins m') \<noteq> ucast act \<and> lv \<noteq> ucast act)"
    using key m r(2) c act by (auto simp: combo_read_def Let_def split: if_splits)
qed

text \<open>in the key matrix, while the combination of keys 1 and 2 is held every other key reads
  released and drives no pin; the combination starts only when both keys read active and ends only
  when both read inactive.\<close>

theorem matrix_combo_masks_keys:
  assumes "matrix_key_get_value ops (key_code key) act m = (lv, m')"
  shows "(combo_state m = 1 \<and> key \<noteq> KEY_COMBO_S1S2_CONFIG_NET \<longrightarrow>
      lv \<noteq> ucast act \<and> m_pins m' = m_pins m \<and> combo_state m' = 1)
    \<and> (combo_state m' \<noteq> combo_state m \<and> combo_state m \<le> 1 \<longrightarrow>
      key = KEY_COMBO_S1S2_CONFIG_NET \<and> combo_state m' = 1 - combo_state m
      \<and> (combo_state m' = 1 \<longrightarrow> rt_pin_read ops 6 (m_pins m') = ucast act \<and> rt_pin_read ops 7 (m_pins m') = ucast act \<and> lv = ucast act)
      \<and> (combo_state m' = 0 \<longrightarrow> rt_pin_read ops 6 (m_pins m') \<noteq> ucast act \<and> rt_pin_read ops 7 (m_pins m') \<noteq> ucast act \<and> lv \<noteq> ucast act))"
  using matrix_combo_ok(1) [OF _ _ assms] matrix_combo_ok(2) [OF assms] by blast

definition demo_pins :: "u8 pin_ops" where
  "demo_pins = \<lparr>rt_pin_mode = (\<lambda>_ _ p. p), rt_pin_write = (\<lambda>_ _ p. p), rt_pin_read = (\<lambda>_ p. p)\<rparr>"

theorem matrix_combo_masks_keys_witness:
  "fst (matrix_key_get_value demo_pins (key_code KEY_S1_PREV_PLAY) 0 \<lparr>combo_state = 1, m_level = 0, m_pins = 0\<rparr>) \<noteq> 0"
  using matrix_combo_masks_keys [of demo_pins KEY_S1_PREV_PLAY 0 "\<lparr>combo_state = 1, m_level = 0, m_pins = 0\<rparr>"]
  by (simp add: prod_eq_iff)

end
