(* ===== verification/Kfifo.thy ===== *)
theory Kfifo
  imports Bk_Prelude
begin

text \<open>
  The byte queue of \<^verbatim>\<open>beken378/common/fifo.h\<close>: a buffer whose size is a power of two, with two
  counters \<open>in\<close> and \<open>out\<close> that run freely through all 32-bit values and wrap; the fill is their
  difference and the position in the buffer is the counter under the mask. Every function of the
  header is one definition over the struct and the byte memory; \<open>os_malloc\<close> is the address it
  returns, \<open>os_free\<close> the list of addresses given back. The interrupt lock around the copies does not
  change the state.

  The lemmas show that the queue is a FIFO for every value of the counters, also across their
  wrap-around (interpretation \<open>kff\<close> of \<open>byte_fifo\<close>).
\<close>

section \<open>The queue and its operations\<close>

record kfifo =
  kf_in :: u32
  kf_out :: u32
  kf_mask :: u32
  kf_size :: u32
  kf_buffer :: u32

definition kfifo_init :: "u32 \<Rightarrow> u32 \<Rightarrow> u32 \<Rightarrow> kfifo option result" where
  "kfifo_init buffer sz obj =
    (if sz AND (sz - 1) \<noteq> 0 then Inl Assert_failed
     else if obj = 0 then Inr None
     else Inr (Some \<lparr>kf_in = 0, kf_out = 0, kf_mask = sz - 1, kf_size = sz, kf_buffer = buffer\<rparr>))"

definition kfifo_alloc :: "u32 \<Rightarrow> u32 \<Rightarrow> u32 \<Rightarrow> (kfifo option \<times> u32 list) result" where
  "kfifo_alloc sz buffer obj =
    (if buffer = 0 then Inr (None, [])
     else (case kfifo_init buffer sz obj of
             Inl e \<Rightarrow> Inl e
           | Inr None \<Rightarrow> Inr (None, [buffer])
           | Inr (Some f) \<Rightarrow> Inr (Some f, [])))"

definition kfifo_free :: "u32 \<Rightarrow> kfifo \<Rightarrow> kfifo \<times> u32 list" where
  "kfifo_free obj f = (f\<lparr>kf_buffer := 0\<rparr>, [kf_buffer f, obj])"

definition kfifo_put :: "kfifo \<Rightarrow> u32 \<Rightarrow> u32 \<Rightarrow> mem \<Rightarrow> u32 \<times> kfifo \<times> mem" where
  "kfifo_put f buffer len m =
    (let len = min len (kf_size f - kf_in f + kf_out f);
         pos = kf_in f AND (kf_size f - 1);
         l = min len (kf_size f - pos);
         m1 = os_memcpy (unat (kf_buffer f) + unat pos) (unat buffer) (unat l) m;
         m2 = os_memcpy (unat (kf_buffer f)) (unat buffer + unat l) (unat (len - l)) m1
     in (len, f\<lparr>kf_in := kf_in f + len\<rparr>, m2))"

definition kfifo_get :: "kfifo \<Rightarrow> u32 \<Rightarrow> u32 \<Rightarrow> mem \<Rightarrow> u32 \<times> kfifo \<times> mem" where
  "kfifo_get f buffer len m =
    (let len = min len (kf_in f - kf_out f);
         pos = kf_out f AND (kf_size f - 1);
         l = min len (kf_size f - pos);
         m1 = os_memcpy (unat buffer) (unat (kf_buffer f) + unat pos) (unat l) m;
         m2 = os_memcpy (unat buffer + unat l) (unat (kf_buffer f)) (unat (len - l)) m1
     in (len, f\<lparr>kf_out := kf_out f + len\<rparr>, m2))"

definition kfifo_data_size :: "kfifo \<Rightarrow> u32" where
  "kfifo_data_size f = kf_in f - kf_out f"

definition kfifo_unused :: "kfifo \<Rightarrow> u32" where
  "kfifo_unused f = (kf_mask f + 1) - (kf_in f - kf_out f)"

definition kfifo_copy_out :: "kfifo \<Rightarrow> u32 \<Rightarrow> u32 \<Rightarrow> u32 \<Rightarrow> mem \<Rightarrow> mem" where
  "kfifo_copy_out f dst len off m =
    (let sz = kf_mask f + 1;
         off = off AND kf_mask f;
         l = min len (sz - off);
         m1 = os_memcpy (unat dst) (unat (kf_buffer f) + unat off) (unat l) m
     in os_memcpy (unat dst + unat l) (unat (kf_buffer f)) (unat (len - l)) m1)"

definition kfifo_out_peek :: "kfifo \<Rightarrow> u32 \<Rightarrow> u32 \<Rightarrow> mem \<Rightarrow> u32 \<times> mem" where
  "kfifo_out_peek f buffer len m =
    (let l = kf_in f - kf_out f;
         len = (if len > l then l else len)
     in (len, kfifo_copy_out f buffer len (kf_out f) m))"

section \<open>Circular blocks\<close>

text \<open>\<open>cread m b N p n\<close> is the \<open>n\<close> bytes from position \<open>p\<close> of the circular buffer of \<open>N\<close> bytes at \<open>b\<close>;
  \<open>cwrite\<close> stores bytes there as the code does, in two pieces.\<close>

definition cread :: "mem \<Rightarrow> nat \<Rightarrow> nat \<Rightarrow> nat \<Rightarrow> nat \<Rightarrow> u8 list" where
  "cread m b N p n = map (\<lambda>i. m (b + (p + i) mod N)) [0..<n]"

definition cwrite :: "mem \<Rightarrow> nat \<Rightarrow> nat \<Rightarrow> nat \<Rightarrow> u8 list \<Rightarrow> mem" where
  "cwrite m b N p bs =
    (let l = min (length bs) (N - p mod N)
     in mwrite (mwrite m (b + p mod N) (take l bs)) b (drop l bs))"

lemma length_cread [simp]: "length (cread m b N p n) = n"
  by (simp add: cread_def)

lemma cread_0 [simp]: "cread m b N p 0 = []"
  by (simp add: cread_def)

lemma nth_cread [simp]: "i < n \<Longrightarrow> cread m b N p n ! i = m (b + (p + i) mod N)"
  by (simp add: cread_def)

lemma cread_add: "cread m b N p (n + k) = cread m b N p n @ cread m b N (p + n) k"
  by (rule nth_equalityI) (auto simp: nth_append add.assoc)

lemma cread_mod [simp]: "cread m b N (p mod N) n = cread m b N p n"
  by (rule nth_equalityI) (auto simp: mod_add_left_eq)

lemma cread_take: "k \<le> n \<Longrightarrow> take k (cread m b N p n) = cread m b N p k"
  by (rule nth_equalityI) auto

lemma cread_cong:
  assumes "\<And>j. j < N \<Longrightarrow> m' (b + j) = m (b + j)" and "0 < N"
  shows "cread m' b N p n = cread m b N p n"
  by (rule nth_equalityI) (use assms in auto)

lemma wrap_index:
  fixes p i N :: nat
  assumes "0 < N" and "i < N"
  shows "(p + i) mod N = (if i < N - p mod N then p mod N + i else i - (N - p mod N))"
proof -
  have red: "(q + i) mod N = (if i < N - q then q + i else i - (N - q))" if "q < N" for q
    using that assms(2) by (cases "q + i < N") (auto simp: le_mod_geq)
  have "(p + i) mod N = (p mod N + i) mod N" by (simp add: mod_add_left_eq)
  then show ?thesis using red [of "p mod N"] assms(1) by simp
qed

lemma cread_pieces:
  assumes "0 < N" and "n \<le> N"
  shows "cread m b N p n
    = mread m (b + p mod N) (min n (N - p mod N)) @ mread m b (n - min n (N - p mod N))"
  by (rule nth_equalityI) (use assms in \<open>auto simp: nth_append wrap_index add.assoc\<close>)

lemma cwrite_at:
  assumes "0 < N" and "length bs \<le> N" and "t < length bs"
  shows "cwrite m b N p bs (b + (p + t) mod N) = bs ! t"
proof -
  have "p mod N < N" using assms(1) by simp
  then show ?thesis using assms wrap_index [of N t p]
    by (auto simp: cwrite_def Let_def mwrite_def)
qed

lemma cwrite_other:
  assumes "0 < N" and "length bs \<le> N" and "x < b \<or> b + N \<le> x
    \<or> (\<forall>t<length bs. x \<noteq> b + (p + t) mod N)"
  shows "cwrite m b N p bs x = m x"
proof (cases "b \<le> x \<and> x < b + N")
  case True
  then have free: "\<And>t. t < length bs \<Longrightarrow> x \<noteq> b + (p + t) mod N" using assms(3) by auto
  have q: "p mod N < N" using assms(1) by simp
  have 1: "\<not> (b + p mod N \<le> x \<and> x < b + p mod N + min (length bs) (N - p mod N))"
  proof
    assume a: "b + p mod N \<le> x \<and> x < b + p mod N + min (length bs) (N - p mod N)"
    define t where "t = x - b - p mod N"
    have t: "t < length bs" "t < N - p mod N" "x = b + (p mod N + t)" using a by (auto simp: t_def)
    then have "x = b + (p + t) mod N" using assms(1) by (subst wrap_index) auto
    then show False using free t(1) by blast
  qed
  have 2: "\<not> (x < b + (length bs - min (length bs) (N - p mod N)))"
  proof
    assume a: "x < b + (length bs - min (length bs) (N - p mod N))"
    define t where "t = x - b + (N - p mod N)"
    have t: "t < length bs" "x = b + (t - (N - p mod N))" "\<not> t < N - p mod N"
      using a True by (auto simp: t_def)
    then have "x = b + (p + t) mod N" using assms(1,2) by (subst wrap_index) auto
    then show False using free t(1) by blast
  qed
  show ?thesis using 1 2 by (auto simp: cwrite_def Let_def mwrite_def)
next
  case False
  moreover have "p mod N < N" using assms(1) by simp
  ultimately show ?thesis using assms(2) by (auto simp: cwrite_def Let_def mwrite_def)
qed

lemma cread_cwrite_same:
  assumes "0 < N" and "length bs \<le> N"
  shows "cread (cwrite m b N p bs) b N p (length bs) = bs"
  by (rule nth_equalityI) (use assms in \<open>auto simp: cwrite_at\<close>)

lemma wrap_apart:
  fixes p d t i N :: nat
  assumes "i < d" and "d + t < N"
  shows "(p + i) mod N \<noteq> (p + d + t) mod N"
proof
  assume "(p + i) mod N = (p + d + t) mod N"
  then have "N dvd (p + d + t) - (p + i)" by (metis mod_eq_dvd_iff_nat assms(1) add.assoc add_le_mono1
    le_add1 less_imp_le_nat nat_add_left_cancel_le order_trans)
  then have "N dvd d + t - i" using assms by simp
  then show False using assms by (auto dest: dvd_imp_le)
qed

lemma cread_cwrite_before:
  assumes "0 < N" and "d + length bs \<le> N"
  shows "cread (cwrite m b N (p + d) bs) b N p d = cread m b N p d"
proof (rule nth_equalityI)
  fix i assume "i < length (cread (cwrite m b N (p + d) bs) b N p d)"
  then have i: "i < d" by simp
  have "cwrite m b N (p + d) bs (b + (p + i) mod N) = m (b + (p + i) mod N)"
  proof (rule cwrite_other)
    show "b + (p + i) mod N < b \<or> b + N \<le> b + (p + i) mod N
      \<or> (\<forall>t<length bs. b + (p + i) mod N \<noteq> b + (p + d + t) mod N)"
      using wrap_apart [OF i] assms(2) by auto
  qed (use assms in auto)
  then show "cread (cwrite m b N (p + d) bs) b N p d ! i = cread m b N p d ! i" using i by simp
qed simp

section \<open>Abstraction and invariant\<close>

definition kf_N :: "kfifo \<Rightarrow> nat" where
  "kf_N f = unat (kf_size f)"

definition kf_fill :: "kfifo \<Rightarrow> nat" where
  "kf_fill f = unat (kf_in f - kf_out f)"

text \<open>A queue is well formed when its size is a power of two, its mask one less, and the counters are
  at most the size apart.\<close>

definition kf_inv :: "kfifo \<Rightarrow> bool" where
  "kf_inv f \<longleftrightarrow> kf_size f \<noteq> 0 \<and> kf_size f AND (kf_size f - 1) = 0
    \<and> kf_mask f = kf_size f - 1 \<and> kf_in f - kf_out f \<le> kf_size f"

definition kf_contents :: "kfifo \<Rightarrow> mem \<Rightarrow> u8 list" where
  "kf_contents f m = cread m (unat (kf_buffer f)) (kf_N f) (unat (kf_out f)) (kf_fill f)"

definition kf_apart :: "kfifo \<Rightarrow> nat \<Rightarrow> nat \<Rightarrow> bool" where
  "kf_apart f a n \<longleftrightarrow> disjoint_blocks a n (unat (kf_buffer f)) (kf_N f)"


text \<open>The test of \<open>BUG_ON\<close> in \<open>kfifo_init\<close>: a word that shares no bit with its predecessor is a power of
  two.\<close>

lemma power_of_two_test:
  fixes x :: u32
  assumes "x \<noteq> 0" and "x AND (x - 1) = 0"
  shows "\<exists>k<32. x = 2 ^ k"
proof -
  have "\<exists>n. bit x n" using assms(1) by (metis bit_word_eqI bit_0_eq bot_apply bot_bool_def)
  then obtain k where k: "bit x k" "\<And>n. n < k \<Longrightarrow> \<not> bit x n" by (metis exists_least_iff)
  have k32: "k < 32" using k(1) bit_imp_le_length by fastforce
  define y where "y = x AND NOT (push_bit k 1)"
  have x: "x = y OR push_bit k 1"
    by (rule bit_word_eqI) (use k(1) in \<open>auto simp: y_def bit_simps\<close>)
  have low: "y AND mask k = 0" "y AND push_bit k 1 = 0"
    by (rule bit_word_eqI; use k(2) in \<open>auto simp: y_def bit_simps\<close>)+
  have sum: "x = y + push_bit k 1" using x low(2) by (simp add: disjunctive_add_eq_or)
  then have "x - 1 = y + mask k" by (simp add: mask_eq_decr_exp push_bit_of_1)
  then have "x - 1 = y OR mask k" using low(1) by (simp add: disjunctive_add_eq_or)
  then have "x AND (x - 1) = y"
    by (subst x) (intro bit_word_eqI, auto simp: bit_simps y_def)
  then have "y = 0" using assms(2) by simp
  then have "x = 2 ^ k" using sum by (simp add: push_bit_of_1)
  with k32 show ?thesis by blast
qed

lemma kf_inv_size:
  assumes "kf_inv f"
  obtains k where "k < 32" and "kf_size f = 2 ^ k" and "kf_N f = 2 ^ k" and "kf_size f - 1 = mask k"
proof -
  obtain k where k: "k < 32" "kf_size f = 2 ^ k"
    using assms power_of_two_test by (auto simp: kf_inv_def)
  moreover have "(2 :: nat) ^ k < 2 ^ 32" using k(1) by (intro power_strict_increasing) simp_all
  then have "unat (of_nat (2 ^ k) :: u32) = 2 ^ k" by (intro unat_of_nat_u32) simp
  then have "kf_N f = 2 ^ k" using k by (simp add: kf_N_def)
  moreover have "kf_size f - 1 = mask k" using k by (simp add: mask_eq_decr_exp)
  ultimately show ?thesis using that by blast
qed

lemma kf_pos:
  fixes x :: u32
  assumes "kf_inv f"
  shows "unat (x AND (kf_size f - 1)) = unat x mod kf_N f"
proof -
  obtain k where k: "k < 32" "kf_N f = 2 ^ k" "kf_size f - 1 = mask k"
    using assms by (rule kf_inv_size)
  then show ?thesis using unat_and_mask [of x k] by simp
qed

lemma kf_N_pos: "kf_inv f \<Longrightarrow> 0 < kf_N f"
  by (rule kf_inv_size) auto

lemma kf_N_u32: "kf_N f < 4294967296"
  unfolding kf_N_def by (rule unat_u32_lt)

lemma kf_fill_le: "kf_inv f \<Longrightarrow> kf_fill f \<le> kf_N f"
  by (simp add: kf_inv_def kf_fill_def kf_N_def word_le_nat_alt)

text \<open>Counters are positions modulo \<open>2 ^ 32\<close>, and the size divides that.\<close>

lemma kf_wrap:
  fixes x y :: u32
  assumes "kf_inv f"
  shows "unat (x + y) mod kf_N f = (unat x + unat y) mod kf_N f"
proof -
  obtain k where k: "k < 32" "kf_N f = 2 ^ k" using assms by (rule kf_inv_size)
  have "unat (x + y) = (unat x + unat y) mod 2 ^ 32" by (simp add: unat_word_ariths)
  moreover have "(2 :: nat) ^ k dvd 2 ^ 32" using k by (intro le_imp_power_dvd) simp
  ultimately show ?thesis using k by (simp add: mod_mod_cancel)
qed

lemma kf_in_pos:
  assumes "kf_inv f"
  shows "unat (kf_in f) mod kf_N f = (unat (kf_out f) + kf_fill f) mod kf_N f"
  using kf_wrap [OF assms, of "kf_out f" "kf_in f - kf_out f"] by (simp add: kf_fill_def)

lemma kf_room:
  assumes "kf_inv f"
  shows "unat (kf_size f - kf_in f + kf_out f) = kf_N f - kf_fill f"
proof -
  have "kf_size f - kf_in f + kf_out f = kf_size f - (kf_in f - kf_out f)" by simp
  moreover have "kf_in f - kf_out f \<le> kf_size f" using assms by (simp add: kf_inv_def)
  ultimately show ?thesis unfolding kf_N_def kf_fill_def by (simp only: unat_diff)
qed

lemma unat_min_u32 [simp]: "unat (min x y) = min (unat x) (unat y)" for x y :: u32
  by (simp add: min_def word_le_nat_alt)

lemma kf_tail:
  assumes "kf_inv f"
  shows "unat (kf_size f - (x AND (kf_size f - 1))) = kf_N f - unat x mod kf_N f"
proof -
  have "unat (x AND (kf_size f - 1)) < kf_N f" using kf_pos kf_N_pos assms by simp
  then have "(x AND (kf_size f - 1)) \<le> kf_size f" by (simp add: word_le_nat_alt kf_N_def)
  then show ?thesis using kf_pos [OF assms, of x] by (simp add: kf_N_def)
qed


section \<open>Behaviour of the operations\<close>

lemma kfifo_put_mem:
  assumes inv: "kf_inv f" and n: "n = min (unat len) (kf_N f - kf_fill f)"
    and sep: "kf_apart f (unat buffer) n"
  shows "kfifo_put f buffer len m = (of_nat n, f\<lparr>kf_in := kf_in f + of_nat n\<rparr>,
    cwrite m (unat (kf_buffer f)) (kf_N f) (unat (kf_in f)) (mread m (unat buffer) n))"
proof -
  define len' where "len' = min len (kf_size f - kf_in f + kf_out f)"
  define pos where "pos = kf_in f AND (kf_size f - 1)"
  define l where "l = min len' (kf_size f - pos)"
  let ?b = "unat (kf_buffer f)" and ?p = "unat (kf_in f) mod kf_N f"
  have len': "unat len' = n" "len' = of_nat n"
    using kf_room [OF inv] n of_nat_unat_u32 [of len'] by (simp_all add: len'_def)
  have pos: "unat pos = ?p" unfolding pos_def by (rule kf_pos [OF inv])
  have l: "unat l = min n (kf_N f - ?p)"
    using len' kf_tail [OF inv, of "kf_in f"] by (simp add: l_def pos_def)
  have "l \<le> len'" unfolding l_def by (rule min.cobounded1)
  then have rest: "unat (len' - l) = n - unat l" using len' by (simp only: unat_diff)
  have q: "?p < kf_N f" using kf_N_pos [OF inv] by simp
  have rd: "mread (mwrite m (?b + ?p) (mread m (unat buffer) (unat l)))
      (unat buffer + unat l) (n - unat l) = mread m (unat buffer + unat l) (n - unat l)"
    using sep l q by (intro mread_mwrite_disjoint) (auto simp: kf_apart_def disjoint_blocks_def)
  have "take (unat l) (mread m (unat buffer) n) = mread m (unat buffer) (unat l)"
    "drop (unat l) (mread m (unat buffer) n) = mread m (unat buffer + unat l) (n - unat l)"
    using l by (simp_all add: take_mread drop_mread)
  then have "os_memcpy ?b (unat buffer + unat l) (n - unat l)
      (os_memcpy (?b + ?p) (unat buffer) (unat l) m)
    = cwrite m ?b (kf_N f) (unat (kf_in f)) (mread m (unat buffer) n)"
    unfolding os_memcpy_def cwrite_def Let_def length_mread rd l [symmetric] by simp
  then show ?thesis
    unfolding kfifo_put_def Let_def len'_def [symmetric] pos_def [symmetric] l_def [symmetric] rest pos
    by (simp add: len'(2))
qed

lemma kf_fill_put:
  assumes "kf_inv f" and "n \<le> kf_N f - kf_fill f"
  shows "kf_fill (f\<lparr>kf_in := kf_in f + of_nat n\<rparr>) = kf_fill f + n"
    and "kf_inv (f\<lparr>kf_in := kf_in f + of_nat n\<rparr>)"
proof -
  have n: "unat (of_nat n :: u32) = n"
    using assms(2) kf_N_u32 [of f] by (simp add: unat_of_nat_u32)
  have "kf_fill f \<le> kf_N f" using assms(1) by (rule kf_fill_le)
  then have sum: "kf_fill f + n \<le> kf_N f" using assms(2) by simp
  have "kf_in f + of_nat n - kf_out f = (kf_in f - kf_out f) + of_nat n" by simp
  moreover have "unat ((kf_in f - kf_out f) + of_nat n) = kf_fill f + n"
    using sum n kf_N_u32 [of f] by (simp add: unat_add_fit kf_fill_def)
  moreover have "kf_fill (f\<lparr>kf_in := kf_in f + of_nat n\<rparr>) = unat (kf_in f + of_nat n - kf_out f)"
    by (simp add: kf_fill_def)
  ultimately show fill: "kf_fill (f\<lparr>kf_in := kf_in f + of_nat n\<rparr>) = kf_fill f + n"
    by metis
  show "kf_inv (f\<lparr>kf_in := kf_in f + of_nat n\<rparr>)"
    using assms(1) fill sum by (simp add: kf_inv_def kf_fill_def kf_N_def word_le_nat_alt)
qed

lemma kf_fill_get:
  assumes "kf_inv f" and "n \<le> kf_fill f"
  shows "kf_fill (f\<lparr>kf_out := kf_out f + of_nat n\<rparr>) = kf_fill f - n"
    and "kf_inv (f\<lparr>kf_out := kf_out f + of_nat n\<rparr>)"
proof -
  have n: "unat (of_nat n :: u32) = n"
    using assms kf_N_u32 [of f] kf_fill_le [of f] by (simp add: unat_of_nat_u32)
  have "kf_in f - (kf_out f + of_nat n) = (kf_in f - kf_out f) - of_nat n" by simp
  moreover have "unat ((kf_in f - kf_out f) - of_nat n) = kf_fill f - n"
    using assms(2) n by (simp add: word_le_nat_alt kf_fill_def)
  moreover have "kf_fill (f\<lparr>kf_out := kf_out f + of_nat n\<rparr>) = unat (kf_in f - (kf_out f + of_nat n))"
    by (simp add: kf_fill_def)
  ultimately show fill: "kf_fill (f\<lparr>kf_out := kf_out f + of_nat n\<rparr>) = kf_fill f - n"
    by metis
  show "kf_inv (f\<lparr>kf_out := kf_out f + of_nat n\<rparr>)"
    using assms(1) fill kf_fill_le [OF assms(1)]
    by (auto simp: kf_inv_def kf_fill_def kf_N_def word_le_nat_alt)
qed

lemma kf_upd_simps [simp]:
  "kf_N (f\<lparr>kf_in := x\<rparr>) = kf_N f" "kf_N (f\<lparr>kf_out := x\<rparr>) = kf_N f"
  by (simp_all add: kf_N_def)

lemma kf_contents_apart:
  assumes "kf_inv f" and "kf_apart f a (length bs)"
  shows "kf_contents f (mwrite m a bs) = kf_contents f m"
  unfolding kf_contents_def using assms
  by (intro cread_cong) (auto simp: kf_N_pos kf_apart_def disjoint_blocks_def mwrite_def)

lemma cread_at_mod:
  "p mod N = q mod N \<Longrightarrow> cread m b N p n = cread m b N q n"
  by (metis cread_mod)

lemma cwrite_at_mod:
  "p mod N = q mod N \<Longrightarrow> cwrite m b N p bs = cwrite m b N q bs"
  by (simp add: cwrite_def)

lemma kfifo_put_spec:
  assumes inv: "kf_inv f" and n: "n = min (unat len) (kf_N f - kf_fill f)"
    and sep: "kf_apart f (unat buffer) n" and res: "kfifo_put f buffer len m = (ret, f', m')"
  shows "unat ret = n" and "kf_inv f'" and "kf_out f' = kf_out f"
    and "kf_size f' = kf_size f" and "kf_buffer f' = kf_buffer f"
    and "kf_contents f' m' = kf_contents f m @ mread m (unat buffer) n"
    and "x < unat (kf_buffer f) \<or> unat (kf_buffer f) + kf_N f \<le> x \<Longrightarrow> m' x = m x"
proof -
  let ?b = "unat (kf_buffer f)" and ?N = "kf_N f" and ?bs = "mread m (unat buffer) n"
  note eq = kfifo_put_mem [OF inv n sep, of m]
  have f': "ret = of_nat n" "f' = f\<lparr>kf_in := kf_in f + of_nat n\<rparr>"
    "m' = cwrite m ?b ?N (unat (kf_in f)) ?bs" using res unfolding eq by auto
  have le: "n \<le> ?N - kf_fill f" using n by simp
  note fill = kf_fill_put [OF inv le]
  have N: "0 < ?N" "kf_fill f + length ?bs \<le> ?N" using kf_N_pos [OF inv] kf_fill_le [OF inv] le by simp_all
  show "unat ret = n" using f' le kf_N_u32 [of f] by (simp add: unat_of_nat_u32)
  show "kf_inv f'" "kf_out f' = kf_out f" "kf_size f' = kf_size f" "kf_buffer f' = kf_buffer f"
    using f' fill by simp_all
  have m': "m' = cwrite m ?b ?N (unat (kf_out f) + kf_fill f) ?bs"
    unfolding f' by (rule cwrite_at_mod) (rule kf_in_pos [OF inv])
  have "kf_contents f' m' = cread m' ?b ?N (unat (kf_out f)) (kf_fill f + length ?bs)"
    using fill f' by (simp add: kf_contents_def)
  also have "\<dots> = cread m' ?b ?N (unat (kf_out f)) (kf_fill f)
      @ cread m' ?b ?N (unat (kf_out f) + kf_fill f) (length ?bs)"
    by (rule cread_add)
  also have "\<dots> = kf_contents f m @ ?bs"
    unfolding m' kf_contents_def using N by (simp only: cread_cwrite_before cread_cwrite_same add_leD2)
  finally show "kf_contents f' m' = kf_contents f m @ ?bs" .
  show "m' x = m x" if "x < ?b \<or> ?b + ?N \<le> x"
    unfolding m' using N that by (intro cwrite_other) auto
qed

text \<open>A copy out of the queue, as \<open>kfifo_get\<close> and \<open>kfifo_copy_out\<close> do it.\<close>

lemma kf_copy_out:
  assumes inv: "kf_inv f" and n: "unat len = n" "n \<le> kf_N f"
    and l: "l = min len (kf_size f - (p AND (kf_size f - 1)))"
    and sep: "kf_apart f (unat dst) n"
  shows "os_memcpy (unat dst + unat l) (unat (kf_buffer f)) (unat (len - l))
      (os_memcpy (unat dst) (unat (kf_buffer f) + unat (p AND (kf_size f - 1))) (unat l) m)
    = mwrite m (unat dst) (cread m (unat (kf_buffer f)) (kf_N f) (unat p) n)"
proof -
  have q: "unat p mod kf_N f < kf_N f" using kf_N_pos [OF inv] by simp
  have l': "unat l = min n (kf_N f - unat p mod kf_N f)"
    unfolding l using n kf_tail [OF inv, of p] by simp
  have "l \<le> len" by (simp add: l)
  then have rest: "unat (len - l) = n - unat l" using n by simp
  have "disjoint_blocks (unat dst) (unat l) (unat (kf_buffer f)) (n - unat l)"
    using sep l' n q by (auto simp: kf_apart_def disjoint_blocks_def)
  then show ?thesis
    using rest l' kf_pos [OF inv, of p] cread_pieces [of "kf_N f" n] kf_N_pos [OF inv] n(2)
    by (simp add: os_memcpy_twice)
qed

lemma kfifo_get_spec:
  assumes inv: "kf_inv f" and n: "n = min (unat len) (kf_fill f)"
    and sep: "kf_apart f (unat buffer) n" and res: "kfifo_get f buffer len m = (ret, f', m')"
  shows "unat ret = n" and "kf_inv f'" and "kf_in f' = kf_in f"
    and "kf_size f' = kf_size f" and "kf_buffer f' = kf_buffer f"
    and "m' = mwrite m (unat buffer) (take n (kf_contents f m))"
    and "kf_contents f m = take n (kf_contents f m) @ kf_contents f' m'"
proof -
  define len' where "len' = min len (kf_in f - kf_out f)"
  have len: "unat len' = n" using n by (simp add: kf_fill_def len'_def)
  have w: "len' = of_nat n" using of_nat_unat_u32 [of len'] len by simp
  have le: "n \<le> kf_fill f" "n \<le> kf_N f" using n kf_fill_le [OF inv] by simp_all
  note cp = kf_copy_out [OF inv len le(2) refl sep, of "kf_out f" m]
  have take: "take n (kf_contents f m) = cread m (unat (kf_buffer f)) (kf_N f) (unat (kf_out f)) n"
    unfolding kf_contents_def using le by (simp add: cread_take)
  have "kfifo_get f buffer len m = (len', f\<lparr>kf_out := kf_out f + len'\<rparr>,
      mwrite m (unat buffer) (take n (kf_contents f m)))"
    unfolding kfifo_get_def Let_def len'_def [symmetric] cp take ..
  then have f': "ret = len'" "f' = f\<lparr>kf_out := kf_out f + of_nat n\<rparr>"
    "m' = mwrite m (unat buffer) (take n (kf_contents f m))"
    using res w by auto
  note fill = kf_fill_get [OF inv le(1)]
  show "unat ret = n" using f' len by simp
  show "kf_inv f'" "kf_in f' = kf_in f" "kf_size f' = kf_size f" "kf_buffer f' = kf_buffer f"
    "m' = mwrite m (unat buffer) (take n (kf_contents f m))"
    using f' fill by simp_all
  have "kf_apart f' (unat buffer) (length (take n (kf_contents f m)))"
    using sep le f' by (simp add: kf_apart_def kf_contents_def)
  then have c: "kf_contents f' m' = kf_contents f' m"
    unfolding f'(3) using fill(2) f'(2) by (intro kf_contents_apart) simp_all
  have "unat (kf_out f + of_nat n) mod kf_N f = (unat (kf_out f) + n) mod kf_N f"
    using kf_wrap [OF inv, of "kf_out f" "of_nat n"] len w by simp
  then have "kf_contents f' m
      = cread m (unat (kf_buffer f)) (kf_N f) (unat (kf_out f) + n) (kf_fill f - n)"
    using fill(1) f'(2) cread_at_mod [of "unat (kf_out f + of_nat n)" "kf_N f" "unat (kf_out f) + n"]
    by (simp add: kf_contents_def)
  then show "kf_contents f m = take n (kf_contents f m) @ kf_contents f' m'"
    unfolding c take using cread_add [of m _ "kf_N f" "unat (kf_out f)" n "kf_fill f - n"] le(1)
    by (simp add: kf_contents_def)
qed


lemma kfifo_peek_spec:
  assumes inv: "kf_inv f" and n: "n = min (unat len) (kf_fill f)"
    and sep: "kf_apart f (unat buffer) n"
  shows "kfifo_out_peek f buffer len m
    = (of_nat n, mwrite m (unat buffer) (take n (kf_contents f m)))"
proof -
  define len' where "len' = (if len > kf_in f - kf_out f then kf_in f - kf_out f else len)"
  have len: "unat len' = n" using n by (simp add: kf_fill_def len'_def word_less_nat_alt min_def)
  have w: "len' = of_nat n" using of_nat_unat_u32 [of len'] len by simp
  have le: "n \<le> kf_fill f" "n \<le> kf_N f" using n kf_fill_le [OF inv] by simp_all
  have mask: "kf_mask f + 1 = kf_size f" "kf_mask f = kf_size f - 1" using inv by (simp_all add: kf_inv_def)
  have "take n (kf_contents f m) = cread m (unat (kf_buffer f)) (kf_N f) (unat (kf_out f)) n"
    unfolding kf_contents_def using le by (simp add: cread_take)
  then have "kfifo_copy_out f buffer len' (kf_out f) m
      = mwrite m (unat buffer) (take n (kf_contents f m))"
    unfolding kfifo_copy_out_def Let_def mask(1) unfolding mask(2)
    using kf_copy_out [OF inv len le(2) refl sep, of "kf_out f" m] by simp
  then show ?thesis unfolding kfifo_out_peek_def Let_def len'_def [symmetric] w by simp
qed

lemma kfifo_init_inv:
  assumes "kfifo_init buffer sz obj = Inr (Some f)" and "sz \<noteq> 0"
  shows "kf_inv f" and "kf_contents f m = []"
  using assms by (auto simp: kfifo_init_def kf_inv_def kf_contents_def kf_fill_def split: if_splits)

section \<open>Runs\<close>

datatype kf_op = Kf_store u32 "u8 list" | Kf_put u32 u32 | Kf_get u32 u32 | Kf_peek u32 u32

fun kf_exec :: "kf_op \<Rightarrow> kfifo \<times> mem \<Rightarrow> kfifo \<times> mem" where
  "kf_exec (Kf_store a bs) (f, m) = (f, mwrite m (unat a) bs)"
| "kf_exec (Kf_put a len) (f, m) = snd (kfifo_put f a len m)"
| "kf_exec (Kf_get a len) (f, m) = snd (kfifo_get f a len m)"
| "kf_exec (Kf_peek a len) (f, m) = (f, snd (kfifo_out_peek f a len m))"

fun kf_ok :: "kf_op \<Rightarrow> kfifo \<times> mem \<Rightarrow> bool" where
  "kf_ok (Kf_store a bs) (f, m) = kf_apart f (unat a) (length bs)"
| "kf_ok (Kf_put a len) (f, m) = kf_apart f (unat a) (unat len)"
| "kf_ok (Kf_get a len) (f, m) = kf_apart f (unat a) (unat len)"
| "kf_ok (Kf_peek a len) (f, m) = kf_apart f (unat a) (unat len)"

text \<open>What is handed in: as many bytes of the caller's buffer as the call reports; what is handed out:
  the caller's buffer after the call, as far as the call reports.\<close>

fun kf_sent :: "kf_op \<Rightarrow> kfifo \<times> mem \<Rightarrow> u8 list" where
  "kf_sent (Kf_put a len) (f, m) = mread m (unat a) (unat (fst (kfifo_put f a len m)))"
| "kf_sent _ _ = []"

fun kf_got :: "kf_op \<Rightarrow> kfifo \<times> mem \<Rightarrow> u8 list" where
  "kf_got (Kf_get a len) (f, m) =
    (case kfifo_get f a len m of (ret, f', m') \<Rightarrow> mread m' (unat a) (unat ret))"
| "kf_got _ _ = []"

lemma kf_apart_le: "\<lbrakk>kf_apart f a n; k \<le> n\<rbrakk> \<Longrightarrow> kf_apart f a k"
  by (auto simp: kf_apart_def disjoint_blocks_def)

lemma length_kf_contents [simp]: "length (kf_contents f m) = kf_fill f"
  by (simp add: kf_contents_def)

interpretation kff: byte_fifo "\<lambda>s. kf_inv (fst s)" kf_ok kf_exec
    "\<lambda>s. kf_contents (fst s) (snd s)" kf_sent kf_got
proof unfold_locales
  fix x and s :: "kfifo \<times> mem"
  assume inv: "kf_inv (fst s)" and ok: "kf_ok x s"
  obtain f m where s: "s = (f, m)" by (cases s)
  have inv: "kf_inv f" using inv s by simp
  show "kf_inv (fst (kf_exec x s))"
    and "kf_contents (fst s) (snd s) @ kf_sent x s
      = kf_got x s @ kf_contents (fst (kf_exec x s)) (snd (kf_exec x s))"
  proof (atomize (full), cases x)
    case (Kf_put a len)
    obtain ret f' m' where res: "kfifo_put f a len m = (ret, f', m')" by (metis prod_cases3)
    have "kf_apart f (unat a) (min (unat len) (kf_N f - kf_fill f))"
      using ok Kf_put s by (auto intro: kf_apart_le)
    from kfifo_put_spec [OF inv refl this res] show "kf_inv (fst (kf_exec x s))
      \<and> kf_contents (fst s) (snd s) @ kf_sent x s
      = kf_got x s @ kf_contents (fst (kf_exec x s)) (snd (kf_exec x s))"
      using s Kf_put res by simp
  next
    case (Kf_get a len)
    obtain ret f' m' where res: "kfifo_get f a len m = (ret, f', m')" by (metis prod_cases3)
    have "kf_apart f (unat a) (min (unat len) (kf_fill f))"
      using ok Kf_get s by (auto intro: kf_apart_le)
    note g = kfifo_get_spec [OF inv refl this res]
    have "mread m' (unat a) (unat ret) = take (min (unat len) (kf_fill f)) (kf_contents f m)"
      unfolding g(1,6) by (rule mread_mwrite_same) simp
    then show "kf_inv (fst (kf_exec x s)) \<and> kf_contents (fst s) (snd s) @ kf_sent x s
      = kf_got x s @ kf_contents (fst (kf_exec x s)) (snd (kf_exec x s))"
      using g(2,7) s Kf_get res by simp
  next
    case (Kf_peek a len)
    have "kf_apart f (unat a) (min (unat len) (kf_fill f))"
      using ok Kf_peek s by (auto intro: kf_apart_le)
    moreover from kfifo_peek_spec [OF inv refl this, of m]
    have "snd (kfifo_out_peek f a len m)
      = mwrite m (unat a) (take (min (unat len) (kf_fill f)) (kf_contents f m))" by simp
    ultimately show "kf_inv (fst (kf_exec x s)) \<and> kf_contents (fst s) (snd s) @ kf_sent x s
      = kf_got x s @ kf_contents (fst (kf_exec x s)) (snd (kf_exec x s))"
      using inv s Kf_peek by (simp add: kf_contents_apart)
  qed (use inv ok s in \<open>auto simp: kf_contents_apart\<close>)
qed

section \<open>Properties\<close>

text \<open>C17: Over every run of client stores, puts, gets and peeks the bytes held at the start followed by
  the bytes taken in are the bytes delivered followed by the bytes held at the end, and the queue
  stays well formed, whatever values the counters have and however often they wrap.\<close>

theorem kfifo_run_is_fifo:
  assumes "kf_inv f" and "run_ok kf_ok kf_exec xs (f, m)" and "run_ops kf_exec xs (f, m) = (f', m')"
  shows "kf_contents f m @ run_out kf_sent kf_exec xs (f, m)
      = run_out kf_got kf_exec xs (f, m) @ kf_contents f' m' \<and> kf_inv f'"
  using kff.run_balance [of "(f, m)" xs] kff.run_inv [of "(f, m)" xs] assms by simp

definition kf_ex :: kfifo where
  "kf_ex = \<lparr>kf_in = 0xFFFFFFFF, kf_out = 0xFFFFFFFD, kf_mask = 7, kf_size = 8, kf_buffer = 100\<rparr>"

definition kf_ex_mem :: mem where
  "kf_ex_mem = (\<lambda>x. of_nat x)"

lemmas kf_eval = kf_ex_def kf_ex_mem_def kfifo_put_def kfifo_get_def kf_contents_def kf_fill_def kf_N_def
  cread_def mread_def mwrite_def os_memcpy_def Let_def upt_rec_numeral kf_apart_def disjoint_blocks_def
  kf_inv_def nth_Cons'

theorem kfifo_run_is_fifo_witness:
  "case run_ops kf_exec [Kf_put 40 4, Kf_get 60 3] (kf_ex, kf_ex_mem) of
    (f', m') \<Rightarrow> [105, 106] @ [40, 41, 42, 43] = [105, 106, 40] @ kf_contents f' m' \<and> kf_inv f'"
proof -
  let ?xs = "[Kf_put 40 4, Kf_get 60 3]"
  obtain f' m' where res: "run_ops kf_exec ?xs (kf_ex, kf_ex_mem) = (f', m')" by force
  have inv: "kf_inv kf_ex" and c: "kf_contents kf_ex kf_ex_mem = [105, 106]"
    by (simp_all add: kf_eval upt_conv_Cons)
  have ok: "run_ok kf_ok kf_exec ?xs (kf_ex, kf_ex_mem)" 
    by (simp add: kf_eval)
  have sent: "run_out kf_sent kf_exec ?xs (kf_ex, kf_ex_mem) = [40, 41, 42, 43]"
    by (simp add: kf_eval upt_conv_Cons)
  have got: "run_out kf_got kf_exec ?xs (kf_ex, kf_ex_mem) = [105, 106, 40]"
    by (simp add: kf_eval upt_conv_Cons)
  show ?thesis using kfifo_run_is_fifo [OF inv ok res] c sent got unfolding res by simp
qed

lemma kf_sizes:
  assumes "kf_inv f"
  shows "unat (kfifo_unused f) = kf_N f - kf_fill f" and "unat (kfifo_data_size f) = kf_fill f"
  using assms by (simp_all add: kfifo_unused_def kfifo_data_size_def kf_inv_def kf_N_def kf_fill_def)

lemma kfifo_put_exact:
  assumes "kf_inv f" and "kf_apart f (unat a) (unat len)" and "kfifo_put f a len m = (ret, f', m')"
  shows "ret = min len (kfifo_unused f) \<and> kf_contents f' m' = kf_contents f m @ mread m (unat a) (unat ret)
    \<and> (\<forall>x. x < unat (kf_buffer f) \<or> unat (kf_buffer f) + unat (kf_size f) \<le> x \<longrightarrow> m' x = m x)"
proof -
  have "kf_apart f (unat a) (min (unat len) (kf_N f - kf_fill f))"
    using assms(2) by (auto intro: kf_apart_le)
  note p = kfifo_put_spec [OF assms(1) refl this assms(3)]
  have "unat ret = unat (min len (kfifo_unused f))" using p(1) kf_sizes [OF assms(1)] by simp
  then have "ret = min len (kfifo_unused f)" by (simp only: unat_eq_iff_u32)
  then show ?thesis using p(1,6,7) by (auto simp: kf_N_def)
qed

lemma kfifo_get_exact:
  assumes "kf_inv f" and "kf_apart f (unat a) (unat len)" and "kfifo_get f a len m = (ret, f', m')"
  shows "ret = min len (kfifo_data_size f) \<and> kf_contents f' m' = drop (unat ret) (kf_contents f m)
    \<and> m' = mwrite m (unat a) (take (unat ret) (kf_contents f m))
    \<and> kfifo_out_peek f a len m = (ret, m')"
proof -
  let ?n = "min (unat len) (kf_fill f)"
  have ap: "kf_apart f (unat a) ?n" using assms(2) by (auto intro: kf_apart_le)
  note g = kfifo_get_spec [OF assms(1) refl ap assms(3)]
  have "unat ret = unat (min len (kfifo_data_size f))" using g(1) kf_sizes [OF assms(1)] by simp
  then have ret: "ret = min len (kfifo_data_size f)" by (simp only: unat_eq_iff_u32)
  have "ret = of_nat ?n" using of_nat_unat_u32 [of ret] g(1) by simp
  then have "kfifo_out_peek f a len m = (ret, m')"
    using kfifo_peek_spec [OF assms(1) refl ap, of m] g(6) by simp
  moreover have "kf_contents f' m' = drop ?n (kf_contents f m)"
    by (subst g(7)) simp
  ultimately show ?thesis using ret g(1,6) by simp
qed

text \<open>A put takes in as many bytes as there is room for (\<open>kfifo_unused\<close>), a get delivers as many as
  are held (\<open>kfifo_data_size\<close>) and a peek copies the same bytes as a get would without removing
  them; a put writes inside the buffer only, a get and a peek only the bytes they report.\<close>

theorem kfifo_operations_exact:
  assumes "kf_inv f" and "kf_apart f (unat a) (unat len)"
  shows "(case kfifo_put f a len m of (ret, f', m') \<Rightarrow>
      ret = min len (kfifo_unused f)
      \<and> kf_contents f' m' = kf_contents f m @ mread m (unat a) (unat ret)
      \<and> (\<forall>x. x < unat (kf_buffer f) \<or> unat (kf_buffer f) + unat (kf_size f) \<le> x \<longrightarrow> m' x = m x))
    \<and> (case kfifo_get f a len m of (ret, f', m') \<Rightarrow>
      ret = min len (kfifo_data_size f)
      \<and> kf_contents f' m' = drop (unat ret) (kf_contents f m)
      \<and> m' = mwrite m (unat a) (take (unat ret) (kf_contents f m))
      \<and> kfifo_out_peek f a len m = (ret, m'))"
  using kfifo_put_exact [OF assms] kfifo_get_exact [OF assms] by (auto split: prod.splits)

theorem kfifo_operations_exact_witness:
  "fst (kfifo_put kf_ex 40 9 kf_ex_mem) = 6 \<and> fst (kfifo_get kf_ex 40 9 kf_ex_mem) = 2
    \<and> fst (kfifo_out_peek kf_ex 40 9 kf_ex_mem) = 2"
proof -
  have "kf_inv kf_ex" "kf_apart kf_ex (unat (40 :: u32)) (unat (9 :: u32))"
    "min 9 (kfifo_unused kf_ex) = 6" "min 9 (kfifo_data_size kf_ex) = 2"
    by code_simp+
  with kfifo_operations_exact [OF this(1,2), of kf_ex_mem] show ?thesis by (auto split: prod.splits)
qed

text \<open>\<open>kfifo_alloc\<close> does not round the size up to a power of two, as its comment says: it stops in the
  assertion of \<open>kfifo_init\<close>.\<close>

theorem kfifo_alloc_does_not_round:
  assumes "sz AND (sz - 1) \<noteq> 0" and "buffer \<noteq> 0"
  shows "kfifo_alloc sz buffer obj = Inl Assert_failed"
  using assms by (simp add: kfifo_alloc_def kfifo_init_def)

end
