(* ===== verification/Base64.thy ===== *)
theory Base64
  imports Bk_Prelude
begin

text \<open>
  The base64 coder \<^verbatim>\<open>beken378/func/base64/base_64.c\<close>, with line feeds after every 72 characters. The
  functions run over the byte memory, so that what they read is what is there when they read it;
  pointers are addresses, \<open>int\<close> lengths are integers, and the result is the returned value, what is
  stored through \<open>out_len\<close> (\<open>None\<close> when nothing is) and the memory. The look-up table of the decoder is
  built as the code builds it; \<open>dt\<close> is the address that \<open>os_zalloc\<close> returns for it.

  The lemmas describe both functions on lists (\<open>enc_list\<close>, \<open>dec_quads\<close>) and show that decoding inverts
  encoding, that the length the caller allocates is enough, and what the decoder writes beyond the
  length it reports.
\<close>

section \<open>The coder\<close>

definition base_64_table :: "u8 list" where
  "base_64_table = map of_char ''ABCDEFGHIJKLMNOPQRSTUVWXYZabcdefghijklmnopqrstuvwxyz0123456789+/''"

definition b64 :: "u8 \<Rightarrow> u8" where
  "b64 i = base_64_table ! unat i"

definition base64_calc_encode_length :: "u32 \<Rightarrow> u32" where
  "base64_calc_encode_length src_Len =
    (let enc_len = src_Len * 4 div 3 + 4;
         enc_len = enc_len + enc_len div 72
     in enc_len + 1)"

text \<open>\<open>*pos++ = c\<close>\<close>

definition emit :: "u8 \<Rightarrow> nat \<times> mem \<Rightarrow> nat \<times> mem" where
  "emit c s = (Suc (fst s), (snd s)(fst s := c))"

definition enc_block :: "nat \<Rightarrow> nat \<times> mem \<Rightarrow> nat \<times> mem" where
  "enc_block inp s0 =
    (let s1 = emit (b64 (drop_bit 2 (snd s0 inp))) s0;
         s2 = emit (b64 (push_bit 4 (snd s1 inp AND 0x03) OR drop_bit 4 (snd s1 (inp + 1)))) s1;
         s3 = emit (b64 (push_bit 2 (snd s2 (inp + 1) AND 0x0f) OR drop_bit 6 (snd s2 (inp + 2)))) s2
     in emit (b64 (snd s3 (inp + 2) AND 0x3f)) s3)"

text \<open>The loop \<open>while (end - in >= 3)\<close>; \<open>left\<close> is \<open>end - in\<close>.\<close>

function enc_loop :: "int \<Rightarrow> nat \<Rightarrow> nat \<Rightarrow> nat \<times> mem \<Rightarrow> int \<times> nat \<times> nat \<times> nat \<times> mem" where
  "enc_loop left inp line_len s =
    (if left \<ge> 3 then
       (let s1 = enc_block inp s; line_len = line_len + 4 in
        if line_len \<ge> 72 then enc_loop (left - 3) (inp + 3) 0 (emit 10 s1)
        else enc_loop (left - 3) (inp + 3) line_len s1)
     else (left, inp, line_len, s))"
  by pat_completeness auto
termination by (relation "measure (\<lambda>(left, _). nat left)") auto

declare enc_loop.simps [simp del]

text \<open>The last one or two bytes; any \<open>end - in\<close> but 0 and 1 is taken as two.\<close>

definition enc_tail :: "int \<Rightarrow> nat \<Rightarrow> nat \<times> mem \<Rightarrow> nat \<times> mem" where
  "enc_tail left inp s =
    (let s1 = emit (b64 (drop_bit 2 (snd s inp))) s;
         s3 = (if left = 1
               then emit 61 (emit (b64 (push_bit 4 (snd s1 inp AND 0x03))) s1)
               else (let s2 = emit (b64 (push_bit 4 (snd s1 inp AND 0x03) OR drop_bit 4 (snd s1 (inp + 1)))) s1
                     in emit (b64 (push_bit 2 (snd s2 (inp + 1) AND 0x0f))) s2))
     in emit 61 s3)"

definition base64_encode :: "nat \<Rightarrow> int \<Rightarrow> bool \<Rightarrow> nat \<Rightarrow> mem \<Rightarrow> u8 \<times> int option \<times> mem" where
  "base64_encode src len out_len out m =
    (if out = 0 then (0, None, m)
     else
       (case enc_loop len src 0 (out, m) of (left, inp, line_len, s) \<Rightarrow>
         (let (line_len, s) = (if left \<noteq> 0 then (line_len + 4, enc_tail left inp s) else (line_len, s));
              (pos, m) = (if line_len \<noteq> 0 then emit 10 s else s)
          in (1, if out_len then Some (int pos - int out) else None, m(pos := 0)))))"

definition dtable :: "u8 list" where
  "dtable =
    (fold (\<lambda>i t. t[unat (base_64_table ! i) := of_nat i]) [0..<64] (replicate 256 0x80))[61 := 0]"

text \<open>The first pass of the decoder: the number of characters that are in the alphabet.\<close>

primrec dec_count :: "nat \<Rightarrow> nat \<Rightarrow> mem \<Rightarrow> u32 \<Rightarrow> u32" where
  "dec_count 0 a m count = count"
| "dec_count (Suc n) a m count =
    dec_count n (Suc a) m (if dtable ! unat (m a) \<noteq> 0x80 then count + 1 else count)"

definition base64_calc_decode_length :: "nat \<Rightarrow> u32 \<Rightarrow> nat \<Rightarrow> mem \<Rightarrow> u32" where
  "base64_calc_decode_length src src_Len dt m =
    (if dt = 0 then 0
     else (let dec_len = dec_count (unat src_Len) src m 0 in if dec_len mod 4 \<noteq> 0 then 0 else dec_len))"

record dec_state =
  d_in :: "u8 list"
  d_block :: "u8 list"
  d_count :: nat
  d_pos :: nat
  d_mem :: mem

definition dec_flush :: "dec_state \<Rightarrow> dec_state" where
  "dec_flush d =
    (let b = d_block d;
         s1 = emit (push_bit 2 (b ! 0) OR drop_bit 4 (b ! 1)) (d_pos d, d_mem d);
         s2 = emit (push_bit 4 (b ! 1) OR drop_bit 2 (b ! 2)) s1;
         s3 = emit (push_bit 6 (b ! 2) OR b ! 3) s2
     in d\<lparr>d_pos := fst s3, d_mem := snd s3, d_count := 0\<rparr>)"

text \<open>One character of the second pass.\<close>

definition dec_char :: "nat \<Rightarrow> dec_state \<Rightarrow> dec_state" where
  "dec_char a d =
    (let c = d_mem d a; tmp = dtable ! unat c in
     if tmp = 0x80 then d
     else
       (let d1 = d\<lparr>d_in := (d_in d)[d_count d := c], d_block := (d_block d)[d_count d := tmp],
                   d_count := d_count d + 1\<rparr>
        in if d_count d1 = 4 then dec_flush d1 else d1))"

primrec dec_loop :: "nat \<Rightarrow> nat \<Rightarrow> dec_state \<Rightarrow> dec_state" where
  "dec_loop 0 a d = d"
| "dec_loop (Suc n) a d = dec_loop n (Suc a) (dec_char a d)"

text \<open>The loop counter is unsigned: a negative \<open>len\<close> is compared as a 32-bit number. The arrays \<open>in\<close>
  and \<open>block\<close> start uninitialised; an element is only read after it was written.\<close>

definition base64_decode :: "nat \<Rightarrow> int \<Rightarrow> nat \<Rightarrow> nat \<Rightarrow> mem \<Rightarrow> u8 \<times> int option \<times> mem" where
  "base64_decode src len out dt m =
    (if dt = 0 then (0, Some 0, m)
     else
       (let n = unat (of_int len :: u32); count = dec_count n src m 0 in
        if count mod 4 \<noteq> 0 then (0, None, m)
        else if out = 0 then (0, Some (sint (count * 3 div 4)), m)
        else
          (let d = dec_loop n src \<lparr>d_in = replicate 4 0, d_block = replicate 4 0, d_count = 0,
                                   d_pos = out, d_mem = m\<rparr>;
               pos = (if d_pos d > out then
                        (if d_in d ! 2 = 61 then d_pos d - 2
                         else if d_in d ! 3 = 61 then d_pos d - 1 else d_pos d)
                      else d_pos d)
           in (1, Some (int pos - int out), d_mem d))))"

section \<open>The tables\<close>

lemma unat_u8_lt [simp]: "unat (x :: u8) < 256"
proof -
  have "unat x < 2 ^ LENGTH(8)" by (rule unsigned_less)
  then show ?thesis by simp
qed

lemma dtable_chars:
  "length base_64_table = 64" "length dtable = 256"
  "list_all (\<lambda>i. dtable ! unat (base_64_table ! i) = of_nat i) [0..<64]"
  "dtable ! 10 = 0x80" "dtable ! 61 = 0" "list_all (\<lambda>c. c \<noteq> 61 \<and> c \<noteq> 10) base_64_table"
  by code_simp+


definition b64_val :: "u8 \<Rightarrow> u8" where
  "b64_val c = dtable ! unat c"

definition b64_valid :: "u8 \<Rightarrow> bool" where
  "b64_valid c \<longleftrightarrow> b64_val c \<noteq> 0x80"

lemma special_chars [simp]: "\<not> b64_valid 10" "b64_valid 61" "b64_val 61 = 0"
  using dtable_chars by (simp_all add: b64_valid_def b64_val_def)

lemma sextet_chars:
  assumes "unat x < 64"
  shows "b64_val (b64 x) = x" "b64 x \<noteq> 61" "b64 x \<noteq> 10" "b64_valid (b64 x)"
proof -
  have "unat x \<in> set [0..<64]" using assms by simp
  then have "dtable ! unat (base_64_table ! unat x) = of_nat (unat x)"
    using dtable_chars(3) unfolding list_all_iff by blast
  then show v: "b64_val (b64 x) = x" by (simp add: b64_val_def b64_def)
  have "base_64_table ! unat x \<in> set base_64_table" using assms dtable_chars(1) by (intro nth_mem) simp
  then show "b64 x \<noteq> 61" "b64 x \<noteq> 10" using dtable_chars(6) by (auto simp: list_all_iff b64_def)
  have "x \<noteq> 0x80"
  proof
    assume "x = 0x80"
    with assms show False by simp
  qed
  then show "b64_valid (b64 x)" using v by (simp add: b64_valid_def)
qed

section \<open>Sextets\<close>

definition quad :: "u8 \<Rightarrow> u8 \<Rightarrow> u8 \<Rightarrow> u8 list" where
  "quad a b c = [drop_bit 2 a, push_bit 4 (a AND 0x03) OR drop_bit 4 b,
    push_bit 2 (b AND 0x0f) OR drop_bit 6 c, c AND 0x3f]"

fun triple :: "u8 list \<Rightarrow> u8 list" where
  "triple [p, q, r, s] = [push_bit 2 p OR drop_bit 4 q, push_bit 4 q OR drop_bit 2 r, push_bit 6 r OR s]"
| "triple _ = []"

lemma bit_u8_cases: "n < 8 \<Longrightarrow> n = 0 \<or> n = 1 \<or> n = 2 \<or> n = 3 \<or> n = 4 \<or> n = 5 \<or> n = 6 \<or> n = (7 :: nat)"
  by linarith

lemma bit_u8_high: "8 \<le> n \<Longrightarrow> \<not> bit x n" for x :: u8
  using bit_imp_le_length [of x n] by auto

lemma u8_masks: "(0x03 :: u8) = mask 2" "(0x0f :: u8) = mask 4" "(0x3f :: u8) = mask 6"
  by (simp_all add: mask_eq_exp_minus_1)

lemma triple_quad: "triple (quad a b c) = [a, b, c]"
proof -
  have eq: "x = y" if "\<And>n. n < 8 \<Longrightarrow> bit x n = bit y n" for x y :: u8
    using that by (intro bit_word_eqI) simp
  show ?thesis unfolding quad_def triple.simps list.inject u8_masks
    by (intro conjI eq refl; drule bit_u8_cases; elim disjE; simp add: bit_simps)
qed

lemma quad_small: "\<forall>x\<in>set (quad a b c). unat x < 64"
proof -
  have small: "unat x < 64" if "take_bit 6 x = x" for x :: u8
  proof -
    have "unat (take_bit 6 x) = take_bit 6 (unat x)" by (simp only: unsigned_take_bit_eq)
    also have "\<dots> < 2 ^ 6" by (rule take_bit_nat_less_exp)
    finally show ?thesis using that by simp
  qed
  have eq: "take_bit 6 x = x" if "\<not> bit x 6" "\<not> bit x 7" for x :: u8
  proof (rule bit_word_eqI)
    fix n assume "n < LENGTH(8)"
    then show "bit (take_bit 6 x) n = bit x n" using that bit_u8_cases [of n] by (auto simp: bit_simps)
  qed
  show ?thesis unfolding quad_def u8_masks by (auto intro!: small eq simp: bit_simps bit_u8_high)
qed


section \<open>The encoder on lists\<close>

definition quad_chars :: "u8 \<Rightarrow> u8 \<Rightarrow> u8 \<Rightarrow> u8 list" where
  "quad_chars a b c = map b64 (quad a b c)"

fun enc_list :: "nat \<Rightarrow> u8 list \<Rightarrow> u8 list" where
  "enc_list l (a # b # c # xs) = quad_chars a b c
    @ (if l + 4 \<ge> 72 then 10 # enc_list 0 xs else enc_list (l + 4) xs)"
| "enc_list l [a, b] = take 3 (quad_chars a b 0) @ [61, 10]"
| "enc_list l [a] = take 2 (quad_chars a 0 0) @ [61, 61, 10]"
| "enc_list l [] = (if l \<noteq> 0 then [10] else [])"

lemma length_quad_chars [simp]: "length (quad_chars a b c) = 4"
  by (simp add: quad_chars_def quad_def)

lemma emit_chain:
  "emit z (emit y (emit x (emit w (pos, m)))) = (pos + 4, mwrite m pos [w, x, y, z])"
  by (auto simp: emit_def mwrite_def fun_eq_iff nth_Cons' split: if_splits)

lemma emit_mwrite: "emit c (pos, m) = (pos + 1, mwrite m pos [c])"
  by (auto simp: emit_def mwrite_def fun_eq_iff)

lemma emit_snd: "snd (emit c s) x = (if x = fst s then c else snd s x)" "fst (emit c s) = Suc (fst s)"
  by (simp_all add: emit_def)

lemma enc_block_quad:
  assumes "disjoint_blocks inp 3 pos 4"
  shows "enc_block inp (pos, m)
    = (pos + 4, mwrite m pos (quad_chars (m inp) (m (inp + 1)) (m (inp + 2))))"
proof -
  have "inp \<noteq> pos + i" "Suc inp \<noteq> pos + i" "Suc (Suc inp) \<noteq> pos + i" if "i < 4" for i
    using assms that by (auto simp: disjoint_blocks_def)
  from this [of 0] this [of 1] this [of 2] show ?thesis
    unfolding enc_block_def Let_def emit_snd fst_conv snd_conv quad_chars_def quad_def
    by (simp add: emit_chain)
qed

lemma enc_tail_two:
  assumes "disjoint_blocks inp 2 pos 4"
  shows "enc_tail 2 inp (pos, m)
    = (pos + 4, mwrite m pos (take 3 (quad_chars (m inp) (m (inp + 1)) 0) @ [61]))"
proof -
  have "inp \<noteq> pos + i" "Suc inp \<noteq> pos + i" if "i < 4" for i
    using assms that by (auto simp: disjoint_blocks_def)
  from this [of 0] this [of 1] show ?thesis
    unfolding enc_tail_def Let_def emit_snd fst_conv snd_conv quad_chars_def quad_def
    by (simp add: emit_chain)
qed

lemma enc_tail_one:
  assumes "disjoint_blocks inp 1 pos 4"
  shows "enc_tail 1 inp (pos, m)
    = (pos + 4, mwrite m pos (take 2 (quad_chars (m inp) 0 0) @ [61, 61]))"
proof -
  have "inp \<noteq> pos" using assms by (auto simp: disjoint_blocks_def)
  then show ?thesis
    unfolding enc_tail_def Let_def emit_snd fst_conv snd_conv quad_chars_def quad_def
    by (simp add: emit_chain)
qed

text \<open>From the loop on to the last line feed.\<close>

definition enc_finish :: "int \<times> nat \<times> nat \<times> nat \<times> mem \<Rightarrow> nat \<times> mem" where
  "enc_finish r = (case r of (left, inp, line_len, s) \<Rightarrow>
    (let (line_len, s) = (if left \<noteq> 0 then (line_len + 4, enc_tail left inp s) else (line_len, s))
     in if line_len \<noteq> 0 then emit 10 s else s))"

lemma base64_encode_finish:
  "out \<noteq> 0 \<Longrightarrow> base64_encode src len ol out m =
    (case enc_finish (enc_loop len src 0 (out, m)) of
       (pos, m') \<Rightarrow> (1, if ol then Some (int pos - int out) else None, m'(pos := 0)))"
  by (auto simp: base64_encode_def enc_finish_def Let_def split: prod.splits if_splits)

lemma enc_loop_list:
  assumes "mread m inp (length bs) = bs"
    and "disjoint_blocks inp (length bs) pos (length (enc_list l bs))"
  shows "enc_finish (enc_loop (int (length bs)) inp l (pos, m))
    = (pos + length (enc_list l bs), mwrite m pos (enc_list l bs))"
  using assms
proof (induction l bs arbitrary: inp pos m rule: enc_list.induct)
  case (1 l a b c xs)
  define nl where "nl = (if l + 4 \<ge> 72 then [10] else [] :: u8 list)"
  define l' where "l' = (if l + 4 \<ge> 72 then 0 else l + 4)"
  define q where "q = quad_chars a b c @ nl"
  have list: "enc_list l (a # b # c # xs) = q @ enc_list l' xs"
    by (simp add: q_def nl_def l'_def)
  have apart: "disjoint_blocks inp (3 + length xs) pos (length q + length (enc_list l' xs))"
    using "1.prems"(2) unfolding list by (simp add: numeral_eq_Suc)
  have abc: "m inp = a" "m (inp + 1) = b" "m (inp + 2) = c" "mread m (inp + 3) (length xs) = xs"
    using "1.prems"(1) by (simp_all add: mread_Suc numeral_eq_Suc)
  have blk: "enc_block inp (pos, m) = (pos + 4, mwrite m pos (quad_chars a b c))"
    using enc_block_quad [of inp pos m] "1.prems"(2) abc by (auto simp: disjoint_blocks_def)
  have step: "enc_loop (int (length (a # b # c # xs))) inp l (pos, m)
    = enc_loop (int (length xs)) (inp + 3) l' (pos + length q, mwrite m pos q)"
    using mwrite_append [of m pos "quad_chars a b c" "[10]"]
    by (subst enc_loop.simps) (auto simp: blk Let_def emit_mwrite q_def nl_def l'_def add.commute)
  have "mread (mwrite m pos q) (inp + 3) (length xs) = xs"
    using abc(4) apart by (subst mread_mwrite_disjoint) (auto simp: disjoint_blocks_def)
  moreover have "disjoint_blocks (inp + 3) (length xs) (pos + length q) (length (enc_list l' xs))"
    using apart by (auto simp: disjoint_blocks_def)
  ultimately have "enc_finish (enc_loop (int (length xs)) (inp + 3) l' (pos + length q, mwrite m pos q))
    = (pos + length q + length (enc_list l' xs), mwrite (mwrite m pos q) (pos + length q) (enc_list l' xs))"
    using 1(1,2) unfolding l'_def by (auto split: if_splits)
  then show ?case unfolding step list by (simp add: mwrite_append)
next
  case (2 l a b)
  have "m inp = a" "m (inp + 1) = b" using "2.prems"(1) by (simp_all add: mread_Suc numeral_eq_Suc)
  moreover have "disjoint_blocks inp 2 pos 4" using "2.prems"(2) by (auto simp: disjoint_blocks_def)
  ultimately show ?case
    using enc_tail_two [of inp pos m] mwrite_append [of m pos "take 3 (quad_chars a b 0) @ [61]" "[10]"]
    by (simp add: enc_loop.simps enc_finish_def Let_def emit_mwrite)
next
  case (3 l a)
  have "m inp = a" using "3.prems"(1) by (simp add: mread_Suc)
  moreover have "disjoint_blocks inp 1 pos 4" using "3.prems"(2) by (auto simp: disjoint_blocks_def)
  ultimately show ?case
    using enc_tail_one [of inp pos m] mwrite_append [of m pos "take 2 (quad_chars a 0 0) @ [61, 61]" "[10]"]
    by (simp add: enc_loop.simps enc_finish_def Let_def emit_mwrite)
next
  case (4 l)
  then show ?case by (simp add: enc_loop.simps enc_finish_def Let_def emit_mwrite)
qed

lemma base64_encode_list:
  assumes "out \<noteq> 0" and "bs = mread m src n" and "cs = enc_list 0 bs"
    and "disjoint_blocks src n out (length cs)"
  shows "base64_encode src (int n) ol out m =
    (1, if ol then Some (int (length cs)) else None, mwrite m out (cs @ [0]))"
proof -
  have "enc_finish (enc_loop (int n) src 0 (out, m)) = (out + length cs, mwrite m out cs)"
    using enc_loop_list [of m src bs out 0] assms by simp
  moreover have "(mwrite m out cs)(out + length cs := 0) = mwrite m out (cs @ [0])"
    by (subst mwrite_append [symmetric]) (auto simp: mwrite_def fun_eq_iff)
  ultimately show ?thesis using base64_encode_finish [OF assms(1)] by simp
qed


section \<open>The decoder on lists\<close>

text \<open>The characters of the alphabet among the input, in groups of four.\<close>

fun dec_quads :: "u8 list \<Rightarrow> u8 list" where
  "dec_quads (p # q # r # s # cs) = triple (map b64_val [p, q, r, s]) @ dec_quads cs"
| "dec_quads _ = []"

lemma length_dec_quads: "length (dec_quads cs) = 3 * (length cs div 4)"
proof (induction cs rule: dec_quads.induct)
  case (1 p q r s cs)
  have "length (p # q # r # s # cs) div 4 = Suc (length cs div 4)" by simp
  then show ?case using 1 by simp
qed simp_all

lemma dec_count_filter:
  "dec_count n a m c = c + of_nat (length (filter b64_valid (mread m a n)))"
  by (induction n arbitrary: a c) (auto simp: mread_Suc b64_valid_def b64_val_def)

text \<open>A decoder between two groups of four, with the characters \<open>p\<close> of the next group already read.\<close>

definition dec_pending :: "u8 list \<Rightarrow> dec_state \<Rightarrow> bool" where
  "dec_pending p d \<longleftrightarrow> d_count d = length p \<and> length p < 4 \<and> length (d_in d) = 4 \<and> length (d_block d) = 4
    \<and> take (length p) (d_in d) = p \<and> take (length p) (d_block d) = map b64_val p"

lemma emit_three: "emit z (emit y (emit x (pos, m))) = (pos + 3, mwrite m pos [x, y, z])"
  by (auto simp: emit_def mwrite_def fun_eq_iff nth_Cons' split: if_splits)

lemma list4_cases: "length xs = 4 \<Longrightarrow> \<exists>a b c d. xs = [a, b, c, d]"
  by (auto simp: numeral_eq_Suc length_Suc_conv)

lemma dec_char_skip: "\<not> b64_valid (d_mem d a) \<Longrightarrow> dec_char a d = d"
  by (simp add: dec_char_def Let_def b64_valid_def b64_val_def)

lemma take_snoc_update: "\<lbrakk>k < length xs; take k xs = p\<rbrakk> \<Longrightarrow> take (Suc k) (xs[k := x]) = p @ [x]"
  by (simp add: take_Suc_conv_app_nth)

lemma dec_char_store:
  assumes "b64_valid c" and "c = d_mem d a" and "dec_pending p d" and "length p < 3"
  shows "dec_pending (p @ [c]) (dec_char a d)" and "d_pos (dec_char a d) = d_pos d"
    and "d_mem (dec_char a d) = d_mem d"
  using assms by (auto simp: dec_char_def Let_def b64_valid_def b64_val_def dec_pending_def take_snoc_update)

lemma dec_char_flush:
  assumes "b64_valid c" and "c = d_mem d a" and "dec_pending p d" and "length p = 3"
  shows "dec_pending [] (dec_char a d)" and "d_pos (dec_char a d) = d_pos d + 3"
    and "d_mem (dec_char a d) = mwrite (d_mem d) (d_pos d) (triple (map b64_val (p @ [c])))"
    and "d_in (dec_char a d) = p @ [c]"
proof -
  obtain x y z w where di: "d_in d = [x, y, z, w]"
    using assms(3) list4_cases [of "d_in d"] by (auto simp: dec_pending_def)
  obtain e f g h where db: "d_block d = [e, f, g, h]"
    using assms(3) list4_cases [of "d_block d"] by (auto simp: dec_pending_def)
  have p: "p = [x, y, z]" "[e, f, g] = map b64_val p" "d_count d = 3"
    using assms(3,4) di db by (auto simp: dec_pending_def)
  have "dec_char a d = dec_flush (d\<lparr>d_in := [x, y, z, c], d_block := [e, f, g, b64_val c], d_count := 4\<rparr>)"
    using assms(1,2) p di db by (simp add: dec_char_def Let_def b64_valid_def b64_val_def)
  then show "dec_pending [] (dec_char a d)" "d_pos (dec_char a d) = d_pos d + 3"
    "d_mem (dec_char a d) = mwrite (d_mem d) (d_pos d) (triple (map b64_val (p @ [c])))"
    "d_in (dec_char a d) = p @ [c]"
    using p by (auto simp: dec_flush_def Let_def emit_three dec_pending_def)
qed

lemma dec_loop_list:
  assumes "dec_pending p d" and "ks = p @ filter b64_valid (mread (d_mem d) a n)"
    and "disjoint_blocks a n (d_pos d) (length (dec_quads ks))"
  shows "d_pos (dec_loop n a d) = d_pos d + length (dec_quads ks)
    \<and> d_mem (dec_loop n a d) = mwrite (d_mem d) (d_pos d) (dec_quads ks)
    \<and> (length ks mod 4 = 0 \<longrightarrow>
        d_in (dec_loop n a d) = (if ks = [] then d_in d else drop (length ks - 4) ks))"
  using assms
proof (induction n arbitrary: a d p ks)
  case 0
  then have ks: "ks = p" "length p < 4" by (simp_all add: dec_pending_def)
  then have "dec_quads ks = []" using length_dec_quads [of ks] by simp
  then show ?case using ks by auto
next
  case (Suc n)
  let ?c = "d_mem d a" and ?d = "dec_char a d"
  have rest: "disjoint_blocks (Suc a) n (d_pos d) (length (dec_quads ks))"
    using Suc.prems(3) by (auto simp: disjoint_blocks_def)
  show ?case
  proof (cases "b64_valid ?c")
    case False
    then have "ks = p @ filter b64_valid (mread (d_mem d) (Suc a) n)"
      using Suc.prems(2) by (simp add: mread_Suc)
    from Suc.IH [OF Suc.prems(1) this rest] show ?thesis using False by (simp add: dec_char_skip)
  next
    case True
    then have ks: "ks = (p @ [?c]) @ filter b64_valid (mread (d_mem d) (Suc a) n)"
      using Suc.prems(2) by (simp add: mread_Suc)
    show ?thesis
    proof (cases "length p < 3")
      case True
      note st = dec_char_store [OF \<open>b64_valid ?c\<close> refl Suc.prems(1) True]
      have "ks \<noteq> []" using ks by simp
      then show ?thesis using Suc.IH [OF st(1), of ks "Suc a"] ks rest st by simp
    next
      case False
      then have p3: "length p = 3" using Suc.prems(1) by (simp add: dec_pending_def)
      note fl = dec_char_flush [OF \<open>b64_valid ?c\<close> refl Suc.prems(1) p3]
      let ?t = "triple (map b64_val (p @ [?c]))"
      define ks' where "ks' = filter b64_valid (mread (d_mem d) (Suc a) n)"
      obtain x y z where xyz: "p = [x, y, z]" using p3 by (auto simp: numeral_eq_Suc length_Suc_conv)
      have quads: "dec_quads ks = ?t @ dec_quads ks'" and "length ?t = 3"
        using ks by (simp_all add: xyz ks'_def)
      have same: "mread (d_mem ?d) (Suc a) n = mread (d_mem d) (Suc a) n"
        unfolding fl(3) using rest quads by (intro mread_mwrite_disjoint) (auto simp: disjoint_blocks_def)
      have "disjoint_blocks (Suc a) n (d_pos ?d) (length (dec_quads ks'))"
        using rest quads fl(2) \<open>length ?t = 3\<close> by (auto simp: disjoint_blocks_def)
      note IH = Suc.IH [OF fl(1), of ks' "Suc a", unfolded same, OF _ this]
      have ks4: "ks = (p @ [?c]) @ ks'" "length (p @ [?c]) = 4" using ks p3 by (simp_all add: ks'_def)
      have last: "drop (length ks - 4) ks = (if ks' = [] then p @ [?c] else drop (length ks' - 4) ks')"
        if "length ks mod 4 = 0"
      proof (cases "ks' = []")
        case False
        have "length ks' mod 4 = 0" using that ks4 by simp
        then have "4 \<le> length ks'" using False by (cases "length ks' < 4") auto
        then show ?thesis using ks4 False by (simp add: drop_append drop_Cons')
      qed (use ks4 in simp)
      show ?thesis using IH quads \<open>length ?t = 3\<close> fl last ks4 mwrite_append [of "d_mem d" "d_pos d" ?t]
        by (auto simp: ks'_def)
    qed
  qed
qed


text \<open>What the last group says about padding.\<close>

definition pad_of :: "u8 list \<Rightarrow> nat" where
  "pad_of ks = (if ks = [] then 0 else if drop (length ks - 4) ks ! 2 = 61 then 2
    else if drop (length ks - 4) ks ! 3 = 61 then 1 else 0)"

lemma word_count_mod:
  assumes "k \<le> n" and "n < 2147483648"
  shows "(of_nat k :: u32) mod 4 = 0 \<longleftrightarrow> k mod 4 = 0"
proof -
  have "unat (of_nat k :: u32) = k"
    using assms by (simp only: unat_of_nat_u32)
  then have "unat ((of_nat k :: u32) mod 4) = k mod 4" by (simp add: unat_mod)
  then show ?thesis by (metis unat_eq_zero unsigned_0)
qed

lemma base64_decode_list:
  assumes "dt \<noteq> 0" and "out \<noteq> 0" and "n < 2147483648"
    and "ks = filter b64_valid (mread m src n)"
    and "disjoint_blocks src n out (length (dec_quads ks))"
  shows "base64_decode src (int n) out dt m =
    (if length ks mod 4 \<noteq> 0 then (0, None, m)
     else (1, Some (int (length (dec_quads ks)) - int (pad_of ks)), mwrite m out (dec_quads ks)))"
proof -
  have n: "unat (of_int (int n) :: u32) = n"
    using assms(3) by (simp only: of_int_of_nat_eq) (simp add: unat_of_nat_u32)
  have le: "length ks \<le> n" unfolding assms(4) using length_filter_le [of b64_valid "mread m src n"] by simp
  let ?d0 = "\<lparr>d_in = replicate 4 0, d_block = replicate 4 0, d_count = 0, d_pos = out, d_mem = m\<rparr> :: dec_state"
  have "dec_pending [] ?d0" by (simp add: dec_pending_def)
  from dec_loop_list [OF this, of ks src n] assms(4,5)
  have lp: "d_pos (dec_loop n src ?d0) = out + length (dec_quads ks)"
    "d_mem (dec_loop n src ?d0) = mwrite m out (dec_quads ks)"
    "length ks mod 4 = 0 \<Longrightarrow> ks \<noteq> [] \<Longrightarrow> d_in (dec_loop n src ?d0) = drop (length ks - 4) ks"
    by auto
  have cnt: "dec_count n src m 0 = of_nat (length ks)" by (simp add: dec_count_filter assms(4))
  show ?thesis
  proof (cases "length ks mod 4 = 0")
    case True
    have pos: "out < out + length (dec_quads ks) \<longleftrightarrow> ks \<noteq> []"
      using True length_dec_quads [of ks] by (cases "length ks < 4") auto
    have "3 \<le> length (dec_quads ks)" if "ks \<noteq> []"
      using pos that length_dec_quads [of ks] by simp
    then have pad: "(if out < out + length (dec_quads ks)
        then if d_in (dec_loop n src ?d0) ! 2 = 61 then out + length (dec_quads ks) - 2
          else if d_in (dec_loop n src ?d0) ! 3 = 61 then out + length (dec_quads ks) - 1
          else out + length (dec_quads ks)
        else out + length (dec_quads ks)) = out + length (dec_quads ks) - pad_of ks"
      and "pad_of ks \<le> length (dec_quads ks)"
      unfolding pos using lp(3) [OF True] by (cases "ks = []"; force simp: pad_of_def)+
    have "(of_nat (length ks) :: u32) mod 4 = 0" using word_count_mod [OF le assms(3)] True by simp
    then have "base64_decode src (int n) out dt m = (1,
        Some (int (out + length (dec_quads ks) - pad_of ks) - int out), mwrite m out (dec_quads ks))"
      using assms(1,2) unfolding base64_decode_def Let_def n cnt lp(1,2) pad by simp
    then show ?thesis using True \<open>pad_of ks \<le> length (dec_quads ks)\<close> by simp
  next
    case False
    then show ?thesis using assms(1) word_count_mod [OF le assms(3)]
      unfolding base64_decode_def Let_def n cnt by simp
  qed
qed

section \<open>Round trip\<close>

text \<open>The encoding without line feeds, and the number of padding characters.\<close>

fun enc_chars :: "u8 list \<Rightarrow> u8 list" where
  "enc_chars (a # b # c # xs) = quad_chars a b c @ enc_chars xs"
| "enc_chars [a, b] = take 3 (quad_chars a b 0) @ [61]"
| "enc_chars [a] = take 2 (quad_chars a 0 0) @ [61, 61]"
| "enc_chars [] = []"

definition enc_pad :: "u8 list \<Rightarrow> nat" where
  "enc_pad bs = (if length bs mod 3 = 0 then 0 else 3 - length bs mod 3)"

lemma quad_char: "x \<in> set (quad_chars a b c) \<Longrightarrow> b64_valid x \<and> x \<noteq> 61"
  using quad_small [of a b c] by (auto simp: quad_chars_def sextet_chars)

lemma quad_chars_val: "map b64_val (quad_chars a b c) = quad a b c"
  using quad_small [of a b c] by (simp add: quad_chars_def comp_def sextet_chars map_idI)

lemma quad_chars_4: obtains p q r s where "quad_chars a b c = [p, q, r, s]"
  using list4_cases [of "quad_chars a b c"] by auto

lemma filter_quad: "filter b64_valid (quad_chars a b c) = quad_chars a b c"
  using quad_char by (intro filter_True) blast

lemma filter_enc_list: "filter b64_valid (enc_list l bs) = enc_chars bs"
proof (induction l bs rule: enc_list.induct)
  case (2 l a b)
  have "\<forall>x\<in>set (take 3 (quad_chars a b 0)). b64_valid x" by (meson in_set_takeD quad_char)
  then show ?case by simp
next
  case (3 l a)
  have "\<forall>x\<in>set (take 2 (quad_chars a 0 0)). b64_valid x" by (meson in_set_takeD quad_char)
  then show ?case by simp
qed (simp_all add: filter_quad)

lemma dec_quads_quad: "dec_quads (quad_chars a b c @ cs) = [a, b, c] @ dec_quads cs"
proof -
  obtain p q r s where q: "quad_chars a b c = [p, q, r, s]" by (rule quad_chars_4)
  have "triple (map b64_val [p, q, r, s]) = [a, b, c]"
    using quad_chars_val [of a b c] triple_quad [of a b c] q by simp
  then show ?thesis by (simp add: q)
qed

text \<open>A padding character has the value of the sextet that the missing byte would give.\<close>

lemma quad_zero:
  "map b64_val (take 3 (quad_chars a b 0) @ [61]) = quad a b 0"
  "map b64_val (take 2 (quad_chars a 0 0) @ [61, 61]) = quad a 0 0"
proof -
  have "map b64_val (take k (quad_chars a b c)) = take k (quad a b c)" for k b c
    using quad_chars_val [of a b c] by (simp flip: take_map)
  then show "map b64_val (take 3 (quad_chars a b 0) @ [61]) = quad a b 0"
    "map b64_val (take 2 (quad_chars a 0 0) @ [61, 61]) = quad a 0 0"
    by (simp_all add: quad_def numeral_eq_Suc)
qed

lemma dec_enc_chars: "dec_quads (enc_chars bs) = bs @ replicate (enc_pad bs) 0"
proof (induction bs rule: enc_chars.induct)
  case (1 a b c xs)
  have "enc_pad (a # b # c # xs) = enc_pad xs" by (simp add: enc_pad_def)
  then show ?case using 1 by (simp add: dec_quads_quad)
next
  case (2 a b)
  obtain p q r s where q: "quad_chars a b 0 = [p, q, r, s]" by (rule quad_chars_4)
  have "triple (map b64_val [p, q, r, 61]) = [a, b, 0]"
    using quad_zero(1) [of a b] triple_quad [of a b 0] q by simp
  then show ?case by (simp add: q enc_pad_def)
next
  case (3 a)
  obtain p q r s where q: "quad_chars a 0 0 = [p, q, r, s]" by (rule quad_chars_4)
  have "triple (map b64_val [p, q, 61, 61]) = [a, 0, 0]"
    using quad_zero(2) [of a] triple_quad [of a 0 0] q by simp
  then show ?case by (simp add: q enc_pad_def numeral_2_eq_2)
qed (simp add: enc_pad_def)

lemma length_enc_chars: "length (enc_chars bs) = 4 * ((length bs + 2) div 3)"
proof (induction bs rule: enc_chars.induct)
  case (1 a b c xs)
  have "(length (a # b # c # xs) + 2) div 3 = ((length xs + 2) + 3) div 3" by simp
  also have "\<dots> = Suc ((length xs + 2) div 3)" by (subst div_add_self2) simp_all
  finally show ?case using 1 by simp
qed simp_all

lemma enc_chars_last:
  "bs \<noteq> [] \<Longrightarrow> \<exists>p q r s. drop (length (enc_chars bs) - 4) (enc_chars bs) = [p, q, r, s]
    \<and> (r = 61 \<longleftrightarrow> length bs mod 3 = 1) \<and> (s = 61 \<longleftrightarrow> length bs mod 3 \<noteq> 0)"
proof (induction bs rule: enc_chars.induct)
  case (1 a b c xs)
  show ?case
  proof (cases "xs = []")
    case True
    obtain p q r s where q: "quad_chars a b c = [p, q, r, s]" by (rule quad_chars_4)
    then have "r \<noteq> 61" "s \<noteq> 61" using quad_char [of _ a b c] by auto
    then show ?thesis using True q by simp
  next
    case False
    have "1 \<le> (length xs + 2) div 3" using False by (cases xs) simp_all
    then have "4 \<le> length (enc_chars xs)" by (simp add: length_enc_chars)
    then show ?thesis using 1 False by (simp add: drop_append)
  qed
next
  case (2 a b)
  obtain p q r s where q: "quad_chars a b 0 = [p, q, r, s]" by (rule quad_chars_4)
  then have "r \<noteq> 61" using quad_char [of _ a b 0] by auto
  then show ?case using q by simp
next
  case (3 a)
  obtain p q r s where q: "quad_chars a 0 0 = [p, q, r, s]" by (rule quad_chars_4)
  then show ?case by simp
qed simp

lemma pad_of_enc_chars: "pad_of (enc_chars bs) = enc_pad bs"
proof (cases "bs = []")
  case False
  then obtain p q r s where l: "drop (length (enc_chars bs) - 4) (enc_chars bs) = [p, q, r, s]"
    "r = 61 \<longleftrightarrow> length bs mod 3 = 1" "s = 61 \<longleftrightarrow> length bs mod 3 \<noteq> 0"
    using enc_chars_last by blast
  have "length bs mod 3 < 3" by simp
  then have "length bs mod 3 = 0 \<or> length bs mod 3 = 1 \<or> length bs mod 3 = 2" by linarith
  moreover have "enc_chars bs \<noteq> []" using l by auto
  ultimately show ?thesis using l by (auto simp: pad_of_def enc_pad_def)
qed (simp add: pad_of_def enc_pad_def)


section \<open>Lengths\<close>

lemma one_line:
  fixes l :: nat
  assumes "l mod 4 = 0" and "l < 72"
  shows "(l + 4 + 71) div 72 = 1" and "(l + 71) div 72 = (if l = 0 then 0 else 1)"
proof -
  obtain q where q: "l = 4 * q" using assms(1) by auto
  then have "q < 18" using assms(2) by simp
  then show "(l + 4 + 71) div 72 = 1" by (intro div_nat_eqI) (simp_all add: q)
  show "(l + 71) div 72 = (if l = 0 then 0 else 1)"
    using \<open>q < 18\<close> by (cases "q = 0") (auto simp: q intro!: div_nat_eqI)
qed

lemma nl_count_step:
  fixes l C :: nat
  assumes "l < 72"
  shows "(if l + 4 \<ge> 72 then Suc ((0 + C + 71) div 72) else (l + 4 + C + 71) div 72)
    = (if l + 4 = 72 \<or> l + 4 < 72 then (l + (4 + C) + 71) div 72 else Suc ((C + 71) div 72))"
proof (cases "l + 4 = 72")
  case True
  then have "l + (4 + C) + 71 = (C + 71) + 72" by simp
  then show ?thesis using True by (simp del: add_Suc_right)
qed (simp add: ac_simps)

lemma length_enc_list:
  assumes "l mod 4 = 0" and "l < 72"
  shows "length (enc_list l bs)
    = length (enc_chars bs) + (l + length (enc_chars bs) + 71) div 72"
  using assms
proof (induction l bs rule: enc_list.induct)
  case (1 l a b c xs)
  have l: "l + 4 = 72 \<or> l + 4 < 72" "(l + 4) mod 4 = 0"
    using 1(3,4) by presburger+
  show ?case
  proof (cases "l + 4 = 72")
    case True
    have "(l + (4 + length (enc_chars xs)) + 71) div 72 = Suc ((length (enc_chars xs) + 71) div 72)"
      using True nl_count_step [of l "length (enc_chars xs)"] 1(4) by simp
    moreover have "length (enc_list 0 xs) = length (enc_chars xs) + (length (enc_chars xs) + 71) div 72"
      using 1(1) True by simp
    ultimately show ?thesis using True by simp
  next
    case False
    then have "length (enc_list (l + 4) xs)
        = length (enc_chars xs) + (l + 4 + length (enc_chars xs) + 71) div 72"
      using 1(2) l by simp
    then show ?thesis using False l by (simp add: ac_simps)
  qed
next
  case (2 l a b)
  have "(l + 4 + 71) div 72 = 1" using 2 by (intro one_line)
  then show ?case by simp
next
  case (3 l a)
  have "(l + 4 + 71) div 72 = 1" using 3 by (intro one_line)
  then show ?case by simp
next
  case (4 l)
  have "(l + 71) div 72 = (if l = 0 then 0 else 1)" using 4 by (intro one_line)
  then show ?case by simp
qed

lemma enc_length_bound:
  "4 * ((n + 2) div 3) + (4 * ((n + 2) div 3) + 71) div 72
    \<le> n * 4 div 3 + 4 + (n * 4 div 3 + 4) div 72" for n :: nat
proof -
  define C where "C = 4 * ((n + 2) div 3)"
  define e where "e = n * 4 div 3 + 4"
  have "C + 1 \<le> e" unfolding C_def e_def by presburger
  moreover have "(C + 71) div 72 \<le> (C + 72) div 72" by (intro div_le_mono) simp
  moreover have "(C + 72) div 72 = C div 72 + 1" by (subst div_add_self2) simp_all
  moreover have "C div 72 \<le> e div 72" using \<open>C + 1 \<le> e\<close> by (intro div_le_mono) simp
  ultimately show ?thesis unfolding C_def [symmetric] e_def [symmetric] by linarith
qed

lemma calc_small:
  fixes n :: nat
  assumes "n < 1073741824"
  shows "n * 4 div 3 + 4 + (n * 4 div 3 + 4) div 72 + 1 < 2147483648"
proof -
  define e where "e = n * 4 div 3 + 4"
  have "e \<le> 1431655768" using assms unfolding e_def by linarith
  moreover have "e div 72 \<le> 1431655768 div 72" using \<open>e \<le> 1431655768\<close> by (rule div_le_mono)
  ultimately show ?thesis unfolding e_def [symmetric] by simp
qed

lemma calc_encode_length_nat:
  assumes "n < 1073741824"
  shows "unat (base64_calc_encode_length (of_nat n)) = n * 4 div 3 + 4 + (n * 4 div 3 + 4) div 72 + 1"
proof -
  have n: "unat (of_nat n :: u32) = n"
    using assms by (simp only: unat_of_nat_u32)
  have e0: "unat ((of_nat n :: u32) * 4 div 3) = n * 4 div 3"
    using n assms by (simp only: unat_div unat_mult_fit) (simp add: unat_mult_fit n)
  have e: "unat ((of_nat n :: u32) * 4 div 3 + 4) = n * 4 div 3 + 4"
    using e0 assms by (subst unat_add_fit) auto
  have d: "unat (((of_nat n :: u32) * 4 div 3 + 4) div 72) = (n * 4 div 3 + 4) div 72"
    using e by (simp only: unat_div) simp
  have "(n * 4 div 3 + 4) + (n * 4 div 3 + 4) div 72 + 1 < 2147483648"
    using assms by (rule calc_small)
  moreover define E where "E = (of_nat n :: u32) * 4 div 3 + 4"
  ultimately have "unat (E + E div 72 + 1) = unat E + unat (E div 72) + 1"
    using e d by (subst unat_add_fit unat_add_fit [of E]; simp)+
  then show ?thesis unfolding base64_calc_encode_length_def Let_def E_def [symmetric]
    using e d by (simp add: E_def)
qed

lemma enc_list_fits:
  assumes "n < 1073741824" and "length bs = n"
  shows "length (enc_list 0 bs) < unat (base64_calc_encode_length (of_nat n))"
    and "unat (base64_calc_encode_length (of_nat n)) < 2147483648"
proof -
  have "length (enc_list 0 bs) = 4 * ((n + 2) div 3) + (4 * ((n + 2) div 3) + 71) div 72"
    using length_enc_list [of 0 bs] assms(2) by (simp add: length_enc_chars)
  then show "length (enc_list 0 bs) < unat (base64_calc_encode_length (of_nat n))"
    using enc_length_bound [of n] calc_encode_length_nat [OF assms(1)] by linarith
  show "unat (base64_calc_encode_length (of_nat n)) < 2147483648"
    unfolding calc_encode_length_nat [OF assms(1)] using assms(1) by (rule calc_small)
qed


section \<open>Properties\<close>

text \<open>C16: Decoding inverts encoding. When \<open>n\<close> bytes (\<open>n < 2 ^ 30\<close>) are encoded into a buffer of the size
  that \<open>base64_calc_encode_length\<close> gives and the result is decoded into a third buffer, with room for
  the length rounded up to whole groups of three, both calls succeed, the decoder reports \<open>n\<close> and its
  output is the bytes that were encoded.\<close>

theorem base64_decode_encode:
  assumes "n < 1073741824" and "out \<noteq> 0" and "out2 \<noteq> 0" and "dt \<noteq> 0"
    and "E = unat (base64_calc_encode_length (of_nat n))"
    and "disjoint_blocks src n out E" and "disjoint_blocks out E out2 (3 * ((n + 2) div 3))"
    and "base64_encode src (int n) True out m = (ret, Some len, m1)"
    and "base64_decode out len out2 dt m1 = (ret2, ol2, m2)"
  shows "ret = 1 \<and> ret2 = 1 \<and> ol2 = Some (int n) \<and> mread m2 out2 n = mread m src n"
proof -
  define bs where "bs = mread m src n"
  define cs where "cs = enc_list 0 bs"
  have bs: "length bs = n" by (simp add: bs_def)
  note fit = enc_list_fits [OF assms(1) bs]
  have cs: "length cs < E" "E < 2147483648" using fit assms(5) by (simp_all add: cs_def)
  have "disjoint_blocks src n out (length cs)" using assms(6) cs by (auto simp: disjoint_blocks_def)
  from base64_encode_list [OF assms(2) bs_def cs_def this, of True] assms(8)
  have enc: "ret = 1" "len = int (length cs)" "m1 = mwrite m out (cs @ [0])" by simp_all
  have rd: "mread m1 out (length cs) = cs"
    unfolding enc(3) mwrite_append [of m out cs "[0]", symmetric]
    by (simp add: mread_mwrite_disjoint mread_mwrite_same)
  have ks: "enc_chars bs = filter b64_valid (mread m1 out (length cs))"
    unfolding rd by (simp add: cs_def filter_enc_list)
  have mod: "length (enc_chars bs) mod 4 = 0" by (simp add: length_enc_chars)
  have dq: "length (dec_quads (enc_chars bs)) = 3 * ((n + 2) div 3)"
    using length_dec_quads [of "enc_chars bs"] bs by (simp add: length_enc_chars)
  have "disjoint_blocks out (length cs) out2 (length (dec_quads (enc_chars bs)))"
    unfolding dq using assms(7) cs by (auto simp: disjoint_blocks_def)
  from base64_decode_list [OF assms(4,3) _ ks this] cs mod
  have dec: "base64_decode out len out2 dt m1 = (1, Some (int (length (dec_quads (enc_chars bs)))
      - int (enc_pad bs)), mwrite m1 out2 (dec_quads (enc_chars bs)))"
    unfolding enc(2) by (simp add: pad_of_enc_chars)
  have "mread m2 out2 n = take n (mread m2 out2 (n + enc_pad bs))"
    by (simp add: take_mread)
  also have "mread m2 out2 (n + enc_pad bs) = bs @ replicate (enc_pad bs) 0"
    using dec assms(9) bs by (simp add: dec_enc_chars mread_mwrite_same)
  finally have "mread m2 out2 n = bs" using bs by simp
  then show ?thesis using enc dec assms(9) bs by (simp add: dec_enc_chars bs_def)
qed

definition b64_ex_mem :: mem where
  "b64_ex_mem = (\<lambda>x. of_nat (x + 150))"

theorem base64_decode_encode_witness:
  "case base64_encode 100 4 True 200 b64_ex_mem of (ret, Some len, m1) \<Rightarrow>
     (case base64_decode 200 len 300 1 m1 of (ret2, ol2, m2) \<Rightarrow>
        ret = 1 \<and> len = 9 \<and> ret2 = 1 \<and> ol2 = Some 4 \<and> mread m2 300 4 = [250, 251, 252, 253])
   | _ \<Rightarrow> False"
proof -
  have e: "base64_encode 100 (int 4) True 200 b64_ex_mem
    = (1, Some (int 9), mwrite b64_ex_mem 200 (enc_list 0 [250, 251, 252, 253] @ [0]))"
  proof -
    have "mread b64_ex_mem 100 4 = [250, 251, 252, 253]" by code_simp
    moreover have "length (enc_list 0 [250, 251, 252, 253]) = 9" by code_simp
    ultimately show ?thesis
      using base64_encode_list [of 200 "[250, 251, 252, 253]" b64_ex_mem 100 4 _ True]
      by (simp add: disjoint_blocks_def)
  qed
  obtain ret2 ol2 m2 where d: "base64_decode 200 (int 9) 300 1
      (mwrite b64_ex_mem 200 (enc_list 0 [250, 251, 252, 253] @ [0])) = (ret2, ol2, m2)"
    by (metis prod_cases3)
  have "unat (base64_calc_encode_length (of_nat 4)) = 10" "mread b64_ex_mem 100 4 = [250, 251, 252, 253]"
    by code_simp+
  then show ?thesis
    using base64_decode_encode [OF _ _ _ _ refl _ _ e d] e d by (simp add: disjoint_blocks_def)
qed

text \<open>A line holds at most 72 characters; \<open>k\<close> characters of the current line went before.\<close>

fun lines_short :: "nat \<Rightarrow> u8 list \<Rightarrow> bool" where
  "lines_short k [] = True"
| "lines_short k (c # cs) = (if c = 10 then lines_short 0 cs else k < 72 \<and> lines_short (Suc k) cs)"

lemma lines_short_append:
  "\<lbrakk>10 \<notin> set xs; k + length xs \<le> 72\<rbrakk> \<Longrightarrow> lines_short k (xs @ ys) = lines_short (k + length xs) ys"
  by (induction xs arbitrary: k) auto

lemma quad_no_nl: "10 \<notin> set (quad_chars a b c)"
  using quad_small [of a b c] sextet_chars(3) by (auto simp: quad_chars_def)

lemma lines_short_enc: "\<lbrakk>l mod 4 = 0; l < 72\<rbrakk> \<Longrightarrow> lines_short l (enc_list l bs)"
proof (induction l bs rule: enc_list.induct)
  case (1 l a b c xs)
  have l: "l + 4 \<le> 72" using 1(3,4) by (elim mod_0_imp_dvd [THEN dvdE]) simp
  then show ?case using 1 quad_no_nl by (auto simp: lines_short_append)
next
  case (2 l a b)
  have l: "l + 4 \<le> 72" using 2 by (elim mod_0_imp_dvd [THEN dvdE]) simp
  have "10 \<notin> set (take 3 (quad_chars a b 0))" using quad_no_nl in_set_takeD by fast
  then show ?case using l lines_short_append [of "take 3 (quad_chars a b 0)" l "[61, 10]"] by simp
next
  case (3 l a)
  have l: "l + 4 \<le> 72" using 3 by (elim mod_0_imp_dvd [THEN dvdE]) simp
  have "10 \<notin> set (take 2 (quad_chars a 0 0))" using quad_no_nl in_set_takeD by fast
  then show ?case using l lines_short_append [of "take 2 (quad_chars a 0 0)" l "[61, 61, 10]"] by simp
qed simp

text \<open>C34: The encoder stays inside the buffer its caller allocates: for \<open>n < 2 ^ 30\<close> bytes it writes
  the characters it reports and a terminating zero, together at most
  \<open>base64_calc_encode_length n\<close> bytes and nothing else, and no line has more than 72 characters.\<close>

theorem base64_encode_fits:
  assumes "n < 1073741824" and "out \<noteq> 0" and "E = unat (base64_calc_encode_length (of_nat n))"
    and "disjoint_blocks src n out E" and "base64_encode src (int n) True out m = (ret, Some len, m1)"
  shows "ret = 1 \<and> 0 \<le> len \<and> len + 1 \<le> int E \<and> m1 (out + nat len) = 0
    \<and> lines_short 0 (mread m1 out (nat len))
    \<and> (\<forall>x. x < out \<or> out + E \<le> x \<longrightarrow> m1 x = m x)"
proof -
  define bs where "bs = mread m src n"
  define cs where "cs = enc_list 0 bs"
  have bs: "length bs = n" by (simp add: bs_def)
  have cs: "length cs < E" using enc_list_fits(1) [OF assms(1) bs] assms(3) by (simp add: cs_def)
  have "disjoint_blocks src n out (length cs)" using assms(4) cs by (auto simp: disjoint_blocks_def)
  from base64_encode_list [OF assms(2) bs_def cs_def this, of True] assms(5)
  have enc: "ret = 1" "len = int (length cs)" "m1 = mwrite m out (cs @ [0])" by simp_all
  have "mread m1 out (length cs) = cs"
    unfolding enc(3) mwrite_append [of m out cs "[0]", symmetric]
    by (simp add: mread_mwrite_disjoint mread_mwrite_same)
  then have "lines_short 0 (mread m1 out (length cs))" by (simp add: cs_def lines_short_enc)
  moreover have "m1 x = m x" if "x < out \<or> out + E \<le> x" for x
    unfolding enc(3) using that cs by (intro mwrite_outside) auto
  ultimately show ?thesis using enc cs by (simp add: mwrite_def nth_append)
qed

theorem base64_encode_fits_witness:
  "case base64_encode 100 1 True 200 b64_ex_mem of (ret, Some len, m1) \<Rightarrow>
     ret = 1 \<and> len + 1 \<le> 6 \<and> m1 (200 + nat len) = 0 \<and> (\<forall>x. x < 200 \<or> 206 \<le> x \<longrightarrow> m1 x = b64_ex_mem x)
   | _ \<Rightarrow> False"
proof -
  have E: "6 = unat (base64_calc_encode_length (of_nat 1))" by code_simp
  obtain len m1 where e: "base64_encode 100 (int 1) True 200 b64_ex_mem = (1, Some len, m1)"
  proof -
    have "mread b64_ex_mem 100 1 = [250]" "length (enc_list 0 [250]) = 5" by code_simp+
    then show thesis
      using that base64_encode_list [of 200 "[250]" b64_ex_mem 100 1 _ True] by (simp add: disjoint_blocks_def)
  qed
  show ?thesis using base64_encode_fits [OF _ _ E _ e] e by (simp add: disjoint_blocks_def)
qed

text \<open>From \<open>2 ^ 30\<close> bytes on the computed length wraps: for \<open>2 ^ 30\<close> bytes it is 5.\<close>

theorem base64_calc_encode_length_wraps: "base64_calc_encode_length 0x40000000 = 5"
  by code_simp

end
