(* ===== verification/Byte_Order.thy ===== *)
theory Byte_Order
  imports Bk_Prelude
begin

text \<open>
  Words in memory: the bytes of a 32-bit word in the order of the little endian core, and the conversions
  between host and network order of \<^verbatim>\<open>lwip/src/core/def.c\<close>, which reverse them. Shared by the flash
  controller, the parameter store and the DHCP server.
\<close>

section \<open>Words and bytes, little endian\<close>

definition word_bytes :: "u32 \<Rightarrow> u8 list" where
  "word_bytes w = [ucast w, ucast (drop_bit 8 w), ucast (drop_bit 16 w), ucast (drop_bit 24 w)]"

definition bytes_word :: "u8 \<Rightarrow> u8 \<Rightarrow> u8 \<Rightarrow> u8 \<Rightarrow> u32" where
  "bytes_word a b c d = ucast a OR push_bit 8 (ucast b) OR push_bit 16 (ucast c) OR push_bit 24 (ucast d)"

lemma length_word_bytes [simp]: "length (word_bytes w) = 4"
  by (simp add: word_bytes_def)

lemma word_bytes_word [simp]: "word_bytes (bytes_word a b c d) = [a, b, c, d]"
proof -
  have eq: "x = y" if "\<And>n. n < 8 \<Longrightarrow> bit x n = bit y n" for x y :: u8
    using that by (intro bit_word_eqI) simp
  have high: "\<not> bit x n" if "8 \<le> n" for x :: u8 and n
    using bit_imp_le_length [of x n] that by auto
  show ?thesis unfolding word_bytes_def bytes_word_def list.inject
    by (intro conjI eq refl; simp add: bit_simps high)
qed

text \<open>A property of the bits of a word, one byte at a time.\<close>

lemma u32_byte_cases:
  fixes n :: nat
  assumes "n < 32"
  obtains "n < 8" | "8 \<le> n" "n < 16" | "16 \<le> n" "n < 24" | "24 \<le> n" "n < 32"
  using assms by fastforce

lemma bytes_word_bytes:
  "bytes_word (ucast w) (ucast (drop_bit 8 w)) (ucast (drop_bit 16 w)) (ucast (drop_bit 24 w)) = w"
proof (rule bit_word_eqI)
  fix n assume "n < LENGTH(32)"
  then have "n < 32" by simp
  then show "bit (bytes_word (ucast w) (ucast (drop_bit 8 w)) (ucast (drop_bit 16 w)) (ucast (drop_bit 24 w))) n = bit w n"
    by (cases rule: u32_byte_cases) (auto simp: bytes_word_def bit_simps)
qed

section \<open>Network order\<close>

definition lwip_htonl :: "u32 \<Rightarrow> u32" where
  "lwip_htonl x = push_bit 24 (x AND 0x000000FF) OR push_bit 8 (x AND 0x0000FF00)
     OR drop_bit 8 (x AND 0x00FF0000) OR drop_bit 24 (x AND 0xFF000000)"

abbreviation (input) htonl :: "u32 \<Rightarrow> u32" where "htonl \<equiv> lwip_htonl"
abbreviation (input) ntohl :: "u32 \<Rightarrow> u32" where "ntohl \<equiv> lwip_htonl"

definition lwip_htons :: "u16 \<Rightarrow> u16" where
  "lwip_htons x = push_bit 8 (x AND 0x00FF) OR drop_bit 8 (x AND 0xFF00)"

abbreviation (input) htons :: "u16 \<Rightarrow> u16" where "htons \<equiv> lwip_htons"
abbreviation (input) ntohs :: "u16 \<Rightarrow> u16" where "ntohs \<equiv> lwip_htons"

text \<open>The conversion moves the byte of each bit to the mirrored place.\<close>

definition mirrored :: "nat \<Rightarrow> nat" where
  "mirrored n = (if n < 8 then 24 + n else if n < 16 then 8 + n else if n < 24 then n - 8 else n - 24)"

lemma htonl_as_masks:
  "lwip_htonl x = push_bit 24 (x AND mask 8) OR push_bit 8 (x AND push_bit 8 (mask 8))
     OR drop_bit 8 (x AND push_bit 16 (mask 8)) OR drop_bit 24 (x AND push_bit 24 (mask 8))"
proof -
  have "mask 8 = (0xFF :: u32)" "push_bit 8 (mask 8) = (0xFF00 :: u32)"
    "push_bit 16 (mask 8) = (0xFF0000 :: u32)" "push_bit 24 (mask 8) = (0xFF000000 :: u32)"
    by (simp_all add: mask_eq_exp_minus_1)
  then show ?thesis by (simp add: lwip_htonl_def)
qed

lemma bit_htonl [bit_simps]: "bit (lwip_htonl x) n \<longleftrightarrow> n < 32 \<and> bit x (mirrored n)"
proof (cases "n < 32")
  case True
  then show ?thesis
    by (cases rule: u32_byte_cases) (auto simp: htonl_as_masks mirrored_def bit_simps)
next
  case False
  then show ?thesis using bit_imp_le_length [of "lwip_htonl x" n] by auto
qed

lemma mirrored_less: "n < 32 \<Longrightarrow> mirrored n < 32" and mirrored_mirrored: "n < 32 \<Longrightarrow> mirrored (mirrored n) = n"
  by (auto simp: mirrored_def)

lemma htonl_htonl [simp]: "lwip_htonl (lwip_htonl x) = x"
  by (rule bit_word_eqI) (simp add: bit_htonl mirrored_less mirrored_mirrored)

lemma htonl_inject [simp]: "lwip_htonl x = lwip_htonl y \<longleftrightarrow> x = y"
  by (metis htonl_htonl)

lemma htonl_0 [simp]: "lwip_htonl 0 = 0"
  by (simp add: lwip_htonl_def)

lemma htonl_and: "lwip_htonl (x AND y) = lwip_htonl x AND lwip_htonl y"
  by (rule bit_word_eqI) (auto simp: bit_htonl bit_and_iff)

lemma htonl_or: "lwip_htonl (x OR y) = lwip_htonl x OR lwip_htonl y"
  by (rule bit_word_eqI) (auto simp: bit_htonl bit_or_iff)

lemma htonl_not: "lwip_htonl (NOT x) = NOT (lwip_htonl x)"
  by (rule bit_word_eqI) (auto simp: bit_htonl bit_not_iff mirrored_less)

lemma htonl_eq_iff: "lwip_htonl x = y \<longleftrightarrow> x = lwip_htonl y"
  by (metis htonl_htonl)

text \<open>The same for 16 bits.\<close>

lemma bit_htons [bit_simps]: "bit (lwip_htons x) n \<longleftrightarrow> n < 16 \<and> bit x (if n < 8 then 8 + n else n - 8)"
proof -
  have m: "mask 8 = (0xFF :: u16)" "push_bit 8 (mask 8) = (0xFF00 :: u16)" by (simp_all add: mask_eq_exp_minus_1)
  have e: "lwip_htons x = push_bit 8 (x AND mask 8) OR drop_bit 8 (x AND push_bit 8 (mask 8))"
    by (simp add: lwip_htons_def m)
  have "\<not> bit (lwip_htons x) n" if "16 \<le> n" using bit_imp_le_length [of "lwip_htons x" n] that by auto
  moreover have "bit (lwip_htons x) n \<longleftrightarrow> bit x (if n < 8 then 8 + n else n - 8)" if "n < 16"
    using that by (auto simp: e bit_simps)
  ultimately show ?thesis by (cases "n < 16") auto
qed

lemma htons_eq_0 [simp]: "lwip_htons x = 0 \<longleftrightarrow> x = 0"
proof
  assume z: "lwip_htons x = 0"
  show "x = 0"
  proof (rule bit_word_eqI)
    fix n assume "n < LENGTH(16)"
    moreover have "bit (lwip_htons x) (if n < 8 then 8 + n else n - 8) = bit (0 :: u16) (if n < 8 then 8 + n else n - 8)"
      using z by simp
    ultimately show "bit x n = bit (0 :: u16) n" by (auto simp: bit_htons split: if_splits)
  qed
qed (simp add: lwip_htons_def)

end
