(* ===== verification/Nor_Flash.thy ===== *)
theory Nor_Flash
  imports Byte_Order "HOL-Library.Monad_Syntax"
begin

text \<open>
  The flash controller as the flash driver sees it. The registers of \<^verbatim>\<open>driver/flash/flash.h\<close> have side
  effects on reads (the data register delivers the next word of a page) and on writes (the operation
  register starts a command), so the device is a parameter of the driver: \<open>flash_io\<close> is what a register
  read and a register write do to a device state of any type.

  The locale \<open>nor_controller\<close> states what the driver relies on: a command leaves the busy bit set for a
  finite number of polls, and the commands are those of a serial NOR flash. \<open>nor_view\<close> is what can be
  observed of the device, \<open>nor_exec\<close> the effect of a command on it: programming can only clear bits,
  erasing a sector sets all of its bits, and neither changes a protected cell. \<open>nor_sim\<close> is a
  simulator of such a device, which shows that the laws can hold.
\<close>

section \<open>Registers and commands\<close>

record 'f flash_io =
  fio_read :: "u32 \<Rightarrow> 'f \<Rightarrow> u32 \<times> 'f"
  fio_write :: "u32 \<Rightarrow> u32 \<Rightarrow> 'f \<Rightarrow> 'f"

definition FLASH_BASE :: u32 where "FLASH_BASE = 0x00803000"
definition REG_FLASH_OPERATE_SW :: u32 where "REG_FLASH_OPERATE_SW = FLASH_BASE + 0 * 4"
definition REG_FLASH_DATA_SW_FLASH :: u32 where "REG_FLASH_DATA_SW_FLASH = FLASH_BASE + 1 * 4"
definition REG_FLASH_DATA_FLASH_SW :: u32 where "REG_FLASH_DATA_FLASH_SW = FLASH_BASE + 2 * 4"
definition REG_FLASH_RDID_DATA_FLASH :: u32 where "REG_FLASH_RDID_DATA_FLASH = FLASH_BASE + 4 * 4"
definition REG_FLASH_SR_DATA_CRC_CNT :: u32 where "REG_FLASH_SR_DATA_CRC_CNT = FLASH_BASE + 5 * 4"
definition REG_FLASH_CONF :: u32 where "REG_FLASH_CONF = FLASH_BASE + 7 * 4"

lemmas flash_regs = FLASH_BASE_def REG_FLASH_OPERATE_SW_def REG_FLASH_DATA_SW_FLASH_def
  REG_FLASH_DATA_FLASH_SW_def REG_FLASH_RDID_DATA_FLASH_def REG_FLASH_SR_DATA_CRC_CNT_def REG_FLASH_CONF_def

definition OP_SW :: u32 where "OP_SW = push_bit 29 1"
definition WP_VALUE :: u32 where "WP_VALUE = push_bit 30 1"
definition BUSY_SW :: u32 where "BUSY_SW = push_bit 31 1"
definition ADDR_SW_REG_MASK :: u32 where "ADDR_SW_REG_MASK = 0x00FFFFFF"
definition WRSR_DATA_MASK :: u32 where "WRSR_DATA_MASK = 0x00FFFF"
definition MODEL_SEL_MASK :: u32 where "MODEL_SEL_MASK = 0x1F"
definition FLASH_CLK_CONF_MASK :: u32 where "FLASH_CLK_CONF_MASK = 0x0F"
definition M_VALUE_MASK :: u32 where "M_VALUE_MASK = 0xFF"

datatype flash_opcode = FLASH_OPCODE_WREN | FLASH_OPCODE_WRDI | FLASH_OPCODE_RDSR | FLASH_OPCODE_WRSR
  | FLASH_OPCODE_READ | FLASH_OPCODE_RDSR2 | FLASH_OPCODE_WRSR2 | FLASH_OPCODE_PP | FLASH_OPCODE_SE
  | FLASH_OPCODE_BE1 | FLASH_OPCODE_BE2 | FLASH_OPCODE_CE | FLASH_OPCODE_DP | FLASH_OPCODE_RFDP
  | FLASH_OPCODE_RDID | FLASH_OPCODE_HPM | FLASH_OPCODE_CRMR | FLASH_OPCODE_CRMR2

fun opcode :: "flash_opcode \<Rightarrow> u32" where
  "opcode FLASH_OPCODE_WREN = 1" | "opcode FLASH_OPCODE_WRDI = 2" | "opcode FLASH_OPCODE_RDSR = 3"
| "opcode FLASH_OPCODE_WRSR = 4" | "opcode FLASH_OPCODE_READ = 5" | "opcode FLASH_OPCODE_RDSR2 = 6"
| "opcode FLASH_OPCODE_WRSR2 = 7" | "opcode FLASH_OPCODE_PP = 12" | "opcode FLASH_OPCODE_SE = 13"
| "opcode FLASH_OPCODE_BE1 = 14" | "opcode FLASH_OPCODE_BE2 = 15" | "opcode FLASH_OPCODE_CE = 16"
| "opcode FLASH_OPCODE_DP = 17" | "opcode FLASH_OPCODE_RFDP = 18" | "opcode FLASH_OPCODE_RDID = 20"
| "opcode FLASH_OPCODE_HPM = 21" | "opcode FLASH_OPCODE_CRMR = 22" | "opcode FLASH_OPCODE_CRMR2 = 23"

text \<open>\<open>opcode << OP_TYPE_SW_POSI\<close>\<close>

definition op_type :: "flash_opcode \<Rightarrow> u32" where
  "op_type c = push_bit 24 (opcode c)"

section \<open>What a NOR flash does\<close>

record nor_view =
  n_cell :: "u32 \<Rightarrow> u8"
  n_sr :: u16
  n_conf :: u32
  n_sreg :: u32
  n_rx :: "u32 list"
  n_tx :: "u32 list"
  n_jedec :: u32

definition words_bytes :: "u32 list \<Rightarrow> u8 list" where
  "words_bytes ws = concat (map word_bytes ws)"

text \<open>The eight words of the 32-byte page at \<open>a\<close>.\<close>

definition page_words :: "(u32 \<Rightarrow> u8) \<Rightarrow> u32 \<Rightarrow> u32 list" where
  "page_words cell a = map (\<lambda>i. let p = (a AND NOT 0x1F) + of_nat (4 * i)
    in bytes_word (cell p) (cell (p + 1)) (cell (p + 2)) (cell (p + 3))) [0..<8]"

definition program_page :: "(u32 \<Rightarrow> bool) \<Rightarrow> u32 \<Rightarrow> u8 list \<Rightarrow> (u32 \<Rightarrow> u8) \<Rightarrow> u32 \<Rightarrow> u8" where
  "program_page locked a bs cell =
    (\<lambda>x. if x AND NOT 0x1F = a AND NOT 0x1F \<and> unat (x AND 0x1F) < length bs \<and> \<not> locked x
         then cell x AND bs ! unat (x AND 0x1F) else cell x)"

definition erase_sector :: "(u32 \<Rightarrow> bool) \<Rightarrow> u32 \<Rightarrow> (u32 \<Rightarrow> u8) \<Rightarrow> u32 \<Rightarrow> u8" where
  "erase_sector locked a cell =
    (\<lambda>x. if x AND NOT 0xFFF = a AND NOT 0xFFF \<and> \<not> locked x then 0xFF else cell x)"

text \<open>A command word: the opcode in bits 24 to 28, the address below. \<open>prot sr\<close> is the set of cells that the
  chip protects under the status \<open>sr\<close>.\<close>

definition cmd_of :: "u32 \<Rightarrow> u32" where
  "cmd_of v = drop_bit 24 v AND 0x1F"

definition addr_of :: "u32 \<Rightarrow> u32" where
  "addr_of v = v AND 0x00FFFFFF"

definition nor_exec :: "(u16 \<Rightarrow> u32 \<Rightarrow> bool) \<Rightarrow> u32 \<Rightarrow> u32 \<Rightarrow> nor_view \<Rightarrow> nor_view" where
  "nor_exec prot cmd a n =
    (if cmd = opcode FLASH_OPCODE_RDSR
     then n\<lparr>n_sreg := (n_sreg n AND NOT 0xFF) OR (ucast (n_sr n) AND 0xFF)\<rparr>
     else if cmd = opcode FLASH_OPCODE_RDSR2
     then n\<lparr>n_sreg := (n_sreg n AND NOT 0xFF) OR (drop_bit 8 (ucast (n_sr n)))\<rparr>
     else if cmd = opcode FLASH_OPCODE_WRSR
     then n\<lparr>n_sr := (n_sr n AND 0xFF00) OR (ucast (drop_bit 10 (n_conf n)) AND 0xFF)\<rparr>
     else if cmd = opcode FLASH_OPCODE_WRSR2 then n\<lparr>n_sr := ucast (drop_bit 10 (n_conf n))\<rparr>
     else if cmd = opcode FLASH_OPCODE_READ then n\<lparr>n_rx := page_words (n_cell n) a\<rparr>
     else if cmd = opcode FLASH_OPCODE_PP
     then n\<lparr>n_cell := program_page (prot (n_sr n)) a (words_bytes (n_tx n)) (n_cell n), n_tx := []\<rparr>
     else if cmd = opcode FLASH_OPCODE_SE then n\<lparr>n_cell := erase_sector (prot (n_sr n)) a (n_cell n)\<rparr>
     else n)"

text \<open>The block and chip erase commands are not among the ones described: the driver never issues them.\<close>

definition nor_known :: "u32 \<Rightarrow> bool" where
  "nor_known v \<longleftrightarrow> cmd_of v \<in> set (map opcode
    [FLASH_OPCODE_WREN, FLASH_OPCODE_WRDI, FLASH_OPCODE_RDSR, FLASH_OPCODE_WRSR, FLASH_OPCODE_READ,
     FLASH_OPCODE_RDSR2, FLASH_OPCODE_WRSR2, FLASH_OPCODE_PP, FLASH_OPCODE_SE, FLASH_OPCODE_RDID,
     FLASH_OPCODE_HPM, FLASH_OPCODE_CRMR])"

section \<open>The interface\<close>

locale nor_controller =
  fixes io :: "'f flash_io"
    and ok :: "'f \<Rightarrow> bool"
    and busy :: "'f \<Rightarrow> nat"
    and view :: "'f \<Rightarrow> nor_view"
    and prot :: "u16 \<Rightarrow> u32 \<Rightarrow> bool"
  assumes poll: "\<lbrakk>ok d; fio_read io REG_FLASH_OPERATE_SW d = (v, d')\<rbrakk> \<Longrightarrow>
      ok d' \<and> view d' = view d \<and> busy d' = busy d - 1 \<and> (v AND BUSY_SW \<noteq> 0 \<longleftrightarrow> 0 < busy d)"
    and command: "\<lbrakk>ok d; busy d = 0; v AND OP_SW \<noteq> 0; nor_known v\<rbrakk> \<Longrightarrow>
      ok (fio_write io REG_FLASH_OPERATE_SW v d)
      \<and> view (fio_write io REG_FLASH_OPERATE_SW v d) = nor_exec prot (cmd_of v) (addr_of v) (view d)"
    and data_out: "\<lbrakk>ok d; busy d = 0; n_rx (view d) = x # xs; fio_read io REG_FLASH_DATA_FLASH_SW d = (v, d')\<rbrakk>
      \<Longrightarrow> v = x \<and> ok d' \<and> busy d' = 0 \<and> view d' = (view d)\<lparr>n_rx := xs\<rparr>"
    and data_in: "\<lbrakk>ok d; busy d = 0; d' = fio_write io REG_FLASH_DATA_SW_FLASH v d\<rbrakk> \<Longrightarrow>
      ok d' \<and> busy d' = 0 \<and> view d' = (view d)\<lparr>n_tx := n_tx (view d) @ [v]\<rparr>"
    and conf_read: "\<lbrakk>ok d; busy d = 0; fio_read io REG_FLASH_CONF d = (v, d')\<rbrakk> \<Longrightarrow>
      v = n_conf (view d) \<and> ok d' \<and> busy d' = 0 \<and> view d' = view d"
    and conf_write: "\<lbrakk>ok d; busy d = 0; d' = fio_write io REG_FLASH_CONF v d\<rbrakk> \<Longrightarrow>
      ok d' \<and> busy d' = 0 \<and> view d' = (view d)\<lparr>n_conf := v\<rparr>"
    and sreg_read: "\<lbrakk>ok d; busy d = 0; fio_read io REG_FLASH_SR_DATA_CRC_CNT d = (v, d')\<rbrakk> \<Longrightarrow>
      v = n_sreg (view d) \<and> ok d' \<and> busy d' = 0 \<and> view d' = view d"
    and sreg_write: "\<lbrakk>ok d; busy d = 0; d' = fio_write io REG_FLASH_SR_DATA_CRC_CNT v d\<rbrakk> \<Longrightarrow>
      ok d' \<and> busy d' = 0 \<and> view d' = (view d)\<lparr>n_sreg := v\<rparr>"
    and id_read: "\<lbrakk>ok d; busy d = 0; fio_read io REG_FLASH_RDID_DATA_FLASH d = (v, d')\<rbrakk> \<Longrightarrow>
      v = n_jedec (view d) \<and> ok d' \<and> busy d' = 0 \<and> view d' = view d"

section \<open>A simulator\<close>

record nor_dev =
  sim_view :: nor_view
  sim_busy :: nat

definition sim_upd :: "(nor_view \<Rightarrow> nor_view) \<Rightarrow> nor_dev \<Rightarrow> nor_dev" where
  "sim_upd f d = d\<lparr>sim_view := f (sim_view d)\<rparr>"

definition nor_sim :: "(u16 \<Rightarrow> u32 \<Rightarrow> bool) \<Rightarrow> nor_dev flash_io" where
  "nor_sim prot = \<lparr>
    fio_read = (\<lambda>a d.
      if a = REG_FLASH_OPERATE_SW
      then (if 0 < sim_busy d then BUSY_SW OR WP_VALUE else WP_VALUE, d\<lparr>sim_busy := sim_busy d - 1\<rparr>)
      else if a = REG_FLASH_DATA_FLASH_SW
      then (case n_rx (sim_view d) of [] \<Rightarrow> (0, d) | x # xs \<Rightarrow> (x, sim_upd (n_rx_update (\<lambda>_. xs)) d))
      else if a = REG_FLASH_CONF then (n_conf (sim_view d), d)
      else if a = REG_FLASH_SR_DATA_CRC_CNT then (n_sreg (sim_view d), d)
      else if a = REG_FLASH_RDID_DATA_FLASH then (n_jedec (sim_view d), d)
      else (0, d)),
    fio_write = (\<lambda>a v d.
      if a = REG_FLASH_OPERATE_SW
      then (if v AND OP_SW \<noteq> 0 \<and> sim_busy d = 0
            then (sim_upd (nor_exec prot (cmd_of v) (addr_of v)) d)\<lparr>sim_busy := 2\<rparr> else d)
      else if a = REG_FLASH_DATA_SW_FLASH then sim_upd (\<lambda>n. n\<lparr>n_tx := n_tx n @ [v]\<rparr>) d
      else if a = REG_FLASH_CONF then sim_upd (n_conf_update (\<lambda>_. v)) d
      else if a = REG_FLASH_SR_DATA_CRC_CNT then sim_upd (n_sreg_update (\<lambda>_. v)) d
      else d)\<rparr>"

interpretation sim: nor_controller "nor_sim prot" "\<lambda>_. True" sim_busy sim_view prot for prot
  by unfold_locales (auto simp: nor_sim_def sim_upd_def flash_regs BUSY_SW_def WP_VALUE_def)

end
