(* ===== verification/Flash.thy ===== *)
theory Flash
  imports Nor_Flash Soc_World
begin

text \<open>
  The flash driver, \<^verbatim>\<open>beken378/driver/flash/flash.c\<close>: chip configuration by identifier, status register
  and write protection, line modes, sector erase, reading and programming in pages of 32 bytes, and
  the operations of the device \<open>flash\<close>. The functions act on the controller through \<open>flash_io\<close>
  (theory \<open>Nor_Flash\<close>); those that poll are partial: a controller that stays busy makes them run for
  ever, which is \<open>None\<close> below and the fault \<open>Spins\<close> in the device operations.

  Local arrays are lists: \<open>flash_read_data\<close> returns the bytes that the code stores through \<open>buffer\<close>, in
  order, and \<open>flash_write_data\<close> takes the memory it reads them from.
\<close>

section \<open>Chips\<close>

record flash_config_t =
  fc_flash_id :: u32
  fc_sr_size :: u8
  fc_flash_size :: u32
  fc_line_mode :: u8
  fc_cmp_post :: u8
  fc_protect_post :: u8
  fc_protect_mask :: u8
  fc_protect_all :: u16
  fc_protect_none :: u16
  fc_protect_half :: u16
  fc_unprotect_last_block :: u16
  fc_qe_bit_post :: u8
  fc_qe_bit :: u8
  fc_m_value :: u8
  fc_mode_sel :: u8

definition chip :: "u32 \<Rightarrow> u8 \<Rightarrow> u32 \<Rightarrow> u8 \<Rightarrow> u8 \<Rightarrow> u8 \<Rightarrow> u8 \<Rightarrow> u16 \<Rightarrow> u16 \<Rightarrow> u16 \<Rightarrow> u16 \<Rightarrow> u8 \<Rightarrow> u8 \<Rightarrow> u8 \<Rightarrow> u8
    \<Rightarrow> flash_config_t" where
  "chip a b c d e f g h i j k l m n p = \<lparr>fc_flash_id = a, fc_sr_size = b, fc_flash_size = c,
    fc_line_mode = d, fc_cmp_post = e, fc_protect_post = f, fc_protect_mask = g, fc_protect_all = h,
    fc_protect_none = i, fc_protect_half = j, fc_unprotect_last_block = k, fc_qe_bit_post = l,
    fc_qe_bit = m, fc_m_value = n, fc_mode_sel = p\<rparr>"

definition flash_config :: "flash_config_t list" where
  "flash_config = [
    chip 0x1C7016 1 0x400000 2  0 2 0x1F 0x1F 0x00 0x16 0x01B 0 0 0xA5 0x01,
    chip 0x1C7015 1 0x200000 2  0 2 0x1F 0x1F 0x00 0x0d 0x0d  0 0 0xA5 0x01,
    chip 0x0B4014 2 0x100000 2 14 2 0x1F 0x1F 0x00 0x0C 0x101 9 1 0xA0 0x01,
    chip 0x0B4015 2 0x200000 2 14 2 0x1F 0x1F 0x00 0x0D 0x101 9 1 0xA0 0x01,
    chip 0x0B4016 2 0x400000 2 14 2 0x1F 0x1F 0x00 0x0E 0x101 9 1 0xA0 0x01,
    chip 0x0B4017 2 0x800000 2 14 2 0x1F 0x05 0x00 0x0E 0x109 9 1 0xA0 0x01,
    chip 0x0E4016 2 0x400000 2 14 2 0x1F 0x1F 0x00 0x0E 0x101 9 1 0xA0 0x01,
    chip 0xC84015 2 0x200000 2 14 2 0x1F 0x1F 0x00 0x0D 0x101 9 1 0xA0 0x01,
    chip 0xC84016 2 0x400000 2 14 2 0x1F 0x1F 0x00 0x0E 0x101 9 1 0xA0 0x01,
    chip 0xEF4016 2 0x400000 2 14 2 0x1F 0x1F 0x00 0x00 0x101 9 1 0xA0 0x01,
    chip 0x204016 2 0x400000 2 14 2 0x1F 0x1F 0x00 0x0E 0x101 9 1 0xA0 0x01,
    chip 0xC22315 1 0x200000 2  0 2 0x0F 0x0F 0x00 0x0A 0x00E 6 1 0xA5 0x01,
    chip 0x000000 2 0x400000 2  0 2 0x1F 0x00 0x00 0x00 0x000 0 0 0x00 0x01]"

text \<open>The loop runs over all entries but the last, which is the default.\<close>

definition flash_get_current_flash_config :: "u32 \<Rightarrow> flash_config_t" where
  "flash_get_current_flash_config ident =
    (case find (\<lambda>c. ident = fc_flash_id c) (butlast flash_config) of
       Some c \<Rightarrow> c
     | None \<Rightarrow> last flash_config)"

section \<open>Commands\<close>

text \<open>\<open>while(REG_READ(REG_FLASH_OPERATE_SW) & BUSY_SW);\<close>\<close>

partial_function (option) fl_wait :: "'f flash_io \<Rightarrow> 'f \<Rightarrow> 'f option" where
  "fl_wait io d =
    (if fst (fio_read io REG_FLASH_OPERATE_SW d) AND BUSY_SW \<noteq> 0
     then fl_wait io (snd (fio_read io REG_FLASH_OPERATE_SW d))
     else Some (snd (fio_read io REG_FLASH_OPERATE_SW d)))"

text \<open>A command and the wait for its end.\<close>

definition fl_cmd :: "'f flash_io \<Rightarrow> u32 \<Rightarrow> 'f \<Rightarrow> 'f option" where
  "fl_cmd io v d = fl_wait io (fio_write io REG_FLASH_OPERATE_SW v d)"

text \<open>A command that keeps the write protect bit of the operation register, with an address.\<close>

definition fl_cmd_at :: "'f flash_io \<Rightarrow> u32 \<Rightarrow> flash_opcode \<Rightarrow> 'f \<Rightarrow> 'f option" where
  "fl_cmd_at io addr c d =
    (let (value, d) = fio_read io REG_FLASH_OPERATE_SW d
     in fl_cmd io (push_bit 0 addr OR op_type c OR OP_SW OR (value AND WP_VALUE)) d)"

definition flash_set_clk :: "'f flash_io \<Rightarrow> u8 \<Rightarrow> 'f \<Rightarrow> 'f" where
  "flash_set_clk io clk_conf d =
    (let (value, d) = fio_read io REG_FLASH_CONF d;
         value = value AND NOT (push_bit 0 FLASH_CLK_CONF_MASK);
         value = value OR push_bit 0 (ucast clk_conf)
     in fio_write io REG_FLASH_CONF value d)"

definition flash_write_enable :: "'f flash_io \<Rightarrow> 'f \<Rightarrow> 'f option" where
  "flash_write_enable io d = fl_cmd io (op_type FLASH_OPCODE_WREN OR OP_SW OR WP_VALUE) d"

definition flash_write_disable :: "'f flash_io \<Rightarrow> 'f \<Rightarrow> 'f option" where
  "flash_write_disable io d = fl_cmd io (op_type FLASH_OPCODE_WRDI OR OP_SW OR WP_VALUE) d"

definition flash_read_sr :: "'f flash_io \<Rightarrow> u8 \<Rightarrow> 'f \<Rightarrow> (u16 \<times> 'f) option" where
  "flash_read_sr io sr_width d = do {
     d \<leftarrow> fl_wait io d;
     d \<leftarrow> fl_cmd io (op_type FLASH_OPCODE_RDSR OR OP_SW OR WP_VALUE) d;
     let (value, d) = fio_read io REG_FLASH_SR_DATA_CRC_CNT d;
     let sr = (ucast (value AND 0x00FF) :: u16);
     if sr_width = 2 then do {
       d \<leftarrow> fl_cmd io (op_type FLASH_OPCODE_RDSR2 OR OP_SW OR WP_VALUE) d;
       let (value, d) = fio_read io REG_FLASH_SR_DATA_CRC_CNT d;
       Some (sr OR ucast (push_bit 8 (value AND 0x00FF)), d)
     } else Some (sr, d)
   }"

text \<open>The status data goes into bits 10 to 25 of the configuration register.\<close>

definition put_wrsr :: "'f flash_io \<Rightarrow> u32 \<Rightarrow> 'f \<Rightarrow> 'f" where
  "put_wrsr io val d =
    (let (value, d) = fio_read io REG_FLASH_CONF d;
         value = value AND NOT (push_bit 10 WRSR_DATA_MASK)
     in fio_write io REG_FLASH_CONF (value OR push_bit 10 val) d)"

definition flash_write_sr :: "'f flash_io \<Rightarrow> u8 \<Rightarrow> u16 \<Rightarrow> 'f \<Rightarrow> 'f option" where
  "flash_write_sr io sr_width val d = do {
     d \<leftarrow> fl_wait io d;
     d \<leftarrow> fl_wait io (put_wrsr io (ucast val) d);
     let d = (if sr_width = 1
              then fio_write io REG_FLASH_OPERATE_SW (op_type FLASH_OPCODE_WRSR OR OP_SW OR WP_VALUE) d
              else if sr_width = 2
              then fio_write io REG_FLASH_OPERATE_SW (op_type FLASH_OPCODE_WRSR2 OR OP_SW OR WP_VALUE) d
              else d);
     fl_wait io d
   }"

definition flash_read_qe :: "'f flash_io \<Rightarrow> flash_config_t \<Rightarrow> 'f \<Rightarrow> (u8 \<times> 'f) option" where
  "flash_read_qe io cfg d = do {
     d \<leftarrow> fl_cmd io (op_type (if fc_sr_size cfg = 1 then FLASH_OPCODE_RDSR else FLASH_OPCODE_RDSR2)
                     OR OP_SW OR WP_VALUE) d;
     let (value, d) = fio_read io REG_FLASH_SR_DATA_CRC_CNT d;
     Some (ucast (value AND 0xFF), d)
   }"

text \<open>A status write that keeps the address field of the operation register.\<close>

definition fl_cmd_keep :: "'f flash_io \<Rightarrow> flash_opcode \<Rightarrow> 'f \<Rightarrow> 'f option" where
  "fl_cmd_keep io c d =
    (let (value, d) = fio_read io REG_FLASH_OPERATE_SW d
     in fl_cmd io ((value AND push_bit 0 ADDR_SW_REG_MASK) OR op_type c OR OP_SW OR WP_VALUE) d)"

definition flash_set_qe :: "'f flash_io \<Rightarrow> flash_config_t \<Rightarrow> 'f \<Rightarrow> 'f option" where
  "flash_set_qe io cfg d = do {
     d \<leftarrow> fl_wait io d;
     (sr, d) \<leftarrow> flash_read_sr io (fc_sr_size cfg) d;
     let param = (ucast sr :: u32);
     let qe = push_bit (unat (fc_qe_bit_post cfg)) (ucast (fc_qe_bit cfg) :: u32);
     if param AND qe \<noteq> 0 then Some d
     else fl_cmd_keep io (if fc_sr_size cfg = 1 then FLASH_OPCODE_WRSR else FLASH_OPCODE_WRSR2)
            (put_wrsr io (qe OR param) d)
   }"

definition flash_set_qwfr :: "'f flash_io \<Rightarrow> flash_config_t \<Rightarrow> 'f \<Rightarrow> 'f" where
  "flash_set_qwfr io cfg d =
    (let (value, d) = fio_read io REG_FLASH_CONF d;
         value = value AND NOT (push_bit 4 MODEL_SEL_MASK)
     in fio_write io REG_FLASH_CONF (value OR push_bit 4 (ucast (fc_mode_sel cfg))) d)"

definition flash_clr_qwfr :: "'f flash_io \<Rightarrow> 'f \<Rightarrow> 'f option" where
  "flash_clr_qwfr io d =
    (let (value, d) = fio_read io REG_FLASH_CONF d;
         d = fio_write io REG_FLASH_CONF (value AND NOT (push_bit 4 MODEL_SEL_MASK)) d
     in fl_cmd_at io 0 FLASH_OPCODE_CRMR d)"

definition flash_set_wsr :: "'f flash_io \<Rightarrow> u16 \<Rightarrow> 'f \<Rightarrow> 'f option" where
  "flash_set_wsr io dat d = do {
     d \<leftarrow> fl_wait io d;
     fl_cmd_keep io FLASH_OPCODE_WRSR2 (put_wrsr io (ucast dat) d)
   }"

definition flash_set_line_mode :: "'f flash_io \<Rightarrow> flash_config_t \<Rightarrow> u8 \<Rightarrow> 'f \<Rightarrow> 'f option" where
  "flash_set_line_mode io cfg mode d =
    (if mode = 1 then flash_clr_qwfr io d
     else if mode = 2 then do {
       d \<leftarrow> flash_clr_qwfr io d;
       let (value, d) = fio_read io REG_FLASH_CONF d;
       let value = value AND NOT (push_bit 4 MODEL_SEL_MASK);
       Some (fio_write io REG_FLASH_CONF (value OR push_bit 4 (1 AND MODEL_SEL_MASK)) d)
     } else if mode = 4 then do {
       d \<leftarrow> flash_clr_qwfr io d;
       let (value, d) = fio_read io REG_FLASH_SR_DATA_CRC_CNT d;
       let value = value AND NOT (push_bit 22 M_VALUE_MASK);
       let d = fio_write io REG_FLASH_SR_DATA_CRC_CNT (value OR push_bit 22 (ucast (fc_m_value cfg))) d;
       let (value, d) = fio_read io REG_FLASH_SR_DATA_CRC_CNT d;
       d \<leftarrow> (if fc_qe_bit cfg = 1 then flash_set_qe io cfg d else Some d);
       Some (flash_set_qwfr io cfg d)
     } else Some d)"

definition flash_get_id :: "'f flash_io \<Rightarrow> 'f \<Rightarrow> (u32 \<times> 'f) option" where
  "flash_get_id io d = do {
     d \<leftarrow> fl_cmd io (op_type FLASH_OPCODE_RDID OR OP_SW OR WP_VALUE) d;
     Some (fio_read io REG_FLASH_RDID_DATA_FLASH d)
   }"

definition flash_read_mid :: "'f flash_io \<Rightarrow> 'f \<Rightarrow> (u32 \<times> 'f) option" where
  "flash_read_mid io d = do {
     d \<leftarrow> fl_wait io d;
     let (value, d) = fio_read io REG_FLASH_OPERATE_SW d;
     d \<leftarrow> fl_cmd io ((value AND push_bit 0 ADDR_SW_REG_MASK) OR op_type FLASH_OPCODE_RDID OR OP_SW
                      OR (value AND WP_VALUE)) d;
     Some (fio_read io REG_FLASH_RDID_DATA_FLASH d)
   }"

section \<open>Write protection\<close>

definition FLASH_PROTECT_NONE :: u32 where "FLASH_PROTECT_NONE = 0"
definition FLASH_PROTECT_ALL :: u32 where "FLASH_PROTECT_ALL = 1"
definition FLASH_PROTECT_HALF :: u32 where "FLASH_PROTECT_HALF = 2"
definition FLASH_UNPROTECT_LAST_BLOCK :: u32 where "FLASH_UNPROTECT_LAST_BLOCK = 3"

lemmas protect_types = FLASH_PROTECT_NONE_def FLASH_PROTECT_ALL_def FLASH_PROTECT_HALF_def
  FLASH_UNPROTECT_LAST_BLOCK_def

text \<open>The type read off a status value: the block protect bits and the complement bit, compared with the
  chip's four codes in the order of the code.\<close>

definition protect_of :: "flash_config_t \<Rightarrow> u16 \<Rightarrow> u32" where
  "protect_of cfg sr_value =
    (let param = drop_bit (unat (fc_protect_post cfg)) sr_value AND ucast (fc_protect_mask cfg);
         cmp = drop_bit (unat (fc_cmp_post cfg)) sr_value AND 0x01;
         value = push_bit 8 cmp OR param
     in if value = fc_protect_all cfg then FLASH_PROTECT_ALL
        else if value = fc_protect_none cfg then FLASH_PROTECT_NONE
        else if value = fc_protect_half cfg then FLASH_PROTECT_HALF
        else if value = fc_unprotect_last_block cfg then FLASH_UNPROTECT_LAST_BLOCK
        else 0xFFFF)"

definition get_flash_protect :: "'f flash_io \<Rightarrow> flash_config_t \<Rightarrow> 'f \<Rightarrow> (u32 \<times> 'f) option" where
  "get_flash_protect io cfg d =
    map_option (\<lambda>(sr_value, d). (protect_of cfg sr_value, d)) (flash_read_sr io (fc_sr_size cfg) d)"

definition protect_code :: "flash_config_t \<Rightarrow> u32 \<Rightarrow> u16" where
  "protect_code cfg ty =
    (if ty = FLASH_PROTECT_NONE then fc_protect_none cfg
     else if ty = FLASH_PROTECT_ALL then fc_protect_all cfg
     else if ty = FLASH_PROTECT_HALF then fc_protect_half cfg
     else if ty = FLASH_UNPROTECT_LAST_BLOCK then fc_unprotect_last_block cfg
     else fc_protect_all cfg)"

text \<open>The new status value, or \<open>None\<close> when the protection bits are already right.\<close>

definition protect_status :: "flash_config_t \<Rightarrow> u32 \<Rightarrow> u32 \<Rightarrow> u32 option" where
  "protect_status cfg ty value =
    (let param = ucast (protect_code cfg ty) AND 0xff;
         cmp = drop_bit 8 (ucast (protect_code cfg ty)) AND 0xff;
         pp = unat (fc_protect_post cfg); cp = unat (fc_cmp_post cfg);
         msk = push_bit pp (ucast (fc_protect_mask cfg))
     in if push_bit pp param \<noteq> value AND msk \<or> push_bit cp cmp \<noteq> value AND push_bit cp 1
        then Some ((((value AND NOT msk) OR push_bit pp param) AND NOT (push_bit cp 1))
                   OR push_bit cp (cmp AND 1))
        else None)"

definition set_flash_protect :: "'f flash_io \<Rightarrow> flash_config_t \<Rightarrow> u32 \<Rightarrow> 'f \<Rightarrow> 'f option" where
  "set_flash_protect io cfg ty d = do {
     (sr, d) \<leftarrow> flash_read_sr io (fc_sr_size cfg) d;
     (case protect_status cfg ty (ucast sr) of
        Some value \<Rightarrow> flash_write_sr io (fc_sr_size cfg) (ucast value) d
      | None \<Rightarrow> Some d)
   }"

definition flash_protection_op :: "'f flash_io \<Rightarrow> flash_config_t \<Rightarrow> u8 \<Rightarrow> u32 \<Rightarrow> 'f \<Rightarrow> 'f option" where
  "flash_protection_op io cfg mode ty d = set_flash_protect io cfg ty d"

section \<open>Erase, read and program\<close>

definition flash_erase_sector :: "'f flash_io \<Rightarrow> flash_config_t \<Rightarrow> u32 \<Rightarrow> 'f \<Rightarrow> 'f option" where
  "flash_erase_sector io cfg address d =
    (let erase_addr = address AND 0xFFF000 in
     if erase_addr \<ge> fc_flash_size cfg then Some d
     else do {
       d \<leftarrow> fl_wait io d;
       fl_cmd_at io erase_addr FLASH_OPCODE_SE d
     })"

definition flash_set_hpm :: "'f flash_io \<Rightarrow> 'f \<Rightarrow> 'f option" where
  "flash_set_hpm io d = do {
     d \<leftarrow> fl_wait io d;
     fl_cmd_at io 0 FLASH_OPCODE_HPM d
   }"

primrec fl_read_words :: "'f flash_io \<Rightarrow> nat \<Rightarrow> 'f \<Rightarrow> u32 list \<times> 'f" where
  "fl_read_words io 0 d = ([], d)"
| "fl_read_words io (Suc n) d =
    (let (v, d) = fio_read io REG_FLASH_DATA_FLASH_SW d; (vs, d) = fl_read_words io n d in (v # vs, d))"

text \<open>The bytes that one page contributes: from \<open>address % 32\<close> on, at most \<open>len\<close>.\<close>

function rd_copy :: "u8 list \<Rightarrow> nat \<Rightarrow> u32 \<Rightarrow> u32 \<Rightarrow> u8 list \<Rightarrow> u32 \<times> u32 \<times> u8 list" where
  "rd_copy pb i address len out =
    (if i < 32 then
       (let out = out @ [pb ! i]; address = address + 1; len = len - 1 in
        if len = 0 then (address, len, out) else rd_copy pb (Suc i) address len out)
     else (address, len, out))"
  by pat_completeness auto
termination by (relation "measure (\<lambda>(pb, i, _). 32 - i)") auto

declare rd_copy.simps [simp del]

partial_function (option) rd_loop ::
  "'f flash_io \<Rightarrow> u32 \<Rightarrow> u32 \<Rightarrow> u32 \<Rightarrow> u8 list \<Rightarrow> 'f \<Rightarrow> (u8 list \<times> 'f) option" where
  "rd_loop io address addr len out d =
    (if len = 0 then Some (out, d)
     else do {
       d \<leftarrow> fl_cmd_at io addr FLASH_OPCODE_READ d;
       let (ws, d) = fl_read_words io 8 d;
       let (address, len, out) = rd_copy (words_bytes ws) (unat (address mod 32)) address len out;
       rd_loop io address (addr + 32) len out d
     })"

definition flash_read_data :: "'f flash_io \<Rightarrow> u32 \<Rightarrow> u32 \<Rightarrow> 'f \<Rightarrow> (u8 list \<times> 'f) option" where
  "flash_read_data io address len d =
    (if len = 0 then Some ([], d)
     else do {
       d \<leftarrow> fl_wait io d;
       rd_loop io address (address AND NOT 0x1F) len [] d
     })"

text \<open>The bytes that go into one page.\<close>

function wr_copy :: "mem \<Rightarrow> u8 list \<Rightarrow> nat \<Rightarrow> nat \<Rightarrow> u32 \<Rightarrow> u32 \<Rightarrow> u8 list \<times> nat \<times> u32 \<times> u32" where
  "wr_copy m pb i buffer address len =
    (if i < 32 then
       (let pb = pb[i := m buffer]; buffer = buffer + 1; address = address + 1; len = len - 1 in
        if len = 0 then (pb, buffer, address, len) else wr_copy m pb (Suc i) buffer address len)
     else (pb, buffer, address, len))"
  by pat_completeness auto
termination by (relation "measure (\<lambda>(m, pb, i, _). 32 - i)") auto

declare wr_copy.simps [simp del]

definition page_regs :: "u8 list \<Rightarrow> u32 list" where
  "page_regs pb = map (\<lambda>i. bytes_word (pb ! (4 * i)) (pb ! (4 * i + 1)) (pb ! (4 * i + 2)) (pb ! (4 * i + 3))) [0..<8]"

definition fl_write_words :: "'f flash_io \<Rightarrow> u32 list \<Rightarrow> 'f \<Rightarrow> 'f" where
  "fl_write_words io ws d = fold (fio_write io REG_FLASH_DATA_SW_FLASH) ws d"

partial_function (option) wr_loop ::
  "'f flash_io \<Rightarrow> mem \<Rightarrow> nat \<Rightarrow> u32 \<Rightarrow> u32 \<Rightarrow> u32 \<Rightarrow> u8 list \<Rightarrow> 'f \<Rightarrow> 'f option" where
  "wr_loop io m buffer address addr len pb d =
    (if len = 0 then Some d
     else do {
       (pb, d) \<leftarrow> (if len < 32 then do {
                     (pb, d) \<leftarrow> flash_read_data io addr 32 d;
                     d \<leftarrow> fl_wait io d;
                     Some (pb, d)
                   } else Some (pb, d));
       let (pb, buffer, address, len) = wr_copy m pb (unat (address mod 32)) buffer address len;
       let d = fl_write_words io (page_regs pb) d;
       d \<leftarrow> fl_cmd_at io addr FLASH_OPCODE_PP d;
       wr_loop io m buffer address (addr + 32) len (replicate 32 0xFF) d
     })"

definition flash_write_data :: "'f flash_io \<Rightarrow> flash_config_t \<Rightarrow> mem \<Rightarrow> nat \<Rightarrow> u32 \<Rightarrow> u32 \<Rightarrow> 'f \<Rightarrow> 'f option" where
  "flash_write_data io cfg m buffer address len d =
    (let addr = address AND NOT 0x1F; sz = fc_flash_size cfg in
     if addr \<ge> sz \<or> len > sz \<or> addr + len > sz then Some d
     else do {
       (pb, d) \<leftarrow> (if address mod 32 \<noteq> 0 then flash_read_data io addr 32 d
                   else Some (replicate 32 0xFF, d));
       d \<leftarrow> fl_wait io d;
       wr_loop io m buffer address addr len pb d
     })"


section \<open>The device\<close>

text \<open>The state behind the device: the controller, the memory the caller's pointers refer to, the static
  variables \<open>flash_current_config\<close> and \<open>flash_id\<close>, and the busy count of the power manager.\<close>

record 'f flash_world =
  fw_dev :: 'f
  fw_mem :: mem
  fw_config :: "flash_config_t option"
  fw_id :: u32
  fw_peri_busy :: u32

definition FLASH_DEV_NAME :: string where "FLASH_DEV_NAME = ''flash''"
definition FLASH_FAILURE :: u32 where "FLASH_FAILURE = 1"
definition FLASH_SUCCESS :: u32 where "FLASH_SUCCESS = 0"
definition FLASH_CMD_MAGIC :: u32 where "FLASH_CMD_MAGIC = 0xe240000"

datatype flash_cmd = CMD_FLASH_SET_CLK | CMD_FLASH_SET_DCO | CMD_FLASH_SET_DPLL
  | CMD_FLASH_WRITE_ENABLE | CMD_FLASH_WRITE_DISABLE | CMD_FLASH_READ_SR | CMD_FLASH_WRITE_SR
  | CMD_FLASH_READ_QE | CMD_FLASH_SET_QE | CMD_FLASH_SET_QWFR | CMD_FLASH_CLR_QWFR
  | CMD_FLASH_SET_WSR | CMD_FLASH_GET_ID | CMD_FLASH_READ_MID | CMD_FLASH_ERASE_SECTOR
  | CMD_FLASH_SET_HPM | CMD_FLASH_GET_PROTECT | CMD_FLASH_SET_PROTECT

definition flash_cmds :: "flash_cmd list" where
  "flash_cmds = [CMD_FLASH_SET_CLK, CMD_FLASH_SET_DCO, CMD_FLASH_SET_DPLL, CMD_FLASH_WRITE_ENABLE,
    CMD_FLASH_WRITE_DISABLE, CMD_FLASH_READ_SR, CMD_FLASH_WRITE_SR, CMD_FLASH_READ_QE,
    CMD_FLASH_SET_QE, CMD_FLASH_SET_QWFR, CMD_FLASH_CLR_QWFR, CMD_FLASH_SET_WSR, CMD_FLASH_GET_ID,
    CMD_FLASH_READ_MID, CMD_FLASH_ERASE_SECTOR, CMD_FLASH_SET_HPM, CMD_FLASH_GET_PROTECT,
    CMD_FLASH_SET_PROTECT]"

text \<open>The command numbers follow the magic number in order.\<close>

definition flash_cmd_of :: "u32 \<Rightarrow> flash_cmd option" where
  "flash_cmd_of cmd =
    (let k = unat (cmd - FLASH_CMD_MAGIC) in
     if 1 \<le> k \<and> k \<le> length flash_cmds then Some (flash_cmds ! (k - 1)) else None)"

definition flash_cmd_no :: "flash_cmd \<Rightarrow> u32" where
  "flash_cmd_no c = FLASH_CMD_MAGIC + 1 + of_nat (length (takeWhile (\<lambda>x. x \<noteq> c) flash_cmds))"

definition peri_busy_count_add :: "'f flash_world \<Rightarrow> 'f flash_world" where
  "peri_busy_count_add w = w\<lparr>fw_peri_busy := fw_peri_busy w + 1\<rparr>"

definition peri_busy_count_dec :: "'f flash_world \<Rightarrow> 'f flash_world" where
  "peri_busy_count_dec w = w\<lparr>fw_peri_busy := fw_peri_busy w - 1\<rparr>"

text \<open>Running a function of the controller; \<open>flash_current_config\<close> is null before \<open>flash_init\<close>.\<close>

definition on_dev :: "('f \<Rightarrow> 'f option) \<Rightarrow> 'f flash_world \<Rightarrow> 'f flash_world result" where
  "on_dev c w = (case c (fw_dev w) of None \<Rightarrow> Inl Spins | Some d \<Rightarrow> Inr (w\<lparr>fw_dev := d\<rparr>))"

definition from_dev :: "('f \<Rightarrow> ('a \<times> 'f) option) \<Rightarrow> ('a \<Rightarrow> 'f flash_world \<Rightarrow> 'f flash_world result)
    \<Rightarrow> 'f flash_world \<Rightarrow> 'f flash_world result" where
  "from_dev c k w = (case c (fw_dev w) of None \<Rightarrow> Inl Spins | Some (x, d) \<Rightarrow> k x (w\<lparr>fw_dev := d\<rparr>))"

definition with_config :: "(flash_config_t \<Rightarrow> 'f flash_world \<Rightarrow> 'a result) \<Rightarrow> 'f flash_world \<Rightarrow> 'a result" where
  "with_config k w = (case fw_config w of None \<Rightarrow> Inl Null_deref | Some cfg \<Rightarrow> k cfg w)"

definition fw_line_mode :: "'f flash_io \<Rightarrow> u8 \<Rightarrow> 'f flash_world \<Rightarrow> 'f flash_world result" where
  "fw_line_mode io mode = with_config (\<lambda>cfg. on_dev (flash_set_line_mode io cfg mode))"

text \<open>\<open>if(4 == flash_current_config->line_mode) flash_set_line_mode(...)\<close>\<close>

definition switch_line_mode :: "'f flash_io \<Rightarrow> u8 \<Rightarrow> 'f flash_world \<Rightarrow> 'f flash_world result" where
  "switch_line_mode io mode =
    with_config (\<lambda>cfg w. if fc_line_mode cfg = 4 then fw_line_mode io mode w else Inr w)"

definition flash_get_line_mode :: "'f flash_world \<Rightarrow> u8 result" where
  "flash_get_line_mode = with_config (\<lambda>cfg w. Inr (fc_line_mode cfg))"

definition flash_read :: "'f flash_io \<Rightarrow> dev_param \<Rightarrow> u32 \<Rightarrow> u32 \<Rightarrow> 'f flash_world
    \<Rightarrow> (u32 \<times> 'f flash_world) result" where
  "flash_read io user_buf count address w =
    map_sum id (\<lambda>w. (FLASH_SUCCESS, peri_busy_count_dec w))
      (from_dev (flash_read_data io address count)
        (\<lambda>bs w. Inr (w\<lparr>fw_mem := mwrite (fw_mem w) (unat (pa_addr user_buf)) bs\<rparr>))
        (peri_busy_count_add w))"

definition flash_write :: "'f flash_io \<Rightarrow> dev_param \<Rightarrow> u32 \<Rightarrow> u32 \<Rightarrow> 'f flash_world
    \<Rightarrow> (u32 \<times> 'f flash_world) result" where
  "flash_write io user_buf count address w =
    map_sum id (\<lambda>w. (FLASH_SUCCESS, peri_busy_count_dec w))
      (bind_res (bind_res (switch_line_mode io 2 (peri_busy_count_add w))
        (with_config (\<lambda>cfg w. on_dev
          (flash_write_data io cfg (fw_mem w) (unat (pa_addr user_buf)) address count) w)))
        (switch_line_mode io 4))"

text \<open>Values read and stored through the \<open>void *\<close> argument: reading goes to the object passed, storing to
  the memory at its address.\<close>

definition store_param :: "dev_param \<Rightarrow> u8 list \<Rightarrow> 'f flash_world \<Rightarrow> 'f flash_world result" where
  "store_param p bs w = (if pa_addr p = 0 then Inl Null_deref
    else Inr (w\<lparr>fw_mem := mwrite (fw_mem w) (unat (pa_addr p)) bs\<rparr>))"

definition set_clk_field :: "'f flash_io \<Rightarrow> u32 \<Rightarrow> 'f \<Rightarrow> 'f" where
  "set_clk_field io v d =
    (let (reg, d) = fio_read io REG_FLASH_CONF d
     in fio_write io REG_FLASH_CONF ((reg AND NOT (push_bit 0 FLASH_CLK_CONF_MASK)) OR push_bit 0 v) d)"

text \<open>The call of the system control device; \<open>ASSERT(DRV_FAILURE != ret)\<close>.\<close>

definition call_sctrl :: "(u32 \<Rightarrow> 'f flash_world \<Rightarrow> (u32 \<times> 'f flash_world) result) \<Rightarrow> u32 \<Rightarrow> 'f flash_world
    \<Rightarrow> (u32 \<times> 'f flash_world) result" where
  "call_sctrl sctrl cmd w = bind_res (sctrl cmd w)
    (\<lambda>(ret, w). if ret = DRV_FAILURE then Inl Assert_failed else Inr (ret, w))"

definition CMD_SCTRL_SET_FLASH_DCO :: u32 where "CMD_SCTRL_SET_FLASH_DCO = 0xC123022"
definition CMD_SCTRL_SET_FLASH_DPLL :: u32 where "CMD_SCTRL_SET_FLASH_DPLL = 0xC123023"

definition flash_ctrl_cmd :: "'f flash_io \<Rightarrow> (u32 \<Rightarrow> 'f flash_world \<Rightarrow> (u32 \<times> 'f flash_world) result)
    \<Rightarrow> flash_cmd \<Rightarrow> dev_param \<Rightarrow> flash_config_t \<Rightarrow> 'f flash_world \<Rightarrow> (u32 \<times> 'f flash_world) result" where
  "flash_ctrl_cmd io sctrl cmd parm cfg w =
    (let ok = map_sum id (Pair FLASH_SUCCESS) in
     case cmd of
       CMD_FLASH_SET_CLK \<Rightarrow> ok (bind_res (param_u32 parm) (\<lambda>v. on_dev (Some \<circ> flash_set_clk io (ucast v)) w))
     | CMD_FLASH_SET_DPLL \<Rightarrow> bind_res (call_sctrl sctrl CMD_SCTRL_SET_FLASH_DPLL w)
         (\<lambda>(ret, w). map_sum id (Pair ret) (on_dev (Some \<circ> set_clk_field io 5) w))
     | CMD_FLASH_SET_DCO \<Rightarrow> bind_res (call_sctrl sctrl CMD_SCTRL_SET_FLASH_DCO w)
         (\<lambda>(ret, w). map_sum id (Pair ret) (on_dev (Some \<circ> (\<lambda>d. fio_write io REG_FLASH_DATA_FLASH_SW
            (bytes_word (fw_mem w 0x20000) (fw_mem w 0x20001) (fw_mem w 0x20002) (fw_mem w 0x20003))
            (set_clk_field io 9 d))) w))
     | CMD_FLASH_WRITE_ENABLE \<Rightarrow> ok (on_dev (flash_write_enable io) w)
     | CMD_FLASH_WRITE_DISABLE \<Rightarrow> ok (on_dev (flash_write_disable io) w)
     | CMD_FLASH_READ_SR \<Rightarrow> ok (from_dev (flash_read_sr io 2) (\<lambda>sr. store_param parm (take 2 (word_bytes (ucast sr)))) w)
     | CMD_FLASH_WRITE_SR \<Rightarrow> ok (bind_res (param_u32 parm) (\<lambda>v.
         on_dev (flash_write_sr io (ucast (v AND 0x00FF)) (ucast (drop_bit 8 v AND 0x00FFFF))) w))
     | CMD_FLASH_READ_QE \<Rightarrow> ok (from_dev (flash_read_qe io cfg) (\<lambda>v. store_param parm [v]) w)
     | CMD_FLASH_SET_QE \<Rightarrow> ok (if fc_qe_bit cfg \<noteq> 0 then on_dev (flash_set_qe io cfg) w else Inr w)
     | CMD_FLASH_SET_QWFR \<Rightarrow> ok (on_dev (Some \<circ> flash_set_qwfr io cfg) w)
     | CMD_FLASH_CLR_QWFR \<Rightarrow> ok (on_dev (flash_clr_qwfr io) w)
     | CMD_FLASH_SET_WSR \<Rightarrow> ok (bind_res (param_u32 parm) (\<lambda>v. on_dev (flash_set_wsr io (ucast v)) w))
     | CMD_FLASH_GET_ID \<Rightarrow> ok (from_dev (flash_get_id io) (\<lambda>v w. store_param parm (word_bytes v) (w\<lparr>fw_id := v\<rparr>)) w)
     | CMD_FLASH_READ_MID \<Rightarrow> ok (from_dev (flash_read_mid io) (\<lambda>v. store_param parm (word_bytes v)) w)
     | CMD_FLASH_GET_PROTECT \<Rightarrow> ok (from_dev (get_flash_protect io cfg) (\<lambda>v. store_param parm (word_bytes v)) w)
     | CMD_FLASH_ERASE_SECTOR \<Rightarrow> ok (bind_res (param_u32 parm) (\<lambda>v. on_dev (flash_erase_sector io cfg v) w))
     | CMD_FLASH_SET_HPM \<Rightarrow> ok (on_dev (flash_set_hpm io) w)
     | CMD_FLASH_SET_PROTECT \<Rightarrow> ok (bind_res (param_u32 parm) (\<lambda>v. on_dev (flash_protection_op io cfg 0 v) w)))"

definition flash_ctrl :: "'f flash_io \<Rightarrow> (u32 \<Rightarrow> 'f flash_world \<Rightarrow> (u32 \<times> 'f flash_world) result)
    \<Rightarrow> u32 \<Rightarrow> dev_param \<Rightarrow> 'f flash_world \<Rightarrow> (u32 \<times> 'f flash_world) result" where
  "flash_ctrl io sctrl cmd parm w =
    bind_res (switch_line_mode io 2 (peri_busy_count_add w)) (\<lambda>w.
    bind_res (case flash_cmd_of cmd of
                Some c \<Rightarrow> with_config (flash_ctrl_cmd io sctrl c parm) w
              | None \<Rightarrow> Inr (FLASH_FAILURE, w)) (\<lambda>(ret, w).
    bind_res (switch_line_mode io 4 w) (\<lambda>w. Inr (ret, peri_busy_count_dec w))))"

definition flash_op :: "'f flash_io \<Rightarrow> (u32 \<Rightarrow> 'f flash_world \<Rightarrow> (u32 \<times> 'f flash_world) result)
    \<Rightarrow> ('f flash_world, dev_param) dd_operations" where
  "flash_op io sctrl = \<lparr>dd_open = None, dd_close = None, dd_read = Some (flash_read io),
    dd_write = Some (flash_write io), dd_control = Some (flash_ctrl io sctrl)\<rparr>"

type_synonym 'f flash_drv = "('f flash_world, dev_param) drv_model"

definition flash_init :: "'f flash_io \<Rightarrow> (u32 \<Rightarrow> 'f flash_world \<Rightarrow> (u32 \<times> 'f flash_world) result)
    \<Rightarrow> 'f flash_drv \<Rightarrow> 'f flash_world \<Rightarrow> ('f flash_drv \<times> 'f flash_world) result" where
  "flash_init io sctrl st w =
    bind_res (on_dev (fl_wait io) w) (\<lambda>w.
    bind_res (from_dev (flash_get_id io)
      (\<lambda>v w. Inr (w\<lparr>fw_id := v, fw_config := Some (flash_get_current_flash_config v)\<rparr>)) w) (\<lambda>w.
    bind_res (with_config (\<lambda>cfg. on_dev (set_flash_protect io cfg FLASH_UNPROTECT_LAST_BLOCK)) w) (\<lambda>w.
    bind_res (with_config (\<lambda>cfg. fw_line_mode io (fc_line_mode cfg)) w) (\<lambda>w.
    bind_res (on_dev (Some \<circ> flash_set_clk io 5) w) (\<lambda>w.
    map_sum id (\<lambda>(_, st). (st, w)) (ddev_register_dev (Some FLASH_DEV_NAME) (Some (flash_op io sctrl)) st))))))"

definition flash_exit :: "'f flash_drv \<Rightarrow> 'f flash_drv result" where
  "flash_exit st = map_sum id snd (ddev_unregister_dev (Some FLASH_DEV_NAME) st)"

end
