(* ===== verification/Flash_Nor.thy ===== *)
theory Flash_Nor
  imports Flash
begin

text \<open>
  The flash driver on a controller that behaves as \<open>nor_controller\<close> says: every function of the driver
  returns, and its effect on the cells and on the status register is given. Reading and programming
  go through pages of 32 bytes (\<open>rd_loop_ok\<close>, \<open>wr_loop_ok\<close>, by induction on the bytes left); \<open>prog_range\<close> is
  what programming a block does to the cells. Writing the protection bits keeps the other status
  bits (\<open>protect_status_bits\<close>).
\<close>

section \<open>Command words\<close>

lemma opcode_low: "bit (opcode c) n \<Longrightarrow> n < 5"
proof -
  have "opcode c AND mask 5 = opcode c" by (cases c) (simp_all add: mask_eq_exp_minus_1)
  then show "bit (opcode c) n \<Longrightarrow> n < 5" by (metis bit_and_iff bit_mask_iff)
qed

lemma byte_masks: "(0x1F :: u32) = mask 5" "(0x00FFFFFF :: u32) = mask 24" "(0xFFF :: u32) = mask 12"
  "(0xFF :: u32) = mask 8"
  by (simp_all add: mask_eq_exp_minus_1)

lemma addr_high: "addr < 0x1000000 \<Longrightarrow> 24 \<le> n \<Longrightarrow> \<not> bit addr n" for addr :: u32
proof -
  assume "addr < 0x1000000" "24 \<le> n"
  then have "unat addr < 2 ^ 24" by (simp add: word_less_nat_alt)
  then have "unat addr mod 2 ^ 24 = unat addr" by simp
  then have "addr AND mask 24 = addr" by (metis unat_and_mask unat_eq_iff_u32)
  then show "\<not> bit addr n" using \<open>24 \<le> n\<close> by (metis bit_and_iff bit_mask_iff not_less)
qed

lemma bit_flags: "bit OP_SW n \<longleftrightarrow> n = 29" "bit WP_VALUE n \<longleftrightarrow> n = 30"
  unfolding OP_SW_def WP_VALUE_def push_bit_of_1 bit_exp_iff by (auto simp: possible_bit_def)

lemma cmd_word:
  assumes "addr < 0x1000000" and "v = addr OR op_type c OR OP_SW OR (value AND WP_VALUE)"
  shows "cmd_of v = opcode c" and "addr_of v = addr" and "v AND OP_SW \<noteq> 0"
proof -
  have low: "bit addr n \<Longrightarrow> n < 24" for n using addr_high [OF assms(1)] by (meson not_le)
  note h = addr_high [OF assms(1)] low opcode_low [of c]
  have b: "bit v n \<longleftrightarrow> bit addr n \<or> 24 \<le> n \<and> bit (opcode c) (n - 24) \<or> n = 29 \<or> n = 30 \<and> bit value n" for n
    unfolding assms(2) op_type_def bit_or_iff bit_and_iff bit_flags bit_push_bit_iff
    using opcode_low [of c "n - 24"] by auto
  show "cmd_of v = opcode c"
    unfolding cmd_of_def byte_masks by (rule bit_word_eqI) (use h in \<open>auto simp: bit_and_iff bit_drop_bit_eq bit_mask_iff b\<close>)
  show "addr_of v = addr"
    unfolding addr_of_def byte_masks
    by (rule bit_word_eqI) (use h in \<open>auto simp: bit_and_iff bit_mask_iff b not_less\<close>)
  have "bit (v AND OP_SW) 29" by (simp add: bit_and_iff b bit_flags)
  then show "v AND OP_SW \<noteq> 0" by (metis bit_0_eq bot_apply bot_bool_def)
qed

lemma cmd_word_plain:
  "cmd_of (op_type c OR OP_SW OR WP_VALUE) = opcode c" "(op_type c OR OP_SW OR WP_VALUE) AND OP_SW \<noteq> 0"
  using cmd_word [of 0 _ c WP_VALUE] by (simp_all add: or.assoc)

fun driver_cmd :: "flash_opcode \<Rightarrow> bool" where
  "driver_cmd c \<longleftrightarrow> c \<in> {FLASH_OPCODE_WREN, FLASH_OPCODE_WRDI, FLASH_OPCODE_RDSR, FLASH_OPCODE_WRSR,
    FLASH_OPCODE_READ, FLASH_OPCODE_RDSR2, FLASH_OPCODE_WRSR2, FLASH_OPCODE_PP, FLASH_OPCODE_SE,
    FLASH_OPCODE_RDID, FLASH_OPCODE_HPM, FLASH_OPCODE_CRMR}"

lemma nor_known_cmd: "\<lbrakk>cmd_of v = opcode c; driver_cmd c\<rbrakk> \<Longrightarrow> nor_known v"
  by (auto simp: nor_known_def)

section \<open>The controller under the driver\<close>

context nor_controller
begin

lemma wait_ok:
  assumes "ok d"
  obtains d' where "fl_wait io d = Some d'" "ok d'" "busy d' = 0" "view d' = view d"
proof -
  have "\<exists>d'. fl_wait io d = Some d' \<and> ok d' \<and> busy d' = 0 \<and> view d' = view d"
    using assms
  proof (induction "busy d" arbitrary: d)
    case 0
    obtain v d1 where r: "fio_read io REG_FLASH_OPERATE_SW d = (v, d1)" by force
    show ?case using poll [OF 0(2) r] 0(1) r by (subst fl_wait.simps) auto
  next
    case (Suc k)
    obtain v d1 where r: "fio_read io REG_FLASH_OPERATE_SW d = (v, d1)" by force
    note p = poll [OF Suc(3) r]
    then have "k = busy d1" using Suc(2) by simp
    from Suc(1) [OF this] p obtain d' where "fl_wait io d1 = Some d'" "ok d'" "busy d' = 0" "view d' = view d"
      by metis
    then show ?case using p r Suc(2) by (subst fl_wait.simps) auto
  qed
  with that show ?thesis by blast
qed

lemma cmd_ok:
  assumes "ok d" "busy d = 0" "v AND OP_SW \<noteq> 0" "cmd_of v = opcode c" "driver_cmd c"
  obtains d' where "fl_cmd io v d = Some d'" "ok d'" "busy d' = 0"
    "view d' = nor_exec prot (opcode c) (addr_of v) (view d)"
proof -
  note c = command [OF assms(1-3) nor_known_cmd [OF assms(4,5)]]
  from c obtain d' where "fl_wait io (fio_write io REG_FLASH_OPERATE_SW v d) = Some d'" "ok d'" "busy d' = 0"
    "view d' = view (fio_write io REG_FLASH_OPERATE_SW v d)"
    using wait_ok by blast
  with c show ?thesis using that assms(4) by (simp add: fl_cmd_def)
qed

lemma plain_cmd_ok:
  assumes "ok d" "busy d = 0" "driver_cmd c"
  obtains d' where "fl_cmd io (op_type c OR OP_SW OR WP_VALUE) d = Some d'" "ok d'" "busy d' = 0"
    "view d' = nor_exec prot (opcode c) (addr_of (op_type c OR OP_SW OR WP_VALUE)) (view d)"
  using cmd_ok [OF assms(1,2) cmd_word_plain(2,1) assms(3)] .

lemma cmd_at_ok:
  assumes "ok d" "busy d = 0" "addr < 0x1000000" "driver_cmd c"
  obtains d' where "fl_cmd_at io addr c d = Some d'" "ok d'" "busy d' = 0"
    "view d' = nor_exec prot (opcode c) addr (view d)"
proof -
  obtain v d1 where r: "fio_read io REG_FLASH_OPERATE_SW d = (v, d1)" by force
  have d1: "ok d1" "busy d1 = 0" "view d1 = view d" using poll [OF assms(1) r] assms(2) by simp_all
  define x where "x = addr OR op_type c OR OP_SW OR (v AND WP_VALUE)"
  note w = cmd_word [OF assms(3) x_def]
  from cmd_ok [OF d1(1,2) w(3,1) assms(4)] obtain d' where "fl_cmd io x d1 = Some d'" "ok d'" "busy d' = 0"
    "view d' = nor_exec prot (opcode c) (addr_of x) (view d1)" .
  then show ?thesis using that r d1 w by (simp add: fl_cmd_at_def x_def)
qed

lemma read_words_ok:
  assumes "ok d" "busy d = 0" "n \<le> length (n_rx (view d))"
  obtains d' where "fl_read_words io n d = (take n (n_rx (view d)), d')" "ok d'" "busy d' = 0"
    "view d' = (view d)\<lparr>n_rx := drop n (n_rx (view d))\<rparr>"
proof -
  have "\<exists>d'. fl_read_words io n d = (take n (n_rx (view d)), d') \<and> ok d' \<and> busy d' = 0
    \<and> view d' = (view d)\<lparr>n_rx := drop n (n_rx (view d))\<rparr>"
    using assms
  proof (induction n arbitrary: d)
    case (Suc n)
    then obtain x xs where x: "n_rx (view d) = x # xs" by (cases "n_rx (view d)") auto
    obtain v d1 where r: "fio_read io REG_FLASH_DATA_FLASH_SW d = (v, d1)" by force
    note o = data_out [OF Suc.prems(1,2) x r]
    from Suc.IH [of d1] o Suc.prems(3) x obtain d' where "fl_read_words io n d1 = (take n xs, d')" "ok d'"
      "busy d' = 0" "view d' = (view d)\<lparr>n_rx := drop n xs\<rparr>" by auto
    then show ?case using r o x by simp
  qed simp
  with that show ?thesis by blast
qed

lemma write_words_ok:
  assumes "ok d" "busy d = 0"
  shows "ok (fl_write_words io ws d) \<and> busy (fl_write_words io ws d) = 0
    \<and> view (fl_write_words io ws d) = (view d)\<lparr>n_tx := n_tx (view d) @ ws\<rparr>"
  using assms
proof (induction ws arbitrary: d)
  case (Cons w ws)
  note o = data_in [OF Cons.prems refl, of w]
  then show ?case using Cons.IH [of "fio_write io REG_FLASH_DATA_SW_FLASH w d"]
    by (simp add: fl_write_words_def)
qed (simp add: fl_write_words_def)

end

section \<open>Pages\<close>

definition cells :: "(u32 \<Rightarrow> u8) \<Rightarrow> u32 \<Rightarrow> nat \<Rightarrow> u8 list" where
  "cells c a n = map (\<lambda>i. c (a + of_nat i)) [0..<n]"

lemma length_cells [simp]: "length (cells c a n) = n"
  by (simp add: cells_def)

lemma nth_cells [simp]: "i < n \<Longrightarrow> cells c a n ! i = c (a + of_nat i)"
  by (simp add: cells_def)

lemma cells_add: "cells c a (n + k) = cells c a n @ cells c (a + of_nat n) k"
  by (rule nth_equalityI) (auto simp: nth_append add.assoc)

lemma take_drop_cells: "i + k \<le> n \<Longrightarrow> take k (drop i (cells c a n)) = cells c (a + of_nat i) k"
  by (rule nth_equalityI) (auto simp: add.assoc)

lemma page_words_bytes: "words_bytes (page_words c a) = cells c (a AND NOT 0x1F) 32"
proof -
  have "cells c p 32 = concat (map (\<lambda>i. cells c (p + of_nat (4 * i)) 4) [0..<8])" for p
    by (simp add: cells_def upt_conv_Cons add.assoc)
  moreover have "cells c p 4 = [c p, c (p + 1), c (p + 2), c (p + 3)]" for p
    by (simp add: cells_def upt_conv_Cons)
  ultimately show ?thesis
    by (simp add: words_bytes_def page_words_def Let_def comp_def)
qed

lemma page_regs_bytes:
  assumes "length pb = 32"
  shows "words_bytes (page_regs pb) = pb"
proof -
  have "[0..<8] = [0, 1, 2, 3, 4, 5, 6, 7 :: nat]" "[0..<32] = [0, 1, 2, 3, 4, 5, 6, 7, 8, 9, 10, 11, 12, 13, 14, 15, 16, 17,
      18, 19, 20, 21, 22, 23, 24, 25, 26, 27, 28, 29, 30, 31 :: nat]"
    by code_simp+
  then have "words_bytes (page_regs pb) = map ((!) pb) [0..<32]"
    by (simp add: words_bytes_def page_regs_def numeral_2_eq_2)
  then show ?thesis using map_nth [of pb] assms by simp
qed


section \<open>Reading\<close>

lemma rd_copy_spec:
  assumes "i < 32" "length pb = 32" "len \<noteq> 0" "k = min (unat len) (32 - i)"
  shows "rd_copy pb i address len out = (address + of_nat k, len - of_nat k, out @ take k (drop i pb))"
  using assms
proof (induction "32 - i" arbitrary: i address len out k)
  case (Suc j)
  have len: "unat (len - 1) = unat len - 1" using Suc.prems(3)
    by (simp add: unat_sub_if' unat_eq_zero) (metis One_nat_def Suc_leI unat_gt_0)
  have pos: "0 < unat len" using Suc.prems(3) by (simp add: unat_gt_0)
  have hd: "take (Suc n) (drop i pb) = pb ! i # take n (drop (Suc i) pb)" for n
    using Suc.prems(1,2) by (metis Cons_nth_drop_Suc take_Suc_Cons)
  show ?case
  proof (cases "len - 1 = 0")
    case True
    then have "unat len = 1" using len pos by (simp add: unat_eq_zero)
    then have "k = Suc 0" using Suc.prems(1,4) by simp
    then show ?thesis using True Suc.prems(1) hd [of 0] by (subst rd_copy.simps) simp
  next
    case False
    show ?thesis
    proof (cases "Suc i < 32")
      case True
      define k' where "k' = min (unat (len - 1)) (32 - Suc i)"
      have k: "k = Suc k'" using Suc.prems(4) len pos True unfolding k'_def by linarith
      have "rd_copy pb (Suc i) (address + 1) (len - 1) (out @ [pb ! i])
        = (address + 1 + of_nat k', len - 1 - of_nat k', (out @ [pb ! i]) @ take k' (drop (Suc i) pb))"
        using Suc.hyps(1) [of "Suc i" "len - 1" k'] Suc.hyps(2) True False Suc.prems(2) k'_def by simp
      then show ?thesis using False Suc.prems(1) k hd [of k']
        by (subst rd_copy.simps) (simp add: algebra_simps)
    next
      case last: False
      then have "k = Suc 0" using Suc.prems(1,4) pos by simp
      then show ?thesis using False last Suc.prems(1) hd [of 0]
        by (subst rd_copy.simps, subst rd_copy.simps) simp
    qed
  qed
qed simp

lemma page_facts:
  fixes x :: u32
  shows "unat (x AND NOT 0x1F) = unat x - unat x mod 32" and "unat (x mod 32) = unat x mod 32"
    and "x = (x AND NOT 0x1F) + of_nat (unat x mod 32)"
proof -
  show p: "unat (x AND NOT 0x1F) = unat x - unat x mod 32"
    using unat_and_not_mask [of x 5] by (simp add: byte_masks)
  show "unat (x mod 32) = unat x mod 32" by (simp add: unat_mod)
  have "x AND mask 5 = of_nat (unat x mod 32)"
    using unat_and_mask [of x 5] of_nat_unat_u32 [of "x AND mask 5"] by simp
  then show "x = (x AND NOT 0x1F) + of_nat (unat x mod 32)"
    using and_mask_split [of x 5] by (simp add: byte_masks)
qed

text \<open>The next page.\<close>

lemma page_next:
  fixes x :: u32
  assumes "k = 32 - unat x mod 32" and "unat x + k < 4294967296"
  shows "(x + of_nat k) AND NOT 0x1F = (x AND NOT 0x1F) + 32" and "unat (x + of_nat k) = unat x + k"
    and "x + of_nat k = (x AND NOT 0x1F) + 32"
proof -
  have k: "unat (of_nat k :: u32) = k" using assms(1) by (intro unat_of_nat_u32) simp
  then show u: "unat (x + of_nat k) = unat x + k" using assms(2) by (simp add: unat_add_fit)
  have m: "(unat x + k) mod 32 = 0"
  proof -
    have "unat x + k = 32 * (unat x div 32) + 32"
      using assms(1) mult_div_mod_eq [of 32 "unat x"] mod_less_divisor [of 32 "unat x"] by linarith
    then show ?thesis by simp
  qed
  have "unat ((x AND NOT 0x1F) + 32) = unat x + k"
  proof -
    have "unat (x AND NOT 0x1F) + 32 = unat x + k"
      using page_facts(1) [of x] assms(1) mod_less_eq_dividend [of "unat x" 32] mod_less_divisor [of 32 "unat x"]
      by linarith
    then show ?thesis using assms(2) by (simp add: unat_add_fit)
  qed
  then show e: "x + of_nat k = (x AND NOT 0x1F) + 32" using u by (simp flip: unat_eq_iff_u32)
  have "unat ((x + of_nat k) AND NOT 0x1F) = unat (x + of_nat k)"
    using page_facts(1) [of "x + of_nat k"] u m by simp
  then show "(x + of_nat k) AND NOT 0x1F = (x AND NOT 0x1F) + 32" using e unat_eq_iff_u32 by metis
qed

context nor_controller
begin

lemma rd_loop_ok:
  assumes "ok d" "busy d = 0" "addr = address AND NOT 0x1F" "unat address + unat len \<le> 0x1000000"
  obtains d' where "rd_loop io address addr len out d = Some (out @ cells (n_cell (view d)) address (unat len), d')"
    "ok d'" "busy d' = 0" "view d' = (if len = 0 then view d else (view d)\<lparr>n_rx := []\<rparr>)"
proof -
  have "\<exists>d'. rd_loop io address addr len out d = Some (out @ cells (n_cell (view d)) address (unat len), d')
    \<and> ok d' \<and> busy d' = 0 \<and> view d' = (if len = 0 then view d else (view d)\<lparr>n_rx := []\<rparr>)"
    using assms
  proof (induction "unat len" arbitrary: address addr len out d rule: less_induct)
    case less
    show ?case
    proof (cases "len = 0")
      case True
      then show ?thesis using less.prems by (subst rd_loop.simps) (simp add: cells_def)
    next
      case False
      let ?c = "n_cell (view d)" and ?i = "unat address mod 32"
      have pos: "0 < unat len" using False by (simp add: unat_gt_0)
      have "unat addr \<le> unat address" using page_facts(1) [of address] less.prems(3) by simp
      then have a24: "addr < 0x1000000" using less.prems(4) pos by (simp add: word_less_nat_alt)
      obtain d1 where d1: "fl_cmd_at io addr FLASH_OPCODE_READ d = Some d1" "ok d1" "busy d1 = 0"
        "view d1 = (view d)\<lparr>n_rx := page_words ?c addr\<rparr>"
        by (rule cmd_at_ok [OF less.prems(1,2) a24, of FLASH_OPCODE_READ]) (auto simp: nor_exec_def)
      have "length (page_words ?c addr) = 8" by (simp add: page_words_def)
      then obtain d2 where d2: "fl_read_words io 8 d1 = (page_words ?c addr, d2)" "ok d2" "busy d2 = 0"
        "view d2 = (view d)\<lparr>n_rx := []\<rparr>"
        using read_words_ok [OF d1(2,3), of 8] d1(4) by (metis (no_types, lifting) drop_all le_refl
          nor_view.ext_inject nor_view.surjective nor_view.update_convs(5) take_all)
      define k where "k = min (unat len) (32 - ?i)"
      have pb: "words_bytes (page_words ?c addr) = cells ?c addr 32"
        unfolding page_words_bytes less.prems(3) by (simp add: and.assoc)
      have "?i < 32" by simp
      have "take k (drop ?i (cells ?c addr 32)) = cells ?c address k"
        using take_drop_cells [of ?i k 32 ?c addr] page_facts(3) [of address] less.prems(3) by (simp add: k_def)
      then have cp: "rd_copy (words_bytes (page_words ?c addr)) (unat (address mod 32)) address len out
        = (address + of_nat k, len - of_nat k, out @ cells ?c address k)"
        unfolding pb page_facts(2) using rd_copy_spec [OF \<open>?i < 32\<close> length_cells False k_def] by simp
      have kw: "unat (of_nat k :: u32) = k" by (intro unat_of_nat_u32) (simp add: k_def)
      have len': "unat (len - of_nat k) = unat len - k" using kw by (simp add: word_le_nat_alt k_def)
      have step: "rd_loop io address addr len out d
        = rd_loop io (address + of_nat k) (addr + 32) (len - of_nat k) (out @ cells ?c address k) d2"
        using False d1 d2 cp by (subst rd_loop.simps) simp
      show ?thesis
      proof (cases "len - of_nat k = 0")
        case True
        then have "unat len = k" using len' by (simp add: k_def)
        then show ?thesis unfolding step using True False d2
          by (subst rd_loop.simps) simp
      next
        case more: False
        then have "0 < unat (len - of_nat k)" by (simp add: unat_gt_0)
        then have k: "k = 32 - ?i" "k < unat len" using len' by (auto simp: k_def min_def split: if_splits)
        then have "unat address + k < 4294967296" using less.prems(4) by simp
        note nx = page_next [OF k(1) this]
        have "0 < k" using k by simp
        have "unat (len - of_nat k) < unat len" using len' k \<open>0 < k\<close> by linarith
        moreover have "addr + 32 = (address + of_nat k) AND NOT 0x1F" using nx(1) less.prems(3) by metis
        moreover have "unat (address + of_nat k) + unat (len - of_nat k) \<le> 0x1000000"
          using nx(2) len' k(2) less.prems(4) by linarith
        ultimately have "\<exists>d'. rd_loop io (address + of_nat k) (addr + 32) (len - of_nat k) (out @ cells ?c address k) d2
          = Some ((out @ cells ?c address k) @ cells (n_cell (view d2)) (address + of_nat k) (unat (len - of_nat k)), d')
          \<and> ok d' \<and> busy d' = 0
          \<and> view d' = (if len - of_nat k = 0 then view d2 else (view d2)\<lparr>n_rx := []\<rparr>)"
          by (rule less.hyps [OF _ d2(2,3)])
        then show ?thesis unfolding step using d2 more False len' k cells_add [of ?c address k "unat len - k"]
          by auto
      qed
    qed
  qed
  with that show ?thesis by blast
qed

lemma read_data_ok:
  assumes "ok d" "unat address + unat len \<le> 0x1000000"
  obtains d' where "flash_read_data io address len d = Some (cells (n_cell (view d)) address (unat len), d')"
    "ok d'" "len \<noteq> 0 \<Longrightarrow> busy d' = 0" "busy d = 0 \<Longrightarrow> busy d' = 0"
    "view d' = (if len = 0 then view d else (view d)\<lparr>n_rx := []\<rparr>)"
proof (cases "len = 0")
  case True
  then show ?thesis using that assms by (simp add: flash_read_data_def cells_def)
next
  case False
  obtain d1 where d1: "fl_wait io d = Some d1" "ok d1" "busy d1 = 0" "view d1 = view d"
    using wait_ok [OF assms(1)] .
  obtain d' where "rd_loop io address (address AND NOT 0x1F) len [] d1
      = Some ([] @ cells (n_cell (view d1)) address (unat len), d')"
    "ok d'" "busy d' = 0" "view d' = (if len = 0 then view d1 else (view d1)\<lparr>n_rx := []\<rparr>)"
    using rd_loop_ok [OF d1(2,3) refl assms(2)] .
  with False d1 that show ?thesis by (simp add: flash_read_data_def)
qed

end


section \<open>Programming\<close>

lemma wr_copy_spec:
  assumes "i < 32" "length pb = 32" "len \<noteq> 0" "k = min (unat len) (32 - i)"
  shows "wr_copy m pb i buffer address len
    = (take i pb @ mread m buffer k @ drop (i + k) pb, buffer + k, address + of_nat k, len - of_nat k)"
  using assms
proof (induction "32 - i" arbitrary: i pb buffer address len k)
  case (Suc j)
  have len: "unat (len - 1) = unat len - 1" using Suc.prems(3)
    by (simp add: unat_sub_if' unat_eq_zero) (metis One_nat_def Suc_leI unat_gt_0)
  have pos: "0 < unat len" using Suc.prems(3) by (simp add: unat_gt_0)
  have upd: "pb[i := m buffer] = take i pb @ m buffer # drop (Suc i) pb"
    using Suc.prems(1,2) by (simp add: upd_conv_take_nth_drop)
  show ?case
  proof (cases "len - 1 = 0")
    case True
    then have "unat len = 1" using len pos by (simp add: unat_eq_zero)
    then have "k = Suc 0" using Suc.prems(1,4) by simp
    then show ?thesis using True Suc.prems(1) upd by (subst wr_copy.simps) (simp add: mread_Suc)
  next
    case False
    show ?thesis
    proof (cases "Suc i < 32")
      case True
      define k' where "k' = min (unat (len - 1)) (32 - Suc i)"
      have k: "k = Suc k'" using Suc.prems(4) len pos True unfolding k'_def by linarith
      have "wr_copy m (pb[i := m buffer]) (Suc i) (buffer + 1) (address + 1) (len - 1)
        = (take (Suc i) (pb[i := m buffer]) @ mread m (buffer + 1) k' @ drop (Suc i + k') (pb[i := m buffer]),
           buffer + 1 + k', address + 1 + of_nat k', len - 1 - of_nat k')"
        using Suc.hyps(1) [of "Suc i" "pb[i := m buffer]" "len - 1" k'] Suc.hyps(2) True False
          Suc.prems(2) k'_def by simp
      moreover have "take (Suc i) (pb[i := m buffer]) = take i pb @ [m buffer]"
        "drop (Suc i + k') (pb[i := m buffer]) = drop (Suc i + k') pb"
        using Suc.prems(1,2) by (simp_all add: take_Suc_conv_app_nth drop_update_cancel)
      ultimately show ?thesis using False Suc.prems(1) k
        by (subst wr_copy.simps) (simp add: mread_Suc algebra_simps)
    next
      case last: False
      then have "k = Suc 0" using Suc.prems(1,4) pos by simp
      then show ?thesis using False last Suc.prems(1) upd
        by (subst wr_copy.simps, subst wr_copy.simps) (simp add: mread_Suc)
    qed
  qed
qed simp

text \<open>Programming a block: bits are cleared where the data has zeros, except in protected cells.\<close>

definition prog_range :: "(u32 \<Rightarrow> bool) \<Rightarrow> u32 \<Rightarrow> u8 list \<Rightarrow> (u32 \<Rightarrow> u8) \<Rightarrow> u32 \<Rightarrow> u8" where
  "prog_range locked a bs c =
    (\<lambda>x. if unat a \<le> unat x \<and> unat x < unat a + length bs \<and> \<not> locked x
         then c x AND bs ! (unat x - unat a) else c x)"

lemma prog_range_Nil [simp]: "prog_range locked a [] c = c"
  by (rule ext) (auto simp: prog_range_def)

lemma prog_range_append:
  assumes "unat b = unat a + length xs"
  shows "prog_range locked b ys (prog_range locked a xs c) = prog_range locked a (xs @ ys) c"
  using assms by (auto simp: prog_range_def fun_eq_iff nth_append)

lemma u8_and_FF: "x AND 0xFF = x" for x :: u8
proof -
  have "(0xFF :: u8) = - 1" by code_simp
  then show ?thesis by (simp only: and.right_neutral)
qed

lemma same_page: "x AND NOT 0x1F = y AND NOT 0x1F \<longleftrightarrow> unat x div 32 = unat y div 32" for x y :: u32
proof -
  have "unat (x AND NOT 0x1F) = 32 * (unat x div 32)" "unat (y AND NOT 0x1F) = 32 * (unat y div 32)"
    unfolding page_facts(1) by (simp_all only: minus_mod_eq_mult_div)
  then show ?thesis using unat_eq_iff_u32 [of "x AND NOT 0x1F" "y AND NOT 0x1F"] by simp
qed

text \<open>A page of 32 bytes programs exactly the bytes put in at \<open>i\<close> when the rest of it leaves the cells as
  they are.\<close>

lemma program_page_range:
  assumes pb: "length pb = 32" and i: "i = unat address mod 32" and k: "i + length bs \<le> 32"
    and neutral: "\<And>j. \<lbrakk>j < 32; j < i \<or> i + length bs \<le> j\<rbrakk> \<Longrightarrow>
      pb ! j = 0xFF \<or> pb ! j = c ((address AND NOT 0x1F) + of_nat j)"
  shows "program_page locked (address AND NOT 0x1F) (take i pb @ bs @ drop (i + length bs) pb) c
    = prog_range locked address bs c"
proof (rule ext)
  fix x :: u32
  let ?p = "take i pb @ bs @ drop (i + length bs) pb" and ?j = "unat x mod 32"
  have len: "length ?p = 32" using pb k by simp
  have j: "unat (x AND 0x1F) = ?j" using unat_and_mask [of x 5] by (simp add: byte_masks)
  have idem: "(address AND NOT 0x1F) AND NOT 0x1F = address AND NOT 0x1F" by (simp add: and.assoc)
  show "program_page locked (address AND NOT 0x1F) ?p c x = prog_range locked address bs c x"
  proof (cases "unat x div 32 = unat address div 32")
    case False
    have "\<not> (unat address \<le> unat x \<and> unat x < unat address + length bs)"
    proof
      assume a: "unat address \<le> unat x \<and> unat x < unat address + length bs"
      have "unat address = 32 * (unat address div 32) + i" using i by simp
      then have "unat x < 32 * (unat address div 32) + 32" using a k by linarith
      moreover have "32 * (unat address div 32) \<le> unat x" using a i by linarith
      ultimately have "unat x div 32 = unat address div 32"
        by (intro div_nat_eqI) (simp_all add: mult.commute)
      with False show False by simp
    qed
    then show ?thesis using False unfolding program_page_def idem same_page prog_range_def by auto
  next
    case True
    have x: "x = (address AND NOT 0x1F) + of_nat ?j"
      using page_facts(3) [of x] True same_page [of x address] by metis
    have ux: "unat x = 32 * (unat address div 32) + ?j" "unat address = 32 * (unat address div 32) + i"
      using True i mult_div_mod_eq [of 32 "unat x"] by simp_all
    have rng: "unat address \<le> unat x \<and> unat x < unat address + length bs \<longleftrightarrow> i \<le> ?j \<and> ?j < i + length bs"
      using ux by linarith
    have j32: "?j < 32" by simp
    have keep: "c x AND ?p ! ?j = c x" if "?j < i \<or> i + length bs \<le> ?j"
    proof -
      have "?p ! ?j = pb ! ?j" using that pb k j32 by (auto simp: nth_append)
      then show ?thesis using neutral [OF j32 that] x u8_and_FF [of "c x"] by auto
    qed
    have "unat x - unat address = ?j - i" using ux by linarith
    then have "?p ! ?j = bs ! (unat x - unat address)" if "i \<le> ?j" "?j < i + length bs"
      using that pb k by (auto simp: nth_append)
    moreover have "program_page locked (address AND NOT 0x1F) ?p c x
      = (if locked x then c x else c x AND ?p ! ?j)"
      using True j32 len unfolding program_page_def idem same_page j by auto
    ultimately show ?thesis using keep rng
      by (cases "i \<le> ?j \<and> ?j < i + length bs") (auto simp: prog_range_def)
  qed
qed

context nor_controller
begin

lemma page_write_ok:
  assumes "ok d" "busy d = 0" "n_tx (view d) = []" "length pb = 32" "addr < 0x1000000"
  obtains d' where "fl_cmd_at io addr FLASH_OPCODE_PP (fl_write_words io (page_regs pb) d) = Some d'"
    "ok d'" "busy d' = 0"
    "view d' = (view d)\<lparr>n_cell := program_page (prot (n_sr (view d))) addr pb (n_cell (view d))\<rparr>"
proof -
  note w = write_words_ok [OF assms(1,2), of "page_regs pb"]
  let ?d1 = "fl_write_words io (page_regs pb) d"
  have d1: "ok ?d1" "busy ?d1 = 0" using w by simp_all
  obtain d' where d': "fl_cmd_at io addr FLASH_OPCODE_PP ?d1 = Some d'" "ok d'" "busy d' = 0"
    "view d' = nor_exec prot (opcode FLASH_OPCODE_PP) addr (view ?d1)"
    by (rule cmd_at_ok [OF d1 assms(5), of FLASH_OPCODE_PP]) auto
  have "view d' = (view d)\<lparr>n_cell := program_page (prot (n_sr (view d))) addr pb (n_cell (view d))\<rparr>"
    using d'(4) w assms(3) page_regs_bytes [OF assms(4)] by (simp add: nor_exec_def)
  with d' that show ?thesis by blast
qed

end


text \<open>What is left in the receive buffer does not matter.\<close>

definition set_cells :: "(u32 \<Rightarrow> u8) \<Rightarrow> nor_view \<Rightarrow> nor_view \<Rightarrow> bool" where
  "set_cells c n n' \<longleftrightarrow> (\<exists>rx. n' = n\<lparr>n_cell := c, n_rx := rx\<rparr>)"

lemma set_cells_simps:
  assumes "set_cells c n n'"
  shows "n_cell n' = c" "n_sr n' = n_sr n" "n_conf n' = n_conf n" "n_tx n' = n_tx n" "n_jedec n' = n_jedec n"
  using assms by (auto simp: set_cells_def)

lemma set_cells_trans: "\<lbrakk>set_cells c n n1; set_cells c' n1 n2\<rbrakk> \<Longrightarrow> set_cells c' n n2"
  by (auto simp: set_cells_def)

lemma set_cells_upd: "set_cells c n n1 \<Longrightarrow> set_cells c' n (n1\<lparr>n_cell := c'\<rparr>)"
  unfolding set_cells_def by (metis nor_view.fold_congs(1) nor_view.update_convs(1,5) nor_view.surjective)

lemma set_cells_same: "n' = n \<or> n' = n\<lparr>n_rx := []\<rparr> \<Longrightarrow> set_cells (n_cell n) n n'"
  unfolding set_cells_def by (metis nor_view.surjective nor_view.update_convs(1,5))

context nor_controller
begin

lemma wr_loop_ok:
  assumes "ok d" "busy d = 0" "n_tx (view d) = []" "addr = address AND NOT 0x1F" "length pb = 32"
    "unat address + unat len \<le> 0x1000000"
    "\<And>j. j < unat address mod 32 \<Longrightarrow> pb ! j = 0xFF \<or> pb ! j = n_cell (view d) (addr + of_nat j)"
  shows "\<exists>d'. wr_loop io m buffer address addr len pb d = Some d' \<and> ok d' \<and> busy d' = 0
    \<and> set_cells (prog_range (prot (n_sr (view d))) address (mread m buffer (unat len)) (n_cell (view d)))
        (view d) (view d')"
  using assms
proof (induction "unat len" arbitrary: buffer address addr len pb d rule: less_induct)
  case less
  let ?c = "n_cell (view d)" and ?i = "unat address mod 32" and ?lk = "prot (n_sr (view d))"
  show ?case
  proof (cases "len = 0")
    case True
    then show ?thesis using less.prems by (subst wr_loop.simps) (simp add: set_cells_same)
  next
    case False
    have pos: "0 < unat len" using False by (simp add: unat_gt_0)
    have "unat addr \<le> unat address" using page_facts(1) [of address] less.prems(4) by simp
    then have a24: "addr < 0x1000000" using less.prems(6) pos by (simp add: word_less_nat_alt)
    have i32: "?i < 32" by simp
    define k where "k = min (unat len) (32 - ?i)"
    have page32: "unat addr + 32 \<le> 0x1000000"
    proof -
      have "unat addr = 32 * (unat address div 32)" unfolding less.prems(4) page_facts(1)
        by (simp only: minus_mod_eq_mult_div)
      moreover have "unat address div 32 < 0x80000" using less.prems(6) pos by (simp add: div_less_iff_less_mult)
      ultimately show ?thesis by linarith
    qed
    obtain pb1 d1 where st: "(if len < 32 then do {
          (pb, d) \<leftarrow> flash_read_data io addr 32 d; d \<leftarrow> fl_wait io d; Some (pb, d) } else Some (pb, d)) = Some (pb1, d1)"
      and d1: "ok d1" "busy d1 = 0" "set_cells ?c (view d) (view d1)" "length pb1 = 32"
      and neutral: "\<And>j. \<lbrakk>j < 32; j < ?i \<or> ?i + k \<le> j\<rbrakk> \<Longrightarrow> pb1 ! j = 0xFF \<or> pb1 ! j = ?c (addr + of_nat j)"
    proof (cases "len < 32")
      case True
      obtain e where e: "flash_read_data io addr 32 d = Some (cells ?c addr 32, e)" "ok e"
        "view e = (view d)\<lparr>n_rx := []\<rparr>"
        by (rule read_data_ok [OF less.prems(1), of addr 32]) (use page32 in auto)
      obtain e' where e': "fl_wait io e = Some e'" "ok e'" "busy e' = 0" "view e' = view e"
        using wait_ok [OF e(2)] .
      show ?thesis by (rule that [of "cells ?c addr 32" e']) (use True e e' in \<open>auto simp: set_cells_same\<close>)
    next
      case False
      then have "k = 32 - ?i" by (simp add: k_def word_less_nat_alt)
      then show ?thesis using that [of pb d] False less.prems by (auto simp: set_cells_same)
    qed
    define bs where "bs = mread m buffer k"
    define pb2 where "pb2 = take ?i pb1 @ bs @ drop (?i + k) pb1"
    have cp: "wr_copy m pb1 (unat (address mod 32)) buffer address len
      = (pb2, buffer + k, address + of_nat k, len - of_nat k)"
      unfolding page_facts(2) pb2_def bs_def by (rule wr_copy_spec [OF i32 d1(4) False k_def])
    have "length pb2 = 32" using d1(4) by (simp add: pb2_def bs_def k_def)
    moreover have "n_tx (view d1) = []" using set_cells_simps [OF d1(3)] less.prems(3) by simp
    ultimately obtain d2 where d2: "fl_cmd_at io addr FLASH_OPCODE_PP (fl_write_words io (page_regs pb2) d1) = Some d2"
      "ok d2" "busy d2 = 0"
      "view d2 = (view d1)\<lparr>n_cell := program_page (prot (n_sr (view d1))) addr pb2 (n_cell (view d1))\<rparr>"
      using page_write_ok [OF d1(1,2), of pb2 addr] a24 by blast
    have "program_page ?lk addr pb2 ?c = prog_range ?lk address bs ?c"
      unfolding less.prems(4) pb2_def
      using program_page_range [OF d1(4) refl, of address bs ?c ?lk] neutral
      by (simp add: bs_def k_def less.prems(4))
    then have v2: "set_cells (prog_range ?lk address bs ?c) (view d) (view d2)"
      using d2(4) set_cells_upd [OF d1(3)] set_cells_simps [OF d1(3)] by simp
    have step: "wr_loop io m buffer address addr len pb d
      = wr_loop io m (buffer + k) (address + of_nat k) (addr + 32) (len - of_nat k) (replicate 32 0xFF) d2"
      using False st cp d2(1) by (subst wr_loop.simps) simp
    have kw: "unat (of_nat k :: u32) = k" by (intro unat_of_nat_u32) (simp add: k_def)
    have len': "unat (len - of_nat k) = unat len - k" using kw by (simp add: word_le_nat_alt k_def)
    show ?thesis
    proof (cases "len - of_nat k = 0")
      case True
      then have "unat len = k" using len' by (simp add: k_def)
      then show ?thesis unfolding step using True d2 v2 by (subst wr_loop.simps) (simp add: bs_def)
    next
      case more: False
      then have "0 < unat (len - of_nat k)" by (simp add: unat_gt_0)
      then have k: "k = 32 - ?i" "k < unat len" using len' by (auto simp: k_def min_def split: if_splits)
      then have "unat address + k < 4294967296" using less.prems(6) by simp
      note nx = page_next [OF k(1) this]
      have "0 < k" using k by simp
      have "unat (len - of_nat k) < unat len" using len' k \<open>0 < k\<close> by linarith
      moreover have "n_tx (view d2) = []" using set_cells_simps [OF v2] less.prems(3) by simp
      moreover have "addr + 32 = (address + of_nat k) AND NOT 0x1F" using nx(1) less.prems(4) by metis
      moreover have "length (replicate 32 (0xFF :: u8)) = 32" by simp
      moreover have "unat (address + of_nat k) + unat (len - of_nat k) \<le> 0x1000000"
        using nx(2) len' k(2) less.prems(6) by linarith
      moreover have "replicate 32 0xFF ! j = (0xFF :: u8) \<or> replicate 32 0xFF ! j = n_cell (view d2) (addr + 32 + of_nat j)"
        if "j < unat (address + of_nat k) mod 32" for j
        using that mod_less_divisor [of 32 "unat (address + of_nat k)"] by (intro disjI1 nth_replicate) linarith
      ultimately have "\<exists>d'. wr_loop io m (buffer + k) (address + of_nat k) (addr + 32) (len - of_nat k) (replicate 32 0xFF) d2 = Some d'
        \<and> ok d' \<and> busy d' = 0 \<and> set_cells (prog_range (prot (n_sr (view d2))) (address + of_nat k)
            (mread m (buffer + k) (unat (len - of_nat k))) (n_cell (view d2))) (view d2) (view d')"
        by (rule less.hyps [OF _ d2(2,3)])
      moreover have "prog_range ?lk (address + of_nat k) (mread m (buffer + k) (unat len - k)) (prog_range ?lk address bs ?c)
        = prog_range ?lk address (mread m buffer (unat len)) ?c"
        using prog_range_append [of "address + of_nat k" address bs] nx(2) k(2) mread_add [of m buffer k "unat len - k"]
        by (simp add: bs_def)
      ultimately show ?thesis unfolding step
        using set_cells_simps [OF v2] len' set_cells_trans [OF v2] by auto
    qed
  qed
qed

end


text \<open>The byte a status read delivers.\<close>

definition sr_data :: "flash_opcode \<Rightarrow> u16 \<Rightarrow> u32" where
  "sr_data c s = (if c = FLASH_OPCODE_RDSR then ucast s AND 0xFF else drop_bit 8 (ucast s))"

lemma sr_data_low: "sr_data c s AND 0xFF = sr_data c s"
  unfolding sr_data_def byte_masks by (rule bit_word_eqI) (auto simp: bit_simps dest: bit_imp_le_length)

context nor_controller
begin

lemma write_data_ok:
  assumes "ok d" "n_tx (view d) = []" "unat address + unat len \<le> 0x1000000"
    "address AND NOT 0x1F < fc_flash_size cfg" "len \<le> fc_flash_size cfg"
    "(address AND NOT 0x1F) + len \<le> fc_flash_size cfg" "len \<noteq> 0"
  obtains d' where "flash_write_data io cfg m buffer address len d = Some d'" "ok d'" "busy d' = 0"
    "set_cells (prog_range (prot (n_sr (view d))) address (mread m buffer (unat len)) (n_cell (view d)))
      (view d) (view d')"
proof -
  let ?a = "address AND NOT 0x1F" and ?c = "n_cell (view d)"
  have pos: "0 < unat len" using assms(7) by (simp add: unat_gt_0)
  have page32: "unat ?a + 32 \<le> 0x1000000"
  proof -
    have "unat ?a = 32 * (unat address div 32)" unfolding page_facts(1) by (simp only: minus_mod_eq_mult_div)
    moreover have "unat address div 32 < 0x80000" using assms(3) pos by (simp add: div_less_iff_less_mult)
    ultimately show ?thesis by linarith
  qed
  obtain pb d1 where st: "(if address mod 32 \<noteq> 0 then flash_read_data io ?a 32 d
        else Some (replicate 32 0xFF, d)) = Some (pb, d1)"
    and d1: "ok d1" "set_cells ?c (view d) (view d1)" "length pb = 32"
    and neutral: "\<And>j. j < unat address mod 32 \<Longrightarrow> pb ! j = 0xFF \<or> pb ! j = ?c (?a + of_nat j)"
  proof (cases "address mod 32 = 0")
    case True
    then have "unat address mod 32 = 0" using page_facts(2) [of address] by simp
    then show ?thesis using that [of "replicate 32 0xFF" d] True assms(1) by (simp add: set_cells_same)
  next
    case False
    obtain e where e: "flash_read_data io ?a 32 d = Some (cells ?c ?a 32, e)" "ok e"
      "view e = (view d)\<lparr>n_rx := []\<rparr>"
      by (rule read_data_ok [OF assms(1), of ?a 32]) (use page32 in auto)
    show ?thesis
      by (rule that [of "cells ?c ?a 32" e])
        (use False e mod_less_divisor [of 32 "unat address"] in \<open>auto simp: set_cells_same less_trans\<close>)
  qed
  obtain d2 where d2: "fl_wait io d1 = Some d2" "ok d2" "busy d2 = 0" "view d2 = view d1"
    using wait_ok [OF d1(1)] .
  note sc = set_cells_simps [OF d1(2)]
  have "\<exists>d'. wr_loop io m buffer address ?a len pb d2 = Some d' \<and> ok d' \<and> busy d' = 0
    \<and> set_cells (prog_range (prot (n_sr (view d2))) address (mread m buffer (unat len)) (n_cell (view d2)))
        (view d2) (view d')"
    by (rule wr_loop_ok [OF d2(2,3) _ refl d1(3) assms(3)]) (use neutral sc assms(2) d2(4) in auto)
  then obtain d' where d': "wr_loop io m buffer address ?a len pb d2 = Some d'" "ok d'" "busy d' = 0"
    "set_cells (prog_range (prot (n_sr (view d))) address (mread m buffer (unat len)) ?c) (view d) (view d')"
    using sc d2(4) set_cells_trans [OF d1(2)] by auto
  have "\<not> (?a \<ge> fc_flash_size cfg \<or> len > fc_flash_size cfg \<or> ?a + len > fc_flash_size cfg)"
    using assms(4-6) by (simp only: not_le not_less de_Morgan_disj)
  then have "flash_write_data io cfg m buffer address len d = Some d'"
    by (simp only: flash_write_data_def Let_def if_False st d2(1) d'(1) Option.bind.simps case_prod_conv)
  with d' that show ?thesis by blast
qed

lemma write_data_refused:
  assumes "address AND NOT 0x1F \<ge> fc_flash_size cfg \<or> len > fc_flash_size cfg
    \<or> (address AND NOT 0x1F) + len > fc_flash_size cfg"
  shows "flash_write_data io cfg m buffer address len d = Some d"
  using assms by (auto simp: flash_write_data_def Let_def)

lemma erase_ok:
  assumes "ok d" "address AND 0xFFF000 < fc_flash_size cfg"
  obtains d' where "flash_erase_sector io cfg address d = Some d'" "ok d'" "busy d' = 0"
    "view d' = (view d)\<lparr>n_cell := erase_sector (prot (n_sr (view d))) (address AND 0xFFF000) (n_cell (view d))\<rparr>"
proof -
  have "address AND 0xFFF000 \<le> 0xFFF000" by (rule word_and_le1)
  then have a24: "address AND 0xFFF000 < 0x1000000" by (rule le_less_trans) simp
  obtain d1 where d1: "fl_wait io d = Some d1" "ok d1" "busy d1 = 0" "view d1 = view d"
    using wait_ok [OF assms(1)] .
  obtain d' where d': "fl_cmd_at io (address AND 0xFFF000) FLASH_OPCODE_SE d1 = Some d'" "ok d'" "busy d' = 0"
    "view d' = nor_exec prot (opcode FLASH_OPCODE_SE) (address AND 0xFFF000) (view d1)"
    by (rule cmd_at_ok [OF d1(2,3) a24, of FLASH_OPCODE_SE]) auto
  have "\<not> address AND 0xFFF000 \<ge> fc_flash_size cfg" using assms(2) by (simp only: not_le)
  then have "flash_erase_sector io cfg address d = Some d'"
    using d1(1) d'(1) by (simp add: flash_erase_sector_def Let_def)
  moreover have "view d' = (view d)\<lparr>n_cell := erase_sector (prot (n_sr (view d))) (address AND 0xFFF000) (n_cell (view d))\<rparr>"
    using d'(4) d1(4) by (simp add: nor_exec_def)
  ultimately show ?thesis using that d'(2,3) by blast
qed

text \<open>Status reads change only the status data register.\<close>

lemma rdsr_ok:
  assumes "ok d" "busy d = 0" "c = FLASH_OPCODE_RDSR \<or> c = FLASH_OPCODE_RDSR2"
  obtains v d' d2 x where "fl_cmd io (op_type c OR OP_SW OR WP_VALUE) d = Some d'"
    "fio_read io REG_FLASH_SR_DATA_CRC_CNT d' = (v, d2)" "v AND 0xFF = sr_data c (n_sr (view d))"
    "ok d2" "busy d2 = 0" "view d2 = (view d)\<lparr>n_sreg := x\<rparr>"
proof -
  have "driver_cmd c" using assms(3) by auto
  then obtain d' where d': "fl_cmd io (op_type c OR OP_SW OR WP_VALUE) d = Some d'" "ok d'" "busy d' = 0"
    "view d' = nor_exec prot (opcode c) (addr_of (op_type c OR OP_SW OR WP_VALUE)) (view d)"
    using plain_cmd_ok [OF assms(1,2)] by blast
  obtain v d2 where r: "fio_read io REG_FLASH_SR_DATA_CRC_CNT d' = (v, d2)" by force
  note sr = sreg_read [OF d'(2,3) r]
  have sreg: "view d' = (view d)\<lparr>n_sreg := (n_sreg (view d) AND NOT 0xFF) OR sr_data c (n_sr (view d))\<rparr>"
    using d'(4) assms(3) by (auto simp: nor_exec_def sr_data_def)
  have low: "((x AND NOT 0xFF) OR y) AND 0xFF = y AND 0xFF" for x y :: u32
    by (rule bit_word_eqI) (auto simp: byte_masks bit_simps)
  have "v AND 0xFF = sr_data c (n_sr (view d))"
    using sr sreg low sr_data_low by simp
  then show ?thesis using that [OF d'(1) r] sr sreg by auto
qed

end


section \<open>Status and protection\<close>

lemma status_halves:
  fixes s :: u16 and v w :: u32
  assumes "v AND 0xFF = ucast s AND 0xFF" and "w AND 0xFF = drop_bit 8 (ucast s)"
  shows "ucast (v AND 0x00FF) = s AND 0xFF"
    and "ucast (v AND 0x00FF) OR ucast (push_bit 8 (w AND 0x00FF)) = s"
proof -
  have m: "(0xFF :: u16) = mask 8" by (simp add: mask_eq_exp_minus_1)
  show "ucast (v AND 0x00FF) = s AND 0xFF"
    unfolding assms unfolding m byte_masks by (rule bit_word_eqI) (auto simp: bit_simps)
  show "ucast (v AND 0x00FF) OR ucast (push_bit 8 (w AND 0x00FF)) = s"
    unfolding assms unfolding byte_masks by (rule bit_word_eqI) (auto simp: bit_simps)
qed

lemma wrsr_field:
  fixes val :: u16 and cf :: u32
  shows "ucast (drop_bit 10 ((cf AND NOT (push_bit 10 WRSR_DATA_MASK)) OR push_bit 10 (ucast val))) = val"
proof -
  have m: "WRSR_DATA_MASK = mask 16" by (simp add: WRSR_DATA_MASK_def mask_eq_exp_minus_1)
  show ?thesis unfolding m by (rule bit_word_eqI) (auto simp: bit_simps)
qed

definition status_of :: "u8 \<Rightarrow> u16 \<Rightarrow> u16" where
  "status_of w s = (if w = 2 then s else s AND 0xFF)"

context nor_controller
begin

lemma read_sr_ok:
  assumes "ok d"
  obtains d' x where "flash_read_sr io w d = Some (status_of w (n_sr (view d)), d')" "ok d'" "busy d' = 0"
    "view d' = (view d)\<lparr>n_sreg := x\<rparr>"
proof -
  obtain d0 where d0: "fl_wait io d = Some d0" "ok d0" "busy d0 = 0" "view d0 = view d"
    using wait_ok [OF assms] .
  obtain v d1 d1' x where d1: "fl_cmd io (op_type FLASH_OPCODE_RDSR OR OP_SW OR WP_VALUE) d0 = Some d1"
    "fio_read io REG_FLASH_SR_DATA_CRC_CNT d1 = (v, d1')" "v AND 0xFF = sr_data FLASH_OPCODE_RDSR (n_sr (view d0))"
    "ok d1'" "busy d1' = 0" "view d1' = (view d0)\<lparr>n_sreg := x\<rparr>"
    by (rule rdsr_ok [OF d0(2,3) disjI1 [OF refl]])
  obtain u d2 d2' y where d2: "fl_cmd io (op_type FLASH_OPCODE_RDSR2 OR OP_SW OR WP_VALUE) d1' = Some d2"
    "fio_read io REG_FLASH_SR_DATA_CRC_CNT d2 = (u, d2')" "u AND 0xFF = sr_data FLASH_OPCODE_RDSR2 (n_sr (view d1'))"
    "ok d2'" "busy d2' = 0" "view d2' = (view d1')\<lparr>n_sreg := y\<rparr>"
    by (rule rdsr_ok [OF d1(4,5) disjI2 [OF refl]])
  have "v AND 0xFF = ucast (n_sr (view d)) AND 0xFF" "u AND 0xFF = drop_bit 8 (ucast (n_sr (view d)))"
    using d0(4) d1(3,6) d2(3) by (simp_all add: sr_data_def)
  note st = status_halves [OF this]
  show ?thesis
  proof (cases "w = 2")
    case True
    then have "flash_read_sr io w d = Some (n_sr (view d), d2')"
      by (simp only: flash_read_sr_def d0(1) d1(1,2) d2(1,2) Option.bind.simps Let_def case_prod_conv
          st(2) simp_thms if_True)
    moreover have "view d2' = (view d)\<lparr>n_sreg := y\<rparr>" using d0(4) d1(6) d2(6) by simp
    ultimately show ?thesis using that d2 True by (simp add: status_of_def)
  next
    case False
    then have "flash_read_sr io w d = Some (n_sr (view d) AND 0xFF, d1')"
      using d0 d1 st(1) by (simp add: flash_read_sr_def)
    then show ?thesis using that d0(4) d1 False by (simp add: status_of_def)
  qed
qed

lemma put_wrsr_ok:
  assumes "ok d" "busy d = 0"
  shows "ok (put_wrsr io v d) \<and> busy (put_wrsr io v d) = 0 \<and> view (put_wrsr io v d)
    = (view d)\<lparr>n_conf := (n_conf (view d) AND NOT (push_bit 10 WRSR_DATA_MASK)) OR push_bit 10 v\<rparr>"
proof -
  obtain x d1 where r: "fio_read io REG_FLASH_CONF d = (x, d1)" by force
  note c = conf_read [OF assms r]
  then show ?thesis using conf_write [of d1 _ "(x AND NOT (push_bit 10 WRSR_DATA_MASK)) OR push_bit 10 v"] r
    by (simp add: put_wrsr_def Let_def)
qed

lemma write_sr_ok:
  assumes "ok d" "w = 1 \<or> w = 2"
  obtains d' cf where "flash_write_sr io w val d = Some d'" "ok d'" "busy d' = 0"
    "view d' = (view d)\<lparr>n_conf := cf, n_sr := (if w = 2 then val else (n_sr (view d) AND 0xFF00) OR (val AND 0xFF))\<rparr>"
proof -
  obtain d0 where d0: "fl_wait io d = Some d0" "ok d0" "busy d0 = 0" "view d0 = view d"
    using wait_ok [OF assms(1)] .
  let ?d1 = "put_wrsr io (ucast val) d0"
  have d1: "ok ?d1" "busy ?d1 = 0" "view ?d1 = (view d)\<lparr>n_conf := (n_conf (view d)
      AND NOT (push_bit 10 WRSR_DATA_MASK)) OR push_bit 10 (ucast val)\<rparr>"
    using put_wrsr_ok [OF d0(2,3), of "ucast val"] d0(4) by simp_all
  obtain d2 where d2: "fl_wait io ?d1 = Some d2" "ok d2" "busy d2 = 0" "view d2 = view ?d1"
    using wait_ok [OF d1(1)] .
  define c where "c = (if w = 1 then FLASH_OPCODE_WRSR else FLASH_OPCODE_WRSR2)"
  have "driver_cmd c" by (simp add: c_def)
  then obtain d3 where d3: "fl_cmd io (op_type c OR OP_SW OR WP_VALUE) d2 = Some d3" "ok d3" "busy d3 = 0"
    "view d3 = nor_exec prot (opcode c) (addr_of (op_type c OR OP_SW OR WP_VALUE)) (view d2)"
    using plain_cmd_ok [OF d2(2,3)] by blast
  have "flash_write_sr io w val d = Some d3"
    using assms(2) d0 d2 d3 by (auto simp: flash_write_sr_def fl_cmd_def c_def)
  moreover have "view d3 = (view d)\<lparr>n_conf := n_conf (view ?d1),
      n_sr := (if w = 2 then val else (n_sr (view d) AND 0xFF00) OR (val AND 0xFF))\<rparr>"
    using d3(4) d2(4) d1(3) assms(2) wrsr_field [of "n_conf (view d)" val]
    by (auto simp: nor_exec_def c_def)
  ultimately show ?thesis using that d3 by blast
qed

end


text \<open>Where the protection bits of a chip are: \<open>w\<close> block protect bits in the low status byte and the
  complement bit outside of them; the four codes fit into these bits.\<close>

definition code_fits :: "nat \<Rightarrow> u16 \<Rightarrow> bool" where
  "code_fits w code \<longleftrightarrow> code AND NOT (mask w OR 0x100) = 0"

definition chip_fits :: "flash_config_t \<Rightarrow> nat \<Rightarrow> bool" where
  "chip_fits cfg w \<longleftrightarrow> w \<le> 8 \<and> fc_protect_mask cfg = mask w \<and> unat (fc_protect_post cfg) + w \<le> 8
    \<and> (unat (fc_cmp_post cfg) < unat (fc_protect_post cfg)
       \<or> fc_sr_size cfg = 2 \<and> 8 \<le> unat (fc_cmp_post cfg) \<and> unat (fc_cmp_post cfg) < 16)
    \<and> (fc_sr_size cfg = 1 \<or> fc_sr_size cfg = 2)
    \<and> list_all (code_fits w) [fc_protect_all cfg, fc_protect_none cfg, fc_protect_half cfg, fc_unprotect_last_block cfg]"

lemma flash_config_fits: "list_all (\<lambda>cfg. chip_fits cfg 5 \<or> chip_fits cfg 4) flash_config"
  by code_simp

lemma code_fits_bit:
  assumes "code_fits w code" "bit code n"
  shows "n < w \<or> n = 8"
proof (rule ccontr)
  assume n: "\<not> (n < w \<or> n = 8)"
  have "(0x100 :: u16) = 2 ^ 8" by simp
  then have "\<not> bit (mask w OR 0x100 :: u16) n" using n by (simp only: bit_or_iff bit_mask_iff bit_exp_iff) auto
  then have "bit (code AND NOT (mask w OR 0x100)) n"
    using assms(2) bit_imp_le_length [OF assms(2)] by (simp only: bit_and_iff bit_not_iff_eq) (simp add: possible_bit_def)
  then show False using assms(1) by (simp add: code_fits_def)
qed

lemma protect_code_fits: "chip_fits cfg w \<Longrightarrow> code_fits w (protect_code cfg ty)"
  by (simp add: chip_fits_def protect_code_def)

text \<open>The status with the protection bits set as asked, other bits kept.\<close>

lemma protect_status_bits:
  assumes "chip_fits cfg w"
    and "new = (case protect_status cfg ty value of Some v \<Rightarrow> v | None \<Rightarrow> value)"
  shows "bit new n \<longleftrightarrow> (if unat (fc_protect_post cfg) \<le> n \<and> n < unat (fc_protect_post cfg) + w
      then bit (protect_code cfg ty) (n - unat (fc_protect_post cfg))
      else if n = unat (fc_cmp_post cfg) then bit (protect_code cfg ty) 8 else bit value n)"
proof -
  let ?pp = "unat (fc_protect_post cfg)" and ?cp = "unat (fc_cmp_post cfg)" and ?code = "protect_code cfg ty"
  define p :: u32 where "p = ucast ?code AND 0xff"
  define c :: u32 where "c = drop_bit 8 (ucast ?code) AND 0xff"
  note fit = code_fits_bit [OF protect_code_fits [OF assms(1)], of ty]
  have w: "w \<le> 8" "?pp + w \<le> 8" "?cp < ?pp \<or> 8 \<le> ?cp \<and> ?cp < 16" "fc_protect_mask cfg = mask w"
    using assms(1) by (auto simp: chip_fits_def)
  have p: "bit p k \<longleftrightarrow> k < 8 \<and> bit ?code k" for k
    unfolding p_def byte_masks by (auto simp: bit_simps dest: bit_imp_le_length)
  have c: "bit c k \<longleftrightarrow> k = 0 \<and> bit ?code 8" for k
    unfolding c_def byte_masks using fit [of "8 + k"] w(1) by (auto simp: bit_simps)
  have m: "bit (ucast (fc_protect_mask cfg) :: u32) k \<longleftrightarrow> k < w" for k
    unfolding w(4) using w(1) by (auto simp: bit_simps)
  have one: "bit (1 :: u32) k \<longleftrightarrow> k = 0" for k by (simp add: bit_1_iff)
  have n32: "n < 32" if "bit x n" for x :: u32 and n using bit_imp_le_length [OF that] by simp
  note bits = bit_or_iff bit_and_iff bit_not_iff bit_push_bit_iff p c m one
  show ?thesis
  proof (cases "push_bit ?pp p \<noteq> value AND push_bit ?pp (ucast (fc_protect_mask cfg))
      \<or> push_bit ?cp c \<noteq> value AND push_bit ?cp 1")
    case True
    then have "new = (((value AND NOT (push_bit ?pp (ucast (fc_protect_mask cfg)))) OR push_bit ?pp p)
        AND NOT (push_bit ?cp 1)) OR push_bit ?cp (c AND 1)"
      unfolding assms(2) protect_status_def Let_def p_def [symmetric] c_def [symmetric] by simp
    then have new: "bit new n \<longleftrightarrow> (bit value n \<and> \<not> (?pp \<le> n \<and> n - ?pp < w)
        \<or> ?pp \<le> n \<and> n - ?pp < 8 \<and> bit ?code (n - ?pp)) \<and> n < 32 \<and> n \<noteq> ?cp
        \<or> n = ?cp \<and> n < 32 \<and> bit ?code 8"
      using n32 [of "value" n] w(2,3) by (simp only: bits possible_bit_def) auto
    consider "?pp \<le> n" "n < ?pp + w" | "n = ?cp" | "\<not> (?pp \<le> n \<and> n < ?pp + w)" "n \<noteq> ?cp" by blast
    then show ?thesis
    proof cases
      case 1
      then have "n \<noteq> ?cp" "n < 32" "n - ?pp < w" "n - ?pp < 8" using w by linarith+
      then show ?thesis using new 1 by simp
    next
      case 2
      then show ?thesis using new w by auto
    next
      case 3
      then show ?thesis using new fit [of "n - ?pp"] n32 [of "value" n] w
        by (cases "?pp \<le> n") auto
    qed
  next
    case False
    then have "new = value"
      unfolding assms(2) protect_status_def Let_def p_def [symmetric] c_def [symmetric] by simp
    moreover have "bit (push_bit ?pp p) n \<longleftrightarrow> bit (value AND push_bit ?pp (ucast (fc_protect_mask cfg))) n"
      "bit (push_bit ?cp c) n \<longleftrightarrow> bit (value AND push_bit ?cp 1) n" using False by metis+
    then have f: "n < 32 \<and> ?pp \<le> n \<and> n - ?pp < 8 \<and> bit ?code (n - ?pp) \<longleftrightarrow> bit value n \<and> ?pp \<le> n \<and> n - ?pp < w"
      "n < 32 \<and> n = ?cp \<and> bit ?code 8 \<longleftrightarrow> bit value n \<and> n = ?cp"
      using n32 [of "value" n] by (simp_all only: bits possible_bit_def) auto
    consider "?pp \<le> n" "n < ?pp + w" | "n = ?cp" | "\<not> (?pp \<le> n \<and> n < ?pp + w)" "n \<noteq> ?cp" by blast
    then have "bit value n \<longleftrightarrow> (if ?pp \<le> n \<and> n < ?pp + w then bit ?code (n - ?pp)
      else if n = ?cp then bit ?code 8 else bit value n)"
    proof cases
      case 1
      then have "n < 32" "n - ?pp < w" "n - ?pp < 8" using w by linarith+
      then show ?thesis using f(1) 1 by simp
    next
      case 2
      then have "n < 32" "\<not> (?pp \<le> n \<and> n < ?pp + w)" using w by linarith+
      then show ?thesis using f(2) 2 by auto
    next
      case 3
      then show ?thesis by auto
    qed
    ultimately show ?thesis by simp
  qed
qed

text \<open>The type that a code stands for, in the order of the comparisons.\<close>

definition type_of_code :: "flash_config_t \<Rightarrow> u16 \<Rightarrow> u32" where
  "type_of_code cfg code =
    (if code = fc_protect_all cfg then FLASH_PROTECT_ALL
     else if code = fc_protect_none cfg then FLASH_PROTECT_NONE
     else if code = fc_protect_half cfg then FLASH_PROTECT_HALF
     else if code = fc_unprotect_last_block cfg then FLASH_UNPROTECT_LAST_BLOCK
     else 0xFFFF)"

lemma protect_of_code:
  assumes "chip_fits cfg w" and "code_fits w code"
    and "\<And>k. k < w \<Longrightarrow> bit s (unat (fc_protect_post cfg) + k) = bit code k"
    and "bit s (unat (fc_cmp_post cfg)) = bit code 8"
  shows "protect_of cfg s = type_of_code cfg code"
proof -
  have w: "w \<le> 8" "fc_protect_mask cfg = mask w" using assms(1) by (auto simp: chip_fits_def)
  have m: "bit (ucast (fc_protect_mask cfg) :: u16) k \<longleftrightarrow> k < w" for k
    unfolding w(2) using w(1) by (auto simp: bit_simps)
  have one: "bit (1 :: u16) k \<longleftrightarrow> k = 0" for k by (simp add: bit_1_iff)
  have "push_bit 8 (drop_bit (unat (fc_cmp_post cfg)) s AND 0x01)
      OR (drop_bit (unat (fc_protect_post cfg)) s AND ucast (fc_protect_mask cfg)) = code"
  proof (rule bit_word_eqI)
    fix n assume "n < LENGTH(16)"
    then show "bit (push_bit 8 (drop_bit (unat (fc_cmp_post cfg)) s AND 0x01)
        OR (drop_bit (unat (fc_protect_post cfg)) s AND ucast (fc_protect_mask cfg))) n = bit code n"
      using assms(3) [of n] assms(4) code_fits_bit [OF assms(2), of n] w(1)
      by (simp only: bit_or_iff bit_and_iff bit_push_bit_iff bit_drop_bit_eq m one) auto
  qed
  then show ?thesis unfolding protect_of_def Let_def type_of_code_def by simp
qed


context nor_controller
begin

lemma set_protect_ok:
  assumes "ok d" "chip_fits cfg w"
  obtains d' where "set_flash_protect io cfg ty d = Some d'" "ok d'" "busy d' = 0"
    "n_cell (view d') = n_cell (view d)" "n_tx (view d') = n_tx (view d)"
    "protect_of cfg (status_of (fc_sr_size cfg) (n_sr (view d'))) = type_of_code cfg (protect_code cfg ty)"
    "\<And>n. \<lbrakk>n \<noteq> unat (fc_cmp_post cfg); n < unat (fc_protect_post cfg) \<or> unat (fc_protect_post cfg) + w \<le> n\<rbrakk>
      \<Longrightarrow> bit (n_sr (view d')) n = bit (n_sr (view d)) n"
proof -
  let ?sz = "fc_sr_size cfg" and ?pp = "unat (fc_protect_post cfg)" and ?cp = "unat (fc_cmp_post cfg)"
    and ?code = "protect_code cfg ty" and ?sr = "n_sr (view d)"
  have sz: "?sz = 1 \<or> ?sz = 2" and w: "w \<le> 8" "?pp + w \<le> 8"
    and cp: "?cp < ?pp \<or> ?sz = 2 \<and> 8 \<le> ?cp \<and> ?cp < 16"
    using assms(2) by (auto simp: chip_fits_def)
  obtain d1 x where d1: "flash_read_sr io ?sz d = Some (status_of ?sz ?sr, d1)" "ok d1" "busy d1 = 0"
    "view d1 = (view d)\<lparr>n_sreg := x\<rparr>" using read_sr_ok [OF assms(1)] .
  define val :: u32 where "val = ucast (status_of ?sz ?sr)"
  define new where "new = (case protect_status cfg ty val of Some v \<Rightarrow> v | None \<Rightarrow> val)"
  note nb = protect_status_bits [OF assms(2) new_def]
  have m: "(0xFF :: u16) = mask 8" "(0xFF00 :: u16) = push_bit 8 (mask 8)" by (simp_all add: mask_eq_exp_minus_1)
  have vb: "bit val n \<longleftrightarrow> bit ?sr n \<and> (?sz = 2 \<or> n < 8)" for n
    unfolding val_def status_of_def m by (auto simp: bit_simps dest: bit_imp_le_length)
  define sr' where "sr' = (if ?sz = 2 then ucast new else (?sr AND 0xFF00) OR (ucast new AND 0xFF))"
  obtain d' where d': "set_flash_protect io cfg ty d = Some d'" "ok d'" "busy d' = 0"
    "n_cell (view d') = n_cell (view d)" "n_tx (view d') = n_tx (view d)" "n_sr (view d') = sr'"
  proof (cases "protect_status cfg ty val")
    case None
    have "sr' = ?sr" unfolding sr'_def new_def None
      by (rule bit_word_eqI) (auto simp: m bit_simps vb)
    then show ?thesis using that [of d1] None d1 by (simp add: set_flash_protect_def val_def)
  next
    case (Some v)
    obtain d2 cf where d2: "flash_write_sr io ?sz (ucast v) d1 = Some d2" "ok d2" "busy d2 = 0"
      "view d2 = (view d1)\<lparr>n_conf := cf, n_sr := (if ?sz = 2 then ucast v
        else (n_sr (view d1) AND 0xFF00) OR (ucast v AND 0xFF))\<rparr>"
      using write_sr_ok [OF d1(2) sz] .
    have "new = v" "n_sr (view d1) = ?sr" using Some d1(4) by (simp_all add: new_def)
    then show ?thesis using that [of d2] d2 Some d1 by (simp add: set_flash_protect_def val_def sr'_def)
  qed
  have sb: "bit sr' n \<longleftrightarrow> (if ?sz = 2 \<or> n < 8 then n < 16 \<and> bit new n else bit ?sr n)" for n
    unfolding sr'_def m by (auto simp: bit_simps dest: bit_imp_le_length)
  have st: "bit (status_of ?sz sr') n \<longleftrightarrow> (?sz = 2 \<or> n < 8) \<and> n < 16 \<and> bit new n" for n
    unfolding status_of_def m by (auto simp: bit_simps sb)
  have "protect_of cfg (status_of ?sz sr') = type_of_code cfg ?code"
  proof (rule protect_of_code [OF assms(2) protect_code_fits [OF assms(2)]])
    fix k assume "k < w"
    then show "bit (status_of ?sz sr') (?pp + k) = bit ?code k" using w by (simp add: st nb)
  next
    have "?cp < 16" "?sz = 2 \<or> ?cp < 8" "\<not> (?pp \<le> ?cp \<and> ?cp < ?pp + w)" using cp w by auto
    then show "bit (status_of ?sz sr') ?cp = bit ?code 8" by (auto simp: st nb)
  qed
  moreover have "bit sr' n = bit ?sr n" if "n \<noteq> ?cp" "n < ?pp \<or> ?pp + w \<le> n" for n
    using that bit_imp_le_length [of ?sr n] by (auto simp: sb nb vb)
  ultimately show ?thesis using that [OF d'(1-5)] d'(6) by simp
qed

end


section \<open>The device operations\<close>

lemma flash_cmd_of_no: "flash_cmd_of (flash_cmd_no c) = Some c"
proof -
  have "list_all (\<lambda>c. flash_cmd_of (flash_cmd_no c) = Some c) flash_cmds" by code_simp
  moreover have "c \<in> set flash_cmds" by (cases c) (simp_all add: flash_cmds_def)
  ultimately show ?thesis by (simp add: list_all_iff)
qed

lemma peri_busy_simps [simp]:
  "peri_busy_count_dec (peri_busy_count_add w) = w"
  "fw_dev (peri_busy_count_add w) = fw_dev w" "fw_mem (peri_busy_count_add w) = fw_mem w"
  "fw_config (peri_busy_count_add w) = fw_config w"
  "peri_busy_count_dec ((peri_busy_count_add w)\<lparr>fw_dev := d\<rparr>) = w\<lparr>fw_dev := d\<rparr>"
  "peri_busy_count_dec ((peri_busy_count_add w)\<lparr>fw_dev := d, fw_mem := m\<rparr>) = w\<lparr>fw_dev := d, fw_mem := m\<rparr>"
  by (simp_all add: peri_busy_count_add_def peri_busy_count_dec_def)

text \<open>Every chip of the table is run with two data lines, so that reads and writes do not switch modes.\<close>

lemma flash_config_lines: "list_all (\<lambda>cfg. fc_line_mode cfg = 2 \<and> fc_flash_size cfg \<le> 0x800000) flash_config"
  by (simp add: flash_config_def chip_def)

lemma flash_config_all:
  assumes "cfg \<in> set flash_config"
  shows "fc_line_mode cfg \<noteq> 4" and "unat (fc_flash_size cfg) \<le> 0x800000" and "\<exists>w. chip_fits cfg w"
proof -
  have "fc_line_mode cfg = 2" "fc_flash_size cfg \<le> 0x800000"
    using assms flash_config_lines by (auto simp: list_all_iff)
  then show "fc_line_mode cfg \<noteq> 4" "unat (fc_flash_size cfg) \<le> 0x800000"
    by (simp_all add: word_le_nat_alt)
  show "\<exists>w. chip_fits cfg w" using assms flash_config_fits by (auto simp: list_all_iff)
qed

lemma switch_line_mode_none:
  "\<lbrakk>fw_config w = Some cfg; fc_line_mode cfg \<noteq> 4\<rbrakk> \<Longrightarrow> switch_line_mode io mode w = Inr w"
  by (simp add: switch_line_mode_def with_config_def)

lemma flash_ctrl_none:
  assumes "fw_config w = Some cfg" "fc_line_mode cfg \<noteq> 4"
    and "flash_ctrl_cmd io sctrl c parm cfg (peri_busy_count_add w)
      = Inr (ret, (peri_busy_count_add w)\<lparr>fw_dev := d\<rparr>)"
  shows "flash_ctrl io sctrl (flash_cmd_no c) parm w = Inr (ret, w\<lparr>fw_dev := d\<rparr>)"
  using assms by (simp add: flash_ctrl_def switch_line_mode_none [of _ cfg] flash_cmd_of_no with_config_def)

context nor_controller
begin

lemma flash_read_ok:
  assumes "ok (fw_dev w)" "unat address + unat count \<le> 0x1000000"
  obtains d' where "flash_read io p count address w = Inr (FLASH_SUCCESS, w\<lparr>fw_dev := d',
      fw_mem := mwrite (fw_mem w) (unat (pa_addr p)) (cells (n_cell (view (fw_dev w))) address (unat count))\<rparr>)"
    "ok d'" "set_cells (n_cell (view (fw_dev w))) (view (fw_dev w)) (view d')"
proof -
  obtain d' where d': "flash_read_data io address count (fw_dev w)
      = Some (cells (n_cell (view (fw_dev w))) address (unat count), d')" "ok d'"
    "view d' = (if count = 0 then view (fw_dev w) else (view (fw_dev w))\<lparr>n_rx := []\<rparr>)"
    using read_data_ok [OF assms] by metis
  show ?thesis
    by (rule that [of d']) (use d' in \<open>auto simp: flash_read_def from_dev_def intro: set_cells_same\<close>)
qed

lemma flash_write_ok:
  assumes "ok (fw_dev w)" "n_tx (view (fw_dev w)) = []" "fw_config w = Some cfg" "fc_line_mode cfg \<noteq> 4"
    and "unat address + unat count \<le> unat (fc_flash_size cfg)" "unat (fc_flash_size cfg) \<le> 0x1000000" "count \<noteq> 0"
  obtains d' where "flash_write io p count address w = Inr (FLASH_SUCCESS, w\<lparr>fw_dev := d'\<rparr>)" "ok d'"
    "set_cells (prog_range (prot (n_sr (view (fw_dev w)))) address
      (mread (fw_mem w) (unat (pa_addr p)) (unat count)) (n_cell (view (fw_dev w)))) (view (fw_dev w)) (view d')"
proof -
  let ?sz = "fc_flash_size cfg" and ?a = "address AND NOT 0x1F"
  have pos: "0 < unat count" using assms(7) by (simp add: unat_gt_0)
  have le: "unat ?a \<le> unat address" unfolding page_facts(1) by simp
  have "unat ?a + unat count \<le> unat ?sz" using le assms(5) by linarith
  then have chk: "?a < ?sz" "count \<le> ?sz" "?a + count \<le> ?sz"
    using pos unat_add_le [of ?a count ?sz] unfolding word_less_nat_alt word_le_nat_alt by linarith+
  have b: "unat address + unat count \<le> 0x1000000" using assms(5,6) by linarith
  obtain d' where d': "flash_write_data io cfg (fw_mem w) (unat (pa_addr p)) address count (fw_dev w) = Some d'" "ok d'"
    "set_cells (prog_range (prot (n_sr (view (fw_dev w)))) address
      (mread (fw_mem w) (unat (pa_addr p)) (unat count)) (n_cell (view (fw_dev w)))) (view (fw_dev w)) (view d')"
    using write_data_ok [OF assms(1,2) b chk assms(7)] by metis
  have "flash_write io p count address w = Inr (FLASH_SUCCESS, w\<lparr>fw_dev := d'\<rparr>)"
    using d'(1) assms(3,4)
    by (simp add: flash_write_def switch_line_mode_none [of _ cfg] with_config_def on_dev_def)
  with d' that show ?thesis by blast
qed

lemma flash_ctrl_erase_ok:
  assumes "ok (fw_dev w)" "fw_config w = Some cfg" "fc_line_mode cfg \<noteq> 4"
    and "param_u32 p = Inr address" "address AND 0xFFF000 < fc_flash_size cfg"
  obtains d' where "flash_ctrl io sctrl (flash_cmd_no CMD_FLASH_ERASE_SECTOR) p w
      = Inr (FLASH_SUCCESS, w\<lparr>fw_dev := d'\<rparr>)" "ok d'"
    "view d' = (view (fw_dev w))\<lparr>n_cell := erase_sector (prot (n_sr (view (fw_dev w)))) (address AND 0xFFF000)
      (n_cell (view (fw_dev w)))\<rparr>"
proof -
  obtain d' where d': "flash_erase_sector io cfg address (fw_dev w) = Some d'" "ok d'"
    "view d' = (view (fw_dev w))\<lparr>n_cell := erase_sector (prot (n_sr (view (fw_dev w)))) (address AND 0xFFF000)
      (n_cell (view (fw_dev w)))\<rparr>" using erase_ok [OF assms(1,5)] by metis
  have "flash_ctrl_cmd io sctrl CMD_FLASH_ERASE_SECTOR p cfg (peri_busy_count_add w)
      = Inr (FLASH_SUCCESS, (peri_busy_count_add w)\<lparr>fw_dev := d'\<rparr>)"
    using d'(1) assms(4) by (simp add: flash_ctrl_cmd_def on_dev_def)
  from flash_ctrl_none [OF assms(2,3) this] d' that show ?thesis by blast
qed

lemma flash_ctrl_protect_ok:
  assumes "ok (fw_dev w)" "fw_config w = Some cfg" "fc_line_mode cfg \<noteq> 4"
    and "param_u32 p = Inr ty" "chip_fits cfg k"
  obtains d' where "flash_ctrl io sctrl (flash_cmd_no CMD_FLASH_SET_PROTECT) p w
      = Inr (FLASH_SUCCESS, w\<lparr>fw_dev := d'\<rparr>)" "ok d'"
    "n_cell (view d') = n_cell (view (fw_dev w))" "n_tx (view d') = n_tx (view (fw_dev w))"
    "protect_of cfg (status_of (fc_sr_size cfg) (n_sr (view d'))) = type_of_code cfg (protect_code cfg ty)"
proof -
  obtain d' where d': "set_flash_protect io cfg ty (fw_dev w) = Some d'" "ok d'"
    "n_cell (view d') = n_cell (view (fw_dev w))" "n_tx (view d') = n_tx (view (fw_dev w))"
    "protect_of cfg (status_of (fc_sr_size cfg) (n_sr (view d'))) = type_of_code cfg (protect_code cfg ty)"
    using set_protect_ok [OF assms(1,5), of ty] by metis
  have "flash_ctrl_cmd io sctrl CMD_FLASH_SET_PROTECT p cfg (peri_busy_count_add w)
      = Inr (FLASH_SUCCESS, (peri_busy_count_add w)\<lparr>fw_dev := d'\<rparr>)"
    using d'(1) assms(4) by (simp add: flash_ctrl_cmd_def on_dev_def flash_protection_op_def)
  from flash_ctrl_none [OF assms(2,3) this] d' that show ?thesis by blast
qed

end

end
