(* ===== verification/Flash_Spec.thy ===== *)
theory Flash_Spec
  imports Flash_Nor
begin

text \<open>
  What the flash device promises: erasing, writing and reading back a block, the exact effect of a write,
  protection types that read back, and what happens for addresses outside the chip.
\<close>

section \<open>Sectors\<close>

lemma sector_base: "address < 0x1000000 \<Longrightarrow> address AND 0xFFF000 = address AND NOT 0xFFF" for address :: u32
proof -
  assume a: "address < 0x1000000"
  have low: "bit address n \<Longrightarrow> n < 24" for n using addr_high [OF a] by (meson not_le)
  have m: "(0xFFF000 :: u32) = mask 24 AND NOT (mask 12)" by (simp add: mask_eq_exp_minus_1)
  show ?thesis unfolding m byte_masks
    by (rule bit_word_eqI) (auto simp: bit_simps dest: low)
qed

lemma same_sector: "x AND NOT 0xFFF = y AND NOT 0xFFF \<longleftrightarrow> unat x div 4096 = unat y div 4096" for x y :: u32
proof -
  have "unat (x AND NOT 0xFFF) = 4096 * (unat x div 4096)" "unat (y AND NOT 0xFFF) = 4096 * (unat y div 4096)"
    unfolding byte_masks unat_and_not_mask using minus_mod_eq_mult_div [of _ "4096 :: nat"] by simp_all
  then show ?thesis using unat_eq_iff_u32 [of "x AND NOT 0xFFF" "y AND NOT 0xFFF"] by simp
qed

lemma erase_sector_at:
  assumes "address < 0x1000000"
  shows "erase_sector locked (address AND 0xFFF000) c x
    = (if unat x div 4096 = unat address div 4096 \<and> \<not> locked x then 0xFF else c x)"
  unfolding erase_sector_def sector_base [OF assms] and.assoc and.idem same_sector ..

lemma in_sector:
  fixes address x :: u32
  assumes "unat address mod 4096 + n \<le> 4096" "unat address \<le> unat x" "unat x < unat address + n"
  shows "unat x div 4096 = unat address div 4096"
proof (rule div_nat_eqI)
  have "unat address = 4096 * (unat address div 4096) + unat address mod 4096" by simp
  then show "4096 * (unat address div 4096) \<le> unat x" "unat x < 4096 * Suc (unat address div 4096)"
    unfolding mult_Suc_right using assms by linarith+
qed

lemma prog_range_outside:
  "\<not> (unat a \<le> unat x \<and> unat x < unat a + length bs) \<Longrightarrow> prog_range locked a bs c x = c x"
  by (auto simp: prog_range_def)

lemma cells_prog_range:
  assumes "unat a + length bs < 4294967296"
    and "\<And>x. \<lbrakk>unat a \<le> unat x; unat x < unat a + length bs\<rbrakk> \<Longrightarrow> c x = 0xFF \<and> \<not> locked x"
  shows "cells (prog_range locked a bs c) a (length bs) = bs"
proof (rule nth_equalityI)
  fix i assume i: "i < length (cells (prog_range locked a bs c) a (length bs))"
  have "unat (a + of_nat i) = unat a + i"
    using i assms(1) by (simp add: unat_add_fit unat_of_nat_u32)
  then show "cells (prog_range locked a bs c) a (length bs) ! i = bs ! i"
    using i assms(2) [of "a + of_nat i"] u8_and_FF [of "bs ! i"] by (simp add: prog_range_def and.commute)
qed simp

text \<open>Erasing the sector of a block and programming the block leaves the data there and nothing else changed.\<close>

lemma sector_rewrite:
  fixes locked :: "u32 \<Rightarrow> bool" and c :: "u32 \<Rightarrow> u8"
  assumes a: "address < 0x1000000" and blk: "unat address mod 4096 + length bs \<le> 4096"
    and free: "\<forall>x. unat address \<le> unat x \<and> unat x < unat address + length bs \<longrightarrow> \<not> locked x"
  defines "new \<equiv> prog_range locked address bs (erase_sector locked (address AND 0xFFF000) c)"
  shows "cells new address (length bs) = bs"
    and "unat x div 4096 \<noteq> unat address div 4096 \<Longrightarrow> new x = c x"
proof -
  note er = erase_sector_at [OF a, of locked c]
  have "erase_sector locked (address AND 0xFFF000) c y = 0xFF \<and> \<not> locked y"
    if "unat address \<le> unat y" "unat y < unat address + length bs" for y
    using free that in_sector [OF blk that] unfolding er by simp
  moreover have "unat address + length bs < 4294967296" using a blk by (simp add: word_less_nat_alt)
  ultimately show "cells new address (length bs) = bs" unfolding new_def by (intro cells_prog_range)
  assume x: "unat x div 4096 \<noteq> unat address div 4096"
  then have "\<not> (unat address \<le> unat x \<and> unat x < unat address + length bs)" using in_sector [OF blk, of x] by auto
  from prog_range_outside [OF this] show "new x = c x" using er [of x] x unfolding new_def by simp
qed

section \<open>Protection through the device\<close>

lemma flash_ctrl_get:
  assumes "fw_config w = Some cfg" "fc_line_mode cfg \<noteq> 4" "pa_addr p \<noteq> 0"
    and "get_flash_protect io cfg (fw_dev w) = Some (ty, d)"
  shows "flash_ctrl io sctrl (flash_cmd_no CMD_FLASH_GET_PROTECT) p w
    = Inr (FLASH_SUCCESS, w\<lparr>fw_dev := d, fw_mem := mwrite (fw_mem w) (unat (pa_addr p)) (word_bytes ty)\<rparr>)"
  using assms
  by (simp add: flash_ctrl_def switch_line_mode_none [of _ cfg] flash_cmd_of_no with_config_def
      flash_ctrl_cmd_def from_dev_def store_param_def)

text \<open>What a protection type reads back as, on each chip.\<close>

definition reads_back :: "flash_config_t \<Rightarrow> u32 \<Rightarrow> u32" where
  "reads_back cfg ty =
    (if fc_flash_id cfg = 0 then FLASH_PROTECT_ALL
     else if fc_flash_id cfg = 0x1C7015 \<and> ty = FLASH_UNPROTECT_LAST_BLOCK then FLASH_PROTECT_HALF
     else if fc_flash_id cfg = 0xEF4016 \<and> ty = FLASH_PROTECT_HALF then FLASH_PROTECT_NONE
     else ty)"

lemma reads_back_code:
  assumes "cfg \<in> set flash_config"
    and "ty \<in> {FLASH_PROTECT_NONE, FLASH_PROTECT_ALL, FLASH_PROTECT_HALF, FLASH_UNPROTECT_LAST_BLOCK}"
  shows "type_of_code cfg (protect_code cfg ty) = reads_back cfg ty"
proof -
  have "list_all (\<lambda>c. list_all (\<lambda>ty. type_of_code c (protect_code c ty) = reads_back c ty)
    [FLASH_PROTECT_NONE, FLASH_PROTECT_ALL, FLASH_PROTECT_HALF, FLASH_UNPROTECT_LAST_BLOCK]) flash_config"
    by code_simp
  then show ?thesis using assms by (auto simp: list_all_iff)
qed

section \<open>Properties\<close>

text \<open>C5: What is written to an erased block is read back. On a controller that behaves like a NOR
  flash, with a chip of the table, erasing the sector of a block, writing the block and reading it
  succeed; the bytes read are the bytes written, and no cell outside the sector changes. The block
  lies in one sector and in the chip, and is not write protected.\<close>

theorem flash_erase_write_read:
  assumes hw: "nor_controller io ok busy view prot"
    and w: "ok (fw_dev w)" "n_tx (view (fw_dev w)) = []" "fw_config w = Some cfg" "cfg \<in> set flash_config"
    and blk: "unat address + unat count \<le> unat (fc_flash_size cfg)" "unat address mod 4096 + unat count \<le> 4096"
      "count \<noteq> 0"
    and free: "\<forall>x. unat address \<le> unat x \<and> unat x < unat address + unat count
      \<longrightarrow> \<not> prot (n_sr (view (fw_dev w))) x"
  shows "\<exists>w1 w2 w3. flash_ctrl io sctrl (flash_cmd_no CMD_FLASH_ERASE_SECTOR) (param_of (Obj_u32 address)) w
        = Inr (FLASH_SUCCESS, w1)
    \<and> flash_write io p count address w1 = Inr (FLASH_SUCCESS, w2)
    \<and> flash_read io q count address w2 = Inr (FLASH_SUCCESS, w3)
    \<and> mread (fw_mem w3) (unat (pa_addr q)) (unat count) = mread (fw_mem w) (unat (pa_addr p)) (unat count)
    \<and> (\<forall>x. unat x div 4096 \<noteq> unat address div 4096
        \<longrightarrow> n_cell (view (fw_dev w3)) x = n_cell (view (fw_dev w)) x)"
proof -
  note cf = flash_config_all [OF w(4)]
  let ?v = "view (fw_dev w)" and ?bs = "mread (fw_mem w) (unat (pa_addr p)) (unat count)"
  have pos: "0 < unat count" using blk(3) by (simp add: unat_gt_0)
  have a: "address < 0x1000000" using blk(1) pos cf(2) by (simp add: word_less_nat_alt)
  have "address AND 0xFFF000 \<le> address" by (rule word_and_le2)
  moreover have "address < fc_flash_size cfg" using blk(1) pos by (simp add: word_less_nat_alt)
  ultimately have es: "address AND 0xFFF000 < fc_flash_size cfg" by (rule le_less_trans)
  obtain d1 where d1: "flash_ctrl io sctrl (flash_cmd_no CMD_FLASH_ERASE_SECTOR) (param_of (Obj_u32 address)) w
      = Inr (FLASH_SUCCESS, w\<lparr>fw_dev := d1\<rparr>)" "ok d1"
    "view d1 = ?v\<lparr>n_cell := erase_sector (prot (n_sr ?v)) (address AND 0xFFF000) (n_cell ?v)\<rparr>"
    using nor_controller.flash_ctrl_erase_ok [OF hw w(1,3) cf(1) param_of_simps(1) es] by metis
  let ?w1 = "w\<lparr>fw_dev := d1\<rparr>"
  have w1: "ok (fw_dev ?w1)" "n_tx (view (fw_dev ?w1)) = []" "fw_config ?w1 = Some cfg"
    "unat (fc_flash_size cfg) \<le> 0x1000000" using d1 w cf(2) by simp_all
  obtain d2 where d2: "flash_write io p count address ?w1 = Inr (FLASH_SUCCESS, ?w1\<lparr>fw_dev := d2\<rparr>)" "ok d2"
    "set_cells (prog_range (prot (n_sr (view (fw_dev ?w1)))) address (mread (fw_mem ?w1) (unat (pa_addr p)) (unat count))
      (n_cell (view (fw_dev ?w1)))) (view (fw_dev ?w1)) (view d2)"
    using nor_controller.flash_write_ok [OF hw w1(1-3) cf(1) blk(1) w1(4) blk(3)] by metis
  let ?w2 = "w\<lparr>fw_dev := d2\<rparr>" and ?c1 = "erase_sector (prot (n_sr ?v)) (address AND 0xFFF000) (n_cell ?v)"
  have c2: "n_cell (view d2) = prog_range (prot (n_sr ?v)) address ?bs ?c1"
    using set_cells_simps [OF d2(3)] d1(3) by simp
  have w2: "ok (fw_dev ?w2)" "unat address + unat count \<le> 0x1000000" using d2 blk(1) cf(2) by simp_all
  obtain d3 where d3: "flash_read io q count address ?w2 = Inr (FLASH_SUCCESS, ?w2\<lparr>fw_dev := d3,
      fw_mem := mwrite (fw_mem ?w2) (unat (pa_addr q)) (cells (n_cell (view (fw_dev ?w2))) address (unat count))\<rparr>)"
    "set_cells (n_cell (view (fw_dev ?w2))) (view (fw_dev ?w2)) (view d3)"
    using nor_controller.flash_read_ok [OF hw w2, of q] by metis
  have free': "\<forall>x. unat address \<le> unat x \<and> unat x < unat address + length ?bs \<longrightarrow> \<not> prot (n_sr ?v) x"
    using free by simp
  have "unat address mod 4096 + length ?bs \<le> 4096" using blk(2) by simp
  note sr = sector_rewrite [OF a this free', where c = "n_cell ?v", folded c2]
  have "cells (n_cell (view d2)) address (unat count) = ?bs" using sr(1) by simp
  moreover have "n_cell (view d3) x = n_cell ?v x" if "unat x div 4096 \<noteq> unat address div 4096" for x
    using sr(2) [OF that] set_cells_simps(1) [OF d3(2)] by simp
  ultimately show ?thesis using d1(1) d2(1) d3(1)
    by (intro exI [of _ ?w1] exI [of _ ?w2] exI [of _ "?w2\<lparr>fw_dev := d3,
      fw_mem := mwrite (fw_mem ?w2) (unat (pa_addr q)) (cells (n_cell (view (fw_dev ?w2))) address (unat count))\<rparr>"])
      (simp add: mread_mwrite_same)
qed

definition fl_ex :: "nor_dev flash_world" where
  "fl_ex = \<lparr>fw_dev = \<lparr>sim_view = \<lparr>n_cell = (\<lambda>x. 0), n_sr = 0x6A02, n_conf = 0, n_sreg = 0, n_rx = [], n_tx = [],
      n_jedec = 0x0B4016\<rparr>, sim_busy = 3\<rparr>,
    fw_mem = (\<lambda>x. of_nat x), fw_config = Some (flash_config ! 4), fw_id = 0x0B4016, fw_peri_busy = 0\<rparr>"

lemma fl_ex_simps:
  "fw_config fl_ex = Some (flash_config ! 4)" "n_tx (sim_view (fw_dev fl_ex)) = []"
  "unat (fc_flash_size (flash_config ! 4)) = 0x400000" "flash_config ! 4 \<in> set flash_config"
  "n_sr (sim_view (fw_dev fl_ex)) = 0x6A02"
  by (simp_all add: fl_ex_def flash_config_def chip_def)

definition buf_at :: "u32 \<Rightarrow> dev_param" where
  "buf_at a = \<lparr>pa_addr = a, pa_obj = Obj_u32 0\<rparr>"

definition no_sctrl :: "u32 \<Rightarrow> nor_dev flash_world \<Rightarrow> (u32 \<times> nor_dev flash_world) result" where
  "no_sctrl cmd w = Inr (0, w)"

theorem flash_erase_write_read_witness:
  "\<exists>w1 w2 w3. flash_ctrl (nor_sim (\<lambda>_ _. False)) no_sctrl (flash_cmd_no CMD_FLASH_ERASE_SECTOR)
        (param_of (Obj_u32 0x1e101e)) fl_ex = Inr (FLASH_SUCCESS, w1)
    \<and> flash_write (nor_sim (\<lambda>_ _. False)) (buf_at 0x400100) 5 0x1e101e w1 = Inr (FLASH_SUCCESS, w2)
    \<and> flash_read (nor_sim (\<lambda>_ _. False)) (buf_at 0x400200) 5 0x1e101e w2 = Inr (FLASH_SUCCESS, w3)
    \<and> mread (fw_mem w3) 0x400200 5 = [0, 1, 2, 3, 4]"
proof -
  have m: "mread (fw_mem fl_ex) (unat (pa_addr (buf_at 0x400100))) (unat (5 :: u32)) = [0, 1, 2, 3, 4]"
    by (simp add: fl_ex_def buf_at_def mread_def upt_rec)
  have q: "unat (pa_addr (buf_at 0x400200)) = 0x400200" by (simp add: buf_at_def)
  show ?thesis
    using flash_erase_write_read [OF sim.nor_controller_axioms, of fl_ex "flash_config ! 4"
        "0x1e101e" "5" "\<lambda>_ _. False" no_sctrl "buf_at 0x400100" "buf_at 0x400200"] fl_ex_simps
    unfolding m q by simp blast
qed

text \<open>C24: What a write to the flash device does. A block inside the chip is programmed: every bit that is
  0 in the data becomes 0 in its cell unless the cell is protected, no other cell and no memory
  changes. A block that starts behind the chip, or is longer than the chip, is refused without
  any access to the controller; the caller is told success in both cases.\<close>

theorem flash_write_programs_range:
  assumes hw: "nor_controller io ok busy view prot"
    and w: "ok (fw_dev w)" "n_tx (view (fw_dev w)) = []" "fw_config w = Some cfg" "cfg \<in> set flash_config"
    and "count \<noteq> 0"
  shows "(unat address + unat count \<le> unat (fc_flash_size cfg) \<longrightarrow>
      (\<exists>d. flash_write io p count address w = Inr (FLASH_SUCCESS, w\<lparr>fw_dev := d\<rparr>) \<and> ok d
        \<and> n_sr (view d) = n_sr (view (fw_dev w))
        \<and> (\<forall>x. n_cell (view d) x =
            (if unat address \<le> unat x \<and> unat x < unat address + unat count \<and> \<not> prot (n_sr (view (fw_dev w))) x
             then n_cell (view (fw_dev w)) x AND fw_mem w (unat (pa_addr p) + (unat x - unat address))
             else n_cell (view (fw_dev w)) x))))
    \<and> (fc_flash_size cfg \<le> address AND NOT 0x1F \<or> fc_flash_size cfg < count
        \<longrightarrow> flash_write io p count address w = Inr (FLASH_SUCCESS, w))"
proof (intro conjI impI)
  note cf = flash_config_all [OF w(4)]
  assume blk: "unat address + unat count \<le> unat (fc_flash_size cfg)"
  have sz: "unat (fc_flash_size cfg) \<le> 0x1000000" using cf(2) by simp
  obtain d where d: "flash_write io p count address w = Inr (FLASH_SUCCESS, w\<lparr>fw_dev := d\<rparr>)" "ok d"
    "set_cells (prog_range (prot (n_sr (view (fw_dev w)))) address (mread (fw_mem w) (unat (pa_addr p)) (unat count))
      (n_cell (view (fw_dev w)))) (view (fw_dev w)) (view d)"
    using nor_controller.flash_write_ok [OF hw w(1-3) cf(1) blk sz assms(6)] by metis
  show "\<exists>d. flash_write io p count address w = Inr (FLASH_SUCCESS, w\<lparr>fw_dev := d\<rparr>) \<and> ok d
        \<and> n_sr (view d) = n_sr (view (fw_dev w))
        \<and> (\<forall>x. n_cell (view d) x =
            (if unat address \<le> unat x \<and> unat x < unat address + unat count \<and> \<not> prot (n_sr (view (fw_dev w))) x
             then n_cell (view (fw_dev w)) x AND fw_mem w (unat (pa_addr p) + (unat x - unat address))
             else n_cell (view (fw_dev w)) x))"
    using d(1,2) set_cells_simps(1,2) [OF d(3)]
    by (intro exI [of _ d]) (auto simp: prog_range_def mread_def)
next
  note cf = flash_config_all [OF w(4)]
  assume "fc_flash_size cfg \<le> address AND NOT 0x1F \<or> fc_flash_size cfg < count"
  then have "flash_write_data io cfg m b address count d = Some d" for m b d
    by (auto simp: flash_write_data_def Let_def)
  then show "flash_write io p count address w = Inr (FLASH_SUCCESS, w)"
    using w(3) cf(1) by (simp add: flash_write_def switch_line_mode_none [of _ cfg] with_config_def on_dev_def)
qed

theorem flash_write_programs_range_witness:
  "(\<exists>d. flash_write (nor_sim (\<lambda>_ _. False)) (buf_at 0x400101) 1 0x1e101e fl_ex = Inr (FLASH_SUCCESS, fl_ex\<lparr>fw_dev := d\<rparr>)
     \<and> n_cell (sim_view d) 0x1e101e = 0)
   \<and> flash_write (nor_sim (\<lambda>_ _. False)) (buf_at 0x400101) 1 0x400000 fl_ex = Inr (FLASH_SUCCESS, fl_ex)"
proof -
  have sz: "fc_flash_size (flash_config ! 4) = 0x400000" by (simp add: flash_config_def chip_def)
  have c: "n_cell (sim_view (fw_dev fl_ex)) x = 0" for x by (simp add: fl_ex_def)
  note p = flash_write_programs_range [OF sim.nor_controller_axioms, of fl_ex "flash_config ! 4" 1,
      of _ "\<lambda>_ _. False" "buf_at 0x400101"]
  show ?thesis using p [of "0x1e101e"] p [of "0x400000"] fl_ex_simps by (auto simp: sz c)
qed

text \<open>C25: The protection type set on the flash device is the type read back from it, whatever the status
  register held, with the exceptions that \<open>reads_back\<close> names: on the chip \<open>0x1C7015\<close> the last-block type reads as
  half, on \<open>0xEF4016\<close> half reads as none, and on a chip that is not in the table every type reads as
  all. Setting it changes no cell.\<close>

theorem flash_protect_roundtrip:
  assumes hw: "nor_controller io ok busy view prot"
    and w: "ok (fw_dev w)" "fw_config w = Some cfg" "cfg \<in> set flash_config"
    and ty: "ty \<in> {FLASH_PROTECT_NONE, FLASH_PROTECT_ALL, FLASH_PROTECT_HALF, FLASH_UNPROTECT_LAST_BLOCK}"
    and p: "pa_addr p \<noteq> 0"
  shows "\<exists>w1 w2. flash_ctrl io sctrl (flash_cmd_no CMD_FLASH_SET_PROTECT) (param_of (Obj_u32 ty)) w
      = Inr (FLASH_SUCCESS, w1)
    \<and> flash_ctrl io sctrl (flash_cmd_no CMD_FLASH_GET_PROTECT) p w1 = Inr (FLASH_SUCCESS, w2)
    \<and> mread (fw_mem w2) (unat (pa_addr p)) 4 = word_bytes (reads_back cfg ty)
    \<and> n_cell (view (fw_dev w2)) = n_cell (view (fw_dev w))"
proof -
  note cf = flash_config_all [OF w(3)]
  from cf(3) obtain k where k: "chip_fits cfg k" ..
  obtain d1 where d1: "flash_ctrl io sctrl (flash_cmd_no CMD_FLASH_SET_PROTECT) (param_of (Obj_u32 ty)) w
      = Inr (FLASH_SUCCESS, w\<lparr>fw_dev := d1\<rparr>)" "ok d1" "n_cell (view d1) = n_cell (view (fw_dev w))"
    "protect_of cfg (status_of (fc_sr_size cfg) (n_sr (view d1))) = type_of_code cfg (protect_code cfg ty)"
    using nor_controller.flash_ctrl_protect_ok [OF hw w(1,2) cf(1) param_of_simps(1) k] by metis
  obtain d2 x where d2: "flash_read_sr io (fc_sr_size cfg) d1 = Some (status_of (fc_sr_size cfg) (n_sr (view d1)), d2)"
    "view d2 = (view d1)\<lparr>n_sreg := x\<rparr>"
    using nor_controller.read_sr_ok [OF hw d1(2)] by metis
  have "get_flash_protect io cfg d1 = Some (reads_back cfg ty, d2)"
    using d2(1) d1(4) reads_back_code [OF w(3) ty] by (simp add: get_flash_protect_def)
  then have "flash_ctrl io sctrl (flash_cmd_no CMD_FLASH_GET_PROTECT) p (w\<lparr>fw_dev := d1\<rparr>)
    = Inr (FLASH_SUCCESS, w\<lparr>fw_dev := d2, fw_mem := mwrite (fw_mem w) (unat (pa_addr p)) (word_bytes (reads_back cfg ty))\<rparr>)"
    using flash_ctrl_get [OF _ cf(1) p, of "w\<lparr>fw_dev := d1\<rparr>" io "reads_back cfg ty" d2] w(2) by simp
  moreover have "length (word_bytes (reads_back cfg ty)) = 4" by (simp add: word_bytes_def)
  ultimately show ?thesis using d1 d2(2)
    by (intro exI conjI) (assumption | simp add: mread_mwrite_same)+
qed

theorem flash_protect_roundtrip_witness:
  "\<exists>w1 w2. flash_ctrl (nor_sim (\<lambda>_ _. False)) no_sctrl (flash_cmd_no CMD_FLASH_SET_PROTECT)
        (param_of (Obj_u32 FLASH_PROTECT_HALF)) fl_ex = Inr (FLASH_SUCCESS, w1)
    \<and> flash_ctrl (nor_sim (\<lambda>_ _. False)) no_sctrl (flash_cmd_no CMD_FLASH_GET_PROTECT) (buf_at 0x400100) w1
        = Inr (FLASH_SUCCESS, w2)
    \<and> mread (fw_mem w2) 0x400100 4 = [2, 0, 0, 0]"
proof -
  have r: "word_bytes (reads_back (flash_config ! 4) FLASH_PROTECT_HALF) = [2, 0, 0, 0]" by code_simp
  have a: "pa_addr (buf_at 0x400100) = 0x400100" by (simp add: buf_at_def)
  show ?thesis
    using flash_protect_roundtrip [OF sim.nor_controller_axioms, of fl_ex "flash_config ! 4" FLASH_PROTECT_HALF
        "buf_at 0x400100" "\<lambda>_ _. False" no_sctrl] fl_ex_simps
    unfolding r a by auto
qed

section \<open>Addresses outside the chip\<close>

text \<open>\<open>flash_read_data\<close> does not check the address, and the bits above 24 fall into the opcode field of the
  command. With the bits 24 to 28 equal to 8 the read command becomes the sector erase command.\<close>

lemma read_word_erases:
  assumes "drop_bit 24 addr AND 0x1F = (8 :: u32)"
    and "v = addr OR op_type FLASH_OPCODE_READ OR OP_SW OR (value AND WP_VALUE)"
  shows "cmd_of v = opcode FLASH_OPCODE_SE" and "addr_of v = addr AND 0x00FFFFFF" and "v AND OP_SW \<noteq> 0"
proof -
  have o: "op_type FLASH_OPCODE_READ = push_bit 24 5" by (simp only: op_type_def opcode.simps)
  have hi: "drop_bit 24 OP_SW AND 0x1F = 0" "drop_bit 24 WP_VALUE AND 0x1F = 0"
    by (simp_all only: OP_SW_def WP_VALUE_def) code_simp+
  have "cmd_of v = (drop_bit 24 addr AND 0x1F) OR (drop_bit 24 (push_bit 24 5) AND 0x1F)
      OR (drop_bit 24 OP_SW AND 0x1F) OR (drop_bit 24 value AND (drop_bit 24 WP_VALUE AND 0x1F))"
    by (simp only: assms(2) cmd_of_def o drop_bit_or drop_bit_and and.assoc
        bit.conj_disj_distrib2)
  also have "\<dots> = 8 OR (drop_bit 24 (push_bit 24 5) AND 0x1F)" by (simp only: assms(1) hi) simp
  also have "\<dots> = opcode FLASH_OPCODE_SE" by code_simp
  finally show "cmd_of v = opcode FLASH_OPCODE_SE" .
  have lo: "push_bit 24 5 AND (0x00FFFFFF :: u32) = 0" "OP_SW AND 0x00FFFFFF = 0" "WP_VALUE AND 0x00FFFFFF = 0"
    by code_simp+
  have "addr_of v = (addr AND 0x00FFFFFF) OR (push_bit 24 5 AND 0x00FFFFFF)
      OR (OP_SW AND 0x00FFFFFF) OR (value AND (WP_VALUE AND 0x00FFFFFF))"
    by (simp only: assms(2) addr_of_def o and.assoc bit.conj_disj_distrib2)
  then show "addr_of v = addr AND 0x00FFFFFF" by (simp only: lo) simp
  have "bit (v AND OP_SW) 29" by (simp add: assms(2) bit_and_iff bit_or_iff bit_flags)
  then show "v AND OP_SW \<noteq> 0" by (metis bit_0_eq bot_apply bot_bool_def)
qed

text \<open>The command that \<open>flash_read_data\<close> issues for an address whose bits 24 to 28 are 8, such as
  \<open>0x08000000\<close>, erases a sector of the chip instead of reading it.\<close>

theorem flash_read_high_address_erases:
  assumes hw: "nor_controller io ok busy view prot" and "ok d" "busy d = 0" "drop_bit 24 addr AND 0x1F = 8"
  shows "\<exists>d'. fl_cmd_at io addr FLASH_OPCODE_READ d = Some d' \<and> ok d'
    \<and> view d' = (view d)\<lparr>n_cell := erase_sector (prot (n_sr (view d))) (addr AND 0x00FFFFFF) (n_cell (view d))\<rparr>"
proof -
  obtain v d1 where r: "fio_read io REG_FLASH_OPERATE_SW d = (v, d1)" by force
  have d1: "ok d1" "busy d1 = 0" "view d1 = view d"
    using nor_controller.poll [OF hw assms(2) r] assms(3) by simp_all
  define x where "x = addr OR op_type FLASH_OPCODE_READ OR OP_SW OR (v AND WP_VALUE)"
  note e = read_word_erases [OF assms(4) x_def]
  have "driver_cmd FLASH_OPCODE_SE" by simp
  from nor_controller.cmd_ok [OF hw d1(1,2) e(3,1) this] obtain d' where
    "fl_cmd io x d1 = Some d'" "ok d'" "view d' = nor_exec prot (opcode FLASH_OPCODE_SE) (addr_of x) (view d1)" .
  then show ?thesis using r d1(3) e(2) by (auto simp: fl_cmd_at_def x_def nor_exec_def)
qed

theorem flash_read_high_address_erases_witness:
  "\<exists>d'. fl_cmd_at (nor_sim (\<lambda>_ _. False)) 0x081e1000 FLASH_OPCODE_READ (fw_dev fl_ex\<lparr>sim_busy := 0\<rparr>) = Some d'
    \<and> n_cell (sim_view d') 0x1e1004 = 0xFF"
proof -
  have "\<exists>d'. fl_cmd_at (nor_sim (\<lambda>_ _. False)) 0x081e1000 FLASH_OPCODE_READ (fw_dev fl_ex\<lparr>sim_busy := 0\<rparr>) = Some d' \<and> True
    \<and> sim_view d' = (sim_view (fw_dev fl_ex\<lparr>sim_busy := 0\<rparr>))\<lparr>n_cell := erase_sector (\<lambda>_. False) (0x081e1000 AND 0x00FFFFFF)
        (n_cell (sim_view (fw_dev fl_ex\<lparr>sim_busy := 0\<rparr>)))\<rparr>"
    by (rule flash_read_high_address_erases [OF sim.nor_controller_axioms]) simp_all
  then show ?thesis by (force simp: erase_sector_def)
qed

text \<open>The range check of \<open>flash_write_data\<close> uses the start of the first page, so a block may end up to 31
  bytes behind the chip and still be programmed.\<close>

theorem flash_write_past_end:
  assumes hw: "nor_controller io ok busy view prot" and "ok d" "n_tx (view d) = []"
    and "cfg \<in> set flash_config" "unat (fc_flash_size cfg) = Suc (unat address)"
    and "\<not> prot (n_sr (view d)) (address + 1)"
  shows "\<exists>d'. flash_write_data io cfg m buffer address 32 d = Some d'
    \<and> n_cell (view d') (address + 1) = n_cell (view d) (address + 1) AND m (buffer + 1)"
proof -
  have "list_all (\<lambda>c. unat (fc_flash_size c) mod 32 = 0) flash_config" by (simp add: flash_config_def chip_def)
  then have "Suc (unat address) mod 32 = 0" using assms(4,5) by (auto simp: list_all_iff)
  then have u: "unat address mod 32 = 31" by presburger
  have sz: "Suc (unat address) \<le> 0x800000" using flash_config_all(2) [OF assms(4)] assms(5) by simp
  have s1: "unat (address + 1) = Suc (unat address)" using sz by (simp add: unat_add_fit)
  have a: "unat (address AND NOT 0x1F) + 32 = unat (fc_flash_size cfg)"
    unfolding page_facts(1) assms(5) u using u mod_less_eq_dividend [of "unat address" 32] by linarith
  have chk: "address AND NOT 0x1F < fc_flash_size cfg" "32 \<le> fc_flash_size cfg"
    "(address AND NOT 0x1F) + 32 \<le> fc_flash_size cfg"
    using a unat_add_fit [of "address AND NOT 0x1F" 32] sz assms(5)
    unfolding word_less_nat_alt word_le_nat_alt by simp_all
  have rng: "unat address + unat (32 :: u32) \<le> 0x1000000" and nz: "(32 :: u32) \<noteq> 0" using sz by simp_all
  obtain d' where d': "flash_write_data io cfg m buffer address 32 d = Some d'"
    "set_cells (prog_range (prot (n_sr (view d))) address (mread m buffer (unat (32 :: u32))) (n_cell (view d)))
      (view d) (view d')"
    using nor_controller.write_data_ok [OF hw assms(2,3) rng chk nz] by metis
  have "n_cell (view d') (address + 1) = n_cell (view d) (address + 1) AND m (buffer + 1)"
    using assms(6) unfolding set_cells_simps(1) [OF d'(2)] prog_range_def s1 by (simp add: mread_def)
  with d'(1) show ?thesis by blast
qed

end
