(* ===== verification/Flash_Partition.thy ===== *)
theory Flash_Partition
  imports Flash_Spec
begin

text \<open>
  Partitions of the flash, \<^verbatim>\<open>beken378/func/user_driver/BkDriverFlash.c\<close>: erase, write and read relative to
  a partition, through the device \<open>flash\<close> of the driver model. The state is the device tables and the
  flash world. \<open>GLOBAL_INT_DISABLE\<close> and \<open>GLOBAL_INT_RESTORE\<close> bracket single calls of the device and have
  no counterpart: no step of another task is modelled between the statements of a function.

  The locale \<open>nor_chip\<close> adds to the controller what the services above rely on: the chip is a known one
  and its status without protection bits protects nothing. Inside it, \<open>store_inv\<close> is the state in which
  the device \<open>flash\<close> is registered and idle, and the lemmas say what each call does to memory and cells.
\<close>

section \<open>Partitions\<close>

datatype bk_flash_t = BK_FLASH_EMBEDDED | BK_FLASH_SPI | BK_FLASH_MAX | BK_FLASH_NONE

record bk_logic_partition_t =
  partition_owner :: bk_flash_t
  partition_description :: "string option"
  partition_start_addr :: u32
  partition_length :: u32
  partition_options :: u32

definition PAR_OPT_READ_EN :: u32 where "PAR_OPT_READ_EN = push_bit 0 1"
definition PAR_OPT_WRITE_DIS :: u32 where "PAR_OPT_WRITE_DIS = push_bit 1 0"

definition BK_PARTITION_BOOTLOADER :: u32 where "BK_PARTITION_BOOTLOADER = 0"
definition BK_PARTITION_APPLICATION :: u32 where "BK_PARTITION_APPLICATION = 1"
definition BK_PARTITION_RF_FIRMWARE :: u32 where "BK_PARTITION_RF_FIRMWARE = 2"
definition BK_PARTITION_NET_PARAM :: u32 where "BK_PARTITION_NET_PARAM = 3"
definition BK_PARTITION_USR_CONFIG :: u32 where "BK_PARTITION_USR_CONFIG = 4"
definition BK_PARTITION_MAX :: u32 where "BK_PARTITION_MAX = 5"

lemmas partition_ids = BK_PARTITION_BOOTLOADER_def BK_PARTITION_APPLICATION_def BK_PARTITION_RF_FIRMWARE_def
  BK_PARTITION_NET_PARAM_def BK_PARTITION_USR_CONFIG_def BK_PARTITION_MAX_def

text \<open>The table; the element without an initialiser is zero.\<close>

definition bk7231_partitions :: "bk_logic_partition_t list" where
  "bk7231_partitions = [
    \<lparr>partition_owner = BK_FLASH_EMBEDDED, partition_description = Some ''Bootloader'',
      partition_start_addr = 0x00000000, partition_length = 0x0F000,
      partition_options = PAR_OPT_READ_EN OR PAR_OPT_WRITE_DIS\<rparr>,
    \<lparr>partition_owner = BK_FLASH_EMBEDDED, partition_description = Some ''Application'',
      partition_start_addr = 0x11000, partition_length = 0x143000,
      partition_options = PAR_OPT_READ_EN OR PAR_OPT_WRITE_DIS\<rparr>,
    \<lparr>partition_owner = BK_FLASH_EMBEDDED, partition_description = Some ''RF Firmware'',
      partition_start_addr = 0x1e0000, partition_length = 0x1000,
      partition_options = PAR_OPT_READ_EN OR PAR_OPT_WRITE_DIS\<rparr>,
    \<lparr>partition_owner = BK_FLASH_EMBEDDED, partition_description = Some ''NET info'',
      partition_start_addr = 0x1e1000, partition_length = 0x1000,
      partition_options = PAR_OPT_READ_EN OR PAR_OPT_WRITE_DIS\<rparr>,
    \<lparr>partition_owner = BK_FLASH_EMBEDDED, partition_description = None,
      partition_start_addr = 0, partition_length = 0, partition_options = 0\<rparr>]"

text \<open>The assertion is about the constant, not about the argument.\<close>

definition BkFlashPartitionAssert :: "u32 \<Rightarrow> unit result" where
  "BkFlashPartitionAssert inPartition =
    (if BK_PARTITION_BOOTLOADER < BK_PARTITION_MAX then Inr () else Inl Assert_failed)"

definition BkFlashPartitionIsValid :: "u32 \<Rightarrow> bool" where
  "BkFlashPartitionIsValid inPartition \<longleftrightarrow>
    inPartition \<ge> BK_PARTITION_BOOTLOADER \<and> inPartition < BK_PARTITION_MAX"

text \<open>A null pointer is \<open>None\<close>; reading a field of it is a fault.\<close>

definition bk_flash_get_info :: "u32 \<Rightarrow> bk_logic_partition_t option result" where
  "bk_flash_get_info inPartition =
    bind_res (BkFlashPartitionAssert inPartition) (\<lambda>_.
    Inr (if BkFlashPartitionIsValid inPartition then Some (bk7231_partitions ! unat inPartition) else None))"

definition start_of :: "bk_logic_partition_t option \<Rightarrow> u32 result" where
  "start_of p = (case p of None \<Rightarrow> Inl Null_deref | Some p \<Rightarrow> Inr (partition_start_addr p))"

section \<open>Calls of the device\<close>

type_synonym 'f flash_sys = "'f flash_drv \<times> 'f flash_world"

text \<open>\<open>ddev_open(FLASH_DEV_NAME, &status, 0)\<close> and the calls through the handle; the callers ignore the
  returned codes.\<close>

definition fs_open :: "'f flash_sys \<Rightarrow> (u32 \<times> 'f flash_sys) result" where
  "fs_open s = map_sum id (\<lambda>(h, _, st, w). (h, st, w)) (ddev_open (Some FLASH_DEV_NAME) True 0 (fst s) (snd s))"

definition fs_open_asserted :: "'f flash_sys \<Rightarrow> (u32 \<times> 'f flash_sys) result" where
  "fs_open_asserted s = bind_res (fs_open s)
    (\<lambda>(h, s). if h = DD_HANDLE_UNVALID then Inl Assert_failed else Inr (h, s))"

definition fs_call :: "('f flash_drv \<Rightarrow> 'f flash_world \<Rightarrow> (u32 \<times> 'f flash_world) result)
    \<Rightarrow> 'f flash_sys \<Rightarrow> 'f flash_sys result" where
  "fs_call c s = map_sum id (\<lambda>(_, w). (fst s, w)) (c (fst s) (snd s))"

definition buf_param :: "u32 \<Rightarrow> dev_param" where
  "buf_param a = \<lparr>pa_addr = a, pa_obj = No_obj\<rparr>"

definition fs_read :: "u32 \<Rightarrow> u32 \<Rightarrow> u32 \<Rightarrow> u32 \<Rightarrow> 'f flash_sys \<Rightarrow> 'f flash_sys result" where
  "fs_read h buf count address = fs_call (ddev_read h (buf_param buf) count address)"

definition fs_write :: "u32 \<Rightarrow> u32 \<Rightarrow> u32 \<Rightarrow> u32 \<Rightarrow> 'f flash_sys \<Rightarrow> 'f flash_sys result" where
  "fs_write h buf count address = fs_call (ddev_write h (buf_param buf) count address)"

definition fs_control :: "u32 \<Rightarrow> flash_cmd \<Rightarrow> u32 \<Rightarrow> 'f flash_sys \<Rightarrow> 'f flash_sys result" where
  "fs_control h cmd param = fs_call (ddev_control h (flash_cmd_no cmd) (param_of (Obj_u32 param)))"

definition fs_close :: "u32 \<Rightarrow> 'f flash_sys \<Rightarrow> 'f flash_sys result" where
  "fs_close h s = map_sum id snd (ddev_close h (fst s) (snd s))"

section \<open>Operations on partitions\<close>

text \<open>The sector numbers are below \<open>2 ^ 20\<close>, so the loop counter does not wrap: \<open>n\<close> sectors from \<open>i\<close>.\<close>

primrec erase_sectors :: "u32 \<Rightarrow> bk_logic_partition_t option \<Rightarrow> nat \<Rightarrow> u32 \<Rightarrow> 'f flash_sys \<Rightarrow> 'f flash_sys result" where
  "erase_sectors h info 0 i s = Inr s"
| "erase_sectors h info (Suc n) i s =
    bind_res (start_of info) (\<lambda>base.
    bind_res (fs_control h CMD_FLASH_ERASE_SECTOR (base + push_bit 12 i) s) (\<lambda>s.
    erase_sectors h info n (i + 1) s))"

definition sectors_between :: "u32 \<Rightarrow> u32 \<Rightarrow> nat" where
  "sectors_between start_sector end_sector = Suc (unat end_sector) - unat start_sector"

definition kNoErr :: u32 where "kNoErr = 0"

definition bk_flash_erase :: "u32 \<Rightarrow> u32 \<Rightarrow> u32 \<Rightarrow> 'f flash_sys \<Rightarrow> (u32 \<times> 'f flash_sys) result" where
  "bk_flash_erase inPartition off_set sz s =
    bind_res (bk_flash_get_info inPartition) (\<lambda>info.
    let start_sector = drop_bit 12 off_set; end_sector = drop_bit 12 (off_set + sz - 1) in
    bind_res (fs_open_asserted s) (\<lambda>(h, s).
    map_sum id (Pair kNoErr) (erase_sectors h info (sectors_between start_sector end_sector) start_sector s)))"

definition bk_flash_write :: "u32 \<Rightarrow> u32 \<Rightarrow> u32 \<Rightarrow> u32 \<Rightarrow> 'f flash_sys \<Rightarrow> (u32 \<times> 'f flash_sys) result" where
  "bk_flash_write inPartition off_set inBuffer inBufferLength s =
    (if inBuffer = 0 then Inl Assert_failed
     else bind_res (bk_flash_get_info inPartition) (\<lambda>info.
     bind_res (start_of info) (\<lambda>base.
     bind_res (fs_open_asserted s) (\<lambda>(h, s).
     map_sum id (Pair kNoErr) (fs_write h inBuffer inBufferLength (base + off_set) s)))))"

definition bk_flash_read :: "u32 \<Rightarrow> u32 \<Rightarrow> u32 \<Rightarrow> u32 \<Rightarrow> 'f flash_sys \<Rightarrow> (u32 \<times> 'f flash_sys) result" where
  "bk_flash_read inPartition off_set outBuffer inBufferLength s =
    (if outBuffer = 0 then Inl Assert_failed
     else bind_res (bk_flash_get_info inPartition) (\<lambda>info.
     bind_res (start_of info) (\<lambda>base.
     bind_res (fs_open_asserted s) (\<lambda>(h, s).
     map_sum id (Pair kNoErr) (fs_read h outBuffer inBufferLength (base + off_set) s)))))"

definition bk_flash_enable_security :: "u32 \<Rightarrow> 'f flash_sys \<Rightarrow> (u32 \<times> 'f flash_sys) result" where
  "bk_flash_enable_security ty s =
    bind_res (fs_open_asserted s) (\<lambda>(h, s).
    map_sum id (Pair kNoErr) (fs_control h CMD_FLASH_SET_PROTECT ty s))"

section \<open>The device under the partitions\<close>

definition store_inv :: "'f flash_io \<Rightarrow> (u32 \<Rightarrow> 'f flash_world \<Rightarrow> (u32 \<times> 'f flash_world) result) \<Rightarrow> ('f \<Rightarrow> bool)
    \<Rightarrow> ('f \<Rightarrow> nor_view) \<Rightarrow> flash_config_t \<Rightarrow> nat \<Rightarrow> 'f flash_sys \<Rightarrow> bool" where
  "store_inv io sctrl ok view cfg slot s \<longleftrightarrow> dev_at FLASH_DEV_NAME slot (flash_op io sctrl) (fst s)
    \<and> dev_state (drv_dev_tbl (fst s) ! slot) \<in> {DD_STATE_CLOSED, DD_STATE_OPENED}
    \<and> ok (fw_dev (snd s)) \<and> n_tx (view (fw_dev (snd s))) = [] \<and> fw_config (snd s) = Some cfg"

definition mem_of :: "'f flash_sys \<Rightarrow> mem" where
  "mem_of s = fw_mem (snd s)"

definition cell_of :: "('f \<Rightarrow> nor_view) \<Rightarrow> 'f flash_sys \<Rightarrow> u32 \<Rightarrow> u8" where
  "cell_of view s = n_cell (view (fw_dev (snd s)))"

definition status_reg :: "('f \<Rightarrow> nor_view) \<Rightarrow> 'f flash_sys \<Rightarrow> u16" where
  "status_reg view s = n_sr (view (fw_dev (snd s)))"

lemmas sys_views = mem_of_def cell_of_def status_reg_def

lemma sys_pair [simp]:
  "mem_of (st, snd s) = mem_of s" "cell_of view (st, snd s) = cell_of view s"
  "status_reg view (st, snd s) = status_reg view s"
  by (simp_all add: sys_views)

locale nor_chip = nor_controller io ok busy view prot
  for io :: "'f flash_io" and ok busy view prot +
  fixes cfg :: flash_config_t
    and sctrl :: "u32 \<Rightarrow> 'f flash_world \<Rightarrow> (u32 \<times> 'f flash_world) result"
    and slot :: nat
  assumes known: "cfg \<in> set flash_config" "fc_flash_id cfg \<noteq> 0"
    and unprotected: "protect_of cfg (status_of (fc_sr_size cfg) sr) = FLASH_PROTECT_NONE \<Longrightarrow> \<not> prot sr x"
begin

abbreviation inv :: "'f flash_sys \<Rightarrow> bool" where
  "inv \<equiv> store_inv io sctrl ok view cfg slot"

abbreviation hnd :: u32 where
  "hnd \<equiv> ddev_make_handle (of_nat slot)"

lemma inv_world:
  assumes "inv (st, w)" "ok d" "n_tx (view d) = []" "fw_config w' = Some cfg" "fw_dev w' = d"
  shows "inv (st, w')"
  using assms by (simp add: store_inv_def)

lemma inv_use:
  assumes "inv (st, w)" "c = DD_STATE_CLOSED \<or> c = DD_STATE_OPENED"
  shows "inv (set_use slot u c st, w)"
proof -
  have at: "dev_at FLASH_DEV_NAME slot (flash_op io sctrl) st" using assms(1) by (simp add: store_inv_def)
  note i = dev_at_index [OF at]
  have "dev_at FLASH_DEV_NAME slot (flash_op io sctrl) (set_use slot u c st)"
    using at unfolding dev_at_def set_use_first set_use_slot [OF i(1)] by (simp add: set_use_def)
  then show ?thesis using assms unfolding store_inv_def by (auto simp: set_use_slot [OF i(1)])
qed

lemma open_ok:
  assumes "inv s"
  obtains st where "fs_open s = Inr (hnd, st, snd s)" "fs_open_asserted s = Inr (hnd, st, snd s)" "inv (st, snd s)"
proof -
  obtain st w where s: "s = (st, w)" by force
  have at: "dev_at FLASH_DEV_NAME slot (flash_op io sctrl) st" using assms s by (simp add: store_inv_def)
  have valid: "hnd \<noteq> DD_HANDLE_UNVALID" using dev_at_index [OF at] by simp
  define u where "u = use_cnt (drv_dev_tbl st ! slot)"
  have "\<exists>st'. fs_open s = Inr (hnd, st', w) \<and> inv (st', w)"
  proof (cases "dev_state (drv_dev_tbl st ! slot) = DD_STATE_OPENED")
    case True
    then have "set_use slot u DD_STATE_OPENED st = st" using set_use_self [of slot st] by (simp add: u_def)
    from ddev_open_opened [OF at, of 0 u w, unfolded this] show ?thesis
      using inv_use [of st w] assms s by (auto simp: fs_open_def)
  next
    case False
    then have "dev_state (drv_dev_tbl st ! slot) = DD_STATE_CLOSED" using assms s by (simp add: store_inv_def)
    then have "set_use slot u DD_STATE_CLOSED st = st" using set_use_self [of slot st] by (simp add: u_def)
    from ddev_open_closed [OF at, of 0 u w, unfolded this] show ?thesis
      using inv_use [of st w] assms s by (auto simp: fs_open_def flash_op_def)
  qed
  with valid s that show ?thesis by (auto simp: fs_open_asserted_def)
qed

lemma close_ok:
  assumes "inv s"
  obtains st where "fs_close hnd s = Inr (st, snd s)" "inv (st, snd s)"
proof -
  obtain st w where s: "s = (st, w)" by force
  have at: "dev_at FLASH_DEV_NAME slot (flash_op io sctrl) st" using assms s by (simp add: store_inv_def)
  define c where "c = dev_state (drv_dev_tbl st ! slot)"
  have c: "c = DD_STATE_CLOSED \<or> c = DD_STATE_OPENED" using assms s by (auto simp: store_inv_def c_def)
  define u where "u = use_cnt (drv_dev_tbl st ! slot)"
  have "set_use slot u c st = st" using set_use_self [of slot st] by (simp add: u_def c_def)
  from ddev_close_at [OF at, of u c w, unfolded this] have
    "ddev_close hnd st w = Inr (DRV_SUCCESS, if u = 1 then set_use slot 0 DD_STATE_CLOSED st
       else set_use slot (u - 1) c st, w)" by (simp add: flash_op_def)
  then show ?thesis using that inv_use [of st w] assms s c by (simp add: fs_close_def)
qed

lemma dispatch_ok:
  assumes "inv s" "sel (flash_op io sctrl) = Some f"
  shows "ddev_dispatch sel call hnd (fst s) w = call f w"
proof -
  have at: "dev_at FLASH_DEV_NAME slot (flash_op io sctrl) (fst s)" using assms by (simp add: store_inv_def)
  note i = dev_at_index [OF at]
  have "(of_nat slot :: u32) \<noteq> DD_ID_UNVALID" using i(2,3) no_such_id by auto
  moreover have "dev_op (drv_dev_tbl (fst s) ! slot) = Some (flash_op io sctrl)" using at by (simp add: dev_at_def)
  ultimately show ?thesis using i assms(2) by (simp add: ddev_dispatch_def Let_def)
qed

lemma read_ok:
  assumes "inv s" "unat address + unat count \<le> 0x1000000"
  obtains s' where "fs_read hnd buf count address s = Inr s'" "inv s'" "cell_of view s' = cell_of view s"
    "status_reg view s' = status_reg view s" "fst s' = fst s"
    "mem_of s' = mwrite (mem_of s) (unat buf) (cells (cell_of view s) address (unat count))"
proof -
  have k: "ok (fw_dev (snd s))" using assms(1) by (simp add: store_inv_def)
  obtain d' where d': "flash_read io (buf_param buf) count address (snd s) = Inr (FLASH_SUCCESS, (snd s)\<lparr>fw_dev := d',
      fw_mem := mwrite (mem_of s) (unat buf) (cells (cell_of view s) address (unat count))\<rparr>)"
    "ok d'" "set_cells (cell_of view s) (view (fw_dev (snd s))) (view d')"
    using flash_read_ok [OF k assms(2), of "buf_param buf"] by (auto simp: sys_views buf_param_def)
  let ?s' = "(fst s, (snd s)\<lparr>fw_dev := d',
      fw_mem := mwrite (mem_of s) (unat buf) (cells (cell_of view s) address (unat count))\<rparr>)"
  have "fs_read hnd buf count address s = Inr ?s'"
    using d'(1) dispatch_ok [OF assms(1), of dd_read]
    by (simp add: fs_read_def fs_call_def ddev_read_def flash_op_def)
  moreover have "inv ?s'"
    using assms(1) d'(2) set_cells_simps [OF d'(3)] by (simp add: store_inv_def)
  ultimately show ?thesis using that set_cells_simps [OF d'(3)] by (simp add: sys_views)
qed

lemma write_ok:
  assumes "inv s" "unat address + unat count \<le> unat (fc_flash_size cfg)" "count \<noteq> 0"
  obtains s' where "fs_write hnd buf count address s = Inr s'" "inv s'" "fst s' = fst s"
    "cell_of view s' = prog_range (prot (status_reg view s)) address (mread (mem_of s) (unat buf) (unat count)) (cell_of view s)"
    "status_reg view s' = status_reg view s" "mem_of s' = mem_of s"
proof -
  note cf = flash_config_all [OF known(1)]
  have k: "ok (fw_dev (snd s))" "n_tx (view (fw_dev (snd s))) = []" "fw_config (snd s) = Some cfg"
    using assms(1) by (simp_all add: store_inv_def)
  have sz: "unat (fc_flash_size cfg) \<le> 0x1000000" using cf(2) by simp
  obtain d' where d': "flash_write io (buf_param buf) count address (snd s) = Inr (FLASH_SUCCESS, (snd s)\<lparr>fw_dev := d'\<rparr>)"
    "ok d'" "set_cells (prog_range (prot (status_reg view s)) address (mread (mem_of s) (unat buf) (unat count)) (cell_of view s))
      (view (fw_dev (snd s))) (view d')"
    using flash_write_ok [OF k cf(1) assms(2) sz assms(3), of "buf_param buf"] by (auto simp: sys_views buf_param_def)
  have "fs_write hnd buf count address s = Inr (fst s, (snd s)\<lparr>fw_dev := d'\<rparr>)"
    using d'(1) dispatch_ok [OF assms(1), of dd_write]
    by (simp add: fs_write_def fs_call_def ddev_write_def flash_op_def)
  moreover have "inv (fst s, (snd s)\<lparr>fw_dev := d'\<rparr>)"
    using assms(1) d'(2) set_cells_simps [OF d'(3)] by (simp add: store_inv_def)
  ultimately show ?thesis using that set_cells_simps [OF d'(3)] by (simp add: sys_views)
qed

lemma erase_sector_ok:
  assumes "inv s" "address AND 0xFFF000 < fc_flash_size cfg"
  obtains s' where "fs_control hnd CMD_FLASH_ERASE_SECTOR address s = Inr s'" "inv s'" "fst s' = fst s"
    "cell_of view s' = erase_sector (prot (status_reg view s)) (address AND 0xFFF000) (cell_of view s)"
    "status_reg view s' = status_reg view s" "mem_of s' = mem_of s"
proof -
  note cf = flash_config_all [OF known(1)]
  have k: "ok (fw_dev (snd s))" "fw_config (snd s) = Some cfg" using assms(1) by (simp_all add: store_inv_def)
  obtain d' where d': "flash_ctrl io sctrl (flash_cmd_no CMD_FLASH_ERASE_SECTOR) (param_of (Obj_u32 address)) (snd s)
      = Inr (FLASH_SUCCESS, (snd s)\<lparr>fw_dev := d'\<rparr>)" "ok d'"
    "view d' = (view (fw_dev (snd s)))\<lparr>n_cell := erase_sector (prot (status_reg view s)) (address AND 0xFFF000) (cell_of view s)\<rparr>"
    using flash_ctrl_erase_ok [OF k cf(1) param_of_simps(1) assms(2)] by (auto simp: sys_views)
  have "fs_control hnd CMD_FLASH_ERASE_SECTOR address s = Inr (fst s, (snd s)\<lparr>fw_dev := d'\<rparr>)"
    using d'(1) dispatch_ok [OF assms(1), of dd_control]
    by (simp add: fs_control_def fs_call_def ddev_control_def flash_op_def)
  moreover have "inv (fst s, (snd s)\<lparr>fw_dev := d'\<rparr>)" using assms(1) d'(2,3) by (simp add: store_inv_def)
  ultimately show ?thesis using that d'(3) by (simp add: sys_views)
qed

lemma protect_ok:
  assumes "inv s"
  obtains s' where "bk_flash_enable_security ty s = Inr (kNoErr, s')" "inv s'" "mem_of s' = mem_of s"
    "cell_of view s' = cell_of view s"
    "protect_of cfg (status_of (fc_sr_size cfg) (status_reg view s')) = type_of_code cfg (protect_code cfg ty)"
proof -
  note cf = flash_config_all [OF known(1)]
  obtain k where fit: "chip_fits cfg k" using cf(3) ..
  obtain st where st: "fs_open_asserted s = Inr (hnd, st, snd s)" "inv (st, snd s)" using open_ok [OF assms] by metis
  have k: "ok (fw_dev (snd s))" "fw_config (snd s) = Some cfg" using assms(1) by (simp_all add: store_inv_def)
  obtain d' where d': "flash_ctrl io sctrl (flash_cmd_no CMD_FLASH_SET_PROTECT) (param_of (Obj_u32 ty)) (snd s)
      = Inr (FLASH_SUCCESS, (snd s)\<lparr>fw_dev := d'\<rparr>)" "ok d'"
    "n_cell (view d') = n_cell (view (fw_dev (snd s)))" "n_tx (view d') = n_tx (view (fw_dev (snd s)))"
    "protect_of cfg (status_of (fc_sr_size cfg) (n_sr (view d'))) = type_of_code cfg (protect_code cfg ty)"
    using flash_ctrl_protect_ok [OF k cf(1) param_of_simps(1) fit] by metis
  have "fs_control hnd CMD_FLASH_SET_PROTECT ty (st, snd s) = Inr (st, (snd s)\<lparr>fw_dev := d'\<rparr>)"
    using d'(1) dispatch_ok [OF st(2), of dd_control]
    by (simp add: fs_control_def fs_call_def ddev_control_def flash_op_def)
  then have "bk_flash_enable_security ty s = Inr (kNoErr, st, (snd s)\<lparr>fw_dev := d'\<rparr>)"
    using st(1) by (simp add: bk_flash_enable_security_def)
  moreover have "inv (st, (snd s)\<lparr>fw_dev := d'\<rparr>)" using st(2) d'(2,4) by (simp add: store_inv_def)
  ultimately show ?thesis using that d'(3,5) by (simp add: sys_views)
qed

end

section \<open>Sector ranges\<close>

lemma unat_sector_addr:
  fixes base i :: u32
  assumes "unat base + 4096 * unat i < 4294967296"
  shows "unat (base + push_bit 12 i) = unat base + 4096 * unat i"
proof -
  have "unat (push_bit 12 i) = 4096 * unat i"
    using assms by (simp add: push_bit_eq_mult unat_word_ariths mult.commute)
  then show ?thesis using assms by (simp add: unat_add_fit)
qed

lemma partition_aligned:
  "BkFlashPartitionIsValid p \<Longrightarrow> unat (partition_start_addr (bk7231_partitions ! unat p)) mod 4096 = 0"
proof -
  assume "BkFlashPartitionIsValid p"
  then have "unat p < 5" by (simp add: BkFlashPartitionIsValid_def partition_ids word_less_nat_alt)
  also have "5 = length bk7231_partitions" by (simp add: bk7231_partitions_def)
  finally have "bk7231_partitions ! unat p \<in> set bk7231_partitions" by (rule nth_mem)
  moreover have "list_all (\<lambda>q. unat (partition_start_addr q) mod 4096 = 0) bk7231_partitions"
    by (simp add: bk7231_partitions_def)
  ultimately show ?thesis by (simp add: list_all_iff)
qed

lemma get_info_valid:
  "BkFlashPartitionIsValid p \<Longrightarrow> bk_flash_get_info p = Inr (Some (bk7231_partitions ! unat p))"
  by (simp add: bk_flash_get_info_def BkFlashPartitionAssert_def partition_ids)

lemma chip_sectors: "cfg \<in> set flash_config \<Longrightarrow> unat (fc_flash_size cfg) mod 4096 = 0"
proof -
  have "list_all (\<lambda>c. unat (fc_flash_size c) mod 4096 = 0) flash_config" by (simp add: flash_config_def chip_def)
  then show "cfg \<in> set flash_config \<Longrightarrow> unat (fc_flash_size cfg) mod 4096 = 0" by (auto simp: list_all_iff)
qed

text \<open>Cells after the sectors from \<open>k\<close> to before \<open>n\<close> are erased.\<close>

definition erase_range :: "(u32 \<Rightarrow> bool) \<Rightarrow> nat \<Rightarrow> nat \<Rightarrow> (u32 \<Rightarrow> u8) \<Rightarrow> u32 \<Rightarrow> u8" where
  "erase_range locked k n c = (\<lambda>x. if k \<le> unat x div 4096 \<and> unat x div 4096 < n \<and> \<not> locked x then 0xFF else c x)"

lemma erase_range_step:
  assumes "address < 0x1000000" "unat address div 4096 = k" "k < n"
  shows "erase_range locked (Suc k) n (erase_sector locked (address AND 0xFFF000) c) = erase_range locked k n c"
proof
  fix x
  show "erase_range locked (Suc k) n (erase_sector locked (address AND 0xFFF000) c) x = erase_range locked k n c x"
    unfolding erase_range_def erase_sector_at [OF assms(1)] using assms(2,3) by auto
qed

context nor_chip
begin

lemma erase_sectors_ok:
  assumes "inv s" "unat (partition_start_addr p) = 4096 * b" "4096 * (b + unat i + n) \<le> unat (fc_flash_size cfg)"
  shows "\<exists>s'. erase_sectors hnd (Some p) n i s = Inr s' \<and> inv s' \<and> fst s' = fst s \<and> mem_of s' = mem_of s
    \<and> status_reg view s' = status_reg view s
    \<and> cell_of view s' = erase_range (prot (status_reg view s)) (b + unat i) (b + unat i + n) (cell_of view s)"
  using assms
proof (induction n arbitrary: i s)
  case 0
  then show ?case by (auto simp: erase_range_def fun_eq_iff)
next
  case (Suc n)
  let ?a = "partition_start_addr p + push_bit 12 i"
  have sz: "unat (fc_flash_size cfg) \<le> 0x800000" using flash_config_all(2) [OF known(1)] .
  have a: "unat ?a = 4096 * (b + unat i)"
    using unat_sector_addr [of "partition_start_addr p" i] Suc.prems(2,3) sz by simp
  have a24: "?a < 0x1000000" using a Suc.prems(3) sz unfolding word_less_nat_alt by simp
  have "?a < fc_flash_size cfg" using a Suc.prems(3) unfolding word_less_nat_alt by simp
  with word_and_le2 [of ?a "0xFFF000"] have es: "?a AND 0xFFF000 < fc_flash_size cfg" by (rule le_less_trans)
  obtain s1 where s1: "fs_control hnd CMD_FLASH_ERASE_SECTOR ?a s = Inr s1" "inv s1" "fst s1 = fst s"
    "cell_of view s1 = erase_sector (prot (status_reg view s)) (?a AND 0xFFF000) (cell_of view s)"
    "status_reg view s1 = status_reg view s" "mem_of s1 = mem_of s"
    using erase_sector_ok [OF Suc.prems(1) es] by metis
  have i1: "unat (i + 1) = Suc (unat i)" using Suc.prems(3) sz by (simp add: unat_add_fit)
  obtain s' where s': "erase_sectors hnd (Some p) n (i + 1) s1 = Inr s'" "inv s'" "fst s' = fst s1" "mem_of s' = mem_of s1"
    "status_reg view s' = status_reg view s1"
    "cell_of view s' = erase_range (prot (status_reg view s1)) (b + unat (i + 1)) (b + unat (i + 1) + n) (cell_of view s1)"
    using Suc.IH [OF s1(2) Suc.prems(2), of "i + 1"] Suc.prems(3) i1 by auto
  have "cell_of view s' = erase_range (prot (status_reg view s)) (b + unat i) (b + unat i + Suc n) (cell_of view s)"
    using s'(6) s1(4,5) i1 erase_range_step [OF a24, of "b + unat i" "b + unat i + Suc n"] a by simp
  then show ?case using s' s1 by (simp add: start_of_def)
qed

lemma bk_erase_ok:
  assumes "inv s" "BkFlashPartitionIsValid p" "base = unat (partition_start_addr (bk7231_partitions ! unat p))"
    and "base + unat off + unat sz \<le> unat (fc_flash_size cfg)" "sz \<noteq> 0"
  obtains s' where "bk_flash_erase p off sz s = Inr (kNoErr, s')" "inv s'" "mem_of s' = mem_of s"
    "status_reg view s' = status_reg view s"
    "cell_of view s' = erase_range (prot (status_reg view s)) ((base + unat off) div 4096)
      (Suc ((base + unat off + unat sz - 1) div 4096)) (cell_of view s)"
proof -
  have big: "unat (fc_flash_size cfg) \<le> 0x800000" using flash_config_all(2) [OF known(1)] .
  obtain b where b: "base = 4096 * b" using partition_aligned [OF assms(2)] assms(3) by auto
  obtain z where z: "unat (fc_flash_size cfg) = 4096 * z" using chip_sectors [OF known(1)] by auto
  have pos: "0 < unat sz" using assms(5) by (simp add: unat_gt_0)
  have u1: "unat (off + sz) = unat off + unat sz" using assms(4) big by (simp add: unat_add_fit)
  have "1 \<le> off + sz" using u1 pos unfolding word_le_nat_alt by simp
  then have u: "unat (off + sz - 1) = unat off + unat sz - 1" using u1 by (simp add: unat_sub)
  define k n where "k = unat off div 4096" and "n = Suc ((unat off + unat sz - 1) div 4096)"
  have le: "k \<le> n" "n + b \<le> z"
    using pos assms(4) unfolding k_def n_def b z by (auto intro: div_le_mono le_SucI)
  have sec: "unat (drop_bit 12 off) = k" "sectors_between (drop_bit 12 off) (drop_bit 12 (off + sz - 1)) = n - k"
    by (simp_all add: sectors_between_def drop_bit_eq_div unat_div u k_def n_def)
  obtain st where st: "fs_open_asserted s = Inr (hnd, st, snd s)" "inv (st, snd s)" using open_ok [OF assms(1)] by metis
  have "4096 * (b + unat (drop_bit 12 off) + (n - k)) \<le> unat (fc_flash_size cfg)" using le sec(1) z by simp
  from erase_sectors_ok [OF st(2) _ this, of "bk7231_partitions ! unat p"] assms(3) b
  obtain s' where s': "erase_sectors hnd (Some (bk7231_partitions ! unat p)) (n - k) (drop_bit 12 off) (st, snd s) = Inr s'"
    "inv s'" "mem_of s' = mem_of s" "status_reg view s' = status_reg view s"
    "cell_of view s' = erase_range (prot (status_reg view s)) (b + k) (b + n) (cell_of view s)"
    using le(1) sec(1) by (auto simp: add.assoc)
  have "bk_flash_erase p off sz s = Inr (kNoErr, s')"
    using s'(1) st(1) sec(2) by (simp add: bk_flash_erase_def get_info_valid [OF assms(2)] Let_def)
  moreover have "b + k = (base + unat off) div 4096" "b + n = Suc ((base + unat off + unat sz - 1) div 4096)"
    unfolding k_def n_def b using pos by (simp_all add: add.assoc)
  ultimately show ?thesis using that s' by metis
qed

lemma bk_write_ok:
  assumes "inv s" "BkFlashPartitionIsValid p" "base = partition_start_addr (bk7231_partitions ! unat p)"
    and "unat base + unat off + unat count \<le> unat (fc_flash_size cfg)" "count \<noteq> 0" "buf \<noteq> 0"
  obtains s' where "bk_flash_write p off buf count s = Inr (kNoErr, s')" "inv s'" "mem_of s' = mem_of s"
    "status_reg view s' = status_reg view s"
    "cell_of view s' = prog_range (prot (status_reg view s)) (base + off) (mread (mem_of s) (unat buf) (unat count)) (cell_of view s)"
proof -
  have big: "unat (fc_flash_size cfg) \<le> 0x800000" using flash_config_all(2) [OF known(1)] .
  have "unat (base + off) + unat count \<le> unat (fc_flash_size cfg)" using assms(4) big by (simp add: unat_add_fit)
  moreover obtain st where st: "fs_open_asserted s = Inr (hnd, st, snd s)" "inv (st, snd s)"
    using open_ok [OF assms(1)] by metis
  ultimately obtain s' where s': "fs_write hnd buf count (base + off) (st, snd s) = Inr s'" "inv s'" "mem_of s' = mem_of s"
    "status_reg view s' = status_reg view s"
    "cell_of view s' = prog_range (prot (status_reg view s)) (base + off) (mread (mem_of s) (unat buf) (unat count)) (cell_of view s)"
    using write_ok [OF st(2) _ assms(5), of "base + off" buf, unfolded sys_pair] by metis
  have "bk_flash_write p off buf count s = Inr (kNoErr, s')"
    using s'(1) st(1) assms(3,6) by (simp add: bk_flash_write_def get_info_valid [OF assms(2)] start_of_def)
  then show ?thesis using that s' by metis
qed

lemma bk_read_ok:
  assumes "inv s" "BkFlashPartitionIsValid p" "base = partition_start_addr (bk7231_partitions ! unat p)"
    and "unat base + unat off + unat count \<le> unat (fc_flash_size cfg)" "buf \<noteq> 0"
  obtains s' where "bk_flash_read p off buf count s = Inr (kNoErr, s')" "inv s'" "cell_of view s' = cell_of view s"
    "mem_of s' = mwrite (mem_of s) (unat buf) (cells (cell_of view s) (base + off) (unat count))"
proof -
  have big: "unat (fc_flash_size cfg) \<le> 0x800000" using flash_config_all(2) [OF known(1)] .
  have "unat (base + off) + unat count \<le> 0x1000000" using assms(4) big by (simp add: unat_add_fit)
  moreover obtain st where st: "fs_open_asserted s = Inr (hnd, st, snd s)" "inv (st, snd s)"
    using open_ok [OF assms(1)] by metis
  ultimately obtain s' where s': "fs_read hnd buf count (base + off) (st, snd s) = Inr s'" "inv s'"
    "cell_of view s' = cell_of view s"
    "mem_of s' = mwrite (mem_of s) (unat buf) (cells (cell_of view s) (base + off) (unat count))"
    using read_ok [OF st(2), of "base + off" count buf, unfolded sys_pair] by metis
  have "bk_flash_read p off buf count s = Inr (kNoErr, s')"
    using s'(1) st(1) assms(3,5) by (simp add: bk_flash_read_def get_info_valid [OF assms(2)] start_of_def)
  then show ?thesis using that s' by metis
qed

end

section \<open>The simulated chip\<close>

text \<open>What the protection types protect: nothing, the lower half, all but the last block, everything.\<close>

definition sim_prot :: "flash_config_t \<Rightarrow> u16 \<Rightarrow> u32 \<Rightarrow> bool" where
  "sim_prot cfg sr x =
    (let ty = protect_of cfg (status_of (fc_sr_size cfg) sr) in
     if ty = FLASH_PROTECT_NONE then False
     else if ty = FLASH_PROTECT_HALF then x < fc_flash_size cfg div 2
     else if ty = FLASH_UNPROTECT_LAST_BLOCK then x < fc_flash_size cfg - 0x10000
     else True)"

definition sim_cfg :: flash_config_t where
  "sim_cfg = flash_config ! 4"

lemma sim_cfg_simps: "sim_cfg \<in> set flash_config" "fc_flash_id sim_cfg = 0x0B4016" "fc_flash_size sim_cfg = 0x400000"
  by (simp_all add: sim_cfg_def flash_config_def chip_def)

interpretation simc: nor_chip "nor_sim (sim_prot sim_cfg)" "\<lambda>_. True" sim_busy sim_view "sim_prot sim_cfg" sim_cfg
    no_sctrl 0
  by unfold_locales (simp_all add: sim_cfg_simps sim_prot_def)

text \<open>A system with the flash device registered in the first slot and a blank chip.\<close>

definition sys_ex :: "nor_dev flash_sys" where
  "sys_ex = (\<lparr>drv_dev_tbl = \<lparr>dev_name = Some FLASH_DEV_NAME, use_cnt = 0, dev_state = DD_STATE_CLOSED,
        dev_op = Some (flash_op (nor_sim (sim_prot sim_cfg)) no_sctrl)\<rparr> # replicate 9 no_dev,
      drv_sdev_tbl = []\<rparr>,
    fl_ex\<lparr>fw_config := Some sim_cfg\<rparr>)"

lemma sys_ex_inv: "store_inv (nor_sim (sim_prot sim_cfg)) no_sctrl (\<lambda>_. True) sim_view sim_cfg 0 sys_ex"
  by (simp add: store_inv_def sys_ex_def dev_at_def dd_first_def fl_ex_def DD_MAX_DEV_def DD_MAX_NAME_LEN_def
      FLASH_DEV_NAME_def)

section \<open>Properties\<close>

text \<open>C33: Erasing a range of a partition sets to 0xFF exactly the cells that lie in a sector the range touches and that
  the write protection of the status register leaves open: protected cells keep their contents, although the result is
  \<open>kNoErr\<close> all the same, and on an unprotected chip every touched sector is erased. No other cell and no memory
  changes, whatever the partition's length and options say.\<close>

theorem bk_flash_erase_exact:
  assumes "nor_chip io ok busy view prot cfg" "store_inv io sctrl ok view cfg slot s" "BkFlashPartitionIsValid p"
    and "base = unat (partition_start_addr (bk7231_partitions ! unat p))"
    and "base + unat off + unat sz \<le> unat (fc_flash_size cfg)" "sz \<noteq> 0"
  shows "\<exists>s'. bk_flash_erase p off sz s = Inr (kNoErr, s') \<and> store_inv io sctrl ok view cfg slot s'
    \<and> mem_of s' = mem_of s
    \<and> (\<forall>x. cell_of view s' x =
        (if (base + unat off) div 4096 \<le> unat x div 4096 \<and> unat x div 4096 \<le> (base + unat off + unat sz - 1) div 4096
            \<and> \<not> prot (status_reg view s) x then 0xFF else cell_of view s x))
    \<and> (protect_of cfg (status_of (fc_sr_size cfg) (status_reg view s)) = FLASH_PROTECT_NONE
        \<longrightarrow> (\<forall>x. (base + unat off) div 4096 \<le> unat x div 4096 \<and> unat x div 4096 \<le> (base + unat off + unat sz - 1) div 4096
              \<longrightarrow> cell_of view s' x = 0xFF))"
proof -
  obtain s' where "bk_flash_erase p off sz s = Inr (kNoErr, s')" "store_inv io sctrl ok view cfg slot s'"
    "mem_of s' = mem_of s"
    "cell_of view s' = erase_range (prot (status_reg view s)) ((base + unat off) div 4096)
      (Suc ((base + unat off + unat sz - 1) div 4096)) (cell_of view s)"
    using nor_chip.bk_erase_ok [OF assms] by metis
  then show ?thesis using nor_chip.unprotected [OF assms(1)] by (intro exI [of _ s']) (auto simp: erase_range_def)
qed

text \<open>The same system with the protection bits of the status register clear.\<close>

definition sys_open :: "nor_dev flash_sys" where
  "sys_open = (fst sys_ex, (snd sys_ex)\<lparr>fw_dev := (fw_dev (snd sys_ex))
    \<lparr>sim_view := (sim_view (fw_dev (snd sys_ex)))\<lparr>n_sr := 0x0200\<rparr>\<rparr>\<rparr>)"

lemma sys_open_inv: "store_inv (nor_sim (sim_prot sim_cfg)) no_sctrl (\<lambda>_. True) sim_view sim_cfg 0 sys_open"
  using sys_ex_inv by (simp add: store_inv_def sys_open_def)

lemma sys_open_views: "cell_of sim_view sys_open x = 0" "status_reg sim_view sys_open = 0x0200"
  by (simp_all add: sys_views sys_open_def sys_ex_def fl_ex_def)

lemma sim_prot_ex: "\<not> sim_prot sim_cfg 0x0200 x"
proof -
  have "protect_of sim_cfg (status_of (fc_sr_size sim_cfg) 0x0200) = FLASH_PROTECT_NONE" by code_simp
  then show ?thesis by (simp add: sim_prot_def)
qed

theorem bk_flash_erase_exact_witness:
  "\<exists>s'. bk_flash_erase BK_PARTITION_NET_PARAM 0x10 0x20 sys_open = Inr (kNoErr, s')
    \<and> cell_of sim_view s' 0x1e0fff = 0 \<and> cell_of sim_view s' 0x1e1000 = 0xFF \<and> cell_of sim_view s' 0x1e1fff = 0xFF
    \<and> cell_of sim_view s' 0x1e2000 = 0"
proof -
  have p: "BkFlashPartitionIsValid BK_PARTITION_NET_PARAM" by code_simp
  have b: "0x1e1000 = unat (partition_start_addr (bk7231_partitions ! unat BK_PARTITION_NET_PARAM))"
    by (simp add: bk7231_partitions_def partition_ids)
  have r: "0x1e1000 + unat (0x10 :: u32) + unat (0x20 :: u32) \<le> unat (fc_flash_size sim_cfg)" "(0x20 :: u32) \<noteq> 0"
    by (simp_all add: sim_cfg_simps)
  obtain s' where s': "bk_flash_erase BK_PARTITION_NET_PARAM 0x10 0x20 sys_open = Inr (kNoErr, s')"
    and e: "cell_of sim_view s' x =
        (if (0x1e1000 + unat (0x10 :: u32)) div 4096 \<le> unat x div 4096
            \<and> unat x div 4096 \<le> (0x1e1000 + unat (0x10 :: u32) + unat (0x20 :: u32) - 1) div 4096 then 0xFF else 0)" for x
    using bk_flash_erase_exact [OF simc.nor_chip_axioms sys_open_inv p b r]
    unfolding sys_open_views by (auto simp: sim_prot_ex)
  have "cell_of sim_view s' 0x1e0fff = 0" "cell_of sim_view s' 0x1e1000 = 0xFF" "cell_of sim_view s' 0x1e1fff = 0xFF"
    "cell_of sim_view s' 0x1e2000 = 0" unfolding e by simp_all
  with s' show ?thesis by blast
qed

text \<open>An empty range at the start of a partition is not empty for the loop: it runs over every sector
  number of a 32 bit address space.\<close>

theorem bk_flash_erase_empty_range:
  assumes "BkFlashPartitionIsValid p" "fs_open_asserted s = Inr (h, s1)"
  shows "bk_flash_erase p 0 0 s
    = map_sum id (Pair kNoErr) (erase_sectors h (Some (bk7231_partitions ! unat p)) 0x100000 0 s1)"
proof -
  have "drop_bit 12 (0 + 0 - 1 :: u32) = 0xFFFFF" by code_simp
  moreover have "sectors_between 0 0xFFFFF = 0x100000" by (simp add: sectors_between_def)
  ultimately show ?thesis using assms by (simp add: bk_flash_erase_def get_info_valid Let_def)
qed

end
