(* ===== verification/Net_Param_Spec.thy ===== *)
theory Net_Param_Spec
  imports Net_Param
begin

text \<open>
  The table of network parameters as an association list from item types to data. \<open>enc_tbl\<close> is the
  layout in the flash and \<open>net_rel\<close> relates the flash to the list. Searching, reading and
  saving are shown to be lookup and update of the list.
\<close>

section \<open>Layout\<close>

type_synonym net_items = "(u32 \<times> u8 list) list"

definition enc_item :: "u32 \<times> u8 list \<Rightarrow> u8 list" where
  "enc_item p = word_bytes (fst p) @ word_bytes (of_nat (length (snd p))) @ snd p"

definition enc_body :: "net_items \<Rightarrow> u8 list" where
  "enc_body items = concat (map enc_item items)"

definition enc_tbl :: "net_items \<Rightarrow> u8 list" where
  "enc_tbl items = word_bytes INFO_TLV_HEADER @ word_bytes (of_nat (length (enc_body items))) @ enc_body items"

definition net_types :: "u32 list" where
  "net_types = [AUTO_CONNECT_ITEM, WIFI_MODE_ITEM, DHCP_MODE_ITEM, WIFI_MAC_ITEM, SSID_KEY_ITEM, IP_CONFIG_ITEM,
    RF_CFG_TSSI_ITEM, RF_CFG_DIST_ITEM, RF_CFG_MODE_ITEM, CHARGE_CONFIG_ITEM, RF_CFG_TSSI_B_ITEM]"

definition data_len :: "u32 \<Rightarrow> nat" where
  "data_len ty = unat (info_item_len ty) - 8"

definition wf_items :: "net_items \<Rightarrow> bool" where
  "wf_items items \<longleftrightarrow> distinct (map fst items)
    \<and> list_all (\<lambda>p. fst p \<in> set net_types \<and> length (snd p) = data_len (fst p)) items"

definition net_base :: u32 where "net_base = 0x1e1000"

text \<open>Without a header in the flash the table is empty.\<close>

definition net_rel :: "(u32 \<Rightarrow> u8) \<Rightarrow> net_items \<Rightarrow> bool" where
  "net_rel c items \<longleftrightarrow> wf_items items
    \<and> (cells c net_base (length (enc_tbl items)) = enc_tbl items
       \<or> items = [] \<and> cells c net_base 4 \<noteq> word_bytes INFO_TLV_HEADER)"

lemma length_enc_item [simp]: "length (enc_item p) = 8 + length (snd p)"
  by (simp add: enc_item_def)

lemma enc_body_simps [simp]:
  "enc_body [] = []" "enc_body (p # ps) = enc_item p @ enc_body ps" "enc_body (ps @ qs) = enc_body ps @ enc_body qs"
  by (simp_all add: enc_body_def)

lemma length_enc_tbl [simp]: "length (enc_tbl items) = 8 + length (enc_body items)"
  by (simp add: enc_tbl_def)

lemma length_enc_body: "wf_items items \<Longrightarrow> length (enc_body items) = sum_list (map (\<lambda>p. 8 + data_len (fst p)) items)"
  by (induction items) (auto simp: wf_items_def)

lemma data_len_total: "sum_list (map (\<lambda>ty. 8 + data_len ty) net_types) = 272"
  by (simp add: net_types_def data_len_def info_item_len_def item_ids)

text \<open>The table of distinct known items fits in 280 bytes.\<close>

lemma enc_body_bound:
  assumes "wf_items items"
  shows "length (enc_body items) \<le> 272"
proof -
  let ?f = "\<lambda>ty. 8 + data_len ty"
  have d: "distinct (map fst items)" "set (map fst items) \<subseteq> set net_types" "distinct net_types"
    using assms by (auto simp: wf_items_def list_all_iff net_types_def item_ids)
  have "length (enc_body items) = sum_list (map ?f (map fst items))"
    by (simp add: length_enc_body [OF assms] comp_def)
  also have "\<dots> = sum ?f (set (map fst items))" by (rule sum_list_distinct_conv_sum_set [OF d(1)])
  also have "\<dots> \<le> sum ?f (set net_types)" by (rule sum_mono2 [OF finite_set d(2)]) simp
  also have "\<dots> = 272" using sum_list_distinct_conv_sum_set [OF d(3), of ?f] data_len_total by simp
  finally show ?thesis .
qed

section \<open>Words in the flash\<close>

definition flash_word :: "(u32 \<Rightarrow> u8) \<Rightarrow> u32 \<Rightarrow> u32" where
  "flash_word c a = bytes_word (c a) (c (a + 1)) (c (a + 2)) (c (a + 3))"

lemma cells_4: "cells c a 4 = [c a, c (a + 1), c (a + 2), c (a + 3)]"
  by (simp add: cells_def upt_rec)

lemma flash_word_iff: "flash_word c a = w \<longleftrightarrow> cells c a 4 = word_bytes w"
proof
  assume "flash_word c a = w"
  then show "cells c a 4 = word_bytes w" by (auto simp: flash_word_def cells_4)
next
  assume "cells c a 4 = word_bytes w"
  then show "flash_word c a = w" by (simp add: cells_4 flash_word_def bytes_word_bytes word_bytes_def)
qed

lemma cells_sub:
  assumes "cells c a n = xs @ ys @ zs"
  shows "cells c (a + of_nat (length xs)) (length ys) = ys"
proof -
  have "n = length xs + length ys + length zs" using arg_cong [OF assms, of length] by simp
  then have "take (length ys) (drop (length xs) (cells c a n)) = cells c (a + of_nat (length xs)) (length ys)"
    by (intro take_drop_cells) simp
  then show ?thesis unfolding assms by simp
qed

lemma word_at_cells:
  "word_at (mwrite m a (cells c x 8)) a = flash_word c x" "word_at (mwrite m a (cells c x 8)) (a + 4) = flash_word c (x + 4)"
  by (simp_all add: word_at_def flash_word_def mwrite_def add.commute)

text \<open>Memory that is kept but for the local header struct.\<close>

definition keeps :: "mem \<Rightarrow> mem \<Rightarrow> bool" where
  "keeps m m' \<longleftrightarrow> (\<forall>x. x < unat local_addr \<or> unat local_addr + 8 \<le> x \<longrightarrow> m' x = m x)"

lemma keeps_refl [simp]: "keeps m m" by (simp add: keeps_def)

lemma keeps_trans: "\<lbrakk>keeps m m1; keeps m1 m2\<rbrakk> \<Longrightarrow> keeps m m2" by (auto simp: keeps_def)

lemma keeps_mwrite: "keeps m m' \<Longrightarrow> keeps (mwrite m a bs) (mwrite m' a bs)" by (auto simp: keeps_def mwrite_def)

lemma keeps_local: "length bs = 8 \<Longrightarrow> keeps m (mwrite m (unat local_addr) bs)"
  by (auto simp: keeps_def mem_simps)

lemma net_start_base: "net_start = Inr net_base"
  by (simp add: net_start_def bk_flash_get_info_def BkFlashPartitionAssert_def BkFlashPartitionIsValid_def
      bk7231_partitions_def partition_ids start_of_def net_base_def)

section \<open>Searching\<close>

context nor_chip
begin

text \<open>\<open>same s s'\<close>: the two states have the same flash, and memory up to the local struct.\<close>

definition same :: "'f flash_sys \<Rightarrow> 'f flash_sys \<Rightarrow> bool" where
  "same s s' \<longleftrightarrow> inv s' \<and> cell_of view s' = cell_of view s \<and> keeps (mem_of s) (mem_of s')"

lemma same_trans: "\<lbrakk>same s s1; same s1 s2\<rbrakk> \<Longrightarrow> same s s2"
  by (auto simp: same_def intro: keeps_trans)

lemma sameD: "same s s' \<Longrightarrow> inv s'" "same s s' \<Longrightarrow> cell_of view s' = cell_of view s"
  "same s s' \<Longrightarrow> keeps (mem_of s) (mem_of s')"
  by (simp_all add: same_def)

lemma open_same:
  assumes "inv s"
  obtains s' where "fs_open s = Inr (hnd, s')" "same s s'" "mem_of s' = mem_of s"
  using open_ok [OF assms] that by (metis same_def keeps_refl sys_pair)

lemma close_same:
  assumes "inv s"
  obtains s' where "fs_close hnd s = Inr s'" "same s s'" "mem_of s' = mem_of s"
  using close_ok [OF assms] that by (metis same_def keeps_refl sys_pair)

lemma read_head_ok:
  assumes "inv s" "unat addr + 8 \<le> 0x1000000"
  obtains s' where "read_head hnd addr s = Inr (flash_word (cell_of view s) addr, flash_word (cell_of view s) (addr + 4), s')"
    "same s s'"
proof -
  have "unat addr + unat (8 :: u32) \<le> 0x1000000" using assms(2) by simp
  then obtain s' where s': "fs_read hnd local_addr 8 addr s = Inr s'" "inv s'" "cell_of view s' = cell_of view s"
    "mem_of s' = mwrite (mem_of s) (unat local_addr) (cells (cell_of view s) addr (unat (8 :: u32)))"
    using read_ok [OF assms(1), of addr 8 local_addr] by metis
  have "same s s'" using s'(2-4) keeps_local by (simp add: same_def)
  then show ?thesis using that s'(1,4) by (simp add: read_head_def word_at_cells)
qed

lemma item_loop_ok:
  assumes "inv s" "cells (cell_of view s) addr (length (enc_body items)) = enc_body items"
    and "unat addr + length (enc_body items) \<le> 0x1000000" "end_addr = addr + of_nat (length (enc_body items))"
  shows "\<exists>s'. item_loop hnd ty addr end_addr s
    = Some (Inr (addr + of_nat (length (enc_body (takeWhile (\<lambda>p. fst p \<noteq> ty) items))), s')) \<and> same s s'"
  using assms
proof (induction items arbitrary: addr s)
  case Nil
  then show ?case by (subst item_loop.simps) (auto simp: same_def)
next
  case (Cons p ps)
  let ?c = "cell_of view s" and ?n = "8 + length (snd p)"
  have u: "unat end_addr = unat addr + ?n + length (enc_body ps)"
    using Cons.prems(3,4) by (simp add: unat_add_fit unat_of_nat_u32)
  then have lt: "addr < end_addr" unfolding word_less_nat_alt by simp
  have lay: "cells ?c addr (length (enc_body (p # ps)))
      = [] @ word_bytes (fst p) @ word_bytes (of_nat (length (snd p))) @ snd p @ enc_body ps"
    using Cons.prems(2) by (simp add: enc_item_def)
  have ty: "flash_word ?c addr = fst p" using cells_sub [OF lay] by (simp add: flash_word_iff)
  have "cells ?c addr (length (enc_body (p # ps))) = word_bytes (fst p) @ word_bytes (of_nat (length (snd p))) @ snd p @ enc_body ps"
    using lay by simp
  from cells_sub [OF this] have len: "flash_word ?c (addr + 4) = of_nat (length (snd p))" by (simp add: flash_word_iff)
  have "unat addr + 8 \<le> 0x1000000" using Cons.prems(3) by simp
  then obtain s1 where s1: "read_head hnd addr s = Inr (fst p, of_nat (length (snd p)), s1)" "same s s1"
    using read_head_ok [OF Cons.prems(1)] ty len by metis
  show ?case
  proof (cases "fst p = ty")
    case True
    then show ?thesis using s1 lt by (subst item_loop.simps) auto
  next
    case False
    let ?a = "addr + 8 + of_nat (length (snd p))"
    have a: "?a = addr + of_nat ?n" by simp
    have ua: "unat ?a = unat addr + ?n" unfolding a using Cons.prems(3) by (simp add: unat_add_fit unat_of_nat_u32 del: of_nat_add)
    have "cells ?c addr (length (enc_body (p # ps))) = enc_item p @ enc_body ps @ []" using Cons.prems(2) by simp
    from cells_sub [OF this] have "cells (cell_of view s1) ?a (length (enc_body ps)) = enc_body ps"
      unfolding a using sameD(2) [OF s1(2)] by simp
    moreover have "unat ?a + length (enc_body ps) \<le> 0x1000000" using ua Cons.prems(3) by simp
    moreover have "end_addr = ?a + of_nat (length (enc_body ps))" using Cons.prems(4) by simp
    ultimately obtain s' where "item_loop hnd ty ?a end_addr s1
      = Some (Inr (?a + of_nat (length (enc_body (takeWhile (\<lambda>p. fst p \<noteq> ty) ps))), s'))" "same s1 s'"
      using Cons.IH [OF sameD(1) [OF s1(2)]] by blast
    then show ?thesis using s1 lt False same_trans [OF s1(2)] by (subst item_loop.simps) (auto simp: add.assoc)
  qed
qed

lemma search_tbl_none:
  assumes "inv s" "cells (cell_of view s) net_base 4 \<noteq> word_bytes INFO_TLV_HEADER"
  obtains s' where "search_info_tbl buf s = Inr (False, 0, s')" "same s s'"
proof -
  obtain s0 where s0: "fs_open s = Inr (hnd, s0)" "same s s0" using open_same [OF assms(1)] by metis
  obtain s1 where s1: "read_head hnd net_base s0 = Inr (flash_word (cell_of view s0) net_base,
      flash_word (cell_of view s0) (net_base + 4), s1)" "same s0 s1"
    using read_head_ok [OF sameD(1) [OF s0(2)], of net_base] by (auto simp: net_base_def)
  obtain s2 where s2: "fs_close hnd s1 = Inr s2" "same s1 s2" using close_same [OF sameD(1) [OF s1(2)]] by metis
  have "flash_word (cell_of view s0) net_base \<noteq> INFO_TLV_HEADER"
    using assms(2) sameD(2) [OF s0(2)] by (simp add: flash_word_iff)
  then have "search_info_tbl buf s = Inr (False, 0, s2)"
    using s0(1) s1(1) s2(1) by (simp add: search_info_tbl_def net_start_base)
  moreover have "same s s2" using s0(2) s1(2) s2(2) by (blast intro: same_trans)
  ultimately show ?thesis using that by blast
qed

end

lemma table_head:
  assumes "cells c net_base (length (enc_tbl items)) = enc_tbl items"
  shows "flash_word c net_base = INFO_TLV_HEADER" "flash_word c (net_base + 4) = of_nat (length (enc_body items))"
    "cells c (net_base + 8) (length (enc_body items)) = enc_body items"
proof -
  let ?h = "word_bytes INFO_TLV_HEADER" and ?l = "word_bytes (of_nat (length (enc_body items)))"
  have "cells c net_base (length (enc_tbl items)) = [] @ ?h @ ?l @ enc_body items"
    and "cells c net_base (length (enc_tbl items)) = ?h @ ?l @ enc_body items"
    and "cells c net_base (length (enc_tbl items)) = (?h @ ?l) @ enc_body items @ []"
    using assms by (simp_all add: enc_tbl_def)
  from this [THEN cells_sub] show "flash_word c net_base = INFO_TLV_HEADER"
    "flash_word c (net_base + 4) = of_nat (length (enc_body items))"
    "cells c (net_base + 8) (length (enc_body items)) = enc_body items" by (simp_all add: flash_word_iff)
qed

context nor_chip
begin

lemma search_tbl_some:
  assumes "inv s" "wf_items items" "cells (cell_of view s) net_base (length (enc_tbl items)) = enc_tbl items"
  obtains s' m where "search_info_tbl buf s = Inr (True, of_nat (length (enc_tbl items)), s')" "inv s'"
    "cell_of view s' = cell_of view s" "keeps (mem_of s) m"
    "mem_of s' = (if buf = 0 then m else mwrite m (unat buf) (enc_tbl items))"
proof -
  note hd = table_head [OF assms(3)] and bd = enc_body_bound [OF assms(2)]
  obtain s0 where s0: "fs_open s = Inr (hnd, s0)" "same s s0" using open_same [OF assms(1)] by metis
  note c0 = sameD(2) [OF s0(2)]
  obtain s1 where s1: "read_head hnd net_base s0 = Inr (INFO_TLV_HEADER, of_nat (length (enc_body items)), s1)" "same s0 s1"
    using read_head_ok [OF sameD(1) [OF s0(2)], of net_base] hd c0 by (auto simp: net_base_def)
  note s01 = same_trans [OF s0(2) s1(2)]
  have n: "of_nat (length (enc_body items)) + 8 = (of_nat (length (enc_tbl items)) :: u32)" by simp
  have un: "unat (of_nat (length (enc_tbl items)) :: u32) = length (enc_tbl items)"
    using bd by (simp add: unat_of_nat_u32 del: of_nat_add)
  obtain s2 where s2: "(if buf \<noteq> 0 then fs_read hnd buf (of_nat (length (enc_tbl items))) net_base s1 else Inr s1) = Inr s2"
    "inv s2" "cell_of view s2 = cell_of view s"
    "mem_of s2 = (if buf = 0 then mem_of s1 else mwrite (mem_of s1) (unat buf) (enc_tbl items))"
  proof (cases "buf = 0")
    case True
    then show ?thesis using that [of s1] sameD [OF s01] by simp
  next
    case False
    have "unat net_base + unat (of_nat (length (enc_tbl items)) :: u32) \<le> 0x1000000"
      unfolding un using bd by (simp add: net_base_def)
    then obtain s2 where "fs_read hnd buf (of_nat (length (enc_tbl items))) net_base s1 = Inr s2" "inv s2"
      "cell_of view s2 = cell_of view s1"
      "mem_of s2 = mwrite (mem_of s1) (unat buf) (cells (cell_of view s1) net_base (length (enc_tbl items)))"
      using read_ok [OF sameD(1) [OF s01], of net_base "of_nat (length (enc_tbl items))" buf] unfolding un by metis
    then show ?thesis using that [of s2] False sameD(2) [OF s01] assms(3) by simp
  qed
  obtain s3 where s3: "fs_close hnd s2 = Inr s3" "same s2 s3" "mem_of s3 = mem_of s2" using close_same [OF s2(2)] by metis
  have "search_info_tbl buf s = Inr (True, of_nat (length (enc_tbl items)), s3)"
    using s0(1) s1(1) s2(1) s3(1) n by (auto simp: search_info_tbl_def net_start_base add.commute)
  then show ?thesis using that [OF _ sameD(1) [OF s3(2)] _ sameD(3) [OF s01]] sameD(2) [OF s3(2)] s2(3,4) s3(3) by simp
qed

end

text \<open>The address of an item in the table, 0 when it is not there.\<close>

definition item_addr :: "u32 \<Rightarrow> net_items \<Rightarrow> u32" where
  "item_addr ty items = (if ty \<in> fst ` set items
    then net_base + 8 + of_nat (length (enc_body (takeWhile (\<lambda>p. fst p \<noteq> ty) items))) else 0)"

context nor_chip
begin

lemma search_item_ok:
  assumes "inv s" "wf_items items" "cells (cell_of view s) net_base (length (enc_tbl items)) = enc_tbl items"
  obtains s' where "search_info_item ty net_base s = Inr (item_addr ty items, s')" "same s s'"
proof -
  note hd = table_head [OF assms(3)] and bd = enc_body_bound [OF assms(2)]
  let ?a = "net_base + 8" and ?pre = "takeWhile (\<lambda>p. fst p \<noteq> ty) items"
  let ?e = "?a + of_nat (length (enc_body items))"
  obtain s0 where s0: "fs_open s = Inr (hnd, s0)" "same s s0" using open_same [OF assms(1)] by metis
  note c0 = sameD(2) [OF s0(2)]
  obtain s1 where s1: "read_head hnd net_base s0 = Inr (INFO_TLV_HEADER, of_nat (length (enc_body items)), s1)" "same s0 s1"
    using read_head_ok [OF sameD(1) [OF s0(2)], of net_base] hd c0 by (auto simp: net_base_def)
  note s01 = same_trans [OF s0(2) s1(2)]
  have "unat ?a + length (enc_body items) \<le> 0x1000000" using bd by (simp add: net_base_def)
  then obtain s2 where s2: "item_loop hnd ty ?a ?e s1 = Some (Inr (?a + of_nat (length (enc_body ?pre)), s2))" "same s1 s2"
    using item_loop_ok [OF sameD(1) [OF s01] _ _ refl, of ?a items ty] hd(3) sameD(2) [OF s01] by auto
  obtain s3 where s3: "fs_close hnd s2 = Inr s3" "same s2 s3" using close_same [OF sameD(1) [OF s2(2)]] by metis
  have at: "(if ?a + of_nat (length (enc_body ?pre)) \<ge> ?e then 0 else ?a + of_nat (length (enc_body ?pre))) = item_addr ty items"
  proof (cases "ty \<in> fst ` set items")
    case True
    then obtain p where "p \<in> set items" "fst p = ty" by auto
    then have "dropWhile (\<lambda>p. fst p \<noteq> ty) items \<noteq> []" by (auto simp: dropWhile_eq_Nil_conv)
    then obtain q r where "dropWhile (\<lambda>p. fst p \<noteq> ty) items = q # r" by (cases "dropWhile (\<lambda>p. fst p \<noteq> ty) items") auto
    then have "items = ?pre @ q # r" by (metis takeWhile_dropWhile_id)
    then have "enc_body items = enc_body ?pre @ enc_item q @ enc_body r" by (metis enc_body_simps(2,3))
    then have lt: "length (enc_body ?pre) < length (enc_body items)" by simp
    then have "?a + of_nat (length (enc_body ?pre)) < ?e"
      using bd unfolding word_less_nat_alt by (simp add: net_base_def unat_add_fit unat_of_nat_u32)
    then show ?thesis using True by (simp only: item_addr_def if_True not_le [symmetric] if_False simp_thms)
  next
    case False
    then have e: "?pre = items" by (auto simp: takeWhile_eq_all_conv)
    show ?thesis unfolding e using False by (simp add: item_addr_def)
  qed
  have "search_info_item ty net_base s = Inr (item_addr ty items, s3)"
    using s0(1) s1(1) s2(1) s3(1) at by (simp add: search_info_item_def Let_def)
  then show ?thesis using that same_trans [OF s01 same_trans [OF s2(2) s3(2)]] by blast
qed

end

text \<open>An item of the table in the flash.\<close>

lemma item_split:
  "map_of items ty = Some bs \<Longrightarrow> \<exists>post. items = takeWhile (\<lambda>p. fst p \<noteq> ty) items @ (ty, bs) # post"
  by (induction items) auto

lemma item_at:
  assumes "cells c net_base (length (enc_tbl items)) = enc_tbl items" "map_of items ty = Some bs"
  shows "flash_word c (item_addr ty items + 4) = of_nat (length bs)"
    "cells c (item_addr ty items + 8) (length bs) = bs"
proof -
  define pre where "pre = takeWhile (\<lambda>p. fst p \<noteq> ty) items"
  obtain post where e: "items = pre @ (ty, bs) # post" using item_split [OF assms(2)] pre_def by auto
  have a: "item_addr ty items = net_base + 8 + of_nat (length (enc_body pre))"
    unfolding item_addr_def pre_def [symmetric] by (simp add: e)
  have lay: "cells c (net_base + 8) (length (enc_body items))
    = enc_body pre @ word_bytes ty @ word_bytes (of_nat (length bs)) @ bs @ enc_body post"
    using table_head(3) [OF assms(1)] by (simp add: e enc_item_def)
  from lay have "cells c (net_base + 8) (length (enc_body items))
    = (enc_body pre @ word_bytes ty) @ word_bytes (of_nat (length bs)) @ bs @ enc_body post" by simp
  from cells_sub [OF this] show "flash_word c (item_addr ty items + 4) = of_nat (length bs)"
    by (simp add: flash_word_iff a add.assoc)
  from lay have "cells c (net_base + 8) (length (enc_body items))
    = (enc_body pre @ word_bytes ty @ word_bytes (of_nat (length bs))) @ bs @ enc_body post" by simp
  from cells_sub [OF this] show "cells c (item_addr ty items + 8) (length bs) = bs" by (simp add: a add.assoc)
qed

section \<open>Reading an item\<close>

definition deliver :: "u32 \<Rightarrow> u8 list \<Rightarrow> u32 \<Rightarrow> u32 \<Rightarrow> u32 \<Rightarrow> mem \<Rightarrow> mem" where
  "deliver item bs p0 p1 p2 m =
    (if item = SSID_KEY_ITEM then mwrite (mwrite m (unat p0) (take 32 bs)) (unat p1) (drop 32 bs)
     else if item = IP_CONFIG_ITEM
     then mwrite (mwrite (mwrite m (unat p0) (take 16 bs)) (unat p1) (take 16 (drop 16 bs))) (unat p2) (drop 32 bs)
     else mwrite m (unat p0) bs)"

definition ptrs_ok :: "u32 \<Rightarrow> u32 \<Rightarrow> u32 \<Rightarrow> u32 \<Rightarrow> bool" where
  "ptrs_ok item p0 p1 p2 \<longleftrightarrow> p0 \<noteq> 0 \<and> (item = SSID_KEY_ITEM \<longrightarrow> p1 \<noteq> 0)
    \<and> (item = IP_CONFIG_ITEM \<longrightarrow> p1 \<noteq> 0 \<and> p2 \<noteq> 0)"

lemma keeps_deliver: "keeps m m' \<Longrightarrow> keeps (deliver item bs p0 p1 p2 m) (deliver item bs p0 p1 p2 m')"
  by (simp add: deliver_def keeps_mwrite)

lemma known_types:
  "ty \<in> set net_types \<Longrightarrow> simple_item ty \<or> ty = SSID_KEY_ITEM \<or> ty = IP_CONFIG_ITEM"
  by (auto simp: net_types_def simple_item_def)

lemma not_simple: "\<not> simple_item SSID_KEY_ITEM" "\<not> simple_item IP_CONFIG_ITEM" "SSID_KEY_ITEM \<noteq> IP_CONFIG_ITEM"
  by (simp_all add: simple_item_def item_ids)

lemma wf_lookup:
  assumes "wf_items items" "map_of items ty = Some bs"
  shows "ty \<in> set net_types" "length bs = data_len ty"
  using assms(1) map_of_SomeD [OF assms(2)] by (auto simp: wf_items_def list_all_iff)

lemma item_addr_bound:
  assumes "wf_items items" "map_of items ty = Some bs"
  shows "item_addr ty items \<noteq> 0" "unat (item_addr ty items + 8) + length bs \<le> 0x1000000"
    "unat (item_addr ty items) + 8 \<le> 0x1000000"
proof -
  define pre where "pre = takeWhile (\<lambda>p. fst p \<noteq> ty) items"
  obtain post where e: "items = pre @ (ty, bs) # post" using item_split [OF assms(2)] pre_def by auto
  have b: "length (enc_body pre) + 8 + length bs \<le> 272" using enc_body_bound [OF assms(1)] by (simp add: e)
  have a: "item_addr ty items = of_nat (0x1e1008 + length (enc_body pre))"
    unfolding item_addr_def pre_def [symmetric] by (simp add: e net_base_def)
  have u: "unat (item_addr ty items) = 0x1e1008 + length (enc_body pre)"
    unfolding a by (rule unat_of_nat_u32) (use b in simp)
  then show "item_addr ty items \<noteq> 0" "unat (item_addr ty items) + 8 \<le> 0x1000000" using b by auto
  have "unat (item_addr ty items + 8) = unat (item_addr ty items) + 8" using u b by (simp add: unat_add_fit)
  then show "unat (item_addr ty items + 8) + length bs \<le> 0x1000000" using u b by simp
qed

context nor_chip
begin

lemma read_part:
  assumes "inv s" "cells (cell_of view s) a (length bs) = bs" "k + j \<le> length bs" "unat a + length bs \<le> 0x1000000"
  obtains s' where "fs_read hnd p (of_nat j) (a + of_nat k) s = Inr s'" "inv s'" "cell_of view s' = cell_of view s"
    "mem_of s' = mwrite (mem_of s) (unat p) (take j (drop k bs))"
proof -
  have u: "unat (of_nat j :: u32) = j" using assms(3,4) by (simp add: unat_of_nat_u32)
  have "unat (a + of_nat k) = unat a + k" using assms(3,4) by (simp add: unat_add_fit unat_of_nat_u32)
  then have "unat (a + of_nat k) + unat (of_nat j :: u32) \<le> 0x1000000" using assms(3,4) u by simp
  moreover have "cells (cell_of view s) (a + of_nat k) j = take j (drop k bs)"
    using take_drop_cells [OF assms(3), of "cell_of view s" a] assms(2) by simp
  ultimately show ?thesis
    using read_ok [OF assms(1), of "a + of_nat k" "of_nat j" p] that unfolding u by metis
qed

lemma get_fields_ok:
  assumes "inv s" "cells (cell_of view s) a (length bs) = bs" "unat a + length bs \<le> 0x1000000"
    and "item \<in> set net_types" "length bs = data_len item" "ptrs_ok item p0 p1 p2"
  obtains s' where "get_fields hnd item p0 p1 p2 (of_nat (length bs)) a s = Inr (1, s')" "inv s'"
    "cell_of view s' = cell_of view s" "mem_of s' = deliver item bs p0 p1 p2 (mem_of s)"
proof -
  consider "simple_item item" | "item = SSID_KEY_ITEM" | "item = IP_CONFIG_ITEM" using known_types [OF assms(4)] by blast
  then show ?thesis
  proof cases
    case 1
    obtain s' where "fs_read hnd p0 (of_nat (length bs)) a s = Inr s'" "inv s'" "cell_of view s' = cell_of view s"
      "mem_of s' = mwrite (mem_of s) (unat p0) bs"
      using read_part [OF assms(1-2) _ assms(3), of 0 "length bs" p0] by auto
    moreover have "item \<noteq> SSID_KEY_ITEM" "item \<noteq> IP_CONFIG_ITEM" using 1 not_simple by auto
    ultimately show ?thesis using that [of s'] 1 assms(6) by (simp add: get_fields_def ptrs_ok_def deliver_def)
  next
    case 2
    then have n: "length bs = 96" using assms(5) by (simp add: data_len_def info_item_len_def item_ids)
    obtain s1 where s1: "fs_read hnd p0 32 a s = Inr s1" "inv s1" "cell_of view s1 = cell_of view s"
      "mem_of s1 = mwrite (mem_of s) (unat p0) (take 32 bs)"
      using read_part [OF assms(1-2) _ assms(3), of 0 32 p0] n by auto
    obtain s2 where s2: "fs_read hnd p1 64 (a + 32) s1 = Inr s2" "inv s2" "cell_of view s2 = cell_of view s1"
      "mem_of s2 = mwrite (mem_of s1) (unat p1) (drop 32 bs)"
      using read_part [OF s1(2) _ _ assms(3), of 32 64 p1] n assms(2) s1(3) by auto
    show ?thesis using that [of s2] s1 s2 2 assms(6) not_simple by (auto simp: get_fields_def ptrs_ok_def deliver_def)
  next
    case 3
    then have n: "length bs = 48" using assms(5) by (simp add: data_len_def info_item_len_def item_ids)
    obtain s1 where s1: "fs_read hnd p0 16 a s = Inr s1" "inv s1" "cell_of view s1 = cell_of view s"
      "mem_of s1 = mwrite (mem_of s) (unat p0) (take 16 bs)"
      using read_part [OF assms(1-2) _ assms(3), of 0 16 p0] n by auto
    obtain s2 where s2: "fs_read hnd p1 16 (a + 16) s1 = Inr s2" "inv s2" "cell_of view s2 = cell_of view s1"
      "mem_of s2 = mwrite (mem_of s1) (unat p1) (take 16 (drop 16 bs))"
      using read_part [OF s1(2) _ _ assms(3), of 16 16 p1] n assms(2) s1(3) by auto
    obtain s3 where s3: "fs_read hnd p2 16 (a + 32) s2 = Inr s3" "inv s3" "cell_of view s3 = cell_of view s2"
      "mem_of s3 = mwrite (mem_of s2) (unat p2) (drop 32 bs)"
      using read_part [OF s2(2) _ _ assms(3), of 32 16 p2] n assms(2) s1(3) s2(3) by auto
    show ?thesis using that [of s3] s1 s2 s3 3 assms(6) not_simple
      by (auto simp: get_fields_def ptrs_ok_def deliver_def add.assoc)
  qed
qed

lemma get_item_none:
  assumes "inv s" "net_rel (cell_of view s) items" "map_of items item = None"
  obtains s' where "get_info_item item p0 p1 p2 s = Inr (0, s')" "same s s'"
proof (cases "cells (cell_of view s) net_base (length (enc_tbl items)) = enc_tbl items")
  case True
  have wf: "wf_items items" using assms(2) by (simp add: net_rel_def)
  obtain s1 where s1: "search_info_tbl 0 s = Inr (True, of_nat (length (enc_tbl items)), s1)" "same s s1"
    using search_tbl_some [OF assms(1) wf True, of 0] by (metis same_def)
  have "cells (cell_of view s1) net_base (length (enc_tbl items)) = enc_tbl items" using True sameD(2) [OF s1(2)] by simp
  then obtain s2 where s2: "search_info_item item net_base s1 = Inr (item_addr item items, s2)" "same s1 s2"
    using search_item_ok [OF sameD(1) [OF s1(2)] wf] by metis
  have "item_addr item items = 0" using assms(3) by (auto simp: item_addr_def map_of_eq_None_iff)
  then have "get_info_item item p0 p1 p2 s = Inr (0, s2)"
    using s1(1) s2(1) by (simp add: get_info_item_def net_start_base)
  then show ?thesis using that same_trans [OF s1(2) s2(2)] by blast
next
  case False
  then have "cells (cell_of view s) net_base 4 \<noteq> word_bytes INFO_TLV_HEADER" using assms(2) by (simp add: net_rel_def)
  then obtain s1 where "search_info_tbl 0 s = Inr (False, 0, s1)" "same s s1"
    using search_tbl_none [OF assms(1)] by metis
  then show ?thesis using that by (simp add: get_info_item_def)
qed

lemma get_item_some:
  assumes "inv s" "net_rel (cell_of view s) items" "map_of items item = Some bs" "ptrs_ok item p0 p1 p2"
  obtains s' where "get_info_item item p0 p1 p2 s = Inr (1, s')" "inv s'" "cell_of view s' = cell_of view s"
    "keeps (deliver item bs p0 p1 p2 (mem_of s)) (mem_of s')"
proof -
  have wf: "wf_items items" and tbl: "cells (cell_of view s) net_base (length (enc_tbl items)) = enc_tbl items"
    using assms(2,3) by (auto simp: net_rel_def)
  note ab = item_addr_bound [OF wf assms(3)]
  obtain s1 where s1: "search_info_tbl 0 s = Inr (True, of_nat (length (enc_tbl items)), s1)" "same s s1"
    using search_tbl_some [OF assms(1) wf tbl, of 0] by (metis same_def)
  have "cells (cell_of view s1) net_base (length (enc_tbl items)) = enc_tbl items" using tbl sameD(2) [OF s1(2)] by simp
  then obtain s2 where s2: "search_info_item item net_base s1 = Inr (item_addr item items, s2)" "same s1 s2"
    using search_item_ok [OF sameD(1) [OF s1(2)] wf] by metis
  obtain s3 where s3: "fs_open s2 = Inr (hnd, s3)" "same s2 s3" using open_same [OF sameD(1) [OF s2(2)]] by metis
  have s03: "same s s3" using s1(2) s2(2) s3(2) by (blast intro: same_trans)
  obtain ty s4 where s4: "read_head hnd (item_addr item items) s3 = Inr (ty, of_nat (length bs), s4)" "same s3 s4"
    using read_head_ok [OF sameD(1) [OF s03] ab(3)] item_at(1) [OF tbl assms(3)] sameD(2) [OF s03] by metis
  note s04 = same_trans [OF s03 s4(2)]
  have "cells (cell_of view s4) (item_addr item items + 8) (length bs) = bs"
    using item_at(2) [OF tbl assms(3)] sameD(2) [OF s04] by simp
  then obtain s5 where s5: "get_fields hnd item p0 p1 p2 (of_nat (length bs)) (item_addr item items + 8) s4 = Inr (1, s5)"
    "inv s5" "cell_of view s5 = cell_of view s4" "mem_of s5 = deliver item bs p0 p1 p2 (mem_of s4)"
    using get_fields_ok [OF sameD(1) [OF s04] _ ab(2) wf_lookup [OF wf assms(3)] assms(4)] by metis
  obtain s6 where s6: "fs_close hnd s5 = Inr s6" "same s5 s6" "mem_of s6 = mem_of s5" using close_same [OF s5(2)] by metis
  have "get_info_item item p0 p1 p2 s = Inr (1, s6)"
    using s1(1) s2(1) s3(1) s4(1) s5(1) s6(1) ab(1) by (simp add: get_info_item_def net_start_base)
  moreover have "keeps (deliver item bs p0 p1 p2 (mem_of s)) (mem_of s6)"
    using s6(3) s5(4) keeps_deliver [OF sameD(3) [OF s04]] by simp
  ultimately show ?thesis using that s5(3) sameD [OF s6(2)] sameD(2) [OF s04] by simp
qed

end

end
