(* ===== verification/Net_Param_Save.thy ===== *)
theory Net_Param_Save
  imports Net_Param_Spec "HOL-Library.AList"
begin

text \<open>
  Saving an item: the table is rebuilt in an allocated buffer and written over the sector.
  \<open>AList.update\<close> is the specification: the item is replaced in place or appended.
\<close>

section \<open>Blocks of memory\<close>

lemma mread_splice:
  assumes "k + length bs \<le> n"
  shows "mread (mwrite m (a + k) bs) a n = take k (mread m a n) @ bs @ drop (k + length bs) (mread m a n)"
  using assms by (intro nth_equalityI) (auto simp: nth_append mwrite_def)

lemma splice_at:
  assumes "mread m a n = xs @ ys @ zs" "length bs = length ys" "b = a + length xs"
  shows "mread (mwrite m b bs) a n = xs @ bs @ zs"
proof -
  have "n = length xs + length ys + length zs" using arg_cong [OF assms(1), of length] by simp
  then show ?thesis using mread_splice [of "length xs" bs n m a] assms by simp
qed

lemma mread_keeps:
  "\<lbrakk>keeps m m'; disjoint_blocks a n (unat local_addr) 8\<rbrakk> \<Longrightarrow> mread m' a n = mread m a n"
  by (rule nth_equalityI) (auto simp: keeps_def disjoint_blocks_def)

text \<open>Memory that is kept but for the local struct and one block.\<close>

definition keeps_but :: "nat \<Rightarrow> nat \<Rightarrow> mem \<Rightarrow> mem \<Rightarrow> bool" where
  "keeps_but b n m m' \<longleftrightarrow> (\<forall>x. (x < unat local_addr \<or> unat local_addr + 8 \<le> x) \<and> (x < b \<or> b + n \<le> x) \<longrightarrow> m' x = m x)"

lemma keeps_but_refl [simp]: "keeps_but b n m m" by (simp add: keeps_but_def)

lemma keeps_but_trans: "\<lbrakk>keeps_but b n m m1; keeps_but b n m1 m2\<rbrakk> \<Longrightarrow> keeps_but b n m m2"
  by (auto simp: keeps_but_def)

lemma keeps_keeps_but: "keeps m m' \<Longrightarrow> keeps_but b n m m'" by (auto simp: keeps_def keeps_but_def)

lemma keeps_but_mwrite: "\<lbrakk>b \<le> a; a + length bs \<le> b + n\<rbrakk> \<Longrightarrow> keeps_but b n m (mwrite m a bs)"
  by (auto simp: keeps_but_def mwrite_def)

lemma mread_keeps_but:
  "\<lbrakk>keeps_but b k m m'; disjoint_blocks a n (unat local_addr) 8; disjoint_blocks a n b k\<rbrakk> \<Longrightarrow> mread m' a n = mread m a n"
  by (rule nth_equalityI) (auto simp: keeps_but_def disjoint_blocks_def)

section \<open>The sources of an item\<close>

definition srcs :: "u32 \<Rightarrow> u32 \<Rightarrow> u32 \<Rightarrow> u32 \<Rightarrow> (u32 \<times> nat) list" where
  "srcs item p0 p1 p2 =
    (if item = WIFI_MAC_ITEM then [(p0, 6)]
     else if item = SSID_KEY_ITEM then [(p0, 32), (p1, 64)]
     else if item = IP_CONFIG_ITEM then [(p0, 16), (p1, 16), (p2, 16)]
     else [(p0, 4)])"

definition payload :: "(u32 \<times> nat) list \<Rightarrow> mem \<Rightarrow> u8 list" where
  "payload ss m = concat (map (\<lambda>(p, n). mread m (unat p) n) ss)"

definition srcs_ok :: "(u32 \<times> nat) list \<Rightarrow> nat \<Rightarrow> nat \<Rightarrow> bool" where
  "srcs_ok ss b k \<longleftrightarrow> list_all (\<lambda>(p, n). p \<noteq> 0 \<and> disjoint_blocks (unat p) n (unat local_addr) 8
    \<and> disjoint_blocks (unat p) n b k) ss"

primrec copies :: "nat \<Rightarrow> (u32 \<times> nat) list \<Rightarrow> 'f flash_sys \<Rightarrow> 'f flash_sys result" where
  "copies dst [] s = Inr s"
| "copies dst (p # ps) s = bind_res (copy_in dst (fst p) (snd p) s) (copies (dst + snd p) ps)"

lemma put_fields_copies: "put_fields item dst p0 p1 p2 s = copies dst (srcs item p0 p1 p2) s"
proof -
  have "bind_res x Inr = x" for x :: "'a result" by (cases x) simp_all
  moreover have "bind_res (bind_res x f) g = bind_res x (\<lambda>y. bind_res (f y) g)" for x :: "'a result"
    and f :: "'a \<Rightarrow> 'b result" and g :: "'b \<Rightarrow> 'c result" by (cases x) simp_all
  ultimately show ?thesis by (simp add: put_fields_def srcs_def add.assoc bind_res_def cong: sum.case_cong split: sum.splits)
qed

lemma length_payload: "length (payload ss m) = sum_list (map snd ss)"
  by (induction ss) (auto simp: payload_def split_beta)

lemma payload_keeps: "\<lbrakk>srcs_ok ss b k; keeps_but b k m m'\<rbrakk> \<Longrightarrow> payload ss m' = payload ss m"
  by (induction ss) (auto simp: payload_def srcs_ok_def mread_keeps_but)

lemma copies_payload:
  assumes "srcs_ok ss b k" "b \<le> dst" "dst + sum_list (map snd ss) \<le> b + k"
  shows "copies dst ss s = Inr (upd_mem (\<lambda>m. mwrite m dst (payload ss m)) s)"
  using assms
proof (induction ss arbitrary: dst s)
  case Nil
  then show ?case by (simp add: payload_def upd_mem_def)
next
  case (Cons p ps)
  let ?s1 = "upd_mem (os_memcpy dst (unat (fst p)) (snd p)) s"
  have ok: "srcs_ok ps b k" "fst p \<noteq> 0" using Cons.prems(1) by (auto simp: srcs_ok_def)
  have m1: "mem_of ?s1 = mwrite (mem_of s) dst (mread (mem_of s) (unat (fst p)) (snd p))"
    by (simp add: upd_mem_def os_memcpy_def mem_of_def)
  have "keeps_but b k (mem_of s) (mem_of ?s1)" unfolding m1 using Cons.prems(2,3) by (intro keeps_but_mwrite) auto
  note pl = payload_keeps [OF ok(1) this]
  have "copies (dst + snd p) ps ?s1 = Inr (upd_mem (\<lambda>m. mwrite m (dst + snd p) (payload ps m)) ?s1)"
    using Cons.IH [OF ok(1)] Cons.prems(2,3) by simp
  also have "upd_mem (\<lambda>m. mwrite m (dst + snd p) (payload ps m)) ?s1
    = upd_mem (\<lambda>m. mwrite m dst (payload (p # ps) m)) s"
    using pl mwrite_append [of "mem_of s" dst "mread (mem_of s) (unat (fst p)) (snd p)" "payload ps (mem_of s)"]
    by (simp add: upd_mem_def mem_of_def os_memcpy_def payload_def split_beta)
  finally show ?case using ok(2) by (simp add: copy_in_def)
qed

lemma srcs_len: "item \<in> set net_types \<Longrightarrow> sum_list (map snd (srcs item p0 p1 p2)) \<le> data_len item"
  by (auto simp: net_types_def srcs_def data_len_def info_item_len_def item_ids)

section \<open>The new table\<close>

definition old_data :: "u32 \<Rightarrow> net_items \<Rightarrow> u8 list" where
  "old_data item items = (case map_of items item of Some bs \<Rightarrow> bs | None \<Rightarrow> replicate (data_len item) 0)"

text \<open>The data of the item after the save: what is copied, and the rest of what was there.\<close>

definition new_data :: "u32 \<Rightarrow> u8 list \<Rightarrow> net_items \<Rightarrow> u8 list" where
  "new_data item pl items = pl @ drop (length pl) (old_data item items)"

definition new_len :: "u32 \<Rightarrow> net_items \<Rightarrow> nat" where
  "new_len item items = 8 + length (enc_body (AList.update item (old_data item items) items))"

lemma wf_update:
  assumes "wf_items items" "item \<in> set net_types" "length bs = data_len item"
  shows "wf_items (AList.update item bs items)"
proof -
  have "set (AList.update item bs items) \<subseteq> insert (item, bs) (set items)" by (induction items) auto
  then show ?thesis using assms by (auto simp: wf_items_def list_all_iff intro: distinct_update)
qed

lemma length_old_data:
  assumes "wf_items items" "item \<in> set net_types"
  shows "length (old_data item items) = data_len item"
  using wf_lookup(2) [OF assms(1)] by (auto simp: old_data_def split: option.splits)

text \<open>The parts of the buffer before the item is filled in: header, items before, a header of the item,
  its data, items behind.\<close>

definition buf_parts :: "u32 \<Rightarrow> net_items \<Rightarrow> u8 list \<Rightarrow> net_items \<Rightarrow> net_items \<Rightarrow> bool" where
  "buf_parts item items buf pre post \<longleftrightarrow>
    (\<forall>x. AList.update item x items = pre @ (item, x) # post)
    \<and> (\<exists>hdr hd. buf = hdr @ enc_body pre @ hd @ old_data item items @ enc_body post \<and> length hdr = 8 \<and> length hd = 8)"

lemma update_append: "map_of items item = None \<Longrightarrow> AList.update item x items = items @ [(item, x)]"
  by (induction items) (auto split: if_splits)

lemma update_replace:
  "item \<notin> fst ` set pre \<Longrightarrow> AList.update item x (pre @ (item, old) # post) = pre @ (item, x) # post"
  by (induction pre) auto

lemma buf_parts_new:
  assumes "map_of items item = None" "length hdr = 8" "buf = hdr @ enc_body items @ replicate (8 + data_len item) 0"
  shows "buf_parts item items buf items []"
proof -
  have "buf = hdr @ enc_body items @ replicate 8 0 @ old_data item items @ enc_body []"
    using assms by (simp add: old_data_def replicate_add)
  moreover have "length (replicate 8 (0 :: u8)) = 8" by simp
  ultimately show ?thesis using assms(1,2) update_append [OF assms(1)] unfolding buf_parts_def by blast
qed

lemma buf_parts_old:
  assumes "map_of items item = Some bs" "pre = takeWhile (\<lambda>p. fst p \<noteq> item) items"
  obtains post where "buf_parts item items (enc_tbl items) pre post"
proof -
  obtain post where e: "items = pre @ (item, bs) # post" using item_split [OF assms(1)] assms(2) by auto
  have n: "item \<notin> fst ` set pre" unfolding assms(2) by (auto dest: set_takeWhileD)
  have "AList.update item x items = pre @ (item, x) # post" for x using update_replace [OF n] e by metis
  moreover have "enc_tbl items = (word_bytes INFO_TLV_HEADER @ word_bytes (of_nat (length (enc_body items))))
    @ enc_body pre @ (word_bytes item @ word_bytes (of_nat (length bs))) @ old_data item items @ enc_body post"
    unfolding enc_tbl_def old_data_def assms(1) by (simp add: e enc_item_def)
  ultimately have "buf_parts item items (enc_tbl items) pre post"
    unfolding buf_parts_def by (metis length_append length_word_bytes numeral_plus_numeral semiring_norm(2,6))
  then show ?thesis by (rule that)
qed

text \<open>Filling the item in gives the layout of the updated table.\<close>

lemma fill_table:
  assumes "buf_parts item items (mread m b n) pre post" "length pl \<le> data_len item" "wf_items items" "item \<in> set net_types"
    and "off = 8 + length (enc_body pre)"
  shows "mread (mwrite (mwrite (mwrite m (b + off + 8) pl) (b + off) (word_bytes item @ word_bytes (of_nat (data_len item))))
      b (word_bytes INFO_TLV_HEADER @ word_bytes (of_nat (n - 8)))) b n
    = enc_tbl (AList.update item (new_data item pl items) items)"
proof -
  obtain hdr hd where lay: "mread m b n = hdr @ enc_body pre @ hd @ old_data item items @ enc_body post"
    and len: "length hdr = 8" "length hd = 8" and upd: "\<And>x. AList.update item x items = pre @ (item, x) # post"
    using assms(1) unfolding buf_parts_def by blast
  note old = length_old_data [OF assms(3,4)]
  let ?r = "drop (length pl) (old_data item items)" and ?h = "word_bytes item @ word_bytes (of_nat (data_len item))"
  have "mread m b n = (hdr @ enc_body pre @ hd) @ take (length pl) (old_data item items) @ (?r @ enc_body post)"
    using lay by (metis append_assoc append_take_drop_id)
  from splice_at [OF this, of pl "b + off + 8"]
  have "mread (mwrite m (b + off + 8) pl) b n = (hdr @ enc_body pre) @ hd @ (pl @ ?r @ enc_body post)"
    using len old assms(2,5) by simp
  from splice_at [OF this, of ?h "b + off"]
  have "mread (mwrite (mwrite m (b + off + 8) pl) (b + off) ?h) b n
      = [] @ hdr @ (enc_body pre @ ?h @ pl @ ?r @ enc_body post)"
    using len assms(5) by simp
  from splice_at [OF this, of "word_bytes INFO_TLV_HEADER @ word_bytes (of_nat (n - 8))" b]
  have "mread (mwrite (mwrite (mwrite m (b + off + 8) pl) (b + off) ?h) b (word_bytes INFO_TLV_HEADER @ word_bytes (of_nat (n - 8)))) b n
      = (word_bytes INFO_TLV_HEADER @ word_bytes (of_nat (n - 8))) @ (enc_body pre @ ?h @ pl @ ?r @ enc_body post)"
    using len by simp
  moreover have "n = 8 + length (enc_body (AList.update item (new_data item pl items) items))"
    using arg_cong [OF lay, of length] len old assms(2) by (simp add: upd new_data_def)
  moreover have "length (new_data item pl items) = data_len item" using old assms(2) by (simp add: new_data_def)
  ultimately show ?thesis by (simp add: enc_tbl_def upd enc_item_def new_data_def add.left_commute)
qed

section \<open>Saving\<close>

lemma new_len_bound:
  assumes "wf_items items" "item \<in> set net_types"
  shows "new_len item items \<le> 280" "8 \<le> new_len item items"
  using enc_body_bound [OF wf_update [OF assms length_old_data [OF assms]]] by (simp_all add: new_len_def)

lemma new_len_cases:
  assumes "wf_items items" "item \<in> set net_types"
  shows "map_of items item = None \<Longrightarrow> new_len item items = length (enc_tbl items) + 8 + data_len item"
    and "map_of items item = Some bs \<Longrightarrow> new_len item items = length (enc_tbl items)"
proof -
  show "map_of items item = None \<Longrightarrow> new_len item items = length (enc_tbl items) + 8 + data_len item"
    using length_old_data [OF assms] by (simp add: new_len_def update_append)
  assume s: "map_of items item = Some bs"
  then have "AList.update item (old_data item items) items = items" by (induction items) (auto simp: old_data_def)
  then show "new_len item items = length (enc_tbl items)" by (simp add: new_len_def)
qed

lemma item_len_data: "of_nat (data_len item) = info_item_len item - 8" "unat (info_item_len item) = 8 + data_len item"
  by (auto simp: data_len_def info_item_len_def)

lemma upd_mem_views [simp]:
  "mem_of (upd_mem f s) = f (mem_of s)" "cell_of view (upd_mem f s) = cell_of view s"
  by (simp_all add: upd_mem_def sys_views)

context nor_chip
begin

lemma inv_upd_mem [simp]: "inv (upd_mem f s) = inv s"
  by (simp add: store_inv_def upd_mem_def)

lemma open_none_ok:
  assumes "inv s" "item \<in> set net_types" "cells (cell_of view s) net_base 4 \<noteq> word_bytes INFO_TLV_HEADER"
    and "n = new_len item []" "b = zalloc (of_nat n)" "b \<noteq> 0" "disjoint_blocks (unat b) n (unat local_addr) 8"
  shows "\<exists>s'. open_table zalloc item net_base s = Inr (Some (b, of_nat n, 8, of_nat (n - 8)), s') \<and> inv s'
    \<and> cell_of view s' = cell_of view s \<and> keeps_but (unat b) n (mem_of s) (mem_of s')
    \<and> buf_parts item [] (mread (mem_of s') (unat b) n) [] []"
proof -
  obtain s1 where s1: "search_info_tbl 0 s = Inr (False, 0, s1)" "same s s1" using search_tbl_none [OF assms(1,3)] by metis
  have n: "n = 16 + data_len item" using assms(4) by (simp add: new_len_def old_data_def)
  have len: "8 + info_item_len item = of_nat n" "info_item_len item = of_nat (n - 8)" "unat (of_nat n :: u32) = n"
    using item_len_data [of item] n by (auto simp: unat_of_nat_u32 data_len_def info_item_len_def)
  let ?s2 = "upd_mem (os_memset (unat b) 0 n) s1"
  have "open_table zalloc item net_base s = Inr (Some (b, of_nat n, 8, of_nat (n - 8)), ?s2)"
    unfolding open_table_def Let_def using s1(1) assms(5,6) len by simp
  moreover have "keeps_but (unat b) n (mem_of s) (mem_of ?s2)"
    using keeps_but_trans [OF keeps_keeps_but [OF sameD(3) [OF s1(2)]] keeps_but_mwrite] by (simp add: os_memset_def)
  moreover have "buf_parts item [] (mread (mem_of ?s2) (unat b) n) [] []"
    by (rule buf_parts_new [of _ _ "replicate 8 0"]) (simp_all add: os_memset_def mread_mwrite_same n replicate_add [symmetric])
  ultimately show ?thesis using sameD(1,2) [OF s1(2)] by (intro exI [of _ ?s2]) simp
qed

lemma open_some_ok:
  assumes "inv s" "item \<in> set net_types" "wf_items items"
    and "cells (cell_of view s) net_base (length (enc_tbl items)) = enc_tbl items"
    and "n = new_len item items" "b = zalloc (of_nat n)" "b \<noteq> 0" "disjoint_blocks (unat b) n (unat local_addr) 8"
  shows "\<exists>s' pre post. open_table zalloc item net_base s
      = Inr (Some (b, of_nat n, of_nat (8 + length (enc_body pre)), of_nat (n - 8)), s') \<and> inv s'
    \<and> cell_of view s' = cell_of view s \<and> keeps_but (unat b) n (mem_of s) (mem_of s')
    \<and> buf_parts item items (mread (mem_of s') (unat b) n) pre post"
proof -
  let ?t = "enc_tbl items" and ?a = "item_addr item items"
  obtain s1 where s1: "search_info_tbl 0 s = Inr (True, of_nat (length ?t), s1)" "same s s1"
    using search_tbl_some [OF assms(1,3,4), of 0] by (metis same_def)
  have t1: "cells (cell_of view s1) net_base (length ?t) = ?t" using assms(4) sameD(2) [OF s1(2)] by simp
  obtain s2 where s2: "search_info_item item net_base s1 = Inr (?a, s2)" "same s1 s2"
    using search_item_ok [OF sameD(1) [OF s1(2)] assms(3) t1] by metis
  note s02 = same_trans [OF s1(2) s2(2)]
  let ?s3 = "upd_mem (os_memset (unat b) 0 n) s2"
  have i3: "inv ?s3" and t3: "cells (cell_of view ?s3) net_base (length ?t) = ?t"
    using sameD [OF s02] assms(4) by simp_all
  obtain s4 m where s4: "search_info_tbl b ?s3 = Inr (True, of_nat (length ?t), s4)" "inv s4"
    "cell_of view s4 = cell_of view ?s3" "keeps (mem_of ?s3) m" "mem_of s4 = mwrite m (unat b) ?t"
    using search_tbl_some [OF i3 assms(3) t3, of b] assms(7) by metis
  have nb: "n \<le> 280" "8 \<le> n" using new_len_bound [OF assms(3,2)] assms(5) by simp_all
  have un: "unat (of_nat n :: u32) = n" using nb by (simp add: unat_of_nat_u32)
  have n8: "of_nat n - 8 = (of_nat (n - 8) :: u32)" using nb(2) by (simp add: of_nat_diff)
  define pre where "pre = takeWhile (\<lambda>p. fst p \<noteq> item) items"
  have sel: "(if ?a = 0 then (of_nat (length ?t), of_nat (length ?t) + info_item_len item) else (?a - net_base, of_nat (length ?t)))
      = (of_nat (8 + length (enc_body pre)), of_nat n :: u32)"
  proof (cases "map_of items item")
    case None
    then have "item \<notin> fst ` set items" by (simp add: map_of_eq_None_iff)
    moreover from this have "pre = items" unfolding pre_def by (auto simp: takeWhile_eq_all_conv)
    ultimately show ?thesis using new_len_cases(1) [OF assms(3,2) None] assms(5) item_len_data [of item]
      by (simp add: item_addr_def)
  next
    case (Some bs)
    then have "item \<in> fst ` set items" by (metis map_of_eq_None_iff option.distinct(1))
    then show ?thesis
      using item_addr_bound(1) [OF assms(3) Some] new_len_cases(2) [OF assms(3,2) Some] assms(5)
      by (simp add: item_addr_def pre_def)
  qed
  have "open_table zalloc item net_base s
      = Inr (Some (b, of_nat n, of_nat (8 + length (enc_body pre)), of_nat (n - 8)), s4)"
    by (simp only: open_table_def Let_def s1(1) s2(1) s4(1) bind_res_simps prod.case not_True_eq_False if_False sel
        un n8 assms(6) [symmetric] assms(7))
  moreover have le: "length ?t \<le> n" using new_len_cases [OF assms(3,2)] assms(5) by (cases "map_of items item") auto
  moreover have "keeps_but (unat b) n (mem_of s) (mem_of s4)"
  proof -
    have "keeps_but (unat b) n (mem_of s2) (mem_of ?s3)" by (simp add: os_memset_def keeps_but_mwrite)
    moreover have "keeps_but (unat b) n m (mem_of s4)" unfolding s4(5) using le by (intro keeps_but_mwrite) auto
    ultimately show ?thesis
      using keeps_keeps_but [OF sameD(3) [OF s02]] keeps_keeps_but [OF s4(4)] by (blast intro: keeps_but_trans)
  qed
  moreover have "\<exists>post. buf_parts item items (mread (mem_of s4) (unat b) n) pre post"
  proof -
    have "mread m (unat b) n = replicate n 0"
      using mread_keeps [OF s4(4) assms(8)] by (simp add: os_memset_def mread_mwrite_same)
    then have buf: "mread (mem_of s4) (unat b) n = ?t @ replicate (n - length ?t) 0"
      unfolding s4(5) using mread_splice [of 0 ?t n m "unat b"] le by simp
    show ?thesis
    proof (cases "map_of items item")
      case None
      then have "pre = items" unfolding pre_def by (auto simp: takeWhile_eq_all_conv map_of_eq_None_iff)
      then show ?thesis unfolding buf using new_len_cases(1) [OF assms(3,2) None] assms(5)
          buf_parts_new [OF None, of "word_bytes INFO_TLV_HEADER @ word_bytes (of_nat (length (enc_body items)))"]
        by (auto simp: enc_tbl_def)
    next
      case (Some bs)
      then show ?thesis unfolding buf using new_len_cases(2) [OF assms(3,2) Some] assms(5)
          buf_parts_old [OF Some pre_def] by (metis append_Nil2 diff_self_eq_0 replicate_0)
    qed
  qed
  moreover have "cell_of view s4 = cell_of view s" using s4(3) sameD(2) [OF s02] by simp
  ultimately show ?thesis using s4(2) by blast
qed

lemma put_item_ok:
  assumes "inv s" "wf_items items" "item \<in> set net_types" "n = new_len item items" "n \<le> 280"
    and "buf_parts item items (mread (mem_of s) (unat b) n) pre post" "srcs_ok (srcs item p0 p1 p2) (unat b) n"
  shows "\<exists>s'. put_item item b (of_nat (8 + length (enc_body pre))) (of_nat (n - 8)) p0 p1 p2 s = Inr s' \<and> inv s'
    \<and> cell_of view s' = cell_of view s \<and> keeps_but (unat b) n (mem_of s) (mem_of s')
    \<and> mread (mem_of s') (unat b) n
      = enc_tbl (AList.update item (new_data item (payload (srcs item p0 p1 p2) (mem_of s)) items) items)"
proof -
  let ?ss = "srcs item p0 p1 p2" and ?off = "8 + length (enc_body pre)"
  have n: "n = 16 + length (enc_body pre) + data_len item + length (enc_body post)"
    using assms(6) length_old_data [OF assms(2,3)] unfolding assms(4) new_len_def buf_parts_def by simp
  have off: "unat (of_nat ?off :: u32) = ?off" using n assms(5) by (intro unat_of_nat_u32) simp
  have sl: "sum_list (map snd ?ss) \<le> data_len item" by (rule srcs_len [OF assms(3)])
  define f where "f = (\<lambda>m. mwrite (mwrite (mwrite m (unat b + ?off + 8) (payload ?ss m)) (unat b + ?off)
    (word_bytes item @ word_bytes (of_nat (data_len item)))) (unat b) (word_bytes INFO_TLV_HEADER @ word_bytes (of_nat (n - 8))))"
  have "copies (unat b + ?off + 8) ?ss s = Inr (upd_mem (\<lambda>m. mwrite m (unat b + ?off + 8) (payload ?ss m)) s)"
    by (rule copies_payload [OF assms(7)]) (use n sl in auto)
  then have "put_item item b (of_nat ?off) (of_nat (n - 8)) p0 p1 p2 s = Inr (upd_mem f s)"
    unfolding put_item_def Let_def off put_fields_copies f_def item_len_data(1) [symmetric] by (simp add: upd_mem_def)
  moreover have "keeps_but (unat b) n (mem_of s) (f (mem_of s))"
  proof -
    have w: "keeps_but (unat b) n m (mwrite m a bs)" if "unat b \<le> a" "a + length bs \<le> unat b + n" for m a bs
      using that by (rule keeps_but_mwrite)
    show ?thesis unfolding f_def
      by (rule keeps_but_trans [OF keeps_but_trans [OF w w] w]) (use n sl in \<open>simp_all add: length_payload\<close>)
  qed
  moreover have "mread (f (mem_of s)) (unat b) n
      = enc_tbl (AList.update item (new_data item (payload ?ss (mem_of s)) items) items)"
    unfolding f_def by (rule fill_table [OF assms(6) _ assms(2,3) refl]) (simp add: length_payload sl)
  ultimately show ?thesis using assms(1) by (intro exI [of _ "upd_mem f s"]) simp
qed

lemma net_partition:
  "BkFlashPartitionIsValid BK_PARTITION_NET_PARAM"
  "net_base = partition_start_addr (bk7231_partitions ! unat BK_PARTITION_NET_PARAM)"
  by (simp_all add: BkFlashPartitionIsValid_def partition_ids bk7231_partitions_def net_base_def)

lemma store_table_ok:
  assumes "inv s" "0x1e2000 \<le> unat (fc_flash_size cfg)" "0 < n" "n \<le> 280" "b \<noteq> 0"
  shows "\<exists>s'. store_table b (of_nat n) s = Inr s' \<and> inv s' \<and> mem_of s' = mem_of s
    \<and> cells (cell_of view s') net_base n = mread (mem_of s) (unat b) n
    \<and> (\<forall>x. unat x div 4096 \<noteq> 0x1e1 \<longrightarrow> cell_of view s' x = cell_of view s x)"
proof -
  have un: "unat (of_nat n :: u32) = n" using assms(4) by (simp add: unat_of_nat_u32)
  have n0: "(of_nat n :: u32) \<noteq> 0" using un assms(3) by (metis less_not_refl unat_0)
  have ub: "unat net_base = 0x1e1000" by (simp add: net_base_def)
  obtain s1 where s1: "bk_flash_enable_security FLASH_PROTECT_NONE s = Inr (kNoErr, s1)" "inv s1" "mem_of s1 = mem_of s"
    "cell_of view s1 = cell_of view s"
    "protect_of cfg (status_of (fc_sr_size cfg) (status_reg view s1)) = type_of_code cfg (protect_code cfg FLASH_PROTECT_NONE)"
    using protect_ok [OF assms(1)] by metis
  have "type_of_code cfg (protect_code cfg FLASH_PROTECT_NONE) = FLASH_PROTECT_NONE"
    using reads_back_code [OF known(1), of FLASH_PROTECT_NONE] known(2) by (simp add: reads_back_def protect_types)
  then have free: "\<not> prot (status_reg view s1) x" for x using unprotected s1(5) by simp
  have "0x1e1000 + unat (0 :: u32) + unat (of_nat n :: u32) \<le> unat (fc_flash_size cfg)" using assms(2,4) un by simp
  then obtain s2 where s2: "bk_flash_erase BK_PARTITION_NET_PARAM 0 (of_nat n) s1 = Inr (kNoErr, s2)" "inv s2"
    "mem_of s2 = mem_of s1" "status_reg view s2 = status_reg view s1"
    "cell_of view s2 = erase_range (prot (status_reg view s1)) ((0x1e1000 + unat (0 :: u32)) div 4096)
      (Suc ((0x1e1000 + unat (0 :: u32) + unat (of_nat n :: u32) - 1) div 4096)) (cell_of view s1)"
    using bk_erase_ok [OF s1(2) net_partition(1) _ _ n0, where base = "0x1e1000" and off = 0] net_partition(2) ub by metis
  have "(0x1e1000 + n - 1) div 4096 = 0x1e1" using assms(3,4) by (intro div_nat_eqI) auto
  then have c2: "cell_of view s2 x = (if unat x div 4096 = 0x1e1 then 0xFF else cell_of view s x)" for x
    unfolding s2(5) s1(4) un erase_range_def using free by (auto simp: less_Suc_eq_le)
  have "unat net_base + unat (0 :: u32) + unat (of_nat n :: u32) \<le> unat (fc_flash_size cfg)" using assms(2,4) un ub by simp
  then obtain s3 where s3: "bk_flash_write BK_PARTITION_NET_PARAM 0 b (of_nat n) s2 = Inr (kNoErr, s3)" "inv s3"
    "mem_of s3 = mem_of s2" "cell_of view s3
      = prog_range (prot (status_reg view s1)) (net_base + 0) (mread (mem_of s) (unat b) n) (cell_of view s2)"
    using bk_write_ok [OF s2(2) net_partition _ n0 assms(5), where off = 0] s2(3,4) s1(3) un by metis
  obtain s4 where s4: "bk_flash_enable_security FLASH_UNPROTECT_LAST_BLOCK s3 = Inr (kNoErr, s4)" "inv s4"
    "mem_of s4 = mem_of s3" "cell_of view s4 = cell_of view s3" using protect_ok [OF s3(2)] by metis
  let ?bs = "mread (mem_of s) (unat b) n"
  have sec: "unat x div 4096 = 0x1e1" if "unat net_base \<le> unat x" "unat x < unat net_base + length ?bs" for x :: u32
    using that assms(4) ub by (intro div_nat_eqI) auto
  have "cells (prog_range (prot (status_reg view s1)) net_base ?bs (cell_of view s2)) net_base (length ?bs) = ?bs"
    by (rule cells_prog_range) (use sec c2 free ub assms(4) in auto)
  moreover have "cell_of view s4 x = cell_of view s x" if "unat x div 4096 \<noteq> 0x1e1" for x
  proof -
    have "\<not> (unat net_base \<le> unat x \<and> unat x < unat net_base + length ?bs)" using sec that by auto
    from prog_range_outside [OF this] show ?thesis using s3(4) s4(4) c2 that by simp
  qed
  moreover have "store_table b (of_nat n) s = Inr s4" using s1(1) s2(1) s3(1) s4(1) by (simp add: store_table_def)
  ultimately show ?thesis using s4 s3(3,4) s2(3) s1(3) by simp
qed

lemma open_table_ok:
  assumes "inv s" "net_rel (cell_of view s) items" "item \<in> set net_types"
    and "n = new_len item items" "b = zalloc (of_nat n)" "b \<noteq> 0" "disjoint_blocks (unat b) n (unat local_addr) 8"
  shows "\<exists>s' pre post. open_table zalloc item net_base s
      = Inr (Some (b, of_nat n, of_nat (8 + length (enc_body pre)), of_nat (n - 8)), s') \<and> inv s'
    \<and> cell_of view s' = cell_of view s \<and> keeps_but (unat b) n (mem_of s) (mem_of s')
    \<and> buf_parts item items (mread (mem_of s') (unat b) n) pre post"
proof (cases "cells (cell_of view s) net_base (length (enc_tbl items)) = enc_tbl items")
  case True
  have "wf_items items" using assms(2) by (simp add: net_rel_def)
  from open_some_ok [where zalloc = zalloc, OF assms(1,3) this True assms(4-7)] show ?thesis .
next
  case False
  then have e: "items = []" "cells (cell_of view s) net_base 4 \<noteq> word_bytes INFO_TLV_HEADER"
    using assms(2) by (auto simp: net_rel_def)
  from open_none_ok [where zalloc = zalloc, OF assms(1,3) e(2) assms(4) [unfolded e(1)] assms(5-7)] show ?thesis
    unfolding e(1) by (metis add.right_neutral enc_body_simps(1) list.size(3) of_nat_numeral)
qed

lemma save_item_ok:
  assumes "inv s" "net_rel (cell_of view s) items" "item \<in> set net_types" "0x1e2000 \<le> unat (fc_flash_size cfg)"
    and "n = new_len item items" "b = zalloc (of_nat n)" "b \<noteq> 0" "disjoint_blocks (unat b) n (unat local_addr) 8"
    and "srcs_ok (srcs item p0 p1 p2) (unat b) n"
  shows "\<exists>s'. save_info_item zalloc item p0 p1 p2 s = Inr (1, s') \<and> inv s'
    \<and> net_rel (cell_of view s') (AList.update item (new_data item (payload (srcs item p0 p1 p2) (mem_of s)) items) items)
    \<and> keeps_but (unat b) n (mem_of s) (mem_of s')
    \<and> (\<forall>x. unat x div 4096 \<noteq> 0x1e1 \<longrightarrow> cell_of view s' x = cell_of view s x)"
proof -
  have wf: "wf_items items" using assms(2) by (simp add: net_rel_def)
  have nb: "n \<le> 280" "0 < n" using new_len_bound [OF wf assms(3)] assms(5) by simp_all
  obtain s1 pre post where s1: "open_table zalloc item net_base s
      = Inr (Some (b, of_nat n, of_nat (8 + length (enc_body pre)), of_nat (n - 8)), s1)" "inv s1"
    "cell_of view s1 = cell_of view s" "keeps_but (unat b) n (mem_of s) (mem_of s1)"
    "buf_parts item items (mread (mem_of s1) (unat b) n) pre post"
    using open_table_ok [where zalloc = zalloc, OF assms(1-3,5-8)] by metis
  let ?pl = "payload (srcs item p0 p1 p2) (mem_of s)" and ?ss = "srcs item p0 p1 p2"
  have pl: "payload ?ss (mem_of s1) = ?pl" by (rule payload_keeps [OF assms(9) s1(4)])
  let ?new = "AList.update item (new_data item ?pl items) items"
  obtain s2 where s2: "put_item item b (of_nat (8 + length (enc_body pre))) (of_nat (n - 8)) p0 p1 p2 s1 = Inr s2" "inv s2"
    "cell_of view s2 = cell_of view s1" "keeps_but (unat b) n (mem_of s1) (mem_of s2)"
    "mread (mem_of s2) (unat b) n = enc_tbl ?new"
    using put_item_ok [OF s1(2) wf assms(3,5) nb(1) s1(5) assms(9)] pl by metis
  obtain s3 where s3: "store_table b (of_nat n) s2 = Inr s3" "inv s3" "mem_of s3 = mem_of s2"
    "cells (cell_of view s3) net_base n = enc_tbl ?new"
    "\<forall>x. unat x div 4096 \<noteq> 0x1e1 \<longrightarrow> cell_of view s3 x = cell_of view s2 x"
    using store_table_ok [OF s2(2) assms(4) nb(2,1) assms(7)] s2(5) by metis
  have "length (new_data item ?pl items) = data_len item"
    using length_old_data [OF wf assms(3)] srcs_len [OF assms(3), of p0 p1 p2] by (simp add: new_data_def length_payload)
  then have "wf_items ?new" by (rule wf_update [OF wf assms(3)])
  moreover have "n = length (enc_tbl ?new)" using arg_cong [OF s3(4), of length] by simp
  ultimately have "net_rel (cell_of view s3) ?new" using s3(4) unfolding net_rel_def by simp
  moreover have "save_info_item zalloc item p0 p1 p2 s = Inr (1, s3)"
    using s1(1) s2(1) s3(1) by (simp add: save_info_item_def net_start_base)
  moreover have "keeps_but (unat b) n (mem_of s) (mem_of s3)" using s1(4) s2(4) s3(3) by (metis keeps_but_trans)
  ultimately show ?thesis using s3(2,5) s2(3) s1(3) by auto
qed

end

section \<open>Properties\<close>

text \<open>C8: Saving a network parameter updates the table like an association list. On a system with the
  flash device registered and a chip that contains the partition, whatever valid table the flash holds
  (or none), saving a known item from buffers that do not overlap the allocated one returns 1; the new
  table has the item's new data, in place or appended, and all other items unchanged; no cell outside the
  sector of the partition and no memory outside the allocated buffer and the local struct changes.\<close>

theorem save_info_item_refines:
  assumes "nor_chip io ok busy view prot cfg" "store_inv io sctrl ok view cfg slot s"
    and "net_rel (cell_of view s) items" "item \<in> set net_types" "0x1e2000 \<le> unat (fc_flash_size cfg)"
    and "n = new_len item items" "b = zalloc (of_nat n)" "b \<noteq> 0" "disjoint_blocks (unat b) n (unat local_addr) 8"
    and "srcs_ok (srcs item p0 p1 p2) (unat b) n"
  shows "\<exists>s'. save_info_item zalloc item p0 p1 p2 s = Inr (1, s') \<and> store_inv io sctrl ok view cfg slot s'
    \<and> net_rel (cell_of view s') (AList.update item (new_data item (payload (srcs item p0 p1 p2) (mem_of s)) items) items)
    \<and> keeps_but (unat b) n (mem_of s) (mem_of s')
    \<and> (\<forall>x. unat x div 4096 \<noteq> 0x1e1 \<longrightarrow> cell_of view s' x = cell_of view s x)"
  by (rule nor_chip.save_item_ok [where zalloc = zalloc, OF assms])

text \<open>C26: Reading a network parameter is a lookup in the table: it returns 1 and stores the item's data
  through the pointers when the item is in the table, and returns 0 otherwise; the search ends, the
  flash is not changed, and no other memory but the local struct is.\<close>

theorem get_info_item_refines:
  assumes "nor_chip io ok busy view prot cfg" "store_inv io sctrl ok view cfg slot s"
    and "net_rel (cell_of view s) items" "ptrs_ok item p0 p1 p2"
  shows "\<exists>s'. get_info_item item p0 p1 p2 s = Inr (if map_of items item = None then 0 else 1, s')
    \<and> store_inv io sctrl ok view cfg slot s' \<and> cell_of view s' = cell_of view s
    \<and> keeps (case map_of items item of None \<Rightarrow> mem_of s | Some bs \<Rightarrow> deliver item bs p0 p1 p2 (mem_of s)) (mem_of s')"
proof (cases "map_of items item")
  case None
  obtain s' where "get_info_item item p0 p1 p2 s = Inr (0, s')" "nor_chip.same io ok view cfg sctrl slot s s'"
    using nor_chip.get_item_none [OF assms(1-3) None] by metis
  then show ?thesis using None nor_chip.sameD [OF assms(1)] by auto
next
  case (Some bs)
  obtain s' where "get_info_item item p0 p1 p2 s = Inr (1, s')" "store_inv io sctrl ok view cfg slot s'"
    "cell_of view s' = cell_of view s" "keeps (deliver item bs p0 p1 p2 (mem_of s)) (mem_of s')"
    using nor_chip.get_item_some [OF assms(1-3) Some assms(4)] by metis
  then show ?thesis using Some by auto
qed

text \<open>C3: A saved network parameter is read back. After \<open>save_info_item\<close> of an item, \<open>get_info_item\<close> of the same
  item returns 1 and delivers the bytes that were saved, and every other item that was in the table
  still reads as before.\<close>

theorem saved_item_is_read_back:
  assumes hw: "nor_chip io ok busy view prot cfg" and s: "store_inv io sctrl ok view cfg slot s"
    and rel: "net_rel (cell_of view s) items" and item: "item \<in> set net_types" "0x1e2000 \<le> unat (fc_flash_size cfg)"
    and buf: "n = new_len item items" "b = zalloc (of_nat n)" "b \<noteq> 0" "disjoint_blocks (unat b) n (unat local_addr) 8"
      "srcs_ok (srcs item p0 p1 p2) (unat b) n"
    and q: "ptrs_ok item q0 q1 q2"
  shows "\<exists>s1. save_info_item zalloc item p0 p1 p2 s = Inr (1, s1)
    \<and> (\<exists>s2. get_info_item item q0 q1 q2 s1 = Inr (1, s2)
        \<and> keeps (deliver item (new_data item (payload (srcs item p0 p1 p2) (mem_of s)) items) q0 q1 q2 (mem_of s1)) (mem_of s2))
    \<and> (\<forall>k bs. k \<noteq> item \<and> map_of items k = Some bs \<and> ptrs_ok k q0 q1 q2 \<longrightarrow>
        (\<exists>s3. get_info_item k q0 q1 q2 s1 = Inr (1, s3) \<and> keeps (deliver k bs q0 q1 q2 (mem_of s1)) (mem_of s3)))"
proof -
  let ?bs = "new_data item (payload (srcs item p0 p1 p2) (mem_of s)) items"
  obtain s1 where s1: "save_info_item zalloc item p0 p1 p2 s = Inr (1, s1)" "store_inv io sctrl ok view cfg slot s1"
    "net_rel (cell_of view s1) (AList.update item ?bs items)"
    using nor_chip.save_item_ok [where zalloc = zalloc, OF hw s rel item buf] by metis
  have get: "\<exists>s3. get_info_item k q0 q1 q2 s1 = Inr (1, s3) \<and> keeps (deliver k bs q0 q1 q2 (mem_of s1)) (mem_of s3)"
    if "map_of (AList.update item ?bs items) k = Some bs" "ptrs_ok k q0 q1 q2" for k bs
    using nor_chip.get_item_some [OF hw s1(2,3) that] by metis
  have "map_of (AList.update item ?bs items) item = Some ?bs" by (simp add: update_conv)
  from get [OF this q] show ?thesis using s1(1) get by (auto simp: update_conv)
qed

section \<open>A store with one item\<close>

definition net_ex :: net_items where
  "net_ex = [(AUTO_CONNECT_ITEM, [1, 0, 0, 0])]"

definition sys_net :: "nor_dev flash_sys" where
  "sys_net = (fst sys_ex, (snd sys_ex)\<lparr>fw_dev := (fw_dev (snd sys_ex))\<lparr>sim_view := (sim_view (fw_dev (snd sys_ex)))
    \<lparr>n_cell := (\<lambda>x. if net_base \<le> x \<and> x < net_base + 20 then enc_tbl net_ex ! unat (x - net_base) else 0xFF)\<rparr>\<rparr>\<rparr>)"

lemma sys_net_inv: "store_inv (nor_sim (sim_prot sim_cfg)) no_sctrl (\<lambda>_. True) sim_view sim_cfg 0 sys_net"
  using sys_ex_inv by (simp add: store_inv_def sys_net_def)

lemma sys_net_rel: "net_rel (cell_of sim_view sys_net) net_ex"
proof -
  have "wf_items net_ex" by (simp add: wf_items_def net_ex_def net_types_def data_len_def info_item_len_def)
  moreover have "cells (\<lambda>x. if net_base \<le> x \<and> x < net_base + 20 then enc_tbl net_ex ! unat (x - net_base) else 0xFF) net_base
      (length (enc_tbl net_ex)) = enc_tbl net_ex" by code_simp
  ultimately show ?thesis by (simp add: net_rel_def cell_of_def sys_net_def)
qed

lemma sys_net_save:
  "WIFI_MAC_ITEM \<in> set net_types" "0x1e2000 \<le> unat (fc_flash_size sim_cfg)" "36 = new_len WIFI_MAC_ITEM net_ex"
  "(0x410000 :: u32) = (\<lambda>_. 0x410000) (of_nat 36 :: u32)" "(0x410000 :: u32) \<noteq> 0"
  "disjoint_blocks (unat (0x410000 :: u32)) 36 (unat local_addr) 8"
  "srcs_ok (srcs WIFI_MAC_ITEM 0x400101 0 0) (unat (0x410000 :: u32)) 36"
proof -
  show "36 = new_len WIFI_MAC_ITEM net_ex" by code_simp
qed (simp_all add: net_types_def sim_cfg_simps disjoint_blocks_def local_addr_def srcs_ok_def srcs_def)

lemma sys_net_payload:
  "new_data WIFI_MAC_ITEM (payload (srcs WIFI_MAC_ITEM 0x400101 0 0) (mem_of sys_net)) net_ex = [1, 2, 3, 4, 5, 6, 0, 0]"
proof -
  have "payload (srcs WIFI_MAC_ITEM 0x400101 0 0) (mem_of sys_net) = [1, 2, 3, 4, 5, 6]"
    by (simp add: payload_def srcs_def mem_of_def sys_net_def sys_ex_def fl_ex_def mread_def upt_rec)
  moreover have "new_data WIFI_MAC_ITEM [1, 2, 3, 4, 5, 6] net_ex = [1, 2, 3, 4, 5, 6, 0, 0]" by code_simp
  ultimately show ?thesis by simp
qed

theorem save_info_item_refines_witness:
  "\<exists>s'. save_info_item (\<lambda>_. 0x410000) WIFI_MAC_ITEM 0x400101 0 0 sys_net = Inr (1, s')
    \<and> net_rel (cell_of sim_view s') [(AUTO_CONNECT_ITEM, [1, 0, 0, 0]), (WIFI_MAC_ITEM, [1, 2, 3, 4, 5, 6, 0, 0])]"
proof -
  have u: "AList.update WIFI_MAC_ITEM [1, 2, 3, 4, 5, 6, 0, 0] net_ex
    = [(AUTO_CONNECT_ITEM, [1, 0, 0, 0]), (WIFI_MAC_ITEM, [1, 2, 3, 4, 5, 6, 0, 0])]"
    by (simp add: net_ex_def item_ids)
  show ?thesis
    using save_info_item_refines [where zalloc = "\<lambda>_. 0x410000",
        OF simc.nor_chip_axioms sys_net_inv sys_net_rel sys_net_save, unfolded sys_net_payload u] by blast
qed

theorem get_info_item_refines_witness:
  "\<exists>s'. get_info_item AUTO_CONNECT_ITEM 0x400100 0 0 sys_net = Inr (1, s') \<and> mread (mem_of s') 0x400100 4 = [1, 0, 0, 0]"
proof -
  have p: "ptrs_ok AUTO_CONNECT_ITEM 0x400100 0 0" by (simp add: ptrs_ok_def item_ids)
  have m: "map_of net_ex AUTO_CONNECT_ITEM = Some [1, 0, 0, 0]" by (simp add: net_ex_def)
  have d: "deliver AUTO_CONNECT_ITEM bs 0x400100 0 0 m = mwrite m 0x400100 bs" for bs m
    by (simp add: deliver_def item_ids)
  obtain s' where s': "get_info_item AUTO_CONNECT_ITEM 0x400100 0 0 sys_net = Inr (1, s')"
    "keeps (mwrite (mem_of sys_net) 0x400100 [1, 0, 0, 0]) (mem_of s')"
    using get_info_item_refines [OF simc.nor_chip_axioms sys_net_inv sys_net_rel p] by (auto simp: m d)
  have "disjoint_blocks 0x400100 4 (unat local_addr) 8" by (simp add: disjoint_blocks_def local_addr_def)
  from mread_keeps [OF s'(2) this] s'(1) show ?thesis by (simp add: mread_mwrite_same)
qed

theorem saved_item_is_read_back_witness:
  "\<exists>s1 s2. save_info_item (\<lambda>_. 0x410000) WIFI_MAC_ITEM 0x400101 0 0 sys_net = Inr (1, s1)
    \<and> get_info_item WIFI_MAC_ITEM 0x400200 0 0 s1 = Inr (1, s2)
    \<and> mread (mem_of s2) 0x400200 8 = [1, 2, 3, 4, 5, 6, 0, 0]"
proof -
  have p: "ptrs_ok WIFI_MAC_ITEM 0x400200 0 0" by (simp add: ptrs_ok_def item_ids)
  have d: "deliver WIFI_MAC_ITEM bs 0x400200 0 0 m = mwrite m 0x400200 bs" for bs m
    by (simp add: deliver_def item_ids)
  obtain s1 s2 where s2: "save_info_item (\<lambda>_. 0x410000) WIFI_MAC_ITEM 0x400101 0 0 sys_net = Inr (1, s1)"
    "get_info_item WIFI_MAC_ITEM 0x400200 0 0 s1 = Inr (1, s2)"
    "keeps (mwrite (mem_of s1) 0x400200 [1, 2, 3, 4, 5, 6, 0, 0]) (mem_of s2)"
    using saved_item_is_read_back [where zalloc = "\<lambda>_. 0x410000",
        OF simc.nor_chip_axioms sys_net_inv sys_net_rel sys_net_save p, unfolded sys_net_payload d] by blast
  have "disjoint_blocks 0x400200 8 (unat local_addr) 8" by (simp add: disjoint_blocks_def local_addr_def)
  from mread_keeps [OF s2(3) this] have "mread (mem_of s2) 0x400200 8 = [1, 2, 3, 4, 5, 6, 0, 0]"
    by (simp add: mread_mwrite_same)
  with s2(1,2) show ?thesis by blast
qed

section \<open>Where the store fails\<close>

text \<open>The search trusts the lengths in the flash: an item with the length \<open>-8\<close> is followed by itself, and
  the search of another type never ends.\<close>

context nor_chip
begin

lemma item_loop_spins:
  assumes "inv s" "unat addr + 8 \<le> 0x1000000" "addr < end_addr"
    and "flash_word (cell_of view s) addr \<noteq> ty" "flash_word (cell_of view s) (addr + 4) = - 8"
  shows "item_loop hnd ty addr end_addr s = None"
proof -
  define P where "P h t a e u (r :: (u32 \<times> 'f flash_sys) result) \<longleftrightarrow>
    \<not> (h = hnd \<and> t = ty \<and> a = addr \<and> e = end_addr \<and> inv u \<and> cell_of view u = cell_of view s)" for h t a e u r
  have "P h t a e u r" if "item_loop h t a e u = Some r" for h t a e u r
  proof (rule item_loop.raw_induct [of P, OF _ that])
    fix f h t a e u r
    assume ih: "\<And>h t a e u r. f h t a e u = Some r \<Longrightarrow> P h t a e u r"
      and body: "(if a < e then case read_head h a u of Inl e \<Rightarrow> Some (Inl e)
        | Inr (ty', len, u) \<Rightarrow> if t \<noteq> ty' then f h t (a + 8 + len) e u else Some (Inr (a, u))
        else Some (Inr (a, u))) = Some r"
    show "P h t a e u r" unfolding P_def
    proof
      assume c: "h = hnd \<and> t = ty \<and> a = addr \<and> e = end_addr \<and> inv u \<and> cell_of view u = cell_of view s"
      obtain u' where u': "read_head hnd addr u = Inr (flash_word (cell_of view s) addr, - 8, u')" "same u u'"
        using read_head_ok [of u addr] assms(2,5) c by metis
      have "f hnd ty (addr + 8 + - 8) end_addr u' = Some r"
        using body c u'(1) assms(3,4) by (simp add: eq_commute)
      from ih [OF this] show False using sameD(1,2) [OF u'(2)] c by (simp add: P_def)
    qed
  qed
  moreover have "\<not> P hnd ty addr end_addr s r" for r using assms(1) by (simp add: P_def)
  ultimately show ?thesis by (meson option.exhaust)
qed

end

text \<open>A table whose first item has the length field \<open>0xFFFFFFF8\<close> makes the search for another item run
  forever.\<close>

theorem search_info_item_spins:
  assumes hw: "nor_chip io ok busy view prot cfg" and s: "store_inv io sctrl ok view cfg slot s"
    and "unat start + 16 \<le> 0x1000000" "start + 8 < start + 8 + flash_word (cell_of view s) (start + 4)"
    and "flash_word (cell_of view s) (start + 8) \<noteq> ty" "flash_word (cell_of view s) (start + 12) = 0xFFFFFFF8"
  shows "search_info_item ty start s = Inl Spins"
proof -
  obtain s1 where s1: "fs_open s = Inr (ddev_make_handle (of_nat slot), s1)" "nor_chip.same io ok view cfg sctrl slot s s1"
    using nor_chip.open_same [OF hw s] by metis
  note i1 = nor_chip.sameD [OF hw s1(2)]
  have "unat start + 8 \<le> 0x1000000" using assms(3) by simp
  then obtain s2 where s2: "read_head (ddev_make_handle (of_nat slot)) start s1
      = Inr (flash_word (cell_of view s1) start, flash_word (cell_of view s1) (start + 4), s2)"
    "nor_chip.same io ok view cfg sctrl slot s1 s2" using nor_chip.read_head_ok [OF hw i1(1)] by metis
  note i2 = nor_chip.sameD [OF hw s2(2)]
  have u: "unat (start + 8) + 8 \<le> 0x1000000" using assms(3) by (simp add: unat_add_fit)
  have "item_loop (ddev_make_handle (of_nat slot)) ty (start + 8) (start + 8 + flash_word (cell_of view s) (start + 4)) s2 = None"
  proof (rule nor_chip.item_loop_spins [OF hw i2(1) u assms(4)])
    have "(0xFFFFFFF8 :: u32) = - 8" by code_simp
    moreover have "start + 8 + 4 = start + 12" by simp
    ultimately show "flash_word (cell_of view s2) (start + 8 + 4) = - 8" using assms(6) i1(2) i2(2) by metis
    show "flash_word (cell_of view s2) (start + 8) \<noteq> ty" using assms(5) i1(2) i2(2) by simp
  qed
  then show ?thesis using s1(1) s2(1) i1(2) by (simp add: search_info_item_def Let_def)
qed

text \<open>On a chip of one megabyte the partition lies behind the end of the chip: the driver refuses the erase
  and the write without telling, and the save reports success.\<close>

context nor_chip
begin

lemma erase_refused:
  assumes "inv s" "fc_flash_size cfg \<le> address AND 0xFFF000"
  shows "fs_control hnd CMD_FLASH_ERASE_SECTOR address s = Inr s"
proof -
  have c: "fw_config (snd s) = Some cfg" using assms(1) by (simp add: store_inv_def)
  have "flash_ctrl io sctrl (flash_cmd_no CMD_FLASH_ERASE_SECTOR) (param_of (Obj_u32 address)) (snd s)
      = Inr (FLASH_SUCCESS, (snd s)\<lparr>fw_dev := fw_dev (snd s)\<rparr>)"
    using assms(2) c by (intro flash_ctrl_none [OF c flash_config_all(1) [OF known(1)]])
      (simp add: flash_ctrl_cmd_def on_dev_def flash_erase_sector_def Let_def)
  then show ?thesis using dispatch_ok [OF assms(1), of dd_control]
    by (simp add: fs_control_def fs_call_def ddev_control_def flash_op_def)
qed

lemma store_table_lost:
  assumes "inv s" "fc_flash_size cfg \<le> 0x1e1000" "0 < n" "n \<le> 280" "b \<noteq> 0"
  shows "\<exists>s'. store_table b (of_nat n) s = Inr s' \<and> inv s' \<and> cell_of view s' = cell_of view s"
proof -
  have un: "unat (of_nat n :: u32) = n" using assms(4) by (simp add: unat_of_nat_u32)
  obtain s1 where s1: "bk_flash_enable_security FLASH_PROTECT_NONE s = Inr (kNoErr, s1)" "inv s1"
    "cell_of view s1 = cell_of view s" using protect_ok [OF assms(1)] by metis
  obtain st where st: "fs_open_asserted s1 = Inr (hnd, st, snd s1)" "inv (st, snd s1)" using open_ok [OF s1(2)] by metis
  have "unat ((0 :: u32) + of_nat n - 1) = n - 1" using un assms(3) by (simp add: unat_sub word_le_nat_alt)
  then have "sectors_between (drop_bit 12 0) (drop_bit 12 (0 + of_nat n - 1)) = 1"
    using assms(4) by (simp add: sectors_between_def drop_bit_eq_div unat_div)
  moreover have "(net_base + push_bit 12 0) AND 0xFFF000 = net_base" by (simp add: net_base_def)
  moreover have "start_of (Some (bk7231_partitions ! unat BK_PARTITION_NET_PARAM)) = Inr net_base"
    using net_partition(2) by (simp add: start_of_def)
  ultimately have e: "bk_flash_erase BK_PARTITION_NET_PARAM 0 (of_nat n) s1 = Inr (kNoErr, st, snd s1)"
    using st(1) erase_refused [OF st(2), of net_base] assms(2)
    by (simp add: bk_flash_erase_def get_info_valid [OF net_partition(1)] Let_def net_base_def)
  obtain st' where st': "fs_open_asserted (st, snd s1) = Inr (hnd, st', snd s1)" "inv (st', snd s1)"
    using open_ok [OF st(2)] by auto
  have "flash_write io (buf_param b) (of_nat n) net_base (snd s1) = Inr (FLASH_SUCCESS, snd s1)"
  proof -
    have c: "fw_config (snd s1) = Some cfg" using s1(2) by (simp add: store_inv_def)
    have "fc_flash_size cfg \<le> net_base AND NOT 0x1F" using assms(2) by (simp add: net_base_def)
    then have "flash_write_data io cfg m a net_base (of_nat n) d = Some d" for m a d
      by (simp add: flash_write_data_def Let_def)
    then show ?thesis using c flash_config_all(1) [OF known(1)]
      by (simp add: flash_write_def switch_line_mode_none [of _ cfg] with_config_def on_dev_def)
  qed
  then have w: "bk_flash_write BK_PARTITION_NET_PARAM 0 b (of_nat n) (st, snd s1) = Inr (kNoErr, st', snd s1)"
    using st' dispatch_ok [OF st'(2), of dd_write] assms(5) net_partition(2)
    by (simp add: bk_flash_write_def get_info_valid [OF net_partition(1)] start_of_def fs_write_def fs_call_def
        ddev_write_def flash_op_def)
  obtain s4 where s4: "bk_flash_enable_security FLASH_UNPROTECT_LAST_BLOCK (st', snd s1) = Inr (kNoErr, s4)" "inv s4"
    "cell_of view s4 = cell_of view (st', snd s1)" using protect_ok [OF st'(2)] by metis
  have "store_table b (of_nat n) s = Inr s4" using s1(1) e w s4(1) by (simp add: store_table_def)
  then show ?thesis using s4(2,3) s1(3) by simp
qed

end

text \<open>On a chip that ends before the partition, \<open>save_info_item\<close> returns 1 and stores nothing.\<close>

theorem save_info_item_lost:
  assumes hw: "nor_chip io ok busy view prot cfg" and s: "store_inv io sctrl ok view cfg slot s"
    and rel: "net_rel (cell_of view s) items" and item: "item \<in> set net_types" "fc_flash_size cfg \<le> 0x1e1000"
    and buf: "n = new_len item items" "b = zalloc (of_nat n)" "b \<noteq> 0" "disjoint_blocks (unat b) n (unat local_addr) 8"
      "srcs_ok (srcs item p0 p1 p2) (unat b) n"
  shows "\<exists>s'. save_info_item zalloc item p0 p1 p2 s = Inr (1, s') \<and> cell_of view s' = cell_of view s"
proof -
  have wf: "wf_items items" using rel by (simp add: net_rel_def)
  have nb: "n \<le> 280" "0 < n" using new_len_bound [OF wf item(1)] buf(1) by simp_all
  obtain s1 pre post where s1: "open_table zalloc item net_base s
      = Inr (Some (b, of_nat n, of_nat (8 + length (enc_body pre)), of_nat (n - 8)), s1)" "store_inv io sctrl ok view cfg slot s1"
    "cell_of view s1 = cell_of view s" "buf_parts item items (mread (mem_of s1) (unat b) n) pre post"
    using nor_chip.open_table_ok [where zalloc = zalloc, OF hw s rel item(1) buf(1-4)] by metis
  obtain s2 where s2: "put_item item b (of_nat (8 + length (enc_body pre))) (of_nat (n - 8)) p0 p1 p2 s1 = Inr s2"
    "store_inv io sctrl ok view cfg slot s2" "cell_of view s2 = cell_of view s1"
    using nor_chip.put_item_ok [OF hw s1(2) wf item(1) buf(1) nb(1) s1(4) buf(5)] by metis
  obtain s3 where "store_table b (of_nat n) s2 = Inr s3" "cell_of view s3 = cell_of view s2"
    using nor_chip.store_table_lost [OF hw s2(2) item(2) nb(2,1) buf(3)] by metis
  then have "save_info_item zalloc item p0 p1 p2 s = Inr (1, s3)"
    using s1(1) s2(1) by (simp add: save_info_item_def net_start_base)
  then show ?thesis using \<open>cell_of view s3 = cell_of view s2\<close> s2(3) s1(3) by auto
qed

end
