(* ===== verification/Role_Launch.thy ===== *)
theory Role_Launch
  imports Bk_Prelude
begin

text \<open>
  The role launcher, \<^verbatim>\<open>beken378/func/joint_up/role_launch.c\<close>: station and access point share one radio,
  and their start requests are serialised. A request is left in the socket \<open>g_rl_socket\<close>; when the enter
  timer expires it becomes an allocated entity in one of two slots per role, the request under way
  (\<open>jl_previous\<close>) and the one that waits (\<open>jl_following\<close>); the launch timer advances the slots by the status
  that the Wi-Fi stack reports. With it are the one-shot timers of \<^verbatim>\<open>os/FreeRTOSv9.0.0/rtos_pub.c\<close> and what
  the start and stop functions of \<^verbatim>\<open>func/wlan_ui/wlan_ui.c\<close> do to the launcher.

  Entities are blocks of a heap from addresses to entities; reading or freeing an address that is not
  allocated is the fault \<open>Stale_pointer\<close>. \<open>zalloc\<close> is the address \<open>os_zalloc\<close> returns for an entity in a
  heap. The FreeRTOS timer behind a handle is its period and whether it is active; \<open>tmr_results\<close> holds the
  results of the coming timer commands, a command beyond them passes. Calls that leave the launcher are
  appended to \<open>calls\<close>. The arguments of the two timer handlers are always null and are left out.
\<close>

section \<open>One-shot timers\<close>

datatype rl_handler = Launch_handler | Enter_handler

record beken2_timer =
  t_handle :: u32
  t_function :: "rl_handler option"
  t_magic :: u32
  t_period :: u32
  t_active :: bool

abbreviation (input) BEKEN_MAGIC_WORD :: u32 where "BEKEN_MAGIC_WORD \<equiv> 0xBABA7231"
abbreviation (input) ms_to_tick_ratio :: u32 where "ms_to_tick_ratio \<equiv> 2"

text \<open>\<open>handle\<close> is what \<open>_xTimerCreate\<close> returns; \<open>pass\<close> whether the timer command passes.\<close>

definition rtos_init_oneshot_timer ::
  "u32 \<Rightarrow> u32 \<Rightarrow> rl_handler \<Rightarrow> beken2_timer \<Rightarrow> int \<times> beken2_timer" where
  "rtos_init_oneshot_timer handle time_ms function t =
    (if handle = 0 then kGeneralErr else kNoErr,
     \<lparr>t_handle = handle, t_function = Some function, t_magic = BEKEN_MAGIC_WORD,
      t_period = time_ms div ms_to_tick_ratio, t_active = False\<rparr>)"

definition rtos_start_oneshot_timer :: "bool \<Rightarrow> beken2_timer \<Rightarrow> int \<times> beken2_timer" where
  "rtos_start_oneshot_timer pass t =
    (if pass then (kNoErr, t\<lparr>t_active := True\<rparr>) else (kGeneralErr, t))"

definition rtos_stop_oneshot_timer :: "bool \<Rightarrow> beken2_timer \<Rightarrow> int \<times> beken2_timer" where
  "rtos_stop_oneshot_timer pass t =
    (if pass then (kNoErr, t\<lparr>t_active := False\<rparr>) else (kGeneralErr, t))"

definition rtos_oneshot_reload_timer :: "bool \<Rightarrow> beken2_timer \<Rightarrow> int \<times> beken2_timer" where
  "rtos_oneshot_reload_timer pass t =
    (if pass then (kNoErr, t\<lparr>t_active := True\<rparr>) else (kGeneralErr, t))"

definition rtos_deinit_oneshot_timer :: "bool \<Rightarrow> beken2_timer \<Rightarrow> int \<times> beken2_timer" where
  "rtos_deinit_oneshot_timer pass t =
    (if pass then (kNoErr, t\<lparr>t_handle := 0, t_function := None, t_magic := 0, t_active := False\<rparr>)
     else (kGeneralErr, t))"

definition rtos_is_oneshot_timer_init :: "beken2_timer \<Rightarrow> bool" where
  "rtos_is_oneshot_timer_init t \<longleftrightarrow> t_handle t \<noteq> 0"

text \<open>The function that the expiry of a timer calls, if any.\<close>

definition timer_callback2 :: "beken2_timer \<Rightarrow> rl_handler option" where
  "timer_callback2 t = (if BEKEN_MAGIC_WORD \<noteq> t_magic t then None else t_function t)"

section \<open>State\<close>

record network_InitTypeDef_st =
  wifi_mode :: u8
  wifi_ssid :: "u8 list"
  wifi_key :: "u8 list"
  local_ip_addr :: "u8 list"
  net_mask :: "u8 list"
  gateway_ip_addr :: "u8 list"
  dns_server_ip_addr :: "u8 list"
  dhcp_mode :: u8
  wifi_bssid :: "u8 list"
  reserved :: "u8 list"
  wifi_retry_interval :: u32

abbreviation (input) BK_SOFT_AP :: u8 where "BK_SOFT_AP \<equiv> 0"
abbreviation (input) BK_STATION :: u8 where "BK_STATION \<equiv> 1"

record LAUNCH_REQ =
  descr :: network_InitTypeDef_st
  req_type :: u32

abbreviation (input) LAUNCH_REQ_STA :: u32 where "LAUNCH_REQ_STA \<equiv> 1"
abbreviation (input) LAUNCH_REQ_AP :: u32 where "LAUNCH_REQ_AP \<equiv> 2"
abbreviation (input) LAUNCH_REQ_PURE_STA_SCAN :: u32 where "LAUNCH_REQ_PURE_STA_SCAN \<equiv> 3"
abbreviation (input) LAUNCH_REQ_DELIF_STA :: u32 where "LAUNCH_REQ_DELIF_STA \<equiv> 4"
abbreviation (input) LAUNCH_REQ_DELIF_AP :: u32 where "LAUNCH_REQ_DELIF_AP \<equiv> 5"

abbreviation (input) LAUNCH_TYPE_ASAP :: u32 where "LAUNCH_TYPE_ASAP \<equiv> 1"
abbreviation (input) LAUNCH_STATUS_OVER :: u32 where "LAUNCH_STATUS_OVER \<equiv> 0"
abbreviation (input) LAUNCH_STATUS_CONT :: u32 where "LAUNCH_STATUS_CONT \<equiv> 1"

abbreviation (input) RL_STATUS_CANCEL :: u32 where "RL_STATUS_CANCEL \<equiv> 0x8000"
abbreviation (input) RL_STATUS_UNKNOWN :: u32 where "RL_STATUS_UNKNOWN \<equiv> 0"
abbreviation (input) RL_STATUS_STA_INITING :: u32 where "RL_STATUS_STA_INITING \<equiv> 1"
abbreviation (input) RL_STATUS_STA_SCANNING :: u32 where "RL_STATUS_STA_SCANNING \<equiv> 2"
abbreviation (input) RL_STATUS_STA_SCAN_OVER :: u32 where "RL_STATUS_STA_SCAN_OVER \<equiv> 3"
abbreviation (input) RL_STATUS_STA_CONNECTING :: u32 where "RL_STATUS_STA_CONNECTING \<equiv> 4"
abbreviation (input) RL_STATUS_STA_DHCPING :: u32 where "RL_STATUS_STA_DHCPING \<equiv> 5"
abbreviation (input) RL_STATUS_MROLE_CHANNEL_SWITCHING :: u32 where "RL_STATUS_MROLE_CHANNEL_SWITCHING \<equiv> 6"
abbreviation (input) RL_STATUS_MROLE_CHANNEL_SWITCHED :: u32 where "RL_STATUS_MROLE_CHANNEL_SWITCHED \<equiv> 7"
abbreviation (input) RL_STATUS_STA_LAUNCHED :: u32 where "RL_STATUS_STA_LAUNCHED \<equiv> 9"
abbreviation (input) RL_STATUS_STA_LAUNCH_FAILED :: u32 where "RL_STATUS_STA_LAUNCH_FAILED \<equiv> 10"
abbreviation (input) RL_STATUS_AP_INITING :: u32 where "RL_STATUS_AP_INITING \<equiv> 0x11"
abbreviation (input) RL_STATUS_AP_TRANSMITTED_BCN :: u32 where "RL_STATUS_AP_TRANSMITTED_BCN \<equiv> 0x14"
abbreviation (input) RL_STATUS_AP_LAUNCHED :: u32 where "RL_STATUS_AP_LAUNCHED \<equiv> 0x15"

abbreviation (input) RL_TIMER_UNINIT :: u32 where "RL_TIMER_UNINIT \<equiv> 0"
abbreviation (input) RL_TIMER_INIT :: u32 where "RL_TIMER_INIT \<equiv> 1"
abbreviation (input) RL_TIMER_START :: u32 where "RL_TIMER_START \<equiv> 2"
abbreviation (input) RL_TIMER_STOP :: u32 where "RL_TIMER_STOP \<equiv> 3"

abbreviation (input) PRE_ENTITY_IDLE :: u32 where "PRE_ENTITY_IDLE \<equiv> 0"
abbreviation (input) PRE_ENTITY_STA :: u32 where "PRE_ENTITY_STA \<equiv> 1"
abbreviation (input) PRE_ENTITY_AP :: u32 where "PRE_ENTITY_AP \<equiv> 2"

record RL_SOCKET_CACHE_T =
  c_sta_req_flag :: u32
  c_sta_param :: LAUNCH_REQ
  c_sta_completion :: u32

record RL_SOCKET_T =
  sta_req_flag :: u32
  sta_param :: LAUNCH_REQ
  sta_completion :: u32
  ap_req_flag :: u32
  ap_param :: LAUNCH_REQ
  ap_completion :: u32

record RL_ENTITY_T =
  launch_type :: u32
  relaunch_limit :: u32
  launch_count :: u32
  rlaunch :: LAUNCH_REQ
  completion_cb :: u32

record RL_T =
  enter_timer :: beken2_timer
  rl_timer :: beken2_timer
  rl_timer_flag :: u32
  pre_entity_type :: u32
  pre_sta_cancel :: u32
  pre_sta_status :: u32
  pre_ap_cancel :: u32
  pre_ap_status :: u32
  jl_previous_sta :: u32
  jl_following_sta :: u32
  jl_previous_ap :: u32
  jl_following_ap :: u32

text \<open>The calls out of the launcher, and the two functions that start the request of an entity.\<close>

datatype rl_call =
    Sta_request_start LAUNCH_REQ
  | Ap_request_start LAUNCH_REQ
  | Sa_station_init
  | Sa_ap_init
  | Supplicant_main_entry network_InitTypeDef_st
  | Hostapd_main_entry network_InitTypeDef_st
  | Ap_add_netif
  | Sta_ip_down
  | Sta_exit
  | Ap_down
  | Mm_hw_ap_disable
  | Scanu_reg_cb
  | Scanu_start_req
  | Deassoc_evt_cb

record rl_world =
  g_role_launch :: RL_T
  g_rl_socket :: RL_SOCKET_T
  g_mrole_csa_flag :: u32
  g_sta_cache :: RL_SOCKET_CACHE_T
  rl_heap :: "u32 \<rightharpoonup> RL_ENTITY_T"
  fiq_off :: bool
  irq_off :: bool
  monitor_mode :: bool
  deassoc_cb :: bool
  hostapd_rc :: int
  tmr_results :: "bool list"
  calls :: "rl_call list"

text \<open>The memory of a zeroed structure.\<close>

definition zero_descr :: network_InitTypeDef_st where
  "zero_descr = \<lparr>wifi_mode = 0, wifi_ssid = replicate 33 0, wifi_key = replicate 64 0,
    local_ip_addr = replicate 16 0, net_mask = replicate 16 0, gateway_ip_addr = replicate 16 0,
    dns_server_ip_addr = replicate 16 0, dhcp_mode = 0, wifi_bssid = replicate 6 0,
    reserved = replicate 26 0, wifi_retry_interval = 0\<rparr>"

definition zero_req :: LAUNCH_REQ where
  "zero_req = \<lparr>descr = zero_descr, req_type = 0\<rparr>"

definition zero_socket :: RL_SOCKET_T where
  "zero_socket = \<lparr>sta_req_flag = 0, sta_param = zero_req, sta_completion = 0,
    ap_req_flag = 0, ap_param = zero_req, ap_completion = 0\<rparr>"

definition zero_cache :: RL_SOCKET_CACHE_T where
  "zero_cache = \<lparr>c_sta_req_flag = 0, c_sta_param = zero_req, c_sta_completion = 0\<rparr>"

definition zero_timer :: beken2_timer where
  "zero_timer = \<lparr>t_handle = 0, t_function = None, t_magic = 0, t_period = 0, t_active = False\<rparr>"

definition zero_role_launch :: RL_T where
  "zero_role_launch = \<lparr>enter_timer = zero_timer, rl_timer = zero_timer, rl_timer_flag = 0, pre_entity_type = 0,
    pre_sta_cancel = 0, pre_sta_status = 0, pre_ap_cancel = 0, pre_ap_status = 0,
    jl_previous_sta = 0, jl_following_sta = 0, jl_previous_ap = 0, jl_following_ap = 0\<rparr>"

abbreviation upd_rl :: "(RL_T \<Rightarrow> RL_T) \<Rightarrow> rl_world \<Rightarrow> rl_world" where
  "upd_rl f w \<equiv> w\<lparr>g_role_launch := f (g_role_launch w)\<rparr>"

definition call_out :: "rl_call \<Rightarrow> rl_world \<Rightarrow> rl_world" where
  "call_out c w = w\<lparr>calls := calls w @ [c]\<rparr>"

text \<open>\<open>GLOBAL_INT_DISABLE\<close> saves the masks of FIQ and IRQ and sets both; \<open>GLOBAL_INT_RESTORE\<close> clears a
  mask that was clear when it was saved.\<close>

definition int_disable :: "rl_world \<Rightarrow> (bool \<times> bool) \<times> rl_world" where
  "int_disable w = ((fiq_off w, irq_off w), w\<lparr>fiq_off := True, irq_off := True\<rparr>)"

definition int_restore :: "bool \<times> bool \<Rightarrow> rl_world \<Rightarrow> rl_world" where
  "int_restore saved w =
    w\<lparr>fiq_off := (if fst saved then fiq_off w else False),
      irq_off := (if snd saved then irq_off w else False)\<rparr>"

text \<open>One timer command of each kind on the two timers of the launcher.\<close>

definition next_result :: "rl_world \<Rightarrow> bool \<times> rl_world" where
  "next_result w = (case tmr_results w of [] \<Rightarrow> (True, w) | b # bs \<Rightarrow> (b, w\<lparr>tmr_results := bs\<rparr>))"

definition on_rl_timer :: "(bool \<Rightarrow> beken2_timer \<Rightarrow> int \<times> beken2_timer) \<Rightarrow> rl_world \<Rightarrow> int \<times> rl_world" where
  "on_rl_timer op w =
    (let (pass, w) = next_result w; (err, t) = op pass (rl_timer (g_role_launch w))
     in (err, upd_rl (rl_timer_update (\<lambda>_. t)) w))"

definition on_enter_timer :: "(bool \<Rightarrow> beken2_timer \<Rightarrow> int \<times> beken2_timer) \<Rightarrow> rl_world \<Rightarrow> int \<times> rl_world" where
  "on_enter_timer op w =
    (let (pass, w) = next_result w; (err, t) = op pass (enter_timer (g_role_launch w))
     in (err, upd_rl (enter_timer_update (\<lambda>_. t)) w))"


section \<open>Status and cancellation\<close>

definition rl_pre_sta_get_status :: "rl_world \<Rightarrow> u32" where
  "rl_pre_sta_get_status w = pre_sta_status (g_role_launch w)"

definition rl_pre_ap_get_status :: "rl_world \<Rightarrow> u32" where
  "rl_pre_ap_get_status w = pre_ap_status (g_role_launch w)"

definition rl_init_csa_status :: "rl_world \<Rightarrow> u32 \<times> rl_world" where
  "rl_init_csa_status w = (0, w\<lparr>g_mrole_csa_flag := 0\<rparr>)"

definition rl_set_csa_switching :: "rl_world \<Rightarrow> u32 \<times> rl_world" where
  "rl_set_csa_switching w =
    (if pre_sta_cancel (g_role_launch w) \<noteq> 0 \<or> pre_ap_cancel (g_role_launch w) \<noteq> 0 then (1, w)
     else (0, w\<lparr>g_mrole_csa_flag := RL_STATUS_MROLE_CHANNEL_SWITCHING\<rparr>))"

definition rl_set_csa_switched :: "rl_world \<Rightarrow> u32 \<times> rl_world" where
  "rl_set_csa_switched w = (0, w\<lparr>g_mrole_csa_flag := RL_STATUS_MROLE_CHANNEL_SWITCHED\<rparr>)"

text \<open>The two refusals jump past \<open>GLOBAL_INT_RESTORE\<close>.\<close>

definition rl_pre_sta_set_status :: "u32 \<Rightarrow> rl_world \<Rightarrow> u32 \<times> rl_world" where
  "rl_pre_sta_set_status status w =
    (let (saved, w) = int_disable w; g = g_role_launch w in
     if status = RL_STATUS_STA_SCANNING
        \<and> (RL_STATUS_STA_INITING \<noteq> pre_sta_status g \<and> RL_STATUS_STA_SCAN_OVER \<noteq> pre_sta_status g)
     then (6, w)
     else if status = RL_STATUS_STA_SCANNING \<and> pre_sta_cancel g \<noteq> 0 then (8, w)
     else
       (let w = upd_rl (pre_sta_status_update (\<lambda>_. status)) w
        in (pre_sta_cancel g, int_restore saved w)))"

definition rl_pre_ap_disable_autobcn :: "rl_world \<Rightarrow> u32 \<times> rl_world" where
  "rl_pre_ap_disable_autobcn w =
    (let w = (if pre_ap_cancel (g_role_launch w) \<noteq> 0 then call_out Mm_hw_ap_disable w else w)
     in (pre_ap_cancel (g_role_launch w), w))"

definition rl_pre_ap_set_status :: "u32 \<Rightarrow> rl_world \<Rightarrow> u32 \<times> rl_world" where
  "rl_pre_ap_set_status status w =
    (let (saved, w) = int_disable w;
         w = upd_rl (pre_ap_status_update (\<lambda>_. status)) w;
         cancel = pre_ap_cancel (g_role_launch w);
         w = (if cancel \<noteq> 0 then upd_rl (pre_ap_status_update (\<lambda>s. s + RL_STATUS_CANCEL)) w else w)
     in (cancel, int_restore saved w))"

definition rl_pre_sta_set_cancel :: "rl_world \<Rightarrow> rl_world" where
  "rl_pre_sta_set_cancel w = upd_rl (pre_sta_cancel_update (\<lambda>_. 1)) w"

definition rl_pre_sta_clear_cancel :: "rl_world \<Rightarrow> rl_world" where
  "rl_pre_sta_clear_cancel w = upd_rl (pre_sta_cancel_update (\<lambda>_. 0)) w"

definition fl_get_pre_sta_cancel_status :: "rl_world \<Rightarrow> u32" where
  "fl_get_pre_sta_cancel_status w = pre_sta_cancel (g_role_launch w)"

definition rl_pre_ap_set_cancel :: "rl_world \<Rightarrow> rl_world" where
  "rl_pre_ap_set_cancel w = upd_rl (pre_ap_cancel_update (\<lambda>_. 1)) w"

definition rl_pre_ap_clear_cancel :: "rl_world \<Rightarrow> rl_world" where
  "rl_pre_ap_clear_cancel w = upd_rl (pre_ap_cancel_update (\<lambda>_. 0)) w"

definition fl_get_pre_ap_cancel_status :: "rl_world \<Rightarrow> u32" where
  "fl_get_pre_ap_cancel_status w = pre_ap_cancel (g_role_launch w)"

definition rl_pre_ap_init :: "rl_world \<Rightarrow> rl_world" where
  "rl_pre_ap_init w = upd_rl (\<lambda>g. g\<lparr>pre_ap_cancel := 0, pre_ap_status := 0\<rparr>) w"

definition rl_pre_sta_init :: "rl_world \<Rightarrow> rl_world" where
  "rl_pre_sta_init w = upd_rl (\<lambda>g. g\<lparr>pre_sta_cancel := 0, pre_sta_status := 0\<rparr>) w"

definition rl_sta_is_launched :: "rl_world \<Rightarrow> bool" where
  "rl_sta_is_launched w \<longleftrightarrow>
    RL_STATUS_MROLE_CHANNEL_SWITCHED = g_mrole_csa_flag w \<or> RL_STATUS_STA_LAUNCHED = rl_pre_sta_get_status w"

definition rl_sta_may_next_launch :: "rl_world \<Rightarrow> u32" where
  "rl_sta_may_next_launch w =
    (let status = rl_pre_sta_get_status w;
         yes = (if RL_STATUS_MROLE_CHANNEL_SWITCHED = g_mrole_csa_flag w then 1
                else if pre_sta_cancel (g_role_launch w) \<noteq> 0
                  \<and> (RL_STATUS_STA_DHCPING = status \<or> RL_STATUS_STA_INITING = status
                      \<or> RL_STATUS_STA_SCAN_OVER = status \<or> RL_STATUS_STA_CONNECTING = status) then 2
                else if RL_STATUS_STA_LAUNCH_FAILED = status then 3
                else if RL_STATUS_STA_LAUNCHED = status then 4
                else 0)
     in if RL_STATUS_MROLE_CHANNEL_SWITCHING = g_mrole_csa_flag w then 0 else yes)"

definition rl_ap_may_next_launch :: "u32 \<Rightarrow> rl_world \<Rightarrow> u32" where
  "rl_ap_may_next_launch pre_cancel w =
    (if pre_cancel = 0 then 1
     else
       (let status = rl_pre_ap_get_status w;
            yes = (if RL_STATUS_AP_TRANSMITTED_BCN + RL_STATUS_CANCEL = status
                      \<or> RL_STATUS_AP_LAUNCHED = status AND NOT RL_STATUS_CANCEL then 1 else 0)
        in if RL_STATUS_MROLE_CHANNEL_SWITCHING = g_mrole_csa_flag w then 0 else yes))"

definition rl_pre_sta_stop_launch :: u32 where "rl_pre_sta_stop_launch = 0"
definition rl_pre_ap_stop_launch :: u32 where "rl_pre_ap_stop_launch = 0"

section \<open>What the start and stop functions do to the launcher\<close>

text \<open>\<open>bk_wlan_stop\<close>: the stack is told to go down, and the role is reported as launched.\<close>

definition bk_wlan_stop :: "u8 \<Rightarrow> rl_world \<Rightarrow> int \<times> rl_world" where
  "bk_wlan_stop mode w =
    (if mode = BK_SOFT_AP then
       (let w = call_out Ap_down w;
            (_, w) = rl_pre_ap_set_status RL_STATUS_AP_LAUNCHED w
        in (kNoErr, w))
     else if mode = BK_STATION then
       (let (_, w) = rl_pre_sta_set_status RL_STATUS_UNKNOWN w;
            w = call_out Sta_ip_down w;
            w = rl_pre_sta_clear_cancel w;
            w = call_out Sta_exit w;
            (_, w) = rl_pre_sta_set_status RL_STATUS_STA_LAUNCHED w
        in (kNoErr, w))
     else (kGeneralErr, w))"

text \<open>The parameter blocks that these functions fill for the stack are not part of the model.\<close>

definition bk_wlan_ap_init :: "network_InitTypeDef_st option \<Rightarrow> rl_world \<Rightarrow> rl_world" where
  "bk_wlan_ap_init inNetworkInitPara w =
    (let (_, w) = rl_init_csa_status w in
     case inNetworkInitPara of
       None \<Rightarrow> call_out Sa_ap_init w
     | Some _ \<Rightarrow>
         (let (cancel, w) = rl_pre_ap_set_status RL_STATUS_AP_INITING w
          in if cancel \<noteq> 0 then w else call_out Sa_ap_init w))"

text \<open>After the wait for the beacon of the previous access point.\<close>

definition bk_wlan_start_ap :: "network_InitTypeDef_st \<Rightarrow> rl_world \<Rightarrow> int \<times> rl_world" where
  "bk_wlan_start_ap para w =
    (let (_, w) = bk_wlan_stop BK_SOFT_AP w;
         w = bk_wlan_ap_init (Some para) w;
         w = call_out (Hostapd_main_entry para) w
     in if hostapd_rc w \<noteq> 0 then (-1, snd (bk_wlan_stop BK_SOFT_AP w))
        else (kNoErr, call_out Ap_add_netif w))"

definition bk_wlan_sta_init :: "rl_world \<Rightarrow> rl_world" where
  "bk_wlan_sta_init w =
    (let (_, w) = rl_init_csa_status w;
         (cancel, w) = rl_pre_sta_set_status RL_STATUS_STA_INITING w
     in if cancel \<noteq> 0 then w else call_out Sa_station_init w)"

definition bk_wlan_start_sta :: "network_InitTypeDef_st \<Rightarrow> rl_world \<Rightarrow> int \<times> rl_world" where
  "bk_wlan_start_sta para w =
    (let (_, w) = bk_wlan_stop BK_STATION w;
         w = bk_wlan_sta_init w
     in (kNoErr, call_out (Supplicant_main_entry para) w))"

text \<open>A scan request goes to the firmware unless the launcher refuses the scan.\<close>

definition rw_msg_send_scanu_req :: "rl_world \<Rightarrow> int \<times> rl_world" where
  "rw_msg_send_scanu_req w =
    (let (refused, w) = rl_pre_sta_set_status RL_STATUS_STA_SCANNING w in
     if refused \<noteq> 0 then (-1, snd (rl_pre_sta_set_status RL_STATUS_STA_SCAN_OVER w))
     else (0, call_out Scanu_start_req w))"

definition bk_wlan_start_scan :: "rl_world \<Rightarrow> rl_world" where
  "bk_wlan_start_scan w =
    (if monitor_mode w then snd (rl_pre_sta_set_status RL_STATUS_STA_LAUNCH_FAILED w)
     else snd (rw_msg_send_scanu_req (bk_wlan_sta_init w)))"

definition demo_scan_app_init :: "rl_world \<Rightarrow> rl_world" where
  "demo_scan_app_init w = bk_wlan_start_scan (call_out Scanu_reg_cb w)"

section \<open>Starting the request of an entity\<close>

definition rl_sta_request_start :: "LAUNCH_REQ option \<Rightarrow> rl_world \<Rightarrow> rl_world result" where
  "rl_sta_request_start req w =
    (case req of
       None \<Rightarrow> Inl Assert_failed
     | Some r \<Rightarrow>
         (let w = call_out (Sta_request_start r) w in
          Inr (if req_type r = LAUNCH_REQ_STA then snd (bk_wlan_start_sta (descr r) (rl_pre_sta_init w))
               else if req_type r = LAUNCH_REQ_PURE_STA_SCAN then demo_scan_app_init (rl_pre_sta_init w)
               else if req_type r = LAUNCH_REQ_DELIF_STA then snd (bk_wlan_stop BK_STATION w)
               else w)))"

definition rl_ap_request_start :: "LAUNCH_REQ option \<Rightarrow> rl_world \<Rightarrow> rl_world result" where
  "rl_ap_request_start req w =
    (case req of
       None \<Rightarrow> Inl Assert_failed
     | Some r \<Rightarrow>
         (let w = call_out (Ap_request_start r) w in
          Inr (if req_type r = LAUNCH_REQ_AP then snd (bk_wlan_start_ap (descr r) (rl_pre_ap_init w))
               else if req_type r = LAUNCH_REQ_DELIF_AP then snd (bk_wlan_stop BK_SOFT_AP w)
               else w)))"

section \<open>Entities and timers\<close>

definition rl_entity :: "u32 \<Rightarrow> rl_world \<Rightarrow> RL_ENTITY_T result" where
  "rl_entity p w =
    (if p = 0 then Inl Null_deref
     else case rl_heap w p of None \<Rightarrow> Inl Stale_pointer | Some e \<Rightarrow> Inr e)"

definition rl_alloc_entity ::
  "((u32 \<rightharpoonup> RL_ENTITY_T) \<Rightarrow> u32) \<Rightarrow> LAUNCH_REQ \<Rightarrow> u32 \<Rightarrow> rl_world \<Rightarrow> (u32 \<times> rl_world) result" where
  "rl_alloc_entity zalloc param completion w =
    (let entity = zalloc (rl_heap w) in
     if entity = 0 then Inl Assert_failed
     else Inr (entity, w\<lparr>rl_heap := (rl_heap w)(entity \<mapsto>
       \<lparr>launch_type = LAUNCH_TYPE_ASAP, relaunch_limit = 0, launch_count = 0,
        rlaunch = param, completion_cb = completion\<rparr>)\<rparr>))"

definition rl_free_entity :: "u32 \<Rightarrow> rl_world \<Rightarrow> rl_world result" where
  "rl_free_entity d w =
    (if d = 0 then Inr w
     else case rl_heap w d of
       None \<Rightarrow> Inl Stale_pointer
     | Some _ \<Rightarrow> Inr (w\<lparr>rl_heap := (rl_heap w)(d := None)\<rparr>))"

definition rl_start :: "rl_world \<Rightarrow> rl_world result" where
  "rl_start w =
    (let (_, w) = on_rl_timer rtos_stop_oneshot_timer w;
         w = upd_rl (rl_timer_flag_update (\<lambda>_. RL_TIMER_STOP)) w;
         (err, w) = on_rl_timer rtos_start_oneshot_timer w
     in if err \<noteq> kNoErr then Inl Assert_failed
        else Inr (upd_rl (rl_timer_flag_update (\<lambda>_. RL_TIMER_START)) w))"

definition rl_stop :: "rl_world \<Rightarrow> rl_world result" where
  "rl_stop w =
    (let (err, w) = on_rl_timer rtos_stop_oneshot_timer w in
     if err \<noteq> kNoErr then Inl Assert_failed
     else
       (let (err, w) = on_enter_timer rtos_stop_oneshot_timer w in
        if err \<noteq> kNoErr then Inl Assert_failed
        else Inr (upd_rl (rl_timer_flag_update (\<lambda>_. RL_TIMER_STOP)) w)))"

text \<open>The result of the reload is dropped.\<close>

definition rl_relaunch_chance :: "rl_world \<Rightarrow> rl_world result" where
  "rl_relaunch_chance w =
    (if \<not> rtos_is_oneshot_timer_init (rl_timer (g_role_launch w)) then Inl Assert_failed
     else Inr (snd (on_rl_timer rtos_oneshot_reload_timer w)))"

definition rl_init :: "u32 \<Rightarrow> u32 \<Rightarrow> rl_world \<Rightarrow> rl_world result" where
  "rl_init handle1 handle2 w =
    (let (err, t) = rtos_init_oneshot_timer handle1 250 Launch_handler (rl_timer (g_role_launch w)) in
     if err \<noteq> kNoErr then Inl Assert_failed
     else
       (let w = upd_rl (rl_timer_update (\<lambda>_. t)) w;
            (err, t) = rtos_init_oneshot_timer handle2 150 Enter_handler (enter_timer (g_role_launch w)) in
        if err \<noteq> kNoErr then Inl Assert_failed
        else Inr (upd_rl (\<lambda>g. g\<lparr>enter_timer := t, rl_timer_flag := RL_TIMER_INIT\<rparr>) w)))"

definition rl_uninit :: "rl_world \<Rightarrow> rl_world result" where
  "rl_uninit w =
    bind_res (if rl_timer_flag (g_role_launch w) = RL_TIMER_START then rl_stop w else Inr w) (\<lambda>w.
      let (err, w) = on_rl_timer rtos_deinit_oneshot_timer w in
      if err \<noteq> kNoErr then Inl Assert_failed
      else
        (let (err, w) = on_enter_timer rtos_deinit_oneshot_timer w in
         if err \<noteq> kNoErr then Inl Assert_failed
         else Inr (upd_rl (rl_timer_flag_update (\<lambda>_. RL_TIMER_UNINIT)) w)))"


section \<open>Advancing the slots\<close>

definition rl_launch_sta :: "rl_world \<Rightarrow> (u32 \<times> rl_world) result" where
  "rl_launch_sta w =
    (let g = g_role_launch w in
     if jl_previous_sta g = 0 then
       (if jl_following_sta g \<noteq> 0 then
          (let pre_entity = jl_following_sta g;
               w = upd_rl (\<lambda>g. g\<lparr>jl_previous_sta := pre_entity, jl_following_sta := 0\<rparr>) w
           in bind_res (rl_entity pre_entity w) (\<lambda>e.
              bind_res (rl_sta_request_start (Some (rlaunch e)) w) (\<lambda>w.
              Inr (LAUNCH_STATUS_CONT, w))))
        else Inr (LAUNCH_STATUS_OVER, w))
     else
       bind_res
         (if jl_following_sta g \<noteq> 0 then
            bind_res (rl_entity (jl_following_sta g) w) (\<lambda>e.
              Inr (if launch_type e = LAUNCH_TYPE_ASAP then rl_pre_sta_set_cancel w else w))
          else Inr w) (\<lambda>w.
       bind_res (rl_entity (jl_previous_sta (g_role_launch w)) w) (\<lambda>e.
         let w = (if relaunch_limit e \<noteq> 0 \<and> relaunch_limit e \<le> launch_count e
                  then rl_pre_sta_set_cancel w else w) in
         if rl_sta_may_next_launch w \<noteq> 0 then
           bind_res (rl_free_entity (jl_previous_sta (g_role_launch w)) w) (\<lambda>w.
             let pre_entity = jl_following_sta (g_role_launch w);
                 w = upd_rl (\<lambda>g. g\<lparr>jl_previous_sta := pre_entity, jl_following_sta := 0\<rparr>) w
             in if pre_entity \<noteq> 0 then
                  bind_res (rl_entity pre_entity w) (\<lambda>e.
                  bind_res (rl_sta_request_start (Some (rlaunch e)) w) (\<lambda>w.
                  Inr (LAUNCH_STATUS_CONT, w)))
                else Inr (LAUNCH_STATUS_OVER, w))
         else Inr (LAUNCH_STATUS_CONT, w))))"

definition rl_launch_ap :: "rl_world \<Rightarrow> (u32 \<times> rl_world) result" where
  "rl_launch_ap w =
    (let g = g_role_launch w in
     if jl_previous_ap g = 0 then
       (if jl_following_ap g \<noteq> 0 then
          (let pre_entity = jl_following_ap g;
               w = upd_rl (\<lambda>g. g\<lparr>jl_previous_ap := pre_entity, jl_following_ap := 0\<rparr>) w;
               w = rl_pre_ap_init w
           in bind_res (rl_entity pre_entity w) (\<lambda>e.
              bind_res (rl_ap_request_start (Some (rlaunch e)) w) (\<lambda>w.
              Inr (LAUNCH_STATUS_CONT, w))))
        else Inr (LAUNCH_STATUS_OVER, w))
     else
       bind_res
         (if jl_following_ap g \<noteq> 0 then
            bind_res (rl_entity (jl_following_ap g) w) (\<lambda>e.
              Inr (if launch_type e = LAUNCH_TYPE_ASAP then (1, rl_pre_ap_set_cancel w) else (0, w)))
          else Inr (0, w)) (\<lambda>(cancel_pre_flag, w).
       bind_res (rl_entity (jl_previous_ap (g_role_launch w)) w) (\<lambda>e.
         let (cancel_pre_flag, w) =
               (if relaunch_limit e \<noteq> 0 \<and> relaunch_limit e \<le> launch_count e
                then (1, rl_pre_ap_set_cancel w) else (cancel_pre_flag, w)) in
         if rl_ap_may_next_launch cancel_pre_flag w \<noteq> 0 then
           bind_res (rl_free_entity (jl_previous_ap (g_role_launch w)) w) (\<lambda>w.
             let pre_entity = jl_following_ap (g_role_launch w);
                 w = upd_rl (\<lambda>g. g\<lparr>jl_previous_ap := pre_entity, jl_following_ap := 0\<rparr>) w
             in if pre_entity \<noteq> 0 then
                  (let w = rl_pre_ap_init w in
                   bind_res (rl_entity pre_entity w) (\<lambda>e.
                   bind_res (rl_ap_request_start (Some (rlaunch e)) w) (\<lambda>w.
                   Inr (LAUNCH_STATUS_CONT, w))))
                else Inr (LAUNCH_STATUS_OVER, w))
         else Inr (LAUNCH_STATUS_CONT, w))))"

definition rl_launch_handler :: "rl_world \<Rightarrow> rl_world result" where
  "rl_launch_handler w =
    bind_res
      (if pre_entity_type (g_role_launch w) = PRE_ENTITY_AP then
         bind_res (rl_launch_ap w) (\<lambda>(ap_ret, w).
           if ap_ret = LAUNCH_STATUS_OVER then
             bind_res (rl_launch_sta (upd_rl (pre_entity_type_update (\<lambda>_. PRE_ENTITY_STA)) w)) (\<lambda>(sta_ret, w).
               Inr (ap_ret, sta_ret, w))
           else Inr (ap_ret, LAUNCH_STATUS_OVER, w))
       else if pre_entity_type (g_role_launch w) = PRE_ENTITY_STA then
         bind_res (rl_launch_sta w) (\<lambda>(sta_ret, w).
           if sta_ret = LAUNCH_STATUS_OVER then
             bind_res (rl_launch_ap (upd_rl (pre_entity_type_update (\<lambda>_. PRE_ENTITY_AP)) w)) (\<lambda>(ap_ret, w).
               Inr (ap_ret, sta_ret, w))
           else Inr (LAUNCH_STATUS_OVER, sta_ret, w))
       else Inr (LAUNCH_STATUS_OVER, LAUNCH_STATUS_OVER, w))
      (\<lambda>(ap_ret, sta_ret, w).
        if \<not> (sta_ret = LAUNCH_STATUS_OVER \<and> ap_ret = LAUNCH_STATUS_OVER) then rl_relaunch_chance w
        else Inr w)"

section \<open>Entering requests\<close>

definition rl_sta_req_is_null :: "rl_world \<Rightarrow> bool \<times> rl_world" where
  "rl_sta_req_is_null w =
    (let (saved, w) = int_disable w;
         ret = (jl_previous_sta (g_role_launch w) = 0 \<and> jl_following_sta (g_role_launch w) = 0)
     in (ret, int_restore saved w))"

text \<open>Shared end of the two functions below: the first request decides whose turn it is.\<close>

definition claim_turn :: "u32 \<Rightarrow> u32 \<Rightarrow> rl_world \<Rightarrow> rl_world" where
  "claim_turn entity role w =
    (if entity \<noteq> 0 \<and> pre_entity_type (g_role_launch w) = PRE_ENTITY_IDLE
     then upd_rl (pre_entity_type_update (\<lambda>_. role)) w else w)"

definition sta_request_enter ::
  "((u32 \<rightharpoonup> RL_ENTITY_T) \<Rightarrow> u32) \<Rightarrow> LAUNCH_REQ \<Rightarrow> u32 \<Rightarrow> rl_world \<Rightarrow> (u32 \<times> rl_world) result" where
  "sta_request_enter zalloc param completion w =
    (let (saved, w) = int_disable w; g = g_role_launch w in
     bind_res
       (if jl_previous_ap g = 0 \<and> jl_previous_sta g = 0 then
          bind_res (rl_alloc_entity zalloc param completion w) (\<lambda>(entity, w).
          bind_res (rl_sta_request_start (Some param) (upd_rl (jl_previous_sta_update (\<lambda>_. entity)) w)) (\<lambda>w.
          Inr (1, entity, w)))
        else if jl_following_sta g = 0 then
          bind_res (rl_alloc_entity zalloc param completion w) (\<lambda>(entity, w).
          bind_res (rl_start (upd_rl (jl_following_sta_update (\<lambda>_. entity)) w)) (\<lambda>w.
          Inr (2, entity, w)))
        else bind_res (rl_start w) (\<lambda>w. Inr (0, 0, w)))
       (\<lambda>(ret, entity, w). Inr (ret, int_restore saved (claim_turn entity PRE_ENTITY_STA w))))"

definition ap_request_enter ::
  "((u32 \<rightharpoonup> RL_ENTITY_T) \<Rightarrow> u32) \<Rightarrow> LAUNCH_REQ \<Rightarrow> u32 \<Rightarrow> rl_world \<Rightarrow> (u32 \<times> rl_world) result" where
  "ap_request_enter zalloc param completion w =
    (let (saved, w) = int_disable w; g = g_role_launch w in
     bind_res
       (if jl_previous_ap g = 0 \<and> jl_previous_sta g = 0 then
          bind_res (rl_alloc_entity zalloc param completion w) (\<lambda>(entity, w).
          bind_res (rl_ap_request_start (Some param) (upd_rl (jl_previous_ap_update (\<lambda>_. entity)) w)) (\<lambda>w.
          Inr (1, entity, w)))
        else if jl_following_ap g = 0 then
          bind_res (rl_alloc_entity zalloc param completion w) (\<lambda>(entity, w).
          bind_res (rl_start (upd_rl (jl_following_ap_update (\<lambda>_. entity)) w)) (\<lambda>w.
          Inr (2, entity, w)))
        else bind_res (rl_start w) (\<lambda>w. Inr (0, 0, w)))
       (\<lambda>(ret, entity, w). Inr (ret, int_restore saved (claim_turn entity PRE_ENTITY_AP w))))"

text \<open>\<open>ptr\<close> is the address of the copy of the two requests, null when memory is short.\<close>

definition rl_enter_handler ::
  "((u32 \<rightharpoonup> RL_ENTITY_T) \<Rightarrow> u32) \<Rightarrow> u32 \<Rightarrow> rl_world \<Rightarrow> rl_world result" where
  "rl_enter_handler zalloc ptr w =
    (if ptr = 0 then Inr w
     else
       (let (saved, w) = int_disable w;
            s = g_rl_socket w;
            w = int_restore saved (w\<lparr>g_rl_socket := zero_socket\<rparr>)
        in bind_res
             (if sta_req_flag s \<noteq> 0 then
                bind_res (sta_request_enter zalloc (sta_param s) (sta_completion s) w) (\<lambda>(ret, w).
                  Inr (if ret \<noteq> 0
                       then w\<lparr>g_sta_cache := \<lparr>c_sta_req_flag = 1, c_sta_param = sta_param s,
                                              c_sta_completion = sta_completion s\<rparr>\<rparr>
                       else w))
              else Inr w) (\<lambda>w.
           if ap_req_flag s \<noteq> 0
           then bind_res (ap_request_enter zalloc (ap_param s) (ap_completion s) w) (\<lambda>(_, w). Inr w)
           else Inr w)))"

text \<open>Both entries restart the enter timer.\<close>

definition restart_enter_timer :: "rl_world \<Rightarrow> rl_world result" where
  "restart_enter_timer w =
    (let (_, w) = on_enter_timer rtos_stop_oneshot_timer w;
         (err, w) = on_enter_timer rtos_start_oneshot_timer w
     in if err \<noteq> kNoErr then Inl Assert_failed else Inr w)"

definition rl_sta_request_enter :: "LAUNCH_REQ \<Rightarrow> u32 \<Rightarrow> rl_world \<Rightarrow> rl_world result" where
  "rl_sta_request_enter param completion w =
    (let (saved, w) = int_disable w;
         w = w\<lparr>g_rl_socket := (g_rl_socket w)\<lparr>sta_completion := completion, sta_param := param, sta_req_flag := 1\<rparr>\<rparr>
     in bind_res (restart_enter_timer w) (\<lambda>w. Inr (int_restore saved w)))"

definition rl_ap_request_enter :: "LAUNCH_REQ \<Rightarrow> u32 \<Rightarrow> rl_world \<Rightarrow> rl_world result" where
  "rl_ap_request_enter param completion w =
    (let (saved, w) = int_disable w;
         w = w\<lparr>g_rl_socket := (g_rl_socket w)\<lparr>ap_completion := completion, ap_param := param, ap_req_flag := 1\<rparr>\<rparr>
     in bind_res (restart_enter_timer w) (\<lambda>w. Inr (int_restore saved w)))"

definition rl_sta_cache_request_enter :: "rl_world \<Rightarrow> (u32 \<times> rl_world) result" where
  "rl_sta_cache_request_enter w =
    (let (saved, w) = int_disable w; c = g_sta_cache w in
     bind_res
       (if c_sta_req_flag c \<noteq> 0 \<and> \<not> monitor_mode w
        then bind_res (rl_sta_request_enter (c_sta_param c) (c_sta_completion c) w) (\<lambda>w. Inr (1, w))
        else Inr (0, w)) (\<lambda>(ret, w).
     Inr (ret, int_restore saved (w\<lparr>g_sta_cache := zero_cache\<rparr>))))"

definition bk_wlan_start :: "network_InitTypeDef_st \<Rightarrow> rl_world \<Rightarrow> rl_world result" where
  "bk_wlan_start para w =
    (if monitor_mode w then Inr w
     else if wifi_mode para = BK_SOFT_AP
       then rl_ap_request_enter \<lparr>descr = para, req_type = LAUNCH_REQ_AP\<rparr> 0 w
     else if wifi_mode para = BK_STATION
       then rl_sta_request_enter \<lparr>descr = para, req_type = LAUNCH_REQ_STA\<rparr> 0 w
     else Inr w)"

text \<open>The firmware reports that the station lost its access point: the cached request is entered again,
  or the supplicant is told, and the launch counts as failed.\<close>

abbreviation (input) VENDOR_CONNECTION_LOSS :: u32 where "VENDOR_CONNECTION_LOSS \<equiv> 40"

definition mhdr_disconnect_ind :: "u32 \<Rightarrow> rl_world \<Rightarrow> rl_world result" where
  "mhdr_disconnect_ind reason w =
    (let (null, w) = rl_sta_req_is_null w in
     if null \<or> VENDOR_CONNECTION_LOSS = reason \<or> RL_STATUS_STA_SCANNING \<le> rl_pre_sta_get_status w
     then map_sum id snd (rl_sta_cache_request_enter w)
     else Inr (if deassoc_cb w then call_out Deassoc_evt_cb w else w))"

definition sm_disconnect_ind :: "u32 \<Rightarrow> rl_world \<Rightarrow> rl_world result" where
  "sm_disconnect_ind reason w =
    map_sum id (\<lambda>w. snd (rl_pre_sta_set_status RL_STATUS_STA_LAUNCH_FAILED w)) (mhdr_disconnect_ind reason w)"

definition bk_wlan_ap_is_up :: "rl_world \<Rightarrow> int" where
  "bk_wlan_ap_is_up w = (if RL_STATUS_AP_INITING < rl_pre_ap_get_status w then 1 else 0)"

definition bk_wlan_sta_is_connected :: "rl_world \<Rightarrow> int" where
  "bk_wlan_sta_is_connected w = (if RL_STATUS_STA_LAUNCHED \<le> rl_pre_sta_get_status w then 1 else 0)"

section \<open>The launcher among its callers\<close>

text \<open>
  What happens to the launcher, one atomic event each: requests of any task, the expiry of one of the two
  timers, and the reports of the Wi-Fi stack. The timers expire in the timer task, so the two handlers never
  interleave.
\<close>

datatype rl_event =
    Ev_start network_InitTypeDef_st
  | Ev_sta_request LAUNCH_REQ u32
  | Ev_ap_request LAUNCH_REQ u32
  | Ev_disconnect u32
  | Ev_enter_timer u32
  | Ev_launch_timer
  | Ev_sta_status u32
  | Ev_ap_status u32
  | Ev_scan
  | Ev_csa_switching
  | Ev_csa_switched
  | Ev_autobcn
  | Ev_monitor bool
  | Ev_deassoc_cb bool
  | Ev_hostapd int

text \<open>An active timer expires: it is no longer active when its handler runs.\<close>

definition run_handler ::
  "((u32 \<rightharpoonup> RL_ENTITY_T) \<Rightarrow> u32) \<Rightarrow> u32 \<Rightarrow> rl_handler option \<Rightarrow> rl_world \<Rightarrow> rl_world result" where
  "run_handler zalloc ptr h w =
    (case h of
       None \<Rightarrow> Inr w
     | Some Launch_handler \<Rightarrow> rl_launch_handler w
     | Some Enter_handler \<Rightarrow> rl_enter_handler zalloc ptr w)"

primrec rl_exec :: "((u32 \<rightharpoonup> RL_ENTITY_T) \<Rightarrow> u32) \<Rightarrow> rl_event \<Rightarrow> rl_world \<Rightarrow> rl_world result" where
  "rl_exec zalloc (Ev_start para) w = bk_wlan_start para w"
| "rl_exec zalloc (Ev_sta_request req cb) w = rl_sta_request_enter req cb w"
| "rl_exec zalloc (Ev_ap_request req cb) w = rl_ap_request_enter req cb w"
| "rl_exec zalloc (Ev_disconnect reason) w = sm_disconnect_ind reason w"
| "rl_exec zalloc (Ev_enter_timer ptr) w =
    (let t = enter_timer (g_role_launch w) in
     if t_active t
     then run_handler zalloc ptr (timer_callback2 t) (upd_rl (enter_timer_update (t_active_update (\<lambda>_. False))) w)
     else Inr w)"
| "rl_exec zalloc Ev_launch_timer w =
    (let t = rl_timer (g_role_launch w) in
     if t_active t
     then run_handler zalloc 0 (timer_callback2 t) (upd_rl (rl_timer_update (t_active_update (\<lambda>_. False))) w)
     else Inr w)"
| "rl_exec zalloc (Ev_sta_status status) w = Inr (snd (rl_pre_sta_set_status status w))"
| "rl_exec zalloc (Ev_ap_status status) w = Inr (snd (rl_pre_ap_set_status status w))"
| "rl_exec zalloc Ev_scan w = Inr (snd (rw_msg_send_scanu_req w))"
| "rl_exec zalloc Ev_csa_switching w = Inr (snd (rl_set_csa_switching w))"
| "rl_exec zalloc Ev_csa_switched w = Inr (snd (rl_set_csa_switched w))"
| "rl_exec zalloc Ev_autobcn w = Inr (snd (rl_pre_ap_disable_autobcn w))"
| "rl_exec zalloc (Ev_monitor b) w = Inr (w\<lparr>monitor_mode := b\<rparr>)"
| "rl_exec zalloc (Ev_deassoc_cb b) w = Inr (w\<lparr>deassoc_cb := b\<rparr>)"
| "rl_exec zalloc (Ev_hostapd rc) w = Inr (w\<lparr>hostapd_rc := rc\<rparr>)"

definition rl_boot :: rl_world where
  "rl_boot = \<lparr>g_role_launch = zero_role_launch, g_rl_socket = zero_socket, g_mrole_csa_flag = 0,
    g_sta_cache = zero_cache, rl_heap = Map.empty, fiq_off = False, irq_off = False, monitor_mode = False,
    deassoc_cb = False, hostapd_rc = 0, tmr_results = [], calls = []\<rparr>"

end
