(* ===== verification/Role_Launch_Spec.thy ===== *)
theory Role_Launch_Spec
  imports Role_Launch
begin

text \<open>
  The role launcher against its specification: per role one request under way and one that waits, and whose
  turn it is. The slots and the heap of entities are kept consistent by every event; the two handlers refine
  the specification; accepted requests are started in the order they were accepted; a request that waits
  always has its timer; and the places where the code departs from what it serialises.
\<close>

lemmas rl_status_defs =
  rl_pre_sta_set_status_def rl_pre_ap_set_status_def rl_pre_sta_get_status_def rl_pre_ap_get_status_def
  rl_pre_sta_init_def rl_pre_ap_init_def rl_pre_sta_clear_cancel_def rl_pre_ap_clear_cancel_def
  rl_pre_sta_set_cancel_def rl_pre_ap_set_cancel_def rl_init_csa_status_def
  int_disable_def int_restore_def call_out_def

lemmas rl_stack_defs =
  bk_wlan_stop_def bk_wlan_ap_init_def bk_wlan_start_ap_def bk_wlan_sta_init_def bk_wlan_start_sta_def
  rw_msg_send_scanu_req_def bk_wlan_start_scan_def demo_scan_app_init_def

section \<open>The effect of starting a request\<close>

definition sta_started :: "LAUNCH_REQ \<Rightarrow> rl_world \<Rightarrow> rl_world" where
  "sta_started r w =
    (let say = (\<lambda>cs w. w\<lparr>calls := calls w @ Sta_request_start r # cs\<rparr>);
         status = (\<lambda>s. upd_rl (\<lambda>g. g\<lparr>pre_sta_cancel := 0, pre_sta_status := s\<rparr>)) in
     if req_type r = LAUNCH_REQ_STA then
       say [Sta_ip_down, Sta_exit, Sa_station_init, Supplicant_main_entry (descr r)]
         (status RL_STATUS_STA_INITING (w\<lparr>g_mrole_csa_flag := 0\<rparr>))
     else if req_type r = LAUNCH_REQ_PURE_STA_SCAN then
       (if monitor_mode w then say [Scanu_reg_cb] (status RL_STATUS_STA_LAUNCH_FAILED w)
        else say [Scanu_reg_cb, Sa_station_init, Scanu_start_req]
               (status RL_STATUS_STA_SCANNING (w\<lparr>g_mrole_csa_flag := 0\<rparr>)))
     else if req_type r = LAUNCH_REQ_DELIF_STA then
       say [Sta_ip_down, Sta_exit] (status RL_STATUS_STA_LAUNCHED w)
     else say [] w)"

text \<open>Every report but that of a scan is taken, with the interrupt masks as they were.\<close>

lemma int_restore_disable: "int_restore (fiq_off w, irq_off w) (w\<lparr>fiq_off := True, irq_off := True, g_role_launch := g\<rparr>)
    = w\<lparr>g_role_launch := g\<rparr>"
  by (cases w) (simp add: int_restore_def)

lemma rl_pre_sta_set_status_eq:
  assumes "s \<noteq> RL_STATUS_STA_SCANNING"
  shows "rl_pre_sta_set_status s w =
    (pre_sta_cancel (g_role_launch w), upd_rl (pre_sta_status_update (\<lambda>_. s)) w)"
  using assms by (simp add: rl_pre_sta_set_status_def int_disable_def Let_def int_restore_disable)

lemma rl_pre_sta_set_scanning_eq:
  assumes "pre_sta_cancel (g_role_launch w) = 0" "pre_sta_status (g_role_launch w) = RL_STATUS_STA_INITING"
  shows "rl_pre_sta_set_status RL_STATUS_STA_SCANNING w =
    (0, upd_rl (pre_sta_status_update (\<lambda>_. RL_STATUS_STA_SCANNING)) w)"
  using assms by (simp add: rl_pre_sta_set_status_def int_disable_def Let_def int_restore_disable)

lemma rl_sta_request_start_Some: "rl_sta_request_start (Some r) w = Inr (sta_started r w)"
  by (simp add: rl_sta_request_start_def sta_started_def rl_stack_defs rl_pre_sta_set_status_eq
      rl_pre_sta_set_scanning_eq rl_pre_sta_clear_cancel_def rl_pre_sta_init_def rl_init_csa_status_def call_out_def Let_def)

definition ap_started :: "LAUNCH_REQ \<Rightarrow> rl_world \<Rightarrow> rl_world" where
  "ap_started r w =
    (let say = (\<lambda>cs w. w\<lparr>calls := calls w @ Ap_request_start r # cs\<rparr>) in
     if req_type r = LAUNCH_REQ_AP then
       (let up = hostapd_rc w = 0;
            status = (if up then RL_STATUS_AP_INITING else RL_STATUS_AP_LAUNCHED) in
        say [Ap_down, Sa_ap_init, Hostapd_main_entry (descr r), if up then Ap_add_netif else Ap_down]
          (upd_rl (\<lambda>g. g\<lparr>pre_ap_cancel := 0, pre_ap_status := status\<rparr>) (w\<lparr>g_mrole_csa_flag := 0\<rparr>)))
     else if req_type r = LAUNCH_REQ_DELIF_AP then
       say [Ap_down] (upd_rl (\<lambda>g. g\<lparr>pre_ap_status := RL_STATUS_AP_LAUNCHED +
         (if pre_ap_cancel g \<noteq> 0 then RL_STATUS_CANCEL else 0)\<rparr>) w)
     else say [] w)"

lemma rl_pre_ap_set_status_eq:
  "rl_pre_ap_set_status s w =
    (pre_ap_cancel (g_role_launch w),
     upd_rl (\<lambda>g. g\<lparr>pre_ap_status := s + (if pre_ap_cancel g \<noteq> 0 then RL_STATUS_CANCEL else 0)\<rparr>) w)"
  by (simp add: rl_pre_ap_set_status_def int_disable_def Let_def int_restore_disable)

lemma bk_wlan_start_ap_eq:
  assumes "pre_ap_cancel (g_role_launch w) = 0"
  shows "snd (bk_wlan_start_ap para w) =
    (let up = hostapd_rc w = 0 in
     w\<lparr>g_mrole_csa_flag := 0,
       g_role_launch := (g_role_launch w)\<lparr>pre_ap_status := (if up then RL_STATUS_AP_INITING else RL_STATUS_AP_LAUNCHED)\<rparr>,
       calls := calls w @ [Ap_down, Sa_ap_init, Hostapd_main_entry para, if up then Ap_add_netif else Ap_down]\<rparr>)"
  using assms
  by (cases "hostapd_rc w = 0")
    (simp_all add: bk_wlan_start_ap_def bk_wlan_stop_def bk_wlan_ap_init_def rl_pre_ap_set_status_eq
      rl_init_csa_status_def call_out_def Let_def)

lemma rl_ap_request_start_Some: "rl_ap_request_start (Some r) w = Inr (ap_started r w)"
  by (simp add: rl_ap_request_start_def ap_started_def bk_wlan_start_ap_eq rl_pre_ap_init_def call_out_def
      bk_wlan_stop_def rl_pre_ap_set_status_eq Let_def)

section \<open>Slots and entities\<close>

datatype rl_role = Sta | Ap

fun other_role :: "rl_role \<Rightarrow> rl_role" where
  "other_role Sta = Ap" | "other_role Ap = Sta"

fun jl_previous :: "rl_role \<Rightarrow> RL_T \<Rightarrow> u32" where
  "jl_previous Sta g = jl_previous_sta g" | "jl_previous Ap g = jl_previous_ap g"

fun jl_following :: "rl_role \<Rightarrow> RL_T \<Rightarrow> u32" where
  "jl_following Sta g = jl_following_sta g" | "jl_following Ap g = jl_following_ap g"

text \<open>The requests of a role among the calls, in the order they were started.\<close>

fun starts :: "rl_role \<Rightarrow> rl_call list \<Rightarrow> LAUNCH_REQ list" where
  "starts role [] = []"
| "starts role (Sta_request_start r # cs) = (if role = Sta then r # starts role cs else starts role cs)"
| "starts role (Ap_request_start r # cs) = (if role = Ap then r # starts role cs else starts role cs)"
| "starts role (c # cs) = starts role cs"

lemma starts_append [simp]: "starts role (cs @ ds) = starts role cs @ starts role ds"
  by (induction role cs rule: starts.induct) simp_all

lemma sta_started_frame [simp]:
  "rl_heap (sta_started r w) = rl_heap w"
  "g_rl_socket (sta_started r w) = g_rl_socket w"
  "g_sta_cache (sta_started r w) = g_sta_cache w"
  "fiq_off (sta_started r w) = fiq_off w"
  "irq_off (sta_started r w) = irq_off w"
  "tmr_results (sta_started r w) = tmr_results w"
  "enter_timer (g_role_launch (sta_started r w)) = enter_timer (g_role_launch w)"
  "rl_timer (g_role_launch (sta_started r w)) = rl_timer (g_role_launch w)"
  "pre_entity_type (g_role_launch (sta_started r w)) = pre_entity_type (g_role_launch w)"
  "jl_previous_sta (g_role_launch (sta_started r w)) = jl_previous_sta (g_role_launch w)"
  "jl_following_sta (g_role_launch (sta_started r w)) = jl_following_sta (g_role_launch w)"
  "jl_previous_ap (g_role_launch (sta_started r w)) = jl_previous_ap (g_role_launch w)"
  "jl_following_ap (g_role_launch (sta_started r w)) = jl_following_ap (g_role_launch w)"
  "starts role (calls (sta_started r w)) = starts role (calls w) @ (if role = Sta then [r] else [])"
  by (simp_all add: sta_started_def Let_def)

lemma ap_started_frame [simp]:
  "rl_heap (ap_started r w) = rl_heap w"
  "g_rl_socket (ap_started r w) = g_rl_socket w"
  "g_sta_cache (ap_started r w) = g_sta_cache w"
  "fiq_off (ap_started r w) = fiq_off w"
  "irq_off (ap_started r w) = irq_off w"
  "tmr_results (ap_started r w) = tmr_results w"
  "enter_timer (g_role_launch (ap_started r w)) = enter_timer (g_role_launch w)"
  "rl_timer (g_role_launch (ap_started r w)) = rl_timer (g_role_launch w)"
  "pre_entity_type (g_role_launch (ap_started r w)) = pre_entity_type (g_role_launch w)"
  "jl_previous_sta (g_role_launch (ap_started r w)) = jl_previous_sta (g_role_launch w)"
  "jl_following_sta (g_role_launch (ap_started r w)) = jl_following_sta (g_role_launch w)"
  "jl_previous_ap (g_role_launch (ap_started r w)) = jl_previous_ap (g_role_launch w)"
  "jl_following_ap (g_role_launch (ap_started r w)) = jl_following_ap (g_role_launch w)"
  "starts role (calls (ap_started r w)) = starts role (calls w) @ (if role = Ap then [r] else [])"
  by (simp_all add: ap_started_def Let_def)

definition rl_slots :: "RL_T \<Rightarrow> u32 list" where
  "rl_slots g = [jl_previous_sta g, jl_following_sta g, jl_previous_ap g, jl_following_ap g]"

text \<open>The allocated entities are those of the slots, each in one slot; all of them are to be launched as soon
  as possible and are never relaunched.\<close>

definition plain_entity :: "RL_ENTITY_T \<Rightarrow> bool" where
  "plain_entity e \<longleftrightarrow> launch_type e = LAUNCH_TYPE_ASAP \<and> relaunch_limit e = 0"

definition entities_ok :: "rl_world \<Rightarrow> bool" where
  "entities_ok w \<longleftrightarrow>
    dom (rl_heap w) = set (rl_slots (g_role_launch w)) - {0}
    \<and> distinct (filter (\<lambda>p. p \<noteq> 0) (rl_slots (g_role_launch w)))
    \<and> (\<forall>e \<in> ran (rl_heap w). plain_entity e)"

lemma entities_ok_null: "entities_ok w \<Longrightarrow> rl_heap w 0 = None"
  by (auto simp: entities_ok_def dom_def)

lemma entities_ok_slot:
  assumes "entities_ok w" "p \<in> set (rl_slots (g_role_launch w))" "p \<noteq> 0"
  shows "\<exists>e. rl_heap w p = Some e \<and> launch_type e = LAUNCH_TYPE_ASAP \<and> relaunch_limit e = 0"
proof -
  have "p \<in> dom (rl_heap w)" using assms by (simp add: entities_ok_def)
  then obtain e where "rl_heap w p = Some e" by blast
  then show ?thesis using assms by (auto simp: entities_ok_def plain_entity_def ran_def)
qed

section \<open>Advancing, in closed form\<close>

definition sta_asap :: "rl_world \<Rightarrow> rl_world" where
  "sta_asap w = (if jl_previous_sta (g_role_launch w) \<noteq> 0 \<and> jl_following_sta (g_role_launch w) \<noteq> 0
    then rl_pre_sta_set_cancel w else w)"

definition sta_shift :: "rl_world \<Rightarrow> rl_world" where
  "sta_shift w = (let g = g_role_launch w in
    w\<lparr>rl_heap := (rl_heap w)(jl_previous_sta g := None),
      g_role_launch := g\<lparr>jl_previous_sta := jl_following_sta g, jl_following_sta := 0\<rparr>\<rparr>)"

lemma upd_none_same: "m x = None \<Longrightarrow> m(x := None) = m"
  by auto

lemma rl_launch_sta_eq:
  assumes "entities_ok w"
  shows "rl_launch_sta w =
    (if jl_previous_sta (g_role_launch w) \<noteq> 0 \<and> rl_sta_may_next_launch (sta_asap w) = 0
     then Inr (LAUNCH_STATUS_CONT, sta_asap w)
     else let w' = sta_shift (sta_asap w); q = jl_following_sta (g_role_launch w) in
       if q = 0 then Inr (LAUNCH_STATUS_OVER, w')
       else Inr (LAUNCH_STATUS_CONT, sta_started (rlaunch (the (rl_heap w q))) w'))"
proof -
  let ?p = "jl_previous_sta (g_role_launch w)" and ?q = "jl_following_sta (g_role_launch w)"
  have null: "rl_heap w 0 = None" using assms by (rule entities_ok_null)
  have p: "?p \<noteq> 0 \<Longrightarrow> \<exists>e. rl_heap w ?p = Some e \<and> launch_type e = LAUNCH_TYPE_ASAP \<and> relaunch_limit e = 0"
    and q: "?q \<noteq> 0 \<Longrightarrow> \<exists>e. rl_heap w ?q = Some e \<and> launch_type e = LAUNCH_TYPE_ASAP \<and> relaunch_limit e = 0"
    using assms by (auto intro: entities_ok_slot simp: rl_slots_def)
  have pq: "?p \<noteq> 0 \<Longrightarrow> ?q \<noteq> 0 \<Longrightarrow> ?p \<noteq> ?q" using assms by (auto simp: entities_ok_def rl_slots_def)
  show ?thesis
  proof (cases "?p = 0")
    case True
    with q null show ?thesis
      by (auto simp: rl_launch_sta_def rl_entity_def rl_sta_request_start_Some sta_asap_def sta_shift_def Let_def
          upd_none_same)
  next
    case False
    with p obtain e where e: "rl_heap w ?p = Some e" "relaunch_limit e = 0" by auto
    show ?thesis
    proof (cases "?q = 0")
      case True
      with False e show ?thesis
        by (simp add: rl_launch_sta_def rl_entity_def rl_free_entity_def sta_asap_def sta_shift_def Let_def)
    next
      case q0: False
      with q obtain e' where "rl_heap w ?q = Some e'" "launch_type e' = LAUNCH_TYPE_ASAP" by auto
      with False e q0 pq show ?thesis
        by (simp add: rl_launch_sta_def rl_entity_def rl_free_entity_def sta_asap_def sta_shift_def Let_def
            rl_pre_sta_set_cancel_def rl_sta_request_start_Some)
    qed
  qed
qed

definition ap_asap :: "rl_world \<Rightarrow> rl_world" where
  "ap_asap w = (if jl_previous_ap (g_role_launch w) \<noteq> 0 \<and> jl_following_ap (g_role_launch w) \<noteq> 0
    then rl_pre_ap_set_cancel w else w)"

definition ap_shift :: "rl_world \<Rightarrow> rl_world" where
  "ap_shift w = (let g = g_role_launch w in
    w\<lparr>rl_heap := (rl_heap w)(jl_previous_ap g := None),
      g_role_launch := g\<lparr>jl_previous_ap := jl_following_ap g, jl_following_ap := 0\<rparr>\<rparr>)"

lemma rl_launch_ap_eq:
  assumes "entities_ok w"
  shows "rl_launch_ap w =
    (if jl_previous_ap (g_role_launch w) \<noteq> 0
        \<and> rl_ap_may_next_launch (if jl_following_ap (g_role_launch w) = 0 then 0 else 1) (ap_asap w) = 0
     then Inr (LAUNCH_STATUS_CONT, ap_asap w)
     else let w' = ap_shift (ap_asap w); q = jl_following_ap (g_role_launch w) in
       if q = 0 then Inr (LAUNCH_STATUS_OVER, w')
       else Inr (LAUNCH_STATUS_CONT, ap_started (rlaunch (the (rl_heap w q))) (rl_pre_ap_init w')))"
proof -
  let ?p = "jl_previous_ap (g_role_launch w)" and ?q = "jl_following_ap (g_role_launch w)"
  have null: "rl_heap w 0 = None" using assms by (rule entities_ok_null)
  have p: "?p \<noteq> 0 \<Longrightarrow> \<exists>e. rl_heap w ?p = Some e \<and> launch_type e = LAUNCH_TYPE_ASAP \<and> relaunch_limit e = 0"
    and q: "?q \<noteq> 0 \<Longrightarrow> \<exists>e. rl_heap w ?q = Some e \<and> launch_type e = LAUNCH_TYPE_ASAP \<and> relaunch_limit e = 0"
    using assms by (auto intro: entities_ok_slot simp: rl_slots_def)
  have pq: "?p \<noteq> 0 \<Longrightarrow> ?q \<noteq> 0 \<Longrightarrow> ?p \<noteq> ?q"
    using assms by (auto simp: entities_ok_def rl_slots_def split: if_splits)
  show ?thesis
  proof (cases "?p = 0")
    case True
    with q null show ?thesis
      by (auto simp: rl_launch_ap_def rl_entity_def rl_ap_request_start_Some ap_asap_def ap_shift_def Let_def
          upd_none_same rl_pre_ap_init_def)
  next
    case False
    with p obtain e where e: "rl_heap w ?p = Some e" "relaunch_limit e = 0" by auto
    show ?thesis
    proof (cases "?q = 0")
      case True
      with False e show ?thesis
        by (simp add: rl_launch_ap_def rl_entity_def rl_free_entity_def ap_asap_def ap_shift_def Let_def)
    next
      case q0: False
      with q obtain e' where "rl_heap w ?q = Some e'" "launch_type e' = LAUNCH_TYPE_ASAP" by auto
      with False e q0 pq show ?thesis
        by (simp add: rl_launch_ap_def rl_entity_def rl_free_entity_def ap_asap_def ap_shift_def Let_def
            rl_pre_ap_set_cancel_def rl_ap_request_start_Some rl_pre_ap_init_def)
    qed
  qed
qed

section \<open>The specification\<close>

text \<open>Per role a request under way and one that waits, the requests started so far, and whose turn it is.\<close>

record launcher =
  under_way :: "rl_role \<Rightarrow> LAUNCH_REQ option"
  waiting :: "rl_role \<Rightarrow> LAUNCH_REQ option"
  started :: "rl_role \<Rightarrow> LAUNCH_REQ list"
  turn :: "rl_role option"

text \<open>A role whose request under way is not ready to give way stays; otherwise the request that waits is
  started, if there is one. The result says whether the role still has something to do.\<close>

definition advance :: "bool \<Rightarrow> rl_role \<Rightarrow> launcher \<Rightarrow> bool \<times> launcher" where
  "advance ready r s =
    (if under_way s r \<noteq> None \<and> \<not> ready then (True, s)
     else case waiting s r of
       None \<Rightarrow> (False, s\<lparr>under_way := (under_way s)(r := None)\<rparr>)
     | Some q \<Rightarrow> (True, s\<lparr>under_way := (under_way s)(r := Some q), waiting := (waiting s)(r := None),
                         started := (started s)(r := started s r @ [q])\<rparr>))"

definition tick :: "(rl_role \<Rightarrow> bool) \<Rightarrow> launcher \<Rightarrow> bool \<times> launcher" where
  "tick ready s =
    (case turn s of
       None \<Rightarrow> (False, s)
     | Some r \<Rightarrow>
         (let (busy, s') = advance (ready r) r s; r' = other_role r in
          if busy then (True, s') else advance (ready r') r' (s'\<lparr>turn := Some r'\<rparr>)))"

definition enter :: "rl_role \<Rightarrow> LAUNCH_REQ \<Rightarrow> launcher \<Rightarrow> u32 \<times> launcher" where
  "enter r q s =
    (let claim = (\<lambda>s. if turn s = None then s\<lparr>turn := Some r\<rparr> else s) in
     if under_way s Sta = None \<and> under_way s Ap = None then
       (1, claim (s\<lparr>under_way := (under_way s)(r := Some q), started := (started s)(r := started s r @ [q])\<rparr>))
     else if waiting s r = None then (2, claim (s\<lparr>waiting := (waiting s)(r := Some q)\<rparr>))
     else (0, s))"

definition launcher_of :: "rl_world \<Rightarrow> launcher" where
  "launcher_of w =
    \<lparr>under_way = (\<lambda>r. map_option rlaunch (rl_heap w (jl_previous r (g_role_launch w)))),
     waiting = (\<lambda>r. map_option rlaunch (rl_heap w (jl_following r (g_role_launch w)))),
     started = (\<lambda>r. starts r (calls w)),
     turn = (let t = pre_entity_type (g_role_launch w) in
             if t = PRE_ENTITY_STA then Some Sta else if t = PRE_ENTITY_AP then Some Ap else None)\<rparr>"

text \<open>When a request under way gives way, in terms of the status that was reported.\<close>

definition sta_ready :: "rl_world \<Rightarrow> bool" where
  "sta_ready w \<longleftrightarrow>
    (let g = g_role_launch w; status = pre_sta_status g in
     g_mrole_csa_flag w \<noteq> RL_STATUS_MROLE_CHANNEL_SWITCHING
     \<and> (g_mrole_csa_flag w = RL_STATUS_MROLE_CHANNEL_SWITCHED
        \<or> status \<in> {RL_STATUS_STA_LAUNCHED, RL_STATUS_STA_LAUNCH_FAILED}
        \<or> (pre_sta_cancel g \<noteq> 0 \<or> jl_following_sta g \<noteq> 0)
          \<and> status \<in> {RL_STATUS_STA_INITING, RL_STATUS_STA_SCAN_OVER, RL_STATUS_STA_CONNECTING, RL_STATUS_STA_DHCPING}))"

definition ap_ready :: "rl_world \<Rightarrow> bool" where
  "ap_ready w \<longleftrightarrow>
    (let g = g_role_launch w; status = pre_ap_status g in
     jl_following_ap g = 0
     \<or> g_mrole_csa_flag w \<noteq> RL_STATUS_MROLE_CHANNEL_SWITCHING
       \<and> (status = RL_STATUS_AP_TRANSMITTED_BCN + RL_STATUS_CANCEL
          \<or> status AND NOT RL_STATUS_CANCEL = RL_STATUS_AP_LAUNCHED))"

fun role_ready :: "rl_world \<Rightarrow> rl_role \<Rightarrow> bool" where
  "role_ready w Sta = sta_ready w" | "role_ready w Ap = ap_ready w"

lemma sta_ready_iff:
  "jl_previous_sta (g_role_launch w) \<noteq> 0 \<Longrightarrow> sta_ready w \<longleftrightarrow> rl_sta_may_next_launch (sta_asap w) \<noteq> 0"
  by (auto simp: sta_ready_def sta_asap_def rl_sta_may_next_launch_def rl_pre_sta_get_status_def
      rl_pre_sta_set_cancel_def Let_def)

lemma ap_ready_iff:
  "jl_previous_ap (g_role_launch w) \<noteq> 0 \<Longrightarrow> ap_ready w \<longleftrightarrow>
    rl_ap_may_next_launch (if jl_following_ap (g_role_launch w) = 0 then 0 else 1) (ap_asap w) \<noteq> 0"
  by (auto simp: ap_ready_def ap_asap_def rl_ap_may_next_launch_def rl_pre_ap_get_status_def
      rl_pre_ap_set_cancel_def Let_def)

section \<open>Advancing refines the specification\<close>

lemma entities_ok_cong:
  "\<lbrakk>rl_heap w' = rl_heap w; rl_slots (g_role_launch w') = rl_slots (g_role_launch w)\<rbrakk>
    \<Longrightarrow> entities_ok w' \<longleftrightarrow> entities_ok w"
  by (simp add: entities_ok_def)

lemma sta_shift_ok: "entities_ok w \<Longrightarrow> entities_ok (sta_shift w)"
  by (auto simp: entities_ok_def rl_slots_def sta_shift_def Let_def ran_def split: if_splits)

lemma ap_shift_ok: "entities_ok w \<Longrightarrow> entities_ok (ap_shift w)"
  by (auto simp: entities_ok_def rl_slots_def ap_shift_def Let_def ran_def split: if_splits)

definition rl_same :: "rl_world \<Rightarrow> rl_world \<Rightarrow> bool" where
  "rl_same w w' \<longleftrightarrow>
    enter_timer (g_role_launch w') = enter_timer (g_role_launch w)
    \<and> rl_timer (g_role_launch w') = rl_timer (g_role_launch w)
    \<and> pre_entity_type (g_role_launch w') = pre_entity_type (g_role_launch w)
    \<and> tmr_results w' = tmr_results w \<and> fiq_off w' = fiq_off w \<and> irq_off w' = irq_off w
    \<and> g_rl_socket w' = g_rl_socket w \<and> g_sta_cache w' = g_sta_cache w"

lemma fun_eq_roles: "f = g \<longleftrightarrow> f Sta = g Sta \<and> f Ap = g Ap"
  by (metis ext rl_role.exhaust)

lemma launcher_of_shift:
  assumes "entities_ok w"
  shows "launcher_of (sta_shift w) = (launcher_of w)
      \<lparr>under_way := (under_way (launcher_of w))(Sta := waiting (launcher_of w) Sta),
       waiting := (waiting (launcher_of w))(Sta := None)\<rparr>"
    and "launcher_of (ap_shift w) = (launcher_of w)
      \<lparr>under_way := (under_way (launcher_of w))(Ap := waiting (launcher_of w) Ap),
       waiting := (waiting (launcher_of w))(Ap := None)\<rparr>"
  using assms
  by (auto simp: launcher_of_def sta_shift_def ap_shift_def Let_def fun_eq_roles entities_ok_null
      entities_ok_def rl_slots_def split: if_splits)

lemma launcher_of_started:
  "launcher_of (sta_started q w) = (launcher_of w)\<lparr>started := (started (launcher_of w))(Sta := started (launcher_of w) Sta @ [q])\<rparr>"
  "launcher_of (ap_started q w) = (launcher_of w)\<lparr>started := (started (launcher_of w))(Ap := started (launcher_of w) Ap @ [q])\<rparr>"
  by (simp_all add: launcher_of_def fun_eq_roles)

lemma launcher_of_asap [simp]:
  "launcher_of (sta_asap w) = launcher_of w" "launcher_of (ap_asap w) = launcher_of w"
  "launcher_of (rl_pre_ap_init w) = launcher_of w"
  by (simp_all add: launcher_of_def sta_asap_def ap_asap_def rl_pre_sta_set_cancel_def rl_pre_ap_set_cancel_def
      rl_pre_ap_init_def fun_eq_roles)

lemma entities_ok_asap [simp]:
  "entities_ok (sta_asap w) = entities_ok w" "entities_ok (ap_asap w) = entities_ok w"
  "entities_ok (rl_pre_ap_init w) = entities_ok w"
  "entities_ok (sta_started q w) = entities_ok w" "entities_ok (ap_started q w) = entities_ok w"
  by (auto intro!: entities_ok_cong simp: sta_asap_def ap_asap_def rl_pre_sta_set_cancel_def
      rl_pre_ap_set_cancel_def rl_pre_ap_init_def rl_slots_def)

lemma under_way_iff:
  assumes "entities_ok w"
  shows "under_way (launcher_of w) r = None \<longleftrightarrow> jl_previous r (g_role_launch w) = 0"
    and "waiting (launcher_of w) r = None \<longleftrightarrow> jl_following r (g_role_launch w) = 0"
  using entities_ok_null [OF assms] entities_ok_slot [OF assms]
  by (cases r; force simp: launcher_of_def rl_slots_def)+

lemma waiting_Some:
  "waiting (launcher_of w) r = Some q \<Longrightarrow> rlaunch (the (rl_heap w (jl_following r (g_role_launch w)))) = q"
  by (auto simp: launcher_of_def)

lemma rl_same_simps:
  "rl_same w (sta_asap w)" "rl_same w (sta_shift w)" "rl_same w (sta_started q w)"
  "rl_same w (ap_asap w)" "rl_same w (ap_shift w)" "rl_same w (ap_started q w)" "rl_same w (rl_pre_ap_init w)"
  by (simp_all add: rl_same_def sta_asap_def sta_shift_def ap_asap_def ap_shift_def rl_pre_sta_set_cancel_def
      rl_pre_ap_set_cancel_def rl_pre_ap_init_def Let_def)

lemma rl_same_trans: "rl_same u v \<Longrightarrow> rl_same v w \<Longrightarrow> rl_same u w"
  by (simp add: rl_same_def)

lemma rl_launch_sta_refines:
  assumes ok: "entities_ok w"
  shows "\<exists>c w'. rl_launch_sta w = Inr (c, w') \<and> entities_ok w' \<and> rl_same w w'
    \<and> advance (sta_ready w) Sta (launcher_of w) = (c \<noteq> 0, launcher_of w') \<and> (c = 0 \<longrightarrow> ap_ready w' = ap_ready w)"
proof -
  let ?g = "g_role_launch w"
  consider (stay) "jl_previous_sta ?g \<noteq> 0" "\<not> sta_ready w"
    | (over) "jl_previous_sta ?g \<noteq> 0 \<longrightarrow> sta_ready w" "waiting (launcher_of w) Sta = None"
    | (promote) q where "jl_previous_sta ?g \<noteq> 0 \<longrightarrow> sta_ready w" "waiting (launcher_of w) Sta = Some q"
    by blast
  then show ?thesis
  proof cases
    case stay
    with ok have "rl_launch_sta w = Inr (1, sta_asap w)" by (simp add: rl_launch_sta_eq sta_ready_iff)
    with stay ok show ?thesis
      using under_way_iff(1) [OF ok, of Sta] by (auto simp: advance_def rl_same_simps)
  next
    case over
    with ok have q: "jl_following_sta ?g = 0" using under_way_iff(2) [OF ok, of Sta] by simp
    then have a: "sta_asap w = w" by (simp add: sta_asap_def)
    with over ok q have "rl_launch_sta w = Inr (0, sta_shift w)"
      by (auto simp: rl_launch_sta_eq sta_ready_iff Let_def)
    moreover have "ap_ready (sta_shift w) = ap_ready w" by (simp add: ap_ready_def sta_shift_def Let_def)
    moreover have "advance (sta_ready w) Sta (launcher_of w) = (False, launcher_of (sta_shift w))"
      using over under_way_iff(1) [OF ok, of Sta]
      by (auto simp: advance_def launcher_of_shift [OF ok]  intro!: launcher.equality)
    ultimately show ?thesis using ok by (auto simp: sta_shift_ok rl_same_simps)
  next
    case promote
    let ?w' = "sta_started q (sta_shift (sta_asap w))"
    have "jl_following_sta ?g \<noteq> 0" using under_way_iff(2) [OF ok, of Sta] promote by simp
    moreover have "rlaunch (the (rl_heap w (jl_following_sta ?g))) = q" using waiting_Some [OF promote(2)] by simp
    ultimately have "rl_launch_sta w = Inr (1, ?w')"
      using promote ok by (auto simp: rl_launch_sta_eq sta_ready_iff Let_def)
    moreover have "advance (sta_ready w) Sta (launcher_of w) = (True, launcher_of ?w')"
      using promote ok under_way_iff(1) [OF ok, of Sta]
      by (auto simp: advance_def launcher_of_shift launcher_of_started)
    moreover have "rl_same w ?w'" by (meson rl_same_simps rl_same_trans)
    ultimately show ?thesis using ok by (auto simp: sta_shift_ok)
  qed
qed

lemma rl_launch_ap_refines:
  assumes ok: "entities_ok w"
  shows "\<exists>c w'. rl_launch_ap w = Inr (c, w') \<and> entities_ok w' \<and> rl_same w w'
    \<and> advance (ap_ready w) Ap (launcher_of w) = (c \<noteq> 0, launcher_of w') \<and> (c = 0 \<longrightarrow> sta_ready w' = sta_ready w)"
proof -
  let ?g = "g_role_launch w"
  consider (stay) "jl_previous_ap ?g \<noteq> 0" "\<not> ap_ready w"
    | (over) "jl_previous_ap ?g \<noteq> 0 \<longrightarrow> ap_ready w" "waiting (launcher_of w) Ap = None"
    | (promote) q where "jl_previous_ap ?g \<noteq> 0 \<longrightarrow> ap_ready w" "waiting (launcher_of w) Ap = Some q"
    by blast
  then show ?thesis
  proof cases
    case stay
    with ok have "rl_launch_ap w = Inr (1, ap_asap w)" by (simp add: rl_launch_ap_eq ap_ready_iff)
    with stay ok show ?thesis
      using under_way_iff(1) [OF ok, of Ap] by (auto simp: advance_def rl_same_simps)
  next
    case over
    with ok have q: "jl_following_ap ?g = 0" using under_way_iff(2) [OF ok, of Ap] by simp
    then have a: "ap_asap w = w" by (simp add: ap_asap_def)
    with over ok q have "rl_launch_ap w = Inr (0, ap_shift w)"
      by (auto simp: rl_launch_ap_eq ap_ready_iff Let_def)
    moreover have "sta_ready (ap_shift w) = sta_ready w" by (simp add: sta_ready_def ap_shift_def Let_def)
    moreover have "advance (ap_ready w) Ap (launcher_of w) = (False, launcher_of (ap_shift w))"
      using over under_way_iff(1) [OF ok, of Ap]
      by (auto simp: advance_def launcher_of_shift [OF ok] intro!: launcher.equality)
    ultimately show ?thesis using ok by (auto simp: ap_shift_ok rl_same_simps)
  next
    case promote
    let ?w' = "ap_started q (rl_pre_ap_init (ap_shift (ap_asap w)))"
    have "jl_following_ap ?g \<noteq> 0" using under_way_iff(2) [OF ok, of Ap] promote by simp
    moreover have "rlaunch (the (rl_heap w (jl_following_ap ?g))) = q" using waiting_Some [OF promote(2)] by simp
    ultimately have "rl_launch_ap w = Inr (1, ?w')"
      using promote ok by (auto simp: rl_launch_ap_eq ap_ready_iff Let_def)
    moreover have "advance (ap_ready w) Ap (launcher_of w) = (True, launcher_of ?w')"
      using promote ok under_way_iff(1) [OF ok, of Ap]
      by (auto simp: advance_def launcher_of_shift launcher_of_started)
    moreover have "rl_same w ?w'" by (meson rl_same_simps rl_same_trans)
    ultimately show ?thesis using ok by (auto simp: ap_shift_ok)
  qed
qed

section \<open>The launch timer\<close>

definition timers_ok :: "rl_world \<Rightarrow> bool" where
  "timers_ok w \<longleftrightarrow>
    t_handle (rl_timer (g_role_launch w)) \<noteq> 0
    \<and> timer_callback2 (rl_timer (g_role_launch w)) = Some Launch_handler
    \<and> timer_callback2 (enter_timer (g_role_launch w)) = Some Enter_handler"

lemma timers_ok_same: "rl_same w w' \<Longrightarrow> timers_ok w' \<longleftrightarrow> timers_ok w"
  by (simp add: rl_same_def timers_ok_def)

lemma launcher_of_turn:
  "launcher_of (upd_rl (pre_entity_type_update (\<lambda>_. PRE_ENTITY_STA)) w) = (launcher_of w)\<lparr>turn := Some Sta\<rparr>"
  "launcher_of (upd_rl (pre_entity_type_update (\<lambda>_. PRE_ENTITY_AP)) w) = (launcher_of w)\<lparr>turn := Some Ap\<rparr>"
  by (simp_all add: launcher_of_def fun_eq_roles)

lemma turn_of:
  "turn (launcher_of w) = (if pre_entity_type (g_role_launch w) = PRE_ENTITY_STA then Some Sta
     else if pre_entity_type (g_role_launch w) = PRE_ENTITY_AP then Some Ap else None)"
  by (simp add: launcher_of_def)

definition turn_valid :: "rl_world \<Rightarrow> bool" where
  "turn_valid w \<longleftrightarrow> pre_entity_type (g_role_launch w) \<in> {PRE_ENTITY_IDLE, PRE_ENTITY_STA, PRE_ENTITY_AP}"

lemma rl_relaunch_chance_eq:
  assumes "timers_ok w"
  shows "\<exists>w'. rl_relaunch_chance w = Inr w' \<and> launcher_of w' = launcher_of w \<and> entities_ok w' = entities_ok w
    \<and> timers_ok w' \<and> enter_timer (g_role_launch w') = enter_timer (g_role_launch w)
    \<and> pre_entity_type (g_role_launch w') = pre_entity_type (g_role_launch w)
    \<and> g_rl_socket w' = g_rl_socket w \<and> g_sta_cache w' = g_sta_cache w \<and> fiq_off w' = fiq_off w \<and> irq_off w' = irq_off w
    \<and> (tmr_results w = [] \<longrightarrow> tmr_results w' = [] \<and> t_active (rl_timer (g_role_launch w')))"
  using assms
  by (auto simp: rl_relaunch_chance_def rtos_is_oneshot_timer_init_def timers_ok_def on_rl_timer_def next_result_def
      rtos_oneshot_reload_timer_def timer_callback2_def launcher_of_def fun_eq_roles Let_def rl_slots_def
      intro!: entities_ok_cong split: list.splits if_splits)

text \<open>What an expiry of the launch timer leaves alone.\<close>

definition rl_quiet :: "rl_world \<Rightarrow> rl_world \<Rightarrow> bool" where
  "rl_quiet w w' \<longleftrightarrow>
    enter_timer (g_role_launch w') = enter_timer (g_role_launch w) \<and> fiq_off w' = fiq_off w \<and> irq_off w' = irq_off w
    \<and> (tmr_results w = [] \<longrightarrow> tmr_results w' = []) \<and> timers_ok w' \<and> (turn_valid w \<longrightarrow> turn_valid w')"

lemma rl_quietI: "rl_same w w' \<Longrightarrow> timers_ok w \<Longrightarrow> rl_quiet w w'"
  by (simp add: rl_quiet_def rl_same_def timers_ok_def turn_valid_def)

lemma rl_quiet_trans: "rl_quiet u v \<Longrightarrow> rl_quiet v w \<Longrightarrow> rl_quiet u w"
  by (simp add: rl_quiet_def)

definition relaunch :: "bool \<Rightarrow> rl_world \<Rightarrow> rl_world result" where
  "relaunch busy w = (if busy then rl_relaunch_chance w else Inr w)"

lemma relaunch_ok:
  assumes "timers_ok w" "entities_ok w"
  shows "\<exists>w'. relaunch busy w = Inr w' \<and> launcher_of w' = launcher_of w \<and> entities_ok w' \<and> rl_quiet w w'
    \<and> g_rl_socket w' = g_rl_socket w \<and> g_sta_cache w' = g_sta_cache w
    \<and> (busy \<and> tmr_results w = [] \<longrightarrow> t_active (rl_timer (g_role_launch w')))"
  using rl_relaunch_chance_eq [OF assms(1)] assms by (cases busy) (auto simp: relaunch_def rl_quiet_def turn_valid_def)

text \<open>The two branches of the handler, for the role whose turn it is.\<close>

fun launch_role :: "rl_role \<Rightarrow> rl_world \<Rightarrow> (u32 \<times> rl_world) result" where
  "launch_role Sta w = rl_launch_sta w" | "launch_role Ap w = rl_launch_ap w"

fun role_turn :: "rl_role \<Rightarrow> u32" where
  "role_turn Sta = PRE_ENTITY_STA" | "role_turn Ap = PRE_ENTITY_AP"

abbreviation set_turn :: "rl_role \<Rightarrow> rl_world \<Rightarrow> rl_world" where
  "set_turn r w \<equiv> upd_rl (pre_entity_type_update (\<lambda>_. role_turn r)) w"

lemma turn_of_iff: "turn (launcher_of w) = Some r \<longleftrightarrow> pre_entity_type (g_role_launch w) = role_turn r"
  by (cases r) (auto simp: turn_of)

lemma launcher_of_set_turn: "launcher_of (set_turn r w) = (launcher_of w)\<lparr>turn := Some r\<rparr>"
  by (cases r) (simp_all add: launcher_of_turn)

lemma rl_launch_handler_turn:
  assumes "turn (launcher_of w) = Some r"
  shows "rl_launch_handler w =
    bind_res (launch_role r w) (\<lambda>(c, w). if c \<noteq> 0 then relaunch True w
      else bind_res (launch_role (other_role r) (set_turn (other_role r) w)) (\<lambda>(c, w). relaunch (c \<noteq> 0) w))"
  using assms
  by (cases r) (auto simp: turn_of_iff rl_launch_handler_def relaunch_def bind_res_def split: sum.splits)

lemma launch_role_refines:
  assumes "entities_ok w"
  shows "\<exists>c w'. launch_role r w = Inr (c, w') \<and> entities_ok w' \<and> rl_same w w'
    \<and> advance (role_ready w r) r (launcher_of w) = (c \<noteq> 0, launcher_of w')
    \<and> (c = 0 \<longrightarrow> role_ready w' (other_role r) = role_ready w (other_role r))"
  using rl_launch_sta_refines [OF assms] rl_launch_ap_refines [OF assms] by (cases r) auto

text \<open>Changing the turn leaves all but the turn.\<close>

lemma set_turn_simps [simp]:
  "entities_ok (upd_rl (pre_entity_type_update f) w) = entities_ok w"
  "timers_ok (upd_rl (pre_entity_type_update f) w) = timers_ok w"
  "sta_ready (upd_rl (pre_entity_type_update f) w) = sta_ready w"
  "ap_ready (upd_rl (pre_entity_type_update f) w) = ap_ready w"
  by (auto intro!: entities_ok_cong simp: rl_slots_def timers_ok_def sta_ready_def ap_ready_def Let_def)

lemma set_turn_ready [simp]: "role_ready (upd_rl (pre_entity_type_update f) w) r = role_ready w r"
  by (cases r) simp_all

definition launched :: "rl_world \<Rightarrow> bool \<times> launcher \<Rightarrow> rl_world \<Rightarrow> bool" where
  "launched w t w' \<longleftrightarrow> launcher_of w' = snd t \<and> entities_ok w' \<and> rl_quiet w w'
    \<and> g_rl_socket w' = g_rl_socket w \<and> g_sta_cache w' = g_sta_cache w
    \<and> (fst t \<and> tmr_results w = [] \<longrightarrow> t_active (rl_timer (g_role_launch w')))"

lemma relaunch_launched:
  assumes "timers_ok w" "entities_ok v" "rl_quiet w v" "g_rl_socket v = g_rl_socket w" "g_sta_cache v = g_sta_cache w"
  shows "\<exists>w'. relaunch busy v = Inr w' \<and> launched w (busy, launcher_of v) w'"
proof -
  have "timers_ok v" using assms(3) by (simp add: rl_quiet_def)
  from relaunch_ok [OF this assms(2), of busy] assms show ?thesis
    by (auto simp: launched_def rl_quiet_def)
qed

lemma rl_launch_handler_ok:
  assumes ok: "entities_ok w" and tm: "timers_ok w"
  shows "\<exists>w'. rl_launch_handler w = Inr w' \<and> launched w (tick (role_ready w) (launcher_of w)) w'"
proof (cases "turn (launcher_of w)")
  case None
  then have "rl_launch_handler w = Inr w" by (auto simp: rl_launch_handler_def turn_of split: if_splits)
  moreover have "tick (role_ready w) (launcher_of w) = (False, launcher_of w)" using None by (simp add: tick_def)
  ultimately show ?thesis using ok tm by (simp add: launched_def rl_quiet_def)
next
  case (Some r)
  obtain c v where v: "launch_role r w = Inr (c, v)" "entities_ok v" "rl_same w v"
    "advance (role_ready w r) r (launcher_of w) = (c \<noteq> 0, launcher_of v)"
    "c = 0 \<longrightarrow> role_ready v (other_role r) = role_ready w (other_role r)"
    using launch_role_refines [OF ok] by blast
  have q: "rl_quiet w v" and s: "g_rl_socket v = g_rl_socket w" "g_sta_cache v = g_sta_cache w"
    using v(3) tm by (auto intro: rl_quietI simp: rl_same_def)
  show ?thesis
  proof (cases "c = 0")
    case False
    with v Some have "tick (role_ready w) (launcher_of w) = (True, launcher_of v)" by (simp add: tick_def)
    with relaunch_launched [OF tm v(2) q s, of True] v(1) False show ?thesis
      by (simp add: rl_launch_handler_turn [OF Some])
  next
    case True
    let ?r = "other_role r" and ?v = "set_turn (other_role r) v"
    have "entities_ok ?v" using v(2) by simp
    from launch_role_refines [OF this, of ?r]
    obtain d u where u: "launch_role ?r ?v = Inr (d, u)" "entities_ok u" "rl_same ?v u"
      "advance (role_ready ?v ?r) ?r (launcher_of ?v) = (d \<noteq> 0, launcher_of u)" by blast
    have "turn_valid u" using u(3) by (cases r) (simp_all add: turn_valid_def rl_same_def)
    then have "rl_quiet w u" using u(3) q by (auto simp: rl_quiet_def rl_same_def timers_ok_def)
    moreover have "g_rl_socket u = g_rl_socket w" "g_sta_cache u = g_sta_cache w"
      using u(3) s by (auto simp: rl_same_def)
    ultimately have "\<exists>w'. relaunch (d \<noteq> 0) u = Inr w' \<and> launched w (d \<noteq> 0, launcher_of u) w'"
      using tm u(2) by (intro relaunch_launched)
    moreover have "tick (role_ready w) (launcher_of w) = (d \<noteq> 0, launcher_of u)"
      using u(4) v(4,5) Some True by (simp add: tick_def launcher_of_set_turn)
    ultimately show ?thesis using u(1) v(1) True by (simp add: rl_launch_handler_turn [OF Some])
  qed
qed

section \<open>Entering a request refines the specification\<close>

text \<open>\<open>os_zalloc\<close> returns null or a block that is not allocated.\<close>

definition fresh_alloc :: "((u32 \<rightharpoonup> RL_ENTITY_T) \<Rightarrow> u32) \<Rightarrow> bool" where
  "fresh_alloc zalloc \<longleftrightarrow> (\<forall>h. zalloc h \<noteq> 0 \<longrightarrow> h (zalloc h) = None)"

lemma rl_start_eq:
  "rl_start w = Inl Assert_failed \<and> tmr_results w \<noteq> [] \<or>
   (\<exists>rs. rl_start w = Inr (w\<lparr>tmr_results := rs, g_role_launch := (g_role_launch w)
       \<lparr>rl_timer := (rl_timer (g_role_launch w))\<lparr>t_active := True\<rparr>, rl_timer_flag := RL_TIMER_START\<rparr>\<rparr>)
     \<and> (tmr_results w = [] \<longrightarrow> rs = []))"
  by (cases w; cases "g_role_launch w"; cases "rl_timer (g_role_launch w)")
    (auto simp: rl_start_def on_rl_timer_def next_result_def rtos_stop_oneshot_timer_def
      rtos_start_oneshot_timer_def Let_def split: list.splits)

definition plain :: "LAUNCH_REQ \<Rightarrow> u32 \<Rightarrow> RL_ENTITY_T" where
  "plain q cb = \<lparr>launch_type = LAUNCH_TYPE_ASAP, relaunch_limit = 0, launch_count = 0, rlaunch = q, completion_cb = cb\<rparr>"

lemma rl_alloc_entity_eq:
  "rl_alloc_entity zalloc q cb w = (if zalloc (rl_heap w) = 0 then Inl Assert_failed
     else Inr (zalloc (rl_heap w), w\<lparr>rl_heap := (rl_heap w)(zalloc (rl_heap w) \<mapsto> plain q cb)\<rparr>))"
  by (simp add: rl_alloc_entity_def plain_def Let_def)

text \<open>A new entity in an empty slot.\<close>

fun put_previous :: "rl_role \<Rightarrow> u32 \<Rightarrow> RL_T \<Rightarrow> RL_T" where
  "put_previous Sta p = jl_previous_sta_update (\<lambda>_. p)" | "put_previous Ap p = jl_previous_ap_update (\<lambda>_. p)"

fun put_following :: "rl_role \<Rightarrow> u32 \<Rightarrow> RL_T \<Rightarrow> RL_T" where
  "put_following Sta p = jl_following_sta_update (\<lambda>_. p)" | "put_following Ap p = jl_following_ap_update (\<lambda>_. p)"

definition filled :: "(u32 \<Rightarrow> RL_T \<Rightarrow> RL_T) \<Rightarrow> u32 \<Rightarrow> RL_ENTITY_T \<Rightarrow> rl_world \<Rightarrow> rl_world" where
  "filled put p e w = w\<lparr>rl_heap := (rl_heap w)(p \<mapsto> e), g_role_launch := put p (g_role_launch w)\<rparr>"

lemma ran_upd: "m p = None \<Longrightarrow> ran (m(p \<mapsto> e)) = insert e (ran m)"
  by (rule ran_map_upd)

lemma filled_ok:
  assumes "entities_ok w" "rl_heap w p = None" "p \<noteq> 0" "plain_entity e"
  shows "jl_previous r (g_role_launch w) = 0 \<Longrightarrow> entities_ok (filled (put_previous r) p e w)"
    and "jl_following r (g_role_launch w) = 0 \<Longrightarrow> entities_ok (filled (put_following r) p e w)"
proof -
  have "p \<notin> set (rl_slots (g_role_launch w))" using assms(2,3) entities_ok_slot [OF assms(1)] by force
  then show "jl_previous r (g_role_launch w) = 0 \<Longrightarrow> entities_ok (filled (put_previous r) p e w)"
    "jl_following r (g_role_launch w) = 0 \<Longrightarrow> entities_ok (filled (put_following r) p e w)"
    using assms
    by (cases r; auto simp: entities_ok_def filled_def rl_slots_def ran_upd split: if_splits)+
qed

lemma filled_launcher:
  assumes "entities_ok w" "rl_heap w p = None" "p \<noteq> 0"
  shows "launcher_of (filled (put_previous r) p (plain q cb) w) =
      (launcher_of w)\<lparr>under_way := (under_way (launcher_of w))(r := Some q)\<rparr>"
    and "launcher_of (filled (put_following r) p (plain q cb) w) =
      (launcher_of w)\<lparr>waiting := (waiting (launcher_of w))(r := Some q)\<rparr>"
proof -
  have "p \<notin> set (rl_slots (g_role_launch w))" using assms(2,3) entities_ok_slot [OF assms(1)] by force
  then show "launcher_of (filled (put_previous r) p (plain q cb) w) =
      (launcher_of w)\<lparr>under_way := (under_way (launcher_of w))(r := Some q)\<rparr>"
    "launcher_of (filled (put_following r) p (plain q cb) w) =
      (launcher_of w)\<lparr>waiting := (waiting (launcher_of w))(r := Some q)\<rparr>"
    by (cases r; auto simp: launcher_of_def filled_def fun_eq_roles rl_slots_def plain_def)+
qed

text \<open>The two entry functions, for a role.\<close>

fun request_enter ::
  "rl_role \<Rightarrow> ((u32 \<rightharpoonup> RL_ENTITY_T) \<Rightarrow> u32) \<Rightarrow> LAUNCH_REQ \<Rightarrow> u32 \<Rightarrow> rl_world \<Rightarrow> (u32 \<times> rl_world) result" where
  "request_enter Sta = sta_request_enter" | "request_enter Ap = ap_request_enter"

fun role_started :: "rl_role \<Rightarrow> LAUNCH_REQ \<Rightarrow> rl_world \<Rightarrow> rl_world" where
  "role_started Sta = sta_started" | "role_started Ap = ap_started"

definition masked :: "rl_world \<Rightarrow> rl_world" where
  "masked w = w\<lparr>fiq_off := True, irq_off := True\<rparr>"

definition enter_end :: "rl_world \<Rightarrow> rl_role \<Rightarrow> u32 \<Rightarrow> rl_world \<Rightarrow> rl_world" where
  "enter_end w0 r p w = int_restore (fiq_off w0, irq_off w0) (claim_turn p (role_turn r) w)"

lemma request_enter_eq:
  "request_enter r zalloc q cb w =
    (let w' = masked w; p = zalloc (rl_heap w); g = g_role_launch w in
     if jl_previous Sta g = 0 \<and> jl_previous Ap g = 0 then
       (if p = 0 then Inl Assert_failed
        else Inr (1, enter_end w r p (role_started r q (filled (put_previous r) p (plain q cb) w'))))
     else if jl_following r g = 0 then
       (if p = 0 then Inl Assert_failed
        else bind_res (rl_start (filled (put_following r) p (plain q cb) w')) (\<lambda>w'. Inr (2, enter_end w r p w')))
     else bind_res (rl_start w') (\<lambda>w'. Inr (0, enter_end w r 0 w')))"
  by (cases r)
    (auto simp: sta_request_enter_def ap_request_enter_def int_disable_def masked_def Let_def rl_alloc_entity_eq
      rl_sta_request_start_Some rl_ap_request_start_Some filled_def enter_end_def bind_res_def split: sum.splits)


lemma masked_simps [simp]:
  "rl_heap (masked w) = rl_heap w" "g_role_launch (masked w) = g_role_launch w" "tmr_results (masked w) = tmr_results w"
  "g_rl_socket (masked w) = g_rl_socket w" "g_sta_cache (masked w) = g_sta_cache w"
  "entities_ok (masked w) = entities_ok w" "launcher_of (masked w) = launcher_of w" "fiq_off (masked w)" "irq_off (masked w)"
  by (simp_all add: masked_def entities_ok_def launcher_of_def)

lemma filled_simps [simp]:
  "rl_timer (g_role_launch (filled (put_previous r) p e w)) = rl_timer (g_role_launch w)"
  "rl_timer (g_role_launch (filled (put_following r) p e w)) = rl_timer (g_role_launch w)"
  "enter_timer (g_role_launch (filled (put_previous r) p e w)) = enter_timer (g_role_launch w)"
  "enter_timer (g_role_launch (filled (put_following r) p e w)) = enter_timer (g_role_launch w)"
  "tmr_results (filled put p e w) = tmr_results w"
  "fiq_off (filled put p e w) = fiq_off w" "irq_off (filled put p e w) = irq_off w"
  "pre_entity_type (g_role_launch (filled (put_previous r) p e w)) = pre_entity_type (g_role_launch w)"
  "pre_entity_type (g_role_launch (filled (put_following r) p e w)) = pre_entity_type (g_role_launch w)"
  "g_rl_socket (filled put p e w) = g_rl_socket w" "g_sta_cache (filled put p e w) = g_sta_cache w"
  by (cases r; simp add: filled_def)+

lemma role_started_simps [simp]:
  "entities_ok (role_started r q w) = entities_ok w"
  "launcher_of (role_started r q w) = (launcher_of w)\<lparr>started := (started (launcher_of w))(r := started (launcher_of w) r @ [q])\<rparr>"
  "rl_same w (role_started r q w)"
  by (cases r; simp add: launcher_of_started rl_same_simps)+

lemma enter_end_simps [simp]:
  "entities_ok (enter_end w0 r p w) = entities_ok w"
  "rl_timer (g_role_launch (enter_end w0 r p w)) = rl_timer (g_role_launch w)"
  "enter_timer (g_role_launch (enter_end w0 r p w)) = enter_timer (g_role_launch w)"
  "tmr_results (enter_end w0 r p w) = tmr_results w"
  "g_rl_socket (enter_end w0 r p w) = g_rl_socket w" "g_sta_cache (enter_end w0 r p w) = g_sta_cache w"
  "fiq_off w \<Longrightarrow> fiq_off (enter_end w0 r p w) = fiq_off w0"
  "irq_off w \<Longrightarrow> irq_off (enter_end w0 r p w) = irq_off w0"
  by (auto simp: enter_end_def claim_turn_def int_restore_def intro!: entities_ok_cong simp: rl_slots_def)

lemma enter_end_launcher:
  assumes "pre_entity_type (g_role_launch w) \<in> {PRE_ENTITY_IDLE, PRE_ENTITY_STA, PRE_ENTITY_AP}"
  shows "launcher_of (enter_end w0 r p w) =
    (if p \<noteq> 0 \<and> turn (launcher_of w) = None then (launcher_of w)\<lparr>turn := Some r\<rparr> else launcher_of w)"
  using assms
  by (cases r) (auto simp: enter_end_def claim_turn_def int_restore_def launcher_of_def fun_eq_roles)

definition entered :: "rl_world \<Rightarrow> u32 \<times> launcher \<Rightarrow> u32 \<Rightarrow> rl_world \<Rightarrow> bool" where
  "entered w t ret w' \<longleftrightarrow> t = (ret, launcher_of w') \<and> entities_ok w' \<and> rl_quiet w w'
    \<and> g_rl_socket w' = g_rl_socket w \<and> g_sta_cache w' = g_sta_cache w
    \<and> t_active (rl_timer (g_role_launch w')) = (ret \<noteq> 1 \<or> t_active (rl_timer (g_role_launch w)))"

definition timer_on :: "rl_world \<Rightarrow> rl_world \<Rightarrow> bool" where
  "timer_on w v \<longleftrightarrow> entities_ok v = entities_ok w \<and> launcher_of v = launcher_of w
    \<and> pre_entity_type (g_role_launch v) = pre_entity_type (g_role_launch w)
    \<and> t_active (rl_timer (g_role_launch v)) \<and> (timers_ok w \<longrightarrow> rl_quiet w v)
    \<and> g_rl_socket v = g_rl_socket w \<and> g_sta_cache v = g_sta_cache w"

lemma rl_start_ok:
  "rl_start w = Inl Assert_failed \<and> tmr_results w \<noteq> [] \<or> (\<exists>v. rl_start w = Inr v \<and> timer_on w v)"
proof (cases "rl_start w = Inl Assert_failed \<and> tmr_results w \<noteq> []")
  case False
  then obtain rs where "rl_start w = Inr (w\<lparr>tmr_results := rs, g_role_launch := (g_role_launch w)
      \<lparr>rl_timer := (rl_timer (g_role_launch w))\<lparr>t_active := True\<rparr>, rl_timer_flag := RL_TIMER_START\<rparr>\<rparr>)"
    "tmr_results w = [] \<longrightarrow> rs = []"
    using rl_start_eq [of w] by blast
  moreover have "timer_on w (w\<lparr>tmr_results := rs, g_role_launch := (g_role_launch w)
      \<lparr>rl_timer := (rl_timer (g_role_launch w))\<lparr>t_active := True\<rparr>, rl_timer_flag := RL_TIMER_START\<rparr>\<rparr>)"
    using calculation(2)
    by (auto simp: timer_on_def rl_quiet_def timers_ok_def timer_callback2_def launcher_of_def fun_eq_roles
        entities_ok_def rl_slots_def turn_valid_def split: if_splits)
  ultimately show ?thesis by blast
qed simp

lemma enter_end_turn: "turn_valid v \<Longrightarrow> turn_valid (enter_end w r p v)"
  by (cases r) (auto simp: turn_valid_def enter_end_def claim_turn_def int_restore_def)

lemma enter_end_quiet: "rl_quiet (masked w) v \<Longrightarrow> rl_quiet w (enter_end w r p v)"
  using enter_end_turn [of v w r p] by (auto simp: rl_quiet_def timers_ok_def turn_valid_def)

lemma masked_quiet: "timers_ok w \<Longrightarrow> rl_quiet (masked w) (masked w)"
  by (simp add: rl_quiet_def timers_ok_def)

lemma filled_quiet:
  "timers_ok w \<Longrightarrow> rl_quiet (masked w) (filled (put_previous r) p e (masked w))"
  "timers_ok w \<Longrightarrow> rl_quiet (masked w) (filled (put_following r) p e (masked w))"
  by (simp_all add: rl_quiet_def timers_ok_def turn_valid_def)

text \<open>The end of the two functions, after a step that had its effect on the slots.\<close>

lemma entered_end:
  assumes "rl_quiet (masked w) v" "entities_ok v" "pre_entity_type (g_role_launch v) = pre_entity_type (g_role_launch w)"
    and "turn_valid w" "g_rl_socket v = g_rl_socket w" "g_sta_cache v = g_sta_cache w"
    and "t_active (rl_timer (g_role_launch v)) = (ret \<noteq> 1 \<or> t_active (rl_timer (g_role_launch w)))"
    and "t = (ret, if p \<noteq> 0 \<and> turn (launcher_of v) = None then (launcher_of v)\<lparr>turn := Some r\<rparr> else launcher_of v)"
  shows "entered w t ret (enter_end w r p v)"
proof -
  have "turn_valid v" using assms(3,4) by (simp add: turn_valid_def)
  then show ?thesis using assms enter_end_launcher [of v w r p, folded turn_valid_def]
    by (simp add: entered_def enter_end_quiet)
qed

lemma request_enter_ok:
  assumes ok: "entities_ok w" "timers_ok w" "turn_valid w" and fresh: "fresh_alloc zalloc"
  shows "request_enter r zalloc q cb w = Inl Assert_failed \<and> (zalloc (rl_heap w) = 0 \<and> 0 \<in> set (rl_slots (g_role_launch w)) \<or> tmr_results w \<noteq> []) \<or>
    (\<exists>ret w'. request_enter r zalloc q cb w = Inr (ret, w') \<and> entered w (enter r q (launcher_of w)) ret w')"
proof -
  let ?p = "zalloc (rl_heap w)" and ?g = "g_role_launch w" and ?m = "masked w" and ?e = "plain q cb"
  have uw: "under_way (launcher_of w) s = None \<longleftrightarrow> jl_previous s ?g = 0"
    and wt: "waiting (launcher_of w) s = None \<longleftrightarrow> jl_following s ?g = 0" for s
    using under_way_iff [OF ok(1)] by simp_all
  have e: "plain_entity ?e" by (simp add: plain_entity_def plain_def)
  have p: "rl_heap ?m ?p = None" if "?p \<noteq> 0" using fresh that by (simp add: fresh_alloc_def)
  have m: "entities_ok ?m" using ok(1) by simp
  consider (short) "?p = 0" "jl_previous Sta ?g = 0 \<and> jl_previous Ap ?g = 0 \<or> jl_following r ?g = 0"
    | (first) "?p \<noteq> 0" "jl_previous Sta ?g = 0" "jl_previous Ap ?g = 0"
    | (second) "?p \<noteq> 0" "\<not> (jl_previous Sta ?g = 0 \<and> jl_previous Ap ?g = 0)" "jl_following r ?g = 0"
    | (full) "\<not> (jl_previous Sta ?g = 0 \<and> jl_previous Ap ?g = 0)" "jl_following r ?g \<noteq> 0"
    by blast
  then show ?thesis
  proof cases
    case short
    then have "0 \<in> set (rl_slots ?g)" by (cases r) (auto simp: rl_slots_def)
    with short show ?thesis by (auto simp: request_enter_eq Let_def)
  next
    case first
    let ?f = "filled (put_previous r) ?p ?e ?m"
    have pr: "jl_previous r (g_role_launch ?m) = 0" using first by (cases r) simp_all
    have same: "rl_same ?f (role_started r q ?f)" by simp
    have "entered w (enter r q (launcher_of w)) 1 (enter_end w r ?p (role_started r q ?f))"
    proof (rule entered_end)
      show "rl_quiet ?m (role_started r q ?f)"
        using rl_quiet_trans [OF filled_quiet(1) [OF ok(2), of r ?p ?e] rl_quietI [OF same]] filled_quiet(1) [OF ok(2), of r ?p ?e]
        by (simp add: rl_quiet_def)
      show "enter r q (launcher_of w) = (1, if ?p \<noteq> 0 \<and> turn (launcher_of (role_started r q ?f)) = None
          then (launcher_of (role_started r q ?f))\<lparr>turn := Some r\<rparr> else launcher_of (role_started r q ?f))"
        using first uw by (simp add: enter_def filled_launcher(1) [OF m p [OF first(1)] first(1)])
    qed (use same first ok filled_ok(1) [OF m p [OF first(1)] first(1) e pr] in \<open>simp_all add: rl_same_def\<close>)
    then show ?thesis using first by (simp add: request_enter_eq Let_def)
  next
    case second
    let ?f = "filled (put_following r) ?p ?e ?m"
    have fr: "jl_following r (g_role_launch ?m) = 0" using second by simp
    show ?thesis
    proof (cases "rl_start ?f = Inl Assert_failed \<and> tmr_results ?f \<noteq> []")
      case True
      with second show ?thesis by (auto simp: request_enter_eq Let_def)
    next
      case False
      then obtain v where v: "rl_start ?f = Inr v" "timer_on ?f v" using rl_start_ok [of ?f] by blast
      have "entered w (enter r q (launcher_of w)) 2 (enter_end w r ?p v)"
      proof (rule entered_end)
        have t: "timers_ok ?f" using filled_quiet(2) [OF ok(2), of r ?p ?e] by (simp add: rl_quiet_def)
        show "rl_quiet ?m v"
          using rl_quiet_trans [OF filled_quiet(2) [OF ok(2), of r ?p ?e]] v(2) t by (simp add: timer_on_def)
        show "enter r q (launcher_of w) = (2, if ?p \<noteq> 0 \<and> turn (launcher_of v) = None
            then (launcher_of v)\<lparr>turn := Some r\<rparr> else launcher_of v)"
          using second uw wt v(2)
          by (auto simp: enter_def timer_on_def filled_launcher(2) [OF m p [OF second(1)] second(1)])
      qed (use v(2) ok filled_ok(2) [OF m p [OF second(1)] second(1) e fr] in \<open>simp_all add: timer_on_def\<close>)
      then show ?thesis using second v(1) by (auto simp: request_enter_eq Let_def)
    qed
  next
    case full
    show ?thesis
    proof (cases "rl_start ?m = Inl Assert_failed \<and> tmr_results ?m \<noteq> []")
      case True
      with full show ?thesis by (auto simp: request_enter_eq Let_def)
    next
      case False
      then obtain v where v: "rl_start ?m = Inr v" "timer_on ?m v" using rl_start_ok [of ?m] by blast
      have "entered w (enter r q (launcher_of w)) 0 (enter_end w r 0 v)"
      proof (rule entered_end)
        have "timers_ok ?m" using masked_quiet [OF ok(2)] by (simp add: rl_quiet_def)
        then show "rl_quiet ?m v" using v(2) by (simp add: timer_on_def)
        show "enter r q (launcher_of w) = (0, if (0::u32) \<noteq> 0 \<and> turn (launcher_of v) = None
            then (launcher_of v)\<lparr>turn := Some r\<rparr> else launcher_of v)"
          using full uw wt v(2) by (auto simp: enter_def timer_on_def)
      qed (use v(2) ok in \<open>simp_all add: timer_on_def\<close>)
      then show ?thesis using full v(1) by (auto simp: request_enter_eq Let_def)
    qed
  qed
qed

end
