(* ===== verification/Role_Launch_Run.thy ===== *)
theory Role_Launch_Run
  imports Role_Launch_Spec "HOL-Library.Sublist"
begin

text \<open>
  The role launcher over runs of events: every event keeps the invariant and takes steps of the
  specification, so every run is safe and has the timer active whenever a request waits; an expiry starts the
  request that waits when what is under way gives way; interrupts are restored; a lost connection is entered again.
\<close>

section \<open>Steps of the specification\<close>

text \<open>An expiry of the launch timer, whatever is ready then, and the entry of a request.\<close>

inductive launcher_step :: "launcher \<Rightarrow> launcher \<Rightarrow> bool" where
  step_tick: "launcher_step s (snd (tick ready s))"
| step_enter: "launcher_step s (snd (enter r q s))"

inductive_cases launcher_stepE: "launcher_step s s'"

definition launcher_inv :: "launcher \<Rightarrow> bool" where
  "launcher_inv s \<longleftrightarrow>
    (turn s = None \<longrightarrow> (\<forall>r. under_way s r = None))
    \<and> (under_way s Sta = None \<and> under_way s Ap = None \<longrightarrow> (\<forall>r. waiting s r = None))"

text \<open>The requests of a role in the order they were accepted: started, or waiting.\<close>

definition accepted :: "rl_role \<Rightarrow> launcher \<Rightarrow> LAUNCH_REQ list" where
  "accepted r s = started s r @ (case waiting s r of None \<Rightarrow> [] | Some q \<Rightarrow> [q])"

lemma all_roles: "(\<forall>r. P r) \<longleftrightarrow> P Sta \<and> P Ap"
  by (metis rl_role.exhaust)

lemma other_role_neq [simp]: "other_role r \<noteq> r" "r \<noteq> other_role r" "other_role (other_role r) = r"
  by (cases r; simp)+

lemma role_cases: "s = r \<or> s = other_role r"
  by (cases r; cases s) simp_all

lemma advance_accepted: "accepted r (snd (advance ready r' s)) = accepted r s"
  by (auto simp: advance_def accepted_def split: option.splits)

lemma accepted_turn [simp]: "accepted r (s\<lparr>turn := t\<rparr>) = accepted r s"
  by (simp add: accepted_def)

lemma tick_accepted: "accepted r (snd (tick ready s)) = accepted r s"
  using advance_accepted [of r]
  by (auto simp: tick_def Let_def split: option.splits prod.splits) (metis accepted_turn snd_conv)+

lemma enter_accepted:
  assumes "launcher_inv s"
  shows "accepted r (snd (enter r' q s)) = accepted r s @ (if r = r' \<and> fst (enter r' q s) \<noteq> 0 then [q] else [])"
  using assms by (auto simp: enter_def accepted_def launcher_inv_def Let_def split: option.splits)

text \<open>A role that gave way has nothing left; a role that is busy has a request under way.\<close>

lemma advance_result:
  "advance ready r s = (busy, s') \<Longrightarrow>
    turn s' = turn s \<and> under_way s' (other_role r) = under_way s (other_role r)
    \<and> waiting s' (other_role r) = waiting s (other_role r)
    \<and> (busy \<longrightarrow> under_way s' r \<noteq> None) \<and> (\<not> busy \<longrightarrow> under_way s' r = None \<and> waiting s' r = None)"
  by (auto simp: advance_def split: if_splits option.splits)

lemma tick_result:
  assumes "launcher_inv s" "tick ready s = (busy, s')"
  shows "launcher_inv s' \<and> (\<not> busy \<longrightarrow> (\<forall>r. waiting s' r = None))"
proof (cases "turn s")
  case None
  with assms show ?thesis by (auto simp: tick_def launcher_inv_def)
next
  case (Some r)
  obtain b v where v: "advance (ready r) r s = (b, v)" by fastforce
  obtain c u where u: "advance (ready (other_role r)) (other_role r) (v\<lparr>turn := Some (other_role r)\<rparr>) = (c, u)"
    by fastforce
  from advance_result [OF v] advance_result [OF u] assms(2) Some v u show ?thesis
    by (cases r) (auto simp: tick_def launcher_inv_def all_roles Let_def split: if_splits)
qed

lemma enter_inv: "launcher_inv s \<Longrightarrow> launcher_inv (snd (enter r q s))"
  by (cases r) (auto simp: enter_def launcher_inv_def Let_def all_roles)

lemma tick_inv: "launcher_inv s \<Longrightarrow> launcher_inv (snd (tick ready s))"
  using tick_result [of s ready] by (metis surjective_pairing)

lemma launcher_step_inv: "launcher_step s s' \<Longrightarrow> launcher_inv s \<Longrightarrow> launcher_inv s'"
  by (auto elim!: launcher_stepE simp: tick_inv enter_inv)

section \<open>The invariant of the code\<close>

definition rl_inv :: "rl_world \<Rightarrow> bool" where
  "rl_inv w \<longleftrightarrow> entities_ok w \<and> timers_ok w \<and> turn_valid w \<and> launcher_inv (launcher_of w)"

text \<open>The launch timer is active whenever a request waits.\<close>

definition armed :: "rl_world \<Rightarrow> bool" where
  "armed w \<longleftrightarrow> (\<forall>r. waiting (launcher_of w) r \<noteq> None \<longrightarrow> t_active (rl_timer (g_role_launch w)))"

definition masks_kept :: "rl_world \<Rightarrow> rl_world \<Rightarrow> bool" where
  "masks_kept w w' \<longleftrightarrow> fiq_off w' = fiq_off w \<and> irq_off w' = irq_off w"

text \<open>Steps that do not touch the slots.\<close>

definition rl_outside :: "rl_world \<Rightarrow> rl_world \<Rightarrow> bool" where
  "rl_outside w w' \<longleftrightarrow>
    rl_heap w' = rl_heap w \<and> rl_slots (g_role_launch w') = rl_slots (g_role_launch w)
    \<and> pre_entity_type (g_role_launch w') = pre_entity_type (g_role_launch w)
    \<and> (\<forall>r. starts r (calls w') = starts r (calls w))
    \<and> rl_timer (g_role_launch w') = rl_timer (g_role_launch w)
    \<and> timer_callback2 (enter_timer (g_role_launch w')) = timer_callback2 (enter_timer (g_role_launch w))
    \<and> (tmr_results w = [] \<longrightarrow> tmr_results w' = [])"

lemma rl_outside_launcher: "rl_outside w w' \<Longrightarrow> launcher_of w' = launcher_of w"
  by (simp add: rl_outside_def launcher_of_def fun_eq_roles rl_slots_def)

lemma rl_outside_inv: "rl_outside w w' \<Longrightarrow> rl_inv w' = rl_inv w"
  using rl_outside_launcher [of w w']
  by (auto simp: rl_inv_def rl_outside_def entities_ok_def timers_ok_def turn_valid_def)

lemma rl_outside_armed: "rl_outside w w' \<Longrightarrow> armed w' = armed w"
  using rl_outside_launcher [of w w'] by (simp add: armed_def rl_outside_def)

lemma rl_outside_refl [simp]: "rl_outside w w"
  by (simp add: rl_outside_def)

lemma rl_outside_trans: "rl_outside u v \<Longrightarrow> rl_outside v w \<Longrightarrow> rl_outside u w"
  by (simp add: rl_outside_def)

text \<open>What an event does: it ends in a failed assertion, only where memory is short or a timer command fails,
  or it takes steps of the specification.\<close>

definition roomy :: "((u32 \<rightharpoonup> RL_ENTITY_T) \<Rightarrow> u32) \<Rightarrow> bool" where
  "roomy zalloc \<longleftrightarrow> (\<forall>h. card (dom h) < 4 \<longrightarrow> zalloc h \<noteq> 0)"

lemma roomy_slot:
  assumes "roomy zalloc" "entities_ok w" "0 \<in> set (rl_slots (g_role_launch w))"
  shows "zalloc (rl_heap w) \<noteq> 0"
proof -
  have "card (set (rl_slots (g_role_launch w)) - {0}) < card (set (rl_slots (g_role_launch w)))"
    using assms(3) by (intro card_Diff1_less) simp_all
  moreover have "card (set (rl_slots (g_role_launch w))) \<le> length (rl_slots (g_role_launch w))" by (rule card_length)
  ultimately have "card (dom (rl_heap w)) < 4" using assms(2) by (simp add: entities_ok_def rl_slots_def)
  with assms(1) show ?thesis by (simp add: roomy_def)
qed

definition calm :: "((u32 \<rightharpoonup> RL_ENTITY_T) \<Rightarrow> u32) \<Rightarrow> rl_world \<Rightarrow> bool" where
  "calm zalloc w \<longleftrightarrow> tmr_results w = [] \<and> roomy zalloc"

definition ev_post :: "((u32 \<rightharpoonup> RL_ENTITY_T) \<Rightarrow> u32) \<Rightarrow> rl_world \<Rightarrow> rl_world result \<Rightarrow> bool" where
  "ev_post zalloc w x \<longleftrightarrow>
    (case x of
       Inl e \<Rightarrow> e = Assert_failed \<and> \<not> calm zalloc w
     | Inr w' \<Rightarrow> rl_inv w' \<and> launcher_step\<^sup>*\<^sup>* (launcher_of w) (launcher_of w')
         \<and> (tmr_results w = [] \<longrightarrow> tmr_results w' = [] \<and> (armed w \<longrightarrow> armed w')))"

lemma ev_post_outside: "rl_inv w \<Longrightarrow> rl_outside w w' \<Longrightarrow> ev_post zalloc w (Inr w')"
  by (simp add: ev_post_def rl_outside_inv rl_outside_launcher rl_outside_armed) (simp add: rl_outside_def)

lemma ev_post_bind:
  assumes "ev_post zalloc w x" "\<And>w'. x = Inr w' \<Longrightarrow> rl_inv w' \<Longrightarrow> ev_post zalloc w' (f w')"
  shows "ev_post zalloc w (bind_res x f)"
proof (cases x)
  case (Inr w')
  with assms have "ev_post zalloc w' (f w')" by (simp add: ev_post_def)
  with assms(1) Inr show ?thesis
    by (auto simp: ev_post_def calm_def split: sum.splits)
qed (use assms in \<open>simp add: ev_post_def\<close>)

section \<open>Every event keeps the invariant and refines the specification\<close>

lemma set_status_outside:
  "rl_outside w (snd (rl_pre_sta_set_status s w))"
  "rl_outside w (snd (rl_pre_ap_set_status s w))"
  by (simp_all add: rl_outside_def rl_slots_def rl_pre_sta_set_status_def rl_pre_ap_set_status_def
      int_disable_def int_restore_def Let_def)

lemma on_enter_timer_outside:
  assumes "on_enter_timer op w = (err, v)" "\<And>pass t. timer_callback2 (snd (op pass t)) = timer_callback2 t"
  shows "rl_outside w v \<and> masks_kept w v \<and> g_rl_socket v = g_rl_socket w
    \<and> (tmr_results w = [] \<longrightarrow> op True (enter_timer (g_role_launch w)) = (err, enter_timer (g_role_launch v)))
    \<and> (\<exists>pass. op pass (enter_timer (g_role_launch w)) = (err, enter_timer (g_role_launch v)))"
proof -
  obtain pass u where u: "next_result w = (pass, u)" by fastforce
  obtain e t where t: "op pass (enter_timer (g_role_launch u)) = (e, t)" by fastforce
  have v: "v = upd_rl (enter_timer_update (\<lambda>_. t)) u" "err = e"
    using assms(1) u t by (simp_all add: on_enter_timer_def)
  have cb: "timer_callback2 t = timer_callback2 (enter_timer (g_role_launch u))"
    using assms(2) [of pass "enter_timer (g_role_launch u)"] t by simp
  show ?thesis using u t cb unfolding v
    by (cases "tmr_results w") (auto simp: next_result_def rl_outside_def rl_slots_def masks_kept_def)
qed

lemma restart_enter_timer_outside:
  "restart_enter_timer w = Inl Assert_failed \<and> tmr_results w \<noteq> [] \<or>
   (\<exists>w'. restart_enter_timer w = Inr w' \<and> rl_outside w w' \<and> masks_kept w w'
      \<and> g_rl_socket w' = g_rl_socket w \<and> t_active (enter_timer (g_role_launch w')))"
proof -
  obtain e1 u where u: "on_enter_timer rtos_stop_oneshot_timer w = (e1, u)" by fastforce
  obtain e2 v where v: "on_enter_timer rtos_start_oneshot_timer u = (e2, v)" by fastforce
  have cb: "timer_callback2 (snd (rtos_stop_oneshot_timer pass t)) = timer_callback2 t"
    "timer_callback2 (snd (rtos_start_oneshot_timer pass t)) = timer_callback2 t" for pass t
    by (simp_all add: rtos_stop_oneshot_timer_def rtos_start_oneshot_timer_def timer_callback2_def)
  have act: "t_active t'" if "t\<lparr>t_active := True\<rparr> = t'" for t t' using that by auto
  have 1: "rl_outside w u" "masks_kept w u" "g_rl_socket u = g_rl_socket w" and 2: "rl_outside u v" "masks_kept u v"
    "g_rl_socket v = g_rl_socket u" "tmr_results u = [] \<Longrightarrow> e2 = kNoErr"
    "e2 = kNoErr \<Longrightarrow> t_active (enter_timer (g_role_launch v))"
    using on_enter_timer_outside [OF u cb(1)] on_enter_timer_outside [OF v cb(2)]
    by (auto simp: rtos_start_oneshot_timer_def dest: act split: if_splits)
  have "rl_outside w v" "masks_kept w v" using 1 2 by (auto intro: rl_outside_trans simp: masks_kept_def)
  with 1 2 u v show ?thesis
    by (auto simp: restart_enter_timer_def rl_outside_def)
qed

definition outside_or_assert :: "rl_world \<Rightarrow> rl_world result \<Rightarrow> bool" where
  "outside_or_assert w x \<longleftrightarrow>
    x = Inl Assert_failed \<and> tmr_results w \<noteq> [] \<or> (\<exists>w'. x = Inr w' \<and> rl_outside w w' \<and> masks_kept w w')"

lemma rl_outside_with:
  "rl_outside w (w\<lparr>fiq_off := a, irq_off := b, g_rl_socket := s\<rparr>)" "rl_outside w (w\<lparr>g_sta_cache := c\<rparr>)"
  "rl_outside w (int_restore m w)"
  by (simp_all add: rl_outside_def int_restore_def)

lemma masks_kept_simps [simp]: "masks_kept w w"
  by (simp add: masks_kept_def)

text \<open>Both entries: a change of the socket, and the enter timer restarted, with interrupts off.\<close>

lemma request_entry_outside:
  "outside_or_assert w (bind_res (restart_enter_timer (w\<lparr>fiq_off := True, irq_off := True, g_rl_socket := s\<rparr>))
     (\<lambda>w'. Inr (int_restore (fiq_off w, irq_off w) w')))"
proof -
  let ?v = "w\<lparr>fiq_off := True, irq_off := True, g_rl_socket := s\<rparr>"
  have "rl_outside w ?v" by (simp add: rl_outside_def rl_slots_def)
  moreover have "rl_outside w (int_restore m w')" if "rl_outside ?v w'" for w' m
    using that calculation by (simp add: rl_outside_def int_restore_def rl_slots_def)
  ultimately show ?thesis
    using restart_enter_timer_outside [of ?v]
    by (auto simp: outside_or_assert_def masks_kept_def int_restore_def bind_res_def)
qed

lemma rl_sta_request_enter_outside: "outside_or_assert w (rl_sta_request_enter q cb w)"
  using request_entry_outside [of w] by (simp add: rl_sta_request_enter_def int_disable_def Let_def)

lemma rl_ap_request_enter_outside: "outside_or_assert w (rl_ap_request_enter q cb w)"
  using request_entry_outside [of w] by (simp add: rl_ap_request_enter_def int_disable_def Let_def)


lemma bk_wlan_start_outside: "outside_or_assert w (bk_wlan_start para w)"
  using rl_sta_request_enter_outside rl_ap_request_enter_outside
  by (auto simp: bk_wlan_start_def) (simp_all add: outside_or_assert_def)

lemma rl_sta_cache_request_enter_outside:
  "outside_or_assert w (map_sum id snd (rl_sta_cache_request_enter w))"
proof -
  let ?m = "w\<lparr>fiq_off := True, irq_off := True\<rparr>" and ?c = "g_sta_cache w"
  have m: "rl_outside w ?m" by (simp add: rl_outside_def rl_slots_def)
  have e: "outside_or_assert w (Inr (int_restore (fiq_off w, irq_off w) (v\<lparr>g_sta_cache := zero_cache\<rparr>)))"
    if "rl_outside ?m v" "masks_kept ?m v" for v
    using that m by (auto simp: outside_or_assert_def rl_outside_def masks_kept_def int_restore_def)
  from rl_sta_request_enter_outside [of ?m "c_sta_param ?c" "c_sta_completion ?c"] e [of ?m] e
  show ?thesis
    by (auto simp: outside_or_assert_def rl_sta_cache_request_enter_def int_disable_def bind_res_def Let_def)
qed

lemma outside_or_assert_map:
  assumes "outside_or_assert w x" "\<And>v. rl_outside v (f v)" "\<And>v. masks_kept v (f v)"
  shows "outside_or_assert w (map_sum id f x)"
proof -
  have "rl_outside w (f v)" "masks_kept w (f v)" if "rl_outside w v" "masks_kept w v" for v
    using that assms(2) [of v] assms(3) [of v] by (auto intro: rl_outside_trans simp: masks_kept_def)
  with assms(1) show ?thesis by (auto simp: outside_or_assert_def)
qed

lemma sm_disconnect_ind_outside: "outside_or_assert w (sm_disconnect_ind reason w)"
proof -
  have n: "snd (rl_sta_req_is_null w) = w"
    by (cases w) (simp add: rl_sta_req_is_null_def int_disable_def int_restore_def Let_def)
  have c: "rl_outside w (call_out Deassoc_evt_cb w)" "masks_kept w (call_out Deassoc_evt_cb w)"
    by (simp_all add: call_out_def rl_outside_def masks_kept_def)
  have "outside_or_assert w (mhdr_disconnect_ind reason w)"
    using rl_sta_cache_request_enter_outside [of w] n c
    by (auto simp: mhdr_disconnect_ind_def outside_or_assert_def split: prod.splits)
  then show ?thesis unfolding sm_disconnect_ind_def
    by (rule outside_or_assert_map) (simp_all add: set_status_outside, simp add: rl_pre_sta_set_status_eq masks_kept_def)
qed

lemma ev_post_outside_or_assert:
  "rl_inv w \<Longrightarrow> outside_or_assert w x \<Longrightarrow> ev_post zalloc w x"
  by (auto simp: outside_or_assert_def ev_post_outside) (simp add: ev_post_def calm_def)

text \<open>The handlers.\<close>

lemma enter_waiting: "fst (enter r q s) = 1 \<Longrightarrow> waiting (snd (enter r q s)) = waiting s"
  by (auto simp: enter_def Let_def split: if_splits)

lemma request_enter_post:
  assumes "rl_inv w" "fresh_alloc zalloc"
  shows "ev_post zalloc w (map_sum id snd (request_enter r zalloc q cb w))"
proof -
  have i: "entities_ok w" "timers_ok w" "turn_valid w" "launcher_inv (launcher_of w)"
    using assms(1) by (simp_all add: rl_inv_def)
  from request_enter_ok [OF i(1-3) assms(2), of r q cb] show ?thesis
  proof (elim disjE exE conjE)
    fix ret w' assume x: "request_enter r zalloc q cb w = Inr (ret, w')"
      and e: "entered w (enter r q (launcher_of w)) ret w'"
    have s: "launcher_of w' = snd (enter r q (launcher_of w))" using e by (simp add: entered_def)
    have st: "launcher_step (launcher_of w) (launcher_of w')" unfolding s by (rule step_enter)
    have "rl_inv w'" using e launcher_step_inv [OF st i(4)] i(3) by (simp add: rl_inv_def entered_def rl_quiet_def)
    moreover have "armed w'" if "armed w"
    proof (cases "ret = 1")
      case False
      with e show ?thesis by (simp add: armed_def entered_def)
    next
      case True
      then have "waiting (launcher_of w') = waiting (launcher_of w)"
        using e enter_waiting [of r q "launcher_of w"] by (simp add: entered_def)
      with that e True show ?thesis by (auto simp: armed_def entered_def)
    qed
    ultimately show ?thesis using x st e by (auto simp: ev_post_def entered_def rl_quiet_def)
  qed (use i(1) roomy_slot [of zalloc w] in \<open>auto simp: ev_post_def calm_def\<close>)
qed

text \<open>The two stages of the enter handler, after it has emptied the socket.\<close>

definition cache_sta :: "RL_SOCKET_T \<Rightarrow> u32 \<times> rl_world \<Rightarrow> rl_world" where
  "cache_sta s x = (if fst x \<noteq> 0
    then (snd x)\<lparr>g_sta_cache := \<lparr>c_sta_req_flag = 1, c_sta_param = sta_param s, c_sta_completion = sta_completion s\<rparr>\<rparr>
    else snd x)"

definition sta_stage :: "((u32 \<rightharpoonup> RL_ENTITY_T) \<Rightarrow> u32) \<Rightarrow> RL_SOCKET_T \<Rightarrow> rl_world \<Rightarrow> rl_world result" where
  "sta_stage zalloc s w = (if sta_req_flag s \<noteq> 0
    then map_sum id (cache_sta s) (request_enter Sta zalloc (sta_param s) (sta_completion s) w) else Inr w)"

definition ap_stage :: "((u32 \<rightharpoonup> RL_ENTITY_T) \<Rightarrow> u32) \<Rightarrow> RL_SOCKET_T \<Rightarrow> rl_world \<Rightarrow> rl_world result" where
  "ap_stage zalloc s w = (if ap_req_flag s \<noteq> 0
    then map_sum id snd (request_enter Ap zalloc (ap_param s) (ap_completion s) w) else Inr w)"

lemma rl_enter_handler_eq:
  "rl_enter_handler zalloc ptr w = (if ptr = 0 then Inr w
     else bind_res (sta_stage zalloc (g_rl_socket w) (w\<lparr>g_rl_socket := zero_socket\<rparr>)) (ap_stage zalloc (g_rl_socket w)))"
proof -
  have "int_restore (fiq_off w, irq_off w) (w\<lparr>fiq_off := True, irq_off := True, g_rl_socket := s\<rparr>) = w\<lparr>g_rl_socket := s\<rparr>" for s
    by (cases w) (simp add: int_restore_def)
  then show ?thesis
    by (auto simp: rl_enter_handler_def int_disable_def sta_stage_def ap_stage_def cache_sta_def Let_def
        bind_res_def split: sum.splits prod.splits intro!: ext)
qed

lemma rl_enter_handler_post:
  assumes "rl_inv w" "fresh_alloc zalloc"
  shows "ev_post zalloc w (rl_enter_handler zalloc ptr w)"
proof -
  let ?s = "g_rl_socket w" and ?v = "w\<lparr>g_rl_socket := zero_socket\<rparr>"
  have v: "rl_outside w ?v" by (simp add: rl_outside_def)
  have cached: "rl_outside (snd x) (cache_sta s x)" for s x by (simp add: cache_sta_def rl_outside_def)
  have "ev_post zalloc u (sta_stage zalloc s u)" if u: "rl_inv u" for u s
  proof -
    let ?e = "request_enter Sta zalloc (sta_param s) (sta_completion s) u"
    have "map_sum id (cache_sta s) ?e = bind_res (map_sum id snd ?e) (\<lambda>_. map_sum id (cache_sta s) ?e)"
      by (cases ?e) simp_all
    moreover have "ev_post zalloc u' (map_sum id (cache_sta s) ?e)" if "map_sum id snd ?e = Inr u'" "rl_inv u'" for u'
      using that cached by (cases ?e) (auto intro: ev_post_outside)
    ultimately have "ev_post zalloc u (map_sum id (cache_sta s) ?e)"
      using ev_post_bind [OF request_enter_post [OF u assms(2)]] by metis
    with u show ?thesis by (simp add: sta_stage_def ev_post_outside)
  qed
  moreover have "ev_post zalloc u (ap_stage zalloc s u)" if "rl_inv u" for u s
    using that request_enter_post [OF that assms(2), of Ap] by (simp add: ap_stage_def ev_post_outside)
  moreover have "rl_inv ?v" using v assms(1) by (simp add: rl_outside_inv)
  ultimately have "ev_post zalloc w (bind_res (Inr ?v) (\<lambda>v. bind_res (sta_stage zalloc ?s v) (ap_stage zalloc ?s)))"
    using v assms(1) by (intro ev_post_bind ev_post_outside) auto
  with assms(1) show ?thesis by (simp add: rl_enter_handler_eq ev_post_outside)
qed

lemma rl_launch_handler_post:
  assumes "rl_inv w"
  shows "case rl_launch_handler w of Inl e \<Rightarrow> False
    | Inr w' \<Rightarrow> rl_inv w' \<and> launcher_step (launcher_of w) (launcher_of w') \<and> (tmr_results w = [] \<longrightarrow> tmr_results w' = [] \<and> armed w')"
proof -
  have i: "entities_ok w" "timers_ok w" "turn_valid w" "launcher_inv (launcher_of w)"
    using assms by (simp_all add: rl_inv_def)
  obtain w' where w': "rl_launch_handler w = Inr w'" "launched w (tick (role_ready w) (launcher_of w)) w'"
    using rl_launch_handler_ok [OF i(1,2)] by blast
  obtain busy s where t: "tick (role_ready w) (launcher_of w) = (busy, s)" by fastforce
  have s: "launcher_of w' = s" using w'(2) t by (simp add: launched_def)
  have st: "launcher_step (launcher_of w) (launcher_of w')" using step_tick [of "launcher_of w" "role_ready w"] t s by simp
  have "rl_inv w'" using w'(2) launcher_step_inv [OF st i(4)] i(3) by (simp add: rl_inv_def launched_def rl_quiet_def)
  moreover have "armed w'" if "tmr_results w = []"
    using that w'(2) t tick_result [OF i(4) t] s by (cases busy) (simp_all add: armed_def launched_def)
  ultimately show ?thesis using w' st by (simp add: launched_def rl_quiet_def)
qed


lemma reports_outside:
  "rl_outside w (snd (rl_set_csa_switching w))" "rl_outside w (snd (rl_set_csa_switched w))"
  "rl_outside w (snd (rl_pre_ap_disable_autobcn w))" "rl_outside w (w\<lparr>monitor_mode := b\<rparr>)"
  "rl_outside w (w\<lparr>deassoc_cb := b\<rparr>)" "rl_outside w (w\<lparr>hostapd_rc := rc\<rparr>)"
  by (simp_all add: rl_outside_def rl_set_csa_switching_def rl_set_csa_switched_def rl_pre_ap_disable_autobcn_def
      call_out_def Let_def)

lemma rl_exec_post:
  assumes inv: "rl_inv w" and fresh: "fresh_alloc zalloc"
  shows "ev_post zalloc w (rl_exec zalloc ev w)"
proof (cases ev)
  case (Ev_enter_timer ptr)
  let ?v = "upd_rl (enter_timer_update (t_active_update (\<lambda>_. False))) w"
  have v: "rl_outside w ?v" by (simp add: rl_outside_def rl_slots_def timer_callback2_def)
  have "timer_callback2 (enter_timer (g_role_launch w)) = Some Enter_handler"
    using inv by (simp add: rl_inv_def timers_ok_def)
  moreover have "ev_post zalloc w (bind_res (Inr ?v) (rl_enter_handler zalloc ptr))"
    using v inv fresh by (intro ev_post_bind ev_post_outside rl_enter_handler_post) auto
  ultimately show ?thesis using inv Ev_enter_timer by (simp add: run_handler_def ev_post_outside Let_def)
next
  case Ev_launch_timer
  let ?v = "upd_rl (rl_timer_update (t_active_update (\<lambda>_. False))) w"
  have cb: "timer_callback2 (rl_timer (g_role_launch w)) = Some Launch_handler"
    using inv by (simp add: rl_inv_def timers_ok_def)
  have l: "launcher_of ?v = launcher_of w" by (simp add: launcher_of_def fun_eq_roles)
  have "rl_inv ?v" using inv l
    by (auto simp: rl_inv_def entities_ok_def rl_slots_def timers_ok_def turn_valid_def timer_callback2_def)
  from rl_launch_handler_post [OF this] have "ev_post zalloc w (rl_launch_handler ?v)"
    by (auto simp: ev_post_def l split: sum.splits)
  then show ?thesis using inv cb Ev_launch_timer by (simp add: run_handler_def ev_post_outside Let_def)
next
  case Ev_scan
  have "rl_outside w (snd (rw_msg_send_scanu_req w))"
    using set_status_outside(1) [of w 2] set_status_outside(1) [of _ 3]
    by (auto simp: rw_msg_send_scanu_req_def call_out_def Let_def intro: rl_outside_trans split: prod.splits)
      (simp_all add: rl_outside_def)
  with inv Ev_scan show ?thesis by (simp add: ev_post_outside)
qed (use inv in \<open>simp_all add: ev_post_outside set_status_outside reports_outside ev_post_outside_or_assert
    bk_wlan_start_outside rl_sta_request_enter_outside rl_ap_request_enter_outside sm_disconnect_ind_outside\<close>)

interpretation launcher: guarded_run "\<lambda>w. rl_inv w \<and> fresh_alloc zalloc" "rl_exec zalloc"
    "\<lambda>e. e = Assert_failed" "\<lambda>w w'. launcher_step\<^sup>*\<^sup>* (launcher_of w) (launcher_of w')"
  for zalloc
proof (unfold_locales, goal_cases)
  case (1 w ev)
  then show ?case using rl_exec_post [of w zalloc ev] by (auto simp: ev_post_def split: sum.splits)
qed auto

interpretation calm_launcher: guarded_run "\<lambda>w. rl_inv w \<and> armed w \<and> calm zalloc w \<and> fresh_alloc zalloc"
    "rl_exec zalloc" "\<lambda>_. False" "\<lambda>w w'. launcher_step\<^sup>*\<^sup>* (launcher_of w) (launcher_of w')"
  for zalloc
proof (unfold_locales, goal_cases)
  case (1 w ev)
  then show ?case using rl_exec_post [of w zalloc ev] by (auto simp: ev_post_def calm_def split: sum.splits)
qed auto

lemma rl_init_Inr:
  assumes "rl_init h1 h2 w = Inr w'"
  shows "h1 \<noteq> 0 \<and> w' = upd_rl (\<lambda>g. g\<lparr>rl_timer := snd (rtos_init_oneshot_timer h1 250 Launch_handler (rl_timer g)),
    enter_timer := snd (rtos_init_oneshot_timer h2 150 Enter_handler (enter_timer g)), rl_timer_flag := RL_TIMER_INIT\<rparr>) w"
  using assms by (auto simp: rl_init_def rtos_init_oneshot_timer_def Let_def split: if_splits)

lemma rl_init_inv:
  assumes "rl_init h1 h2 (rl_boot\<lparr>tmr_results := rs\<rparr>) = Inr w"
  shows "rl_inv w" "armed w" "tmr_results w = rs" "accepted r (launcher_of w) = []"
proof -
  note w = rl_init_Inr [OF assms]
  have g: "rl_heap w = Map.empty" "rl_slots (g_role_launch w) = [0, 0, 0, 0]" "tmr_results w = rs" "calls w = []"
    "pre_entity_type (g_role_launch w) = 0" "timers_ok w"
    using w by (simp_all add: rl_boot_def zero_role_launch_def rl_slots_def timers_ok_def timer_callback2_def
      rtos_init_oneshot_timer_def)
  have l: "launcher_of w = \<lparr>under_way = \<lambda>_. None, waiting = \<lambda>_. None, started = \<lambda>_. [], turn = None\<rparr>"
    using g by (simp add: launcher_of_def fun_eq_roles)
  show "rl_inv w" "armed w" "tmr_results w = rs" "accepted r (launcher_of w) = []"
    using g by (simp_all add: rl_inv_def entities_ok_def turn_valid_def launcher_inv_def armed_def accepted_def l)
qed

lemma rl_launch_handler_tick:
  assumes "rl_inv w"
  shows "\<exists>w'. rl_launch_handler w = Inr w' \<and> rl_inv w'
    \<and> launcher_of w' = snd (tick (role_ready w) (launcher_of w)) \<and> masks_kept w w'"
proof -
  have i: "entities_ok w" "timers_ok w" "turn_valid w" "launcher_inv (launcher_of w)"
    using assms by (simp_all add: rl_inv_def)
  obtain w' where "rl_launch_handler w = Inr w'" "launched w (tick (role_ready w) (launcher_of w)) w'"
    using rl_launch_handler_ok [OF i(1,2)] by blast
  then show ?thesis using tick_inv [OF i(4)] i(3)
    by (auto simp: launched_def rl_inv_def rl_quiet_def masks_kept_def)
qed

text \<open>The launch timer expires: one tick of the specification.\<close>

lemma rl_exec_launch_timer:
  assumes "rl_inv w" "t_active (rl_timer (g_role_launch w))"
  shows "\<exists>w'. rl_exec zalloc Ev_launch_timer w = Inr w' \<and> rl_inv w'
    \<and> launcher_of w' = snd (tick (role_ready w) (launcher_of w)) \<and> masks_kept w w'"
proof -
  let ?v = "upd_rl (rl_timer_update (t_active_update (\<lambda>_. False))) w"
  have l: "launcher_of ?v = launcher_of w" by (simp add: launcher_of_def fun_eq_roles)
  have v: "rl_inv ?v" using assms(1) l
    by (auto simp: rl_inv_def entities_ok_def rl_slots_def timers_ok_def turn_valid_def timer_callback2_def)
  have "role_ready ?v r = role_ready w r" for r
    by (cases r) (simp_all add: sta_ready_def ap_ready_def Let_def)
  then have "role_ready ?v = role_ready w" by auto
  moreover have "rl_exec zalloc Ev_launch_timer w = rl_launch_handler ?v"
    using assms by (simp add: rl_inv_def timers_ok_def run_handler_def Let_def)
  ultimately show ?thesis using rl_launch_handler_tick [OF v] l by (auto simp: masks_kept_def)
qed

lemma request_enter_step:
  assumes "rl_inv w" "fresh_alloc zalloc" "request_enter r zalloc q cb w = Inr (ret, w')"
  shows "enter r q (launcher_of w) = (ret, launcher_of w')
    \<and> accepted r (launcher_of w') = accepted r (launcher_of w) @ (if ret \<noteq> 0 then [q] else [])
    \<and> rl_inv w' \<and> masks_kept w w'"
proof -
  have i: "entities_ok w" "timers_ok w" "turn_valid w" "launcher_inv (launcher_of w)"
    using assms by (simp_all add: rl_inv_def)
  have e: "entered w (enter r q (launcher_of w)) ret w'"
    using request_enter_ok [OF i(1-3) assms(2), of r q cb] assms(3) by auto
  then have s: "enter r q (launcher_of w) = (ret, launcher_of w')" by (simp add: entered_def)
  with e enter_inv [OF i(4), of r q] enter_accepted [OF i(4), of r r q] i(3) show ?thesis
    by (auto simp: entered_def rl_inv_def rl_quiet_def masks_kept_def)
qed

text \<open>A request that waits is started when what is under way gives way.\<close>

lemma tick_starts:
  assumes "turn s = Some r'" "waiting s r = Some q" "\<And>t. ready t \<or> under_way s t = None"
    and "r' = r \<or> waiting s r' = None"
  shows "under_way (snd (tick ready s)) r = Some q \<and> started (snd (tick ready s)) r = started s r @ [q]"
proof -
  consider "r' = r" | "r' = other_role r" using role_cases by blast
  then show ?thesis using assms(1,2,4) assms(3) [of r] assms(3) [of "other_role r"]
    by cases (auto simp: tick_def advance_def Let_def split: option.splits if_splits)
qed

section \<open>The interrupt masks\<close>

lemma masks_set_status:
  "s \<noteq> RL_STATUS_STA_SCANNING \<Longrightarrow> masks_kept w (snd (rl_pre_sta_set_status s w))"
  "masks_kept w (snd (rl_pre_ap_set_status s w))"
  by (simp_all add: rl_pre_sta_set_status_eq rl_pre_ap_set_status_eq masks_kept_def)

lemma masks_request_enter:
  "\<lbrakk>rl_inv w; fresh_alloc zalloc; request_enter r zalloc q cb w = Inr x\<rbrakk> \<Longrightarrow> rl_inv (snd x) \<and> masks_kept w (snd x)"
  using request_enter_step [of w zalloc r q cb "fst x" "snd x"] by simp

lemma masks_cache: "masks_kept u (cache_sta s x) = masks_kept u (snd x)" "rl_inv (cache_sta s x) = rl_inv (snd x)"
proof -
  have "rl_outside (snd x) (cache_sta s x)" by (simp add: cache_sta_def rl_outside_def)
  then show "rl_inv (cache_sta s x) = rl_inv (snd x)" by (rule rl_outside_inv)
qed (simp add: cache_sta_def masks_kept_def)

lemma masks_enter_handler:
  assumes "rl_inv w" "fresh_alloc zalloc" "rl_enter_handler zalloc ptr w = Inr w'"
  shows "masks_kept w w'"
proof (cases "ptr = 0")
  case False
  let ?v = "w\<lparr>g_rl_socket := zero_socket\<rparr>"
  have v: "rl_inv ?v" using rl_outside_inv [of w ?v] assms(1) by (simp add: rl_outside_def)
  from False assms(3) obtain u where u: "sta_stage zalloc (g_rl_socket w) ?v = Inr u" "ap_stage zalloc (g_rl_socket w) u = Inr w'"
    by (auto simp: rl_enter_handler_eq bind_res_Inr)
  have 1: "rl_inv u \<and> masks_kept ?v u"
    using u(1) v masks_request_enter [OF v assms(2), where r = Sta]
    by (auto simp: sta_stage_def masks_cache map_sum_Inr split: if_splits)
  then have "masks_kept u w'"
    using u(2) masks_request_enter [OF _ assms(2), where r = Ap] by (auto simp: ap_stage_def map_sum_Inr split: if_splits)
  with 1 show ?thesis by (simp add: masks_kept_def)
qed (use assms in \<open>simp add: rl_enter_handler_eq\<close>)


lemma masks_outside: "outside_or_assert w x \<Longrightarrow> x = Inr w' \<Longrightarrow> masks_kept w w'"
  by (auto simp: outside_or_assert_def)

lemmas request_masks =
  masks_outside [OF bk_wlan_start_outside] masks_outside [OF rl_sta_request_enter_outside]
  masks_outside [OF rl_ap_request_enter_outside] masks_outside [OF sm_disconnect_ind_outside]

section \<open>A lost connection is launched again\<close>

lemma restart_enter_timer_calm:
  assumes "tmr_results w = []"
  shows "restart_enter_timer w =
    Inr (upd_rl (\<lambda>g. g\<lparr>enter_timer := (enter_timer g)\<lparr>t_active := True\<rparr>\<rparr>) w)"
  using assms
  by (simp add: restart_enter_timer_def on_enter_timer_def next_result_def rtos_stop_oneshot_timer_def
      rtos_start_oneshot_timer_def)

lemma rl_sta_req_is_null_eq:
  "rl_sta_req_is_null w = (jl_previous_sta (g_role_launch w) = 0 \<and> jl_following_sta (g_role_launch w) = 0, w)"
  by (cases w) (simp add: rl_sta_req_is_null_def int_disable_def int_restore_def Let_def)

lemma rl_sta_request_enter_calm:
  assumes "tmr_results w = []"
  shows "rl_sta_request_enter q cb w = Inr (w\<lparr>
      g_rl_socket := (g_rl_socket w)\<lparr>sta_completion := cb, sta_param := q, sta_req_flag := 1\<rparr>,
      g_role_launch := (g_role_launch w)\<lparr>enter_timer := (enter_timer (g_role_launch w))\<lparr>t_active := True\<rparr>\<rparr>\<rparr>)"
  using assms
  by (cases w) (simp add: rl_sta_request_enter_def restart_enter_timer_calm int_disable_def int_restore_def Let_def)

definition lost :: "rl_world \<Rightarrow> rl_world" where
  "lost w = (let c = g_sta_cache w in w\<lparr>
      g_rl_socket := (g_rl_socket w)\<lparr>sta_completion := c_sta_completion c, sta_param := c_sta_param c, sta_req_flag := 1\<rparr>,
      g_role_launch := (g_role_launch w)\<lparr>enter_timer := (enter_timer (g_role_launch w))\<lparr>t_active := True\<rparr>,
        pre_sta_status := RL_STATUS_STA_LAUNCH_FAILED\<rparr>,
      g_sta_cache := zero_cache\<rparr>)"

lemma sm_disconnect_ind_cached:
  assumes "tmr_results w = []" "c_sta_req_flag (g_sta_cache w) \<noteq> 0" "\<not> monitor_mode w"
    and "reason = VENDOR_CONNECTION_LOSS \<or> RL_STATUS_STA_SCANNING \<le> rl_pre_sta_get_status w"
  shows "sm_disconnect_ind reason w = Inr (lost w)"
proof -
  have "mhdr_disconnect_ind reason w = map_sum id snd (rl_sta_cache_request_enter w)"
    using assms(4) by (auto simp: mhdr_disconnect_ind_def rl_sta_req_is_null_eq)
  moreover have "rl_sta_cache_request_enter w = Inr (1, (lost w)\<lparr>g_role_launch := (g_role_launch w)
      \<lparr>enter_timer := (enter_timer (g_role_launch w))\<lparr>t_active := True\<rparr>\<rparr>\<rparr>)"
    using assms(1-3)
    by (cases w) (simp add: rl_sta_cache_request_enter_def rl_sta_request_enter_calm int_disable_def int_restore_def
        lost_def Let_def)
  ultimately show ?thesis
    by (simp add: sm_disconnect_ind_def rl_pre_sta_set_status_eq lost_def Let_def)
qed

lemma rl_start_calm:
  assumes "tmr_results w = []"
  shows "\<exists>v. rl_start w = Inr v \<and> pre_sta_status (g_role_launch v) = pre_sta_status (g_role_launch w)
    \<and> g_mrole_csa_flag v = g_mrole_csa_flag w \<and> rl_slots (g_role_launch v) = rl_slots (g_role_launch w)"
  using rl_start_eq [of w] assms by (auto simp: rl_slots_def)

text \<open>A request that has to wait leaves the reported status alone.\<close>

lemma request_enter_waits:
  assumes "tmr_results w = []" "zalloc (rl_heap w) \<noteq> 0" "jl_previous_sta (g_role_launch w) \<noteq> 0"
    and "jl_following_sta (g_role_launch w) = 0"
  shows "\<exists>v. request_enter Sta zalloc q cb w = Inr (2, v) \<and> g_mrole_csa_flag v = g_mrole_csa_flag w
    \<and> pre_sta_status (g_role_launch v) = pre_sta_status (g_role_launch w)
    \<and> jl_following_ap (g_role_launch v) = jl_following_ap (g_role_launch w)"
proof -
  let ?f = "filled (put_following Sta) (zalloc (rl_heap w)) (plain q cb) (masked w)"
  obtain v where v: "rl_start ?f = Inr v" "pre_sta_status (g_role_launch v) = pre_sta_status (g_role_launch ?f)"
    "g_mrole_csa_flag v = g_mrole_csa_flag ?f" "rl_slots (g_role_launch v) = rl_slots (g_role_launch ?f)"
    using rl_start_calm [of ?f] assms(1) by auto
  with assms show ?thesis
    by (auto simp: request_enter_eq Let_def enter_end_def claim_turn_def int_restore_def filled_def rl_slots_def masked_def
        simp del: request_enter.simps)
qed

lemma enter_second:
  "enter r q s = (2, s') \<Longrightarrow> waiting s' = (waiting s)(r := Some q) \<and> started s' = started s"
  by (auto simp: enter_def Let_def split: if_splits)


end
