(* ===== verification/Role_Launch_Order.thy ===== *)
theory Role_Launch_Order
  imports Role_Launch_Run
begin

text \<open>
  Which requests a run takes, read off the events alone: a request is offered by a caller or by the report of a
  lost connection, the last one offered is pending until the enter timer expires, and then it is taken unless
  one of its role waits already. Every event changes the launcher exactly by what is taken and by the ticks of
  the launch timer, so the accepted requests are the taken ones; and a request that waits is started after at
  most two expiries that find everything ready.
\<close>

section \<open>What is offered, pending and taken\<close>

definition offers :: "rl_role \<Rightarrow> rl_event \<Rightarrow> rl_world \<Rightarrow> LAUNCH_REQ option" where
  "offers r ev w =
    (case ev of
       Ev_start para \<Rightarrow>
         if monitor_mode w then None
         else if wifi_mode para = BK_SOFT_AP then (if r = Ap then Some \<lparr>descr = para, req_type = LAUNCH_REQ_AP\<rparr> else None)
         else if wifi_mode para = BK_STATION then (if r = Sta then Some \<lparr>descr = para, req_type = LAUNCH_REQ_STA\<rparr> else None)
         else None
     | Ev_sta_request q cb \<Rightarrow> (if r = Sta then Some q else None)
     | Ev_ap_request q cb \<Rightarrow> (if r = Ap then Some q else None)
     | Ev_disconnect reason \<Rightarrow>
         if r = Sta \<and> c_sta_req_flag (g_sta_cache w) \<noteq> 0 \<and> \<not> monitor_mode w
           \<and> (jl_previous_sta (g_role_launch w) = 0 \<and> jl_following_sta (g_role_launch w) = 0
              \<or> reason = VENDOR_CONNECTION_LOSS \<or> RL_STATUS_STA_SCANNING \<le> rl_pre_sta_get_status w)
         then Some (c_sta_param (g_sta_cache w)) else None
     | _ \<Rightarrow> None)"

fun pending :: "rl_role \<Rightarrow> rl_world \<Rightarrow> LAUNCH_REQ option" where
  "pending Sta w = (if sta_req_flag (g_rl_socket w) \<noteq> 0 then Some (sta_param (g_rl_socket w)) else None)"
| "pending Ap w = (if ap_req_flag (g_rl_socket w) \<noteq> 0 then Some (ap_param (g_rl_socket w)) else None)"

text \<open>The enter timer expires, with an argument for its handler.\<close>

definition enters :: "rl_event \<Rightarrow> rl_world \<Rightarrow> bool" where
  "enters ev w \<longleftrightarrow> (case ev of Ev_enter_timer ptr \<Rightarrow> t_active (enter_timer (g_role_launch w)) \<and> ptr \<noteq> 0 | _ \<Rightarrow> False)"

definition takes :: "rl_role \<Rightarrow> LAUNCH_REQ option \<Rightarrow> launcher \<Rightarrow> LAUNCH_REQ list" where
  "takes r p s = (case p of Some q \<Rightarrow> if waiting s r = None then [q] else [] | None \<Rightarrow> [])"

text \<open>The requests of a role that a run takes, in their order, when \<open>p\<close> is pending at its start.\<close>

primrec taken :: "((u32 \<rightharpoonup> RL_ENTITY_T) \<Rightarrow> u32) \<Rightarrow> rl_role \<Rightarrow> rl_event list \<Rightarrow> LAUNCH_REQ option \<Rightarrow> rl_world
    \<Rightarrow> LAUNCH_REQ list" where
  "taken zalloc r [] p w = []"
| "taken zalloc r (ev # evs) p w =
    (case rl_exec zalloc ev w of
       Inl e \<Rightarrow> []
     | Inr w' \<Rightarrow>
         if enters ev w then takes r p (launcher_of w) @ taken zalloc r evs None w'
         else taken zalloc r evs (case offers r ev w of Some q \<Rightarrow> Some q | None \<Rightarrow> p) w')"

section \<open>What an event does to the launcher and to what is pending\<close>

definition enter_pending :: "rl_role \<Rightarrow> LAUNCH_REQ option \<Rightarrow> launcher \<Rightarrow> launcher" where
  "enter_pending r p s = (case p of Some q \<Rightarrow> snd (enter r q s) | None \<Rightarrow> s)"

lemma enter_refuses: "launcher_inv s \<Longrightarrow> fst (enter r q s) = 0 \<longleftrightarrow> waiting s r \<noteq> None"
  by (auto simp: enter_def launcher_inv_def Let_def)

lemma enter_waiting_other: "r' \<noteq> r \<Longrightarrow> waiting (snd (enter r q s)) r' = waiting s r'"
  by (auto simp: enter_def Let_def)

lemma enter_pending_inv: "launcher_inv s \<Longrightarrow> launcher_inv (enter_pending r p s)"
  by (simp add: enter_pending_def enter_inv split: option.splits)

lemma enter_pending_accepted:
  "launcher_inv s \<Longrightarrow> accepted r' (enter_pending r p s) = accepted r' s @ (if r' = r then takes r p s else [])"
  by (auto simp: enter_pending_def takes_def enter_accepted enter_refuses split: option.splits)

lemma enter_pending_other: "r' \<noteq> r \<Longrightarrow> waiting (enter_pending r p s) r' = waiting s r'"
  by (simp add: enter_pending_def enter_waiting_other split: option.splits)

lemma enter_pending_refused: "waiting s r \<noteq> None \<Longrightarrow> launcher_inv s \<Longrightarrow> enter_pending r p s = s"
  by (auto simp: enter_pending_def enter_def launcher_inv_def split: option.splits)

lemma request_enter_socket:
  assumes "rl_inv w" "fresh_alloc zalloc" "request_enter r zalloc q cb w = Inr (ret, w')"
  shows "g_rl_socket w' = g_rl_socket w \<and> launcher_of w' = snd (enter r q (launcher_of w)) \<and> rl_inv w'"
proof -
  have i: "entities_ok w" "timers_ok w" "turn_valid w" using assms(1) by (simp_all add: rl_inv_def)
  show ?thesis
    using request_enter_ok [OF i assms(2), of r q cb] request_enter_step [OF assms] assms(3) by (auto simp: entered_def)
qed

lemma sta_stage_enters:
  assumes "rl_inv w" "fresh_alloc zalloc" "sta_stage zalloc s w = Inr w'"
  shows "rl_inv w' \<and> g_rl_socket w' = g_rl_socket w
    \<and> launcher_of w' = enter_pending Sta (if sta_req_flag s \<noteq> 0 then Some (sta_param s) else None) (launcher_of w)"
proof (cases "sta_req_flag s = 0")
  case False
  then obtain ret v where v: "request_enter Sta zalloc (sta_param s) (sta_completion s) w = Inr (ret, v)"
    "w' = cache_sta s (ret, v)" using assms(3) by (auto simp: sta_stage_def map_sum_Inr)
  have "rl_outside v w'" unfolding v(2) by (simp add: cache_sta_def rl_outside_def)
  with request_enter_socket [OF assms(1,2) v(1)] rl_outside_inv rl_outside_launcher False v(2) show ?thesis
    by (auto simp: enter_pending_def cache_sta_def)
qed (use assms in \<open>simp add: sta_stage_def enter_pending_def\<close>)

lemma ap_stage_enters:
  assumes "rl_inv w" "fresh_alloc zalloc" "ap_stage zalloc s w = Inr w'"
  shows "g_rl_socket w' = g_rl_socket w
    \<and> launcher_of w' = enter_pending Ap (if ap_req_flag s \<noteq> 0 then Some (ap_param s) else None) (launcher_of w)"
proof (cases "ap_req_flag s = 0")
  case False
  then obtain ret where "request_enter Ap zalloc (ap_param s) (ap_completion s) w = Inr (ret, w')"
    using assms(3) by (auto simp: ap_stage_def map_sum_Inr)
  from request_enter_socket [OF assms(1,2) this] False show ?thesis by (simp add: enter_pending_def)
qed (use assms in \<open>simp add: ap_stage_def enter_pending_def\<close>)

definition enter_both :: "rl_world \<Rightarrow> launcher" where
  "enter_both w = enter_pending Ap (pending Ap w) (enter_pending Sta (pending Sta w) (launcher_of w))"

lemma rl_enter_handler_enters:
  assumes "rl_inv w" "fresh_alloc zalloc" "ptr \<noteq> 0" "rl_enter_handler zalloc ptr w = Inr w'"
  shows "launcher_of w' = enter_both w \<and> g_rl_socket w' = zero_socket"
proof -
  let ?v = "w\<lparr>g_rl_socket := zero_socket\<rparr>"
  have o: "rl_outside w ?v" by (simp add: rl_outside_def)
  then have v: "rl_inv ?v" "launcher_of ?v = launcher_of w"
    using assms(1) by (simp_all add: rl_outside_inv rl_outside_launcher)
  obtain u where u: "sta_stage zalloc (g_rl_socket w) ?v = Inr u" "ap_stage zalloc (g_rl_socket w) u = Inr w'"
    using assms(3,4) by (auto simp: rl_enter_handler_eq bind_res_Inr)
  note s = sta_stage_enters [OF v(1) assms(2) u(1)]
  from ap_stage_enters [OF _ assms(2) u(2)] s v(2) show ?thesis by (simp add: enter_both_def)
qed

lemma restart_enter_timer_socket: "restart_enter_timer w = Inr w' \<Longrightarrow> g_rl_socket w' = g_rl_socket w"
  using restart_enter_timer_outside [of w] by auto

lemma request_entry_pending:
  "rl_sta_request_enter q cb w = Inr w' \<Longrightarrow> pending r w' = (if r = Sta then Some q else pending r w)"
  "rl_ap_request_enter q cb w = Inr w' \<Longrightarrow> pending r w' = (if r = Ap then Some q else pending r w)"
  by (cases r; auto simp: rl_sta_request_enter_def rl_ap_request_enter_def int_disable_def int_restore_def
      bind_res_Inr Let_def dest!: restart_enter_timer_socket)+

lemma pending_cong: "g_rl_socket w' = g_rl_socket w \<Longrightarrow> pending r w' = pending r w"
  by (cases r) simp_all

lemma pending_other [simp]:
  "pending r (w\<lparr>g_sta_cache := c\<rparr>) = pending r w" "pending r (int_restore m w) = pending r w"
  "pending r (w\<lparr>fiq_off := True, irq_off := True\<rparr>) = pending r w" "pending r (call_out d w) = pending r w"
  "pending r (w\<lparr>monitor_mode := b\<rparr>) = pending r w" "pending r (w\<lparr>deassoc_cb := b\<rparr>) = pending r w"
  "pending r (w\<lparr>hostapd_rc := rc\<rparr>) = pending r w" "pending r (upd_rl f w) = pending r w"
  by (intro pending_cong; simp add: int_restore_def call_out_def)+

declare pending.simps [simp del]

lemma bk_wlan_start_pending:
  assumes "bk_wlan_start para w = Inr w'"
  shows "pending r w' = (case offers r (Ev_start para) w of Some q \<Rightarrow> Some q | None \<Rightarrow> pending r w)"
  using assms by (cases r) (auto simp: bk_wlan_start_def offers_def dest: request_entry_pending [of _ _ _ _ r] split: if_splits)

lemma sm_disconnect_ind_pending:
  assumes "sm_disconnect_ind reason w = Inr w'"
  shows "pending r w' = (case offers r (Ev_disconnect reason) w of Some q \<Rightarrow> Some q | None \<Rightarrow> pending r w)"
proof -
  obtain v where v: "mhdr_disconnect_ind reason w = Inr v" "w' = snd (rl_pre_sta_set_status RL_STATUS_STA_LAUNCH_FAILED v)"
    using assms by (auto simp: sm_disconnect_ind_def map_sum_Inr)
  have "pending r w' = pending r v" using v(2) by (simp add: rl_pre_sta_set_status_eq)
  moreover have "pending r v = (case offers r (Ev_disconnect reason) w of Some q \<Rightarrow> Some q | None \<Rightarrow> pending r w)"
    if "map_sum id snd (rl_sta_cache_request_enter w) = Inr v" and
      "jl_previous_sta (g_role_launch w) = 0 \<and> jl_following_sta (g_role_launch w) = 0
        \<or> reason = VENDOR_CONNECTION_LOSS \<or> RL_STATUS_STA_SCANNING \<le> rl_pre_sta_get_status w"
    using that
    by (auto simp: rl_sta_cache_request_enter_def int_disable_def Let_def offers_def bind_res_Inr map_sum_Inr
        dest!: request_entry_pending(1) [of _ _ _ _ r] split: if_splits)
  ultimately show ?thesis using v(1)
    by (auto simp: mhdr_disconnect_ind_def rl_sta_req_is_null_eq offers_def split: if_splits)
qed

lemma reports_pending:
  "pending r (snd (rl_pre_sta_set_status s w)) = pending r w"
  "pending r (snd (rl_pre_ap_set_status s w)) = pending r w"
  "pending r (snd (rl_set_csa_switching w)) = pending r w"
  "pending r (snd (rl_set_csa_switched w)) = pending r w"
  "pending r (snd (rl_pre_ap_disable_autobcn w)) = pending r w"
  "pending r (snd (rw_msg_send_scanu_req w)) = pending r w"
  by (intro pending_cong; simp add: rl_status_defs rl_set_csa_switching_def rl_set_csa_switched_def
      rl_pre_ap_disable_autobcn_def rw_msg_send_scanu_req_def Let_def split: prod.splits)+

text \<open>All events but the launch timer.\<close>

lemma rl_exec_effect:
  assumes inv: "rl_inv w" and fresh: "fresh_alloc zalloc" and x: "rl_exec zalloc ev w = Inr w'"
    and n: "ev \<noteq> Ev_launch_timer"
  shows "launcher_of w' = (if enters ev w then enter_both w else launcher_of w)
    \<and> pending r w' = (if enters ev w then None else case offers r ev w of Some q \<Rightarrow> Some q | None \<Rightarrow> pending r w)"
proof (cases ev)
  case (Ev_enter_timer ptr)
  let ?v = "upd_rl (enter_timer_update (t_active_update (\<lambda>_. False))) w"
  have o: "rl_outside w ?v" by (simp add: rl_outside_def rl_slots_def timer_callback2_def)
  then have v: "rl_inv ?v" "launcher_of ?v = launcher_of w" using inv by (simp_all add: rl_outside_inv rl_outside_launcher)
  have cb: "timer_callback2 (enter_timer (g_role_launch w)) = Some Enter_handler"
    using inv by (simp add: rl_inv_def timers_ok_def)
  have h: "ptr \<noteq> 0 \<Longrightarrow> rl_enter_handler zalloc ptr ?v = Inr w' \<Longrightarrow> launcher_of w' = enter_both ?v \<and> g_rl_socket w' = zero_socket"
    using rl_enter_handler_enters [OF v(1) fresh] by blast
  have z: "rl_enter_handler zalloc 0 ?v = Inr ?v" by (simp add: rl_enter_handler_def)
  have e: "enter_both ?v = enter_both w" by (simp add: enter_both_def v(2))
  have zs: "g_rl_socket w' = zero_socket \<Longrightarrow> pending r w' = None" by (cases r) (simp_all add: zero_socket_def pending.simps)
  show ?thesis
  proof (cases "t_active (enter_timer (g_role_launch w))")
    case True
    then have r: "rl_enter_handler zalloc ptr ?v = Inr w'" using x cb Ev_enter_timer by (simp add: run_handler_def Let_def)
    show ?thesis
    proof (cases "ptr = 0")
      case True
      with r z have "w' = ?v" by simp
      then show ?thesis using v(2) Ev_enter_timer True by (simp add: enters_def offers_def)
    next
      case False
      with h [OF _ r] e zs \<open>t_active _\<close> Ev_enter_timer show ?thesis by (simp add: enters_def)
    qed
  next
    case False
    then show ?thesis using x Ev_enter_timer by (simp add: enters_def offers_def)
  qed
next
  case (Ev_start para)
  then show ?thesis using x bk_wlan_start_pending [of para w w' r] bk_wlan_start_outside [of w para]
    by (auto simp: enters_def outside_or_assert_def dest: rl_outside_launcher)
next
  case (Ev_sta_request q cb)
  then show ?thesis using x request_entry_pending(1) [of q cb w w' r] rl_sta_request_enter_outside [of w q cb]
    by (auto simp: enters_def offers_def outside_or_assert_def dest: rl_outside_launcher)
next
  case (Ev_ap_request q cb)
  then show ?thesis using x request_entry_pending(2) [of q cb w w' r] rl_ap_request_enter_outside [of w q cb]
    by (auto simp: enters_def offers_def outside_or_assert_def dest: rl_outside_launcher)
next
  case (Ev_disconnect reason)
  then show ?thesis using x sm_disconnect_ind_pending [of reason w w' r] sm_disconnect_ind_outside [of w reason]
    by (auto simp: enters_def outside_or_assert_def dest: rl_outside_launcher)
next
  case Ev_scan
  have "rl_outside w (snd (rw_msg_send_scanu_req w))"
    using set_status_outside(1) [of w 2] set_status_outside(1) [of _ 3]
    by (auto simp: rw_msg_send_scanu_req_def call_out_def Let_def intro: rl_outside_trans split: prod.splits)
      (simp_all add: rl_outside_def)
  with Ev_scan x reports_pending(6) [of r w] show ?thesis by (auto simp: enters_def offers_def dest: rl_outside_launcher)
next
  case (Ev_sta_status s)
  with x show ?thesis using set_status_outside(1) [of w s] reports_pending(1) [of r s w]
    by (auto simp: enters_def offers_def dest: rl_outside_launcher)
next
  case (Ev_ap_status s)
  with x show ?thesis using set_status_outside(2) [of w s] reports_pending(2) [of r s w]
    by (auto simp: enters_def offers_def dest: rl_outside_launcher)
next
  case Ev_launch_timer
  with n show ?thesis by simp
qed (use x reports_pending [of r] rl_outside_launcher [OF reports_outside(1)] rl_outside_launcher [OF reports_outside(2)]
    rl_outside_launcher [OF reports_outside(3)] rl_outside_launcher [OF reports_outside(4)]
    rl_outside_launcher [OF reports_outside(5)] rl_outside_launcher [OF reports_outside(6)]
    in \<open>auto simp: enters_def offers_def\<close>)

lemma rl_exec_tick:
  assumes "rl_inv w" "rl_exec zalloc Ev_launch_timer w = Inr w'"
  shows "launcher_of w' = (if t_active (rl_timer (g_role_launch w)) then snd (tick (role_ready w) (launcher_of w)) else launcher_of w)
    \<and> pending r w' = pending r w"
proof (cases "t_active (rl_timer (g_role_launch w))")
  case True
  let ?v = "upd_rl (rl_timer_update (t_active_update (\<lambda>_. False))) w"
  have l: "launcher_of ?v = launcher_of w" by (simp add: launcher_of_def fun_eq_roles)
  have v: "entities_ok ?v" "timers_ok ?v" using assms(1)
    by (auto simp: rl_inv_def entities_ok_def rl_slots_def timers_ok_def timer_callback2_def)
  have "rl_launch_handler ?v = Inr w'" using True assms by (simp add: rl_inv_def timers_ok_def run_handler_def Let_def)
  then have "g_rl_socket w' = g_rl_socket w" using rl_launch_handler_ok [OF v] by (auto simp: launched_def)
  then have "pending r w' = pending r w" by (rule pending_cong)
  with True rl_exec_launch_timer [OF assms(1) True, of zalloc] assms(2) show ?thesis by auto
qed (use assms in simp)

lemma enter_both_accepted:
  assumes "rl_inv w"
  shows "accepted r (enter_both w) = accepted r (launcher_of w) @ takes r (pending r w) (launcher_of w)"
proof -
  have i: "launcher_inv (launcher_of w)" using assms by (simp add: rl_inv_def)
  let ?s = "enter_pending Sta (pending Sta w) (launcher_of w)"
  have "takes Ap (pending Ap w) ?s = takes Ap (pending Ap w) (launcher_of w)"
    by (simp add: takes_def enter_pending_other split: option.split)
  with i enter_pending_inv [OF i] show ?thesis
    by (cases r) (simp_all add: enter_both_def enter_pending_accepted)
qed

lemma rl_exec_inv: "\<lbrakk>rl_inv w; fresh_alloc zalloc; rl_exec zalloc ev w = Inr w'\<rbrakk> \<Longrightarrow> rl_inv w'"
  using rl_exec_post [of w zalloc ev] by (simp add: ev_post_def)

text \<open>Over a run, the accepted requests of a role grow exactly by those taken.\<close>

lemma run_accepts_taken:
  "\<lbrakk>fresh_alloc zalloc; rl_inv w; run_res (rl_exec zalloc) evs w = Inr w'\<rbrakk> \<Longrightarrow>
    accepted r (launcher_of w') = accepted r (launcher_of w) @ taken zalloc r evs (pending r w) w"
proof (induction evs arbitrary: w)
  case (Cons ev evs)
  then obtain v where v: "rl_exec zalloc ev w = Inr v" "run_res (rl_exec zalloc) evs v = Inr w'" by (auto split: sum.splits)
  note IH = Cons.IH [OF Cons.prems(1) rl_exec_inv [OF Cons.prems(2,1) v(1)] v(2)]
  show ?case
  proof (cases "ev = Ev_launch_timer")
    case True
    then show ?thesis using v IH rl_exec_tick [of w zalloc v r] Cons.prems(2)
      by (auto simp: enters_def offers_def tick_accepted)
  next
    case False
    from rl_exec_effect [OF Cons.prems(2,1) v(1) False, of r] v(1) IH enter_both_accepted [OF Cons.prems(2), of r]
    show ?thesis by auto
  qed
qed simp

section \<open>A request that waits is started\<close>

text \<open>The expiries of a run that find every request under way ready to give way.\<close>

definition all_ready :: "rl_world \<Rightarrow> bool" where
  "all_ready w \<longleftrightarrow> (\<forall>r \<in> {Sta, Ap}. under_way (launcher_of w) r \<noteq> None \<longrightarrow> role_ready w r)"

primrec ready_expiries :: "((u32 \<rightharpoonup> RL_ENTITY_T) \<Rightarrow> u32) \<Rightarrow> rl_event list \<Rightarrow> rl_world \<Rightarrow> nat" where
  "ready_expiries zalloc [] w = 0"
| "ready_expiries zalloc (ev # evs) w =
    (if ev = Ev_launch_timer \<and> t_active (rl_timer (g_role_launch w)) \<and> all_ready w then 1 else 0)
    + (case rl_exec zalloc ev w of Inl e \<Rightarrow> 0 | Inr w' \<Rightarrow> ready_expiries zalloc evs w')"

text \<open>How many of them the waiting request of a role needs: one when it is the turn of its role or the other role
  has none waiting, else two.\<close>

definition expiries_needed :: "rl_role \<Rightarrow> launcher \<Rightarrow> nat" where
  "expiries_needed r s = (if turn s = Some r \<or> waiting s (other_role r) = None then 1 else 2)"

lemma launcher_step_started: "launcher_step s s' \<Longrightarrow> prefix (started s r) (started s' r)"
proof (erule launcher_stepE)
  fix ready assume "s' = snd (tick ready s)"
  then show ?thesis by (auto simp: tick_def advance_def Let_def split: option.splits if_splits prod.splits)
qed (auto simp: enter_def Let_def)

lemma launcher_steps_started: "launcher_step\<^sup>*\<^sup>* s s' \<Longrightarrow> prefix (started s r) (started s' r)"
  by (induction rule: rtranclp_induct) (auto intro: launcher_step_started prefix_order.trans)

lemma tick_waiting:
  assumes "waiting s r = Some q" "turn s \<noteq> None"
  shows "started (snd (tick ready s)) r = started s r @ [q]
    \<or> waiting (snd (tick ready s)) r = Some q \<and> turn (snd (tick ready s)) \<noteq> None
      \<and> started (snd (tick ready s)) r = started s r
      \<and> expiries_needed r (snd (tick ready s)) \<le> expiries_needed r s
      \<and> ((\<forall>t. under_way s t \<noteq> None \<longrightarrow> ready t)
          \<longrightarrow> expiries_needed r (snd (tick ready s)) < expiries_needed r s \<and> expiries_needed r s \<noteq> 1)"
proof -
  obtain t where t: "turn s = Some t" using assms(2) by auto
  consider "t = r" | "t = other_role r" using role_cases by blast
  then show ?thesis using assms t
    by cases (auto simp: tick_def advance_def expiries_needed_def Let_def split: option.splits if_splits)
qed

lemma enter_pending_takes_none: "launcher_inv s \<Longrightarrow> takes r p s = [] \<Longrightarrow> enter_pending r p s = s"
  using enter_pending_refused [of s r p] by (auto simp: takes_def enter_pending_def split: option.splits if_splits)

lemma enter_both_takes_none:
  assumes "rl_inv w" "\<And>r. takes r (pending r w) (launcher_of w) = []"
  shows "enter_both w = launcher_of w"
  using assms enter_pending_takes_none [of "launcher_of w"] by (simp add: enter_both_def rl_inv_def)

lemma run_started:
  assumes "fresh_alloc zalloc" "rl_inv w" "run_res (rl_exec zalloc) evs w = Inr w'"
  shows "prefix (started (launcher_of w) r) (started (launcher_of w') r)"
  using launcher.run_ok [of w zalloc evs] assms by (auto intro: launcher_steps_started)

lemma run_starts_waiting:
  "\<lbrakk>fresh_alloc zalloc; rl_inv w; run_res (rl_exec zalloc) evs w = Inr w'; waiting (launcher_of w) r = Some q;
    taken zalloc (other_role r) evs (pending (other_role r) w) w = [];
    expiries_needed r (launcher_of w) \<le> ready_expiries zalloc evs w\<rbrakk> \<Longrightarrow>
    prefix (started (launcher_of w) r @ [q]) (started (launcher_of w') r)"
proof (induction evs arbitrary: w)
  case Nil
  then show ?case by (simp add: expiries_needed_def split: if_splits)
next
  case (Cons ev evs)
  then obtain v where v: "rl_exec zalloc ev w = Inr v" "run_res (rl_exec zalloc) evs v = Inr w'" by (auto split: sum.splits)
  note inv = rl_exec_inv [OF Cons.prems(2,1) v(1)]
  have li: "launcher_inv (launcher_of w)" using Cons.prems(2) by (simp add: rl_inv_def)
  show ?case
  proof (cases "ev = Ev_launch_timer")
    case True
    note t = rl_exec_tick [of w zalloc v "other_role r", OF Cons.prems(2)]
    have turn: "turn (launcher_of w) \<noteq> None" using li Cons.prems(4) by (auto simp: launcher_inv_def)
    have tk: "taken zalloc (other_role r) evs (pending (other_role r) v) v = []"
      using Cons.prems(5) v(1) t True by (simp add: enters_def offers_def)
    show ?thesis
    proof (cases "started (launcher_of v) r = started (launcher_of w) r @ [q]")
      case True
      with run_started [OF Cons.prems(1) inv v(2), of r] show ?thesis by simp
    next
      case False
      have all: "all_ready w \<longleftrightarrow> (\<forall>s. under_way (launcher_of w) s \<noteq> None \<longrightarrow> role_ready w s)"
        using all_roles [of "\<lambda>s. under_way (launcher_of w) s \<noteq> None \<longrightarrow> role_ready w s"] by (simp add: all_ready_def)
      have "waiting (launcher_of v) r = Some q \<and> started (launcher_of v) r = started (launcher_of w) r
        \<and> expiries_needed r (launcher_of v) \<le> ready_expiries zalloc evs v"
      proof (cases "t_active (rl_timer (g_role_launch w))")
        case True
        then have l: "launcher_of v = snd (tick (role_ready w) (launcher_of w))" using t v(1) \<open>ev = _\<close> by simp
        have n: "expiries_needed r (launcher_of w) \<le> (if all_ready w then 1 else 0) + ready_expiries zalloc evs v"
          using Cons.prems(6) v(1) True \<open>ev = _\<close> by simp
        from tick_waiting [OF Cons.prems(4) turn, of "role_ready w"] False n show ?thesis
          unfolding l all by (auto split: if_splits)
      next
        case False
        then show ?thesis using t v(1) \<open>ev = _\<close> Cons.prems(4,6) by simp
      qed
      with Cons.IH [OF Cons.prems(1) inv v(2) _ tk] show ?thesis by simp
    qed
  next
    case False
    note e = rl_exec_effect [OF Cons.prems(2,1) v(1) False]
    have tk: "taken zalloc (other_role r) evs (pending (other_role r) v) v = []"
      using Cons.prems(5) v(1) e [of "other_role r"] by (auto split: if_splits)
    have "takes s (pending s w) (launcher_of w) = []" if "enters ev w" for s
      using that Cons.prems(4,5) v(1) role_cases [of s r] by (auto simp: takes_def split: option.splits)
    then have "launcher_of v = launcher_of w"
      using e [of r] enter_both_takes_none [OF Cons.prems(2)] by auto
    with Cons.IH [OF Cons.prems(1) inv v(2) _ tk] Cons.prems(4,6) v(1) False show ?thesis by simp
  qed
qed

end
