(* ===== verification/Role_Launch_Props.thy ===== *)
theory Role_Launch_Props
  imports Role_Launch_Order
begin

text \<open>
  The properties of the role launcher, from the lemmas on single events: safety of every run from the start,
  the timer of a waiting request, refinement of the specification, the order of requests, progress, the
  interrupt masks, and the two places where launching is not serialised as it means to be. The witnesses
  run the launcher from \<open>booted\<close>, the state after \<open>rl_init\<close>.
\<close>

section \<open>A concrete launcher\<close>

definition ex_zalloc :: "(u32 \<rightharpoonup> RL_ENTITY_T) \<Rightarrow> u32" where
  "ex_zalloc h = (if h 0x1000 = None then 0x1000 else if h 0x2000 = None then 0x2000
     else if h 0x3000 = None then 0x3000 else if h 0x4000 = None then 0x4000 else 0)"

lemma ex_zalloc_fresh: "fresh_alloc ex_zalloc"
  by (simp add: fresh_alloc_def ex_zalloc_def)

lemma ex_zalloc_roomy: "roomy ex_zalloc"
proof -
  have "\<not> card (dom h) < 4" if "ex_zalloc h = 0" for h
  proof -
    have "{0x1000, 0x2000, 0x3000, 0x4000} \<subseteq> dom h" using that by (auto simp: ex_zalloc_def split: if_splits)
    then have "card {0x1000, 0x2000, 0x3000, 0x4000 :: u32} \<le> card (dom h)" by (intro card_mono) simp_all
    then show ?thesis by simp
  qed
  then show ?thesis by (auto simp: roomy_def)
qed

definition sta_req :: LAUNCH_REQ where "sta_req = \<lparr>descr = zero_descr, req_type = LAUNCH_REQ_STA\<rparr>"
definition ap_req :: LAUNCH_REQ where "ap_req = \<lparr>descr = zero_descr, req_type = LAUNCH_REQ_AP\<rparr>"

definition booted :: rl_world where
  "booted = (case rl_init 0x10 0x20 rl_boot of Inl _ \<Rightarrow> rl_boot | Inr w \<Rightarrow> w)"

lemma booted: "rl_init 0x10 0x20 (rl_boot\<lparr>tmr_results := []\<rparr>) = Inr booted"
  by (simp add: booted_def rl_boot_def rl_init_def rtos_init_oneshot_timer_def Let_def)

lemma booted_eq: "booted = rl_boot\<lparr>g_role_launch := zero_role_launch\<lparr>
    rl_timer := \<lparr>t_handle = 0x10, t_function = Some Launch_handler, t_magic = BEKEN_MAGIC_WORD, t_period = 125, t_active = False\<rparr>,
    enter_timer := \<lparr>t_handle = 0x20, t_function = Some Enter_handler, t_magic = BEKEN_MAGIC_WORD, t_period = 75, t_active = False\<rparr>,
    rl_timer_flag := RL_TIMER_INIT\<rparr>\<rparr>"
  by (simp add: booted_def rl_boot_def rl_init_def rtos_init_oneshot_timer_def Let_def)

lemmas boot_defs = booted_eq rl_boot_def zero_role_launch_def zero_socket_def


lemmas boot_simps = boot_defs zero_timer_def zero_cache_def

lemma req_simps [simp]: "req_type sta_req = 1" "req_type ap_req = 2"
  by (simp_all add: sta_req_def ap_req_def)

lemmas ev_simps = run_handler_def timer_callback2_def rl_enter_handler_eq sta_stage_def ap_stage_def
  sta_request_enter_def ap_request_enter_def int_disable_def rl_alloc_entity_def
  rl_sta_request_enter_calm rl_ap_request_enter_def restart_enter_timer_calm
  rl_start_def on_rl_timer_def next_result_def rtos_stop_oneshot_timer_def rtos_start_oneshot_timer_def
  claim_turn_def int_restore_def ex_zalloc_def cache_sta_def zero_socket_def
  rl_sta_request_start_Some rl_ap_request_start_Some
  sta_started_def ap_started_def Let_def rl_pre_sta_set_status_eq
  rl_launch_handler_def rl_launch_sta_def rl_launch_ap_def rl_entity_def rl_free_entity_def
  rl_sta_may_next_launch_def rl_ap_may_next_launch_def rl_pre_sta_get_status_def rl_pre_sta_set_cancel_def
  rl_relaunch_chance_def rtos_is_oneshot_timer_init_def rtos_oneshot_reload_timer_def rl_pre_ap_init_def

lemmas ex_facts = ex_zalloc_fresh ex_zalloc_roomy booted rl_init_inv [OF booted]

lemma ex_calm: "calm ex_zalloc booted"
  using rl_init_inv(3) [OF booted] ex_zalloc_roomy by (simp add: calm_def)

text \<open>A run from \<open>booted\<close> ends, in a state of the invariant.\<close>

lemma ex_run_inv: "run_res (rl_exec ex_zalloc) evs booted = Inr w \<Longrightarrow> rl_inv w \<and> armed w \<and> calm ex_zalloc w"
  using calm_launcher.run_ok [of booted ex_zalloc evs] ex_facts ex_calm by simp

definition ex_first :: "rl_event list" where
  "ex_first = [Ev_sta_request sta_req 0, Ev_enter_timer 1, Ev_sta_status 9]"

definition ex_queued :: "rl_event list" where
  "ex_queued = ex_first @ [Ev_sta_request sta_req 0, Ev_enter_timer 1]"

definition ex_mixed :: "rl_event list" where
  "ex_mixed = ex_queued @ [Ev_launch_timer, Ev_sta_status 9, Ev_launch_timer,
     Ev_sta_request sta_req 0, Ev_ap_request ap_req 0, Ev_enter_timer 1]"

lemma ex_first_run:
  "\<exists>w. run_res (rl_exec ex_zalloc) ex_first booted = Inr w \<and> jl_previous_sta (g_role_launch w) = 0x1000
    \<and> jl_following_sta (g_role_launch w) = 0 \<and> jl_following_ap (g_role_launch w) = 0
    \<and> c_sta_req_flag (g_sta_cache w) = 1 \<and> c_sta_param (g_sta_cache w) = sta_req \<and> \<not> monitor_mode w
    \<and> ap_req_flag (g_rl_socket w) = 0 \<and> g_mrole_csa_flag w = 0 \<and> pre_sta_status (g_role_launch w) = 9
    \<and> started (launcher_of w) Sta = [sta_req]"
  by (simp add: ex_first_def boot_simps ev_simps launcher_of_def)

lemma ex_queued_run:
  "\<exists>w. run_res (rl_exec ex_zalloc) ex_queued booted = Inr w \<and> t_active (rl_timer (g_role_launch w))
    \<and> launcher_of w = \<lparr>under_way = (\<lambda>_. None)(Sta := Some sta_req), waiting = (\<lambda>_. None)(Sta := Some sta_req),
        started = (\<lambda>_. [])(Sta := [sta_req]), turn = Some Sta\<rparr> \<and> role_ready w Sta"
  by (simp add: ex_queued_def ex_first_def boot_simps ev_simps launcher_of_def fun_eq_roles sta_ready_def)

lemma ex_mixed_run:
  "\<exists>w. run_res (rl_exec ex_zalloc) ex_mixed booted = Inr w \<and> t_active (rl_timer (g_role_launch w))
    \<and> under_way (launcher_of w) Ap = None \<and> under_way (launcher_of w) Sta = Some sta_req
    \<and> waiting (launcher_of w) Ap = Some ap_req \<and> turn (launcher_of w) = Some Ap
    \<and> started (launcher_of w) Ap = [] \<and> pre_sta_status (g_role_launch w) = RL_STATUS_STA_INITING"
  by (simp add: ex_mixed_def ex_queued_def ex_first_def boot_simps ev_simps launcher_of_def)

section \<open>Every run\<close>

text \<open>C11: From the start of the launcher, whatever the callers, timers and the Wi-Fi stack do and in whatever order,
  a run dereferences no null pointer, reads and frees only allocated entities, and the allocated entities are
  exactly those of the four slots, each in one slot: nothing leaks and nothing is freed twice. The only fault
  is a failed assertion, when memory is short or a timer command fails.\<close>

theorem rl_run_safe:
  assumes "fresh_alloc zalloc" "rl_init h1 h2 (rl_boot\<lparr>tmr_results := rs\<rparr>) = Inr w"
  shows "case run_res (rl_exec zalloc) evs w of Inl e \<Rightarrow> e = Assert_failed | Inr w' \<Rightarrow> entities_ok w'"
  using launcher.run_ok [of w zalloc evs] rl_init_inv [OF assms(2)] assms(1)
  by (auto simp: rl_inv_def split: sum.splits)

theorem rl_run_safe_witness:
  "\<exists>w. run_res (rl_exec ex_zalloc) ex_queued booted = Inr w \<and> entities_ok w"
  using rl_run_safe [OF ex_zalloc_fresh booted, of ex_queued] ex_queued_run by auto

text \<open>C13: As long as timer commands pass and there is memory for four entities, no run faults, and whenever a request
  waits the launch timer is active with the launch handler behind it: no queued request is forgotten.\<close>

theorem waiting_request_has_timer:
  assumes "fresh_alloc zalloc" "roomy zalloc" "rl_init h1 h2 rl_boot = Inr w"
  shows "\<exists>w'. run_res (rl_exec zalloc) evs w = Inr w' \<and> tmr_results w' = []
    \<and> (jl_following_sta (g_role_launch w') \<noteq> 0 \<or> jl_following_ap (g_role_launch w') \<noteq> 0
        \<longrightarrow> t_active (rl_timer (g_role_launch w')) \<and> timer_callback2 (rl_timer (g_role_launch w')) = Some Launch_handler)"
proof -
  have "rl_boot\<lparr>tmr_results := []\<rparr> = rl_boot" by (simp add: rl_boot_def)
  with assms rl_init_inv [of h1 h2 "[]" w] have "rl_inv w" "armed w" "calm zalloc w" by (auto simp: calm_def)
  with calm_launcher.run_ok [of w zalloc evs] assms(1) obtain w' where
    w': "run_res (rl_exec zalloc) evs w = Inr w'" "rl_inv w'" "armed w'" "calm zalloc w'"
    by (auto split: sum.splits)
  then have "entities_ok w'" "timers_ok w'" by (simp_all add: rl_inv_def)
  with w' under_way_iff(2) [of w' Sta] under_way_iff(2) [of w' Ap] show ?thesis
    by (auto simp: armed_def calm_def timers_ok_def)
qed

theorem waiting_request_has_timer_witness:
  "\<exists>w. run_res (rl_exec ex_zalloc) ex_queued booted = Inr w \<and> waiting (launcher_of w) Sta = Some sta_req
    \<and> t_active (rl_timer (g_role_launch w))"
proof -
  have b: "rl_init 0x10 0x20 rl_boot = Inr booted" using booted by (simp add: rl_boot_def)
  obtain w where w: "run_res (rl_exec ex_zalloc) ex_queued booted = Inr w"
    "waiting (launcher_of w) Sta = Some sta_req" using ex_queued_run by auto
  have "jl_following_sta (g_role_launch w) \<noteq> 0"
    using under_way_iff(2) [of w Sta] ex_run_inv [OF w(1)] w(2) by (simp add: rl_inv_def)
  then show ?thesis
    using waiting_request_has_timer [OF ex_zalloc_fresh ex_zalloc_roomy b, of ex_queued] w by auto
qed

text \<open>C15: From any state of the invariant, over any run, the requests of a role that were accepted (started, then
  waiting, in that order) are those accepted before followed by exactly the requests the run takes, in the order they were
  taken: none is lost, started twice, reordered or made up. A run takes the last request offered for the role by a
  caller, or by the report of a lost connection, before the enter timer expires, unless one of the role waits.\<close>

theorem requests_in_order:
  assumes "fresh_alloc zalloc" "rl_inv w" "run_res (rl_exec zalloc) evs w = Inr w'"
  shows "accepted r (launcher_of w') = accepted r (launcher_of w) @ taken zalloc r evs (pending r w) w"
  using assms by (rule run_accepts_taken)

text \<open>Two requests of the station with the enter timer between them are both taken, a third that follows the second is
  refused; of two access-point requests before the timer, the second is taken.\<close>

definition sta_req_dhcp :: LAUNCH_REQ where "sta_req_dhcp = sta_req\<lparr>descr := zero_descr\<lparr>dhcp_mode := 1\<rparr>\<rparr>"

definition ex_orders :: "rl_event list" where
  "ex_orders = [Ev_sta_request sta_req 0, Ev_enter_timer 1, Ev_sta_request sta_req_dhcp 0, Ev_enter_timer 1,
     Ev_sta_request sta_req 0, Ev_ap_request sta_req 0, Ev_ap_request ap_req 0, Ev_enter_timer 1]"

lemma ex_orders_run:
  "\<exists>w. run_res (rl_exec ex_zalloc) ex_orders booted = Inr w
    \<and> taken ex_zalloc Sta ex_orders (pending Sta booted) booted = [sta_req, sta_req_dhcp]
    \<and> taken ex_zalloc Ap ex_orders (pending Ap booted) booted = [ap_req]
    \<and> started (launcher_of w) Sta = [sta_req] \<and> waiting (launcher_of w) Sta = Some sta_req_dhcp"
  by (simp add: ex_orders_def boot_simps ev_simps launcher_of_def enters_def offers_def takes_def pending.simps sta_req_dhcp_def)

theorem requests_in_order_witness:
  "\<exists>w. run_res (rl_exec ex_zalloc) ex_orders booted = Inr w
    \<and> accepted Sta (launcher_of w) = [sta_req, sta_req_dhcp] \<and> accepted Ap (launcher_of w) = [ap_req] \<and> sta_req \<noteq> sta_req_dhcp"
proof -
  obtain w where w: "run_res (rl_exec ex_zalloc) ex_orders booted = Inr w"
    "taken ex_zalloc Sta ex_orders (pending Sta booted) booted = [sta_req, sta_req_dhcp]"
    "taken ex_zalloc Ap ex_orders (pending Ap booted) booted = [ap_req]" using ex_orders_run by blast
  have "sta_req \<noteq> sta_req_dhcp" by (simp add: sta_req_dhcp_def sta_req_def zero_descr_def)
  with requests_in_order [OF ex_zalloc_fresh ex_facts(4) w(1)] w rl_init_inv(4) [OF booted] show ?thesis by simp
qed

section \<open>The handlers refine the specification\<close>

text \<open>C12: When the launch timer expires, the handler does one tick of the specification: the role whose turn it is
  stays while its request is not ready to give way, otherwise starts its waiting request, and when it has
  nothing left the other role gets the turn. It returns, and leaves the interrupt masks as they were.\<close>

theorem rl_launch_handler_refines:
  assumes "rl_inv w"
  shows "\<exists>w'. rl_launch_handler w = Inr w' \<and> rl_inv w'
    \<and> launcher_of w' = snd (tick (role_ready w) (launcher_of w)) \<and> masks_kept w w'"
  using assms by (rule rl_launch_handler_tick)

theorem rl_launch_handler_refines_witness:
  "\<exists>w w'. run_res (rl_exec ex_zalloc) ex_queued booted = Inr w \<and> rl_launch_handler w = Inr w'
    \<and> started (launcher_of w') Sta = [sta_req, sta_req]"
proof -
  obtain w where w: "run_res (rl_exec ex_zalloc) ex_queued booted = Inr w" "role_ready w Sta"
    "launcher_of w = \<lparr>under_way = (\<lambda>_. None)(Sta := Some sta_req), waiting = (\<lambda>_. None)(Sta := Some sta_req),
        started = (\<lambda>_. [])(Sta := [sta_req]), turn = Some Sta\<rparr>"
    using ex_queued_run by auto
  then show ?thesis using rl_launch_handler_refines [of w] ex_run_inv [OF w(1)]
    by (auto simp: tick_def advance_def)
qed

text \<open>Entering a request of either role does what the specification says: it is started at once when nothing is
  under way, waits when the slot of its role is free, and is refused otherwise; the result says which, and
  exactly an accepted request joins the requests of its role.\<close>

theorem request_enter_refines:
  assumes "rl_inv w" "fresh_alloc zalloc"
    and "(case r of Sta \<Rightarrow> sta_request_enter | Ap \<Rightarrow> ap_request_enter) zalloc q cb w = Inr (ret, w')"
  shows "enter r q (launcher_of w) = (ret, launcher_of w')
    \<and> accepted r (launcher_of w') = accepted r (launcher_of w) @ (if ret \<noteq> 0 then [q] else [])
    \<and> rl_inv w' \<and> masks_kept w w'"
proof -
  have "request_enter r zalloc q cb w = Inr (ret, w')" using assms(3) by (cases r) simp_all
  with assms(1,2) show ?thesis by (rule request_enter_step)
qed

theorem request_enter_refines_witness:
  "\<exists>w. sta_request_enter ex_zalloc sta_req 0 booted = Inr (1, w) \<and> accepted Sta (launcher_of w) = [sta_req]"
proof -
  obtain w where w: "sta_request_enter ex_zalloc sta_req 0 booted = Inr (1, w)"
    by (simp add: boot_simps ev_simps)
  then have "(case Sta of Sta \<Rightarrow> sta_request_enter | Ap \<Rightarrow> ap_request_enter) ex_zalloc sta_req 0 booted = Inr (1, w)"
    by simp
  from request_enter_refines [OF ex_facts(4) ex_zalloc_fresh this] rl_init_inv(4) [OF booted, of Sta] w
  show ?thesis by auto
qed

section \<open>Progress\<close>

lemma waiting_request_starts:
  assumes "rl_inv w" "t_active (rl_timer (g_role_launch w))" "waiting (launcher_of w) r = Some q"
    and "\<And>s. under_way (launcher_of w) s \<noteq> None \<Longrightarrow> role_ready w s"
    and "turn (launcher_of w) = Some r \<or> waiting (launcher_of w) (other_role r) = None"
  shows "\<exists>w'. rl_exec zalloc Ev_launch_timer w = Inr w' \<and> rl_inv w'
    \<and> under_way (launcher_of w') r = Some q \<and> started (launcher_of w') r = started (launcher_of w) r @ [q]"
proof -
  obtain w' where w': "rl_exec zalloc Ev_launch_timer w = Inr w'" "rl_inv w'"
    "launcher_of w' = snd (tick (role_ready w) (launcher_of w))"
    using rl_exec_launch_timer [OF assms(1,2)] by blast
  have li: "launcher_inv (launcher_of w)" using assms(1) by (simp add: rl_inv_def)
  have "turn (launcher_of w) \<noteq> None" using li assms(3) by (auto simp: launcher_inv_def)
  then obtain r' where r': "turn (launcher_of w) = Some r'" by auto
  have "under_way (launcher_of w') r = Some q \<and> started (launcher_of w') r = started (launcher_of w) r @ [q]"
    unfolding w'(3)
  proof (rule tick_starts [OF r' assms(3)])
    show "r' = r \<or> waiting (launcher_of w) r' = None" using assms(5) r' role_cases [of r' r] by auto
  qed (use assms(4) in blast)
  with w' show ?thesis by blast
qed

text \<open>C35: A request that waits is started, after all requests of its role started before, by the second expiry of the
  launch timer in the run that finds what is under way ready to give way, and by the first when it is the turn of its
  role or the other role has none waiting; whatever else happens, expiries at which something is not ready included,
  provided that the other role takes no new request meanwhile. (One that does keeps the turn, and the request waits on.)\<close>

theorem waiting_request_is_started:
  assumes "fresh_alloc zalloc" "rl_inv w" "run_res (rl_exec zalloc) evs w = Inr w'"
    and "waiting (launcher_of w) r = Some q" "taken zalloc (other_role r) evs (pending (other_role r) w) w = []"
    and "(if turn (launcher_of w) = Some r \<or> waiting (launcher_of w) (other_role r) = None then 1 else 2)
      \<le> ready_expiries zalloc evs w"
  shows "prefix (started (launcher_of w) r @ [q]) (started (launcher_of w') r)"
  using run_starts_waiting [OF assms(1-5)] assms(6) by (simp add: expiries_needed_def)

text \<open>Both roles wait and it is the turn of the station; the access point is started by the second expiry.\<close>

definition ex_both :: "rl_event list" where
  "ex_both = ex_queued @ [Ev_ap_request ap_req 0, Ev_enter_timer 1]"

definition ex_two_expiries :: "rl_event list" where
  "ex_two_expiries = [Ev_launch_timer, Ev_launch_timer, Ev_sta_status 9, Ev_launch_timer]"

lemma ex_both_run:
  "\<exists>w w'. run_res (rl_exec ex_zalloc) ex_both booted = Inr w \<and> turn (launcher_of w) = Some Sta
    \<and> waiting (launcher_of w) Sta = Some sta_req \<and> waiting (launcher_of w) Ap = Some ap_req \<and> started (launcher_of w) Ap = []
    \<and> run_res (rl_exec ex_zalloc) ex_two_expiries w = Inr w'
    \<and> taken ex_zalloc Sta ex_two_expiries (pending Sta w) w = [] \<and> ready_expiries ex_zalloc ex_two_expiries w = 2"
  by (simp add: ex_both_def ex_two_expiries_def ex_queued_def ex_first_def boot_simps ev_simps launcher_of_def
      enters_def offers_def takes_def pending.simps all_ready_def sta_ready_def ap_ready_def)

theorem waiting_request_is_started_witness:
  "\<exists>w w'. run_res (rl_exec ex_zalloc) ex_both booted = Inr w \<and> started (launcher_of w) Ap = []
    \<and> run_res (rl_exec ex_zalloc) ex_two_expiries w = Inr w' \<and> prefix [ap_req] (started (launcher_of w') Ap)"
proof -
  obtain w w' where w: "run_res (rl_exec ex_zalloc) ex_both booted = Inr w" "waiting (launcher_of w) Ap = Some ap_req"
    "started (launcher_of w) Ap = []" "run_res (rl_exec ex_zalloc) ex_two_expiries w = Inr w'"
    "taken ex_zalloc Sta ex_two_expiries (pending Sta w) w = []" "ready_expiries ex_zalloc ex_two_expiries w = 2"
    using ex_both_run by blast
  then show ?thesis
    using waiting_request_is_started [of ex_zalloc w ex_two_expiries w' Ap ap_req] ex_run_inv [OF w(1)] ex_zalloc_fresh by simp
qed

text \<open>The cached request of the station is entered again when the connection is lost, and waits.\<close>

definition connected :: "((u32 \<rightharpoonup> RL_ENTITY_T) \<Rightarrow> u32) \<Rightarrow> rl_world \<Rightarrow> bool" where
  "connected zalloc w \<longleftrightarrow> rl_inv w \<and> fresh_alloc zalloc \<and> calm zalloc w \<and> \<not> monitor_mode w
    \<and> jl_previous_sta (g_role_launch w) \<noteq> 0 \<and> jl_following_sta (g_role_launch w) = 0
    \<and> jl_following_ap (g_role_launch w) = 0 \<and> c_sta_req_flag (g_sta_cache w) \<noteq> 0
    \<and> ap_req_flag (g_rl_socket w) = 0 \<and> g_mrole_csa_flag w \<noteq> RL_STATUS_MROLE_CHANNEL_SWITCHING"

lemma lost_request_waits:
  assumes w: "connected zalloc w" and "ptr \<noteq> 0"
    and lost: "reason = VENDOR_CONNECTION_LOSS \<or> RL_STATUS_STA_SCANNING \<le> rl_pre_sta_get_status w"
  shows "\<exists>u. run_res (rl_exec zalloc) [Ev_disconnect reason, Ev_enter_timer ptr] w = Inr u
    \<and> rl_inv u \<and> t_active (rl_timer (g_role_launch u)) \<and> (\<forall>s. role_ready u s)
    \<and> waiting (launcher_of u) Ap = None \<and> waiting (launcher_of u) Sta = Some (c_sta_param (g_sta_cache w))
    \<and> started (launcher_of u) = started (launcher_of w)"
proof -
  let ?q = "c_sta_param (g_sta_cache w)" and ?cb = "c_sta_completion (g_sta_cache w)"
  let ?v = "(upd_rl (enter_timer_update (t_active_update (\<lambda>_. False))) (lost w))\<lparr>g_rl_socket := zero_socket\<rparr>"
  have inv: "rl_inv w" and fresh: "fresh_alloc zalloc" and tm: "tmr_results w = []"
    using w by (simp_all add: connected_def calm_def)
  have za: "zalloc (rl_heap w) \<noteq> 0"
    using w by (intro roomy_slot) (auto simp: connected_def calm_def rl_inv_def rl_slots_def)
  have e1: "rl_exec zalloc (Ev_disconnect reason) w = Inr (lost w)"
    using sm_disconnect_ind_cached [OF tm _ _ lost] w by (simp add: connected_def)
  have "rl_outside w ?v" by (simp add: rl_outside_def rl_slots_def lost_def timer_callback2_def Let_def)
  then have v: "rl_inv ?v" "launcher_of ?v = launcher_of w" using inv by (simp_all add: rl_outside_inv rl_outside_launcher)
  obtain u where u: "request_enter Sta zalloc ?q ?cb ?v = Inr (2, u)" "g_mrole_csa_flag u = g_mrole_csa_flag w"
    "pre_sta_status (g_role_launch u) = RL_STATUS_STA_LAUNCH_FAILED" "jl_following_ap (g_role_launch u) = 0"
    using request_enter_waits [of ?v zalloc ?q ?cb] tm za w by (auto simp: connected_def lost_def Let_def)
  have eu: "enter Sta ?q (launcher_of w) = (2, launcher_of u)" "rl_inv u" "t_active (rl_timer (g_role_launch u))"
    using request_enter_step [OF v(1) fresh u(1)] request_enter_ok [of ?v zalloc Sta ?q ?cb] v fresh u(1)
    by (auto simp: rl_inv_def entered_def)
  let ?u = "cache_sta (g_rl_socket (lost w)) (2, u)"
  have ou: "rl_outside u ?u" by (simp add: cache_sta_def rl_outside_def)
  have "rl_inv (lost w)" using e1 rl_exec_post [OF inv fresh, of "Ev_disconnect reason"] by (simp add: ev_post_def)
  then have "timer_callback2 (enter_timer (g_role_launch (lost w))) = Some Enter_handler"
    by (simp add: rl_inv_def timers_ok_def)
  then have "rl_exec zalloc (Ev_enter_timer ptr) (lost w) = Inr ?u"
    using u(1) w assms(2)
    by (simp add: run_handler_def rl_enter_handler_eq sta_stage_def ap_stage_def connected_def lost_def Let_def)
  moreover have "role_ready ?u s" for s
    using u w by (cases s) (auto simp: connected_def sta_ready_def ap_ready_def cache_sta_def Let_def)
  moreover have "waiting (launcher_of u) Ap = None"
    using under_way_iff(2) [of u Ap] u(4) eu(2) by (simp add: rl_inv_def)
  moreover have "rl_inv ?u" "launcher_of ?u = launcher_of u" "t_active (rl_timer (g_role_launch ?u))"
    using rl_outside_inv [OF ou] rl_outside_launcher [OF ou] eu by (simp_all add: cache_sta_def)
  ultimately show ?thesis using e1 enter_second [OF eu(1)] by auto
qed

text \<open>C14: A station that was launched and loses its access point is launched again: the report of the firmware, the
  enter timer and one expiry of the launch timer start the same request anew, also when an access point runs
  beside it, provided no channel switch is under way.\<close>

theorem station_reconnects:
  assumes "connected zalloc w" "ptr \<noteq> 0"
    and "reason = VENDOR_CONNECTION_LOSS \<or> RL_STATUS_STA_SCANNING \<le> rl_pre_sta_get_status w"
  shows "\<exists>w'. run_res (rl_exec zalloc) [Ev_disconnect reason, Ev_enter_timer ptr, Ev_launch_timer] w = Inr w'
    \<and> rl_inv w' \<and> under_way (launcher_of w') Sta = Some (c_sta_param (g_sta_cache w))
    \<and> started (launcher_of w') Sta = started (launcher_of w) Sta @ [c_sta_param (g_sta_cache w)]"
proof -
  obtain u where u: "run_res (rl_exec zalloc) [Ev_disconnect reason, Ev_enter_timer ptr] w = Inr u"
    "rl_inv u" "t_active (rl_timer (g_role_launch u))" "\<And>s. role_ready u s" "waiting (launcher_of u) Ap = None"
    "waiting (launcher_of u) Sta = Some (c_sta_param (g_sta_cache w))" "started (launcher_of u) = started (launcher_of w)"
    using lost_request_waits [OF assms] by auto
  obtain w' where "rl_exec zalloc Ev_launch_timer u = Inr w'" "rl_inv w'"
    "under_way (launcher_of w') Sta = Some (c_sta_param (g_sta_cache w))"
    "started (launcher_of w') Sta = started (launcher_of u) Sta @ [c_sta_param (g_sta_cache w)]"
    using waiting_request_starts [OF u(2,3,6), of zalloc] u(4,5) by auto
  with u(1,7) show ?thesis by (auto split: sum.splits)
qed

theorem station_reconnects_witness:
  "\<exists>w w'. run_res (rl_exec ex_zalloc) ex_first booted = Inr w
    \<and> run_res (rl_exec ex_zalloc) [Ev_disconnect VENDOR_CONNECTION_LOSS, Ev_enter_timer 1, Ev_launch_timer] w = Inr w'
    \<and> started (launcher_of w') Sta = [sta_req, sta_req]"
proof -
  obtain w where w: "run_res (rl_exec ex_zalloc) ex_first booted = Inr w" "jl_previous_sta (g_role_launch w) = 0x1000"
    "jl_following_sta (g_role_launch w) = 0" "jl_following_ap (g_role_launch w) = 0"
    "c_sta_req_flag (g_sta_cache w) = 1" "c_sta_param (g_sta_cache w) = sta_req" "\<not> monitor_mode w"
    "ap_req_flag (g_rl_socket w) = 0" "g_mrole_csa_flag w = 0" "started (launcher_of w) Sta = [sta_req]"
    using ex_first_run by auto
  have "connected ex_zalloc w" using w ex_run_inv [OF w(1)] ex_zalloc_fresh by (simp add: connected_def)
  from station_reconnects [OF this, of 1 VENDOR_CONNECTION_LOSS] w(1,6,10) show ?thesis by auto
qed

section \<open>The interrupt masks\<close>

text \<open>Every event but a scan report leaves the masks of FIQ and IRQ as it found them.\<close>

theorem interrupts_restored:
  assumes "rl_inv w" "fresh_alloc zalloc" "rl_exec zalloc ev w = Inr w'"
    and "ev \<noteq> Ev_scan" "ev \<noteq> Ev_sta_status RL_STATUS_STA_SCANNING"
  shows "fiq_off w' = fiq_off w \<and> irq_off w' = irq_off w"
proof -
  have "masks_kept w w'"
  proof (cases ev)
    case (Ev_enter_timer ptr)
    let ?v = "upd_rl (enter_timer_update (t_active_update (\<lambda>_. False))) w"
    have "rl_outside w ?v" by (simp add: rl_outside_def rl_slots_def timer_callback2_def)
    then have "rl_inv ?v" using assms(1) rl_outside_inv by blast
    moreover have "timer_callback2 (enter_timer (g_role_launch w)) = Some Enter_handler"
      using assms(1) by (simp add: rl_inv_def timers_ok_def)
    ultimately show ?thesis using assms(2,3) Ev_enter_timer masks_enter_handler [of ?v zalloc ptr w']
      by (auto simp: run_handler_def Let_def masks_kept_def split: if_splits)
  next
    case Ev_launch_timer
    then show ?thesis using assms(1,3) rl_exec_launch_timer [OF assms(1), of zalloc]
      by (cases "t_active (rl_timer (g_role_launch w))") (auto simp: Let_def)
  next
    case (Ev_sta_status s)
    then show ?thesis using assms(3,5) masks_set_status(1) [of s w] by simp
  next
    case (Ev_ap_status s)
    then show ?thesis using assms(3) masks_set_status(2) [of w s] by simp
  qed (use assms(3,4) in \<open>auto dest: request_masks
      simp: rl_set_csa_switching_def rl_set_csa_switched_def rl_pre_ap_disable_autobcn_def call_out_def Let_def
        masks_kept_def split: if_splits\<close>)
  then show ?thesis by (simp add: masks_kept_def)
qed

theorem interrupts_restored_witness:
  "\<exists>w. rl_exec ex_zalloc (Ev_sta_request sta_req 0) booted = Inr w \<and> fiq_off w = fiq_off booted"
proof -
  obtain w where w: "rl_exec ex_zalloc (Ev_sta_request sta_req 0) booted = Inr w"
    by (simp add: boot_simps ev_simps)
  from interrupts_restored [OF ex_facts(4) ex_zalloc_fresh w] w show ?thesis by simp
qed

lemma rl_pre_sta_set_scanning_refused:
  assumes "rl_pre_sta_get_status w \<notin> {RL_STATUS_STA_INITING, RL_STATUS_STA_SCAN_OVER}"
  shows "rl_pre_sta_set_status RL_STATUS_STA_SCANNING w = (6, masked w)"
  using assms by (simp add: rl_pre_sta_set_status_def rl_pre_sta_get_status_def int_disable_def masked_def Let_def)

text \<open>A scan that is asked for while the station is in any status but initialising or scanned is refused, but the
  refusal leaves FIQ and IRQ masked and replaces the status: a connected station is then reported as not
  connected.\<close>

theorem scan_request_refused:
  assumes "rl_pre_sta_get_status w \<notin> {RL_STATUS_STA_INITING, RL_STATUS_STA_SCAN_OVER}"
  shows "\<exists>w'. rw_msg_send_scanu_req w = (-1, w') \<and> fiq_off w' \<and> irq_off w'
    \<and> rl_pre_sta_get_status w' = RL_STATUS_STA_SCAN_OVER \<and> bk_wlan_sta_is_connected w' = 0"
  by (simp add: rw_msg_send_scanu_req_def rl_pre_sta_set_scanning_refused [OF assms] rl_pre_sta_set_status_eq
      rl_pre_sta_get_status_def bk_wlan_sta_is_connected_def)

theorem scan_request_refused_witness:
  "\<exists>w w'. run_res (rl_exec ex_zalloc) ex_first booted = Inr w \<and> bk_wlan_sta_is_connected w = 1
    \<and> rw_msg_send_scanu_req w = (-1, w') \<and> fiq_off w' \<and> irq_off w' \<and> bk_wlan_sta_is_connected w' = 0"
proof -
  obtain w where w: "run_res (rl_exec ex_zalloc) ex_first booted = Inr w" "pre_sta_status (g_role_launch w) = 9"
    using ex_first_run by auto
  have "rl_pre_sta_get_status w \<notin> {RL_STATUS_STA_INITING, RL_STATUS_STA_SCAN_OVER}"
    using w(2) by (simp add: rl_pre_sta_get_status_def)
  moreover have "bk_wlan_sta_is_connected w = 1"
    using w(2) by (simp add: bk_wlan_sta_is_connected_def rl_pre_sta_get_status_def)
  ultimately show ?thesis using scan_request_refused [of w] w(1) by blast
qed

section \<open>Two roles at once\<close>

text \<open>When it is the turn of a role that has no request under way, its waiting request is started at once, even
  while the request of the other role is under way and not ready: two roles are then being launched together,
  which the two slots and the turn are there to prevent. The witness reaches such a state from the start.\<close>

theorem roles_overlap:
  assumes "rl_inv w" "t_active (rl_timer (g_role_launch w))"
    and "turn (launcher_of w) = Some r" "under_way (launcher_of w) r = None"
    and "waiting (launcher_of w) r = Some q" "under_way (launcher_of w) (other_role r) = Some p"
  shows "\<exists>w'. rl_exec zalloc Ev_launch_timer w = Inr w' \<and> started (launcher_of w') r = started (launcher_of w) r @ [q]
    \<and> under_way (launcher_of w') r = Some q \<and> under_way (launcher_of w') (other_role r) = Some p"
  using rl_exec_launch_timer [OF assms(1,2), of zalloc] assms(3-6) by (auto simp: tick_def advance_def)

theorem roles_overlap_witness:
  "\<exists>w w'. run_res (rl_exec ex_zalloc) ex_mixed booted = Inr w \<and> rl_exec ex_zalloc Ev_launch_timer w = Inr w'
    \<and> pre_sta_status (g_role_launch w) = RL_STATUS_STA_INITING
    \<and> under_way (launcher_of w') Ap = Some ap_req \<and> under_way (launcher_of w') Sta = Some sta_req"
proof -
  obtain w where w: "run_res (rl_exec ex_zalloc) ex_mixed booted = Inr w" "t_active (rl_timer (g_role_launch w))"
    "under_way (launcher_of w) Ap = None" "under_way (launcher_of w) Sta = Some sta_req"
    "waiting (launcher_of w) Ap = Some ap_req" "turn (launcher_of w) = Some Ap"
    "pre_sta_status (g_role_launch w) = RL_STATUS_STA_INITING"
    using ex_mixed_run by blast
  from roles_overlap [of w Ap ap_req sta_req ex_zalloc] ex_run_inv [OF w(1)] w show ?thesis by auto
qed

end
