(* ===== verification/Dhcp_Cache.thy ===== *)
theory Dhcp_Cache
  imports Byte_Order
begin

text \<open>
  The DHCP server of \<^verbatim>\<open>func/lwip_intf/dhcpd/dhcp-server.c\<close>, part one: the state \<open>dhcps\<close> of
  \<^verbatim>\<open>dhcp-priv.h\<close>, its cache of leases (\<open>ac_add\<close>, \<open>ac_lookup_mac\<close>, \<open>ac_lookup_ip\<close>, \<open>ac_valid_ip\<close>) and the
  choice of an address for a new client (\<open>next_yiaddr\<close>). Addresses are words in network order, as the code
  keeps them; \<open>current_ip\<close> alone is in host order. The search for a free address is a loop without a bound: it
  ends in every subnet of sixteen addresses or more, and never ends once a smaller one is used up.
\<close>

section \<open>State\<close>

record client_mac_cache =
  client_mac :: "u8 list"
  client_ip :: u32

text \<open>\<open>msg\<close> is \<open>None\<close> for the null pointer. \<open>req_ip\<close> is the field \<open>client_ip\<close> of the struct, the address that
  was requested last. The socket addresses are kept by their IPv4 address; their ports are constants.\<close>

record dhcp_server_data =
  sock :: int
  dnssock :: int
  ctrlsock :: int
  count_clients :: nat
  msg :: "u8 list option"
  uaddr :: u32
  baddr :: u32
  ip_mac_mapping :: "client_mac_cache list"
  netmask :: u32
  my_ip :: u32
  req_ip :: u32
  current_ip :: u32
  router_ip :: u32

definition MAC_IP_CACHE_SIZE :: nat where "MAC_IP_CACHE_SIZE = 8"
definition SERVER_BUFFER_SIZE :: nat where "SERVER_BUFFER_SIZE = 1024"
definition CLIENT_IP_NOT_FOUND :: u32 where "CLIENT_IP_NOT_FOUND = 0"

section \<open>The cache of leases\<close>

definition ac_not_full :: "dhcp_server_data \<Rightarrow> bool" where
  "ac_not_full d = (count_clients d < MAC_IP_CACHE_SIZE)"

text \<open>The result is a C \<open>bool\<close>: the \<open>-1\<close> of the failing branch becomes true.\<close>

definition ac_add :: "u8 list \<Rightarrow> u32 \<Rightarrow> dhcp_server_data \<Rightarrow> bool \<times> dhcp_server_data" where
  "ac_add chaddr ip d =
    (if ac_not_full d
     then (False, d\<lparr>ip_mac_mapping := (ip_mac_mapping d)[count_clients d := \<lparr>client_mac = chaddr, client_ip = ip\<rparr>],
                    count_clients := count_clients d + 1\<rparr>)
     else (True, d))"

text \<open>The entries that the lookup loops visit, in their order.\<close>

definition ac_entries :: "dhcp_server_data \<Rightarrow> client_mac_cache list" where
  "ac_entries d = take (min (count_clients d) MAC_IP_CACHE_SIZE) (ip_mac_mapping d)"

definition ac_lookup_mac :: "u8 list \<Rightarrow> dhcp_server_data \<Rightarrow> u32" where
  "ac_lookup_mac chaddr d =
    (case find (\<lambda>e. client_mac e = chaddr) (ac_entries d) of
       None \<Rightarrow> CLIENT_IP_NOT_FOUND
     | Some e \<Rightarrow> client_ip e)"

definition ac_lookup_ip :: "u32 \<Rightarrow> dhcp_server_data \<Rightarrow> u8 list option" where
  "ac_lookup_ip ip d = map_option client_mac (find (\<lambda>e. client_ip e = ip) (ac_entries d))"

definition ac_valid_ip :: "u32 \<Rightarrow> dhcp_server_data \<Rightarrow> bool" where
  "ac_valid_ip requested_ip d =
    (if requested_ip = ntohl (my_ip d)
        \<or> requested_ip = ntohl (my_ip d AND netmask d)
        \<or> requested_ip = ntohl (my_ip d OR (0xFFFFFFFF AND NOT (netmask d)))
     then False
     else ac_lookup_ip (htonl requested_ip) d = None)"

definition dhcp_get_ip_from_mac :: "u8 list \<Rightarrow> dhcp_server_data \<Rightarrow> int \<times> u32" where
  "dhcp_get_ip_from_mac mac d =
    (let ip = ac_lookup_mac mac d in (if ip = CLIENT_IP_NOT_FOUND then -1 else 0, ip))"

text \<open>\<open>inet_ntoa\<close> of lwIP is the parameter \<open>ntoa\<close>; the null result is \<open>None\<close>.\<close>

definition dhcp_lookup_mac :: "(u32 \<Rightarrow> string) \<Rightarrow> u8 list \<Rightarrow> dhcp_server_data \<Rightarrow> string option" where
  "dhcp_lookup_mac ntoa chaddr d =
    map_option (\<lambda>e. ntoa (client_ip e)) (find (\<lambda>e. client_mac e = chaddr) (ac_entries d))"

section \<open>The next address\<close>

definition next_ip :: "dhcp_server_data \<Rightarrow> u32 \<Rightarrow> u32" where
  "next_ip d c = ntohl (my_ip d AND netmask d) OR ((c + 1) AND ntohl (NOT (netmask d)))"

partial_function (option) find_ip :: "dhcp_server_data \<Rightarrow> u32 \<Rightarrow> u32 option" where
  "find_ip d c = (if ac_valid_ip c d then Some c else find_ip d (next_ip d c))"

declare find_ip.simps [code]

definition next_yiaddr :: "u8 list \<Rightarrow> dhcp_server_data \<Rightarrow> (u32 \<times> dhcp_server_data) result" where
  "next_yiaddr chaddr d =
    (let new_ip = ac_lookup_mac chaddr d
     in if new_ip = CLIENT_IP_NOT_FOUND
        then (case find_ip d (next_ip d (current_ip d)) of
                None \<Rightarrow> Inl Spins
              | Some c \<Rightarrow> Inr (htonl c, snd (ac_add chaddr (htonl c) (d\<lparr>current_ip := c\<rparr>))))
        else Inr (new_ip, d))"

section \<open>Leases\<close>

definition network_addr :: "dhcp_server_data \<Rightarrow> u32" where
  "network_addr d = my_ip d AND netmask d"

definition broadcast_addr :: "dhcp_server_data \<Rightarrow> u32" where
  "broadcast_addr d = my_ip d OR NOT (netmask d)"

definition reserved :: "dhcp_server_data \<Rightarrow> u32 set" where
  "reserved d = {my_ip d, network_addr d, broadcast_addr d}"

definition in_subnet :: "dhcp_server_data \<Rightarrow> u32 \<Rightarrow> bool" where
  "in_subnet d ip \<longleftrightarrow> ip AND netmask d = network_addr d"

text \<open>The leases as an association list, and what every cache satisfies: nobody has two leases, no address
  is leased twice, and every leased address is an ordinary address of the subnet.\<close>

definition leases :: "dhcp_server_data \<Rightarrow> (u8 list \<times> u32) list" where
  "leases d = map (\<lambda>e. (client_mac e, client_ip e)) (ac_entries d)"

definition cache_inv :: "dhcp_server_data \<Rightarrow> bool" where
  "cache_inv d \<longleftrightarrow> length (ip_mac_mapping d) = MAC_IP_CACHE_SIZE \<and> count_clients d \<le> MAC_IP_CACHE_SIZE
     \<and> distinct (map fst (leases d)) \<and> distinct (map snd (leases d))
     \<and> (\<forall>(mac, ip) \<in> set (leases d). in_subnet d ip \<and> ip \<notin> reserved d)"

lemma not_found_0: "in_subnet d ip \<Longrightarrow> ip \<notin> reserved d \<Longrightarrow> ip \<noteq> 0"
  by (auto simp: in_subnet_def reserved_def network_addr_def)

lemma find_as_map_of:
  "map_of (map (\<lambda>e. (f e, g e)) es) k = map_option g (find (\<lambda>e. f e = k) es)"
  by (induction es) auto

lemma lookup_mac_map_of:
  "ac_lookup_mac mac d = (case map_of (leases d) mac of None \<Rightarrow> 0 | Some ip \<Rightarrow> ip)"
  by (simp add: ac_lookup_mac_def leases_def find_as_map_of CLIENT_IP_NOT_FOUND_def split: option.splits)

lemma lookup_mac_0_iff:
  assumes "cache_inv d"
  shows "ac_lookup_mac mac d = 0 \<longleftrightarrow> mac \<notin> fst ` set (leases d)"
proof (cases "map_of (leases d) mac")
  case None
  then show ?thesis by (simp add: lookup_mac_map_of) (simp add: map_of_eq_None_iff)
next
  case (Some ip)
  then have "(mac, ip) \<in> set (leases d)" by (rule map_of_SomeD)
  with assms have "ip \<noteq> 0" using not_found_0 by (fastforce simp: cache_inv_def)
  with Some \<open>(mac, ip) \<in> set (leases d)\<close> show ?thesis by (force simp: lookup_mac_map_of)
qed

lemma valid_ip_iff:
  "ac_valid_ip (ntohl ip) d \<longleftrightarrow> ip \<notin> reserved d \<and> ip \<notin> snd ` set (leases d)"
proof -
  have "ac_lookup_ip ip d = None \<longleftrightarrow> ip \<notin> snd ` set (leases d)"
    by (auto simp: ac_lookup_ip_def leases_def find_None_iff image_image)
  moreover have "0xFFFFFFFF AND NOT (netmask d) = NOT (netmask d)"
  proof -
    have "(0xFFFFFFFF :: u32) = - 1" by simp
    then show ?thesis by (simp only: and.left_neutral)
  qed
  ultimately show ?thesis
    by (auto simp: ac_valid_ip_def reserved_def network_addr_def broadcast_addr_def htonl_eq_iff)
qed

lemma leases_add:
  assumes "cache_inv d"
  shows "leases (snd (ac_add mac ip d)) = (if ac_not_full d then leases d @ [(mac, ip)] else leases d)"
  using assms
  by (auto simp: ac_add_def leases_def ac_entries_def ac_not_full_def cache_inv_def take_Suc_conv_app_nth)

lemma add_frame [simp]:
  "my_ip (snd (ac_add mac ip d)) = my_ip d" "netmask (snd (ac_add mac ip d)) = netmask d"
  "msg (snd (ac_add mac ip d)) = msg d" "req_ip (snd (ac_add mac ip d)) = req_ip d"
  "router_ip (snd (ac_add mac ip d)) = router_ip d" "sock (snd (ac_add mac ip d)) = sock d"
  "baddr (snd (ac_add mac ip d)) = baddr d" "current_ip (snd (ac_add mac ip d)) = current_ip d"
  by (simp_all add: ac_add_def)

lemma cache_inv_add:
  assumes "cache_inv d" "mac \<notin> fst ` set (leases d)" "ip \<notin> snd ` set (leases d)" "in_subnet d ip" "ip \<notin> reserved d"
  shows "cache_inv (snd (ac_add mac ip d))"
proof (cases "ac_not_full d")
  case True
  have "length (ip_mac_mapping (snd (ac_add mac ip d))) = MAC_IP_CACHE_SIZE"
    "count_clients (snd (ac_add mac ip d)) \<le> MAC_IP_CACHE_SIZE"
    using assms(1) True by (auto simp: ac_add_def cache_inv_def ac_not_full_def)
  moreover have "in_subnet (snd (ac_add mac ip d)) = in_subnet d" "reserved (snd (ac_add mac ip d)) = reserved d"
    by (auto simp: in_subnet_def reserved_def network_addr_def broadcast_addr_def fun_eq_iff)
  ultimately show ?thesis
    using assms by (auto simp: cache_inv_def leases_add True)
next
  case False
  then show ?thesis using assms(1) by (simp add: ac_add_def)
qed

section \<open>The search for a free address\<close>

lemma find_ip_finds:
  assumes "ac_valid_ip ((next_ip d ^^ n) c) d"
  obtains i where "i \<le> n" "find_ip d c = Some ((next_ip d ^^ i) c)" "ac_valid_ip ((next_ip d ^^ i) c) d"
  using assms
proof (induction n arbitrary: c thesis)
  case 0
  then show ?case using find_ip.simps [of d c] by fastforce
next
  case (Suc n)
  show ?case
  proof (cases "ac_valid_ip c d")
    case True
    then show ?thesis using Suc.prems(1) [of 0] find_ip.simps [of d c] by simp
  next
    case False
    obtain i where i: "i \<le> n" "find_ip d (next_ip d c) = Some ((next_ip d ^^ i) (next_ip d c))"
      "ac_valid_ip ((next_ip d ^^ i) (next_ip d c)) d"
      using Suc.IH [of "next_ip d c"] Suc.prems(2) by (metis comp_apply funpow_Suc_right)
    then show ?thesis using Suc.prems(1) [of "Suc i"] find_ip.simps [of d c] False
      by (simp add: funpow_swap1)
  qed
qed

lemma find_ip_Some:
  assumes "find_ip d c = Some y"
  shows "\<exists>i. y = (next_ip d ^^ i) c \<and> ac_valid_ip y d"
proof (rule find_ip.raw_induct [of "\<lambda>d c y. \<exists>i. y = (next_ip d ^^ i) c \<and> ac_valid_ip y d", OF _ assms])
  fix find_ip' d c y
  assume IH: "\<And>d c y. find_ip' d c = Some y \<Longrightarrow> \<exists>i. y = (next_ip d ^^ i) c \<and> ac_valid_ip y d"
    and y: "(if ac_valid_ip c d then Some c else find_ip' d (next_ip d c)) = Some y"
  show "\<exists>i. y = (next_ip d ^^ i) c \<and> ac_valid_ip y d"
  proof (cases "ac_valid_ip c d")
    case True
    with y show ?thesis by (intro exI [of _ 0]) simp
  next
    case False
    with y IH [of d "next_ip d c" y] obtain i where "y = (next_ip d ^^ i) (next_ip d c)" "ac_valid_ip y d" by auto
    then show ?thesis by (intro exI [of _ "Suc i"]) (simp add: funpow_swap1)
  qed
qed

lemma find_ip_diverges: "(\<And>i. \<not> ac_valid_ip ((next_ip d ^^ i) c) d) \<Longrightarrow> find_ip d c = None"
  using find_ip_Some by (metis not_Some_eq)

lemma next_ip_in_subnet: "in_subnet d (htonl (next_ip d c))"
proof -
  have "htonl (next_ip d c) = (my_ip d AND netmask d) OR (htonl (c + 1) AND NOT (netmask d))"
    by (simp add: next_ip_def htonl_or htonl_and)
  also have "\<dots> AND netmask d = my_ip d AND netmask d"
    by (rule bit_word_eqI) (auto simp: bit_simps)
  finally show ?thesis by (simp add: in_subnet_def network_addr_def)
qed

text \<open>With a netmask of \<open>32 - k\<close> leading ones the addresses that the search visits are the base of the
  subnet with successive host parts.\<close>

definition subnet_bits :: "dhcp_server_data \<Rightarrow> nat \<Rightarrow> bool" where
  "subnet_bits d k \<longleftrightarrow> netmask d = htonl (NOT (mask k))"

lemma next_ip_subnet:
  assumes "subnet_bits d k"
  shows "next_ip d c = ntohl (network_addr d) OR take_bit k (c + 1)"
  using assms by (simp add: next_ip_def network_addr_def subnet_bits_def htonl_not take_bit_eq_mask htonl_eq_iff)

lemma network_host_part:
  assumes "subnet_bits d k"
  shows "take_bit k (ntohl (network_addr d)) = 0"
proof -
  have "ntohl (network_addr d) = ntohl (my_ip d) AND NOT (mask k)"
    using assms by (simp add: network_addr_def subnet_bits_def htonl_and)
  then show ?thesis by (simp add: take_bit_eq_mask word_bw_assocs)
qed

lemma take_bit_add_cong:
  fixes x y z :: u32
  assumes "take_bit k x = take_bit k y"
  shows "take_bit k (x + z) = take_bit k (y + z)"
proof -
  have split: "take_bit k (a + b) = take_bit k (take_bit k a + take_bit k b)" for a b :: u32
    by transfer (simp add: take_bit_take_bit min.absorb2 take_bit_add)
  show ?thesis unfolding split [of x] split [of y] assms ..
qed

lemma next_ip_iterate:
  assumes "subnet_bits d k"
  shows "(next_ip d ^^ i) (next_ip d c) = ntohl (network_addr d) OR take_bit k (c + 1 + of_nat i)"
proof (induction i)
  case 0
  then show ?case by (simp add: next_ip_subnet [OF assms])
next
  case (Suc i)
  let ?x = "ntohl (network_addr d) OR take_bit k (c + 1 + of_nat i)"
  have "take_bit k ?x = take_bit k (c + 1 + of_nat i)"
    by (simp add: take_bit_or network_host_part [OF assms])
  then have "take_bit k (?x + 1) = take_bit k (c + 1 + of_nat i + 1)"
    by (rule take_bit_add_cong)
  then show ?case using Suc by (simp add: next_ip_subnet [OF assms] ac_simps)
qed

lemma host_parts_distinct:
  assumes "subnet_bits d k" and "n \<le> 2 ^ k" and "k \<le> 32"
  shows "inj_on (\<lambda>i. (next_ip d ^^ i) (next_ip d c)) {..<n}"
proof (rule inj_onI)
  fix i j assume i: "i \<in> {..<n}" and j: "j \<in> {..<n}"
    and eq: "(next_ip d ^^ i) (next_ip d c) = (next_ip d ^^ j) (next_ip d c)"
  have host: "take_bit k (ntohl (network_addr d) OR take_bit k x) = take_bit k x" for x
    by (simp add: take_bit_or network_host_part [OF assms(1)])
  from eq have "take_bit k (c + 1 + of_nat i) = take_bit k (c + 1 + of_nat j)"
    unfolding next_ip_iterate [OF assms(1)] using host by metis
  from take_bit_add_cong [OF this, of "- (c + 1)"] have "take_bit k (of_nat i :: u32) = take_bit k (of_nat j)" by simp
  moreover have "unat (take_bit k (of_nat x :: u32)) = x" if "x < 2 ^ k" for x
  proof -
    have "x < 2 ^ 32" using that assms(3) by (meson less_le_trans one_le_numeral power_increasing)
    then have "unat (of_nat x :: u32) = x" by (simp add: unat_of_nat_u32)
    then show ?thesis using that by (simp add: unsigned_take_bit_eq take_bit_nat_eq_self)
  qed
  ultimately show "i = j" using i j assms(2) by (metis lessThan_iff less_le_trans)
qed

lemma find_ip_terminates:
  assumes "cache_inv d" and "subnet_bits d k" and "4 \<le> k" and "k \<le> 32"
  obtains i where "find_ip d (next_ip d c) = Some ((next_ip d ^^ i) (next_ip d c))"
    "ac_valid_ip ((next_ip d ^^ i) (next_ip d c)) d"
proof -
  let ?f = "\<lambda>i. (next_ip d ^^ i) (next_ip d c)" and ?bad = "htonl ` (reserved d \<union> snd ` set (leases d))"
  have "card (reserved d) \<le> 3" by (simp add: reserved_def card_insert_if)
  moreover have "card (snd ` set (leases d)) \<le> 8"
  proof -
    have "length (leases d) \<le> 8" using assms(1) by (auto simp: cache_inv_def leases_def ac_entries_def MAC_IP_CACHE_SIZE_def)
    then show ?thesis using card_length [of "map snd (leases d)"] by simp
  qed
  ultimately have "card (reserved d \<union> snd ` set (leases d)) \<le> 11"
    using card_Un_le [of "reserved d" "snd ` set (leases d)"] by simp
  then have "card ?bad \<le> 11" using card_image_le [of "reserved d \<union> snd ` set (leases d)" htonl]
    by (simp add: reserved_def)
  moreover have "card (?f ` {..<12}) = 12"
  proof -
    have "(12 :: nat) \<le> 2 ^ 4" by simp
    also have "\<dots> \<le> 2 ^ k" using assms(3) by (rule power_increasing) simp
    finally show ?thesis using host_parts_distinct [OF assms(2) _ assms(4)] by (simp add: card_image)
  qed
  moreover have "finite ?bad" by (simp add: reserved_def)
  ultimately have "\<not> ?f ` {..<12} \<subseteq> ?bad" using card_mono [of ?bad "?f ` {..<12}"] by linarith
  then obtain n where n: "?f n \<notin> ?bad" by blast
  then have "ac_valid_ip (?f n) d" using valid_ip_iff [of "htonl (?f n)" d]
    by (metis UnI1 UnI2 htonl_htonl imageI)
  then show ?thesis by (rule find_ip_finds) (blast intro: that)
qed

section \<open>Choosing an address\<close>

text \<open>What the server was configured with does not change while it runs.\<close>

definition same_net :: "dhcp_server_data \<Rightarrow> dhcp_server_data \<Rightarrow> bool" where
  "same_net d d' \<longleftrightarrow> my_ip d' = my_ip d \<and> netmask d' = netmask d \<and> router_ip d' = router_ip d
     \<and> sock d' = sock d \<and> baddr d' = baddr d \<and> dnssock d' = dnssock d \<and> ctrlsock d' = ctrlsock d"

lemma same_net_refl [simp]: "same_net d d"
  by (simp add: same_net_def)

lemma same_net_trans: "same_net d e \<Longrightarrow> same_net e f \<Longrightarrow> same_net d f"
  by (simp add: same_net_def)

lemma same_net_addrs:
  assumes "same_net d d'"
  shows "in_subnet d' = in_subnet d" "reserved d' = reserved d" "subnet_bits d' k = subnet_bits d k"
  using assms
  by (auto simp: same_net_def in_subnet_def reserved_def network_addr_def broadcast_addr_def subnet_bits_def fun_eq_iff)

lemma same_net_add [simp]: "same_net d (snd (ac_add mac ip d))"
  by (simp add: same_net_def ac_add_def)

lemma cache_inv_cong:
  assumes "ip_mac_mapping d' = ip_mac_mapping d" "count_clients d' = count_clients d" "same_net d d'"
  shows "leases d' = leases d" "cache_inv d' = cache_inv d" "ac_not_full d' = ac_not_full d"
    "ac_lookup_mac mac d' = ac_lookup_mac mac d" "ac_valid_ip ip d' = ac_valid_ip ip d"
proof -
  have e: "ac_entries d' = ac_entries d" using assms by (simp add: ac_entries_def)
  then show l: "leases d' = leases d" by (simp add: leases_def)
  then show "cache_inv d' = cache_inv d" using assms same_net_addrs [OF assms(3)] by (simp add: cache_inv_def)
  show "ac_not_full d' = ac_not_full d" using assms by (simp add: ac_not_full_def)
  show "ac_lookup_mac mac d' = ac_lookup_mac mac d" using e by (simp add: ac_lookup_mac_def)
  show "ac_valid_ip ip d' = ac_valid_ip ip d"
    using e assms(3) by (simp add: ac_valid_ip_def ac_lookup_ip_def same_net_def)
qed

lemma current_ip_cong:
  "leases (d\<lparr>current_ip := c\<rparr>) = leases d" "cache_inv (d\<lparr>current_ip := c\<rparr>) = cache_inv d"
  "ac_not_full (d\<lparr>current_ip := c\<rparr>) = ac_not_full d" "same_net d (d\<lparr>current_ip := c\<rparr>)"
  "in_subnet (d\<lparr>current_ip := c\<rparr>) = in_subnet d" "reserved (d\<lparr>current_ip := c\<rparr>) = reserved d"
proof -
  show n: "same_net d (d\<lparr>current_ip := c\<rparr>)" by (simp add: same_net_def)
  show "leases (d\<lparr>current_ip := c\<rparr>) = leases d" "cache_inv (d\<lparr>current_ip := c\<rparr>) = cache_inv d"
    "ac_not_full (d\<lparr>current_ip := c\<rparr>) = ac_not_full d"
    by (rule cache_inv_cong [OF _ _ n]; simp)+
  show "in_subnet (d\<lparr>current_ip := c\<rparr>) = in_subnet d" "reserved (d\<lparr>current_ip := c\<rparr>) = reserved d"
    using same_net_addrs [OF n] by simp_all
qed

text \<open>The address chosen for a client: its lease if it has one, otherwise a free address, which becomes its
  lease as long as the cache has room.\<close>

definition offers :: "u8 list \<Rightarrow> u32 \<Rightarrow> dhcp_server_data \<Rightarrow> dhcp_server_data \<Rightarrow> bool" where
  "offers mac ip d d' \<longleftrightarrow> in_subnet d ip \<and> ip \<notin> reserved d \<and>
     (case map_of (leases d) mac of
        Some ip' \<Rightarrow> ip = ip' \<and> leases d' = leases d
      | None \<Rightarrow> ip \<notin> snd ` set (leases d)
          \<and> leases d' = (if ac_not_full d then leases d @ [(mac, ip)] else leases d))"

lemma next_yiaddr_offers:
  assumes inv: "cache_inv d" and ok: "next_yiaddr mac d = Inr (ip, d')"
  shows "offers mac ip d d'" "cache_inv d'" "same_net d d'" "msg d' = msg d" "req_ip d' = req_ip d"
proof -
  have "offers mac ip d d' \<and> cache_inv d' \<and> same_net d d' \<and> msg d' = msg d \<and> req_ip d' = req_ip d"
  proof (cases "mac \<in> fst ` set (leases d)")
    case True
    then have n0: "ac_lookup_mac mac d \<noteq> 0" by (simp add: lookup_mac_0_iff [OF inv])
    then have e: "ip = ac_lookup_mac mac d" "d' = d"
      using ok by (auto simp: next_yiaddr_def CLIENT_IP_NOT_FOUND_def Let_def)
    obtain a where a: "map_of (leases d) mac = Some a" using n0 by (auto simp: lookup_mac_map_of split: option.splits)
    then have "(mac, a) \<in> set (leases d)" by (rule map_of_SomeD)
    then show ?thesis using e a inv by (auto simp: offers_def lookup_mac_map_of cache_inv_def)
  next
    case False
    then have "ac_lookup_mac mac d = 0" by (simp add: lookup_mac_0_iff [OF inv])
    then obtain c where c: "find_ip d (next_ip d (current_ip d)) = Some c" "ip = htonl c"
      "d' = snd (ac_add mac ip (d\<lparr>current_ip := c\<rparr>))"
      using ok by (auto simp: next_yiaddr_def CLIENT_IP_NOT_FOUND_def split: option.splits)
    from find_ip_Some [OF c(1)] obtain i where i: "c = (next_ip d ^^ i) (next_ip d (current_ip d))" "ac_valid_ip c d"
      by blast
    then have sub: "in_subnet d ip"
      unfolding c(2) by (metis funpow_swap1 next_ip_in_subnet)
    have free: "ip \<notin> reserved d" "ip \<notin> snd ` set (leases d)"
      using i(2) valid_ip_iff [of ip d] by (simp_all add: c(2))
    have "map_of (leases d) mac = None" using False by (simp add: map_of_eq_None_iff)
    moreover have "cache_inv d'" unfolding c(3)
      by (rule cache_inv_add) (use inv False sub free in \<open>simp_all add: current_ip_cong\<close>)
    moreover have "same_net d d'" unfolding c(3) by (rule same_net_trans [OF current_ip_cong(4) same_net_add])
    moreover have "leases d' = (if ac_not_full d then leases d @ [(mac, ip)] else leases d)"
      unfolding c(3) by (subst leases_add) (simp_all add: inv current_ip_cong)
    ultimately show ?thesis using sub free by (simp add: offers_def c(3))
  qed
  then show "offers mac ip d d'" "cache_inv d'" "same_net d d'" "msg d' = msg d" "req_ip d' = req_ip d" by simp_all
qed

lemma next_yiaddr_total:
  assumes "cache_inv d" "subnet_bits d k" "4 \<le> k" "k \<le> 32"
  obtains ip d' where "next_yiaddr mac d = Inr (ip, d')"
proof -
  obtain c where "find_ip d (next_ip d (current_ip d)) = Some c" by (metis find_ip_terminates [OF assms])
  then show ?thesis using that
    by (cases "ac_lookup_mac mac d = CLIENT_IP_NOT_FOUND") (simp_all add: next_yiaddr_def Let_def)
qed

text \<open>When every address of the subnet is reserved or leased, the search for a new client never ends.\<close>

lemma next_yiaddr_exhausted:
  assumes "cache_inv d" "mac \<notin> fst ` set (leases d)"
    and used: "\<And>ip. in_subnet d ip \<Longrightarrow> ip \<in> reserved d \<union> snd ` set (leases d)"
  shows "next_yiaddr mac d = Inl Spins"
proof -
  have "\<not> ac_valid_ip ((next_ip d ^^ i) (next_ip d (current_ip d))) d" for i
  proof -
    let ?c = "(next_ip d ^^ i) (next_ip d (current_ip d))"
    have "in_subnet d (htonl ?c)" by (metis funpow_swap1 next_ip_in_subnet)
    then show ?thesis using used valid_ip_iff [of "htonl ?c" d] by auto
  qed
  then have "find_ip d (next_ip d (current_ip d)) = None" by (rule find_ip_diverges)
  then show ?thesis using assms(1,2) lookup_mac_0_iff [of d mac]
    by (simp add: next_yiaddr_def CLIENT_IP_NOT_FOUND_def)
qed

end
