(* ===== verification/Dhcp_Message.thy ===== *)
theory Dhcp_Message
  imports Dhcp_Cache
begin

text \<open>
  The DHCP server, part two: the messages. A message lies in the buffer of \<open>SERVER_BUFFER_SIZE\<close> bytes that
  \<open>dhcps.msg\<close> points to: the header \<open>bootp_header\<close> of 240 bytes, then options of a type, a length and a value.
  \<open>process_dhcp_message\<close> walks the options, decides on an answer, and \<open>make_response\<close> builds it in the same
  buffer. Sending goes to lwIP, which is not modelled: what it returns is the parameter \<open>net_env\<close>, and what
  the server asks of it is recorded in order as a list of events.
\<close>

section \<open>The buffer\<close>

definition put :: "nat \<Rightarrow> u8 list \<Rightarrow> u8 list \<Rightarrow> u8 list" where
  "put off bs m = take off m @ bs @ drop (off + length bs) m"

definition u32_at :: "u8 list \<Rightarrow> nat \<Rightarrow> u32" where
  "u32_at m i = bytes_word (m ! i) (m ! (i + 1)) (m ! (i + 2)) (m ! (i + 3))"

definition u16_at :: "u8 list \<Rightarrow> nat \<Rightarrow> u16" where
  "u16_at m i = ucast (m ! i) OR push_bit 8 (ucast (m ! (i + 1)))"

definition short_bytes :: "u16 \<Rightarrow> u8 list" where
  "short_bytes x = [ucast x, ucast (drop_bit 8 x)]"

text \<open>A byte read through a pointer into the buffer.\<close>

definition byte_at :: "u8 list \<Rightarrow> nat \<Rightarrow> u8 result" where
  "byte_at m i = (if i < length m then Inr (m ! i) else Inl Out_of_bounds)"

text \<open>The fields of \<open>bootp_header\<close>, by their offsets in the packed struct.\<close>

definition HDR_SIZE :: nat where "HDR_SIZE = 240"

definition hdr_op :: "u8 list \<Rightarrow> u8" where "hdr_op m = m ! 0"
definition hdr_htype :: "u8 list \<Rightarrow> u8" where "hdr_htype m = m ! 1"
definition hdr_hlen :: "u8 list \<Rightarrow> u8" where "hdr_hlen m = m ! 2"
definition hdr_flags :: "u8 list \<Rightarrow> u16" where "hdr_flags m = u16_at m 10"
definition hdr_ciaddr :: "u8 list \<Rightarrow> u32" where "hdr_ciaddr m = u32_at m 12"
definition hdr_yiaddr :: "u8 list \<Rightarrow> u32" where "hdr_yiaddr m = u32_at m 16"
definition hdr_chaddr :: "u8 list \<Rightarrow> u8 list" where "hdr_chaddr m = take 6 (drop 28 m)"

section \<open>Constants\<close>

definition BOOTP_OP_REQUEST :: u8 where "BOOTP_OP_REQUEST = 1"
definition BOOTP_OP_RESPONSE :: u8 where "BOOTP_OP_RESPONSE = 2"
definition BOOTP_OPTION_SUBNET_MASK :: u8 where "BOOTP_OPTION_SUBNET_MASK = 1"
definition BOOTP_OPTION_ROUTER :: u8 where "BOOTP_OPTION_ROUTER = 3"
definition BOOTP_OPTION_NAMESERVER :: u8 where "BOOTP_OPTION_NAMESERVER = 6"
definition BOOTP_OPTION_REQUESTED_IP :: u8 where "BOOTP_OPTION_REQUESTED_IP = 50"
definition BOOTP_OPTION_ADDRESS_TIME :: u8 where "BOOTP_OPTION_ADDRESS_TIME = 51"
definition BOOTP_OPTION_DHCP_MESSAGE :: u8 where "BOOTP_OPTION_DHCP_MESSAGE = 53"
definition BOOTP_OPTION_DHCP_SERVER_ID :: u8 where "BOOTP_OPTION_DHCP_SERVER_ID = 54"
definition BOOTP_END_OPTION :: u8 where "BOOTP_END_OPTION = 0xFF"

definition DHCP_MESSAGE_DISCOVER :: u8 where "DHCP_MESSAGE_DISCOVER = 1"
definition DHCP_MESSAGE_OFFER :: u8 where "DHCP_MESSAGE_OFFER = 2"
definition DHCP_MESSAGE_REQUEST :: u8 where "DHCP_MESSAGE_REQUEST = 3"
definition DHCP_MESSAGE_ACK :: u8 where "DHCP_MESSAGE_ACK = 5"
definition DHCP_MESSAGE_NAK :: u8 where "DHCP_MESSAGE_NAK = 6"
definition DHCP_NO_RESPONSE :: u8 where "DHCP_NO_RESPONSE = 255"

lemmas bootp_consts =
  BOOTP_OP_REQUEST_def BOOTP_OP_RESPONSE_def BOOTP_OPTION_SUBNET_MASK_def BOOTP_OPTION_ROUTER_def
  BOOTP_OPTION_NAMESERVER_def BOOTP_OPTION_REQUESTED_IP_def BOOTP_OPTION_ADDRESS_TIME_def
  BOOTP_OPTION_DHCP_MESSAGE_def BOOTP_OPTION_DHCP_SERVER_ID_def BOOTP_END_OPTION_def

lemmas dhcp_consts =
  DHCP_MESSAGE_DISCOVER_def DHCP_MESSAGE_OFFER_def DHCP_MESSAGE_REQUEST_def DHCP_MESSAGE_ACK_def
  DHCP_MESSAGE_NAK_def DHCP_NO_RESPONSE_def

section \<open>Reading the options\<close>

text \<open>The local variables of \<open>process_dhcp_message\<close> that the loop over the options changes.\<close>

record opt_vars =
  response_type :: u8
  got_ip :: bool
  need_ip :: bool
  got_client_ip :: bool

type_synonym opt_state = "opt_vars \<times> dhcp_server_data"

definition opt_init :: opt_vars where
  "opt_init = \<lparr>response_type = DHCP_NO_RESPONSE, got_ip = False, need_ip = False, got_client_ip = False\<rparr>"

definition message_option :: "u32 \<Rightarrow> u8 \<Rightarrow> opt_state \<Rightarrow> opt_state" where
  "message_option ciaddr v s =
    (let (o1, d) = s in
     if v = DHCP_MESSAGE_DISCOVER then (o1\<lparr>response_type := DHCP_MESSAGE_OFFER\<rparr>, d)
     else if v = DHCP_MESSAGE_REQUEST then
       (if ciaddr \<noteq> 0 then (o1\<lparr>need_ip := True, got_client_ip := True\<rparr>, d\<lparr>req_ip := ciaddr\<rparr>)
        else (o1\<lparr>need_ip := True\<rparr>, d))
     else (o1, d))"

definition requested_ip_option :: "u32 \<Rightarrow> opt_state \<Rightarrow> opt_state" where
  "requested_ip_option ip s = (let (o1, d) = s in (o1\<lparr>got_client_ip := True\<rparr>, d\<lparr>req_ip := ip\<rparr>))"

definition check_requested :: "u8 list \<Rightarrow> opt_state \<Rightarrow> opt_state" where
  "check_requested chaddr s =
    (let (o1, d) = s in
     if got_client_ip o1 \<and> req_ip d AND netmask d = my_ip d AND netmask d then
       (let new_ip = ac_lookup_mac chaddr d in
        if new_ip \<noteq> CLIENT_IP_NOT_FOUND then (o1\<lparr>got_ip := (new_ip = req_ip d)\<rparr>, d)
        else if ac_valid_ip (ntohl (req_ip d)) d then
          (o1\<lparr>got_ip := True\<rparr>, if ac_not_full d then snd (ac_add chaddr (req_ip d) d) else d)
        else (o1, d))
     else (o1, d))"

definition decide_response :: "opt_state \<Rightarrow> opt_state" where
  "decide_response s =
    (let (o1, d) = s in
     if need_ip o1 then (o1\<lparr>response_type := if got_ip o1 then DHCP_MESSAGE_ACK else DHCP_MESSAGE_NAK\<rparr>, d)
     else (o1, d))"

text \<open>One pass of the loop body, with the option at \<open>off\<close>.\<close>

definition option_body :: "u8 list \<Rightarrow> nat \<Rightarrow> u8 \<Rightarrow> u8 \<Rightarrow> opt_state \<Rightarrow> opt_state result" where
  "option_body m off ty ln s =
    bind_res (if ty = BOOTP_OPTION_DHCP_MESSAGE \<and> ln = 1
              then bind_res (byte_at m (off + 2)) (\<lambda>v. Inr (message_option (hdr_ciaddr m) v s))
              else Inr s)
    (\<lambda>s. bind_res (if ty = BOOTP_OPTION_REQUESTED_IP \<and> ln = 4
              then bind_res (byte_at m (off + 2)) (\<lambda>a. bind_res (byte_at m (off + 3)) (\<lambda>b.
                   bind_res (byte_at m (off + 4)) (\<lambda>c. bind_res (byte_at m (off + 5)) (\<lambda>d.
                     Inr (requested_ip_option (bytes_word a b c d) s)))))
              else Inr s)
    (\<lambda>s. Inr (decide_response (check_requested (hdr_chaddr m) s))))"

function dhcp_options :: "u8 list \<Rightarrow> nat \<Rightarrow> int \<Rightarrow> opt_state \<Rightarrow> opt_state result" where
  "dhcp_options m off len s =
    (if len > 0 then
       (case byte_at m off of Inl e \<Rightarrow> Inl e
        | Inr ty \<Rightarrow>
            if ty = BOOTP_END_OPTION then Inr s
            else (case byte_at m (off + 1) of Inl e \<Rightarrow> Inl e
                  | Inr ln \<Rightarrow>
                      (case option_body m off ty ln s of Inl e \<Rightarrow> Inl e
                       | Inr s' \<Rightarrow> dhcp_options m (off + (2 + unat ln)) (len - int (2 + unat ln)) s')))
     else Inr s)"
  by pat_completeness auto
termination
proof (relation "measure (\<lambda>(m, off, len, s). nat len)")
  fix len :: int and x :: u8
  assume "0 < len"
  moreover have "- 2 < uint x" by (rule less_le_trans [of _ 0]) simp_all
  ultimately show "((m :: u8 list, off + (2 + unat x), len - int (2 + unat x), s' :: opt_state), m, off, len, s)
      \<in> measure (\<lambda>(m, off, len, s). nat len)" for m off s s' by simp
qed simp

declare dhcp_options.simps [simp del]

section \<open>Building a response\<close>

text \<open>\<open>write_u32\<close> stores a word byte by byte, lowest first.\<close>

definition write_u32 :: "nat \<Rightarrow> u32 \<Rightarrow> u8 list \<Rightarrow> u8 list" where
  "write_u32 dest v m = put dest (map (\<lambda>k. ucast (drop_bit k v AND 0xFF)) [0, 8, 16] @ [ucast (drop_bit 24 v)]) m"

definition word_option :: "u8 \<Rightarrow> u32 \<Rightarrow> nat \<times> u8 list \<Rightarrow> nat \<times> u8 list" where
  "word_option ty v s =
    (let (off, m) = s; m = put off [ty] m; m = write_u32 (off + 2) v m; m = put (off + 1) [4] m
     in (off + 6, m))"

definition put_response_options :: "u32 \<Rightarrow> bool \<Rightarrow> dhcp_server_data \<Rightarrow> nat \<times> u8 list \<Rightarrow> nat \<times> u8 list" where
  "put_response_options timeout nack_dns d s =
    (let s = word_option BOOTP_OPTION_SUBNET_MASK (netmask d) s;
         s = word_option BOOTP_OPTION_ADDRESS_TIME (htonl timeout) s;
         s = word_option BOOTP_OPTION_DHCP_SERVER_ID (my_ip d) s;
         s = word_option BOOTP_OPTION_ROUTER (router_ip d) s;
         (off, m) = word_option BOOTP_OPTION_NAMESERVER (if nack_dns then router_ip d else 0) s
     in (off + 1, put off [BOOTP_END_OPTION] m))"

definition make_response ::
    "u8 \<Rightarrow> u32 \<Rightarrow> bool \<Rightarrow> u8 list \<Rightarrow> dhcp_server_data \<Rightarrow> (nat \<times> u8 list \<times> dhcp_server_data) result" where
  "make_response ty timeout nack_dns m d =
    (let m = put 0 [BOOTP_OP_RESPONSE, 1, 6, 0] m; m = put 12 (word_bytes 0) m in
     bind_res (if ty = DHCP_MESSAGE_OFFER then next_yiaddr (hdr_chaddr m) d
               else Inr (if ty = DHCP_MESSAGE_ACK then req_ip d else 0, d)) (\<lambda>(yiaddr, d).
     let m = put 16 (word_bytes yiaddr) m;
         m = put 20 (word_bytes 0 @ word_bytes 0) m;
         off = HDR_SIZE;
         m = put off [BOOTP_OPTION_DHCP_MESSAGE, 1, ty] m;
         off = off + 3
     in if ty = DHCP_MESSAGE_NAK then Inr (off, m, d)
        else (let (n, m) = put_response_options timeout nack_dns d (off, m) in Inr (n, m, d))))"

section \<open>Sending\<close>

datatype dhcp_event =
    Default_netif                        \<comment> \<open>\<open>ap_set_default_netif\<close>\<close>
  | Sent int u32 "u8 list"               \<comment> \<open>\<open>lwip_sendto\<close>: socket, destination, bytes\<close>
  | Arp_added u32 "u8 list"              \<comment> \<open>\<open>etharp_add_static_entry\<close>\<close>
  | Arp_removed u32                      \<comment> \<open>\<open>etharp_remove_static_entry\<close>\<close>
  | Opened int                           \<comment> \<open>\<open>lwip_socket\<close> returned this descriptor\<close>
  | Bound int u32 u16                    \<comment> \<open>\<open>lwip_bind\<close>: socket, address, port\<close>
  | Closed int                           \<comment> \<open>\<open>lwip_close\<close>\<close>

record net_env =
  lwip_sendto :: "dhcp_event list \<Rightarrow> u8 list \<Rightarrow> int"
  lwip_socket :: "dhcp_event list \<Rightarrow> int"
  if_macaddr :: "u8 list"

record dhcp_world =
  dhcps :: dhcp_server_data
  dhcp_address_timeout :: u32
  dhcp_nack_dns_server_handler :: bool
  dhcpd_running :: bool
  events :: "dhcp_event list"

definition log_event :: "dhcp_event \<Rightarrow> dhcp_world \<Rightarrow> dhcp_world" where
  "log_event e w = w\<lparr>events := events w @ [e]\<rparr>"

text \<open>The loop of \<open>send_response\<close> over the bytes that are left; it does not end when \<open>lwip_sendto\<close> keeps
  accepting nothing.\<close>

partial_function (option) send_loop ::
    "net_env \<Rightarrow> int \<Rightarrow> u32 \<Rightarrow> u8 list \<Rightarrow> dhcp_event list \<Rightarrow> (int \<times> dhcp_event list) option" where
  "send_loop env fd addr rest evs =
    (if rest = [] then Some (0, evs)
     else (let nb = lwip_sendto env evs rest; evs' = evs @ [Sent fd addr rest]
           in if nb < 0 then Some (-1, evs') else send_loop env fd addr (drop (nat nb) rest) evs'))"

definition IPADDR_BROADCAST :: u32 where "IPADDR_BROADCAST = 0xFFFFFFFF"

definition send_response :: "net_env \<Rightarrow> int \<Rightarrow> u32 \<Rightarrow> u8 list \<Rightarrow> dhcp_world \<Rightarrow> (int \<times> dhcp_world) result" where
  "send_response env fd addr bs w =
    (let w = (if addr = 0 \<or> addr = IPADDR_BROADCAST then log_event Default_netif w else w)
     in case send_loop env fd addr bs (events w) of
          None \<Rightarrow> Inl Spins
        | Some (ret, evs) \<Rightarrow> Inr (ret, w\<lparr>events := evs\<rparr>))"

primrec send_times :: "nat \<Rightarrow> net_env \<Rightarrow> int \<Rightarrow> u32 \<Rightarrow> u8 list \<Rightarrow> dhcp_world \<Rightarrow> dhcp_world result" where
  "send_times 0 env fd addr bs w = Inr w"
| "send_times (Suc n) env fd addr bs w =
    bind_res (send_response env fd addr bs w) (\<lambda>(_, w). send_times n env fd addr bs w)"

text \<open>The packet of \<open>send_gratuitous_arp\<close>, as the struct \<open>arp_packet\<close> lies in memory.\<close>

definition arp_packet :: "u8 list \<Rightarrow> u32 \<Rightarrow> u8 list" where
  "arp_packet mac ip =
    replicate 6 0xFF @ mac
    @ short_bytes (htons 0x0806) @ short_bytes (htons 1) @ short_bytes (htons 0x0800) @ [6, 4] @ short_bytes (htons 2)
    @ mac @ word_bytes ip @ replicate 6 0xFF @ word_bytes ip @ replicate 18 0"

definition send_gratuitous_arp :: "net_env \<Rightarrow> u32 \<Rightarrow> dhcp_world \<Rightarrow> int \<times> dhcp_world" where
  "send_gratuitous_arp env ip w =
    (let fd = lwip_socket env (events w); w = log_event (Opened fd) w
     in if fd < 0 then (-1, w)
        else (let pkt = arp_packet (if_macaddr env) ip;
                  ret = lwip_sendto env (events w) pkt;
                  w = log_event (Closed fd) (log_event (Sent fd ip pkt) w)
              in (if ret < 0 then -1 else 0, w)))"

section \<open>A DHCP message\<close>

definition set_flags :: "u16 \<Rightarrow> u8 list \<Rightarrow> u8 list" where
  "set_flags fl m = put 10 (short_bytes fl) m"

definition set_dhcps :: "(dhcp_server_data \<Rightarrow> dhcp_server_data) \<Rightarrow> dhcp_world \<Rightarrow> dhcp_world" where
  "set_dhcps f w = w\<lparr>dhcps := f (dhcps w)\<rparr>"

definition send_unicast :: "net_env \<Rightarrow> nat \<Rightarrow> u8 list \<Rightarrow> dhcp_world \<Rightarrow> (u8 list \<times> dhcp_world) result" where
  "send_unicast env n m w =
    (let dst_ip = hdr_yiaddr m in
     if dst_ip \<noteq> 0 then
       (let w = set_dhcps (uaddr_update (\<lambda>_. dst_ip)) w;
            w = log_event (Arp_added dst_ip (hdr_chaddr m)) w;
            m = set_flags (hdr_flags m AND NOT (htons 0x8000)) m
        in bind_res (send_times 1 env (sock (dhcps w)) (uaddr (dhcps w)) (take n m) w) (\<lambda>w.
           Inr (m, log_event (Arp_removed dst_ip) w)))
     else Inr (m, w))"

text \<open>The response: once to the client, when it has an address, and three times as a broadcast; after an
  acknowledgement the server announces itself.\<close>

definition respond :: "net_env \<Rightarrow> u8 \<Rightarrow> u8 list \<Rightarrow> dhcp_world \<Rightarrow> (int \<times> dhcp_world) result" where
  "respond env ty m w =
    bind_res (make_response ty (dhcp_address_timeout w) (dhcp_nack_dns_server_handler w) m (dhcps w)) (\<lambda>(send_byte, m, d).
    bind_res (send_unicast env send_byte m (w\<lparr>dhcps := d\<rparr>)) (\<lambda>(m, w).
    let m = set_flags (hdr_flags m OR htons 0x8000) m;
        w = set_dhcps (msg_update (\<lambda>_. Some m)) w
    in bind_res (send_times 3 env (sock (dhcps w)) (baddr (dhcps w)) (take send_byte m) w) (\<lambda>w.
    Inr (0, if ty = DHCP_MESSAGE_ACK then snd (send_gratuitous_arp env (my_ip (dhcps w)) w) else w))))"

definition bad_header :: "nat \<Rightarrow> u8 list \<Rightarrow> bool" where
  "bad_header len m \<longleftrightarrow>
    len < HDR_SIZE + 2 + 1 \<or> (hdr_op m \<noteq> BOOTP_OP_REQUEST \<and> hdr_op m \<noteq> BOOTP_OP_RESPONSE)
    \<or> hdr_htype m \<noteq> 1 \<or> hdr_hlen m \<noteq> 6"

definition process_dhcp_message :: "net_env \<Rightarrow> nat \<Rightarrow> dhcp_world \<Rightarrow> (int \<times> dhcp_world) result" where
  "process_dhcp_message env len w =
    (case msg (dhcps w) of
       None \<Rightarrow> Inr (-1, w)
     | Some m \<Rightarrow>
         if bad_header len m then Inr (-1, w)
         else bind_res (dhcp_options m HDR_SIZE (int len - int HDR_SIZE) (opt_init, dhcps w)) (\<lambda>(o1, d).
           if response_type o1 \<noteq> DHCP_NO_RESPONSE then respond env (response_type o1) m (w\<lparr>dhcps := d\<rparr>)
           else Inr (0, w\<lparr>dhcps := d\<rparr>)))"

text \<open>\<open>dhcp_server_lease_timeout\<close>; \<open>EINVAL\<close> is 22.\<close>

definition dhcp_server_lease_timeout :: "u32 \<Rightarrow> dhcp_world \<Rightarrow> int \<times> dhcp_world" where
  "dhcp_server_lease_timeout val w =
    (if val = 0 \<or> val > 60 * 60 * 24 * 49700 then (-22, w) else (0, w\<lparr>dhcp_address_timeout := val\<rparr>))"

section \<open>A DNS message\<close>

text \<open>The header of a DNS message: identification, flags, and four counts of 16 bits. The flags are bit fields
  in the host's order, lowest first: \<open>rcode\<close> 0 to 3, \<open>cd\<close> 4, \<open>ad\<close> 5, \<open>z\<close> 6, \<open>ra\<close> 7, \<open>rd\<close> 8, \<open>tc\<close> 9, \<open>aa\<close> 10,
  \<open>opcode\<close> 11 to 14, \<open>qr\<close> 15.\<close>

definition ERROR_REFUSED :: u16 where "ERROR_REFUSED = 5"

definition dns_refused_flags :: "u16 \<Rightarrow> u16" where
  "dns_refused_flags fl =
    (let fl = fl OR 0x8000;
         fl = fl AND NOT 0x7800;
         fl = fl AND NOT 0x0400;
         fl = fl AND NOT 0x0200;
         fl = fl OR 0x0100;
         fl = fl AND NOT 0x0080;
         fl = (fl AND NOT 0x000F) OR ERROR_REFUSED
     in htons fl)"

definition dns_ignored :: "nat \<Rightarrow> u8 list \<Rightarrow> bool" where
  "dns_ignored len m \<longleftrightarrow> len < 12 \<or> u16_at m 2 AND 0x8000 \<noteq> 0 \<or> ntohs (u16_at m 4) = 0"

definition dns_refusal :: "u8 list \<Rightarrow> u8 list" where
  "dns_refusal m =
    put 6 (replicate 6 0) (put 4 (short_bytes (htons 1)) (put 2 (short_bytes (dns_refused_flags (u16_at m 2))) m))"

definition process_dns_message :: "net_env \<Rightarrow> nat \<Rightarrow> u32 \<Rightarrow> dhcp_world \<Rightarrow> (int \<times> dhcp_world) result" where
  "process_dns_message env len fromaddr w =
    (case msg (dhcps w) of
       None \<Rightarrow> Inl Null_deref
     | Some m \<Rightarrow>
         if dns_ignored len m then Inr (-1, w)
         else
           (let w = set_dhcps (msg_update (\<lambda>_. Some (dns_refusal m))) w
            in bind_res (send_response env (dnssock (dhcps w)) fromaddr (take len (dns_refusal m)) w) (\<lambda>(_, w). Inr (-1, w))))"

section \<open>The buffer, field by field\<close>

lemma length_put [simp]: "off + length bs \<le> length m \<Longrightarrow> length (put off bs m) = length m"
  by (simp add: put_def)

lemma nth_put:
  assumes "off + length bs \<le> length m" "i < length m"
  shows "put off bs m ! i = (if off \<le> i \<and> i < off + length bs then bs ! (i - off) else m ! i)"
  using assms by (auto simp: put_def nth_append min_def)

lemma take_put:
  assumes "off + length bs \<le> length m"
  shows "j \<le> off \<Longrightarrow> take j (put off bs m) = take j m" "take (off + length bs) (put off bs m) = take off m @ bs"
  using assms by (simp_all add: put_def)

lemma u32_at_put:
  assumes "off + length bs \<le> length m" "i + 4 \<le> length m"
  shows "i + 4 \<le> off \<or> off + length bs \<le> i \<Longrightarrow> u32_at (put off bs m) i = u32_at m i"
  using assms by (auto simp: u32_at_def nth_put)

lemma u32_at_put_word [simp]:
  "off + 4 \<le> length m \<Longrightarrow> u32_at (put off (word_bytes v) m) off = v"
  using bytes_word_bytes [of v] by (simp add: u32_at_def nth_put word_bytes_def)

lemma u32_at_word [simp]: "u32_at (word_bytes v) 0 = v"
  using bytes_word_bytes [of v] by (simp add: u32_at_def word_bytes_def)

lemma chaddr_put:
  assumes "off + length bs \<le> length m" "34 \<le> length m" "off + length bs \<le> 28 \<or> 34 \<le> off"
  shows "hdr_chaddr (put off bs m) = hdr_chaddr m"
  using assms by (intro nth_equalityI) (auto simp: hdr_chaddr_def nth_put)

lemma write_u32_put: "write_u32 off v m = put off (word_bytes v) m"
proof -
  have "ucast (x AND 0xFF) = (ucast x :: u8)" for x :: u32
  proof -
    have "x AND 0xFF = take_bit 8 x" by (simp add: take_bit_eq_mask mask_eq_exp_minus_1)
    then show ?thesis by (simp add: bit_word_eqI bit_simps)
  qed
  then show ?thesis by (simp add: write_u32_def word_bytes_def)
qed

lemma word_option_put:
  assumes "off + 6 \<le> length m"
  shows "word_option ty v (off, m) = (off + 6, put off (ty # 4 # word_bytes v) m)"
proof -
  have "put (off + 1) [4] (put (off + 2) (word_bytes v) (put off [ty] m)) = put off (ty # 4 # word_bytes v) m"
    using assms by (intro nth_equalityI) (auto simp: nth_put nth_Cons' word_bytes_def)
  then show ?thesis by (simp add: word_option_def write_u32_put)
qed

end
