(* ===== verification/Dhcp_Spec.thy ===== *)
theory Dhcp_Spec
  imports Dhcp_Message
begin

text \<open>
  The DHCP server, part three: what its messages mean. Options are an abstract list of types and values with
  an encoding; reading the options of a message is a fold over that list, and a response is the encoding of
  one. The replies of a message are described by the events they leave.
\<close>

section \<open>Lists of options\<close>

type_synonym dhcp_option = "u8 \<times> u8 list"

definition encode_option :: "dhcp_option \<Rightarrow> u8 list" where
  "encode_option op = fst op # of_nat (length (snd op)) # snd op"

definition encode_options :: "dhcp_option list \<Rightarrow> u8 list" where
  "encode_options os = concat (map encode_option os) @ [BOOTP_END_OPTION]"

definition wf_option :: "dhcp_option \<Rightarrow> bool" where
  "wf_option op \<longleftrightarrow> fst op \<noteq> BOOTP_END_OPTION \<and> length (snd op) < 256"

text \<open>The effect of one option on the decision.\<close>

definition apply_option :: "u32 \<Rightarrow> u8 list \<Rightarrow> dhcp_option \<Rightarrow> opt_state \<Rightarrow> opt_state" where
  "apply_option ciaddr chaddr op s =
    (let s = (if fst op = BOOTP_OPTION_DHCP_MESSAGE \<and> length (snd op) = 1
              then message_option ciaddr (snd op ! 0) s else s);
         s = (if fst op = BOOTP_OPTION_REQUESTED_IP \<and> length (snd op) = 4
              then requested_ip_option (u32_at (snd op) 0) s else s)
     in decide_response (check_requested chaddr s))"

lemma length_encode_option: "length (encode_option op) = 2 + length (snd op)"
  by (simp add: encode_option_def)

lemma unat_length_byte: "n < 256 \<Longrightarrow> unat (of_nat n :: u8) = n"
  by (simp only: unsigned_of_nat) (simp add: take_bit_nat_eq_self)

lemma option_body_apply:
  assumes "drop off m = encode_option op @ rest" "wf_option op"
  shows "option_body m off (fst op) (of_nat (length (snd op))) s
    = Inr (apply_option (hdr_ciaddr m) (hdr_chaddr m) op s)"
proof -
  have at: "byte_at m (off + 2 + i) = Inr (snd op ! i)" if "i < length (snd op)" for i
  proof -
    have "off + (2 + i) < length m" using arg_cong [OF assms(1), of length] that
      by (auto simp: encode_option_def)
    moreover have "m ! (off + (2 + i)) = drop off m ! (2 + i)" using calculation by simp
    ultimately have "byte_at m (off + (2 + i)) = Inr (snd op ! i)"
      using that unfolding assms(1) by (simp add: byte_at_def encode_option_def nth_append)
    then show ?thesis by (simp only: add.assoc)
  qed
  have len: "of_nat (length (snd op)) = (of_nat n :: u8) \<longleftrightarrow> length (snd op) = n" if "n < 256" for n
    using assms(2) that unat_length_byte by (metis wf_option_def)
  have ne: "BOOTP_OPTION_DHCP_MESSAGE \<noteq> BOOTP_OPTION_REQUESTED_IP" by (simp add: bootp_consts)
  have v: "u32_at v 0 = bytes_word (v ! 0) (v ! 1) (v ! 2) (v ! 3)" for v
    unfolding u32_at_def by (simp only: add_0)
  consider "length (snd op) = 1" | "length (snd op) = 4" | "length (snd op) \<noteq> 1" "length (snd op) \<noteq> 4"
    by blast
  then show ?thesis
  proof cases
    case 1
    then show ?thesis using at [of 0] by (simp add: option_body_def apply_option_def)
  next
    case 2
    then have "byte_at m (off + 2) = Inr (snd op ! 0)" "byte_at m (off + 3) = Inr (snd op ! 1)"
      "byte_at m (off + 4) = Inr (snd op ! 2)" "byte_at m (off + 5) = Inr (snd op ! 3)"
      using at [of 0] at [of 1] at [of 2] at [of 3] by (simp_all add: eval_nat_numeral)
    then show ?thesis using 2 by (simp add: option_body_def apply_option_def v ne [symmetric])
  next
    case 3
    then show ?thesis using len [of 1] len [of 4] by (simp add: option_body_def apply_option_def)
  qed
qed

text \<open>The loop walks over encoded options as a fold, and goes on behind them.\<close>

lemma dhcp_options_skip:
  assumes "drop off m = concat (map encode_option os) @ rest" "list_all wf_option os"
    and "len \<ge> int (length (concat (map encode_option os)))"
  shows "dhcp_options m off len s
    = dhcp_options m (off + length (concat (map encode_option os))) (len - int (length (concat (map encode_option os))))
        (fold (apply_option (hdr_ciaddr m) (hdr_chaddr m)) os s)"
  using assms
proof (induction os arbitrary: off len s)
  case (Cons op os)
  let ?n = "length (snd op)" and ?r = "concat (map encode_option os) @ rest"
  have d: "drop off m = encode_option op @ ?r" using Cons.prems by simp
  have wf: "wf_option op" using Cons.prems by simp
  have lm: "off + (2 + ?n) \<le> length m" using arg_cong [OF d, of length] by (auto simp: encode_option_def)
  have "m ! off = drop off m ! 0" "m ! (off + 1) = drop off m ! 1" using lm by auto
  then have rd: "byte_at m off = Inr (fst op)" "byte_at m (off + 1) = Inr (of_nat ?n)"
    using lm unfolding d by (auto simp: byte_at_def encode_option_def)
  have nxt: "drop (off + (2 + ?n)) m = ?r"
  proof -
    have "drop (off + (2 + ?n)) m = drop (2 + ?n) (drop off m)" by (simp add: ac_simps)
    then show ?thesis unfolding d by (simp add: encode_option_def)
  qed
  have pos: "len > 0" using Cons.prems(3) by (auto simp: encode_option_def)
  have "dhcp_options m off len s
      = dhcp_options m (off + (2 + ?n)) (len - int (2 + ?n)) (apply_option (hdr_ciaddr m) (hdr_chaddr m) op s)"
    using pos rd wf option_body_apply [OF d wf, of s]
    by (subst dhcp_options.simps) (simp add: wf_option_def unat_length_byte)
  also have "\<dots> = dhcp_options m (off + (2 + ?n) + length (concat (map encode_option os)))
      (len - int (2 + ?n) - int (length (concat (map encode_option os))))
      (fold (apply_option (hdr_ciaddr m) (hdr_chaddr m)) os (apply_option (hdr_ciaddr m) (hdr_chaddr m) op s))"
    using Cons.prems by (intro Cons.IH nxt) (auto simp: encode_option_def)
  finally show ?case by (simp add: length_encode_option algebra_simps)
qed simp

lemma dhcp_options_stop:
  "len \<le> 0 \<Longrightarrow> dhcp_options m off len s = Inr s"
  "off < length m \<Longrightarrow> m ! off = BOOTP_END_OPTION \<Longrightarrow> dhcp_options m off len s = Inr s"
  by (simp_all add: dhcp_options.simps byte_at_def)

section \<open>Responses\<close>

definition response_options :: "u8 \<Rightarrow> u32 \<Rightarrow> bool \<Rightarrow> dhcp_server_data \<Rightarrow> dhcp_option list" where
  "response_options ty timeout nack_dns d =
    [(BOOTP_OPTION_DHCP_MESSAGE, [ty]), (BOOTP_OPTION_SUBNET_MASK, word_bytes (netmask d)),
     (BOOTP_OPTION_ADDRESS_TIME, word_bytes (htonl timeout)), (BOOTP_OPTION_DHCP_SERVER_ID, word_bytes (my_ip d)),
     (BOOTP_OPTION_ROUTER, word_bytes (router_ip d)),
     (BOOTP_OPTION_NAMESERVER, word_bytes (if nack_dns then router_ip d else 0))]"

text \<open>A reply of type \<open>ty\<close> that assigns \<open>ip\<close>: everything before the options, and the options.\<close>

definition response_header :: "u32 \<Rightarrow> u8 list \<Rightarrow> u8 list \<Rightarrow> bool" where
  "response_header ip chaddr p \<longleftrightarrow> length p \<ge> HDR_SIZE \<and> hdr_op p = BOOTP_OP_RESPONSE \<and> hdr_htype p = 1
     \<and> hdr_hlen p = 6 \<and> hdr_ciaddr p = 0 \<and> hdr_yiaddr p = ip \<and> hdr_chaddr p = chaddr"

text \<open>Writing options one after the other: \<open>written xs (off, m)\<close> says that the buffer \<open>m\<close> holds \<open>xs\<close> up to
  \<open>off\<close>.\<close>

definition written :: "u8 list \<Rightarrow> nat \<times> u8 list \<Rightarrow> bool" where
  "written xs s \<longleftrightarrow> length (snd s) = SERVER_BUFFER_SIZE \<and> fst s \<le> SERVER_BUFFER_SIZE \<and> take (fst s) (snd s) = xs"

lemma written_put:
  assumes "written xs (off, m)" "off + length bs \<le> SERVER_BUFFER_SIZE"
  shows "written (xs @ bs) (off + length bs, put off bs m)"
  using assms by (auto simp: written_def take_put)

lemma written_word_option:
  assumes "written xs s" "fst s + 6 \<le> SERVER_BUFFER_SIZE"
  shows "written (xs @ encode_option (ty, word_bytes v)) (word_option ty v s)"
    and "fst (word_option ty v s) = fst s + 6"
proof -
  obtain off m where s: "s = (off, m)" by (cases s)
  have len: "length m = SERVER_BUFFER_SIZE" using assms(1) by (simp add: written_def s)
  have e: "word_option ty v s = (off + 6, put off (ty # 4 # word_bytes v) m)"
    using assms(2) len unfolding s by (intro word_option_put) simp
  then show "fst (word_option ty v s) = fst s + 6" by (simp add: s)
  show "written (xs @ encode_option (ty, word_bytes v)) (word_option ty v s)"
    unfolding e using written_put [of xs off m "ty # 4 # word_bytes v"] assms by (simp add: s encode_option_def)
qed

lemma written_response_options:
  assumes "written xs s" "fst s + 31 \<le> SERVER_BUFFER_SIZE"
  shows "written (xs @ encode_options
      [(BOOTP_OPTION_SUBNET_MASK, word_bytes (netmask d)), (BOOTP_OPTION_ADDRESS_TIME, word_bytes (htonl timeout)),
       (BOOTP_OPTION_DHCP_SERVER_ID, word_bytes (my_ip d)), (BOOTP_OPTION_ROUTER, word_bytes (router_ip d)),
       (BOOTP_OPTION_NAMESERVER, word_bytes (if nack then router_ip d else 0))]) (put_response_options timeout nack d s)"
    and "fst (put_response_options timeout nack d s) = fst s + 31"
proof -
  define s1 where "s1 = word_option BOOTP_OPTION_SUBNET_MASK (netmask d) s"
  define s2 where "s2 = word_option BOOTP_OPTION_ADDRESS_TIME (htonl timeout) s1"
  define s3 where "s3 = word_option BOOTP_OPTION_DHCP_SERVER_ID (my_ip d) s2"
  define s4 where "s4 = word_option BOOTP_OPTION_ROUTER (router_ip d) s3"
  define s5 where "s5 = word_option BOOTP_OPTION_NAMESERVER (if nack then router_ip d else 0) s4"
  note steps = s1_def s2_def s3_def s4_def s5_def
  have 1: "written (xs @ encode_option (BOOTP_OPTION_SUBNET_MASK, word_bytes (netmask d))) s1" "fst s1 = fst s + 6"
    unfolding s1_def using written_word_option [OF assms(1)] assms(2) by simp_all
  note 2 = written_word_option [OF 1(1), of BOOTP_OPTION_ADDRESS_TIME "htonl timeout", folded s2_def]
  have 2: "written ((xs @ encode_option (BOOTP_OPTION_SUBNET_MASK, word_bytes (netmask d)))
      @ encode_option (BOOTP_OPTION_ADDRESS_TIME, word_bytes (htonl timeout))) s2" "fst s2 = fst s + 12"
    using 2 1(2) assms(2) by simp_all
  note 3 = written_word_option [OF 2(1), of BOOTP_OPTION_DHCP_SERVER_ID "my_ip d", folded s3_def]
  note 3 = 3(1) [unfolded 2(2)] 3(2) [unfolded 2(2)]
  note 4 = written_word_option [OF 3(1), of BOOTP_OPTION_ROUTER "router_ip d", folded s4_def]
  note 5 = written_word_option [OF 4(1), of BOOTP_OPTION_NAMESERVER "if nack then router_ip d else 0", folded s5_def]
  have f: "fst s3 = fst s + 18" "fst s4 = fst s + 24" "fst s5 = fst s + 30"
    using 3(2) 4(2) 5(2) 2(2) assms(2) by simp_all
  have res: "put_response_options timeout nack d s = (fst s5 + 1, put (fst s5) [BOOTP_END_OPTION] (snd s5))"
    by (simp add: put_response_options_def steps split: prod.splits)
  show "fst (put_response_options timeout nack d s) = fst s + 31" by (simp add: res f)
  have "written ((((((xs @ encode_option (BOOTP_OPTION_SUBNET_MASK, word_bytes (netmask d)))
      @ encode_option (BOOTP_OPTION_ADDRESS_TIME, word_bytes (htonl timeout)))
      @ encode_option (BOOTP_OPTION_DHCP_SERVER_ID, word_bytes (my_ip d)))
      @ encode_option (BOOTP_OPTION_ROUTER, word_bytes (router_ip d)))
      @ encode_option (BOOTP_OPTION_NAMESERVER, word_bytes (if nack then router_ip d else 0)))) (fst s5, snd s5)"
    unfolding prod.collapse using 5(1) 3(2) f assms(2) by simp
  from written_put [OF this, of "[BOOTP_END_OPTION]"] show "written (xs @ encode_options
      [(BOOTP_OPTION_SUBNET_MASK, word_bytes (netmask d)), (BOOTP_OPTION_ADDRESS_TIME, word_bytes (htonl timeout)),
       (BOOTP_OPTION_DHCP_SERVER_ID, word_bytes (my_ip d)), (BOOTP_OPTION_ROUTER, word_bytes (router_ip d)),
       (BOOTP_OPTION_NAMESERVER, word_bytes (if nack then router_ip d else 0))]) (put_response_options timeout nack d s)"
    using f assms(2) by (simp add: res encode_options_def)
qed

definition response_start :: "u8 list \<Rightarrow> u32 \<Rightarrow> u8 list" where
  "response_start m yiaddr =
    put 20 (word_bytes 0 @ word_bytes 0) (put 16 (word_bytes yiaddr) (put 12 (word_bytes 0)
      (put 0 [BOOTP_OP_RESPONSE, 1, 6, 0] m)))"

lemma response_start_header:
  assumes "length m = SERVER_BUFFER_SIZE"
  shows "length (response_start m ip) = SERVER_BUFFER_SIZE" "response_header ip (hdr_chaddr m) (response_start m ip)"
  using assms
  by (simp_all add: response_start_def response_header_def SERVER_BUFFER_SIZE_def HDR_SIZE_def hdr_op_def hdr_htype_def
      hdr_hlen_def hdr_ciaddr_def hdr_yiaddr_def nth_put u32_at_put chaddr_put)

lemma response_header_take:
  assumes "take HDR_SIZE p = take HDR_SIZE q" "HDR_SIZE \<le> length p"
  shows "response_header ip c p = response_header ip c q" "hdr_yiaddr p = hdr_yiaddr q" "hdr_chaddr p = hdr_chaddr q"
proof -
  have q: "HDR_SIZE \<le> length q" using arg_cong [OF assms(1), of length] assms(2) by simp
  have n: "p ! i = q ! i" if "i < 240" for i
    using assms(1) that by (metis HDR_SIZE_def nth_take)
  have "hdr_chaddr p = take 6 (drop 28 (take HDR_SIZE p))" for p :: "u8 list"
    by (simp add: hdr_chaddr_def HDR_SIZE_def drop_take)
  then show c: "hdr_chaddr p = hdr_chaddr q" using assms(1) by metis
  show "response_header ip c p = response_header ip c q" "hdr_yiaddr p = hdr_yiaddr q"
    using assms(2) q c
    by (simp_all add: response_header_def hdr_op_def hdr_htype_def hdr_hlen_def hdr_ciaddr_def hdr_yiaddr_def u32_at_def n)
qed

lemma make_response_layout:
  assumes m: "length m = SERVER_BUFFER_SIZE"
    and ok: "make_response ty timeout nack m d = Inr (n, m', d')"
  shows "length m' = SERVER_BUFFER_SIZE"
    and "n = (if ty = DHCP_MESSAGE_NAK then HDR_SIZE + 3 else HDR_SIZE + 34)"
    and "response_header (hdr_yiaddr m') (hdr_chaddr m) m'"
    and "drop HDR_SIZE (take n m') = (if ty = DHCP_MESSAGE_NAK then encode_option (BOOTP_OPTION_DHCP_MESSAGE, [ty])
           else encode_options (response_options ty timeout nack d'))"
    and "if ty = DHCP_MESSAGE_OFFER then next_yiaddr (hdr_chaddr m) d = Inr (hdr_yiaddr m', d')
         else d' = d \<and> hdr_yiaddr m' = (if ty = DHCP_MESSAGE_ACK then req_ip d else 0)"
proof -
  let ?c = "hdr_chaddr m"
  have "length (put 0 [BOOTP_OP_RESPONSE, 1, 6, 0] m) = SERVER_BUFFER_SIZE" using m by (simp add: SERVER_BUFFER_SIZE_def)
  then have c: "hdr_chaddr (put 12 (word_bytes 0) (put 0 [BOOTP_OP_RESPONSE, 1, 6, 0] m)) = ?c"
    using m by (simp add: chaddr_put SERVER_BUFFER_SIZE_def)
  define src where "src = (if ty = DHCP_MESSAGE_OFFER then next_yiaddr ?c d
               else Inr (if ty = DHCP_MESSAGE_ACK then req_ip d else 0, d))"
  obtain ip where src: "src = Inr (ip, d')" and fin:
    "(n, m') = (let s = (HDR_SIZE + 3, put HDR_SIZE [BOOTP_OPTION_DHCP_MESSAGE, 1, ty] (response_start m ip))
      in if ty = DHCP_MESSAGE_NAK then s else put_response_options timeout nack d' s)"
    using ok unfolding make_response_def Let_def c src_def [symmetric] bind_res_Inr response_start_def
    by (auto split: if_splits prod.splits)
  note start = response_start_header [OF m, of ip]
  have w0: "written (take HDR_SIZE (response_start m ip)) (HDR_SIZE, response_start m ip)"
    using start(1) by (simp add: written_def HDR_SIZE_def SERVER_BUFFER_SIZE_def)
  have w1: "written (take HDR_SIZE (response_start m ip) @ encode_option (BOOTP_OPTION_DHCP_MESSAGE, [ty]))
      (HDR_SIZE + 3, put HDR_SIZE [BOOTP_OPTION_DHCP_MESSAGE, 1, ty] (response_start m ip))"
    using written_put [OF w0, of "[BOOTP_OPTION_DHCP_MESSAGE, 1, ty]"]
    by (simp add: encode_option_def HDR_SIZE_def SERVER_BUFFER_SIZE_def)
  have all: "n = (if ty = DHCP_MESSAGE_NAK then HDR_SIZE + 3 else HDR_SIZE + 34)
    \<and> written (take HDR_SIZE (response_start m ip) @ (if ty = DHCP_MESSAGE_NAK then encode_option (BOOTP_OPTION_DHCP_MESSAGE, [ty])
        else encode_options (response_options ty timeout nack d'))) (n, m')"
  proof (cases "ty = DHCP_MESSAGE_NAK")
    case True
    then show ?thesis using fin w1 by simp
  next
    case False
    then have "(n, m') = put_response_options timeout nack d'
        (HDR_SIZE + 3, put HDR_SIZE [BOOTP_OPTION_DHCP_MESSAGE, 1, ty] (response_start m ip))"
      using fin by (simp add: Let_def)
    with False show ?thesis
      using written_response_options [OF w1, where d = d' and timeout = timeout and nack = nack]
      by (cases "put_response_options timeout nack d'
          (HDR_SIZE + 3, put HDR_SIZE [BOOTP_OPTION_DHCP_MESSAGE, 1, ty] (response_start m ip))")
        (simp add: HDR_SIZE_def SERVER_BUFFER_SIZE_def response_options_def encode_options_def)
  qed
  show "length m' = SERVER_BUFFER_SIZE" using all by (simp add: written_def)
  show "n = (if ty = DHCP_MESSAGE_NAK then HDR_SIZE + 3 else HDR_SIZE + 34)" using all by simp
  have h: "take HDR_SIZE m' = take HDR_SIZE (response_start m ip)"
  proof -
    have "HDR_SIZE \<le> n" using all by (simp split: if_splits)
    then have "take HDR_SIZE m' = take HDR_SIZE (take n m')" by (simp add: min_def)
    also have "\<dots> = take HDR_SIZE (take HDR_SIZE (response_start m ip))"
    proof -
      obtain os where t: "take n m' = take HDR_SIZE (response_start m ip) @ os" using all by (auto simp: written_def)
      show ?thesis unfolding t using start(1) by (simp add: HDR_SIZE_def SERVER_BUFFER_SIZE_def)
    qed
    finally show ?thesis by simp
  qed
  have lm: "HDR_SIZE \<le> length m'" using all by (simp add: written_def HDR_SIZE_def SERVER_BUFFER_SIZE_def)
  have y: "hdr_yiaddr m' = ip"
    using response_header_take(2) [OF h lm] start(2) by (simp add: response_header_def)
  show "response_header (hdr_yiaddr m') (hdr_chaddr m) m'"
    using response_header_take(1) [OF h lm] start(2) y by simp
  show "drop HDR_SIZE (take n m') = (if ty = DHCP_MESSAGE_NAK then encode_option (BOOTP_OPTION_DHCP_MESSAGE, [ty])
           else encode_options (response_options ty timeout nack d'))"
  proof -
    have t: "take n m' = take HDR_SIZE (response_start m ip) @ (if ty = DHCP_MESSAGE_NAK
        then encode_option (BOOTP_OPTION_DHCP_MESSAGE, [ty]) else encode_options (response_options ty timeout nack d'))"
      using all unfolding written_def fst_conv snd_conv by (elim conjE)
    show ?thesis unfolding t using start(1) by (simp add: HDR_SIZE_def SERVER_BUFFER_SIZE_def)
  qed
  show "if ty = DHCP_MESSAGE_OFFER then next_yiaddr (hdr_chaddr m) d = Inr (hdr_yiaddr m', d')
         else d' = d \<and> hdr_yiaddr m' = (if ty = DHCP_MESSAGE_ACK then req_ip d else 0)"
    using src y by (auto simp: src_def)
qed

end
