(* ===== verification/Dhcp_Server.thy ===== *)
theory Dhcp_Server
  imports Dhcp_Message
begin

text \<open>
  The DHCP server, part four: the server itself, from \<open>dhcp_server_start\<close> of \<^verbatim>\<open>dhcp-server-main.c\<close> to
  \<open>dhcp_server_stop\<close>. The thread is a loop around \<open>lwip_select\<close>; one pass serves the DHCP, the DNS and the
  control socket in this order. What becomes readable, what \<open>lwip_recvfrom\<close> delivers, and the results of
  opening sockets are parameters.
\<close>

section \<open>The loop of the thread\<close>

text \<open>What one call of \<open>lwip_select\<close> returns, with the datagrams that wait on the readable sockets; a
  datagram of no bytes also stands for an error of \<open>lwip_recvfrom\<close>.\<close>

record select_result =
  sel_ret :: int
  on_sock :: "u8 list option"
  on_dnssock :: "(u8 list \<times> u32) option"
  on_ctrlsock :: "u8 list option"

definition receive :: "u8 list \<Rightarrow> dhcp_world \<Rightarrow> (nat \<times> dhcp_world) result" where
  "receive bs w =
    (case msg (dhcps w) of
       None \<Rightarrow> Inl Null_deref
     | Some m \<Rightarrow> let bs = take SERVER_BUFFER_SIZE bs
         in Inr (length bs, set_dhcps (msg_update (\<lambda>_. Some (put 0 bs m))) w))"

definition serve_dhcp :: "net_env \<Rightarrow> u8 list \<Rightarrow> dhcp_world \<Rightarrow> dhcp_world result" where
  "serve_dhcp env bs w =
    bind_res (receive bs w) (\<lambda>(len, w).
      if len > 0 then bind_res (process_dhcp_message env len w) (\<lambda>(_, w). Inr w) else Inr w)"

definition serve_dns :: "net_env \<Rightarrow> u8 list \<Rightarrow> u32 \<Rightarrow> dhcp_world \<Rightarrow> dhcp_world result" where
  "serve_dns env bs caddr w =
    bind_res (receive bs w) (\<lambda>(len, w).
      if len > 0 then bind_res (process_dns_message env len caddr w) (\<lambda>(_, w). Inr w) else Inr w)"

definition HALT_MSG :: "u8 list" where "HALT_MSG = [0x48, 0x41, 0x4C, 0x54, 0]"

definition serve_ctrl :: "u8 list \<Rightarrow> dhcp_world \<Rightarrow> (bool \<times> dhcp_world) result" where
  "serve_ctrl bs w =
    bind_res (receive bs w) (\<lambda>(len, w).
      Inr (len > 0 \<and> (case msg (dhcps w) of None \<Rightarrow> False | Some m \<Rightarrow> take 5 m = HALT_MSG), w))"

text \<open>The descriptor up to which \<open>lwip_select\<close> looks: the second assignment to \<open>max_sock\<close> leaves the DNS socket
  out.\<close>

definition max_sock :: "dhcp_server_data \<Rightarrow> int" where
  "max_sock d = (if sock d > ctrlsock d then sock d else ctrlsock d)"

definition server_pass :: "net_env \<Rightarrow> select_result \<Rightarrow> dhcp_world \<Rightarrow> (bool \<times> dhcp_world) result" where
  "server_pass env sel w =
    (let dns_ready = (dhcp_nack_dns_server_handler w \<and> dnssock (dhcps w) \<le> max_sock (dhcps w))
     in if sel_ret sel < 0 then Inr (True, w)
        else bind_res (case on_sock sel of None \<Rightarrow> Inr w | Some bs \<Rightarrow> serve_dhcp env bs w) (\<lambda>w.
             bind_res (case on_dnssock sel of None \<Rightarrow> Inr w
                       | Some (bs, caddr) \<Rightarrow> if dns_ready then serve_dns env bs caddr w else Inr w) (\<lambda>w.
             case on_ctrlsock sel of None \<Rightarrow> Inr (False, w) | Some bs \<Rightarrow> serve_ctrl bs w)))"

section \<open>Starting and stopping\<close>

definition close_sock :: "int \<Rightarrow> dhcp_world \<Rightarrow> dhcp_world" where
  "close_sock fd w = (if fd \<noteq> -1 then log_event (Closed fd) w else w)"

definition dhcp_clean_sockets :: "dhcp_world \<Rightarrow> dhcp_world" where
  "dhcp_clean_sockets w =
    (let w = set_dhcps (sock_update (\<lambda>_. -1)) (close_sock (sock (dhcps w)) w);
         w = (if dhcp_nack_dns_server_handler w
              then set_dhcps (dnssock_update (\<lambda>_. -1)) (close_sock (dnssock (dhcps w)) w) else w)
     in set_dhcps (ctrlsock_update (\<lambda>_. -1)) (close_sock (ctrlsock (dhcps w)) w))"

text \<open>The thread: passes until one goes to \<open>done\<close>, over the list of what \<open>lwip_select\<close> returns. The first
  component tells whether it came to its end within that list.\<close>

primrec dhcp_server :: "net_env \<Rightarrow> select_result list \<Rightarrow> dhcp_world \<Rightarrow> (bool \<times> dhcp_world) result" where
  "dhcp_server env [] w = Inr (False, w)"
| "dhcp_server env (sel # sels) w =
    bind_res (server_pass env sel w) (\<lambda>(fin, w).
      if fin then Inr (True, dhcp_clean_sockets w) else dhcp_server env sels w)"

definition dhcp_free_allocations :: "dhcp_world \<Rightarrow> int \<times> dhcp_world" where
  "dhcp_free_allocations w =
    (let w = dhcp_clean_sockets w in (0, set_dhcps (msg_update (\<lambda>_. None)) w))"

definition LOCALHOST :: u32 where "LOCALHOST = 0x0100007F"

text \<open>\<open>dhcp_send_halt\<close> waits for the mutex of the server thread after it has sent the message: \<open>thread\<close> is
  what the thread does until it releases it.\<close>

definition dhcp_send_halt :: "net_env \<Rightarrow> (dhcp_world \<Rightarrow> dhcp_world) \<Rightarrow> dhcp_world \<Rightarrow> int \<times> dhcp_world" where
  "dhcp_send_halt env thread w =
    (let ret = lwip_sendto env (events w) HALT_MSG;
         w = log_event (Sent (ctrlsock (dhcps w)) LOCALHOST HALT_MSG) w
     in if ret < 0 then (-1, w) else dhcp_free_allocations (thread w))"

definition dhcp_enable_nack_dns_server :: "dhcp_world \<Rightarrow> dhcp_world" where
  "dhcp_enable_nack_dns_server w = w\<lparr>dhcp_nack_dns_server_handler := True\<rparr>"

text \<open>The results that \<open>dhcp_server_init\<close> and \<open>dhcp_server_start\<close> depend on.\<close>

record init_env =
  malloc_msg :: "u8 list option"
  init_mutex :: int
  if_ip_addr :: "int \<times> u32"
  if_ip_mask :: "int \<times> u32"
  if_gw_addr :: "int \<times> u32"
  setsockopt_broadcast :: "dhcp_event list \<Rightarrow> int"
  lwip_bind :: "dhcp_event list \<Rightarrow> int"
  create_thread :: int

definition create_and_bind_udp_socket ::
    "net_env \<Rightarrow> init_env \<Rightarrow> u32 \<Rightarrow> u16 \<Rightarrow> dhcp_world \<Rightarrow> int \<times> dhcp_world" where
  "create_and_bind_udp_socket env ini addr port w =
    (let fd = lwip_socket env (events w); w = log_event (Opened fd) w
     in if fd = -1 then (-1, w)
        else if setsockopt_broadcast ini (events w) = -1 then (-1, log_event (Closed fd) w)
        else (let ret = lwip_bind ini (events w); w = log_event (Bound fd addr port) w
              in if ret \<noteq> 0 then (-1, log_event (Closed fd) w) else (fd, w)))"

definition zero_dhcps :: dhcp_server_data where
  "zero_dhcps = \<lparr>sock = 0, dnssock = 0, ctrlsock = 0, count_clients = 0, msg = None, uaddr = 0, baddr = 0,
     ip_mac_mapping = replicate MAC_IP_CACHE_SIZE \<lparr>client_mac = replicate 6 0, client_ip = 0\<rparr>,
     netmask = 0, my_ip = 0, req_ip = 0, current_ip = 0, router_ip = 0\<rparr>"

definition init_out :: "dhcp_world \<Rightarrow> int \<times> dhcp_world" where
  "init_out w = (-1, set_dhcps (msg_update (\<lambda>_. None)) w)"

definition dhcp_server_init :: "net_env \<Rightarrow> init_env \<Rightarrow> dhcp_world \<Rightarrow> int \<times> dhcp_world" where
  "dhcp_server_init env ini w =
    (let w = set_dhcps (\<lambda>_. zero_dhcps\<lparr>msg := malloc_msg ini\<rparr>) w
     in if malloc_msg ini = None then (-1, w)
        else if init_mutex ini \<noteq> 0 then (-1, w)
        else
          (let w = set_dhcps (\<lambda>d. d\<lparr>baddr := IPADDR_BROADCAST, uaddr := IPADDR_BROADCAST, my_ip := snd (if_ip_addr ini)\<rparr>) w
           in if fst (if_ip_addr ini) < 0 then init_out w else
           let w = set_dhcps (netmask_update (\<lambda>_. snd (if_ip_mask ini))) w
           in if fst (if_ip_mask ini) < 0 then init_out w else
           let w = set_dhcps (router_ip_update (\<lambda>_. snd (if_gw_addr ini))) w
           in if fst (if_gw_addr ini) < 0 then init_out w else
           let (fd, w) = create_and_bind_udp_socket env ini 0 67 w; w = set_dhcps (sock_update (\<lambda>_. fd)) w
           in if fd < 0 then init_out w else
           let (fd, w) = (if dhcp_nack_dns_server_handler w then create_and_bind_udp_socket env ini 0 53 w else (0, w));
               w = (if dhcp_nack_dns_server_handler w then set_dhcps (dnssock_update (\<lambda>_. fd)) w else w)
           in if dhcp_nack_dns_server_handler w \<and> fd < 0 then (-1, w) else
           let (fd, w) = create_and_bind_udp_socket env ini LOCALHOST 12679 w; w = set_dhcps (ctrlsock_update (\<lambda>_. fd)) w
           in if fd < 0 then init_out w else
           (0, set_dhcps (\<lambda>d. d\<lparr>current_ip := ntohl (my_ip d AND netmask d) OR (99 AND ntohl (NOT (netmask d)))\<rparr>) w)))"

definition dhcp_server_start :: "net_env \<Rightarrow> init_env \<Rightarrow> dhcp_world \<Rightarrow> int \<times> dhcp_world" where
  "dhcp_server_start env ini w =
    (let w = dhcp_enable_nack_dns_server w
     in if dhcpd_running w then (-1, w)
        else (let (ret, w) = dhcp_server_init env ini w
              in if ret \<noteq> 0 then (-1, w)
                 else if create_thread ini \<noteq> 0 then (-1, snd (dhcp_free_allocations w))
                 else (0, w\<lparr>dhcpd_running := True\<rparr>)))"

definition dhcp_server_stop :: "net_env \<Rightarrow> (dhcp_world \<Rightarrow> dhcp_world) \<Rightarrow> dhcp_world \<Rightarrow> dhcp_world" where
  "dhcp_server_stop env thread w =
    (if dhcpd_running w
     then (let (ret, w) = dhcp_send_halt env thread w
           in if ret \<noteq> 0 then w else w\<lparr>dhcpd_running := False\<rparr>)
     else w)"

end
