(* ===== verification/Dhcp_Run.thy ===== *)
theory Dhcp_Run
  imports Dhcp_Spec Dhcp_Server "HOL-Library.Sublist"
begin

text \<open>
  The DHCP server, part five: its runs. Every pass of the loop keeps the invariant of the cache and never
  drops a lease; it faults only by reading beyond the buffer or by a search or a send that does not end, and
  not at all with messages of at most 1019 bytes in a subnet of sixteen addresses or more. The runs are two
  instances of the locale \<open>guarded_run\<close>.
\<close>

section \<open>The invariant\<close>

definition server_inv :: "dhcp_world \<Rightarrow> bool" where
  "server_inv w \<longleftrightarrow> cache_inv (dhcps w) \<and> baddr (dhcps w) = IPADDR_BROADCAST
     \<and> (\<exists>m. msg (dhcps w) = Some m \<and> length m = SERVER_BUFFER_SIZE)"

text \<open>The cache only grows, and the configuration stays.\<close>

definition grows :: "dhcp_server_data \<Rightarrow> dhcp_server_data \<Rightarrow> bool" where
  "grows d d' \<longleftrightarrow> same_net d d' \<and> prefix (leases d) (leases d')"

lemma grows_refl [simp]: "grows d d"
  by (simp add: grows_def)

lemma grows_trans: "grows d e \<Longrightarrow> grows e f \<Longrightarrow> grows d f"
  by (auto simp: grows_def intro: same_net_trans prefix_order.trans)

lemma grows_same:
  assumes "ip_mac_mapping d' = ip_mac_mapping d" "count_clients d' = count_clients d" "same_net d d'"
  shows "grows d d'" "cache_inv d' = cache_inv d"
  using cache_inv_cong [OF assms] assms(3) by (simp_all add: grows_def)

text \<open>What one option may do to the state of the server.\<close>

definition opt_ok :: "dhcp_server_data \<Rightarrow> dhcp_server_data \<Rightarrow> bool" where
  "opt_ok d d' \<longleftrightarrow> msg d' = msg d \<and> (cache_inv d \<longrightarrow> cache_inv d' \<and> grows d d')"

lemma opt_ok_trans: "opt_ok d e \<Longrightarrow> opt_ok e f \<Longrightarrow> opt_ok d f"
  by (auto simp: opt_ok_def intro: grows_trans)

lemma opt_ok_req_ip: "opt_ok d (d\<lparr>req_ip := ip\<rparr>)" "opt_ok d d"
  using grows_same [of "d\<lparr>req_ip := ip\<rparr>" d] by (simp_all add: opt_ok_def same_net_def)

lemma message_option_ok: "opt_ok (snd s) (snd (message_option c v s))"
  by (auto simp: message_option_def opt_ok_req_ip split: prod.splits)

lemma requested_ip_option_ok: "opt_ok (snd s) (snd (requested_ip_option ip s))"
  by (auto simp: requested_ip_option_def opt_ok_req_ip split: prod.splits)

lemma decide_response_snd: "snd (decide_response s) = snd s"
  by (auto simp: decide_response_def split: prod.splits)

lemma check_requested_ok: "opt_ok (snd s) (snd (check_requested c s))"
proof -
  obtain o1 d where s: "s = (o1, d)" by (cases s)
  have "opt_ok d (snd (ac_add c (req_ip d) d))"
    if sub: "req_ip d AND netmask d = my_ip d AND netmask d" and new: "ac_lookup_mac c d = 0"
      and valid: "ac_valid_ip (ntohl (req_ip d)) d"
    unfolding opt_ok_def
  proof (intro conjI [OF add_frame(3)] impI)
    assume inv: "cache_inv d"
    then have mac: "c \<notin> fst ` set (leases d)" using new lookup_mac_0_iff by blast
    have "req_ip d \<notin> reserved d" "req_ip d \<notin> snd ` set (leases d)" "in_subnet d (req_ip d)"
      using valid sub by (simp_all add: valid_ip_iff in_subnet_def network_addr_def)
    then have "cache_inv (snd (ac_add c (req_ip d) d))" using inv mac by (intro cache_inv_add)
    moreover have "prefix (leases d) (leases (snd (ac_add c (req_ip d) d)))"
      by (simp add: leases_add [OF inv])
    ultimately show "cache_inv (snd (ac_add c (req_ip d) d)) \<and> grows d (snd (ac_add c (req_ip d) d))"
      by (simp add: grows_def)
  qed
  then show ?thesis
    by (auto simp: s check_requested_def Let_def opt_ok_req_ip CLIENT_IP_NOT_FOUND_def)
qed

lemma option_body_ok:
  assumes "length m = SERVER_BUFFER_SIZE"
  shows "case option_body m off ty ln s of
      Inl e \<Rightarrow> e = Out_of_bounds \<and> off + 6 > SERVER_BUFFER_SIZE
    | Inr s' \<Rightarrow> opt_ok (snd s) (snd s')"
proof -
  have b: "byte_at m (off + i) = (if off + i < SERVER_BUFFER_SIZE then Inr (m ! (off + i)) else Inl Out_of_bounds)" for i
    using assms by (simp add: byte_at_def)
  note ok = opt_ok_trans [OF message_option_ok check_requested_ok] opt_ok_trans [OF requested_ip_option_ok check_requested_ok]
    opt_ok_trans [OF message_option_ok opt_ok_trans [OF requested_ip_option_ok check_requested_ok]] check_requested_ok
  show ?thesis unfolding option_body_def b by (auto simp: decide_response_snd ok)
qed

lemma dhcp_options_ok:
  assumes "length m = SERVER_BUFFER_SIZE"
  shows "case dhcp_options m off len s of
      Inl e \<Rightarrow> e = Out_of_bounds \<and> int off + len > int SERVER_BUFFER_SIZE - 5
    | Inr s' \<Rightarrow> opt_ok (snd s) (snd s')"
  using assms
proof (induction m off len s rule: dhcp_options.induct)
  case (1 m off len s)
  have rd: "byte_at m i = (if i < SERVER_BUFFER_SIZE then Inr (m ! i) else Inl Out_of_bounds)" for i
    using 1 by (simp add: byte_at_def)
  have body: "case option_body m off ty ln s of
      Inl e \<Rightarrow> e = Out_of_bounds \<and> off + 6 > SERVER_BUFFER_SIZE | Inr s' \<Rightarrow> opt_ok (snd s) (snd s')" for ty ln
    using 1 by (intro option_body_ok)
  show ?case
  proof (cases "len > 0 \<and> off + 1 < SERVER_BUFFER_SIZE \<and> m ! off \<noteq> BOOTP_END_OPTION")
    case False
    then show ?thesis by (subst dhcp_options.simps) (auto simp: rd opt_ok_req_ip)
  next
    case True
    show ?thesis
    proof (cases "option_body m off (m ! off) (m ! (off + 1)) s")
      case (Inl e)
      then show ?thesis using True body [of "m ! off" "m ! (off + 1)"]
        by (subst dhcp_options.simps) (auto simp: rd)
    next
      case (Inr s')
      then have "opt_ok (snd s) (snd s')" using body [of "m ! off" "m ! (off + 1)"] by simp
      moreover have "case dhcp_options m (off + (2 + unat (m ! (off + 1)))) (len - int (2 + unat (m ! (off + 1)))) s' of
          Inl e \<Rightarrow> e = Out_of_bounds \<and> int off + len > int SERVER_BUFFER_SIZE - 5
        | Inr s'' \<Rightarrow> opt_ok (snd s') (snd s'')"
        using 1(1) [of "m ! off" "m ! (off + 1)" s'] 1(2) True Inr
        by (auto simp: rd split: sum.splits)
      ultimately show ?thesis using True Inr
        by (subst dhcp_options.simps) (auto simp: rd split: sum.splits intro: opt_ok_trans)
    qed
  qed
qed

section \<open>What sending keeps\<close>

text \<open>\<open>lwip_sendto\<close> makes progress when it fails or takes something.\<close>

definition progress :: "net_env \<Rightarrow> bool" where
  "progress env \<longleftrightarrow> (\<forall>evs bs. bs \<noteq> [] \<longrightarrow> lwip_sendto env evs bs \<noteq> 0)"

definition wide_subnet :: "dhcp_server_data \<Rightarrow> bool" where
  "wide_subnet d \<longleftrightarrow> (\<exists>k. subnet_bits d k \<and> 4 \<le> k \<and> k \<le> 32)"

lemma grows_wide: "grows d d' \<Longrightarrow> wide_subnet d' = wide_subnet d"
  using same_net_addrs(3) [of d d'] by (simp add: grows_def wide_subnet_def)

lemma send_loop_progress: "progress env \<Longrightarrow> send_loop env fd a bs evs \<noteq> None"
proof (induction bs arbitrary: evs rule: length_induct)
  case (1 bs)
  show ?case
  proof (cases "bs = []")
    case False
    then have "lwip_sendto env evs bs \<noteq> 0" using 1(2) by (simp add: progress_def)
    with 1 False show ?thesis by (subst send_loop.simps) (simp add: Let_def)
  qed (simp add: send_loop.simps)
qed

text \<open>Sending changes the events only.\<close>

definition same_but_events :: "dhcp_world \<Rightarrow> dhcp_world \<Rightarrow> bool" where
  "same_but_events w w' \<longleftrightarrow> dhcps w' = dhcps w \<and> dhcp_address_timeout w' = dhcp_address_timeout w
     \<and> dhcp_nack_dns_server_handler w' = dhcp_nack_dns_server_handler w \<and> dhcpd_running w' = dhcpd_running w"

lemma same_but_events_simps [simp]:
  "same_but_events w w" "same_but_events w (log_event e w)" "same_but_events w (w\<lparr>events := evs\<rparr>)"
  by (simp_all add: same_but_events_def log_event_def)

lemma same_but_events_trans: "same_but_events u v \<Longrightarrow> same_but_events v w \<Longrightarrow> same_but_events u w"
  by (simp add: same_but_events_def)

lemma same_but_eventsD: "same_but_events w w' \<Longrightarrow> dhcps w' = dhcps w"
  by (simp add: same_but_events_def)

lemma send_response_ok:
  "case send_response env fd a bs w of
     Inl e \<Rightarrow> e = Spins \<and> \<not> progress env
   | Inr (r, w') \<Rightarrow> same_but_events w w'"
proof -
  let ?w = "if a = 0 \<or> a = IPADDR_BROADCAST then log_event Default_netif w else w"
  have "same_but_events w (?w\<lparr>events := evs\<rparr>)" for evs by (simp add: same_but_events_def log_event_def)
  then show ?thesis
    using send_loop_progress [of env fd a bs "events ?w"]
    by (cases "send_loop env fd a bs (events ?w)") (auto simp: send_response_def Let_def)
qed

lemma send_times_ok:
  "case send_times n env fd a bs w of
     Inl e \<Rightarrow> e = Spins \<and> \<not> progress env
   | Inr w' \<Rightarrow> same_but_events w w'"
proof (induction n arbitrary: w)
  case (Suc n)
  show ?case
  proof (cases "send_response env fd a bs w")
    case (Inl e)
    then show ?thesis using send_response_ok [where env = env and fd = fd and a = a and bs = bs and w = w] by simp
  next
    case (Inr x)
    then obtain r w1 where x: "send_response env fd a bs w = Inr (r, w1)" by (cases x) auto
    then have "same_but_events w w1" using send_response_ok [where env = env and fd = fd and a = a and bs = bs and w = w] by simp
    then show ?thesis using Suc.IH [of w1] x by (auto split: sum.splits intro: same_but_events_trans)
  qed
qed simp

lemma gratuitous_arp_ok: "same_but_events w (snd (send_gratuitous_arp env ip w))"
  by (simp add: send_gratuitous_arp_def Let_def same_but_events_def log_event_def)

section \<open>What a pass keeps\<close>

lemma make_response_ok:
  assumes "length m = SERVER_BUFFER_SIZE" "cache_inv d"
  shows "case make_response ty t nack m d of
      Inl e \<Rightarrow> e = Spins \<and> \<not> wide_subnet d
    | Inr (n, m', d') \<Rightarrow> length m' = SERVER_BUFFER_SIZE \<and> cache_inv d' \<and> grows d d' \<and> baddr d' = baddr d"
proof (cases "make_response ty t nack m d")
  case (Inl e)
  let ?src = "if ty = DHCP_MESSAGE_OFFER then next_yiaddr (hdr_chaddr (put 12 (word_bytes 0) (put 0 [BOOTP_OP_RESPONSE, 1, 6, 0] m))) d
    else Inr (if ty = DHCP_MESSAGE_ACK then req_ip d else 0, d)"
  have "?src = Inl e" using Inl
    by (cases ?src) (auto simp: make_response_def Let_def split: if_splits prod.splits)
  then obtain mac where mac: "next_yiaddr mac d = Inl e" by (auto split: if_splits)
  have "\<not> wide_subnet d"
  proof
    assume "wide_subnet d"
    then obtain k where "subnet_bits d k" "4 \<le> k" "k \<le> 32" by (auto simp: wide_subnet_def)
    then obtain ip d' where "next_yiaddr mac d = Inr (ip, d')" using next_yiaddr_total [OF assms(2)] by blast
    with mac show False by simp
  qed
  moreover have "e = Spins" using mac by (auto simp: next_yiaddr_def Let_def split: if_splits option.splits)
  ultimately show ?thesis by (simp add: Inl)
next
  case (Inr x)
  obtain n m' d' where x: "x = (n, m', d')" by (cases x) auto
  note ok = Inr [unfolded x] and lay = make_response_layout [OF assms(1) Inr [unfolded x]]
  have "cache_inv d' \<and> grows d d' \<and> baddr d' = baddr d"
  proof (cases "ty = DHCP_MESSAGE_OFFER")
    case True
    then have "next_yiaddr (hdr_chaddr m) d = Inr (hdr_yiaddr m', d')" using lay(5) by simp
    note o = next_yiaddr_offers [OF assms(2) this]
    have "prefix (leases d) (leases d')" using o(1) by (auto simp: offers_def split: option.splits if_splits)
    then show ?thesis using o by (auto simp: grows_def same_net_def)
  next
    case False
    then show ?thesis using lay(5) assms(2) by simp
  qed
  then show ?thesis using lay(1) by (simp add: ok)
qed

text \<open>What a piece of a pass keeps and where it may fault. \<open>short\<close> says that the DHCP messages are short.\<close>

definition pass_ok :: "net_env \<Rightarrow> bool \<Rightarrow> dhcp_world \<Rightarrow> dhcp_world result \<Rightarrow> bool" where
  "pass_ok env short w r \<longleftrightarrow>
    (case r of
       Inl e \<Rightarrow> e = Out_of_bounds \<and> \<not> short \<or> e = Spins \<and> \<not> (progress env \<and> wide_subnet (dhcps w))
     | Inr w' \<Rightarrow> server_inv w' \<and> grows (dhcps w) (dhcps w'))"

lemma map_snd_bind: "map_sum id snd (bind_res r f) = bind_res r (\<lambda>x. map_sum id snd (f x))"
  by (cases r) simp_all

lemma bind_snd: "bind_res r (\<lambda>(_, w). Inr w) = map_sum id snd r"
  by (cases r) auto

lemma pass_ok_Inr: "server_inv w' \<Longrightarrow> grows (dhcps w) (dhcps w') \<Longrightarrow> pass_ok env short w (Inr w')"
  by (simp add: pass_ok_def)

lemma pass_ok_after:
  assumes "grows (dhcps w) (dhcps w')" "pass_ok env short w' r"
  shows "pass_ok env short w r"
  using assms by (auto simp: pass_ok_def grows_wide split: sum.splits intro: grows_trans)

lemma pass_ok_bind:
  assumes "pass_ok env short w r" "\<And>w'. server_inv w' \<Longrightarrow> pass_ok env short w' (f w')"
  shows "pass_ok env short w (bind_res r f)"
proof (cases r)
  case (Inr w')
  then have "server_inv w'" "grows (dhcps w) (dhcps w')" using assms(1) by (simp_all add: pass_ok_def)
  then show ?thesis using assms(2) Inr by (auto intro: pass_ok_after)
qed (use assms in \<open>simp add: pass_ok_def\<close>)

lemma server_inv_same: "same_but_events w w' \<Longrightarrow> server_inv w' = server_inv w"
  by (simp add: server_inv_def same_but_eventsD)

lemma length_set_flags [simp]: "12 \<le> length m \<Longrightarrow> length (set_flags fl m) = length m"
  by (simp add: set_flags_def short_bytes_def)

lemma set_dhcps_msg:
  assumes "cache_inv (dhcps w)" "baddr (dhcps w) = IPADDR_BROADCAST" "length m = SERVER_BUFFER_SIZE"
  shows "server_inv (set_dhcps (msg_update (\<lambda>_. Some m)) w)" "grows (dhcps w) (dhcps (set_dhcps (msg_update (\<lambda>_. Some m)) w))"
  using assms grows_same [of "msg_update (\<lambda>_. Some m) (dhcps w)" "dhcps w"]
  by (simp_all add: server_inv_def set_dhcps_def same_net_def)

lemma send_unicast_ok:
  assumes "length m = SERVER_BUFFER_SIZE" "cache_inv (dhcps w)"
  shows "case send_unicast env n m w of
      Inl e \<Rightarrow> e = Spins \<and> \<not> progress env
    | Inr (m', w') \<Rightarrow> length m' = SERVER_BUFFER_SIZE \<and> cache_inv (dhcps w') \<and> grows (dhcps w) (dhcps w')
        \<and> baddr (dhcps w') = baddr (dhcps w)"
proof (cases "hdr_yiaddr m = 0")
  case True
  then show ?thesis using assms by (simp add: send_unicast_def)
next
  case False
  let ?w1 = "log_event (Arp_added (hdr_yiaddr m) (hdr_chaddr m)) (set_dhcps (uaddr_update (\<lambda>_. hdr_yiaddr m)) w)"
  let ?m1 = "set_flags (hdr_flags m AND NOT (htons 0x8000)) m"
  let ?r = "send_times 1 env (sock (dhcps ?w1)) (uaddr (dhcps ?w1)) (take n ?m1) ?w1"
  have d: "dhcps ?w1 = uaddr_update (\<lambda>_. hdr_yiaddr m) (dhcps w)" by (simp add: log_event_def set_dhcps_def)
  have g: "grows (dhcps w) (dhcps ?w1)" "cache_inv (dhcps ?w1)"
    using grows_same [of "dhcps ?w1" "dhcps w"] assms(2) by (simp_all add: d same_net_def)
  have e: "send_unicast env n m w = bind_res ?r (\<lambda>w. Inr (?m1, log_event (Arp_removed (hdr_yiaddr m)) w))"
    using False by (simp add: send_unicast_def Let_def)
  note st = send_times_ok [where n = 1 and env = env and fd = "sock (dhcps ?w1)" and a = "uaddr (dhcps ?w1)"
      and bs = "take n ?m1" and w = ?w1]
  show ?thesis
  proof (cases ?r)
    case (Inl x)
    then show ?thesis using st by (simp add: e)
  next
    case (Inr w2)
    then have "dhcps w2 = dhcps ?w1"
      using st by (auto dest: same_but_eventsD)
    then show ?thesis using g assms(1) Inr by (simp add: e d set_dhcps_def log_event_def SERVER_BUFFER_SIZE_def)
  qed
qed

lemma respond_ok:
  assumes m: "length m = SERVER_BUFFER_SIZE" and c: "cache_inv (dhcps w)" "baddr (dhcps w) = IPADDR_BROADCAST"
  shows "case respond env ty m w of
      Inl e \<Rightarrow> e = Spins \<and> \<not> (progress env \<and> wide_subnet (dhcps w))
    | Inr (_, w') \<Rightarrow> server_inv w' \<and> grows (dhcps w) (dhcps w')"
proof (cases "make_response ty (dhcp_address_timeout w) (dhcp_nack_dns_server_handler w) m (dhcps w)")
  case (Inl e)
  then show ?thesis
    using make_response_ok [OF m c(1), where ty = ty and t = "dhcp_address_timeout w" and nack = "dhcp_nack_dns_server_handler w"]
    by (simp add: respond_def)
next
  case (Inr x)
  obtain n m1 d1 where r1: "make_response ty (dhcp_address_timeout w) (dhcp_nack_dns_server_handler w) m (dhcps w) = Inr (n, m1, d1)"
    using Inr by (cases x) auto
  from make_response_ok [OF m c(1), where ty = ty and t = "dhcp_address_timeout w" and nack = "dhcp_nack_dns_server_handler w"]
  have d1: "length m1 = SERVER_BUFFER_SIZE" "cache_inv d1" "grows (dhcps w) d1" "baddr d1 = IPADDR_BROADCAST"
    by (simp_all add: r1 c(2))
  show ?thesis
  proof (cases "send_unicast env n m1 (w\<lparr>dhcps := d1\<rparr>)")
    case (Inl e)
    then show ?thesis using send_unicast_ok [where m = m1 and w = "w\<lparr>dhcps := d1\<rparr>" and env = env and n = n] d1 by (simp add: respond_def r1)
  next
    case (Inr y)
    obtain m2 w2 where r2: "send_unicast env n m1 (w\<lparr>dhcps := d1\<rparr>) = Inr (m2, w2)" using Inr by (cases y) auto
    have w2: "length m2 = SERVER_BUFFER_SIZE" "cache_inv (dhcps w2)" "grows d1 (dhcps w2)" "baddr (dhcps w2) = IPADDR_BROADCAST"
      using send_unicast_ok [where m = m1 and w = "w\<lparr>dhcps := d1\<rparr>" and env = env and n = n] d1 by (simp_all add: r2)
    define m3 where "m3 = set_flags (hdr_flags m2 OR htons 0x8000) m2"
    define w3 where "w3 = set_dhcps (msg_update (\<lambda>_. Some m3)) w2"
    have "length m3 = SERVER_BUFFER_SIZE" using w2(1) by (simp add: m3_def SERVER_BUFFER_SIZE_def)
    then have w3: "server_inv w3" "grows (dhcps w2) (dhcps w3)" unfolding w3_def using w2 by (simp_all add: set_dhcps_msg)
    have eq: "respond env ty m w = bind_res (send_times 3 env (sock (dhcps w3)) (baddr (dhcps w3)) (take n m3) w3) (\<lambda>w.
        Inr (0, if ty = DHCP_MESSAGE_ACK then snd (send_gratuitous_arp env (my_ip (dhcps w)) w) else w))"
      by (simp add: respond_def r1 r2 w3_def m3_def Let_def)
    note st = send_times_ok [where n = 3 and env = env and fd = "sock (dhcps w3)" and a = "baddr (dhcps w3)" and bs = "take n m3" and w = w3]
    show ?thesis
    proof (cases "send_times 3 env (sock (dhcps w3)) (baddr (dhcps w3)) (take n m3) w3")
      case (Inl e)
      then show ?thesis using st by (simp add: eq)
    next
      case (Inr w4)
      define w5 where "w5 = (if ty = DHCP_MESSAGE_ACK then snd (send_gratuitous_arp env (my_ip (dhcps w4)) w4) else w4)"
      have "same_but_events w3 w4" using st Inr by simp
      then have s: "same_but_events w3 w5"
        unfolding w5_def using gratuitous_arp_ok same_but_events_trans by simp
      then have "server_inv w5" "dhcps w5 = dhcps w3" using w3(1) by (simp_all add: server_inv_same same_but_eventsD)
      moreover have "grows (dhcps w) (dhcps w3)" using d1(3) w2(3) w3(2) by (blast intro: grows_trans)
      ultimately show ?thesis using Inr by (simp add: eq w5_def [symmetric])
    qed
  qed
qed

lemma process_dhcp_message_ok:
  assumes inv: "server_inv w"
  shows "pass_ok env (len \<le> 1019) w (map_sum id snd (process_dhcp_message env len w))"
proof -
  obtain m where m: "msg (dhcps w) = Some m" "length m = SERVER_BUFFER_SIZE" using inv by (auto simp: server_inv_def)
  have c: "cache_inv (dhcps w)" "baddr (dhcps w) = IPADDR_BROADCAST" using inv by (simp_all add: server_inv_def)
  show ?thesis
  proof (cases "bad_header len m")
    case True
    then show ?thesis using inv m(1) by (simp add: process_dhcp_message_def pass_ok_def)
  next
    case False
    note opts = dhcp_options_ok [OF m(2), of HDR_SIZE "int len - int HDR_SIZE" "(opt_init, dhcps w)"]
    show ?thesis
    proof (cases "dhcp_options m HDR_SIZE (int len - int HDR_SIZE) (opt_init, dhcps w)")
      case (Inl e)
      then show ?thesis using opts m(1) False
        by (simp add: process_dhcp_message_def pass_ok_def SERVER_BUFFER_SIZE_def)
    next
      case (Inr x)
      obtain o1 d where x: "x = (o1, d)" by (cases x)
      have d: "cache_inv d" "grows (dhcps w) d" "msg d = Some m"
        using opts c(1) m(1) by (simp_all add: Inr x opt_ok_def)
      then have b: "baddr d = IPADDR_BROADCAST" "wide_subnet d = wide_subnet (dhcps w)"
        using c(2) grows_wide by (auto simp: grows_def same_net_def)
      have eq: "process_dhcp_message env len w = (if response_type o1 \<noteq> DHCP_NO_RESPONSE
          then respond env (response_type o1) m (w\<lparr>dhcps := d\<rparr>) else Inr (0, w\<lparr>dhcps := d\<rparr>))"
        using m(1) False Inr x by (simp add: process_dhcp_message_def)
      have "server_inv (w\<lparr>dhcps := d\<rparr>)" using d b m(2) by (simp add: server_inv_def)
      then show ?thesis
        using respond_ok [where m = m and w = "w\<lparr>dhcps := d\<rparr>" and env = env and ty = "response_type o1"] m(2) d b
        by (auto simp: eq pass_ok_def split: sum.splits intro: grows_trans)
    qed
  qed
qed

lemma receive_ok:
  assumes "server_inv w"
  obtains w' where "receive bs w = Inr (min (length bs) SERVER_BUFFER_SIZE, w')" "server_inv w'" "grows (dhcps w) (dhcps w')"
proof -
  obtain m where m: "msg (dhcps w) = Some m" "length m = SERVER_BUFFER_SIZE" using assms by (auto simp: server_inv_def)
  let ?m = "put 0 (take SERVER_BUFFER_SIZE bs) m"
  have "length ?m = SERVER_BUFFER_SIZE" using m(2) by simp
  then have "server_inv (set_dhcps (msg_update (\<lambda>_. Some ?m)) w)"
    "grows (dhcps w) (dhcps (set_dhcps (msg_update (\<lambda>_. Some ?m)) w))"
    using assms set_dhcps_msg [of w ?m] unfolding server_inv_def by blast+
  moreover have "receive bs w = Inr (min (length bs) SERVER_BUFFER_SIZE, set_dhcps (msg_update (\<lambda>_. Some ?m)) w)"
    using m(1) by (simp add: receive_def Let_def min.commute)
  ultimately show ?thesis using that by blast
qed

lemma serve_dhcp_ok:
  assumes "server_inv w"
  shows "pass_ok env (length bs \<le> 1019) w (serve_dhcp env bs w)"
proof -
  obtain w' where w': "receive bs w = Inr (min (length bs) SERVER_BUFFER_SIZE, w')" "server_inv w'" "grows (dhcps w) (dhcps w')"
    using receive_ok [OF assms] by blast
  have "pass_ok env (length bs \<le> 1019) w' (map_sum id snd (process_dhcp_message env (min (length bs) SERVER_BUFFER_SIZE) w'))"
    using process_dhcp_message_ok [OF w'(2), of env "min (length bs) SERVER_BUFFER_SIZE"]
    by (auto simp: pass_ok_def SERVER_BUFFER_SIZE_def split: sum.splits)
  then show ?thesis using w' by (auto simp: serve_dhcp_def bind_snd intro: pass_ok_Inr pass_ok_after)
qed

lemma serve_dns_ok:
  assumes "server_inv w"
  shows "pass_ok env short w (serve_dns env bs caddr w)"
proof -
  obtain w' where w': "receive bs w = Inr (min (length bs) SERVER_BUFFER_SIZE, w')" "server_inv w'" "grows (dhcps w) (dhcps w')"
    using receive_ok [OF assms] by blast
  have "pass_ok env short w' (map_sum id snd (process_dns_message env len caddr w'))" if "len \<le> SERVER_BUFFER_SIZE" for len
  proof -
    obtain m where m: "msg (dhcps w') = Some m" "length m = SERVER_BUFFER_SIZE" using w'(2) by (auto simp: server_inv_def)
    let ?m = "dns_refusal m"
    let ?w = "set_dhcps (msg_update (\<lambda>_. Some ?m)) w'"
    have "length ?m = SERVER_BUFFER_SIZE" using m(2) by (simp add: dns_refusal_def SERVER_BUFFER_SIZE_def short_bytes_def)
    then have w: "server_inv ?w" "grows (dhcps w') (dhcps ?w)"
      using w'(2) set_dhcps_msg [of w' ?m] unfolding server_inv_def by blast+
    note st = send_response_ok [where env = env and fd = "dnssock (dhcps ?w)" and a = caddr and bs = "take len ?m" and w = ?w]
    show ?thesis
    proof (cases "dns_ignored len m")
      case True
      then show ?thesis using w'(2) m(1) by (simp add: process_dns_message_def pass_ok_Inr)
    next
      case False
      then have 2: "process_dns_message env len caddr w' =
          bind_res (send_response env (dnssock (dhcps ?w)) caddr (take len ?m) ?w) (\<lambda>(_, w). Inr (-1, w))"
        using m(1) by (simp add: process_dns_message_def Let_def)
      show ?thesis
      proof (cases "send_response env (dnssock (dhcps ?w)) caddr (take len ?m) ?w")
        case (Inl e)
        then show ?thesis using st by (simp add: 2 pass_ok_def)
      next
        case (Inr x)
        then obtain r w2 where x: "x = (r, w2)" "same_but_events ?w w2" using st by (cases x) auto
        then show ?thesis using w Inr
          by (simp add: 2 pass_ok_def server_inv_same same_but_eventsD)
      qed
    qed
  qed
  from this [of "min (length bs) SERVER_BUFFER_SIZE"] show ?thesis
    using w' by (auto simp: serve_dns_def bind_snd intro: pass_ok_Inr pass_ok_after)
qed

lemma serve_ctrl_ok:
  assumes "server_inv w"
  shows "pass_ok env short w (map_sum id snd (serve_ctrl bs w))"
proof -
  obtain w' where "receive bs w = Inr (min (length bs) SERVER_BUFFER_SIZE, w')" "server_inv w'" "grows (dhcps w) (dhcps w')"
    using receive_ok [OF assms] by blast
  then show ?thesis by (simp add: serve_ctrl_def pass_ok_Inr)
qed

definition short_dgram :: "select_result \<Rightarrow> bool" where
  "short_dgram sel \<longleftrightarrow> (case on_sock sel of None \<Rightarrow> True | Some bs \<Rightarrow> length bs \<le> 1019)"

lemma server_pass_ok:
  assumes "server_inv w"
  shows "pass_ok env (short_dgram sel) w (map_sum id snd (server_pass env sel w))"
proof (cases "sel_ret sel < 0")
  case True
  then show ?thesis using assms by (simp add: server_pass_def pass_ok_Inr)
next
  case False
  let ?dhcp = "case on_sock sel of None \<Rightarrow> Inr w | Some bs \<Rightarrow> serve_dhcp env bs w"
  have "pass_ok env (short_dgram sel) w ?dhcp"
    using assms serve_dhcp_ok [OF assms] by (auto simp: short_dgram_def pass_ok_Inr split: option.splits)
  moreover have "pass_ok env (short_dgram sel) w'
      (case on_dnssock sel of None \<Rightarrow> Inr w' | Some (bs, caddr) \<Rightarrow> if ready then serve_dns env bs caddr w' else Inr w')"
    if "server_inv w'" for w' ready
    using that serve_dns_ok by (auto simp: pass_ok_Inr split: option.splits)
  moreover have "pass_ok env (short_dgram sel) w'
      (map_sum id snd (case on_ctrlsock sel of None \<Rightarrow> Inr (False, w') | Some bs \<Rightarrow> serve_ctrl bs w'))"
    if "server_inv w'" for w'
    using that serve_ctrl_ok by (auto simp: pass_ok_Inr split: option.splits)
  ultimately show ?thesis using False
    by (simp add: server_pass_def Let_def map_snd_bind pass_ok_bind)
qed

section \<open>Runs\<close>

definition pass_exec :: "net_env \<Rightarrow> select_result \<Rightarrow> dhcp_world \<Rightarrow> dhcp_world result" where
  "pass_exec env sel w = map_sum id snd (server_pass env sel w)"

interpretation dhcp_loop: guarded_run server_inv "pass_exec env" "\<lambda>e. e = Out_of_bounds \<or> e = Spins"
  "\<lambda>w w'. grows (dhcps w) (dhcps w')" for env
proof
  show "case pass_exec env sel w of Inl e \<Rightarrow> e = Out_of_bounds \<or> e = Spins
      | Inr w' \<Rightarrow> server_inv w' \<and> grows (dhcps w) (dhcps w')" if "server_inv w" for sel w
    using server_pass_ok [OF that, of env sel] by (auto simp: pass_exec_def pass_ok_def split: sum.splits)
qed (auto intro: grows_trans)

text \<open>The same loop when no DHCP datagram is longer than 1019 bytes.\<close>

definition shorten :: "select_result \<Rightarrow> select_result" where
  "shorten sel = sel\<lparr>on_sock := map_option (take 1019) (on_sock sel)\<rparr>"

lemma shorten_short: "short_dgram (shorten sel)" "short_dgram sel \<Longrightarrow> shorten sel = sel"
  by (auto simp: short_dgram_def shorten_def split: option.splits)

interpretation calm_dhcp_loop: guarded_run "\<lambda>w. server_inv w \<and> wide_subnet (dhcps w)"
  "\<lambda>sel. pass_exec env (shorten sel)" "\<lambda>e. \<not> progress env" "\<lambda>w w'. grows (dhcps w) (dhcps w')" for env
proof
  show "case pass_exec env (shorten sel) w of Inl e \<Rightarrow> \<not> progress env
      | Inr w' \<Rightarrow> (server_inv w' \<and> wide_subnet (dhcps w')) \<and> grows (dhcps w) (dhcps w')"
    if "server_inv w \<and> wide_subnet (dhcps w)" for sel w
    using server_pass_ok [of w env "shorten sel"] that shorten_short(1) [of sel] grows_wide
    by (auto simp: pass_exec_def pass_ok_def split: sum.splits)
qed (auto intro: grows_trans)

lemma run_shorten:
  "(\<And>sel. sel \<in> set sels \<Longrightarrow> short_dgram sel) \<Longrightarrow>
    run_res (\<lambda>sel. pass_exec env (shorten sel)) sels w = run_res (pass_exec env) sels w"
  by (induction sels arbitrary: w) (auto simp: shorten_short split: sum.splits)

section \<open>Starting\<close>

lemma zero_leases: "ip_mac_mapping d = ip_mac_mapping zero_dhcps \<Longrightarrow> count_clients d = 0 \<Longrightarrow> cache_inv d \<and> leases d = []"
  by (simp add: cache_inv_def leases_def ac_entries_def zero_dhcps_def)

lemma create_and_bind_dhcps:
  "create_and_bind_udp_socket env ini addr port w = (fd, w') \<Longrightarrow>
    dhcps w' = dhcps w \<and> dhcp_nack_dns_server_handler w' = dhcp_nack_dns_server_handler w"
  by (auto simp: create_and_bind_udp_socket_def Let_def log_event_def split: if_splits)

lemma dhcp_server_init_inv:
  assumes "dhcp_server_init env ini w = (0, w')" "\<And>m. malloc_msg ini = Some m \<Longrightarrow> length m = SERVER_BUFFER_SIZE"
  shows "server_inv w' \<and> leases (dhcps w') = [] \<and> my_ip (dhcps w') = snd (if_ip_addr ini)
    \<and> netmask (dhcps w') = snd (if_ip_mask ini)"
proof -
  have "msg (dhcps w') = malloc_msg ini \<and> malloc_msg ini \<noteq> None \<and> baddr (dhcps w') = IPADDR_BROADCAST
      \<and> ip_mac_mapping (dhcps w') = ip_mac_mapping zero_dhcps \<and> count_clients (dhcps w') = 0
      \<and> my_ip (dhcps w') = snd (if_ip_addr ini) \<and> netmask (dhcps w') = snd (if_ip_mask ini)"
    using assms(1) unfolding dhcp_server_init_def Let_def
    by (auto simp: init_out_def set_dhcps_def zero_dhcps_def split: if_splits prod.splits dest!: create_and_bind_dhcps)
  then show ?thesis using assms(2) zero_leases by (auto simp: server_inv_def)
qed

lemma dhcp_server_start_inv:
  assumes "dhcp_server_start env ini w = (0, w')" "\<And>m. malloc_msg ini = Some m \<Longrightarrow> length m = SERVER_BUFFER_SIZE"
  shows "server_inv w' \<and> leases (dhcps w') = [] \<and> my_ip (dhcps w') = snd (if_ip_addr ini)
    \<and> netmask (dhcps w') = snd (if_ip_mask ini)"
proof -
  obtain w1 where w1: "dhcp_server_init env ini (dhcp_enable_nack_dns_server w) = (0, w1)" "w' = w1\<lparr>dhcpd_running := True\<rparr>"
    using assms(1) by (auto simp: dhcp_server_start_def Let_def split: if_splits prod.splits)
  show ?thesis using dhcp_server_init_inv [OF w1(1) assms(2)] by (simp add: w1(2) server_inv_def)
qed

end
