(* ===== verification/Dhcp_Client.thy ===== *)
theory Dhcp_Client
  imports Dhcp_Run
begin

text \<open>
  The DHCP server seen by a client: the messages a client sends, as an encoding of their fields and options,
  and the replies the server gives to them.
\<close>

section \<open>Messages of a client\<close>

definition client_message :: "u8 list \<Rightarrow> u8 list \<Rightarrow> u32 \<Rightarrow> dhcp_option list \<Rightarrow> u8 list" where
  "client_message xid mac ciaddr os =
    [BOOTP_OP_REQUEST, 1, 6, 0] @ xid @ replicate 4 0 @ word_bytes ciaddr @ replicate 12 0 @ mac @ replicate 202 0
    @ [99, 130, 83, 99] @ encode_options os"

definition discover_options :: "dhcp_option list \<Rightarrow> dhcp_option list" where
  "discover_options os = (BOOTP_OPTION_DHCP_MESSAGE, [DHCP_MESSAGE_DISCOVER]) # os"

definition request_options :: "u32 \<Rightarrow> dhcp_option list \<Rightarrow> dhcp_option list" where
  "request_options ip os =
    (BOOTP_OPTION_DHCP_MESSAGE, [DHCP_MESSAGE_REQUEST]) # (BOOTP_OPTION_REQUESTED_IP, word_bytes ip) # os"

text \<open>Other options that a client may add, and what fits into the buffer.\<close>

definition extra_options :: "dhcp_option list \<Rightarrow> bool" where
  "extra_options os \<longleftrightarrow> list_all wf_option os \<and> BOOTP_OPTION_DHCP_MESSAGE \<notin> fst ` set os
     \<and> BOOTP_OPTION_REQUESTED_IP \<notin> fst ` set os"

definition fits :: "dhcp_option list \<Rightarrow> bool" where
  "fits os \<longleftrightarrow> HDR_SIZE + length (encode_options os) \<le> SERVER_BUFFER_SIZE"

text \<open>The message in the buffer of the server.\<close>

lemma length_client_message:
  "length xid = 4 \<Longrightarrow> length mac = 6 \<Longrightarrow>
    length (client_message xid mac ciaddr os) = HDR_SIZE + length (encode_options os)"
  by (simp add: client_message_def HDR_SIZE_def)

lemma client_message_header:
  fixes ciaddr :: u32 and os :: "dhcp_option list"
  assumes "length xid = 4" "length mac = 6"
  defines "p \<equiv> client_message xid mac ciaddr os"
  shows "hdr_op (p @ r) = BOOTP_OP_REQUEST" "hdr_htype (p @ r) = 1" "hdr_hlen (p @ r) = 6"
    and "hdr_ciaddr (p @ r) = ciaddr" "hdr_chaddr (p @ r) = mac"
    and "drop HDR_SIZE (p @ r) = encode_options os @ r"
proof -
  let ?w = "word_bytes ciaddr"
  have w: "bytes_word (?w ! 0) (?w ! 1) (?w ! 2) (?w ! 3) = ciaddr"
    using bytes_word_bytes [of ciaddr] by (simp add: word_bytes_def)
  obtain a b c d where xid: "xid = [a, b, c, d]" using assms(1) by (auto simp: length_Suc_conv eval_nat_numeral)
  have pre: "p @ r = [BOOTP_OP_REQUEST, 1, 6, 0, a, b, c, d, 0, 0, 0, 0] @ ?w @ replicate 12 0 @ mac @ replicate 202 0
      @ [99, 130, 83, 99] @ encode_options os @ r"
    by (simp add: p_def client_message_def xid eval_nat_numeral)
  show "hdr_op (p @ r) = BOOTP_OP_REQUEST" "hdr_htype (p @ r) = 1" "hdr_hlen (p @ r) = 6"
    by (simp_all add: pre hdr_op_def hdr_htype_def hdr_hlen_def)
  show "hdr_ciaddr (p @ r) = ciaddr" using w by (simp add: pre hdr_ciaddr_def u32_at_def nth_append nth_Cons' numeral_2_eq_2)
  show "hdr_chaddr (p @ r) = mac" using assms(2) by (simp add: pre hdr_chaddr_def)
  show "drop HDR_SIZE (p @ r) = encode_options os @ r" using assms(2) by (simp add: pre HDR_SIZE_def)
qed

lemma serve_dhcp_client_message:
  assumes inv: "server_inv w" and xid: "length xid = 4" and mac: "length mac = 6"
    and os: "list_all wf_option os" "os \<noteq> []" "fits os"
  obtains m where "length m = SERVER_BUFFER_SIZE" "hdr_chaddr m = mac"
    and "serve_dhcp env (client_message xid mac ciaddr os) w =
      (let (o1, d) = fold (apply_option ciaddr mac) os (opt_init, (dhcps w)\<lparr>msg := Some m\<rparr>)
       in if response_type o1 \<noteq> DHCP_NO_RESPONSE
          then map_sum id snd (respond env (response_type o1) m (w\<lparr>dhcps := d\<rparr>)) else Inr (w\<lparr>dhcps := d\<rparr>))"
proof -
  let ?p = "client_message xid mac ciaddr os"
  obtain b where b: "msg (dhcps w) = Some b" "length b = SERVER_BUFFER_SIZE" using inv by (auto simp: server_inv_def)
  define m where "m = ?p @ drop (length ?p) b"
  note hlen = length_client_message [OF xid mac, where ciaddr = ciaddr and os = os]
  note hdr = client_message_header [OF xid mac, where ciaddr = ciaddr and os = os and r = "drop (length ?p) b", folded m_def]
  have len: "length ?p \<le> SERVER_BUFFER_SIZE" "HDR_SIZE + 3 \<le> length ?p"
    using os(2,3) unfolding hlen fits_def
    by (auto simp: encode_options_def encode_option_def neq_Nil_conv)
  have m: "length m = SERVER_BUFFER_SIZE" using len(1) b(2) by (simp add: m_def)
  let ?w = "w\<lparr>dhcps := (dhcps w)\<lparr>msg := Some m\<rparr>\<rparr>"
  have rcv: "receive ?p w = Inr (length ?p, ?w)"
    using b(1) len(1) by (simp add: receive_def set_dhcps_def put_def m_def Let_def)
  have "m ! (HDR_SIZE + length (concat (map encode_option os))) = BOOTP_END_OPTION"
    "HDR_SIZE + length (concat (map encode_option os)) < length m"
  proof -
    have l: "HDR_SIZE + length (concat (map encode_option os)) < length m"
      using len(1) m unfolding hlen by (simp add: encode_options_def)
    then show "HDR_SIZE + length (concat (map encode_option os)) < length m" .
    have "m ! (HDR_SIZE + length (concat (map encode_option os)))
        = drop HDR_SIZE m ! length (concat (map encode_option os))" using l by simp
    then show "m ! (HDR_SIZE + length (concat (map encode_option os))) = BOOTP_END_OPTION"
      unfolding hdr(6) by (simp add: encode_options_def nth_append)
  qed
  moreover have "drop HDR_SIZE m = concat (map encode_option os) @ BOOTP_END_OPTION # drop (length ?p) b"
    unfolding hdr(6) by (simp add: encode_options_def)
  ultimately have opts: "dhcp_options m HDR_SIZE (int (length ?p) - int HDR_SIZE) s = Inr (fold (apply_option ciaddr mac) os s)" for s
    using dhcp_options_skip [of HDR_SIZE m os _ "int (length ?p) - int HDR_SIZE" s] os(1) hlen hdr(4,5)
    by (simp add: dhcp_options_stop encode_options_def)
  have ne: "?p \<noteq> []" using len(2) by auto
  have ok: "\<not> bad_header (length ?p) m" using len(2) hdr(1-3) by (simp add: bad_header_def)
  have "serve_dhcp env ?p w =
      (let (o1, d) = fold (apply_option ciaddr mac) os (opt_init, (dhcps w)\<lparr>msg := Some m\<rparr>)
       in if response_type o1 \<noteq> DHCP_NO_RESPONSE
          then map_sum id snd (respond env (response_type o1) m (w\<lparr>dhcps := d\<rparr>)) else Inr (w\<lparr>dhcps := d\<rparr>))"
    using ne ok
    by (simp add: serve_dhcp_def rcv process_dhcp_message_def opts bind_snd Let_def split: prod.splits)
  with that [OF m hdr(5)] show ?thesis by blast
qed

section \<open>What the options of a client decide\<close>

text \<open>Options that are neither a message type nor a requested address leave a settled decision alone.\<close>

definition settled :: "u8 list \<Rightarrow> opt_state \<Rightarrow> bool" where
  "settled mac s \<longleftrightarrow> decide_response (check_requested mac s) = s"

lemma extra_settled:
  assumes "extra_options os" "settled mac s"
  shows "fold (apply_option c mac) os s = s"
  using assms
proof (induction os)
  case (Cons op os)
  then have "apply_option c mac op s = s"
    by (auto simp: apply_option_def extra_options_def settled_def)
  with Cons show ?case by (auto simp: extra_options_def)
qed simp

lemma discover_fold:
  assumes "extra_options os"
  shows "fold (apply_option c mac) (discover_options os) (opt_init, d)
    = (\<lparr>response_type = DHCP_MESSAGE_OFFER, got_ip = False, need_ip = False, got_client_ip = False\<rparr>, d)"
proof -
  let ?s = "(\<lparr>response_type = DHCP_MESSAGE_OFFER, got_ip = False, need_ip = False, got_client_ip = False\<rparr>, d)"
  have "apply_option c mac (BOOTP_OPTION_DHCP_MESSAGE, [DHCP_MESSAGE_DISCOVER]) (opt_init, d) = ?s"
    by (simp add: apply_option_def message_option_def opt_init_def check_requested_def decide_response_def)
  moreover have "settled mac ?s" by (simp add: settled_def check_requested_def decide_response_def)
  ultimately show ?thesis using extra_settled [OF assms] by (simp add: discover_options_def)
qed

text \<open>An address that a client may be acknowledged: its lease, or a free one.\<close>

definition may_have :: "u8 list \<Rightarrow> u32 \<Rightarrow> dhcp_server_data \<Rightarrow> bool" where
  "may_have mac ip d \<longleftrightarrow> in_subnet d ip \<and> ip \<notin> reserved d \<and>
     (case map_of (leases d) mac of Some ip' \<Rightarrow> ip' = ip | None \<Rightarrow> ip \<notin> snd ` set (leases d))"

definition keep_lease :: "u8 list \<Rightarrow> dhcp_server_data \<Rightarrow> dhcp_server_data" where
  "keep_lease mac d =
    (if mac \<notin> fst ` set (leases d) \<and> ac_not_full d then snd (ac_add mac (req_ip d) d) else d)"

lemma map_of_mem: "map_of xs k = Some v \<Longrightarrow> k \<in> fst ` set xs"
  by (metis map_of_eq_None_iff option.distinct(1))

lemma check_may_have:
  assumes "cache_inv d" "got_client_ip o1" "may_have mac (req_ip d) d"
  shows "check_requested mac (o1, d) = (o1\<lparr>got_ip := True\<rparr>, keep_lease mac d)"
proof -
  have sub: "req_ip d AND netmask d = my_ip d AND netmask d"
    using assms(3) by (simp add: may_have_def in_subnet_def network_addr_def)
  show ?thesis
  proof (cases "map_of (leases d) mac")
    case None
    then have "mac \<notin> fst ` set (leases d)" by (simp add: map_of_eq_None_iff)
    moreover have "ac_valid_ip (ntohl (req_ip d)) d" using assms(3) None by (simp add: may_have_def valid_ip_iff)
    ultimately show ?thesis using sub assms(2) lookup_mac_0_iff [OF assms(1), of mac]
      by (simp add: check_requested_def CLIENT_IP_NOT_FOUND_def keep_lease_def)
  next
    case (Some ip)
    then have "mac \<in> fst ` set (leases d)" by (rule map_of_mem)
    moreover have "ac_lookup_mac mac d = req_ip d" using Some assms(3) by (simp add: lookup_mac_map_of may_have_def)
    ultimately show ?thesis using sub assms(2) lookup_mac_0_iff [OF assms(1), of mac]
      by (simp add: check_requested_def CLIENT_IP_NOT_FOUND_def keep_lease_def Let_def)
  qed
qed

lemma keep_lease_ok:
  assumes "cache_inv d" "may_have mac (req_ip d) d"
  shows "cache_inv (keep_lease mac d)" "grows d (keep_lease mac d)" "may_have mac (req_ip d) (keep_lease mac d)"
    and "req_ip (keep_lease mac d) = req_ip d" "msg (keep_lease mac d) = msg d"
    and "keep_lease mac (keep_lease mac d) = keep_lease mac d"
proof -
  have "cache_inv (keep_lease mac d) \<and> grows d (keep_lease mac d) \<and> may_have mac (req_ip d) (keep_lease mac d)
    \<and> req_ip (keep_lease mac d) = req_ip d \<and> msg (keep_lease mac d) = msg d
    \<and> keep_lease mac (keep_lease mac d) = keep_lease mac d"
  proof (cases "mac \<notin> fst ` set (leases d) \<and> ac_not_full d")
    case True
    let ?d = "snd (ac_add mac (req_ip d) d)"
    have k: "keep_lease mac d = ?d" using True by (simp add: keep_lease_def)
    have none: "map_of (leases d) mac = None" using True by (simp add: map_of_eq_None_iff)
    then have free: "in_subnet d (req_ip d)" "req_ip d \<notin> reserved d" "req_ip d \<notin> snd ` set (leases d)"
      using assms(2) by (simp_all add: may_have_def)
    have l: "leases ?d = leases d @ [(mac, req_ip d)]" using True by (simp add: leases_add [OF assms(1)])
    have "map_of (leases ?d) mac = Some (req_ip d)" using none by (simp add: l map_add_def)
    then have "may_have mac (req_ip d) ?d"
      using free same_net_addrs [OF same_net_add [of d mac "req_ip d"]] by (simp add: may_have_def)
    moreover have "cache_inv ?d" using True free assms(1) by (intro cache_inv_add) simp_all
    moreover have "keep_lease mac ?d = ?d" by (simp add: keep_lease_def l)
    ultimately show ?thesis by (simp add: k grows_def l)
  next
    case False
    then have "keep_lease mac d = d" unfolding keep_lease_def by (rule if_not_P)
    then show ?thesis using assms by simp
  qed
  then show "cache_inv (keep_lease mac d)" "grows d (keep_lease mac d)" "may_have mac (req_ip d) (keep_lease mac d)"
    "req_ip (keep_lease mac d) = req_ip d" "msg (keep_lease mac d) = msg d"
    "keep_lease mac (keep_lease mac d) = keep_lease mac d" by simp_all
qed

lemma req_ip_cong:
  "leases (d\<lparr>req_ip := ip\<rparr>) = leases d" "cache_inv (d\<lparr>req_ip := ip\<rparr>) = cache_inv d"
  "may_have mac a (d\<lparr>req_ip := ip\<rparr>) = may_have mac a d" "grows d (d\<lparr>req_ip := ip\<rparr>)"
proof -
  have n: "same_net d (d\<lparr>req_ip := ip\<rparr>)" by (simp add: same_net_def)
  show l: "leases (d\<lparr>req_ip := ip\<rparr>) = leases d" and "cache_inv (d\<lparr>req_ip := ip\<rparr>) = cache_inv d"
    by (rule cache_inv_cong [OF _ _ n]; simp)+
  then show "may_have mac a (d\<lparr>req_ip := ip\<rparr>) = may_have mac a d" "grows d (d\<lparr>req_ip := ip\<rparr>)"
    using same_net_addrs [OF n] n by (simp_all add: may_have_def grows_def cong: option.case_cong)
qed

lemma request_fold:
  assumes os: "extra_options os" and inv: "cache_inv d" and may: "may_have mac ip d"
  shows "fold (apply_option 0 mac) (request_options ip os) (opt_init, d)
    = (\<lparr>response_type = DHCP_MESSAGE_ACK, got_ip = True, need_ip = True, got_client_ip = True\<rparr>,
       keep_lease mac (d\<lparr>req_ip := ip\<rparr>))"
proof -
  let ?d = "d\<lparr>req_ip := ip\<rparr>"
  let ?o = "\<lparr>response_type = DHCP_MESSAGE_ACK, got_ip = True, need_ip = True, got_client_ip = True\<rparr>"
  have d: "cache_inv ?d" "may_have mac (req_ip ?d) ?d" using inv may by (simp_all add: req_ip_cong)
  note k = keep_lease_ok [OF d]
  have 1: "apply_option 0 mac (BOOTP_OPTION_DHCP_MESSAGE, [DHCP_MESSAGE_REQUEST]) (opt_init, d)
      = (\<lparr>response_type = DHCP_MESSAGE_NAK, got_ip = False, need_ip = True, got_client_ip = False\<rparr>, d)"
    by (simp add: apply_option_def message_option_def opt_init_def check_requested_def decide_response_def dhcp_consts
        bootp_consts)
  have 2: "apply_option 0 mac (BOOTP_OPTION_REQUESTED_IP, word_bytes ip)
      (\<lparr>response_type = DHCP_MESSAGE_NAK, got_ip = False, need_ip = True, got_client_ip = False\<rparr>, d)
      = (?o, keep_lease mac ?d)"
    using check_may_have [OF d(1) _ d(2)]
    by (simp add: apply_option_def requested_ip_option_def decide_response_def)
  have "settled mac (?o, keep_lease mac ?d)"
    using check_may_have [OF k(1), of ?o] k(3,4,6) by (simp add: settled_def decide_response_def)
  then show ?thesis using extra_settled [OF os] by (simp add: request_options_def 1 2)
qed

section \<open>Replies\<close>

text \<open>A datagram is taken whole or not at all.\<close>

definition datagrams :: "net_env \<Rightarrow> bool" where
  "datagrams env \<longleftrightarrow> (\<forall>evs bs. lwip_sendto env evs bs < 0 \<or> lwip_sendto env evs bs = int (length bs))"

lemma datagrams_progress: "datagrams env \<Longrightarrow> progress env"
  unfolding datagrams_def progress_def by (metis length_0_conv less_irrefl of_nat_eq_0_iff)

lemma send_loop_Nil: "send_loop env fd a [] evs = Some (0, evs)"
  by (subst send_loop.simps) simp

lemma send_response_datagram:
  assumes "datagrams env" "bs \<noteq> []"
  shows "\<exists>r w'. send_response env fd a bs w = Inr (r, w') \<and> same_but_events w w' \<and>
    events w' = events w @ (if a = 0 \<or> a = IPADDR_BROADCAST then [Default_netif] else []) @ [Sent fd a bs]"
proof -
  have "\<exists>r. send_loop env fd a bs evs = Some (r, evs @ [Sent fd a bs])" for evs
  proof (cases "lwip_sendto env evs bs < 0")
    case True
    then show ?thesis using assms(2) by (subst send_loop.simps) (simp add: Let_def)
  next
    case False
    then have "lwip_sendto env evs bs = int (length bs)" using assms(1) unfolding datagrams_def by blast
    then show ?thesis using assms(2) by (subst send_loop.simps) (simp add: Let_def send_loop_Nil)
  qed
  then obtain r where r: "send_loop env fd a bs (events (if a = 0 \<or> a = IPADDR_BROADCAST then log_event Default_netif w else w))
      = Some (r, events (if a = 0 \<or> a = IPADDR_BROADCAST then log_event Default_netif w else w) @ [Sent fd a bs])"
    by blast
  show ?thesis
  proof (intro exI conjI)
    show "send_response env fd a bs w = Inr (r, (if a = 0 \<or> a = IPADDR_BROADCAST then log_event Default_netif w else w)
        \<lparr>events := events (if a = 0 \<or> a = IPADDR_BROADCAST then log_event Default_netif w else w) @ [Sent fd a bs]\<rparr>)"
      unfolding send_response_def Let_def r by simp
  qed (simp_all add: same_but_events_def log_event_def)
qed

lemma send_times_datagram:
  assumes "datagrams env" "bs \<noteq> []"
  shows "\<exists>w'. send_times n env fd a bs w = Inr w' \<and> same_but_events w w' \<and> events w' = events w @
    concat (replicate n ((if a = 0 \<or> a = IPADDR_BROADCAST then [Default_netif] else []) @ [Sent fd a bs]))"
proof (induction n arbitrary: w)
  case (Suc n)
  obtain r w1 where 1: "send_response env fd a bs w = Inr (r, w1)" "same_but_events w w1"
    "events w1 = events w @ (if a = 0 \<or> a = IPADDR_BROADCAST then [Default_netif] else []) @ [Sent fd a bs]"
    using send_response_datagram [OF assms] by blast
  obtain w2 where 2: "send_times n env fd a bs w1 = Inr w2" "same_but_events w1 w2" "events w2 = events w1 @
    concat (replicate n ((if a = 0 \<or> a = IPADDR_BROADCAST then [Default_netif] else []) @ [Sent fd a bs]))"
    using Suc.IH by blast
  have "same_but_events w w2" using 1(2) 2(2) by (rule same_but_events_trans)
  then show ?case using 1 2 by simp
qed simp

text \<open>A reply of type \<open>ty\<close> that gives the client \<open>mac\<close> the address \<open>ip\<close>, and the events of sending it: once to
  that address, and three times to everybody.\<close>

definition reply :: "u8 \<Rightarrow> u32 \<Rightarrow> u8 list \<Rightarrow> dhcp_world \<Rightarrow> u8 list \<Rightarrow> bool" where
  "reply ty ip mac w p \<longleftrightarrow> response_header ip mac p \<and>
    drop HDR_SIZE p = encode_options
      (response_options ty (dhcp_address_timeout w) (dhcp_nack_dns_server_handler w) (dhcps w))"

definition reply_events :: "int \<Rightarrow> u32 \<Rightarrow> u8 list \<Rightarrow> u8 list \<Rightarrow> u8 list \<Rightarrow> dhcp_event list" where
  "reply_events fd ip mac p q =
    [Arp_added ip mac, Sent fd ip p, Arp_removed ip]
    @ concat (replicate 3 [Default_netif, Sent fd IPADDR_BROADCAST q])"

lemma set_flags_reply:
  assumes "HDR_SIZE \<le> n" "n \<le> length m"
  shows "response_header ip mac (take n (set_flags fl m)) = response_header ip mac (take n m)"
    and "drop HDR_SIZE (take n (set_flags fl m)) = drop HDR_SIZE (take n m)"
    and "hdr_chaddr (set_flags fl m) = hdr_chaddr m" "hdr_yiaddr (set_flags fl m) = hdr_yiaddr m"
proof -
  have l: "240 \<le> length m" "240 \<le> n" using assms by (simp_all add: HDR_SIZE_def)
  have n: "set_flags fl m ! i = m ! i" if "i < 10 \<or> 12 \<le> i" "i < length m" for i
    using that l by (auto simp: set_flags_def short_bytes_def nth_put)
  show c: "hdr_chaddr (set_flags fl m) = hdr_chaddr m" and "hdr_yiaddr (set_flags fl m) = hdr_yiaddr m"
    using l by (simp_all add: set_flags_def short_bytes_def chaddr_put hdr_yiaddr_def u32_at_put)
  have "drop HDR_SIZE (set_flags fl m) = drop HDR_SIZE m"
    using l by (intro nth_equalityI) (simp_all add: n HDR_SIZE_def)
  then show "drop HDR_SIZE (take n (set_flags fl m)) = drop HDR_SIZE (take n m)" by (simp add: drop_take)
  have z: "set_flags fl m ! 0 = m ! 0" using l by (intro n) auto
  have t: "hdr_chaddr (take n x) = hdr_chaddr x" for x :: "u8 list"
    using l(2) by (simp add: hdr_chaddr_def drop_take min_def)
  show "response_header ip mac (take n (set_flags fl m)) = response_header ip mac (take n m)"
    using l c z by (simp add: response_header_def hdr_op_def hdr_htype_def hdr_hlen_def hdr_ciaddr_def
        hdr_yiaddr_def u32_at_def n t)
qed

lemma response_header_take_n:
  assumes "HDR_SIZE \<le> n" "n \<le> length m"
  shows "response_header ip mac (take n m) = response_header ip mac m"
proof -
  have "take HDR_SIZE (take n m) = take HDR_SIZE m" using assms(1) by (simp add: min_def)
  then show ?thesis using assms by (intro response_header_take(1)) simp_all
qed

lemma in_subnet_not_broadcast:
  assumes "in_subnet d ip" "ip \<notin> reserved d"
  shows "ip \<noteq> 0" "ip \<noteq> IPADDR_BROADCAST"
proof -
  show "ip \<noteq> 0" using not_found_0 [OF assms] .
  have "my_ip d OR NOT (netmask d) = - 1" if "- 1 AND netmask d = my_ip d AND netmask d"
  proof (rule bit_word_eqI)
    fix n assume "n < LENGTH(32)"
    moreover have "bit (- 1 AND netmask d) n = bit (my_ip d AND netmask d) n" using that by simp
    ultimately show "bit (my_ip d OR NOT (netmask d)) n = bit (- 1 :: u32) n" by (auto simp: bit_simps)
  qed
  moreover have "IPADDR_BROADCAST = - 1" by (simp add: IPADDR_BROADCAST_def)
  ultimately show "ip \<noteq> IPADDR_BROADCAST"
    using assms by (auto simp: in_subnet_def reserved_def network_addr_def broadcast_addr_def)
qed

lemma send_gratuitous_arp_events:
  "\<exists>tail. events (snd (send_gratuitous_arp env ip w)) = events w @ tail"
  by (simp add: send_gratuitous_arp_def Let_def log_event_def)

lemma respond_reply:
  assumes env: "datagrams env" and m: "length m = SERVER_BUFFER_SIZE"
    and w: "cache_inv (dhcps w)" "baddr (dhcps w) = IPADDR_BROADCAST" and ty: "ty \<noteq> DHCP_MESSAGE_NAK"
    and mk: "make_response ty (dhcp_address_timeout w) (dhcp_nack_dns_server_handler w) m (dhcps w) = Inr (n, m1, d1)"
    and ip: "hdr_yiaddr m1 = ip" "ip \<noteq> 0" "ip \<noteq> IPADDR_BROADCAST"
  shows "\<exists>w' p q tail. respond env ty m w = Inr (0, w') \<and> server_inv w' \<and> grows (dhcps w) (dhcps w')
    \<and> leases (dhcps w') = leases d1
    \<and> events w' = events w @ reply_events (sock (dhcps w)) ip (hdr_chaddr m) p q @ tail
    \<and> (ty \<noteq> DHCP_MESSAGE_ACK \<longrightarrow> tail = [])
    \<and> reply ty ip (hdr_chaddr m) w' p \<and> reply ty ip (hdr_chaddr m) w' q"
proof -
  note lay = make_response_layout [OF m mk]
  have d1: "length m1 = SERVER_BUFFER_SIZE" "cache_inv d1" "grows (dhcps w) d1" "baddr d1 = IPADDR_BROADCAST"
    using make_response_ok [OF m w(1), where ty = ty and t = "dhcp_address_timeout w" and nack = "dhcp_nack_dns_server_handler w"]
    by (simp_all add: mk w(2))
  have n: "n = 274" "HDR_SIZE \<le> n" "n \<le> length m1" using lay(2) ty d1(1) by (simp_all add: HDR_SIZE_def SERVER_BUFFER_SIZE_def)
  define m2 where "m2 = set_flags (hdr_flags m1 AND NOT (htons 0x8000)) m1"
  define m3 where "m3 = set_flags (hdr_flags m2 OR htons 0x8000) m2"
  have l: "length m2 = SERVER_BUFFER_SIZE" "length m3 = SERVER_BUFFER_SIZE"
    using d1(1) by (simp_all add: m2_def m3_def SERVER_BUFFER_SIZE_def)
  define p where "p = take n m2"
  define q where "q = take n m3"
  have ne: "p \<noteq> []" "q \<noteq> []" using l n(1) by (auto simp: p_def q_def SERVER_BUFFER_SIZE_def)
  define w1 where "w1 = log_event (Arp_added ip (hdr_chaddr m)) (set_dhcps (uaddr_update (\<lambda>_. ip)) (w\<lparr>dhcps := d1\<rparr>))"
  have w1: "uaddr (dhcps w1) = ip" "sock (dhcps w1) = sock d1" "events w1 = events w @ [Arp_added ip (hdr_chaddr m)]"
    by (simp_all add: w1_def log_event_def set_dhcps_def)
  have c1: "hdr_chaddr m1 = hdr_chaddr m" using lay(3) by (simp add: response_header_def)
  obtain w2 where w2: "send_times 1 env (sock d1) ip p w1 = Inr w2" "same_but_events w1 w2"
    "events w2 = events w1 @ [Sent (sock d1) ip p]"
    using send_times_datagram [OF env ne(1), where n = 1 and fd = "sock d1" and a = ip and w = w1] ip by auto
  have uni: "send_unicast env n m1 (w\<lparr>dhcps := d1\<rparr>) = Inr (m2, log_event (Arp_removed ip) w2)"
    using ip(1,2) w2(1) w1(1,2)
    by (simp add: send_unicast_def Let_def m2_def [symmetric] p_def [symmetric] w1_def [symmetric] c1 del: One_nat_def)
  define w3 where "w3 = set_dhcps (msg_update (\<lambda>_. Some m3)) (log_event (Arp_removed ip) w2)"
  have d2: "dhcps w2 = d1\<lparr>uaddr := ip\<rparr>"
    using same_but_eventsD [OF w2(2)] by (simp add: w1_def log_event_def set_dhcps_def)
  have d3: "dhcps w3 = d1\<lparr>uaddr := ip, msg := Some m3\<rparr>" by (simp add: w3_def set_dhcps_def log_event_def d2)
  obtain w4 where w4: "send_times 3 env (sock d1) IPADDR_BROADCAST q w3 = Inr w4" "same_but_events w3 w4"
    "events w4 = events w3 @ concat (replicate 3 [Default_netif, Sent (sock d1) IPADDR_BROADCAST q])"
    using send_times_datagram [OF env ne(2), where n = 3 and fd = "sock d1" and a = IPADDR_BROADCAST and w = w3] by auto
  define w5 where "w5 = (if ty = DHCP_MESSAGE_ACK then snd (send_gratuitous_arp env (my_ip (dhcps w4)) w4) else w4)"
  have res: "respond env ty m w = Inr (0, w5)"
    using w4(1) d1(4) by (simp add: respond_def mk uni Let_def m3_def [symmetric] w3_def [symmetric] d3 q_def [symmetric] w5_def)
  have s5: "same_but_events w3 w5" using w4(2) gratuitous_arp_ok same_but_events_trans by (simp add: w5_def)
  then have d5: "dhcps w5 = d1\<lparr>uaddr := ip, msg := Some m3\<rparr>" using same_but_eventsD d3 by simp
  have g5: "grows d1 (dhcps w5)" "cache_inv (dhcps w5)"
    using grows_same [of "dhcps w5" d1] d1(2) by (simp_all add: d5 same_net_def)
  have "leases (dhcps w5) = leases d1"
    using cache_inv_cong(1) [of "dhcps w5" d1] by (simp add: d5 same_net_def)
  moreover have "server_inv w5" using g5(2) l(2) d1(4) by (simp add: server_inv_def d5)
  moreover have "grows (dhcps w) (dhcps w5)" using d1(3) g5(1) by (rule grows_trans)
  moreover obtain tail where "events w5 = events w4 @ tail" "ty \<noteq> DHCP_MESSAGE_ACK \<longrightarrow> tail = []"
    using send_gratuitous_arp_events [of env "my_ip (dhcps w4)" w4] by (cases "ty = DHCP_MESSAGE_ACK") (auto simp: w5_def)
  moreover have "events w3 = events w2 @ [Arp_removed ip]" by (simp add: w3_def set_dhcps_def log_event_def)
  moreover have "sock (dhcps w) = sock d1" using d1(3) by (simp add: grows_def same_net_def)
  moreover have "reply ty ip (hdr_chaddr m) w5 p \<and> reply ty ip (hdr_chaddr m) w5 q"
  proof -
    have env5: "dhcp_address_timeout w5 = dhcp_address_timeout w" "dhcp_nack_dns_server_handler w5 = dhcp_nack_dns_server_handler w"
      using s5 w2(2) by (simp_all add: same_but_events_def w3_def w1_def set_dhcps_def log_event_def)
    have "response_options ty t b (dhcps w5) = response_options ty t b d1" for t b
      by (simp add: d5 response_options_def)
    moreover have "response_header ip (hdr_chaddr m) (take n m1)"
      using response_header_take_n [OF n(2,3)] lay(3) ip(1) by simp
    moreover have "n \<le> length m2" using l(1) n(1) by (simp add: SERVER_BUFFER_SIZE_def)
    ultimately show ?thesis
      using lay(4) ty set_flags_reply(1,2) [OF n(2,3)] set_flags_reply(1,2) [OF n(2), of m2]
      by (simp add: reply_def env5 p_def q_def m3_def m2_def)
  qed
  ultimately show ?thesis
    using res w4(3) w2(3) w1(3) by (auto simp: reply_events_def)
qed

section \<open>Discovering and requesting\<close>

lemma msg_cong:
  "leases (d\<lparr>msg := x\<rparr>) = leases d" "cache_inv (d\<lparr>msg := x\<rparr>) = cache_inv d"
  "ac_not_full (d\<lparr>msg := x\<rparr>) = ac_not_full d" "grows d (d\<lparr>msg := x\<rparr>)" "grows (d\<lparr>msg := x\<rparr>) d"
  "in_subnet (d\<lparr>msg := x\<rparr>) = in_subnet d" "reserved (d\<lparr>msg := x\<rparr>) = reserved d"
  "may_have mac ip (d\<lparr>msg := x\<rparr>) = may_have mac ip d"
proof -
  have n: "same_net d (d\<lparr>msg := x\<rparr>)" by (simp add: same_net_def)
  show l: "leases (d\<lparr>msg := x\<rparr>) = leases d" and "cache_inv (d\<lparr>msg := x\<rparr>) = cache_inv d"
    "ac_not_full (d\<lparr>msg := x\<rparr>) = ac_not_full d"
    by (rule cache_inv_cong [OF _ _ n]; simp)+
  show a: "in_subnet (d\<lparr>msg := x\<rparr>) = in_subnet d" "reserved (d\<lparr>msg := x\<rparr>) = reserved d"
    using same_net_addrs [OF n] by simp_all
  show "grows d (d\<lparr>msg := x\<rparr>)" "grows (d\<lparr>msg := x\<rparr>) d" using l by (simp_all add: grows_def same_net_def)
  show "may_have mac ip (d\<lparr>msg := x\<rparr>) = may_have mac ip d" using l a by (simp add: may_have_def cong: option.case_cong)
qed

lemma offers_may_have:
  assumes "offers mac ip d d'" "same_net d d'"
  shows "may_have mac ip d'"
proof (cases "map_of (leases d) mac")
  case (Some a)
  then show ?thesis using assms same_net_addrs [OF assms(2)] by (auto simp: offers_def may_have_def)
next
  case None
  show ?thesis
  proof (cases "ac_not_full d")
    case True
    then show ?thesis using assms None same_net_addrs [OF assms(2)] by (simp add: offers_def may_have_def map_add_def)
  next
    case False
    then show ?thesis using assms None same_net_addrs [OF assms(2)] by (simp add: offers_def may_have_def)
  qed
qed

lemma may_have_cong:
  "leases d' = leases d \<Longrightarrow> same_net d d' \<Longrightarrow> may_have mac ip d' = may_have mac ip d"
  using same_net_addrs [of d d'] by (simp add: may_have_def cong: option.case_cong)

lemma discover_served:
  assumes inv: "server_inv w" and env: "datagrams env" and sub: "wide_subnet (dhcps w)"
    and xid: "length xid = 4" and mac: "length mac = 6" and os: "extra_options os" "fits (discover_options os)"
  shows "\<exists>ip w' p q. serve_dhcp env (client_message xid mac 0 (discover_options os)) w = Inr w'
    \<and> server_inv w' \<and> grows (dhcps w) (dhcps w') \<and> offers mac ip (dhcps w) (dhcps w')
    \<and> events w' = events w @ reply_events (sock (dhcps w)) ip mac p q
    \<and> reply DHCP_MESSAGE_OFFER ip mac w' p \<and> reply DHCP_MESSAGE_OFFER ip mac w' q"
proof -
  have wf: "list_all wf_option (discover_options os)" "discover_options os \<noteq> []"
    using os(1) by (simp_all add: discover_options_def extra_options_def wf_option_def bootp_consts)
  obtain m where m: "length m = SERVER_BUFFER_SIZE" "hdr_chaddr m = mac" and eq:
    "serve_dhcp env (client_message xid mac 0 (discover_options os)) w =
      map_sum id snd (respond env DHCP_MESSAGE_OFFER m (w\<lparr>dhcps := (dhcps w)\<lparr>msg := Some m\<rparr>\<rparr>))"
    using serve_dhcp_client_message [OF inv xid mac wf os(2), of env 0]
    by (auto simp: discover_fold [OF os(1)] dhcp_consts)
  let ?w = "w\<lparr>dhcps := (dhcps w)\<lparr>msg := Some m\<rparr>\<rparr>"
  have c: "cache_inv (dhcps ?w)" "baddr (dhcps ?w) = IPADDR_BROADCAST" "wide_subnet (dhcps ?w)"
    using inv sub grows_wide [OF msg_cong(4)] by (simp_all add: server_inv_def msg_cong)
  obtain n m1 d1 where mk: "make_response DHCP_MESSAGE_OFFER (dhcp_address_timeout ?w) (dhcp_nack_dns_server_handler ?w) m (dhcps ?w)
      = Inr (n, m1, d1)"
    using make_response_ok [OF m(1) c(1), where ty = DHCP_MESSAGE_OFFER and t = "dhcp_address_timeout ?w"
        and nack = "dhcp_nack_dns_server_handler ?w"] c(3) by (auto split: sum.splits)
  have "next_yiaddr mac (dhcps ?w) = Inr (hdr_yiaddr m1, d1)"
    using make_response_layout(5) [OF m(1) mk] m(2) by simp
  note o = next_yiaddr_offers [OF c(1) this]
  have ip: "in_subnet (dhcps w) (hdr_yiaddr m1)" "hdr_yiaddr m1 \<notin> reserved (dhcps w)"
    using o(1) by (simp_all add: offers_def msg_cong)
  obtain w' p q where r: "respond env DHCP_MESSAGE_OFFER m ?w = Inr (0, w')" "server_inv w'" "grows (dhcps ?w) (dhcps w')"
    "leases (dhcps w') = leases d1" "events w' = events w @ reply_events (sock (dhcps w)) (hdr_yiaddr m1) mac p q"
    "reply DHCP_MESSAGE_OFFER (hdr_yiaddr m1) mac w' p" "reply DHCP_MESSAGE_OFFER (hdr_yiaddr m1) mac w' q"
    using respond_reply [OF env m(1) c(1,2) _ mk refl in_subnet_not_broadcast [OF ip]] m(2)
    by (auto simp: dhcp_consts)
  have "offers mac (hdr_yiaddr m1) (dhcps w) (dhcps w')"
    using o(1) r(4) by (cases "map_of (leases (dhcps w)) mac") (simp_all add: offers_def msg_cong)
  moreover have "grows (dhcps w) (dhcps w')" using msg_cong(4) r(3) grows_trans by fastforce
  ultimately show ?thesis using r eq by auto
qed

lemma make_response_ack: "\<exists>n m1. make_response DHCP_MESSAGE_ACK t b m d = Inr (n, m1, d)"
  by (simp add: make_response_def Let_def dhcp_consts split: prod.split)

lemma request_served:
  assumes inv: "server_inv w" and env: "datagrams env" and may: "may_have mac ip (dhcps w)"
    and xid: "length xid = 4" and mac: "length mac = 6" and os: "extra_options os" "fits (request_options ip os)"
  shows "\<exists>w' p q tail. serve_dhcp env (client_message xid mac 0 (request_options ip os)) w = Inr w'
    \<and> server_inv w' \<and> grows (dhcps w) (dhcps w') \<and> may_have mac ip (dhcps w')
    \<and> events w' = events w @ reply_events (sock (dhcps w)) ip mac p q @ tail
    \<and> reply DHCP_MESSAGE_ACK ip mac w' p \<and> reply DHCP_MESSAGE_ACK ip mac w' q"
proof -
  have wf: "list_all wf_option (request_options ip os)" "request_options ip os \<noteq> []"
    using os(1) by (simp_all add: request_options_def extra_options_def wf_option_def bootp_consts)
  have c0: "cache_inv (dhcps w)" using inv by (simp add: server_inv_def)
  obtain m where m: "length m = SERVER_BUFFER_SIZE" "hdr_chaddr m = mac" and eq:
    "serve_dhcp env (client_message xid mac 0 (request_options ip os)) w =
      map_sum id snd (respond env DHCP_MESSAGE_ACK m
        (w\<lparr>dhcps := keep_lease mac ((dhcps w)\<lparr>msg := Some m\<rparr>\<lparr>req_ip := ip\<rparr>)\<rparr>))"
    using serve_dhcp_client_message [OF inv xid mac wf os(2), of env 0] request_fold [OF os(1)] c0 may
    by (auto simp: msg_cong dhcp_consts)
  let ?d0 = "(dhcps w)\<lparr>msg := Some m\<rparr>\<lparr>req_ip := ip\<rparr>"
  let ?w = "w\<lparr>dhcps := keep_lease mac ?d0\<rparr>"
  have d0: "cache_inv ?d0" "may_have mac (req_ip ?d0) ?d0" "grows (dhcps w) ?d0"
    using c0 may grows_trans [OF msg_cong(4) req_ip_cong(4)] by (simp_all add: req_ip_cong msg_cong)
  note k = keep_lease_ok [OF d0(1,2)]
  have g: "grows (dhcps w) (dhcps ?w)" using grows_trans [OF d0(3) k(2)] by simp
  then have c: "cache_inv (dhcps ?w)" "baddr (dhcps ?w) = IPADDR_BROADCAST" "sock (dhcps ?w) = sock (dhcps w)"
    using inv k(1) by (simp_all add: server_inv_def grows_def same_net_def)
  have addr: "in_subnet (dhcps w) ip" "ip \<notin> reserved (dhcps w)" using may by (simp_all add: may_have_def)
  have ne: "DHCP_MESSAGE_ACK \<noteq> DHCP_MESSAGE_OFFER" "DHCP_MESSAGE_ACK \<noteq> DHCP_MESSAGE_NAK" by (simp_all add: dhcp_consts)
  obtain n m1 d1 where mk: "make_response DHCP_MESSAGE_ACK (dhcp_address_timeout ?w) (dhcp_nack_dns_server_handler ?w) m (dhcps ?w)
      = Inr (n, m1, d1)"
    using make_response_ack by blast
  have d1: "d1 = dhcps ?w" "hdr_yiaddr m1 = ip"
    using make_response_layout(5) [OF m(1) mk] ne k(4) by simp_all
  obtain w' p q tail where r: "respond env DHCP_MESSAGE_ACK m ?w = Inr (0, w')" "server_inv w'" "grows (dhcps ?w) (dhcps w')"
    "leases (dhcps w') = leases d1" "events w' = events w @ reply_events (sock (dhcps w)) ip mac p q @ tail"
    "reply DHCP_MESSAGE_ACK ip mac w' p" "reply DHCP_MESSAGE_ACK ip mac w' q"
    using respond_reply [OF env m(1) c(1,2) ne(2) mk d1(2) in_subnet_not_broadcast [OF addr]] m(2) c(3) by auto
  have "may_have mac ip (dhcps w')"
    using may_have_cong [of "dhcps w'" "dhcps ?w"] r(3,4) d1(1) k(3) by (simp add: grows_def)
  moreover have "grows (dhcps w) (dhcps w')" using g r(3) by (rule grows_trans)
  ultimately show ?thesis using r eq by auto
qed

text \<open>A lease is not lost.\<close>

lemma lease_kept:
  assumes "(mac, ip) \<in> set (leases d)" "grows d d'" "cache_inv d" "cache_inv d'"
  shows "may_have mac ip d'"
proof -
  have "(mac, ip) \<in> set (leases d')" using assms(1,2) by (auto simp: grows_def dest: set_mono_prefix)
  then have "map_of (leases d') mac = Some ip" "in_subnet d' ip" "ip \<notin> reserved d'"
    using assms(4) by (auto simp: cache_inv_def)
  then show ?thesis by (simp add: may_have_def)
qed

lemma offers_recorded:
  assumes "offers mac ip d d'" "mac \<in> fst ` set (leases d) \<or> ac_not_full d"
  shows "(mac, ip) \<in> set (leases d')"
proof (cases "map_of (leases d) mac")
  case None
  then have "mac \<notin> fst ` set (leases d)" by (simp add: map_of_eq_None_iff)
  then show ?thesis using assms None by (simp add: offers_def)
next
  case (Some a)
  then show ?thesis using assms(1) map_of_SomeD [OF Some] by (simp add: offers_def)
qed

end
