(* ===== verification/Dhcp_Props.thy ===== *)
theory Dhcp_Props
  imports Dhcp_Client
begin

text \<open>
  The properties of the DHCP server, over runs of the thread from a successful start: leases are unique and
  addresses of the subnet, no run of short messages in a subnet of sixteen addresses fails, and a client that
  discovers an address is offered one and gets it acknowledged. And where the server fails: a used up subnet,
  a request with two addresses, an option cut off at the end of the buffer, and the flags of a DNS message.
\<close>

section \<open>An example server\<close>

definition ex_net :: net_env where
  "ex_net = \<lparr>lwip_sendto = (\<lambda>_ bs. int (length bs)), lwip_socket = (\<lambda>evs. int (length evs)), if_macaddr = [2, 0, 0, 0, 0, 1]\<rparr>"

text \<open>192.168.1.1 with the netmask 255.255.255.0.\<close>

definition ex_init :: init_env where
  "ex_init = \<lparr>malloc_msg = Some (replicate 1024 0), init_mutex = 0, if_ip_addr = (0, 0x0101A8C0),
     if_ip_mask = (0, 0x00FFFFFF), if_gw_addr = (0, 0x0101A8C0), setsockopt_broadcast = (\<lambda>_. 0), lwip_bind = (\<lambda>_. 0),
     create_thread = 0\<rparr>"

definition ex_idle :: dhcp_world where
  "ex_idle = \<lparr>dhcps = zero_dhcps, dhcp_address_timeout = 3600, dhcp_nack_dns_server_handler = False,
     dhcpd_running = False, events = []\<rparr>"

definition ex_server :: dhcp_world where
  "ex_server = snd (dhcp_server_start ex_net ex_init ex_idle)"

lemma ex_started: "dhcp_server_start ex_net ex_init ex_idle = (0, ex_server)"
proof -
  have "fst (dhcp_server_start ex_net ex_init ex_idle) = 0"
    by (simp add: dhcp_server_start_def dhcp_server_init_def ex_init_def ex_net_def ex_idle_def Let_def
        dhcp_enable_nack_dns_server_def set_dhcps_def create_and_bind_udp_socket_def log_event_def)
  then show ?thesis unfolding ex_server_def by (metis prod.collapse)
qed

lemma ex_buffer: "malloc_msg ex_init = Some m \<Longrightarrow> length m = SERVER_BUFFER_SIZE"
  by (auto simp: ex_init_def SERVER_BUFFER_SIZE_def)

lemma ex_server_ok:
  "server_inv ex_server" "leases (dhcps ex_server) = []" "my_ip (dhcps ex_server) = 0x0101A8C0"
  "netmask (dhcps ex_server) = 0x00FFFFFF" "subnet_bits (dhcps ex_server) 8" "wide_subnet (dhcps ex_server)"
proof -
  have "server_inv ex_server \<and> leases (dhcps ex_server) = [] \<and> my_ip (dhcps ex_server) = 0x0101A8C0
    \<and> netmask (dhcps ex_server) = 0x00FFFFFF"
    using dhcp_server_start_inv [OF ex_started ex_buffer] by (simp add: ex_init_def)
  then show "server_inv ex_server" "leases (dhcps ex_server) = []" "my_ip (dhcps ex_server) = 0x0101A8C0"
    "netmask (dhcps ex_server) = 0x00FFFFFF" by simp_all
  moreover have "(0x00FFFFFF :: u32) = htonl (NOT (mask 8))" by (simp add: lwip_htonl_def mask_eq_exp_minus_1)
  ultimately show s: "subnet_bits (dhcps ex_server) 8" by (simp add: subnet_bits_def)
  then show "wide_subnet (dhcps ex_server)" by (auto simp: wide_subnet_def intro!: exI [of _ 8])
qed

lemma ex_net_ok: "datagrams ex_net" "progress ex_net"
  by (simp_all add: datagrams_def progress_def ex_net_def)

definition ex_mac :: "u8 list" where "ex_mac = [0, 1, 2, 3, 4, 5]"
definition ex_xid :: "u8 list" where "ex_xid = [7, 7, 7, 7]"

lemma ex_lens: "length ex_mac = 6" "length ex_xid = 4"
  by (simp_all add: ex_mac_def ex_xid_def)

definition ex_pass :: "u8 list \<Rightarrow> select_result" where
  "ex_pass bs = \<lparr>sel_ret = 1, on_sock = Some bs, on_dnssock = None, on_ctrlsock = None\<rparr>"

section \<open>Runs\<close>

text \<open>C9: whatever datagrams arrive after a successful start, and however often, no client ever holds two
  leases (entries of the cache; an acknowledgement given when the cache is full makes none) and no address is leased twice; at most eight leases exist, each of an address of the interface's
  subnet that is not the server's own, the network's or the broadcast address. A run that does not come to
  its end read outside the buffer, or searches or sends for ever.\<close>

theorem dhcp_leases_unique:
  assumes "dhcp_server_start env ini w0 = (0, w)" "\<And>m. malloc_msg ini = Some m \<Longrightarrow> length m = SERVER_BUFFER_SIZE"
  shows "case run_res (pass_exec env) sels w of
      Inl e \<Rightarrow> e = Out_of_bounds \<or> e = Spins
    | Inr w' \<Rightarrow> length (leases (dhcps w')) \<le> 8
        \<and> distinct (map fst (leases (dhcps w'))) \<and> distinct (map snd (leases (dhcps w')))
        \<and> (\<forall>(mac, ip) \<in> set (leases (dhcps w')).
             ip AND snd (if_ip_mask ini) = snd (if_ip_addr ini) AND snd (if_ip_mask ini)
             \<and> ip \<noteq> snd (if_ip_addr ini) \<and> ip \<noteq> snd (if_ip_addr ini) AND snd (if_ip_mask ini)
             \<and> ip \<noteq> snd (if_ip_addr ini) OR NOT (snd (if_ip_mask ini)))"
proof -
  note start = dhcp_server_start_inv [OF assms]
  show ?thesis
  proof (cases "run_res (pass_exec env) sels w")
    case (Inl e)
    then show ?thesis using dhcp_loop.run_ok [of w env sels] start by simp
  next
    case (Inr w')
    then have w': "cache_inv (dhcps w')" "same_net (dhcps w) (dhcps w')"
      using dhcp_loop.run_ok [of w env sels] start by (simp_all add: server_inv_def grows_def)
    then have net: "my_ip (dhcps w') = snd (if_ip_addr ini)" "netmask (dhcps w') = snd (if_ip_mask ini)"
      using start by (simp_all add: same_net_def)
    have "length (leases (dhcps w')) \<le> 8"
      using w'(1) by (simp add: cache_inv_def leases_def ac_entries_def MAC_IP_CACHE_SIZE_def)
    then show ?thesis using w'(1) net Inr
      by (auto simp: cache_inv_def in_subnet_def reserved_def network_addr_def broadcast_addr_def)
  qed
qed

theorem dhcp_leases_unique_witness:
  "case run_res (pass_exec ex_net) [ex_pass [1, 2, 3]] ex_server of
      Inl e \<Rightarrow> e = Out_of_bounds \<or> e = Spins
    | Inr w' \<Rightarrow> length (leases (dhcps w')) \<le> 8 \<and> distinct (map snd (leases (dhcps w')))"
  using dhcp_leases_unique [OF ex_started ex_buffer, where sels = "[ex_pass [1, 2, 3]]"]
  by (auto split: sum.splits)

text \<open>C19: in a subnet of sixteen addresses or more, over a network stack that takes datagrams or refuses them,
  every run of DHCP datagrams of at most 1019 bytes, with whatever DNS and control datagrams between them,
  comes to its end: every search for an address ends, every byte read lies in the buffer, and no lease is
  lost.\<close>

theorem dhcp_run_returns:
  assumes "dhcp_server_start env ini w0 = (0, w)" "\<And>m. malloc_msg ini = Some m \<Longrightarrow> length m = SERVER_BUFFER_SIZE"
    and "snd (if_ip_mask ini) = htonl (NOT (mask k))" "4 \<le> k" "k \<le> 32" and "progress env"
    and "\<And>sel bs. sel \<in> set sels \<Longrightarrow> on_sock sel = Some bs \<Longrightarrow> length bs \<le> 1019"
  shows "\<exists>w'. run_res (pass_exec env) sels w = Inr w' \<and> prefix (leases (dhcps w)) (leases (dhcps w'))"
proof -
  have w: "server_inv w" "wide_subnet (dhcps w)"
    using dhcp_server_start_inv [OF assms(1,2)] assms(3-5) by (auto simp: wide_subnet_def subnet_bits_def)
  have "short_dgram sel" if "sel \<in> set sels" for sel
    using assms(7) [OF that] by (simp add: short_dgram_def split: option.splits)
  then have "run_res (\<lambda>sel. pass_exec env (shorten sel)) sels w = run_res (pass_exec env) sels w" by (rule run_shorten)
  then show ?thesis
    using calm_dhcp_loop.run_ok [of w env sels] w assms(6) by (auto simp: grows_def split: sum.splits)
qed

theorem dhcp_run_returns_witness:
  "\<exists>w'. run_res (pass_exec ex_net) [ex_pass (replicate 1000 9), ex_pass []] ex_server = Inr w'"
proof -
  have mask: "snd (if_ip_mask ex_init) = htonl (NOT (mask 8))"
    by (simp add: ex_init_def lwip_htonl_def mask_eq_exp_minus_1)
  have "\<exists>w'. run_res (pass_exec ex_net) [ex_pass (replicate 1000 9), ex_pass []] ex_server = Inr w'
      \<and> prefix (leases (dhcps ex_server)) (leases (dhcps w'))"
    by (rule dhcp_run_returns [OF ex_started ex_buffer mask _ _ ex_net_ok(2)]) (auto simp: ex_pass_def)
  then show ?thesis by blast
qed

section \<open>Messages\<close>

text \<open>C18: reading the options of a message is a fold over the list of options it encodes: for every list of
  options, the loop of \<open>process_dhcp_message\<close> over their bytes, ended by the end option, computes exactly
  the reference semantics of the list, whatever follows in the buffer.\<close>

theorem dhcp_options_fold:
  assumes "drop HDR_SIZE m = encode_options os @ rest" "list_all wf_option os"
    and "len \<ge> int (length (encode_options os))"
  shows "dhcp_options m HDR_SIZE len s = Inr (fold (apply_option (hdr_ciaddr m) (hdr_chaddr m)) os s)"
proof -
  let ?off = "HDR_SIZE + length (concat (map encode_option os))"
  have d: "drop HDR_SIZE m = concat (map encode_option os) @ BOOTP_END_OPTION # rest"
    using assms(1) by (simp add: encode_options_def)
  then have l: "?off < length m" 
  proof -
    have "length (drop HDR_SIZE m) = length (concat (map encode_option os)) + 1 + length rest" unfolding d by simp
    then show ?thesis by simp
  qed
  then have "m ! ?off = drop HDR_SIZE m ! length (concat (map encode_option os))" by simp
  then have "m ! ?off = BOOTP_END_OPTION" unfolding d by (simp add: nth_append)
  then show ?thesis
    using dhcp_options_skip [OF d assms(2), of len s] assms(3) l
    by (simp add: encode_options_def dhcp_options_stop(2))
qed

theorem dhcp_options_fold_witness:
  "dhcp_options (replicate 240 0 @ [53, 1, 1, 255]) HDR_SIZE 4 (opt_init, zero_dhcps)
    = Inr (fold (apply_option 0 (replicate 6 0)) [(53, [1])] (opt_init, zero_dhcps))"
proof -
  let ?m = "replicate 240 0 @ [53, 1, 1, 255] :: u8 list"
  have "hdr_ciaddr ?m = 0" "hdr_chaddr ?m = replicate 6 0"
    by (simp_all add: hdr_ciaddr_def hdr_chaddr_def u32_at_def nth_append bytes_word_def)
  moreover have "drop HDR_SIZE ?m = encode_options [(53, [1])] @ []"
    by (simp add: HDR_SIZE_def encode_options_def encode_option_def bootp_consts)
  ultimately show ?thesis
    using dhcp_options_fold [of ?m "[(53, [1])]" "[]" 4 "(opt_init, zero_dhcps)"]
    by (simp add: wf_option_def bootp_consts encode_options_def encode_option_def)
qed

text \<open>the layout of every response: a BOOTP reply to the hardware address of the client, with the assigned
  address, and as options exactly the message type, netmask, lease time, server, router and name server,
  ended by the end option; a refusal carries the message type alone and, unlike the others, no end option.
  An offer carries the address that \<open>next_yiaddr\<close> chose, an acknowledgement the requested one.\<close>

theorem dhcp_response_layout:
  assumes "length m = SERVER_BUFFER_SIZE" "make_response ty timeout nack m d = Inr (n, m', d')"
  shows "response_header (hdr_yiaddr m') (hdr_chaddr m) m'
    \<and> drop HDR_SIZE (take n m') = (if ty = DHCP_MESSAGE_NAK then encode_option (BOOTP_OPTION_DHCP_MESSAGE, [ty])
         else encode_options (response_options ty timeout nack d'))
    \<and> (if ty = DHCP_MESSAGE_OFFER then next_yiaddr (hdr_chaddr m) d = Inr (hdr_yiaddr m', d')
       else d' = d \<and> hdr_yiaddr m' = (if ty = DHCP_MESSAGE_ACK then req_ip d else 0))"
  using make_response_layout(3-5) [OF assms] by blast

theorem dhcp_response_layout_witness:
  "\<exists>n m'. make_response DHCP_MESSAGE_ACK 3600 True (replicate 1024 0) zero_dhcps = Inr (n, m', zero_dhcps)
    \<and> drop HDR_SIZE (take n m') = encode_options (response_options DHCP_MESSAGE_ACK 3600 True zero_dhcps)"
proof -
  let ?m = "replicate 1024 0 :: u8 list"
  obtain n m' where r: "make_response DHCP_MESSAGE_ACK 3600 True ?m zero_dhcps = Inr (n, m', zero_dhcps)"
    using make_response_ack by blast
  have l: "length ?m = SERVER_BUFFER_SIZE" by (simp add: SERVER_BUFFER_SIZE_def)
  show ?thesis using dhcp_response_layout [OF l r] r by (auto simp: dhcp_consts)
qed

section \<open>A client\<close>

text \<open>C10: a client is served. A \<open>DISCOVER\<close> message of any client, with any further options that fit, is answered
  by an offer of an ordinary address of the subnet, once to that address and three times to everybody; when
  the client requests the offered address, at once or, if the cache had room for its lease, after any run of
  further passes of the loop, with other clients served in between, the server acknowledges that address.\<close>

theorem dhcp_client_is_served:
  assumes "server_inv w" "datagrams env" "wide_subnet (dhcps w)" "length xid = 4" "length mac = 6"
    and "extra_options os" "fits (discover_options os)" "\<And>ip. fits (request_options ip os')" "extra_options os'"
  shows "\<exists>ip w1 p q. serve_dhcp env (client_message xid mac 0 (discover_options os)) w = Inr w1
    \<and> events w1 = events w @ reply_events (sock (dhcps w)) ip mac p q
    \<and> reply DHCP_MESSAGE_OFFER ip mac w1 p \<and> reply DHCP_MESSAGE_OFFER ip mac w1 q
    \<and> in_subnet (dhcps w) ip \<and> ip \<notin> reserved (dhcps w)
    \<and> (\<forall>sels w2. run_res (pass_exec env) sels w1 = Inr w2 \<and>
         (sels = [] \<or> mac \<in> fst ` set (leases (dhcps w)) \<or> ac_not_full (dhcps w)) \<longrightarrow>
         (\<exists>w3 p' q' tail. serve_dhcp env (client_message xid mac 0 (request_options ip os')) w2 = Inr w3
            \<and> events w3 = events w2 @ reply_events (sock (dhcps w)) ip mac p' q' @ tail
            \<and> reply DHCP_MESSAGE_ACK ip mac w3 p' \<and> reply DHCP_MESSAGE_ACK ip mac w3 q'))"
proof -
  obtain ip w1 p q where d: "serve_dhcp env (client_message xid mac 0 (discover_options os)) w = Inr w1"
    "server_inv w1" "grows (dhcps w) (dhcps w1)" "offers mac ip (dhcps w) (dhcps w1)"
    "events w1 = events w @ reply_events (sock (dhcps w)) ip mac p q"
    "reply DHCP_MESSAGE_OFFER ip mac w1 p" "reply DHCP_MESSAGE_OFFER ip mac w1 q"
    using discover_served [OF assms(1-7)] by blast
  have addr: "in_subnet (dhcps w) ip" "ip \<notin> reserved (dhcps w)" using d(4) by (simp_all add: offers_def)
  have "\<exists>w3 p' q' tail. serve_dhcp env (client_message xid mac 0 (request_options ip os')) w2 = Inr w3
      \<and> events w3 = events w2 @ reply_events (sock (dhcps w)) ip mac p' q' @ tail
      \<and> reply DHCP_MESSAGE_ACK ip mac w3 p' \<and> reply DHCP_MESSAGE_ACK ip mac w3 q'"
    if run: "run_res (pass_exec env) sels w1 = Inr w2"
      and room: "sels = [] \<or> mac \<in> fst ` set (leases (dhcps w)) \<or> ac_not_full (dhcps w)" for sels w2
  proof -
    have w2: "server_inv w2" "grows (dhcps w1) (dhcps w2)"
      using dhcp_loop.run_ok [OF d(2), of env sels] run by simp_all
    have "may_have mac ip (dhcps w2)"
    proof (cases "sels = []")
      case True
      then show ?thesis using run offers_may_have [OF d(4)] d(3) by (simp add: grows_def)
    next
      case False
      then have "(mac, ip) \<in> set (leases (dhcps w1))" using room offers_recorded [OF d(4)] by blast
      then show ?thesis using lease_kept w2 d(2) by (simp add: server_inv_def)
    qed
    moreover have "sock (dhcps w2) = sock (dhcps w)" using d(3) w2(2) by (simp add: grows_def same_net_def)
    ultimately show ?thesis
      using request_served [OF w2(1) assms(2) _ assms(4,5,9,8)] by metis
  qed
  then show ?thesis using d addr by blast
qed

lemma ex_fits: "fits (discover_options [])" "fits (request_options ip [])" "extra_options []"
  by (simp_all add: fits_def discover_options_def request_options_def encode_options_def encode_option_def
      HDR_SIZE_def SERVER_BUFFER_SIZE_def extra_options_def)

theorem dhcp_client_is_served_witness:
  "\<exists>ip w1 p q. serve_dhcp ex_net (client_message ex_xid ex_mac 0 (discover_options [])) ex_server = Inr w1
    \<and> events w1 = events ex_server @ reply_events (sock (dhcps ex_server)) ip ex_mac p q
    \<and> reply DHCP_MESSAGE_OFFER ip ex_mac w1 p"
  using dhcp_client_is_served [OF ex_server_ok(1) ex_net_ok(1) ex_server_ok(6) ex_lens(2,1) ex_fits(3,1,2,3)] by blast

section \<open>Where the server fails\<close>

lemma make_response_no_address:
  assumes "length m = SERVER_BUFFER_SIZE" "next_yiaddr (hdr_chaddr m) d = Inl e"
  shows "make_response DHCP_MESSAGE_OFFER t b m d = Inl e"
proof -
  have "hdr_chaddr (put 12 (word_bytes 0) (put 0 [BOOTP_OP_RESPONSE, 1, 6, 0] m)) = hdr_chaddr m"
    using assms(1) by (simp add: chaddr_put SERVER_BUFFER_SIZE_def)
  then show ?thesis using assms(2) by (simp add: make_response_def Let_def)
qed

text \<open>C38: once every address of the subnet is reserved or leased, a \<open>DISCOVER\<close> message of a client without a lease
  makes the server search for ever: the thread serves nobody any more. Eight leases suffice in a subnet of
  eight addresses or fewer.\<close>

theorem exhausted_subnet_hangs:
  assumes "server_inv w" "length xid = 4" "length mac = 6" "extra_options os" "fits (discover_options os)"
    and "mac \<notin> fst ` set (leases (dhcps w))"
    and "\<And>ip. in_subnet (dhcps w) ip \<Longrightarrow> ip \<in> reserved (dhcps w) \<union> snd ` set (leases (dhcps w))"
  shows "serve_dhcp env (client_message xid mac 0 (discover_options os)) w = Inl Spins"
proof -
  have wf: "list_all wf_option (discover_options os)" "discover_options os \<noteq> []"
    using assms(4) by (simp_all add: discover_options_def extra_options_def wf_option_def bootp_consts)
  obtain m where m: "length m = SERVER_BUFFER_SIZE" "hdr_chaddr m = mac" and eq:
    "serve_dhcp env (client_message xid mac 0 (discover_options os)) w =
      map_sum id snd (respond env DHCP_MESSAGE_OFFER m (w\<lparr>dhcps := (dhcps w)\<lparr>msg := Some m\<rparr>\<rparr>))"
    using serve_dhcp_client_message [OF assms(1-3) wf assms(5), of env 0]
    by (auto simp: discover_fold [OF assms(4)] dhcp_consts)
  let ?d = "(dhcps w)\<lparr>msg := Some m\<rparr>"
  have "next_yiaddr mac ?d = Inl Spins"
    by (rule next_yiaddr_exhausted) (use assms(1,6,7) in \<open>auto simp: msg_cong server_inv_def\<close>)
  then show ?thesis using make_response_no_address [OF m(1)] m(2) by (simp add: eq respond_def)
qed

text \<open>192.168.1.1 in a subnet of four addresses, with 192.168.1.2 leased.\<close>

definition ex_small :: dhcp_world where
  "ex_small = ex_idle\<lparr>dhcps := zero_dhcps\<lparr>msg := Some (replicate 1024 0), baddr := IPADDR_BROADCAST,
     my_ip := 0x0101A8C0, netmask := 0xFCFFFFFF, count_clients := 1,
     ip_mac_mapping := (ip_mac_mapping zero_dhcps)[0 := \<lparr>client_mac = replicate 6 1, client_ip = 0x0201A8C0\<rparr>]\<rparr>\<rparr>"

lemma ex_small_leases: "leases (dhcps ex_small) = [(replicate 6 1, 0x0201A8C0)]"
  by (simp add: ex_small_def leases_def ac_entries_def zero_dhcps_def MAC_IP_CACHE_SIZE_def
      take_Suc_conv_app_nth)

lemma ex_small_reserved: "reserved (dhcps ex_small) = {0x0101A8C0, 0x0001A8C0, 0x0301A8C0}"
proof -
  have "(0x0101A8C0 :: u32) AND 0xFCFFFFFF = 0x0001A8C0" "(0x0101A8C0 :: u32) OR NOT 0xFCFFFFFF = 0x0301A8C0"
    by code_simp+
  moreover have "my_ip (dhcps ex_small) = 0x0101A8C0" "netmask (dhcps ex_small) = 0xFCFFFFFF"
    by (simp_all add: ex_small_def)
  ultimately show ?thesis by (simp only: reserved_def network_addr_def broadcast_addr_def)
qed

lemma ex_small_inv: "server_inv ex_small"
  using ex_small_leases ex_small_reserved
  by (simp add: server_inv_def cache_inv_def MAC_IP_CACHE_SIZE_def SERVER_BUFFER_SIZE_def)
    (simp add: ex_small_def zero_dhcps_def in_subnet_def network_addr_def MAC_IP_CACHE_SIZE_def)

lemma u32_less_4:
  fixes x :: u32
  assumes "x < 4"
  shows "x = 0 \<or> x = 1 \<or> x = 2 \<or> x = 3"
proof -
  have "unat x < 4" using assms by (simp add: word_less_nat_alt)
  then have "unat x = 0 \<or> unat x = 1 \<or> unat x = 2 \<or> unat x = 3" by linarith
  then show ?thesis by (simp add: word_unat_eq_iff)
qed

lemma ex_small_used:
  assumes "in_subnet (dhcps ex_small) ip"
  shows "ip \<in> reserved (dhcps ex_small) \<union> snd ` set (leases (dhcps ex_small))"
proof -
  let ?x = "take_bit 2 (drop_bit 24 ip)"
  have "(0x0101A8C0 :: u32) AND 0xFCFFFFFF = 0x0001A8C0" by code_simp
  then have n: "ip AND 0xFCFFFFFF = 0x0001A8C0"
    using assms by (simp only: in_subnet_def network_addr_def) (simp add: ex_small_def)
  have split: "ip = (ip AND k) OR (ip AND NOT k)" for k
    by (rule bit_word_eqI) (auto simp: bit_and_iff bit_or_iff bit_not_iff)
  have "NOT (0xFCFFFFFF :: u32) = push_bit 24 (mask 2)" by code_simp
  moreover have "ip AND push_bit 24 (mask 2) = push_bit 24 ?x"
    by (rule bit_word_eqI) (auto simp: bit_simps)
  ultimately have ip: "ip = 0x0001A8C0 OR push_bit 24 ?x" using n split [of "0xFCFFFFFF"] by (simp only:)
  have "unat ?x < 4" by (simp add: take_bit_eq_mod unat_mod)
  then have "?x < 4" by (simp add: word_less_nat_alt)
  from u32_less_4 [OF this] show ?thesis
    unfolding ex_small_reserved ex_small_leases by (subst ip) (elim disjE; simp)
qed

theorem exhausted_subnet_hangs_witness:
  "serve_dhcp ex_net (client_message ex_xid ex_mac 0 (discover_options [])) ex_small = Inl Spins"
  by (rule exhausted_subnet_hangs [OF ex_small_inv ex_lens(2,1) ex_fits(3,1) _ ex_small_used])
    (simp_all add: ex_small_leases ex_mac_def eval_nat_numeral)

text \<open>C39: the server does not check the address it acknowledges. A client that may have the address \<open>ip\<close> and sends a
  second requested-address option with any address outside the subnet is acknowledged that second address:
  the check skips it, and the decision made for the first one stands.\<close>

theorem request_acks_foreign_address:
  assumes "server_inv w" "datagrams env" "may_have mac ip (dhcps w)" "length xid = 4" "length mac = 6"
    and "\<not> in_subnet (dhcps w) ip2" "ip2 \<noteq> 0" "ip2 \<noteq> IPADDR_BROADCAST"
  shows "\<exists>w' p q tail.
      serve_dhcp env (client_message xid mac 0 (request_options ip [(BOOTP_OPTION_REQUESTED_IP, word_bytes ip2)])) w = Inr w'
    \<and> events w' = events w @ reply_events (sock (dhcps w)) ip2 mac p q @ tail
    \<and> reply DHCP_MESSAGE_ACK ip2 mac w' p \<and> reply DHCP_MESSAGE_ACK ip2 mac w' q"
proof -
  let ?os = "request_options ip [(BOOTP_OPTION_REQUESTED_IP, word_bytes ip2)]"
  let ?o = "\<lparr>response_type = DHCP_MESSAGE_ACK, got_ip = True, need_ip = True, got_client_ip = True\<rparr>"
  have wf: "list_all wf_option ?os" "?os \<noteq> []" "fits ?os"
    by (simp_all add: request_options_def wf_option_def bootp_consts fits_def encode_options_def encode_option_def
        HDR_SIZE_def SERVER_BUFFER_SIZE_def)
  have c0: "cache_inv (dhcps w)" using assms(1) by (simp add: server_inv_def)
  let ?d = "\<lambda>m. keep_lease mac ((dhcps w)\<lparr>msg := Some m\<rparr>\<lparr>req_ip := ip\<rparr>)"
  have keep: "cache_inv (?d m)" "grows (dhcps w) (?d m)" for m
    using keep_lease_ok [where mac = mac and d = "(dhcps w)\<lparr>msg := Some m\<rparr>\<lparr>req_ip := ip\<rparr>"] c0 assms(3)
      grows_trans [OF grows_trans [OF msg_cong(4) req_ip_cong(4)]]
    by (simp_all add: req_ip_cong msg_cong)
  have fold: "fold (apply_option 0 mac) ?os (opt_init, (dhcps w)\<lparr>msg := Some m\<rparr>) = (?o, (?d m)\<lparr>req_ip := ip2\<rparr>)" for m
  proof -
    have "fold (apply_option 0 mac) ?os (opt_init, (dhcps w)\<lparr>msg := Some m\<rparr>)
        = apply_option 0 mac (BOOTP_OPTION_REQUESTED_IP, word_bytes ip2)
            (fold (apply_option 0 mac) (request_options ip []) (opt_init, (dhcps w)\<lparr>msg := Some m\<rparr>))"
      by (simp add: request_options_def)
    also have "\<dots> = apply_option 0 mac (BOOTP_OPTION_REQUESTED_IP, word_bytes ip2) (?o, ?d m)"
      using request_fold [OF ex_fits(3), of "(dhcps w)\<lparr>msg := Some m\<rparr>"] c0 assms(3) by (simp add: msg_cong)
    also have "\<dots> = (?o, (?d m)\<lparr>req_ip := ip2\<rparr>)"
      using assms(6) keep(2) [of m] same_net_addrs(1) [of "dhcps w" "?d m"]
      by (simp add: apply_option_def requested_ip_option_def check_requested_def decide_response_def in_subnet_def
          network_addr_def grows_def same_net_def)
    finally show ?thesis .
  qed
  obtain m where m: "length m = SERVER_BUFFER_SIZE" "hdr_chaddr m = mac" and eq:
    "serve_dhcp env (client_message xid mac 0 ?os) w =
      map_sum id snd (respond env DHCP_MESSAGE_ACK m (w\<lparr>dhcps := (?d m)\<lparr>req_ip := ip2\<rparr>\<rparr>))"
    using serve_dhcp_client_message [OF assms(1,4,5) wf, of env 0] by (auto simp: fold dhcp_consts)
  let ?w = "w\<lparr>dhcps := (?d m)\<lparr>req_ip := ip2\<rparr>\<rparr>"
  have c: "cache_inv (dhcps ?w)" "baddr (dhcps ?w) = IPADDR_BROADCAST" "sock (dhcps ?w) = sock (dhcps w)"
    using keep [of m] assms(1) by (simp_all add: req_ip_cong server_inv_def grows_def same_net_def)
  have ne: "DHCP_MESSAGE_ACK \<noteq> DHCP_MESSAGE_OFFER" "DHCP_MESSAGE_ACK \<noteq> DHCP_MESSAGE_NAK" by (simp_all add: dhcp_consts)
  obtain n m1 where mk: "make_response DHCP_MESSAGE_ACK (dhcp_address_timeout ?w) (dhcp_nack_dns_server_handler ?w) m (dhcps ?w)
      = Inr (n, m1, dhcps ?w)"
    using make_response_ack by blast
  have "hdr_yiaddr m1 = ip2" using make_response_layout(5) [OF m(1) mk] ne by simp
  from respond_reply [OF assms(2) m(1) c(1,2) ne(2) mk this assms(7,8)]
  obtain w' p q tail where "respond env DHCP_MESSAGE_ACK m ?w = Inr (0, w')"
    "events w' = events w @ reply_events (sock (dhcps w)) ip2 mac p q @ tail"
    "reply DHCP_MESSAGE_ACK ip2 mac w' p" "reply DHCP_MESSAGE_ACK ip2 mac w' q"
    using m(2) c(3) by auto
  then show ?thesis using eq by auto
qed

theorem request_acks_foreign_address_witness:
  "\<exists>w' p. serve_dhcp ex_net (client_message ex_xid ex_mac 0
      (request_options 0x0201A8C0 [(BOOTP_OPTION_REQUESTED_IP, word_bytes 0x0100007F)])) ex_server = Inr w'
    \<and> reply DHCP_MESSAGE_ACK 0x0100007F ex_mac w' p"
proof -
  have "may_have ex_mac 0x0201A8C0 (dhcps ex_server)"
    by (simp add: may_have_def ex_server_ok in_subnet_def reserved_def network_addr_def broadcast_addr_def)
  moreover have "\<not> in_subnet (dhcps ex_server) 0x0100007F"
    by (simp add: ex_server_ok in_subnet_def network_addr_def)
  moreover have "(0x0100007F :: u32) \<noteq> 0" "0x0100007F \<noteq> IPADDR_BROADCAST" by (simp_all add: IPADDR_BROADCAST_def)
  ultimately show ?thesis
    using request_acks_foreign_address [OF ex_server_ok(1) ex_net_ok(1) _ ex_lens(2,1)] by blast
qed

text \<open>C36: the loop over the options looks at the length of a message only between two options: when a message fills
  the buffer and its last byte begins an option, the length byte of that option is read behind the buffer.\<close>

theorem cut_option_reads_outside:
  assumes "server_inv w" "length p = SERVER_BUFFER_SIZE" "\<not> bad_header SERVER_BUFFER_SIZE p"
    and "drop HDR_SIZE p = concat (map encode_option os) @ [ty]" "list_all wf_option os" "ty \<noteq> BOOTP_END_OPTION"
  shows "serve_dhcp env p w = Inl Out_of_bounds"
proof -
  obtain b where b: "msg (dhcps w) = Some b" "length b = SERVER_BUFFER_SIZE" using assms(1) by (auto simp: server_inv_def)
  let ?w = "w\<lparr>dhcps := (dhcps w)\<lparr>msg := Some p\<rparr>\<rparr>"
  have rcv: "receive p w = Inr (SERVER_BUFFER_SIZE, ?w)"
    using b assms(2) by (simp add: receive_def set_dhcps_def put_def Let_def)
  have "length (drop HDR_SIZE p) = length (concat (map encode_option os)) + 1" unfolding assms(4) by simp
  then have l: "length (concat (map encode_option os)) = 783" using assms(2) by (simp add: HDR_SIZE_def SERVER_BUFFER_SIZE_def)
  have "p ! 1023 = drop HDR_SIZE p ! 783" using assms(2) by (simp add: HDR_SIZE_def SERVER_BUFFER_SIZE_def)
  then have ty: "p ! 1023 = ty" unfolding assms(4) using l by (simp add: nth_append)
  have "dhcp_options p HDR_SIZE (int SERVER_BUFFER_SIZE - int HDR_SIZE) s = Inl Out_of_bounds" for s
    using dhcp_options_skip [OF assms(4,5), of "int SERVER_BUFFER_SIZE - int HDR_SIZE" s] assms(2,6) ty
    by (simp add: l HDR_SIZE_def SERVER_BUFFER_SIZE_def dhcp_options.simps [of p 1023] byte_at_def)
  then show ?thesis using assms(3)
    by (simp add: serve_dhcp_def rcv process_dhcp_message_def) (simp add: SERVER_BUFFER_SIZE_def)
qed

theorem cut_option_reads_outside_witness:
  "serve_dhcp ex_net ([1, 1, 6, 0] @ replicate 236 0
      @ concat (map encode_option [(12, replicate 255 0), (12, replicate 255 0), (12, replicate 255 0), (12, replicate 10 0)])
      @ [53]) ex_server = Inl Out_of_bounds"
proof -
  let ?os = "[(12, replicate 255 0), (12, replicate 255 0), (12, replicate 255 0), (12, replicate 10 0)] :: dhcp_option list"
  let ?p = "[1, 1, 6, 0] @ replicate 236 0 @ concat (map encode_option ?os) @ [53] :: u8 list"
  have l: "length ?p = SERVER_BUFFER_SIZE" by (simp add: encode_option_def SERVER_BUFFER_SIZE_def)
  have h: "\<not> bad_header SERVER_BUFFER_SIZE ?p"
    by (simp add: bad_header_def SERVER_BUFFER_SIZE_def HDR_SIZE_def hdr_op_def hdr_htype_def hdr_hlen_def bootp_consts)
  have d: "drop HDR_SIZE ?p = concat (map encode_option ?os) @ [53]" by (simp add: HDR_SIZE_def)
  show ?thesis
    by (rule cut_option_reads_outside [OF ex_server_ok(1) l h d]) (simp_all add: wf_option_def bootp_consts)
qed

lemma u16_at_eq_0: "u16_at m i = 0 \<longleftrightarrow> m ! i = 0 \<and> m ! (i + 1) = 0"
proof
  assume z: "u16_at m i = 0"
  have b: "bit (u16_at m i) n = False" for n by (simp add: z)
  have "bit (m ! i) n = False" if "n < 8" for n using b [of n] that by (auto simp: u16_at_def bit_simps)
  moreover have "bit (m ! (i + 1)) n = False" if "n < 8" for n
    using b [of "n + 8"] that by (auto simp: u16_at_def bit_simps)
  ultimately show "m ! i = 0 \<and> m ! (i + 1) = 0" by (auto intro!: bit_word_eqI)
qed (simp add: u16_at_def)

text \<open>C40: whether a DNS message is answered does not depend on its query flag. The flags are read in host order, so
  that the test looks at the recursion-available bit instead: a message with a question is refused exactly
  when that bit is clear, be it a query or a response, and ignored otherwise.\<close>

theorem dns_answer_ignores_query_flag:
  assumes "msg (dhcps w) = Some m" "12 \<le> len" "len \<le> length m" "datagrams env"
  shows "if bit (m ! 3) 7 \<or> m ! 4 = 0 \<and> m ! 5 = 0
    then process_dns_message env len caddr w = Inr (-1, w)
    else \<exists>w'. process_dns_message env len caddr w = Inr (-1, w') \<and> msg (dhcps w') = Some (dns_refusal m)
      \<and> Sent (dnssock (dhcps w)) caddr (take len (dns_refusal m)) \<in> set (events w')"
proof -
  have "(0x8000 :: u16) = 2 ^ 15" by simp
  then have "u16_at m 2 AND 0x8000 \<noteq> 0 \<longleftrightarrow> bit (u16_at m 2) 15" by (simp only: and_exp_eq_0_iff_not_bit not_not)
  also have "\<dots> \<longleftrightarrow> bit (m ! 3) 7"
    using bit_imp_le_length [of "m ! 2" 15] by (auto simp: u16_at_def bit_simps)
  finally have ra: "u16_at m 2 AND 0x8000 \<noteq> 0 \<longleftrightarrow> bit (m ! 3) 7" .
  have nq: "ntohs (u16_at m 4) = 0 \<longleftrightarrow> m ! 4 = 0 \<and> m ! 5 = 0"
    by (simp add: u16_at_eq_0)
  have ign: "dns_ignored len m \<longleftrightarrow> bit (m ! 3) 7 \<or> m ! 4 = 0 \<and> m ! 5 = 0"
    using assms(2) ra nq by (auto simp: dns_ignored_def)
  show ?thesis
  proof (cases "dns_ignored len m")
    case True
    then show ?thesis using assms(1) ign by (simp add: process_dns_message_def)
  next
    case False
    have lm: "length (dns_refusal m) = length m" using assms(2,3) by (simp add: dns_refusal_def short_bytes_def)
    have "take len (dns_refusal m) \<noteq> []" using assms(2,3) lm by auto
    from send_response_datagram [OF assms(4) this, where fd = "dnssock (dhcps w)" and a = caddr
        and w = "set_dhcps (msg_update (\<lambda>_. Some (dns_refusal m))) w"]
    obtain r w' where r: "send_response env (dnssock (dhcps w)) caddr (take len (dns_refusal m))
        (set_dhcps (msg_update (\<lambda>_. Some (dns_refusal m))) w) = Inr (r, w')"
      "same_but_events (set_dhcps (msg_update (\<lambda>_. Some (dns_refusal m))) w) w'"
      "Sent (dnssock (dhcps w)) caddr (take len (dns_refusal m)) \<in> set (events w')"
      by auto
    have "msg (dhcps w') = Some (dns_refusal m)" using same_but_eventsD [OF r(2)] by (simp add: set_dhcps_def)
    moreover have "process_dns_message env len caddr w = Inr (-1, w')"
      using False assms(1) r(1) by (simp add: process_dns_message_def Let_def set_dhcps_def)
    moreover have "\<not> (bit (m ! 3) 7 \<or> m ! 4 = 0 \<and> m ! 5 = 0)" using False ign by blast
    ultimately show ?thesis using r(3) by (subst if_not_P) blast+
  qed
qed

theorem dns_answer_ignores_query_flag_witness:
  "process_dns_message ex_net 12 0 (ex_idle\<lparr>dhcps := zero_dhcps\<lparr>msg := Some [0, 1, 0, 0x80, 0, 1, 0, 0, 0, 0, 0, 0]\<rparr>\<rparr>)
    = Inr (-1, ex_idle\<lparr>dhcps := zero_dhcps\<lparr>msg := Some [0, 1, 0, 0x80, 0, 1, 0, 0, 0, 0, 0, 0]\<rparr>\<rparr>)"
proof -
  let ?m = "[0, 1, 0, 0x80, 0, 1, 0, 0, 0, 0, 0, 0] :: u8 list"
  have "bit (0x80 :: u8) 7" by code_simp
  then have "bit (?m ! 3) 7" by simp
  then show ?thesis
    using dns_answer_ignores_query_flag [of "ex_idle\<lparr>dhcps := zero_dhcps\<lparr>msg := Some ?m\<rparr>\<rparr>" ?m 12 ex_net 0] ex_net_ok(1)
    by (simp del: nth_Cons_numeral)
qed

end
