(* ===== verification/Spec2Isabelle.thy ===== *)
theory Spec2Isabelle
  imports Ring_Dma Common_List Key_Main Kfifo Base64 Net_Param_Save Role_Launch_Props Dhcp_Props
begin

text \<open>
  \<^bold>\<open>A verification development for the BK7251 FreeRTOS SDK.\<close>

  The SDK (\<^verbatim>\<open>src/beken378\<close>) is the C code of a Wi-Fi and BLE microcontroller: drivers for the
  peripherals behind a small device model (\<^verbatim>\<open>driver/\<close>), services on top of them (\<^verbatim>\<open>func/\<close>), the
  application start-up (\<^verbatim>\<open>app/\<close>), and third party stacks (lwIP, hostapd, FreeRTOS, FatFs, MQTT).
  The development models the SDK's own driver core and the services on it, function by function.
  The configuration is the one of \<^verbatim>\<open>src/config/sys_config.h\<close>: SoC BK7221U, FreeRTOS.

  \<^bold>\<open>How the parts interact.\<close> A driver registers its operations by name in one of the two tables of the
  driver model; a client opens the device, gets a handle that encodes the slot, and reads, writes or
  controls it through the handle, or controls a static device by its name. The interrupt controller
  keeps one service routine per interrupt line on a circular list ordered by priority and reads the
  pending lines from the interrupt unit, itself a static device. The DMA driver registers a routine
  there and is in turn the static device behind the ring buffers of the audio driver. The GPIO driver
  is the static device behind the key service, which allocates buttons, binds them to pins and links
  them into the list that a timer tick walks. The BLE host has its own singly linked lists.
  The flash driver is a device of the driver model; partitions open it by name, and the store of network
  parameters reads its table through the device and rewrites it through the partitions. Requests to start a
  station or an access point are queued by the role launcher, which a one-shot timer wakes every 50 ms and
  which calls the start and stop functions of the Wi-Fi interface; events of the Wi-Fi library come back as
  the connection state it polls. When an access point is up, the DHCP server answers its clients over sockets
  of lwIP from a cache of leases.

  \<^bold>\<open>Theories.\<close> Machine integers are words of their width, and arithmetic wraps where the C code's does.
  \<^item> \<open>Bk_Prelude\<close>: words, byte memory, the register file, faults as values, runs of operations, loops
    over linked structures (\<open>for_each_node\<close>). Its locales are the interfaces of the development:
    \<open>guarded_system\<close> and \<open>byte_fifo\<close> (interpreted by \<open>Ring_Buffer\<close> and \<open>Kfifo\<close>), \<open>guarded_run\<close> (runs of
    a partial system whose steps may fail, interpreted by \<open>Role_Launch_Run\<close> and \<open>Dhcp_Run\<close>), \<open>simulation\<close>
    (interpreted by \<open>Drv_Model\<close> and \<open>Common_List\<close>), \<open>linked_nodes\<close> (interpreted by \<open>Doubly_List\<close> and
    \<open>Singly_Chain\<close>).
  \<^item> \<open>Byte_Order\<close>: words as bytes in memory, and the conversions to network order of lwIP.
  \<^item> \<open>Bit_Fields\<close>: fields of a 32-bit register, with the locales \<open>bit_field\<close> and \<open>bit_field_pair\<close>,
    interpreted by \<open>General_Dma\<close>.
  \<^item> \<open>Drv_Model\<close> (\<^verbatim>\<open>driver/common/drv_model.c\<close>, \<^verbatim>\<open>dd.c\<close>): the record \<open>drv_model\<close> is the two tables
    \<open>drv_dev_tbl\<close> and \<open>drv_sdev_tbl\<close>; a driver is a record of optional function values over a world.
    Shown: handles encode slots; opening and closing refine a reference count; a registered name
    reaches its driver and never redirects another; the table invariant; the exchanged loop bounds of
    the two unregister functions.
  \<^item> \<open>Soc_World\<close>: the world of the BK7221U drivers (registers, memory, handler tables) and the
    arguments of their control calls.
  \<^item> \<open>Doubly_List\<close> (\<^verbatim>\<open>common/doubly_list.h\<close>): circular lists over a heap of \<open>next\<close> and \<open>prev\<close> fields
    refine HOL lists.
  \<^item> \<open>Icu\<close> (\<^verbatim>\<open>driver/icu/icu.c\<close>): a command changes at most one register of the unit.
  \<^item> \<open>Intc\<close> (\<^verbatim>\<open>driver/intc/intc.c\<close>): registration keeps the priority order; the IRQ and FIQ entries run
    exactly the pending registered routines, most urgent first, and return; registering a line a second time
    at a more urgent place makes the dispatcher loop for ever when a line behind its old place is pending.
  \<^item> \<open>General_Dma\<close> (\<^verbatim>\<open>driver/general_dma/general_dma.c\<close>): the configuration types program what they
    name, a control call on one channel leaves the others alone, the copy on a channel configured for it copies
    (and truncates above 65536 bytes), the service routine serves every finished channel.
  \<^item> \<open>Ring_Buffer\<close>, \<open>Ring_Dma\<close> (\<^verbatim>\<open>driver/audio/ring_buffer*.c\<close>): the rings are byte queues, alone and
    with a DMA channel at one end.
  \<^item> \<open>Singly_Chain\<close>, \<open>Common_List\<close> (\<^verbatim>\<open>driver/ble/ble_pub/modules/common/src/common_list.c\<close>): null
    terminated chains; the BLE lists refine a map of sequences over every run of operations.
  \<^item> \<open>Multi_Button\<close>, \<open>Button_List\<close> (\<^verbatim>\<open>func/key/multi_button.c\<close>): one button as the composition of a
    debouncer and a click machine; the list of buttons and the timer tick.
  \<^item> \<open>Gpio\<close> (\<^verbatim>\<open>driver/gpio/gpio.c\<close>), \<open>Key_Main\<close> (\<^verbatim>\<open>func/key/key_main.c\<close>): pins, peripheral routing,
    the pin interrupt; configuring, reading and removing keys.
  \<^item> \<open>Kfifo\<close> (\<^verbatim>\<open>common/fifo.h\<close>): the byte queue with free running counters, a FIFO over every run also when
    the counters wrap.
  \<^item> \<open>Base64\<close> (\<^verbatim>\<open>func/base64/base_64.c\<close>): decoding inverts encoding for every length, and the encoder stays
    within the announced length below \<open>2 ^ 30\<close> bytes.
  \<^item> \<open>Nor_Flash\<close>: the flash controller as an interface, the locale \<open>nor_controller\<close> over register reads and
    writes, with a simulator that satisfies it. \<open>Flash\<close> (\<^verbatim>\<open>driver/flash/flash.c\<close>): the driver. \<open>Flash_Nor\<close>: what
    each function does on such a controller, proved in the locale. \<open>Flash_Spec\<close>: erase, write and read back,
    the exact effect of a write, protection types that read back, addresses outside the chip.
  \<^item> \<open>Flash_Partition\<close> (\<^verbatim>\<open>func/user_driver/BkDriverFlash.c\<close>): partitions, through the flash device of the
    driver model. The locale \<open>nor_chip\<close> extends \<open>nor_controller\<close> by a known chip that is unprotected when it
    says so; it is interpreted on the simulator.
  \<^item> \<open>Net_Param\<close> (\<^verbatim>\<open>func/net_param_intf/net_param.c\<close>): the parameter store. \<open>Net_Param_Spec\<close>: the layout of its
    table, searching and reading as lookup in an association list. \<open>Net_Param_Save\<close>: saving as update of the
    list, the composition of saving and reading down to the flash cells, and where the store fails.
  \<^item> \<open>Role_Launch\<close> (\<^verbatim>\<open>func/joint_up/role_launch.c\<close>, the one-shot timers of \<^verbatim>\<open>os/FreeRTOSv9.0.0/rtos_pub.c\<close>, the start, stop and
    scan functions of \<^verbatim>\<open>wlan_ui.c\<close> and the events that set the connection state): entities on an allocated
    heap, a slot for the station and one for the access point, the list of waiting requests.
    \<open>Role_Launch_Spec\<close>: the launcher as an abstract machine (\<open>launcher\<close>, \<open>tick\<close>, \<open>enter\<close>), which the handlers
    refine. \<open>Role_Launch_Run\<close>: runs of requests, timer expiries and events as a step relation, with its
    invariants. \<open>Role_Launch_Order\<close>: which requests a run takes, read off its events, and how many expiries a
    waiting request needs. \<open>Role_Launch_Props\<close>: no run faults, a waiting request always has a running timer,
    exactly the requests taken are started, in order, each once, a waiting one after at most two expiries that find
    everything ready, and a station that loses its network reconnects.
  \<^item> \<open>Dhcp_Cache\<close>, \<open>Dhcp_Message\<close>, \<open>Dhcp_Server\<close> (\<^verbatim>\<open>func/lwip_intf/dhcpd/dhcp-server.c\<close>, \<^verbatim>\<open>dhcp-server-main.c\<close>): the
    cache of leases and the search for a free address; reading and answering messages in the buffer; the loop
    of the thread, start and stop. \<open>Dhcp_Spec\<close>: the options of a message as a list, reading them as a fold over
    it, responses as the encoding of one. \<open>Dhcp_Run\<close>: the invariant of the cache, and runs of the loop as
    instances of \<open>guarded_run\<close>. \<open>Dhcp_Client\<close>: the messages of a client and the replies to them.
    \<open>Dhcp_Props\<close>: leases are unique over every run, short messages in a subnet of sixteen addresses always
    return, a client is offered an address and gets it acknowledged; and where the server fails.

  \<^bold>\<open>Loops and faults.\<close> A loop over a linked structure or a polling loop is a \<open>partial_function\<close> into
  \<open>option\<close>: not returning is \<open>None\<close>, and theorems about well-formed states prove \<open>Some\<close>. Loops with a
  constant bound are structural recursions over that bound. A failed \<open>ASSERT\<close> (which spins), a null
  dereference, an index outside an array, a struct read through the wrong pointer and a block that is not
  allocated are values of \<open>c_fault\<close>. There is no fuel.

  \<^bold>\<open>Parameters.\<close> Hardware and code behind function pointers are arguments: the DMA engine \<open>hw\<close> (one step
  of the hardware between two polls), the functions \<open>call\<close> behind handler addresses, the address that
  \<open>os_malloc\<close> or \<open>os_zalloc\<close> returns, the pin operations of the matrix keys, the level functions of buttons,
  the flash controller \<open>io\<close> and the system control device \<open>sctrl\<close> that the flash driver calls, the results
  of the timer commands of the kernel and of \<open>hostapd_main\<close> for the role launcher, the results of lwIP for the
  DHCP server (\<open>net_env\<close>, \<open>init_env\<close>, \<open>select_result\<close>).
  What a theorem needs of them is a hypothesis of the theorem, and its witness gives an instance. Of the DMA engine
  it is \<open>dma_engine\<close>: a channel whose configuration word asks for a plain copy of memory (equal widths, both
  addresses increasing, no loop, no repeat), when it is enabled, copies aligned blocks that do not overlap.
  Mutexes and disabled interrupts make the sections they guard atomic; they have no other effect
  on the state. Printing is left out.

  \<^bold>\<open>Bounds.\<close> The loop of \<open>bk_flash_erase\<close> runs over the sector numbers of a range, which are below \<open>2 ^ 20\<close>, so
  its counter does not wrap and the recursion over their number is exact. The table of network parameters
  has at most 280 bytes as long as only the known items are saved, which is less than a sector. The role
  launcher holds at most as many entities as were requested and not yet served; the theorem that a run does not
  fault asks for no more memory than the allocator grants. The cache of the DHCP server has eight entries: with
  the three reserved addresses eleven at most are taken, so twelve steps of the search find a free one among
  sixteen. An option is read up to six bytes behind the place where the length was last checked, hence the
  bound of 1019 bytes for a message in a buffer of 1024.

  \<^bold>\<open>Not modelled.\<close> Third party code in the tree (lwIP, hostapd and wpa\_supplicant, the FreeRTOS kernel, FatFs,
  EasyFlash, the MQTT client, the MP3 decoder) and the glue to the binary Wi-Fi and BLE libraries, whose
  behaviour the repository does not show. RF calibration works on measured values. The serial, timer, PWM,
  watchdog, converter, camera and SD card drivers are register sequences on peripherals that the
  repository does not describe. \<open>test_flash_*\<close> of the partitions and the exception dumps of the interrupt
  controller only print. Of the Wi-Fi interface only what starts, stops and watches a role is modelled: its
  parameter blocks, the wait for the previous beacon and the command line are left out. Of the FreeRTOS wrapper
  only the one-shot timers are. Power save switches clocks around the binary MAC library. lwIP itself is third
  party code: its sockets are parameters.
\<close>

end
